(* ===== verification/Prelude.thy ===== *)
theory Prelude
  imports Complex_Main "HOL-Library.Sublist" "HOL-Library.AList"
    "HOL-Library.List_Lexorder" "HOL-Library.Char_ord"
begin

text \<open>
  Shared ground of the development: the part of Go's \<open>strings\<close> and \<open>strconv\<close> packages the
  framework calls, Go's dynamically typed values (\<open>any\<close>), association lists for Go maps, and
  the generic lemmas the component theories use.

  A Go string is a list of bytes (\<open>string\<close>, a char list). Operations of Go that decode runes
  (\<open>ToLower\<close>, \<open>TrimSpace\<close>, \<open>unicode.IsUpper\<close>) are given on ASCII bytes; a byte above 127 is
  neither a letter nor white space here. Times and durations are integers in nanoseconds,
  time 0 being Go's zero \<open>time.Time\<close>.
\<close>

named_theorems go_eval "unfolding rules that evaluate the string helpers"

type_synonym time = int
type_synonym duration = int

subsection \<open>Characters\<close>

definition is_upper :: "char \<Rightarrow> bool" where
  "is_upper c \<longleftrightarrow> (65::nat) \<le> of_char c \<and> of_char c \<le> (90::nat)"

definition is_lower :: "char \<Rightarrow> bool" where
  "is_lower c \<longleftrightarrow> (97::nat) \<le> of_char c \<and> of_char c \<le> (122::nat)"

definition is_digit :: "char \<Rightarrow> bool" where
  "is_digit c \<longleftrightarrow> (48::nat) \<le> of_char c \<and> of_char c \<le> (57::nat)"

definition to_lower_c :: "char \<Rightarrow> char" where
  "to_lower_c c = (if is_upper c then char_of (of_char c + (32::nat)) else c)"

definition to_upper_c :: "char \<Rightarrow> char" where
  "to_upper_c c = (if is_lower c then char_of (of_char c - (32::nat)) else c)"

definition is_space :: "char \<Rightarrow> bool" where
  "is_space c \<longleftrightarrow> c \<in> {CHR 0x09, CHR 0x0A, CHR 0x0B, CHR 0x0C, CHR 0x0D, CHR '' ''}"

definition to_lower :: "string \<Rightarrow> string" where
  "to_lower s = map to_lower_c s"

definition to_upper :: "string \<Rightarrow> string" where
  "to_upper s = map to_upper_c s"

lemmas char_defs = is_upper_def is_lower_def is_digit_def to_lower_c_def to_upper_c_def is_space_def

declare char_defs [go_eval] to_lower_def [go_eval] to_upper_def [go_eval]

lemma of_char_to_lower: "is_upper c \<Longrightarrow> (of_char (to_lower_c c) :: nat) = of_char c + 32"
  by (simp add: to_lower_c_def is_upper_def)

lemma not_upper_to_lower [simp]: "\<not> is_upper (to_lower_c c)"
proof (cases "is_upper c")
  case True
  then have "(of_char (to_lower_c c) :: nat) = of_char c + 32" by (rule of_char_to_lower)
  with True show ?thesis by (simp add: is_upper_def)
qed (simp add: to_lower_c_def)

lemma to_lower_c_id [simp]: "\<not> is_upper c \<Longrightarrow> to_lower_c c = c"
  by (simp add: to_lower_c_def)

lemma upper_not_lower: "is_upper c \<Longrightarrow> \<not> is_lower c"
  by (simp add: is_upper_def is_lower_def)

lemma is_lower_to_lower: "is_upper c \<Longrightarrow> is_lower (to_lower_c c)"
  by (simp add: is_lower_def of_char_to_lower) (simp add: is_upper_def)

lemma length_to_upper [simp]: "length (to_upper s) = length s"
  by (simp add: to_upper_def)

lemma length_to_lower [simp]: "length (to_lower s) = length s"
  by (simp add: to_lower_def)

subsection \<open>Prefixes, suffixes, trimming\<close>

abbreviation has_prefix :: "string \<Rightarrow> string \<Rightarrow> bool" where
  "has_prefix s p \<equiv> prefix p s"

abbreviation has_suffix :: "string \<Rightarrow> string \<Rightarrow> bool" where
  "has_suffix s p \<equiv> suffix p s"

declare suffix_to_prefix [go_eval]

definition trim_prefix :: "string \<Rightarrow> string \<Rightarrow> string" where
  "trim_prefix s p = (if has_prefix s p then drop (length p) s else s)"

definition trim_suffix :: "string \<Rightarrow> string \<Rightarrow> string" where
  "trim_suffix s p = (if has_suffix s p then take (length s - length p) s else s)"

definition trim_by :: "(char \<Rightarrow> bool) \<Rightarrow> string \<Rightarrow> string" where
  "trim_by P s = rev (dropWhile P (rev (dropWhile P s)))"

abbreviation trim_space :: "string \<Rightarrow> string" where
  "trim_space \<equiv> trim_by is_space"

declare trim_prefix_def [go_eval] trim_suffix_def [go_eval] trim_by_def [go_eval]

lemma set_dropWhile_sub: "set (dropWhile P s) \<subseteq> set s"
  by (induction s) auto

lemma set_trim_by: "set (trim_by P s) \<subseteq> set s"
proof -
  have "set (trim_by P s) = set (dropWhile P (rev (dropWhile P s)))" by (simp add: trim_by_def)
  also have "\<dots> \<subseteq> set (rev (dropWhile P s))" by (rule set_dropWhile_sub)
  also have "\<dots> = set (dropWhile P s)" by (rule set_rev)
  also have "\<dots> \<subseteq> set s" by (rule set_dropWhile_sub)
  finally show ?thesis .
qed

lemma trim_by_split: "\<exists>l r. s = l @ trim_by P s @ r \<and> (\<forall>c\<in>set l. P c) \<and> (\<forall>c\<in>set r. P c)"
proof -
  let ?m = "dropWhile P s"
  have s: "s = takeWhile P s @ ?m" by simp
  have "rev ?m = takeWhile P (rev ?m) @ dropWhile P (rev ?m)" by simp
  then have "?m = trim_by P s @ rev (takeWhile P (rev ?m))"
    unfolding trim_by_def by (metis rev_append rev_rev_ident)
  with s have "s = takeWhile P s @ trim_by P s @ rev (takeWhile P (rev ?m))" by simp
  moreover have "\<forall>c\<in>set (takeWhile P s). P c" by (auto dest: set_takeWhileD)
  moreover have "\<forall>c\<in>set (rev (takeWhile P (rev ?m))). P c" by (auto dest: set_takeWhileD)
  ultimately show ?thesis by blast
qed

lemma dropWhile_hd: "s = [] \<or> \<not> P (hd s) \<Longrightarrow> dropWhile P s = s"
  by (cases s) auto

lemma trim_by_id: "s = [] \<or> (\<not> P (hd s) \<and> \<not> P (last s)) \<Longrightarrow> trim_by P s = s"
  by (auto simp: trim_by_def dropWhile_hd hd_rev)

lemma trim_by_idem [simp]: "trim_by P (trim_by P s) = trim_by P s"
proof -
  have "trim_by P s = [] \<or> (\<not> P (hd (trim_by P s)) \<and> \<not> P (last (trim_by P s)))"
  proof (cases "trim_by P s = []")
    case False
    let ?m = "dropWhile P s"
    have ne: "?m \<noteq> []"
    proof
      assume "?m = []"
      then have "trim_by P s = []"
        unfolding trim_by_def by (simp only: rev.simps(1) dropWhile.simps(1))
      with False show False ..
    qed
    have tr: "dropWhile P (rev ?m) \<noteq> []" using False by (simp add: trim_by_def)
    have "\<not> P (hd ?m)" using ne by (rule hd_dropWhile)
    obtain r where r: "?m = trim_by P s @ r"
      by (metis (no_types) rev_rev_ident rev_append takeWhile_dropWhile_id trim_by_def)
    then have "hd ?m = hd (trim_by P s)" using False by (metis hd_append2)
    moreover have "last (trim_by P s) = hd (dropWhile P (rev ?m))"
      by (simp add: trim_by_def last_rev tr)
    moreover have "\<not> P (hd (dropWhile P (rev ?m)))" using tr by (rule hd_dropWhile)
    ultimately show ?thesis using \<open>\<not> P (hd ?m)\<close> by simp
  qed simp
  then show ?thesis by (rule trim_by_id)
qed

subsection \<open>Splitting and joining\<close>

fun split_chr :: "char \<Rightarrow> string \<Rightarrow> string list" where
  "split_chr c [] = [[]]"
| "split_chr c (x # xs) =
     (if x = c then [] # split_chr c xs
      else (case split_chr c xs of [] \<Rightarrow> [[x]] | y # ys \<Rightarrow> (x # y) # ys))"

fun join :: "string \<Rightarrow> string list \<Rightarrow> string" where
  "join sep [] = []"
| "join sep [x] = x"
| "join sep (x # y # ys) = x @ sep @ join sep (y # ys)"

definition cut_chr :: "char \<Rightarrow> string \<Rightarrow> string \<times> string \<times> bool" where
  "cut_chr c s =
     (case dropWhile (\<lambda>x. x \<noteq> c) s of
        [] \<Rightarrow> (s, [], False)
      | _ # rest \<Rightarrow> (takeWhile (\<lambda>x. x \<noteq> c) s, rest, True))"

declare cut_chr_def [go_eval]

lemma split_chr_ne [simp]: "split_chr c s \<noteq> []"
  by (induction s) (auto split: list.splits)

lemma join_Cons: "join sep (x # xs) = (if xs = [] then x else x @ sep @ join sep xs)"
  by (cases xs) auto

lemma join_split_chr: "join [c] (split_chr c s) = s"
proof (induction s)
  case (Cons x xs)
  then show ?case
    by (cases "split_chr c xs") (auto simp: join_Cons split: if_splits)
qed simp

lemma split_chr_no_sep: "p \<in> set (split_chr c s) \<Longrightarrow> c \<notin> set p"
proof (induction s arbitrary: p)
  case (Cons x xs)
  then show ?case
    by (cases "split_chr c xs") (auto split: if_splits)
qed simp

lemma split_chr_single: "c \<notin> set s \<Longrightarrow> split_chr c s = [s]"
  by (induction s) auto

lemma split_chr_append: "c \<notin> set p \<Longrightarrow> split_chr c (p @ c # s) = p # split_chr c s"
  by (induction p) auto

lemma length_split_chr: "length (split_chr c s) = Suc (count_list s c)"
  by (induction s) (auto split: list.splits)

lemma takeWhile_sep: "c \<notin> set a \<Longrightarrow> takeWhile (\<lambda>x. x \<noteq> c) (a @ c # b) = a"
  by (induction a) auto

lemma dropWhile_sep: "c \<notin> set a \<Longrightarrow> dropWhile (\<lambda>x. x \<noteq> c) (a @ c # b) = c # b"
  by (induction a) auto

lemma cut_chr_append: "c \<notin> set a \<Longrightarrow> cut_chr c (a @ c # b) = (a, b, True)"
  by (simp add: cut_chr_def takeWhile_sep dropWhile_sep)

lemma cut_chr_absent: "c \<notin> set s \<Longrightarrow> cut_chr c s = (s, [], False)"
proof -
  assume "c \<notin> set s"
  then have "dropWhile (\<lambda>x. x \<noteq> c) s = []" by (induction s) auto
  then show ?thesis unfolding cut_chr_def by (simp only: list.case)
qed

lemma cut_chr_found: "cut_chr c s = (a, b, True) \<Longrightarrow> s = a @ c # b \<and> c \<notin> set a"
proof (cases "c \<in> set s")
  case True
  assume a: "cut_chr c s = (a, b, True)"
  obtain p q where "s = p @ c # q" "c \<notin> set p" using True by (meson split_list_first)
  with a show ?thesis by (simp add: cut_chr_append)
qed (simp add: cut_chr_absent)

lemma count_list_join:
  "count_list (join sep xs) c = sum_list (map (\<lambda>x. count_list x c) xs) + (length xs - 1) * count_list sep c"
  by (induction sep xs rule: join.induct) auto

lemma set_join: "set (join sep xs) \<subseteq> \<Union> (set (map set xs)) \<union> set sep"
  by (induction sep xs rule: join.induct) auto

lemma count_list_0: "c \<notin> set s \<Longrightarrow> count_list s c = 0"
  by (simp add: count_list_0_iff)

subsection \<open>Numbers\<close>

definition digit_chr :: "nat \<Rightarrow> char" where
  "digit_chr d = char_of (48 + d)"

fun utoa :: "nat \<Rightarrow> string" where
  "utoa n = (if n < 10 then [digit_chr n] else utoa (n div 10) @ [digit_chr (n mod 10)])"

declare utoa.simps [simp del]

definition itoa :: "int \<Rightarrow> string" where
  "itoa i = (if i < 0 then CHR ''-'' # utoa (nat (- i)) else utoa (nat i))"

definition max_int :: int where "max_int = 2 ^ 63 - 1"
definition min_int :: int where "min_int = - (2 ^ 63)"

definition digit_val :: "char \<Rightarrow> nat" where
  "digit_val c = of_char c - 48"

fun digits_val :: "nat \<Rightarrow> string \<Rightarrow> nat" where
  "digits_val a [] = a"
| "digits_val a (c # cs) = digits_val (10 * a + digit_val c) cs"

text \<open>
  \<open>strconv.Atoi\<close> on a 64-bit platform: the value and whether the error is nil. A syntax error
  gives 0, a range error the nearest representable value.
\<close>

definition atoi :: "string \<Rightarrow> int \<times> bool" where
  "atoi s =
     (let neg = (s \<noteq> [] \<and> hd s = CHR ''-'');
          body = (if s \<noteq> [] \<and> hd s \<in> {CHR ''-'', CHR ''+''} then tl s else s)
      in if body = [] \<or> \<not> list_all is_digit body then (0, False)
         else let v = (if neg then - int (digits_val 0 body) else int (digits_val 0 body))
              in if v > max_int then (max_int, False)
                 else if v < min_int then (min_int, False) else (v, True))"

lemma digit_chr_numerals [go_eval]:
  "digit_chr 0 = CHR ''0''" "digit_chr 1 = CHR ''1''" "digit_chr 2 = CHR ''2''"
  "digit_chr 3 = CHR ''3''" "digit_chr 4 = CHR ''4''" "digit_chr 5 = CHR ''5''"
  "digit_chr 6 = CHR ''6''" "digit_chr 7 = CHR ''7''" "digit_chr 8 = CHR ''8''"
  "digit_chr 9 = CHR ''9''"
  by code_simp+

lemma digit_chr_Suc_0 [go_eval]: "digit_chr (Suc 0) = CHR ''1''"
  by code_simp

lemma is_digit_digit_chr [simp]: "d < 10 \<Longrightarrow> is_digit (digit_chr d)"
  by (simp add: is_digit_def digit_chr_def)

lemma digit_val_digit_chr [simp]: "d < 10 \<Longrightarrow> digit_val (digit_chr d) = d"
  by (simp add: digit_val_def digit_chr_def)

lemma utoa_digits: "list_all is_digit (utoa n)"
proof (induction n rule: utoa.induct)
  case (1 n)
  then show ?case by (cases "n < 10") (simp_all add: utoa.simps[of n])
qed

lemma utoa_ne [simp]: "utoa n \<noteq> []"
  by (subst utoa.simps) simp

lemma digits_val_append: "digits_val a (xs @ ys) = digits_val (digits_val a xs) ys"
  by (induction xs arbitrary: a) auto

lemma digits_val_utoa: "digits_val 0 (utoa n) = n"
proof (induction n rule: utoa.induct)
  case (1 n)
  then show ?case by (cases "n < 10") (simp_all add: utoa.simps[of n] digits_val_append)
qed

lemma utoa_inj: "utoa m = utoa n \<Longrightarrow> m = n"
  by (metis digits_val_utoa)

lemma atoi_utoa: "int n \<le> max_int \<Longrightarrow> atoi (utoa n) = (int n, True)"
proof -
  assume n: "int n \<le> max_int"
  have d: "is_digit (hd (utoa n))"
    using utoa_digits[of n] by (cases "utoa n") auto
  then have "hd (utoa n) \<noteq> CHR ''-''" "hd (utoa n) \<noteq> CHR ''+''"
    by (auto simp: is_digit_def)
  with n show ?thesis
    by (simp add: atoi_def utoa_digits digits_val_utoa max_int_def min_int_def Let_def)
qed

text \<open>Signed 64-bit arithmetic: the wrap-around of \<open>int\<close>, and division that truncates to zero.\<close>

definition wrap64 :: "int \<Rightarrow> int" where
  "wrap64 i = (i + 2 ^ 63) mod 2 ^ 64 - 2 ^ 63"

definition go_div :: "int \<Rightarrow> int \<Rightarrow> int" where
  "go_div a b = sgn a * sgn b * (\<bar>a\<bar> div \<bar>b\<bar>)"

lemma wrap64_id: "min_int \<le> i \<Longrightarrow> i \<le> max_int \<Longrightarrow> wrap64 i = i"
  by (simp add: wrap64_def min_int_def max_int_def mod_pos_pos_trivial)

lemma go_div_nonneg: "0 \<le> a \<Longrightarrow> 0 < b \<Longrightarrow> go_div a b = a div b"
  by (cases "a = 0") (auto simp: go_div_def)

subsection \<open>Dynamic values\<close>

text \<open>
  Go's \<open>any\<close> as far as the framework inspects it: a value carries its dynamic type. \<open>GPtr None\<close>
  is a typed nil pointer, \<open>GSlice None\<close> a nil slice, \<open>GStruct b\<close> any other value with \<open>b\<close> its \<open>reflect.Value.IsZero\<close>.
\<close>

datatype ikind = KInt | KInt8 | KInt16 | KInt32 | KInt64
datatype ukind = KUint | KUint8 | KUint16 | KUint32 | KUint64
datatype fkind = KFloat32 | KFloat64

datatype goval =
    GNil
  | GPtr "goval option"
  | GStr string
  | GInt ikind int
  | GUint ukind nat
  | GFloat fkind rat
  | GBool bool
  | GBytes string
  | GTime time
  | GSlice "goval list option"
  | GStruct bool nat

subsection \<open>Go maps as association lists\<close>

text \<open>
  A Go map is an association list with distinct keys; its order stands for the (unspecified)
  iteration order, so lemmas must not depend on it.
\<close>

lemma map_of_AList_delete_self [simp]: "map_of (AList.delete k m) k = None"
  by (simp add: AList.delete_conv')

lemma map_of_AList_delete_other [simp]: "k \<noteq> k' \<Longrightarrow> map_of (AList.delete k m) k' = map_of m k'"
  by (simp add: AList.delete_conv')

lemma map_of_AList_update_self [simp]: "map_of (AList.update k v m) k = Some v"
  by (simp add: AList.update_conv')

lemma map_of_AList_update_other [simp]: "k \<noteq> k' \<Longrightarrow> map_of (AList.update k v m) k' = map_of m k'"
  by (simp add: AList.update_conv')

lemma length_AList_update:
  "length (AList.update k v m) = (if k \<in> fst ` set m then length m else Suc (length m))"
  by (induction m) auto

lemma AList_update_fresh: "k \<notin> fst ` set m \<Longrightarrow> AList.update k v m = m @ [(k, v)]"
  by (induction m) auto

lemma map_of_filter_key:
  "distinct (map fst m) \<Longrightarrow>
   map_of (filter P m) k = (case map_of m k of None \<Rightarrow> None | Some v \<Rightarrow> if P (k, v) then Some v else None)"
proof (induction m)
  case (Cons a m)
  then show ?case
    by (cases a) (auto split: option.splits simp: map_of_eq_None_iff image_iff dest!: map_of_SomeD)
qed simp

lemma distinct_map_fst_filter: "distinct (map fst m) \<Longrightarrow> distinct (map fst (filter P m))"
  by (induction m) auto

lemma length_AList_delete:
  "distinct (map fst m) \<Longrightarrow> k \<in> fst ` set m \<Longrightarrow> Suc (length (AList.delete k m)) = length m"
proof (induction m)
  case (Cons a m)
  show ?case
  proof (cases "fst a = k")
    case True
    with Cons.prems have "k \<notin> fst ` set m" by auto
    then have "AList.delete k m = m" by (rule AList.delete_id)
    with True show ?thesis by (cases a) simp
  qed (use Cons in \<open>cases a, auto\<close>)
qed simp

end
