(* ===== verification/OrmModel.thy ===== *)
theory OrmModel
  imports Prelude
begin

text \<open>
  Model metadata of the ORM: \<open>core/orm/model.go\<close> (struct tags, snake case, table names) and the
  three validators at the top of \<open>core/orm/query.go\<close> that guard every piece of SQL text which is
  not a placeholder. The regular expressions are deterministic scanners: after an identifier the
  next character decides, so no backtracking is needed.
\<close>

subsection \<open>The validators (\<open>reIdent\<close>, \<open>reJoinOn\<close>, \<open>reDefault\<close>)\<close>

definition ident_start :: "char \<Rightarrow> bool" where
  "ident_start c \<longleftrightarrow> is_upper c \<or> is_lower c \<or> c = CHR ''_''"

definition ident_char :: "char \<Rightarrow> bool" where
  "ident_char c \<longleftrightarrow> ident_start c \<or> is_digit c"

definition re_space :: "char \<Rightarrow> bool" where
  "re_space c \<longleftrightarrow> c \<in> {CHR 0x09, CHR 0x0A, CHR 0x0C, CHR 0x0D, CHR '' ''}"

fun re_ident :: "string \<Rightarrow> string option" where
  "re_ident [] = None"
| "re_ident (c # cs) = (if ident_start c then Some (dropWhile ident_char cs) else None)"

definition re_dir :: "string \<Rightarrow> bool" where
  "re_dir t \<longleftrightarrow> t = [] \<or> (re_space (hd t) \<and> to_upper (dropWhile re_space t) \<in> {''ASC'', ''DESC''})"

definition valid_ident :: "string \<Rightarrow> bool" where
  "valid_ident s =
     (case re_ident (trim_space s) of
        None \<Rightarrow> False
      | Some t \<Rightarrow>
          if t \<noteq> [] \<and> hd t = CHR ''.''
          then (case re_ident (tl t) of None \<Rightarrow> False | Some u \<Rightarrow> re_dir u)
          else re_dir t)"

definition re_qualified :: "string \<Rightarrow> string option" where
  "re_qualified s =
     (case re_ident s of
        None \<Rightarrow> None
      | Some t \<Rightarrow> if t \<noteq> [] \<and> hd t = CHR ''.'' then re_ident (tl t) else None)"

definition valid_join_on :: "string \<Rightarrow> bool" where
  "valid_join_on s =
     (case re_qualified (trim_space s) of
        None \<Rightarrow> False
      | Some t \<Rightarrow>
          (let u = dropWhile re_space t
           in u \<noteq> [] \<and> hd u = CHR ''='' \<and> re_qualified (dropWhile re_space (tl u)) = Some []))"

definition re_number :: "string \<Rightarrow> bool" where
  "re_number s =
     (let b = (if s \<noteq> [] \<and> hd s = CHR ''-'' then tl s else s); r = dropWhile is_digit b
      in b \<noteq> [] \<and> is_digit (hd b) \<and>
         (r = [] \<or> (hd r = CHR ''.'' \<and> tl r \<noteq> [] \<and> list_all is_digit (tl r))))"

definition re_quoted :: "string \<Rightarrow> bool" where
  "re_quoted s \<longleftrightarrow>
     s \<noteq> [] \<and> hd s = CHR 0x27 \<and> dropWhile (\<lambda>c. c \<noteq> CHR 0x27) (tl s) = [CHR 0x27]"

definition valid_default :: "string \<Rightarrow> bool" where
  "valid_default s =
     (let t = trim_space s
      in re_number t \<or> re_quoted t \<or>
         (case re_ident t of None \<Rightarrow> False | Some r \<Rightarrow> r = [] \<or> r = ''()''))"

lemmas re_defs = ident_start_def ident_char_def re_space_def re_dir_def valid_ident_def
  re_qualified_def valid_join_on_def re_number_def re_quoted_def valid_default_def

declare re_defs [go_eval]

text \<open>What a validated text can contain.\<close>

definition sql_safe_char :: "char \<Rightarrow> bool" where
  "sql_safe_char c \<longleftrightarrow> ident_char c \<or> c = CHR ''.'' \<or> is_space c"

lemma re_space_is_space: "re_space c \<Longrightarrow> is_space c"
  by (auto simp: re_space_def is_space_def)

lemma re_ident_split: "re_ident s = Some r \<Longrightarrow> \<exists>a. s = a @ r \<and> a \<noteq> [] \<and> (\<forall>c\<in>set a. ident_char c)"
proof (cases s)
  case (Cons c cs)
  assume "re_ident s = Some r"
  with Cons have c: "ident_start c" and r: "r = dropWhile ident_char cs" by (auto split: if_splits)
  have "s = (c # takeWhile ident_char cs) @ r" using Cons r by simp
  moreover have "\<forall>x\<in>set (c # takeWhile ident_char cs). ident_char x"
    using c by (auto simp: ident_char_def dest: set_takeWhileD)
  ultimately show ?thesis by blast
qed simp

lemma re_ident_chars: "re_ident s = Some r \<Longrightarrow> \<forall>c\<in>set r. P c \<Longrightarrow>
    (\<And>c. ident_char c \<Longrightarrow> P c) \<Longrightarrow> \<forall>c\<in>set s. P c"
  by (drule re_ident_split) auto

lemma to_upper_letter: "to_upper_c c \<in> set ''ASCDESC'' \<Longrightarrow> ident_char c"
  by (cases "is_lower c") (auto simp: to_upper_c_def ident_char_def ident_start_def is_upper_def)

lemma re_dir_chars: assumes "re_dir t" shows "\<forall>c\<in>set t. sql_safe_char c"
proof (cases "t = []")
  case False
  with assms have u: "to_upper (dropWhile re_space t) \<in> {''ASC'', ''DESC''}" by (simp add: re_dir_def)
  have "\<forall>c\<in>set (dropWhile re_space t). sql_safe_char c"
  proof
    fix c assume "c \<in> set (dropWhile re_space t)"
    then have "to_upper_c c \<in> set (to_upper (dropWhile re_space t))" by (simp add: to_upper_def)
    with u have "to_upper_c c \<in> set ''ASCDESC''" by auto
    then show "sql_safe_char c" using to_upper_letter unfolding sql_safe_char_def by blast
  qed
  moreover have "\<forall>c\<in>set (takeWhile re_space t). sql_safe_char c"
    by (auto simp: sql_safe_char_def re_space_is_space dest: set_takeWhileD)
  ultimately show ?thesis by (metis Un_iff set_append takeWhile_dropWhile_id)
qed simp

lemma valid_ident_chars: assumes "valid_ident s" shows "\<forall>c\<in>set s. sql_safe_char c"
proof -
  have ic: "ident_char c \<Longrightarrow> sql_safe_char c" for c by (simp add: sql_safe_char_def)
  have dot: "sql_safe_char (CHR ''.'')" by (simp add: sql_safe_char_def)
  obtain t where t: "re_ident (trim_space s) = Some t"
    using assms by (auto simp: valid_ident_def split: option.splits)
  have "\<forall>c\<in>set t. sql_safe_char c"
  proof (cases "t \<noteq> [] \<and> hd t = CHR ''.''")
    case True
    then obtain u where u: "t = CHR ''.'' # u" by (cases t) auto
    with assms t obtain w where w: "re_ident u = Some w" "re_dir w"
      by (auto simp: valid_ident_def split: option.splits)
    then have "\<forall>c\<in>set u. sql_safe_char c" using re_ident_chars re_dir_chars ic by blast
    with u dot show ?thesis by simp
  next
    case False
    with assms t have "re_dir t" by (auto simp: valid_ident_def)
    then show ?thesis by (rule re_dir_chars)
  qed
  then have m: "\<forall>c\<in>set (trim_space s). sql_safe_char c" using re_ident_chars[OF t] ic by blast
  obtain l r where "s = l @ trim_space s @ r" "\<forall>c\<in>set l. is_space c" "\<forall>c\<in>set r. is_space c"
    using trim_by_split by blast
  with m show ?thesis by (metis Un_iff set_append sql_safe_char_def)
qed

lemma sql_safe_not_q [simp]: "\<not> sql_safe_char (CHR ''?'')"
  by (simp add: sql_safe_char_def re_defs char_defs)

lemma valid_ident_no_q: "valid_ident s \<Longrightarrow> CHR ''?'' \<notin> set s"
  using valid_ident_chars sql_safe_not_q by blast

lemma re_qualified_chars:
  "re_qualified s = Some r \<Longrightarrow> \<forall>c\<in>set r. sql_safe_char c \<or> c = CHR ''='' \<Longrightarrow>
   \<forall>c\<in>set s. sql_safe_char c \<or> c = CHR ''=''"
proof -
  assume q: "re_qualified s = Some r" and r: "\<forall>c\<in>set r. sql_safe_char c \<or> c = CHR ''=''"
  then obtain u where u: "re_ident s = Some (CHR ''.'' # u)" "re_ident u = Some r"
    by (auto simp: re_qualified_def neq_Nil_conv split: option.splits if_splits)
  have "\<forall>c\<in>set u. sql_safe_char c \<or> c = CHR ''=''"
    by (rule re_ident_chars[OF u(2) r]) (simp add: sql_safe_char_def)
  then show ?thesis
    by (intro re_ident_chars[OF u(1)]) (auto simp: sql_safe_char_def)
qed

lemma valid_join_on_chars:
  assumes "valid_join_on s" shows "\<forall>c\<in>set s. sql_safe_char c \<or> c = CHR ''=''"
proof -
  obtain t u where t: "re_qualified (trim_space s) = Some t"
    and u: "dropWhile re_space t = CHR ''='' # u"
    and q: "re_qualified (dropWhile re_space u) = Some []"
    using assms by (auto simp: valid_join_on_def Let_def neq_Nil_conv split: option.splits)
  have sp: "\<forall>c\<in>set (takeWhile re_space x). sql_safe_char c" for x
    by (auto simp: sql_safe_char_def re_space_is_space dest: set_takeWhileD)
  have "\<forall>c\<in>set (dropWhile re_space u). sql_safe_char c \<or> c = CHR ''=''"
    using re_qualified_chars[OF q] by simp
  with sp have "\<forall>c\<in>set u. sql_safe_char c \<or> c = CHR ''=''"
    by (metis Un_iff set_append takeWhile_dropWhile_id)
  with u sp have "\<forall>c\<in>set t. sql_safe_char c \<or> c = CHR ''=''"
    by (metis Un_iff insert_iff list.set(2) set_append takeWhile_dropWhile_id)
  with t have m: "\<forall>c\<in>set (trim_space s). sql_safe_char c \<or> c = CHR ''=''"
    by (rule re_qualified_chars)
  obtain l r where "s = l @ trim_space s @ r" "\<forall>c\<in>set l. is_space c" "\<forall>c\<in>set r. is_space c"
    using trim_by_split by blast
  with m show ?thesis by (metis Un_iff set_append sql_safe_char_def)
qed

lemma valid_join_on_no_q: "valid_join_on s \<Longrightarrow> CHR ''?'' \<notin> set s"
  using valid_join_on_chars sql_safe_not_q by fastforce

text \<open>
  An identifier accepted by \<open>validIdent\<close> holds only letters, digits, \<open>_\<close>, \<open>.\<close> and white
  space, and a JOIN clause accepted by \<open>validJoinOn\<close> only those and \<open>=\<close>: no quote, semicolon,
  parenthesis, comment dash or placeholder can enter the SQL text through a validated name.
\<close>

theorem validators_admit_no_metachar:
  assumes "(valid_ident s \<or> valid_join_on s)" and "c \<in> set s"
  shows "(ident_char c \<or> c \<in> set ''.='' \<or> is_space c) \<and>
    c \<notin> set '';()?-,*'' \<and> c \<notin> {CHR 0x27, CHR 0x22, CHR 0x60}"
proof -
  have "sql_safe_char c \<or> c = CHR ''=''"
    using assms valid_ident_chars valid_join_on_chars by blast
  then have d: "ident_char c \<or> c \<in> set ''.='' \<or> is_space c" by (auto simp: sql_safe_char_def)
  moreover have "x \<in> set '';()?-,*'' \<or> x \<in> {CHR 0x27, CHR 0x22, CHR 0x60} \<Longrightarrow>
      \<not> (ident_char x \<or> x \<in> set ''.='' \<or> is_space x)" for x
    by (auto simp: re_defs char_defs)
  ultimately show ?thesis by blast
qed

theorem validators_admit_no_metachar_witness:
  "valid_ident ''users.id DESC'' \<and> CHR ''.'' \<notin> set '';()?-,*''"
proof -
  have "valid_ident ''users.id DESC''" by code_simp
  moreover from this have "CHR ''.'' \<notin> set '';()?-,*''"
    using validators_admit_no_metachar[of "''users.id DESC''" "CHR ''.''"] by simp
  ultimately show ?thesis ..
qed

lemma valid_ident_name:
  assumes "s \<noteq> []" "ident_start (hd s)" "\<forall>c\<in>set s. ident_char c" shows "valid_ident s"
proof -
  have ns: "ident_char c \<Longrightarrow> \<not> is_space c" for c by (auto simp: re_defs char_defs)
  have "trim_space s = s" using assms ns by (intro trim_by_id) auto
  moreover obtain c cs where s: "s = c # cs" using assms(1) by (cases s) auto
  moreover have "dropWhile ident_char cs = []" using assms(3) s by (induction cs) auto
  ultimately show ?thesis using assms(2) by (simp add: valid_ident_def re_dir_def)
qed

subsection \<open>Snake case and table names\<close>

text \<open>\<open>toSnake\<close>: the loop keeps the previous character; the next one is the head of the rest.\<close>

fun snake_go :: "char option \<Rightarrow> string \<Rightarrow> string" where
  "snake_go p [] = []"
| "snake_go p (r # rs) =
     (if is_upper r
      then (if (case p of None \<Rightarrow> False
                | Some q \<Rightarrow> \<not> is_upper q \<or> (rs \<noteq> [] \<and> is_lower (hd rs)))
            then [CHR ''_''] else []) @ to_lower_c r # snake_go (Some r) rs
      else r # snake_go (Some r) rs)"

definition to_snake :: "string \<Rightarrow> string" where
  "to_snake s = snake_go None s"

definition is_vowel :: "char \<Rightarrow> bool" where
  "is_vowel r \<longleftrightarrow> r \<in> set ''aeiou''"

definition plural_of :: "string \<Rightarrow> string" where
  "plural_of s =
     (if has_suffix s ''s'' \<or> has_suffix s ''x'' \<or> has_suffix s ''z'' \<or> has_suffix s ''sh''
         \<or> has_suffix s ''ch''
      then s @ ''es''
      else if has_suffix s ''y'' \<and> length s > 1 \<and> \<not> is_vowel (s ! (length s - 2))
      then take (length s - 1) s @ ''ies''
      else s @ ''s'')"

definition plural_snake :: "string \<Rightarrow> string" where
  "plural_snake type_name = plural_of (to_snake type_name)"

declare is_vowel_def [go_eval] plural_of_def [go_eval] plural_snake_def [go_eval] to_snake_def [go_eval]

lemma not_upper_underscore [simp]: "\<not> is_upper (CHR ''_'')"
  by (simp add: is_upper_def)

lemma snake_go_no_upper: "c \<in> set (snake_go p s) \<Longrightarrow> \<not> is_upper c"
  by (induction p s rule: snake_go.induct) (auto split: if_splits)

lemma snake_go_id: "\<forall>c\<in>set s. \<not> is_upper c \<Longrightarrow> snake_go p s = s"
  by (induction s arbitrary: p) auto

lemma ident_char_to_lower: "ident_char c \<Longrightarrow> ident_char (to_lower_c c)"
  using is_lower_to_lower by (cases "is_upper c") (auto simp: ident_char_def ident_start_def)

lemma snake_go_ident: "\<forall>c\<in>set s. ident_char c \<Longrightarrow> \<forall>c\<in>set (snake_go p s). ident_char c"
proof (induction p s rule: snake_go.induct)
  case (2 p r rs)
  have "ident_char (CHR ''_'')" by (simp add: ident_char_def ident_start_def)
  with 2 show ?case by (auto simp: ident_char_to_lower)
qed simp

lemma hd_to_snake: "s \<noteq> [] \<Longrightarrow> hd (to_snake s) = to_lower_c (hd s)"
  by (cases s) (auto simp: to_snake_def)

lemma to_snake_Nil [simp]: "to_snake s = [] \<longleftrightarrow> s = []"
  by (cases s) (auto simp: to_snake_def)

lemma suffix_letters_lower: "c \<in> set ''esi'' \<Longrightarrow> is_lower c"
  by (auto simp: is_lower_def)

lemma plural_of_shapes:
  "plural_of s = s @ ''es'' \<or> plural_of s = s @ ''s'' \<or>
   (length s > 1 \<and> plural_of s = take (length s - 1) s @ ''ies'')"
  unfolding plural_of_def by (simp del: append_Cons append_Nil)

lemma plural_of_chars: "c \<in> set (plural_of s) \<Longrightarrow> c \<in> set s \<or> is_lower c"
proof -
  assume c: "c \<in> set (plural_of s)"
  have "c \<in> set s \<union> set ''esi''"
    using plural_of_shapes[of s] c by (auto dest: in_set_takeD)
  then show ?thesis using suffix_letters_lower by blast
qed

lemma hd_plural_of: "s \<noteq> [] \<Longrightarrow> plural_of s \<noteq> [] \<and> hd (plural_of s) = hd s"
  using plural_of_shapes[of s] by (cases s) (auto simp: take_Cons')

text \<open>
  For every exported Go type or field name (an identifier), the column name is a lower-case
  identifier that the validator accepts, applying the conversion again changes nothing, and the
  table name is a valid identifier too: names derived from Go code never make a model panic.
\<close>

theorem snake_names_valid:
  assumes "n \<noteq> []" and "ident_start (hd n)" and "\<forall>c\<in>set n. ident_char c"
  shows "valid_ident (to_snake n) \<and> (\<forall>c\<in>set (to_snake n). \<not> is_upper c) \<and>
    to_snake (to_snake n) = to_snake n \<and>
    valid_ident (plural_snake n) \<and> (\<forall>c\<in>set (plural_snake n). \<not> is_upper c)"
proof -
  let ?t = "to_snake n"
  have up: "\<forall>c\<in>set ?t. \<not> is_upper c" using snake_go_no_upper by (auto simp: to_snake_def)
  have ch: "\<forall>c\<in>set ?t. ident_char c" using snake_go_ident assms(3) by (simp add: to_snake_def)
  have "ident_start (to_lower_c (hd n))"
    using assms(2) is_lower_to_lower by (cases "is_upper (hd n)") (auto simp: ident_start_def)
  then have st: "ident_start (hd ?t)" using assms(1) by (simp add: hd_to_snake)
  have ne: "?t \<noteq> []" using assms(1) by simp
  have "valid_ident (plural_of ?t)"
    using hd_plural_of[OF ne] st ch plural_of_chars
    by (intro valid_ident_name) (auto simp: ident_char_def ident_start_def)
  moreover have "\<forall>c\<in>set (plural_of ?t). \<not> is_upper c"
    using plural_of_chars up upper_not_lower by blast
  moreover have "to_snake ?t = ?t" using up by (simp add: to_snake_def snake_go_id)
  ultimately show ?thesis
    using valid_ident_name[OF ne st ch] up by (simp add: plural_snake_def)
qed

theorem snake_names_valid_witness:
  "valid_ident (to_snake ''UserID'') \<and> to_snake ''UserID'' = ''user_id'' \<and>
   plural_snake ''HTTPCategory'' = ''http_categories'' \<and> valid_ident (plural_snake ''HTTPCategory'')"
proof -
  have u: "(''UserID'' \<noteq> ([]::string)) \<and> ident_start (hd ''UserID'') \<and> (\<forall>c\<in>set ''UserID''. ident_char c)"
    by code_simp
  have h: "(''HTTPCategory'' \<noteq> ([]::string)) \<and> ident_start (hd ''HTTPCategory'') \<and>
    (\<forall>c\<in>set ''HTTPCategory''. ident_char c)"
    by code_simp
  have "to_snake ''UserID'' = ''user_id''" "plural_snake ''HTTPCategory'' = ''http_categories''"
    by code_simp+
  then show ?thesis
    using snake_names_valid[of "''UserID''"] snake_names_valid[of "''HTTPCategory''"] u h by blast
qed

subsection \<open>Struct metadata\<close>

text \<open>
  A Go struct type as reflection shows it: its name and its fields in order, each with its type
  and the value of its \<open>kyrux\<close> tag.
\<close>

datatype go_type =
    TString | TBool | TIntK ikind | TUintK ukind | TFloatK fkind | TTime | TBytes
  | TPtr go_type | TStructK string | TOtherK

record go_field =
  gf_name :: string
  gf_exported :: bool
  gf_type :: go_type
  gf_tag :: string

record go_struct =
  gs_name :: string
  gs_fields :: "go_field list"

record orm_field =
  f_name :: string
  f_column :: string
  f_is_pk :: bool
  f_is_hash :: bool
  f_is_encrypt :: bool
  f_is_autonow :: bool
  f_is_autonow_add :: bool
  f_is_nanoid :: bool
  f_unique :: bool
  f_fts :: bool
  f_is_image :: bool
  f_go_index :: nat
  f_size :: int
  f_default :: string
  f_fk :: string
  f_fk_label :: string

record model_meta =
  m_table :: string
  m_fields :: "orm_field list"
  m_pk :: "orm_field option"

text \<open>\<open>ColToField\<close> is filled in field order, so a later field with the same column wins.\<close>

definition col_to_field :: "model_meta \<Rightarrow> string \<Rightarrow> orm_field option" where
  "col_to_field meta = map_of (rev (map (\<lambda>f. (f_column f, f)) (m_fields meta)))"

datatype meta_error =
    BadColumn string string
  | BadFK string string
  | BadFKLabel string string
  | BadDefault string string

definition apply_tag :: "string \<Rightarrow> orm_field \<Rightarrow> orm_field" where
  "apply_tag part f =
     (if part = ''pk'' then f\<lparr>f_is_pk := True\<rparr>
      else if part = ''hash'' then f\<lparr>f_is_hash := True\<rparr>
      else if part = ''encrypt'' then f\<lparr>f_is_encrypt := True\<rparr>
      else if part = ''autonow'' then f\<lparr>f_is_autonow := True\<rparr>
      else if part = ''autonow_add'' then f\<lparr>f_is_autonow_add := True\<rparr>
      else if part = ''nanoid'' then f\<lparr>f_is_nanoid := True\<rparr>
      else if part = ''unique'' then f\<lparr>f_unique := True\<rparr>
      else if part = ''fts'' then f\<lparr>f_fts := True\<rparr>
      else if part = ''image'' then f\<lparr>f_is_image := True\<rparr>
      else if has_prefix part ''column:'' then f\<lparr>f_column := trim_prefix part ''column:''\<rparr>
      else if has_prefix part ''size:'' then f\<lparr>f_size := fst (atoi (trim_prefix part ''size:''))\<rparr>
      else if has_prefix part ''default:'' then f\<lparr>f_default := trim_prefix part ''default:''\<rparr>
      else if has_prefix part ''fk:'' then f\<lparr>f_fk := trim_prefix part ''fk:''\<rparr>
      else if has_prefix part ''fklabel:'' then f\<lparr>f_fk_label := trim_prefix part ''fklabel:''\<rparr>
      else f)"

definition tag_parts :: "string \<Rightarrow> string list" where
  "tag_parts tag = map trim_space (split_chr (CHR '','') tag)"

definition new_field :: "nat \<Rightarrow> string \<Rightarrow> orm_field" where
  "new_field i name =
     \<lparr>f_name = name, f_column = to_snake name, f_is_pk = False, f_is_hash = False,
      f_is_encrypt = False, f_is_autonow = False, f_is_autonow_add = False, f_is_nanoid = False,
      f_unique = False, f_fts = False, f_is_image = False, f_go_index = i, f_size = 0,
      f_default = [], f_fk = [], f_fk_label = []\<rparr>"

definition parse_field :: "nat \<Rightarrow> go_field \<Rightarrow> orm_field" where
  "parse_field i sf =
     (let f = fold apply_tag (tag_parts (gf_tag sf)) (new_field i (gf_name sf))
      in if (f_is_autonow f \<or> f_is_autonow_add f) \<and> f_default f = []
         then f\<lparr>f_default := ''CURRENT_TIMESTAMP''\<rparr> else f)"

text \<open>The checks of \<open>buildMeta\<close>, in its order; a failed one is the panic's message.\<close>

definition check_field :: "orm_field \<Rightarrow> meta_error option" where
  "check_field f =
     (if \<not> valid_ident (f_column f) then Some (BadColumn (f_name f) (f_column f))
      else if f_fk f \<noteq> [] \<and> \<not> valid_ident (f_fk f) then Some (BadFK (f_name f) (f_fk f))
      else if list_ex (\<lambda>p. p \<noteq> [] \<and> \<not> valid_ident p) (split_chr (CHR ''+'') (f_fk_label f))
      then Some (BadFKLabel (f_name f) (f_fk_label f))
      else if f_default f \<noteq> [] \<and> \<not> valid_default (f_default f)
      then Some (BadDefault (f_name f) (f_default f))
      else None)"

fun build_fields :: "nat \<Rightarrow> go_field list \<Rightarrow> meta_error + orm_field list" where
  "build_fields i [] = Inr []"
| "build_fields i (sf # sfs) =
     (if \<not> gf_exported sf then build_fields (Suc i) sfs
      else (let f = parse_field i sf
            in case check_field f of
                 Some e \<Rightarrow> Inl e
               | None \<Rightarrow> (case build_fields (Suc i) sfs of Inl e \<Rightarrow> Inl e | Inr fs \<Rightarrow> Inr (f # fs))))"

definition build_meta :: "go_struct \<Rightarrow> meta_error + model_meta" where
  "build_meta t =
     (case build_fields 0 (gs_fields t) of
        Inl e \<Rightarrow> Inl e
      | Inr fs \<Rightarrow> Inr \<lparr>m_table = plural_snake (gs_name t), m_fields = fs, m_pk = find f_is_pk fs\<rparr>)"

text \<open>\<open>cachedMeta\<close>: the cache is keyed by the type; a panicking build stores nothing.\<close>

definition cached_meta ::
  "(go_struct \<times> model_meta) list \<Rightarrow> go_struct \<Rightarrow> (meta_error + model_meta) \<times> (go_struct \<times> model_meta) list"
where
  "cached_meta cache t =
     (case map_of cache t of
        Some meta \<Rightarrow> (Inr meta, cache)
      | None \<Rightarrow> (case build_meta t of
                   Inl e \<Rightarrow> (Inl e, cache)
                 | Inr meta \<Rightarrow> (Inr meta, AList.update t meta cache)))"

definition cache_ok :: "(go_struct \<times> model_meta) list \<Rightarrow> bool" where
  "cache_ok cache \<longleftrightarrow> (\<forall>(t, meta) \<in> set cache. build_meta t = Inr meta)"

definition field_ok :: "orm_field \<Rightarrow> bool" where
  "field_ok f \<longleftrightarrow> valid_ident (f_column f) \<and> (f_fk f \<noteq> [] \<longrightarrow> valid_ident (f_fk f)) \<and>
     (\<forall>p \<in> set (split_chr (CHR ''+'') (f_fk_label f)). p \<noteq> [] \<longrightarrow> valid_ident p) \<and>
     (f_default f \<noteq> [] \<longrightarrow> valid_default (f_default f))"

lemma check_field_None: "check_field f = None \<longleftrightarrow> field_ok f"
  by (auto simp: check_field_def field_ok_def list_ex_iff)

lemma build_fields_ok: "build_fields i sfs = Inr fs \<Longrightarrow> \<forall>f\<in>set fs. field_ok f"
proof (induction i sfs arbitrary: fs rule: build_fields.induct)
  case (2 i sf sfs)
  then show ?case
    by (auto simp: Let_def check_field_None[symmetric] split: if_splits option.splits sum.splits)
qed simp

lemma apply_tag_frame [simp]:
  "f_go_index (apply_tag p f) = f_go_index f" "f_name (apply_tag p f) = f_name f"
  by (simp_all add: apply_tag_def)

lemma fold_apply_tag_frame [simp]:
  "f_go_index (fold apply_tag ps f) = f_go_index f" "f_name (fold apply_tag ps f) = f_name f"
  by (induction ps arbitrary: f) simp_all

lemma parse_field_frame [simp]:
  "f_go_index (parse_field i sf) = i" "f_name (parse_field i sf) = gf_name sf"
  by (simp_all add: parse_field_def new_field_def Let_def)

definition from_field :: "nat \<Rightarrow> go_field list \<Rightarrow> orm_field \<Rightarrow> bool" where
  "from_field i sfs f \<longleftrightarrow> i \<le> f_go_index f \<and> f_go_index f - i < length sfs \<and>
     gf_exported (sfs ! (f_go_index f - i)) \<and> f = parse_field (f_go_index f) (sfs ! (f_go_index f - i))"

lemma from_field_Cons: "from_field (Suc i) sfs f \<Longrightarrow> from_field i (sf # sfs) f"
  by (auto simp: from_field_def nth_Cons' Suc_diff_le)

lemma build_fields_from: "build_fields i sfs = Inr fs \<Longrightarrow> \<forall>f\<in>set fs. from_field i sfs f"
proof (induction i sfs arbitrary: fs rule: build_fields.induct)
  case (2 i sf sfs)
  show ?case
  proof (cases "gf_exported sf")
    case False
    with 2 show ?thesis by (auto intro: from_field_Cons)
  next
    case True
    with "2.prems" obtain gs where g: "build_fields (Suc i) sfs = Inr gs" "fs = parse_field i sf # gs"
      "check_field (parse_field i sf) = None"
      by (auto simp: Let_def split: option.splits sum.splits)
    then have "\<forall>f\<in>set gs. from_field (Suc i) sfs f"
      using "2.IH"(2)[OF _ refl g(3) g(1)] True by simp
    moreover have "from_field i (sf # sfs) (parse_field i sf)" using True by (simp add: from_field_def)
    ultimately show ?thesis using g(2) from_field_Cons by auto
  qed
qed simp

lemma build_fields_distinct:
  "build_fields i sfs = Inr fs \<Longrightarrow> distinct (map f_go_index fs)"
proof (induction i sfs arbitrary: fs rule: build_fields.induct)
  case (2 i sf sfs)
  show ?case
  proof (cases "gf_exported sf")
    case True
    with "2.prems" obtain gs where g: "build_fields (Suc i) sfs = Inr gs" "fs = parse_field i sf # gs"
      "check_field (parse_field i sf) = None"
      by (auto simp: Let_def split: option.splits sum.splits)
    have "distinct (map f_go_index gs)" using "2.IH"(2)[OF _ refl g(3) g(1)] True by simp
    moreover have "\<forall>f\<in>set gs. Suc i \<le> f_go_index f"
      using build_fields_from[OF g(1)] by (auto simp: from_field_def)
    ultimately show ?thesis using g(2) by force
  qed (use 2 in auto)
qed simp

lemma col_to_field_Some: "col_to_field m c = Some f \<Longrightarrow> f \<in> set (m_fields m) \<and> f_column f = c"
  by (auto simp: col_to_field_def dest!: map_of_SomeD)

lemma col_to_field_dom: "f \<in> set (m_fields m) \<Longrightarrow> \<exists>g. col_to_field m (f_column f) = Some g"
  by (auto simp: col_to_field_def map_of_eq_None_iff image_image simp flip: not_None_eq)

text \<open>
  When \<open>buildMeta\<close> does not panic, every column, foreign key, label part and default of the
  model has passed its validator; each ORM field is the parse of the exported struct field at its
  \<open>GoIndex\<close>, no two share an index; the primary key is one of the fields and is tagged \<open>pk\<close>; and
  \<open>ColToField\<close> knows exactly the model's columns.
\<close>

theorem build_meta_correct:
  assumes "build_meta t = Inr m"
  shows "(\<forall>f\<in>set (m_fields m). field_ok f \<and> from_field 0 (gs_fields t) f) \<and>
    distinct (map f_go_index (m_fields m)) \<and>
    (\<forall>pk. m_pk m = Some pk \<longrightarrow> pk \<in> set (m_fields m) \<and> f_is_pk pk) \<and>
    (\<forall>c. (\<exists>f. col_to_field m c = Some f) \<longleftrightarrow> c \<in> f_column ` set (m_fields m)) \<and>
    (\<forall>c f. col_to_field m c = Some f \<longrightarrow> f \<in> set (m_fields m) \<and> f_column f = c)"
proof -
  obtain fs where fs: "build_fields 0 (gs_fields t) = Inr fs" "m_fields m = fs" "m_pk m = find f_is_pk fs"
    using assms by (auto simp: build_meta_def split: sum.splits)
  have "(\<exists>f. col_to_field m c = Some f) \<longleftrightarrow> c \<in> f_column ` set (m_fields m)" for c
  proof
    assume "\<exists>f. col_to_field m c = Some f"
    then obtain f where "col_to_field m c = Some f" ..
    then show "c \<in> f_column ` set (m_fields m)" using col_to_field_Some by blast
  qed (use col_to_field_dom in blast)
  then show ?thesis
    using fs build_fields_ok[OF fs(1)] build_fields_from[OF fs(1)] build_fields_distinct[OF fs(1)]
      col_to_field_Some[of m]
    by (auto simp: find_Some_iff)
qed

definition sample_user :: go_struct where
  "sample_user = \<lparr>gs_name = ''User'', gs_fields =
     [\<lparr>gf_name = ''ID'', gf_exported = True, gf_type = TIntK KInt64, gf_tag = ''column:id,pk''\<rparr>,
      \<lparr>gf_name = ''Password'', gf_exported = True, gf_type = TString,
        gf_tag = ''column:password,size:128,hash''\<rparr>,
      \<lparr>gf_name = ''cache'', gf_exported = False, gf_type = TString, gf_tag = []\<rparr>,
      \<lparr>gf_name = ''IsActive'', gf_exported = True, gf_type = TBool,
        gf_tag = ''column:is_active,default:true''\<rparr>,
      \<lparr>gf_name = ''UpdatedAt'', gf_exported = True, gf_type = TTime, gf_tag = ''autonow''\<rparr>]\<rparr>"

definition sample_meta :: model_meta where
  "sample_meta = (case build_meta sample_user of Inr m \<Rightarrow> m | Inl _ \<Rightarrow> \<lparr>m_table = [], m_fields = [], m_pk = None\<rparr>)"

lemma sample_meta_ok: "build_meta sample_user = Inr sample_meta"
  by code_simp

theorem build_meta_correct_witness:
  "build_meta sample_user = Inr sample_meta \<and> map f_go_index (m_fields sample_meta) = [0, 1, 3, 4] \<and>
   list_all field_ok (m_fields sample_meta)"
proof -
  have "map f_go_index (m_fields sample_meta) = [0, 1, 3, 4]" by code_simp
  then show ?thesis using build_meta_correct[OF sample_meta_ok] sample_meta_ok unfolding list_all_iff by blast
qed

lemma cached_meta_sound:
  assumes "cache_ok cache" and "cached_meta cache t = (r, cache')"
  shows "r = build_meta t \<and> cache_ok cache'"
proof (cases "map_of cache t")
  case (Some m)
  with assms show ?thesis by (auto simp: cached_meta_def cache_ok_def dest!: map_of_SomeD)
next
  case None
  then have u: "AList.update t x cache = cache @ [(t, x)]" for x
    by (intro AList_update_fresh) (simp add: map_of_eq_None_iff)
  with None assms show ?thesis
    by (auto simp: cached_meta_def cache_ok_def u split: sum.splits)
qed

end
