(* ===== verification/OrmSql.thy ===== *)
theory OrmSql
  imports OrmModel
begin

text \<open>
  The fluent builder of \<open>core/orm/query.go\<close> and the SQL text it produces: the \<open>Query\<close> struct is
  the record \<open>query\<close>, each builder method one definition returning the new record, the text
  writers are functions into strings. \<open>rewritePlaceholders\<close>, \<open>qualifiedTable\<close> and \<open>isPG\<close> are
  from \<open>core/orm/exec.go\<close>. The invariant \<open>balanced\<close> ties the placeholders of the text to the
  argument list; every builder method keeps it.
\<close>

subsection \<open>State and errors\<close>

datatype dberr = PqError string | MySQLError nat | SqliteError string | OtherError string

datatype orm_error =
    BadIdent string string        \<comment> \<open>method, offending name\<close>
  | BadJoinTable string
  | BadJoinOn string
  | WhereInTooLong nat
  | SearchNotFTS string
  | SearchDriver string
  | NoWhere string
  | WithJoin string
  | UnknownColumn string string
  | NoRows                        \<comment> \<open>\<open>sql.ErrNoRows\<close>\<close>
  | HashFailed string
  | EncryptFailed string
  | DecryptFailed string
  | ScanFailed
  | NotAStruct
  | CallbackErr string
  | Panicked string               \<comment> \<open>a run-time panic, which unwinds through the callers\<close>
  | Db string dberr               \<comment> \<open>operation, wrapped driver error\<close>

record where_clause =
  wc_cond :: string
  wc_or :: bool

record query =
  q_driver :: string
  q_schema :: string
  q_meta :: model_meta
  q_cols :: "string list"
  q_joins :: "string list"
  q_where :: "where_clause list"
  q_args :: "goval list"
  q_order_by :: "string list"
  q_rank_args :: "goval list"
  q_distinct :: bool
  q_limit :: int
  q_offset :: int
  q_err :: "orm_error option"

definition new_query :: "string \<Rightarrow> string \<Rightarrow> model_meta \<Rightarrow> query" where
  "new_query driver schema meta =
     \<lparr>q_driver = driver, q_schema = schema, q_meta = meta, q_cols = [], q_joins = [], q_where = [],
      q_args = [], q_order_by = [], q_rank_args = [], q_distinct = False, q_limit = 0,
      q_offset = 0, q_err = None\<rparr>"

abbreviation cond_and :: "string \<Rightarrow> where_clause" where
  "cond_and c \<equiv> \<lparr>wc_cond = c, wc_or = False\<rparr>"

subsection \<open>Builder methods\<close>

definition select_cols :: "string list \<Rightarrow> query \<Rightarrow> query" where
  "select_cols cols q =
     (case find (\<lambda>c. \<not> valid_ident c) cols of
        Some c \<Rightarrow> q\<lparr>q_err := Some (BadIdent ''select'' c)\<rparr>
      | None \<Rightarrow> q\<lparr>q_cols := cols\<rparr>)"

definition distinct_q :: "query \<Rightarrow> query" where
  "distinct_q q = q\<lparr>q_distinct := True\<rparr>"

definition add_join :: "string \<Rightarrow> string \<Rightarrow> string \<Rightarrow> query \<Rightarrow> query" where
  "add_join kind table on q =
     (if \<not> valid_ident table then q\<lparr>q_err := Some (BadJoinTable table)\<rparr>
      else if \<not> valid_join_on on then q\<lparr>q_err := Some (BadJoinOn on)\<rparr>
      else q\<lparr>q_joins := q_joins q @ [kind @ '' JOIN '' @ table @ '' ON '' @ on]\<rparr>)"

definition inner_join :: "string \<Rightarrow> string \<Rightarrow> query \<Rightarrow> query" where
  "inner_join table on q = add_join ''INNER'' table on q"

definition left_join :: "string \<Rightarrow> string \<Rightarrow> query \<Rightarrow> query" where
  "left_join table on q = add_join ''LEFT'' table on q"

definition where_raw :: "string \<Rightarrow> goval list \<Rightarrow> query \<Rightarrow> query" where
  "where_raw c args q = q\<lparr>q_where := q_where q @ [cond_and c], q_args := q_args q @ args\<rparr>"

definition or_where_raw :: "string \<Rightarrow> goval list \<Rightarrow> query \<Rightarrow> query" where
  "or_where_raw c args q =
     q\<lparr>q_where := q_where q @ [\<lparr>wc_cond = c, wc_or = True\<rparr>], q_args := q_args q @ args\<rparr>"

definition where_op :: "string \<Rightarrow> string \<Rightarrow> goval \<Rightarrow> bool \<Rightarrow> query \<Rightarrow> query" where
  "where_op col op val is_or q =
     (if \<not> valid_ident col then q\<lparr>q_err := Some (BadIdent ''where'' col)\<rparr>
      else q\<lparr>q_where := q_where q @ [\<lparr>wc_cond = col @ '' '' @ op @ '' ?'', wc_or = is_or\<rparr>],
             q_args := q_args q @ [val]\<rparr>)"

definition where_null :: "string \<Rightarrow> query \<Rightarrow> query" where
  "where_null col q =
     (if \<not> valid_ident col then q\<lparr>q_err := Some (BadIdent ''wherenull'' col)\<rparr>
      else q\<lparr>q_where := q_where q @ [cond_and (col @ '' IS NULL'')]\<rparr>)"

definition where_not_null :: "string \<Rightarrow> query \<Rightarrow> query" where
  "where_not_null col q =
     (if \<not> valid_ident col then q\<lparr>q_err := Some (BadIdent ''wherenotnull'' col)\<rparr>
      else q\<lparr>q_where := q_where q @ [cond_and (col @ '' IS NOT NULL'')]\<rparr>)"

definition max_where_in_size :: nat where "max_where_in_size = 5000"

text \<open>A single slice argument is expanded by reflection; a \<open>[]byte\<close> is a slice of \<open>uint8\<close>.\<close>

definition expand_vals :: "goval list \<Rightarrow> goval list" where
  "expand_vals vals =
     (case vals of
        [GSlice xs] \<Rightarrow> (case xs of None \<Rightarrow> [] | Some ys \<Rightarrow> ys)
      | [GBytes bs] \<Rightarrow> map (\<lambda>b. GUint KUint8 (of_char b)) bs
      | _ \<Rightarrow> vals)"

definition where_in :: "string \<Rightarrow> goval list \<Rightarrow> query \<Rightarrow> query" where
  "where_in col vals0 q =
     (if \<not> valid_ident col then q\<lparr>q_err := Some (BadIdent ''wherein'' col)\<rparr>
      else let vals = expand_vals vals0 in
        if vals = [] then q\<lparr>q_where := q_where q @ [cond_and ''1 = 0'']\<rparr>
        else if length vals > max_where_in_size then q\<lparr>q_err := Some (WhereInTooLong (length vals))\<rparr>
        else q\<lparr>q_where := q_where q @
                 [cond_and (col @ '' IN ('' @ join '', '' (replicate (length vals) ''?'') @ '')'')],
               q_args := q_args q @ vals\<rparr>)"

definition to_tsvector :: "string \<Rightarrow> string" where
  "to_tsvector col = ''to_tsvector('' @ [CHR 0x27] @ ''portuguese'' @ [CHR 0x27] @ '', '' @ col @ '')''"

definition plain_tsquery :: string where
  "plain_tsquery = ''plainto_tsquery('' @ [CHR 0x27] @ ''portuguese'' @ [CHR 0x27] @ '', ?)''"

definition match_against :: "string \<Rightarrow> string" where
  "match_against col = ''MATCH('' @ col @ '') AGAINST(? IN NATURAL LANGUAGE MODE)''"

definition is_pg :: "string \<Rightarrow> bool" where
  "is_pg driver \<longleftrightarrow> driver = ''postgres'' \<or> driver = ''pgx''"

definition is_sqlite :: "string \<Rightarrow> bool" where
  "is_sqlite driver \<longleftrightarrow> driver = ''sqlite'' \<or> driver = ''sqlite3''"

definition fts_shadow :: "string \<Rightarrow> string \<Rightarrow> string" where
  "fts_shadow table col = table @ ''_'' @ col @ ''_fts''"

definition search :: "string \<Rightarrow> string \<Rightarrow> query \<Rightarrow> query" where
  "search col term q =
     (if \<not> valid_ident col then q\<lparr>q_err := Some (BadIdent ''search'' col)\<rparr>
      else case col_to_field (q_meta q) col of
        None \<Rightarrow> q\<lparr>q_err := Some (SearchNotFTS col)\<rparr>
      | Some f \<Rightarrow>
          if \<not> f_fts f then q\<lparr>q_err := Some (SearchNotFTS col)\<rparr>
          else if is_pg (q_driver q) then
            (let vec = to_tsvector col
             in q\<lparr>q_where := q_where q @ [cond_and (vec @ '' @@ '' @ plain_tsquery)],
                  q_args := q_args q @ [GStr term],
                  q_order_by := [''ts_rank('' @ vec @ '', '' @ plain_tsquery @ '') DESC''],
                  q_rank_args := [GStr term]\<rparr>)
          else if q_driver q = ''mysql'' then
            (let m = match_against col
             in q\<lparr>q_where := q_where q @ [cond_and m], q_args := q_args q @ [GStr term],
                  q_order_by := [m @ '' DESC''], q_rank_args := [GStr term]\<rparr>)
          else if is_sqlite (q_driver q) then
            (let pk = (case m_pk (q_meta q) of Some p \<Rightarrow> f_column p | None \<Rightarrow> ''id'');
                 table = m_table (q_meta q);
                 shadow = fts_shadow table col;
                 q1 = add_join ''INNER'' shadow (shadow @ ''.rowid = '' @ table @ ''.'' @ pk) q
             in if q_err q1 \<noteq> None then q1
                else q1\<lparr>q_where := q_where q1 @ [cond_and (shadow @ '' MATCH ?'')],
                        q_args := q_args q1 @ [GStr term],
                        q_order_by := [shadow @ ''.rank'']\<rparr>)
          else q\<lparr>q_err := Some (SearchDriver (q_driver q))\<rparr>)"

definition order_by :: "string list \<Rightarrow> query \<Rightarrow> query" where
  "order_by cols q =
     (case find (\<lambda>c. \<not> valid_ident c) cols of
        Some c \<Rightarrow> q\<lparr>q_err := Some (BadIdent ''orderby'' c)\<rparr>
      | None \<Rightarrow> q\<lparr>q_order_by := q_order_by q @ cols\<rparr>)"

definition limit_q :: "int \<Rightarrow> query \<Rightarrow> query" where
  "limit_q n q = q\<lparr>q_limit := n\<rparr>"

definition offset_q :: "int \<Rightarrow> query \<Rightarrow> query" where
  "offset_q n q = q\<lparr>q_offset := n\<rparr>"

subsection \<open>SQL text\<close>

definition qualified_table :: "string \<Rightarrow> string \<Rightarrow> string" where
  "qualified_table schema table = (if schema \<noteq> [] then schema @ ''.'' @ table else table)"

definition paren :: "where_clause \<Rightarrow> string" where
  "paren w = ''('' @ wc_cond w @ '')''"

definition write_where :: "query \<Rightarrow> string" where
  "write_where q =
     (case q_where q of
        [] \<Rightarrow> []
      | w # ws \<Rightarrow> '' WHERE '' @ paren w @
          concat (map (\<lambda>v. (if wc_or v then '' OR '' else '' AND '') @ paren v) ws))"

definition write_from :: "query \<Rightarrow> string" where
  "write_from q = '' FROM '' @ qualified_table (q_schema q) (m_table (q_meta q)) @
     concat (map (\<lambda>j. CHR '' '' # j) (q_joins q))"

definition write_select_head :: "query \<Rightarrow> string" where
  "write_select_head q =
     ''SELECT '' @ (if q_distinct q then ''DISTINCT '' else []) @
     (if q_cols q \<noteq> [] then join '', '' (q_cols q)
      else if q_joins q \<noteq> [] then m_table (q_meta q) @ ''.*'' else ''*'') @
     write_from q"

definition write_order_by :: "query \<Rightarrow> string" where
  "write_order_by q = (if q_order_by q \<noteq> [] then '' ORDER BY '' @ join '', '' (q_order_by q) else [])"

fun number_marks :: "nat \<Rightarrow> string \<Rightarrow> string" where
  "number_marks n [] = []"
| "number_marks n (c # cs) =
     (if c = CHR ''?'' then CHR ''$'' # utoa n @ number_marks (Suc n) cs else c # number_marks n cs)"

definition rewrite_placeholders :: "string \<Rightarrow> string \<Rightarrow> string" where
  "rewrite_placeholders driver query = (if \<not> is_pg driver then query else number_marks 1 query)"

definition select_text :: "query \<Rightarrow> string" where
  "select_text q = write_select_head q @ write_where q @ write_order_by q"

definition build_select_raw :: "int \<Rightarrow> query \<Rightarrow> string \<times> goval list" where
  "build_select_raw force_limit q =
     (let lim = (if force_limit > 0 then force_limit else q_limit q);
          args = (if q_rank_args q \<noteq> [] \<or> lim > 0 \<or> q_offset q > 0
                  then q_args q @ q_rank_args q else q_args q)
      in (select_text q @ (if lim > 0 then '' LIMIT ?'' else []) @
            (if q_offset q > 0 then '' OFFSET ?'' else []),
          args @ (if lim > 0 then [GInt KInt lim] else []) @
            (if q_offset q > 0 then [GInt KInt (q_offset q)] else [])))"

definition build_select :: "int \<Rightarrow> query \<Rightarrow> string \<times> goval list" where
  "build_select force_limit q =
     (let (s, args) = build_select_raw force_limit q in (rewrite_placeholders (q_driver q) s, args))"

definition build_select_page_raw :: "int \<Rightarrow> int \<Rightarrow> query \<Rightarrow> string \<times> goval list" where
  "build_select_page_raw page_size offset q =
     (select_text q @ '' LIMIT ? OFFSET ?'',
      q_args q @ q_rank_args q @ [GInt KInt page_size, GInt KInt offset])"

definition build_select_page :: "int \<Rightarrow> int \<Rightarrow> query \<Rightarrow> string \<times> goval list" where
  "build_select_page page_size offset q =
     (let (s, args) = build_select_page_raw page_size offset q
      in (rewrite_placeholders (q_driver q) s, args))"

lemmas builder_defs = select_cols_def distinct_q_def add_join_def inner_join_def left_join_def
  where_raw_def or_where_raw_def where_op_def where_null_def where_not_null_def where_in_def
  order_by_def limit_q_def offset_q_def

lemmas text_defs = write_where_def paren_def write_from_def write_select_head_def write_order_by_def
  select_text_def qualified_table_def

subsection \<open>Placeholders and arguments\<close>

abbreviation marks :: "string \<Rightarrow> nat" where
  "marks s \<equiv> count_list s (CHR ''?'')"

definition balanced :: "query \<Rightarrow> bool" where
  "balanced q \<longleftrightarrow>
     sum_list (map (\<lambda>w. marks (wc_cond w)) (q_where q)) = length (q_args q) \<and>
     sum_list (map marks (q_order_by q)) = length (q_rank_args q) \<and>
     (\<forall>c\<in>set (q_cols q) \<union> set (q_joins q). marks c = 0) \<and>
     marks (m_table (q_meta q)) = 0 \<and> marks (q_schema q) = 0 \<and>
     (\<not> is_pg (q_driver q) \<and> q_driver q \<noteq> ''mysql'' \<longrightarrow> q_rank_args q = [])"

text \<open>The builder calls of a client, as data; \<open>raw_ok\<close> is the contract of free-SQL conditions.\<close>

datatype qop =
    OSelect "string list" | ODistinct | OJoin string string | OLeftJoin string string
  | OWhere string "goval list" | OOrWhere string "goval list"
  | OWhereOp string string goval bool | OWhereNull string | OWhereNotNull string
  | OWhereIn string "goval list" | OSearch string string
  | OOrderBy "string list" | OLimit int | OOffset int

fun apply_qop :: "qop \<Rightarrow> query \<Rightarrow> query" where
  "apply_qop (OSelect cs) q = select_cols cs q"
| "apply_qop ODistinct q = distinct_q q"
| "apply_qop (OJoin t c) q = inner_join t c q"
| "apply_qop (OLeftJoin t c) q = left_join t c q"
| "apply_qop (OWhere c as) q = where_raw c as q"
| "apply_qop (OOrWhere c as) q = or_where_raw c as q"
| "apply_qop (OWhereOp c ob v b) q = where_op c ob v b q"
| "apply_qop (OWhereNull c) q = where_null c q"
| "apply_qop (OWhereNotNull c) q = where_not_null c q"
| "apply_qop (OWhereIn c vs) q = where_in c vs q"
| "apply_qop (OSearch c t) q = search c t q"
| "apply_qop (OOrderBy cs) q = order_by cs q"
| "apply_qop (OLimit n) q = limit_q n q"
| "apply_qop (OOffset n) q = offset_q n q"

text \<open>\<open>whereOp\<close> is private: the typed methods call it with these operators only.\<close>

definition where_ops :: "string set" where
  "where_ops = {''='', ''<>'', ''>'', ''>='', ''<'', ''<='', ''LIKE''}"

fun raw_ok :: "qop \<Rightarrow> bool" where
  "raw_ok (OWhere c as) \<longleftrightarrow> marks c = length as"
| "raw_ok (OOrWhere c as) \<longleftrightarrow> marks c = length as"
| "raw_ok (OWhereOp c ob v b) \<longleftrightarrow> ob \<in> where_ops"
| "raw_ok _ \<longleftrightarrow> True"

definition run_qops :: "qop list \<Rightarrow> query \<Rightarrow> query" where
  "run_qops ops q = fold apply_qop ops q"

lemma marks_ident [simp]: "valid_ident s \<Longrightarrow> marks s = 0"
  by (simp add: valid_ident_no_q count_list_0)

lemma marks_join_on [simp]: "valid_join_on s \<Longrightarrow> marks s = 0"
  by (simp add: valid_join_on_no_q count_list_0)

lemma marks_join [simp]: "marks sep = 0 \<Longrightarrow> marks (join sep xs) = sum_list (map marks xs)"
  by (simp add: count_list_join)

lemma sum_marks_0: "\<forall>c\<in>set xs. marks c = 0 \<Longrightarrow> sum_list (map marks xs) = 0"
  by (induction xs) auto

lemma sum_marks_idents: "find (\<lambda>c. \<not> valid_ident c) cs = None \<Longrightarrow> sum_list (map marks cs) = 0"
  by (intro sum_marks_0) (auto simp: find_None_iff)

lemma marks_where_op: "op \<in> where_ops \<Longrightarrow> marks op = 0"
  by (auto simp: where_ops_def)

lemma marks_replicate [simp]: "sum_list (map marks (replicate n ''?'')) = n"
  by (induction n) auto

lemma col_lookup_valid: "col_to_field m c = Some f \<Longrightarrow> f_column f = c"
  using col_to_field_Some by blast

lemma marks_vec [simp]: "marks (to_tsvector col) = marks col"
  by (simp add: to_tsvector_def)

lemma marks_tsquery [simp]: "marks plain_tsquery = 1"
  by (simp add: plain_tsquery_def)

lemma marks_match [simp]: "marks (match_against col) = Suc (marks col)"
  by (simp add: match_against_def)

lemma balanced_add_join: "marks k = 0 \<Longrightarrow> balanced q \<Longrightarrow> balanced (add_join k t e q)"
  by (auto simp: balanced_def add_join_def)

lemma add_join_frame [simp]:
  "q_where (add_join k t e q) = q_where q" "q_args (add_join k t e q) = q_args q"
  "q_order_by (add_join k t e q) = q_order_by q" "q_rank_args (add_join k t e q) = q_rank_args q"
  "q_cols (add_join k t e q) = q_cols q" "q_meta (add_join k t e q) = q_meta q"
  "q_schema (add_join k t e q) = q_schema q" "q_driver (add_join k t e q) = q_driver q"
  by (simp_all add: add_join_def)

lemma balanced_join_match:
  assumes "balanced q" and "marks shadow = 0" and "q_rank_args q = []"
  shows "balanced ((add_join ''INNER'' shadow e q)\<lparr>q_where := q_where q @ [cond_and (shadow @ '' MATCH ?'')],
    q_args := q_args q @ [GStr term], q_order_by := [shadow @ ''.rank'']\<rparr>)"
  using assms by (auto simp: balanced_def add_join_def)

lemma marks_shadow [simp]: "marks (fts_shadow table col) = marks table + marks col"
  by (simp add: fts_shadow_def)

lemma balanced_ranked:
  assumes "balanced q" and "marks c = 1" and "marks r = 1" and "is_pg (q_driver q) \<or> q_driver q = ''mysql''"
  shows "balanced (q\<lparr>q_where := q_where q @ [cond_and c], q_args := q_args q @ [GStr term],
    q_order_by := [r], q_rank_args := [GStr term]\<rparr>)"
  using assms by (auto simp: balanced_def)

lemma balanced_err: "balanced q \<Longrightarrow> balanced (q\<lparr>q_err := e\<rparr>)"
  by (simp add: balanced_def)

lemma sqlite_not_ranked: "is_sqlite d \<Longrightarrow> \<not> is_pg d \<and> d \<noteq> ''mysql''"
  by (auto simp: is_sqlite_def is_pg_def)

lemma balanced_search: "balanced q \<Longrightarrow> balanced (search col term q)"
proof -
  assume b: "balanced q"
  have mt: "marks (m_table (q_meta q)) = 0" using b by (simp add: balanced_def)
  consider (bad) "\<not> valid_ident col" | (none) "col_to_field (q_meta q) col = None"
    | (some) f where "valid_ident col" "col_to_field (q_meta q) col = Some f"
    by fastforce
  then show ?thesis
  proof cases
    case some
    have mc: "marks col = 0" using some(1) by simp
    have r: "is_sqlite (q_driver q) \<Longrightarrow> q_rank_args q = []"
      using b sqlite_not_ranked by (auto simp: balanced_def)
    show ?thesis
      unfolding search_def Let_def
      using some b mt mc r
      by (auto simp: balanced_err balanced_add_join intro!: balanced_ranked balanced_join_match)
  qed (use b in \<open>simp_all add: search_def balanced_err split: option.split\<close>)
qed

lemma balanced_where_in: "balanced q \<Longrightarrow> balanced (where_in c vs q)"
  by (auto simp: where_in_def balanced_def Let_def sum_list_replicate)

lemma balanced_apply_qop: "balanced q \<Longrightarrow> raw_ok op \<Longrightarrow> balanced (apply_qop op q)"
proof (cases op)
  case (OSearch c t)
  then show "balanced q \<Longrightarrow> ?thesis" by (simp add: balanced_search)
next
  case (OWhereIn c vs)
  then show "balanced q \<Longrightarrow> ?thesis" by (simp add: balanced_where_in)
next
  case (OSelect cs)
  then show "balanced q \<Longrightarrow> ?thesis"
    by (auto simp: select_cols_def balanced_def find_None_iff split: option.splits)
next
  case (OOrderBy cs)
  then show "balanced q \<Longrightarrow> ?thesis"
    by (auto simp: order_by_def balanced_def sum_marks_idents split: option.splits)
next
  case (OWhereOp c ob v b)
  then show "balanced q \<Longrightarrow> raw_ok op \<Longrightarrow> ?thesis"
    using marks_where_op by (auto simp: where_op_def balanced_def)
qed (auto simp: builder_defs balanced_def)

lemma balanced_run: "balanced q \<Longrightarrow> list_all raw_ok ops \<Longrightarrow> balanced (run_qops ops q)"
  unfolding run_qops_def by (induction ops arbitrary: q) (auto simp: balanced_apply_qop)

lemma marks_concat: "marks (concat xs) = sum_list (map marks xs)"
  by (induction xs) auto

lemma marks_where_text: "marks (write_where q) = sum_list (map (\<lambda>w. marks (wc_cond w)) (q_where q))"
proof (cases "q_where q")
  case (Cons w ws)
  have "marks (concat (map (\<lambda>v. (if wc_or v then '' OR '' else '' AND '') @ paren v) ws))
      = sum_list (map (\<lambda>w. marks (wc_cond w)) ws)"
    by (induction ws) (auto simp: paren_def)
  moreover have "marks (paren w) = marks (wc_cond w)" by (simp add: paren_def)
  ultimately show ?thesis using Cons by (simp add: write_where_def)
qed (simp add: write_where_def)

lemma marks_select_text:
  assumes "balanced q" shows "marks (select_text q) = length (q_args q) + length (q_rank_args q)"
proof -
  have j: "marks (concat (map (\<lambda>j. CHR '' '' # j) (q_joins q))) = 0"
    using assms by (auto simp: marks_concat balanced_def comp_def sum_list_eq_0_iff)
  have c: "marks (join '', '' (q_cols q)) = 0"
    using assms by (simp add: balanced_def sum_marks_0)
  have o: "marks (write_order_by q) = length (q_rank_args q)"
    using assms by (auto simp: write_order_by_def balanced_def)
  have f: "marks (write_from q) = 0"
    using assms j by (simp add: write_from_def qualified_table_def balanced_def)
  have "marks (write_select_head q) = 0"
    using assms c f by (simp add: write_select_head_def balanced_def)
  then show ?thesis
    using o assms by (simp add: select_text_def marks_where_text balanced_def)
qed

fun numbered :: "nat \<Rightarrow> string list \<Rightarrow> string" where
  "numbered n [] = []"
| "numbered n [x] = x"
| "numbered n (x # y # ys) = x @ CHR ''$'' # utoa n @ numbered (Suc n) (y # ys)"

lemma numbered_prepend: "numbered n ((c # x) # xs) = c # numbered n (x # xs)"
  by (cases xs) auto

lemma number_marks_numbered: "number_marks n s = numbered n (split_chr (CHR ''?'') s)"
proof (induction s arbitrary: n)
  case (Cons c cs)
  obtain y ys where y: "split_chr (CHR ''?'') cs = y # ys"
    using split_chr_ne by (cases "split_chr (CHR ''?'') cs") auto
  with Cons.IH show ?case by (auto simp: numbered_prepend)
qed simp

lemma utoa_no_mark [simp]: "marks (utoa n) = 0"
proof -
  have "CHR ''?'' \<notin> set (utoa n)"
    using utoa_digits[of n] by (auto simp: list_all_iff is_digit_def dest!: bspec)
  then show ?thesis by (rule count_list_0)
qed

lemma number_marks_no_mark: "marks (number_marks n s) = 0"
  by (induction n s rule: number_marks.induct) auto

lemma marks_select_raw:
  "balanced q \<Longrightarrow> marks (fst (build_select_raw k q)) = length (snd (build_select_raw k q))"
  by (auto simp: build_select_raw_def Let_def marks_select_text)

lemma marks_page_raw:
  "balanced q \<Longrightarrow> marks (fst (build_select_page_raw p off q)) = length (snd (build_select_page_raw p off q))"
  by (simp add: build_select_page_raw_def marks_select_text)

lemma run_qops_frame: "q_driver (run_qops ops q) = q_driver q"
proof -
  have step: "q_driver (apply_qop op q) = q_driver q" for op q
    by (cases op) (auto simp: builder_defs search_def Let_def split: option.splits)
  show ?thesis unfolding run_qops_def by (induction ops arbitrary: q) (auto simp: step)
qed

text \<open>
  C19: Whatever chain of builder calls a client makes, if each free-SQL condition has as many \<open>?\<close>
  as arguments, the SELECT that \<open>buildSelect\<close> or \<open>buildSelectPage\<close> produces has exactly one
  placeholder per argument, ranking and LIMIT/OFFSET arguments included; on PostgreSQL the text
  sent has no \<open>?\<close> left, the pieces between them joined by \<open>$1, $2, \<dots>\<close> in order.
\<close>

theorem select_placeholders_match_args:
  assumes "list_all raw_ok ops" and "marks (m_table meta) = 0" and "marks schema = 0"
  shows "(let q = run_qops ops (new_query driver schema meta);
              (s, args) = build_select_raw k q; (s', args') = build_select_page_raw p off q
          in marks s = length args \<and> marks s' = length args' \<and>
             (is_pg driver \<longrightarrow>
                build_select k q = (numbered 1 (split_chr (CHR ''?'') s), args) \<and>
                length (split_chr (CHR ''?'') s) = Suc (length args) \<and>
                marks (fst (build_select k q)) = 0) \<and>
             (\<not> is_pg driver \<longrightarrow> build_select k q = (s, args)))"
proof -
  let ?q = "run_qops ops (new_query driver schema meta)"
  have "balanced (new_query driver schema meta)"
    using assms by (simp add: balanced_def new_query_def)
  then have b: "balanced ?q" using assms(1) by (rule balanced_run)
  have d: "q_driver ?q = driver" by (simp add: run_qops_frame new_query_def)
  show ?thesis
    using marks_select_raw[OF b, of k] marks_page_raw[OF b, of p off] d
    by (simp add: build_select_def rewrite_placeholders_def number_marks_no_mark length_split_chr
        number_marks_numbered[symmetric] case_prod_unfold Let_def)
qed

definition sample_ops :: "qop list" where
  "sample_ops = [OWhere ''active = ?'' [GBool True], OWhereIn ''id'' [GSlice (Some [GInt KInt 1, GInt KInt 2])],
     OOrderBy [''created_at DESC''], OLimit 20]"

theorem select_placeholders_match_args_witness:
  "build_select 0 (run_qops sample_ops (new_query ''postgres'' [] sample_meta)) =
     (''SELECT * FROM users WHERE (active = $1) AND (id IN ($2, $3)) ORDER BY created_at DESC LIMIT $4'',
      [GBool True, GInt KInt 1, GInt KInt 2, GInt KInt 20])"
proof -
  have h: "list_all raw_ok sample_ops" "marks (m_table sample_meta) = 0" "marks ([]::string) = 0"
    by code_simp+
  have "build_select 0 (run_qops sample_ops (new_query ''postgres'' [] sample_meta)) =
    (numbered 1 (split_chr (CHR ''?'')
       (fst (build_select_raw 0 (run_qops sample_ops (new_query ''postgres'' [] sample_meta))))),
     snd (build_select_raw 0 (run_qops sample_ops (new_query ''postgres'' [] sample_meta))))"
    using select_placeholders_match_args[OF h, of "''postgres''" 0]
    by (simp add: case_prod_unfold Let_def is_pg_def)
  also have "\<dots> = (''SELECT * FROM users WHERE (active = $1) AND (id IN ($2, $3)) ORDER BY created_at DESC LIMIT $4'',
      [GBool True, GInt KInt 1, GInt KInt 2, GInt KInt 20])"
    by code_simp
  finally show ?thesis .
qed

end
