(* ===== verification/Crypton.thy ===== *)
theory Crypton
  imports Prelude
begin

text \<open>
  \<open>core/security/crypton\<close>: password hashes in PHC format, signed tokens and field encryption, with
  the base64 encodings of the standard library written out. Argon2id (golang.org/x/crypto), HMAC
  and AES-GCM are parameters; what the code relies on them for is stated as hypotheses. Random
  bytes come in as arguments.
\<close>

subsection \<open>base64\<close>

definition std_alphabet :: string where
  "std_alphabet = ''ABCDEFGHIJKLMNOPQRSTUVWXYZabcdefghijklmnopqrstuvwxyz0123456789+/''"

definition url_alphabet :: string where
  "url_alphabet = ''ABCDEFGHIJKLMNOPQRSTUVWXYZabcdefghijklmnopqrstuvwxyz0123456789-_''"

fun char_bits :: "char \<Rightarrow> bool list" where
  "char_bits (Char a b c d e f g h) = [h, g, f, e, d, c, b, a]"

fun bits_char :: "bool list \<Rightarrow> char" where
  "bits_char [h, g, f, e, d, c, b, a] = Char a b c d e f g h"
| "bits_char _ = CHR 0x00"

fun bits_nat :: "nat \<Rightarrow> bool list \<Rightarrow> nat" where
  "bits_nat n [] = n"
| "bits_nat n (b # bs) = bits_nat (2 * n + of_bool b) bs"

fun index_of :: "'a \<Rightarrow> 'a list \<Rightarrow> nat option" where
  "index_of x [] = None"
| "index_of x (y # ys) = (if x = y then Some 0 else map_option Suc (index_of x ys))"

definition six_bits :: "nat \<Rightarrow> bool list" where
  "six_bits n = [odd (n div 32), odd (n div 16), odd (n div 8), odd (n div 4), odd (n div 2), odd n]"

fun chunks :: "nat \<Rightarrow> nat \<Rightarrow> 'a list \<Rightarrow> 'a list list" where
  "chunks n 0 xs = []"
| "chunks n (Suc k) xs = take n xs # chunks n k (drop n xs)"

definition raw_encode :: "string \<Rightarrow> string \<Rightarrow> string" where
  "raw_encode alphabet s =
     (let bits = concat (map char_bits s); k = (length bits + 5) div 6
      in map (\<lambda>bs. alphabet ! bits_nat 0 bs)
           (chunks 6 k (bits @ replicate (6 * k - length bits) False)))"

text \<open>
  \<open>DecodeString\<close> of the Raw encodings, non-strict as the standard library's default: carriage
  returns and newlines are skipped, left-over low bits ignored, one left-over symbol is an error.
\<close>

definition raw_decode :: "string \<Rightarrow> string \<Rightarrow> string option" where
  "raw_decode alphabet s =
     (let t = filter (\<lambda>c. c \<noteq> CHR 0x0A \<and> c \<noteq> CHR 0x0D) s
      in if list_ex (\<lambda>c. index_of c alphabet = None) t \<or> length t mod 4 = 1 then None
         else let bits = concat (map (\<lambda>c. six_bits (the (index_of c alphabet))) t)
              in Some (map bits_char (chunks 8 (length bits div 8) bits)))"

text \<open>The padded encoding: \<open>=\<close> up to a multiple of four symbols.\<close>

definition pad_encode :: "string \<Rightarrow> string" where
  "pad_encode s = (let e = raw_encode std_alphabet s in e @ replicate ((4 - length e mod 4) mod 4) (CHR ''=''))"

definition pad_decode :: "string \<Rightarrow> string option" where
  "pad_decode s =
     (let t = filter (\<lambda>c. c \<noteq> CHR 0x0A \<and> c \<noteq> CHR 0x0D) s;
          body = takeWhile (\<lambda>c. c \<noteq> CHR ''='') t;
          tail = dropWhile (\<lambda>c. c \<noteq> CHR ''='') t
      in if length t mod 4 \<noteq> 0 \<or> \<not> list_all (\<lambda>c. c = CHR ''='') tail \<or> length tail > 2 then None
         else raw_decode std_alphabet body)"

lemma length_char_bits [simp]: "length (char_bits c) = 8"
  by (cases c) simp

lemma bits_char_bits [simp]: "bits_char (char_bits c) = c"
  by (cases c) simp

lemma length_concat_bits [simp]: "length (concat (map char_bits s)) = 8 * length s"
  by (induction s) auto

lemma length_chunks [simp]: "length (chunks n k xs) = k"
  by (induction n k xs rule: chunks.induct) auto

lemma chunks_concat: "length xs = n * k \<Longrightarrow> concat (chunks n k xs) = xs"
  by (induction n k xs rule: chunks.induct) auto

lemma chunks_length: "length xs = n * k \<Longrightarrow> c \<in> set (chunks n k xs) \<Longrightarrow> length c = n"
  by (induction n k xs rule: chunks.induct) auto

lemma chunks_of_concat: "\<forall>y\<in>set ys. length y = n \<Longrightarrow> chunks n (length ys) (concat ys @ zs) = ys"
  by (induction ys) auto

lemma six_bits_nat: "length bs = 6 \<Longrightarrow> six_bits (bits_nat 0 bs) = bs \<and> bits_nat 0 bs < 64"
proof -
  assume "length bs = 6"
  then obtain a b c d e f where "bs = [a, b, c, d, e, f]"
    by (auto simp: numeral_eq_Suc length_Suc_conv)
  then show ?thesis
    by (cases a; cases b; cases c; cases d; cases e; cases f) (simp_all add: six_bits_def)
qed

lemma index_of_nth: "distinct xs \<Longrightarrow> n < length xs \<Longrightarrow> index_of (xs ! n) xs = Some n"
  by (induction xs arbitrary: n) (auto simp: nth_Cons split: nat.splits)

definition alphabet_ok :: "string \<Rightarrow> bool" where
  "alphabet_ok a \<longleftrightarrow> distinct a \<and> length a = 64 \<and>
     CHR 0x0A \<notin> set a \<and> CHR 0x0D \<notin> set a \<and> CHR ''='' \<notin> set a \<and> CHR ''$'' \<notin> set a \<and> CHR ''.'' \<notin> set a"

lemma alphabets_ok: "alphabet_ok std_alphabet" "alphabet_ok url_alphabet"
  by code_simp+

lemma b64_symbol_count: "6 * ((8 * n + 5) div 6) div 8 = n \<and> 8 * n \<le> 6 * ((8 * n + 5) div 6) \<and>
    (8 * n + 5) div 6 mod 4 \<noteq> (1::nat)"
  by presburger

definition b64_bits :: "string \<Rightarrow> bool list" where
  "b64_bits s = (let bits = concat (map char_bits s); k = (length bits + 5) div 6
     in bits @ replicate (6 * k - length bits) False)"

lemma length_b64_bits: "length (b64_bits s) = 6 * ((8 * length s + 5) div 6)"
  using b64_symbol_count[of "length s"] by (simp add: b64_bits_def Let_def)

lemma raw_encode_chunks:
  "raw_encode a s = map (\<lambda>bs. a ! bits_nat 0 bs) (chunks 6 ((8 * length s + 5) div 6) (b64_bits s))"
  by (simp add: raw_encode_def b64_bits_def Let_def)

lemma raw_encode_symbols:
  assumes "alphabet_ok a" and "c \<in> set (raw_encode a s)" shows "c \<in> set a"
proof -
  obtain bs where "bs \<in> set (chunks 6 ((8 * length s + 5) div 6) (b64_bits s))" "c = a ! bits_nat 0 bs"
    using assms(2) by (auto simp: raw_encode_chunks)
  moreover from this have "bits_nat 0 bs < 64"
    using chunks_length[OF length_b64_bits] six_bits_nat by blast
  ultimately show ?thesis using assms(1) by (simp add: alphabet_ok_def)
qed

lemma raw_encode_decode: assumes "alphabet_ok a" shows "raw_decode a (raw_encode a s) = Some s"
proof -
  let ?k = "(8 * length s + 5) div 6"
  let ?cs = "chunks 6 ?k (b64_bits s)" and ?e = "raw_encode a s"
  have six: "length b = 6" if "b \<in> set ?cs" for b using chunks_length[OF length_b64_bits] that .
  have idx: "index_of (a ! bits_nat 0 b) a = Some (bits_nat 0 b)" if "b \<in> set ?cs" for b
    using six[OF that] six_bits_nat assms by (simp add: alphabet_ok_def index_of_nth)
  have flt: "filter (\<lambda>c. c \<noteq> CHR 0x0A \<and> c \<noteq> CHR 0x0D) ?e = ?e"
    using raw_encode_symbols[OF assms] assms by (auto simp: alphabet_ok_def intro!: filter_True)
  have "list_ex (\<lambda>c. index_of c a = None) ?e = False"
    using idx by (auto simp: raw_encode_chunks list_ex_iff)
  moreover have "length ?e mod 4 \<noteq> 1"
    using b64_symbol_count by (simp add: raw_encode_chunks)
  moreover have "concat (map (\<lambda>c. six_bits (the (index_of c a))) ?e) = b64_bits s"
  proof -
    have "map (\<lambda>c. six_bits (the (index_of c a))) ?e = map (\<lambda>b. b) ?cs"
      unfolding raw_encode_chunks map_map comp_def
      using idx six six_bits_nat by (intro map_cong refl) (metis option.sel)
    then show ?thesis using chunks_concat[OF length_b64_bits] by simp
  qed
  moreover have "map bits_char (chunks 8 (length (b64_bits s) div 8) (b64_bits s)) = s"
  proof -
    have l: "length (b64_bits s) div 8 = length (map char_bits s)"
      unfolding length_b64_bits length_map using b64_symbol_count[of "length s"] by (rule conjunct1)
    have "\<exists>r. b64_bits s = concat (map char_bits s) @ r"
      unfolding b64_bits_def Let_def by (rule exI) (rule refl)
    then obtain r where r: "b64_bits s = concat (map char_bits s) @ r" ..
    have "chunks 8 (length (b64_bits s) div 8) (b64_bits s) = map char_bits s"
      unfolding l unfolding r by (rule chunks_of_concat) simp
    then show ?thesis by (simp add: comp_def)
  qed
  ultimately show ?thesis by (simp add: raw_decode_def flt Let_def)
qed

lemma b64_padding: "(n::nat) mod 4 \<noteq> 1 \<Longrightarrow> (4 - n mod 4) mod 4 \<le> 2 \<and> (n + (4 - n mod 4) mod 4) mod 4 = 0"
proof -
  assume n: "n mod 4 \<noteq> 1"
  have m: "(n + p) mod 4 = (n mod 4 + p) mod 4" for p by (simp add: mod_add_left_eq)
  have "n mod 4 < 4" by simp
  with n consider "n mod 4 = 0" | "n mod 4 = 2" | "n mod 4 = 3" by linarith
  then show ?thesis using m[of 1] m[of 2] by cases simp_all
qed

lemma pad_encode_decode: "pad_decode (pad_encode s) = Some s"
proof -
  let ?e = "raw_encode std_alphabet s" and ?p = "(4 - length (raw_encode std_alphabet s) mod 4) mod 4"
  have ok: "\<forall>c\<in>set ?e. c \<noteq> CHR 0x0A \<and> c \<noteq> CHR 0x0D \<and> c \<noteq> CHR ''=''"
    using raw_encode_symbols[OF alphabets_ok(1)] alphabets_ok(1) by (auto simp: alphabet_ok_def)
  have flt: "filter (\<lambda>c. c \<noteq> CHR 0x0A \<and> c \<noteq> CHR 0x0D) (pad_encode s) = pad_encode s"
    using ok by (auto simp: pad_encode_def Let_def intro!: filter_True)
  have "length ?e mod 4 \<noteq> 1" using b64_symbol_count by (simp add: raw_encode_chunks)
  then have "?p \<le> 2 \<and> (length ?e + ?p) mod 4 = 0" by (rule b64_padding)
  then have p: "?p \<le> 2" "(length ?e + ?p) mod 4 = 0" by simp_all
  have "takeWhile (\<lambda>c. c \<noteq> CHR ''='') (pad_encode s) = ?e \<and>
      dropWhile (\<lambda>c. c \<noteq> CHR ''='') (pad_encode s) = replicate ?p (CHR ''='')"
    using ok by (simp add: pad_encode_def Let_def takeWhile_append dropWhile_append takeWhile_eq_Nil_iff
        dropWhile_hd)
  moreover have "length (pad_encode s) mod 4 = 0" using p by (simp add: pad_encode_def Let_def)
  ultimately show ?thesis
    using p raw_encode_decode[OF alphabets_ok(1)] by (simp add: pad_decode_def flt Let_def list_all_iff)
qed

subsection \<open>Signed tokens\<close>

type_synonym mac_fn = "string \<Rightarrow> string \<Rightarrow> string"  \<comment> \<open>key, message\<close>

definition sign :: "mac_fn \<Rightarrow> string \<Rightarrow> string \<Rightarrow> string" where
  "sign mac payload secret =
     (let sig = raw_encode url_alphabet (mac secret payload);
          encoded = raw_encode url_alphabet payload
      in encoded @ ''.'' @ sig)"

text \<open>\<open>Verify\<close>: \<open>None\<close> is \<open>ErrInvalidSignature\<close>.\<close>

definition verify :: "mac_fn \<Rightarrow> string \<Rightarrow> string \<Rightarrow> string option" where
  "verify mac token secret =
     (case cut_chr (CHR ''.'') token of
        (p0, p1, found) \<Rightarrow>
          if \<not> found then None
          else case raw_decode url_alphabet p0 of
            None \<Rightarrow> None
          | Some payload \<Rightarrow>
              (let expected = mac secret payload
               in case raw_decode url_alphabet p1 of
                    None \<Rightarrow> None
                  | Some submitted \<Rightarrow> if expected \<noteq> submitted then None else Some payload))"

lemma verify_sign [simp]: "verify mac (sign mac payload secret) secret = Some payload"
proof -
  have "CHR ''.'' \<notin> set (raw_encode url_alphabet payload)"
    using raw_encode_symbols[OF alphabets_ok(2)] alphabets_ok(2) by (auto simp: alphabet_ok_def)
  then have "cut_chr (CHR ''.'') (sign mac payload secret) =
      (raw_encode url_alphabet payload, raw_encode url_alphabet (mac secret payload), True)"
    by (simp add: sign_def Let_def cut_chr_append)
  then show ?thesis by (simp add: verify_def raw_encode_decode[OF alphabets_ok(2)] Let_def)
qed

text \<open>
  A token made by \<open>Sign\<close> verifies to its payload under the same secret, for any payload bytes;
  and any token \<open>Verify\<close> accepts, however it was made, carries the MAC of the returned payload
  under that secret: without a MAC under the secret nothing is accepted.
\<close>

theorem sign_verify:
  "verify mac (sign mac payload secret) secret = Some payload \<and>
   (verify mac token secret = Some p \<longrightarrow>
      (\<exists>a b. token = a @ ''.'' @ b \<and> raw_decode url_alphabet a = Some p \<and>
             raw_decode url_alphabet b = Some (mac secret p)))"
proof -
  have "\<exists>a b. token = a @ ''.'' @ b \<and> raw_decode url_alphabet a = Some p \<and>
      raw_decode url_alphabet b = Some (mac secret p)" if "verify mac token secret = Some p"
    using that cut_chr_found[of "CHR ''.''" token]
    by (fastforce simp: verify_def Let_def split: prod.splits if_splits option.splits)
  then show ?thesis by simp
qed

theorem sign_verify_witness:
  "(let mac = (\<lambda>k m. rev (k @ m)); t = sign mac ''42|x|j'' ''s3cret'' in
     verify mac t ''s3cret'' = Some ''42|x|j'' \<and> verify mac t ''other'' = None \<and>
     (\<exists>a b. t = a @ ''.'' @ b \<and> raw_decode url_alphabet a = Some ''42|x|j''))"
proof -
  let ?mac = "\<lambda>k m. rev (k @ m)"
  have "verify ?mac (sign ?mac ''42|x|j'' ''s3cret'') ''other'' = None" by code_simp
  then show ?thesis
    using sign_verify[of ?mac "''42|x|j''" "''s3cret''" "sign ?mac ''42|x|j'' ''s3cret''" "''42|x|j''"]
    by (simp add: Let_def) blast
qed

subsection \<open>Password hashes\<close>

text \<open>password, salt, iterations, memory, parallelism, key length; \<open>None\<close> is a panic of the library.\<close>

type_synonym argon_fn = "string \<Rightarrow> string \<Rightarrow> nat \<Rightarrow> nat \<Rightarrow> nat \<Rightarrow> nat \<Rightarrow> string option"

definition argon_memory :: nat where "argon_memory = 65536"
definition argon_iterations :: nat where "argon_iterations = 3"
definition argon_parallelism :: nat where "argon_parallelism = 4"
definition argon_key_len :: nat where "argon_key_len = 32"

definition argon_key ::
  "argon_fn \<Rightarrow> string \<Rightarrow> string \<Rightarrow> string \<Rightarrow> nat \<Rightarrow> nat \<Rightarrow> nat \<Rightarrow> nat \<Rightarrow> string option"
where
  "argon_key argon pepper password salt iter mem par key_len =
     argon (password @ pepper) salt iter mem par key_len"

definition phc_encode :: "nat \<Rightarrow> nat \<Rightarrow> nat \<Rightarrow> string \<Rightarrow> string \<Rightarrow> string" where
  "phc_encode mem iter par salt hash =
     ''$argon2id$v='' @ utoa 19 @ ''$m='' @ utoa mem @ '',t='' @ utoa iter @ '',p='' @ utoa par @
     ''$'' @ raw_encode std_alphabet salt @ ''$'' @ raw_encode std_alphabet hash"

text \<open>\<open>salt = None\<close> is a failing random source: the error is returned (\<open>Some None\<close>).\<close>

definition hash_password :: "argon_fn \<Rightarrow> string \<Rightarrow> string option \<Rightarrow> string \<Rightarrow> string option option" where
  "hash_password argon pepper rnd password =
     (case rnd of
        None \<Rightarrow> Some None
      | Some salt \<Rightarrow>
          (case argon_key argon pepper password salt argon_iterations argon_memory argon_parallelism argon_key_len of
             None \<Rightarrow> None
           | Some hash \<Rightarrow>
               Some (Some (phc_encode argon_memory argon_iterations argon_parallelism salt hash))))"

text \<open>\<open>fmt.Sscanf(s, "m=%d,t=%d,p=%d")\<close> into unsigned variables of 32, 32 and 8 bits.\<close>

definition scan_lit :: "string \<Rightarrow> string \<Rightarrow> string option" where
  "scan_lit p s = (if has_prefix s p then Some (drop (length p) s) else None)"

definition scan_uint :: "nat \<Rightarrow> string \<Rightarrow> (nat \<times> string) option" where
  "scan_uint bits s =
     (let t = dropWhile (\<lambda>c. is_space c \<and> c \<noteq> CHR 0x0A) s; ds = takeWhile is_digit t
      in if ds = [] \<or> digits_val 0 ds \<ge> 2 ^ bits then None
         else Some (digits_val 0 ds, dropWhile is_digit t))"

definition scan_params :: "string \<Rightarrow> (nat \<times> nat \<times> nat) option" where
  "scan_params s =
     Option.bind (scan_lit ''m='' s) (\<lambda>s1.
     Option.bind (scan_uint 32 s1) (\<lambda>(mem, s2).
     Option.bind (scan_lit '',t='' s2) (\<lambda>s3.
     Option.bind (scan_uint 32 s3) (\<lambda>(iter, s4).
     Option.bind (scan_lit '',p='' s4) (\<lambda>s5.
     Option.bind (scan_uint 8 s5) (\<lambda>(par, s6). Some (mem, iter, par)))))))"

text \<open>\<open>CheckPassword\<close>; \<open>None\<close> when the Argon2 library panics on the stored parameters.\<close>

definition check_password :: "argon_fn \<Rightarrow> string \<Rightarrow> string \<Rightarrow> string \<Rightarrow> bool option" where
  "check_password argon pepper password encoded =
     (let parts = split_chr (CHR ''$'') encoded
      in if length parts \<noteq> 6 \<or> parts ! 1 \<noteq> ''argon2id'' then Some False
         else case scan_params (parts ! 3) of
           None \<Rightarrow> Some False
         | Some (mem, iter, par) \<Rightarrow>
             (case raw_decode std_alphabet (parts ! 4) of
                None \<Rightarrow> Some False
              | Some salt \<Rightarrow>
                  (case raw_decode std_alphabet (parts ! 5) of
                     None \<Rightarrow> Some False
                   | Some stored \<Rightarrow>
                       (case argon_key argon pepper password salt iter mem par (length stored mod 2 ^ 32) of
                          None \<Rightarrow> None
                        | Some candidate \<Rightarrow> Some (candidate = stored)))))"

lemma phc_parts:
  "split_chr (CHR ''$'') (phc_encode argon_memory argon_iterations argon_parallelism salt hash) =
     [[], ''argon2id'', ''v=19'', ''m=65536,t=3,p=4'', raw_encode std_alphabet salt, raw_encode std_alphabet hash]"
proof -
  have no: "CHR ''$'' \<notin> set (raw_encode std_alphabet x)" for x
    using raw_encode_symbols[OF alphabets_ok(1)] alphabets_ok(1) by (auto simp: alphabet_ok_def)
  have pre: "phc_encode argon_memory argon_iterations argon_parallelism salt hash =
    ''$argon2id$v=19$m=65536,t=3,p=4'' @ CHR ''$'' # raw_encode std_alphabet salt @
    CHR ''$'' # raw_encode std_alphabet hash"
    by (simp add: phc_encode_def argon_memory_def argon_iterations_def argon_parallelism_def
        utoa.simps go_eval)
  show ?thesis
    unfolding pre using no by (simp add: split_chr_append split_chr_single)
qed

lemma scan_default_params: "scan_params ''m=65536,t=3,p=4'' = Some (65536, 3, 4)"
  by (simp add: scan_params_def scan_lit_def scan_uint_def is_space_def is_digit_def digit_val_def Let_def)

text \<open>
  A hash made by \<open>HashPassword\<close> is accepted by \<open>CheckPassword\<close> exactly for the passwords
  that Argon2id maps, with the pepper, the stored salt and the default cost parameters, to the
  stored key: the PHC text loses nothing. The one fact used of the library is that the key has the
  length asked for.
\<close>

theorem hash_password_roundtrip:
  assumes "hash_password argon pepper (Some salt) password = Some (Some encoded)"
    and len: "\<And>h. argon (password @ pepper) salt 3 65536 4 32 = Some h \<Longrightarrow> length h = 32"
  shows "\<exists>h. argon (password @ pepper) salt 3 65536 4 32 = Some h \<and>
    check_password argon pepper password encoded = Some True \<and>
    (\<forall>q. check_password argon pepper q encoded =
       map_option (\<lambda>k. k = h) (argon (q @ pepper) salt 3 65536 4 32))"
proof -
  obtain h where h: "argon (password @ pepper) salt 3 65536 4 32 = Some h"
    and e: "encoded = phc_encode argon_memory argon_iterations argon_parallelism salt h"
    using assms(1) by (auto simp: hash_password_def argon_key_def argon_memory_def argon_iterations_def
        argon_parallelism_def argon_key_len_def split: option.splits)
  have "check_password argon pepper q encoded =
      map_option (\<lambda>k. k = h) (argon (q @ pepper) salt 3 65536 4 32)" for q
    using len[OF h]
    by (simp add: check_password_def e phc_parts scan_default_params raw_encode_decode[OF alphabets_ok(1)]
        argon_key_def Let_def split: option.split)
  with h show ?thesis by auto
qed

definition toy_argon :: argon_fn where
  "toy_argon p s i m t n =
     (if i < 1 \<or> t < 1 then None else Some (take n (p @ s @ replicate n CHR 0x00)))"

theorem hash_password_roundtrip_witness:
  "(\<exists>e. hash_password toy_argon ''pep'' (Some ''salt'') ''pw'' = Some (Some e) \<and>
     check_password toy_argon ''pep'' ''pw'' e = Some True \<and>
     check_password toy_argon ''pep'' ''px'' e = Some False)"
proof -
  let ?e = "phc_encode argon_memory argon_iterations argon_parallelism ''salt''
     (the (toy_argon ''pwpep'' ''salt'' 3 65536 4 32))"
  have h: "hash_password toy_argon ''pep'' (Some ''salt'') ''pw'' = Some (Some ?e)"
    by (simp add: hash_password_def argon_key_def toy_argon_def argon_memory_def argon_iterations_def
        argon_parallelism_def argon_key_len_def)
  have l: "toy_argon (''pw'' @ ''pep'') ''salt'' 3 65536 4 32 = Some k \<Longrightarrow> length k = 32" for k
    by (auto simp: toy_argon_def)
  have d: "toy_argon (''px'' @ ''pep'') ''salt'' 3 65536 4 32 \<noteq> toy_argon (''pw'' @ ''pep'') ''salt'' 3 65536 4 32"
    by (simp add: toy_argon_def)
  have s: "toy_argon p ''salt'' 3 65536 4 32 \<noteq> None" for p by (simp add: toy_argon_def)
  from hash_password_roundtrip[OF h l] d s[of "''px'' @ ''pep''"] h show ?thesis by fastforce
qed

subsection \<open>Field encryption\<close>

datatype crypt_error = NoKey | NoRandom | BadBase64 | TooShort | AuthFailed

type_synonym seal_fn = "string \<Rightarrow> string \<Rightarrow> string \<Rightarrow> string"          \<comment> \<open>key, nonce, plaintext\<close>
type_synonym open_fn = "string \<Rightarrow> string \<Rightarrow> string \<Rightarrow> string option"   \<comment> \<open>key, nonce, ciphertext\<close>

definition nonce_size :: nat where "nonce_size = 12"

text \<open>\<open>SetEncryptionKey\<close>: an empty key leaves encryption off (\<open>nil\<close> key).\<close>

definition derive_key :: "(string \<Rightarrow> string) \<Rightarrow> string \<Rightarrow> string" where
  "derive_key sha256 key = (if key = [] then [] else sha256 key)"

definition has_encryption_key :: "string \<Rightarrow> bool" where
  "has_encryption_key key \<longleftrightarrow> length key > 0"

definition enc_prefix :: string where "enc_prefix = ''$enc$''"

definition encrypt :: "seal_fn \<Rightarrow> string \<Rightarrow> string option \<Rightarrow> string \<Rightarrow> crypt_error + string" where
  "encrypt seal key rnd plaintext =
     (if has_prefix plaintext enc_prefix then Inr plaintext
      else if length key = 0 then Inl NoKey
      else case rnd of
        None \<Rightarrow> Inl NoRandom
      | Some nonce \<Rightarrow> Inr (enc_prefix @ pad_encode (nonce @ seal key nonce plaintext)))"

definition decrypt :: "open_fn \<Rightarrow> string \<Rightarrow> string \<Rightarrow> crypt_error + string" where
  "decrypt opn key ciphertext =
     (if \<not> has_prefix ciphertext enc_prefix then Inr ciphertext
      else if length key = 0 then Inl NoKey
      else case pad_decode (trim_prefix ciphertext enc_prefix) of
        None \<Rightarrow> Inl BadBase64
      | Some data \<Rightarrow>
          if length data < nonce_size then Inl TooShort
          else case opn key (take nonce_size data) (drop nonce_size data) of
            None \<Rightarrow> Inl AuthFailed
          | Some plain \<Rightarrow> Inr plain)"

text \<open>
  With a key set and AES-GCM opening what it sealed, decrypting an encrypted value gives the
  value back, and the stored text is never the plaintext, for every value that does not itself
  begin with the marker \<open>$enc$\<close>. A value that does is stored as it is, in clear.
\<close>

theorem encrypt_decrypt:
  assumes "key \<noteq> []" and "length nonce = nonce_size" and "opn key nonce (seal key nonce p) = Some p"
  shows "if has_prefix p enc_prefix then encrypt seal key (Some nonce) p = Inr p
    else \<exists>c. encrypt seal key (Some nonce) p = Inr c \<and> has_prefix c enc_prefix \<and> c \<noteq> p \<and>
      decrypt opn key c = Inr p"
proof (cases "has_prefix p enc_prefix")
  case False
  let ?c = "enc_prefix @ pad_encode (nonce @ seal key nonce p)"
  have "encrypt seal key (Some nonce) p = Inr ?c" using False assms(1) by (simp add: encrypt_def)
  moreover have "decrypt opn key ?c = Inr p"
    using assms by (simp add: decrypt_def trim_prefix_def pad_encode_decode)
  moreover have "?c \<noteq> p" using False by (metis prefixI)
  ultimately show ?thesis using False by auto
qed (simp add: encrypt_def)

theorem encrypt_decrypt_witness:
  "\<exists>c. encrypt (\<lambda>k n p. rev p) ''k'' (Some ''123456789012'') ''cpf'' = Inr c \<and> c \<noteq> ''cpf'' \<and>
     decrypt (\<lambda>k n c. Some (rev c)) ''k'' c = Inr ''cpf''"
proof -
  have h: "(''k'' \<noteq> ([]::string)) \<and> length ''123456789012'' = nonce_size \<and> \<not> has_prefix ''cpf'' enc_prefix"
    by code_simp
  then show ?thesis
    using encrypt_decrypt[of "''k''" "''123456789012''" "\<lambda>k n c. Some (rev c)" "\<lambda>k n p. rev p" "''cpf''"]
    by (auto split: if_splits)
qed

end
