(* ===== verification/OrmExec.thy ===== *)
theory OrmExec
  imports OrmSql Crypton
begin

unbundle bit_operations_syntax

text \<open>
  Writing and scanning rows: \<open>core/orm/exec.go\<close>, \<open>scanner.go\<close>, \<open>prefetch.go\<close>, \<open>nanoid.go\<close> and
  \<open>autoddl.go\<close>. A struct value is the list of its fields by \<open>GoIndex\<close>; the connection is a record
  of functions over a world state \<open>'w\<close>; secrets (hash, encrypt, random ids) come from a \<open>codec\<close>
  over a randomness state \<open>'r\<close>. Callers pass pointers, as \<open>Create\<close> asks, so fields are settable.
\<close>

subsection \<open>Zero values\<close>

text \<open>
  In a Go type switch a case that lists several types leaves the variable an interface, so
  \<open>v == 0\<close> compares with an \<open>int\<close>: it holds for no other integer, unsigned or float type.
\<close>

fun is_zero_value :: "goval \<Rightarrow> bool" where
  "is_zero_value GNil = True"
| "is_zero_value (GPtr p) = (p = None)"
| "is_zero_value (GStr s) = (s = [])"
| "is_zero_value (GInt k i) = (k = KInt \<and> i = 0)"
| "is_zero_value (GUint k n) = False"
| "is_zero_value (GFloat k x) = False"
| "is_zero_value (GBool b) = (\<not> b)"
| "is_zero_value (GBytes b) = (b = [])"
| "is_zero_value (GTime t) = (t = 0)"
| "is_zero_value (GSlice s) = (s = None)"
| "is_zero_value (GStruct z n) = z"

text \<open>The zero value of the dynamic type, as Go defines it.\<close>

fun zero_of_type :: "goval \<Rightarrow> bool" where
  "zero_of_type GNil = True"
| "zero_of_type (GPtr p) = (p = None)"
| "zero_of_type (GStr s) = (s = [])"
| "zero_of_type (GInt k i) = (i = 0)"
| "zero_of_type (GUint k n) = (n = 0)"
| "zero_of_type (GFloat k x) = (x = 0)"
| "zero_of_type (GBool b) = (\<not> b)"
| "zero_of_type (GBytes b) = (b = [])"
| "zero_of_type (GTime t) = (t = 0)"
| "zero_of_type (GSlice s) = (s = None)"
| "zero_of_type (GStruct z n) = z"

fun sized_number :: "goval \<Rightarrow> bool" where
  "sized_number (GInt k i) = (k \<noteq> KInt)"
| "sized_number (GUint k n) = True"
| "sized_number (GFloat k x) = True"
| "sized_number _ = False"

text \<open>
  \<open>isZeroValue\<close> recognises the zero value of every type except the sized integers, the
  unsigned integers and the floats, for which it is always false: an \<open>int64\<close> 0, the type of
  every primary key, does not count as zero.
\<close>

theorem is_zero_value_iff: "is_zero_value v \<longleftrightarrow> zero_of_type v \<and> \<not> sized_number v"
  by (cases v) auto

subsection \<open>NanoID\<close>

definition nano_id_alphabet :: string where
  "nano_id_alphabet = ''0123456789ABCDEFGHIJKLMNOPQRSTUVWXYZabcdefghijklmnopqrstuvwxyz-_''"

definition default_nano_id_size :: nat where "default_nano_id_size = 21"

text \<open>\<open>generateNanoID\<close> on the bytes the random source delivered (\<open>rnd n\<close> gives \<open>n\<close> of them).\<close>

definition nano_size :: "int \<Rightarrow> nat" where
  "nano_size sz = (if sz \<le> 0 then default_nano_id_size else nat sz)"

definition nano_symbol :: "char \<Rightarrow> char" where
  "nano_symbol b = nano_id_alphabet ! (of_char b AND (63::nat))"

definition generate_nano_id :: "(nat \<Rightarrow> string) \<Rightarrow> int \<Rightarrow> string" where
  "generate_nano_id rnd sz = map nano_symbol (rnd (nano_size sz))"

lemma and_63: "(n::nat) AND 63 = n mod 64"
proof -
  have "n AND 63 = take_bit 6 n" by (simp add: take_bit_eq_mask mask_eq_exp_minus_1)
  then show ?thesis by (simp add: take_bit_eq_mod)
qed

lemma nano_alphabet: "distinct nano_id_alphabet \<and> length nano_id_alphabet = 64"
  by code_simp

lemma mod_64_class:
  assumes "(n::nat) < 256"
  shows "n mod 64 = j \<longleftrightarrow> j < 64 \<and> n \<in> {j, j + 64, j + 128, j + 192}"
proof
  assume j: "n mod 64 = j"
  have "n = 64 * (n div 64) + j" using j by (metis mult_div_mod_eq)
  moreover have "n div 64 \<in> {0, 1, 2, 3}" using assms by (simp add: less_mult_imp_div_less) linarith
  moreover have "j < 64" using j by auto
  ultimately show "j < 64 \<and> n \<in> {j, j + 64, j + 128, j + 192}" by auto
next
  assume a: "j < 64 \<and> n \<in> {j, j + 64, j + 128, j + 192}"
  have "(j + 64 * k) mod 64 = j" for k using a by simp
  from this[of 0] this[of 1] this[of 2] this[of 3] show "n mod 64 = j" using a by auto
qed

lemma nano_class: assumes "j < 64"
  shows "{b. of_char b mod (64::nat) = j} = char_of ` {j, j + 64, j + 128, j + 192}"
proof -
  have "of_char b mod (64::nat) = j \<longleftrightarrow> b \<in> char_of ` {j, j + 64, j + 128, j + 192}" for b
  proof -
    have "of_char b < (256::nat)" by simp
    from mod_64_class[OF this, of j] assms
    have m: "of_char b mod 64 = j \<longleftrightarrow> of_char b \<in> {j, j + 64, j + 128, j + 192}" by simp
    have "of_char b = k \<longleftrightarrow> b = char_of k" if "k < 256" for k :: nat
      using that by (metis char_of_char of_char_of mod_less)
    with m assms show ?thesis by auto
  qed
  then show ?thesis by blast
qed

lemma card_nano_class: "j < 64 \<Longrightarrow> card (char_of ` {j, j + 64, j + 128, j + (192::nat)} :: char set) = 4"
proof -
  assume j: "j < 64"
  have "inj_on char_of {j, j + 64, j + 128, j + (192::nat)}"
    by (rule inj_on_subset[OF inj_on_char_of_nat]) (use j in auto)
  then show ?thesis by (subst card_image) auto
qed

text \<open>
  A NanoID has the size asked for (21 when none is), uses only the 64 URL-safe symbols, and
  each symbol is produced by exactly four of the 256 byte values: no symbol is favoured.
\<close>

theorem nano_id_uniform:
  assumes "\<And>n. length (rnd n) = n"
  shows "length (generate_nano_id rnd sz) = (if sz \<le> 0 then 21 else nat sz) \<and>
    set (generate_nano_id rnd sz) \<subseteq> set nano_id_alphabet \<and>
    (\<forall>c\<in>set nano_id_alphabet. card {b. nano_symbol b = c} = 4)"
proof -
  have sym: "nano_symbol b \<in> set nano_id_alphabet" for b
    using nano_alphabet by (simp add: nano_symbol_def and_63)
  have "card {b. nano_symbol b = c} = 4" if c: "c \<in> set nano_id_alphabet" for c
  proof -
    obtain j where "j < length nano_id_alphabet" and jc: "nano_id_alphabet ! j = c"
      using c unfolding in_set_conv_nth by blast
    then have j: "j < 64" using nano_alphabet by simp
    have "nano_symbol b = c \<longleftrightarrow> of_char b mod 64 = j" for b
      unfolding nano_symbol_def and_63 jc[symmetric]
      using nano_alphabet j by (intro nth_eq_iff_index_eq) simp_all
    then show ?thesis using j by (simp add: nano_class card_nano_class)
  qed
  moreover have "set (generate_nano_id rnd sz) \<subseteq> set nano_id_alphabet"
    using sym by (auto simp only: generate_nano_id_def set_map)
  moreover have "length (generate_nano_id rnd sz) = (if sz \<le> 0 then 21 else nat sz)"
    by (simp add: generate_nano_id_def assms nano_size_def default_nano_id_size_def)
  ultimately show ?thesis by blast
qed

theorem nano_id_uniform_witness:
  "length (generate_nano_id (\<lambda>n. replicate n (CHR ''x'')) 0) = 21 \<and>
   card {b. nano_symbol b = CHR ''_''} = 4"
proof -
  have "CHR ''_'' \<in> set nano_id_alphabet" by code_simp
  then show ?thesis using nano_id_uniform[of "\<lambda>n. replicate n (CHR ''x'')" 0] by simp
qed

subsection \<open>Secrets on the way in\<close>

text \<open>
  The functions of \<open>core/security/crypton\<close> the ORM calls, over the state \<open>'r\<close> of the random
  source. \<open>None\<close> is a returned error.
\<close>

record 'r codec =
  cd_hash :: "string \<Rightarrow> 'r \<Rightarrow> string option \<times> 'r"
  cd_encrypt :: "string \<Rightarrow> 'r \<Rightarrow> string option \<times> 'r"
  cd_decrypt :: "string \<Rightarrow> string option"
  cd_rnd :: "nat \<Rightarrow> 'r \<Rightarrow> string \<times> 'r"

text \<open>
  The protection step that \<open>rowValues\<close> and \<open>Update\<close> share: only a value of dynamic type
  \<open>string\<close> is hashed or encrypted, and a failure is an error, never the plaintext.
\<close>

definition secure_value :: "'r codec \<Rightarrow> orm_field \<Rightarrow> goval \<Rightarrow> 'r \<Rightarrow> (orm_error + goval) \<times> 'r" where
  "secure_value cd f val r =
     (case val of
        GStr s \<Rightarrow>
          if f_is_hash f then
            (if has_prefix s ''$argon2id$'' then (Inr val, r)
             else case cd_hash cd s r of
                 (None, r') \<Rightarrow> (Inl (HashFailed (f_column f)), r')
               | (Some h, r') \<Rightarrow> (Inr (GStr h), r'))
          else if f_is_encrypt f then
            (case cd_encrypt cd s r of
                 (None, r') \<Rightarrow> (Inl (EncryptFailed (f_column f)), r')
               | (Some c, r') \<Rightarrow> (Inr (GStr c), r'))
          else (Inr val, r)
      | _ \<Rightarrow> (Inr val, r))"

text \<open>What a column may hold for a field value: the value, its hash or its ciphertext.\<close>

definition stored_as :: "'r codec \<Rightarrow> orm_field \<Rightarrow> goval \<Rightarrow> goval \<Rightarrow> bool" where
  "stored_as cd f val x \<longleftrightarrow>
     (case val of
        GStr s \<Rightarrow>
          if f_is_hash f then
            (if has_prefix s ''$argon2id$'' then x = val
             else \<exists>r h. fst (cd_hash cd s r) = Some h \<and> x = GStr h)
          else if f_is_encrypt f then \<exists>r c. fst (cd_encrypt cd s r) = Some c \<and> x = GStr c
          else x = val
      | _ \<Rightarrow> x = val)"

lemma secure_value_stored: "secure_value cd f val r = (Inr x, r') \<Longrightarrow> stored_as cd f val x"
proof (cases val)
  case (GStr s)
  assume a: "secure_value cd f val r = (Inr x, r')"
  show ?thesis
    using a unfolding secure_value_def stored_as_def GStr
    by (cases "cd_hash cd s r"; cases "cd_encrypt cd s r")
      (simp split: if_splits option.splits; metis fst_conv)
qed (auto simp: secure_value_def stored_as_def)

subsection \<open>Rows to insert\<close>

definition non_pk_fields :: "orm_field list \<Rightarrow> orm_field list" where
  "non_pk_fields fs = filter (\<lambda>f. \<not> f_is_pk f) fs"

definition non_pk_cols :: "model_meta \<Rightarrow> string list" where
  "non_pk_cols meta = map f_column (non_pk_fields (m_fields meta))"

definition fill_nano_id :: "'r codec \<Rightarrow> orm_field \<Rightarrow> goval list \<Rightarrow> 'r \<Rightarrow> goval list \<times> 'r" where
  "fill_nano_id cd f v r =
     (if f_is_nanoid f \<and> v ! f_go_index f = GStr []
      then (case cd_rnd cd (nano_size (f_size f)) r of
              (bytes, r') \<Rightarrow> (v[f_go_index f := GStr (generate_nano_id (\<lambda>_. bytes) (f_size f))], r'))
      else (v, r))"

definition uses_default :: "orm_field \<Rightarrow> goval list \<Rightarrow> bool" where
  "uses_default f v \<longleftrightarrow> f_default f \<noteq> [] \<and> is_zero_value (v ! f_go_index f)"

text \<open>
  \<open>rowValues\<close>: placeholders and arguments of one row, or the error; the struct (with the generated
  ids written back) and the random state in every case.
\<close>

fun row_values ::
  "'r codec \<Rightarrow> orm_field list \<Rightarrow> goval list \<Rightarrow> 'r \<Rightarrow> (orm_error + string list \<times> goval list) \<times> goval list \<times> 'r"
where
  "row_values cd [] v r = (Inr ([], []), v, r)"
| "row_values cd (f # fs) v r =
     (if f_is_pk f then row_values cd fs v r
      else (case fill_nano_id cd f v r of (v1, r1) \<Rightarrow>
        if uses_default f v1
        then (case row_values cd fs v1 r1 of
                (Inl e, st) \<Rightarrow> (Inl e, st)
              | (Inr (phs, args), st) \<Rightarrow> (Inr (f_default f # phs, args), st))
        else (case secure_value cd f (v1 ! f_go_index f) r1 of
                (Inl e, r2) \<Rightarrow> (Inl e, v1, r2)
              | (Inr x, r2) \<Rightarrow>
                  (case row_values cd fs v1 r2 of
                     (Inl e, st) \<Rightarrow> (Inl e, st)
                   | (Inr (phs, args), st) \<Rightarrow> (Inr (''?'' # phs, x # args), st)))))"

definition insert_text :: "string \<Rightarrow> string list \<Rightarrow> string list \<Rightarrow> string" where
  "insert_text table cols phs =
     ''INSERT INTO '' @ table @ '' ('' @ join '', '' cols @ '') VALUES ('' @ join '', '' phs @ '')''"

definition bulk_text :: "string \<Rightarrow> string list \<Rightarrow> string list list \<Rightarrow> string" where
  "bulk_text table cols phss =
     ''INSERT INTO '' @ table @ '' ('' @ join '', '' cols @ '') VALUES '' @
     join '', '' (map (\<lambda>phs. ''('' @ join '', '' phs @ '')'') phss)"

lemma fill_nano_id_other: "fill_nano_id cd f v r = (v', r') \<Longrightarrow> i \<noteq> f_go_index f \<Longrightarrow> v' ! i = v ! i"
  by (auto simp: fill_nano_id_def split: if_splits prod.splits)

lemma fill_nano_id_length: "fill_nano_id cd f v r = (v', r') \<Longrightarrow> length v' = length v"
  by (auto simp: fill_nano_id_def split: if_splits prod.splits)

text \<open>Inversion of one step, so that proofs over rows never unfold the nested cases.\<close>

lemma row_values_step:
  assumes "row_values cd (f # fs) v r = (res, v', r')"
  obtains (pk) "f_is_pk f" "row_values cd fs v r = (res, v', r')"
  | (default) v1 r1 res1 where "\<not> f_is_pk f" "fill_nano_id cd f v r = (v1, r1)" "uses_default f v1"
      "row_values cd fs v1 r1 = (res1, v', r')"
      "res = map_sum id (\<lambda>(phs, args). (f_default f # phs, args)) res1"
  | (fail) v1 r1 e where "\<not> f_is_pk f" "fill_nano_id cd f v r = (v1, r1)" "\<not> uses_default f v1"
      "secure_value cd f (v1 ! f_go_index f) r1 = (Inl e, r')" "res = Inl e" "v' = v1"
  | (mark) v1 r1 x r2 res1 where "\<not> f_is_pk f" "fill_nano_id cd f v r = (v1, r1)" "\<not> uses_default f v1"
      "secure_value cd f (v1 ! f_go_index f) r1 = (Inr x, r2)"
      "row_values cd fs v1 r2 = (res1, v', r')"
      "res = map_sum id (\<lambda>(phs, args). (''?'' # phs, x # args)) res1"
proof (cases "f_is_pk f")
  case True
  with assms pk show ?thesis by simp
next
  case False
  obtain v1 r1 where n: "fill_nano_id cd f v r = (v1, r1)" by fastforce
  show ?thesis
  proof (cases "uses_default f v1")
    case True
    obtain res1 st where rv: "row_values cd fs v1 r1 = (res1, st)" by (rule prod.exhaust)
    with assms False n True have "st = (v', r')" "res = map_sum id (\<lambda>(phs, args). (f_default f # phs, args)) res1"
      by (cases res1; auto)+
    with default[OF False n True] rv show ?thesis by blast
  next
    case d: False
    obtain sv r2 where sv: "secure_value cd f (v1 ! f_go_index f) r1 = (sv, r2)" by fastforce
    show ?thesis
    proof (cases sv)
      case (Inl e)
      with assms False n d sv have "res = Inl e" "v' = v1" "r2 = r'" by auto
      with fail[OF False n d] sv Inl show ?thesis by blast
    next
      case (Inr x)
      obtain res1 st where rv: "row_values cd fs v1 r2 = (res1, st)" by (rule prod.exhaust)
      with assms False n d sv Inr
      have "st = (v', r')" "res = map_sum id (\<lambda>(phs, args). (''?'' # phs, x # args)) res1"
        by (cases res1; auto)+
      with mark[OF False n d] sv rv Inr show ?thesis by blast
    qed
  qed
qed

lemma row_values_length: "row_values cd fs v r = (res, v', r') \<Longrightarrow> length v' = length v"
proof (induction fs arbitrary: v r res)
  case (Cons f fs)
  from Cons.prems show ?case
    by (cases rule: row_values_step) (auto dest!: Cons.IH fill_nano_id_length)
qed simp

lemma row_values_other:
  "row_values cd fs v r = (res, v', r') \<Longrightarrow> i \<notin> f_go_index ` set fs \<Longrightarrow> v' ! i = v ! i"
proof (induction fs arbitrary: v r res)
  case (Cons f fs)
  from Cons.prems(1) show ?case
    by (cases rule: row_values_step) (use Cons.IH Cons.prems(2) in \<open>auto dest!: fill_nano_id_other\<close>)
qed simp

text \<open>The fields written through a placeholder, given the final struct.\<close>

definition marked_fields :: "orm_field list \<Rightarrow> goval list \<Rightarrow> orm_field list" where
  "marked_fields fs v = filter (\<lambda>f. \<not> uses_default f v) (non_pk_fields fs)"

lemma uses_default_final:
  assumes "row_values cd fs v1 r1 = (res, v', r')" "f_go_index f \<notin> f_go_index ` set fs"
  shows "uses_default f v' = uses_default f v1" "v' ! f_go_index f = v1 ! f_go_index f"
  using row_values_other[OF assms] by (simp_all add: uses_default_def)

lemma row_values_spec:
  assumes "row_values cd fs v r = (Inr (phs, args), v', r')" "distinct (map f_go_index fs)"
  shows "phs = map (\<lambda>f. if uses_default f v' then f_default f else ''?'') (non_pk_fields fs) \<and>
    list_all2 (\<lambda>f x. stored_as cd f (v' ! f_go_index f) x) (marked_fields fs v') args"
  using assms
proof (induction fs arbitrary: v r phs args)
  case (Cons f fs)
  from Cons.prems(2) have d: "f_go_index f \<notin> f_go_index ` set fs" "distinct (map f_go_index fs)" by auto
  from Cons.prems(1) show ?case
  proof (cases rule: row_values_step)
    case pk
    then show ?thesis using Cons.IH[OF _ d(2)] by (simp add: non_pk_fields_def marked_fields_def)
  next
    case (default v1 r1 res1)
    then obtain phs1 where "res1 = Inr (phs1, args)" "phs = f_default f # phs1" by (cases res1) auto
    with default Cons.IH[OF _ d(2), of v1 r1 phs1 args] uses_default_final[OF default(4) d(1)] show ?thesis
      by (simp add: non_pk_fields_def marked_fields_def)
  next
    case (mark v1 r1 x r2 res1)
    then obtain phs1 args1 where e: "res1 = Inr (phs1, args1)" "phs = ''?'' # phs1" "args = x # args1"
      by (cases res1) auto
    with mark Cons.IH[OF _ d(2), of v1 r2 phs1 args1] uses_default_final[OF mark(5) d(1)]
      secure_value_stored[OF mark(4)] show ?thesis
      by (simp add: non_pk_fields_def marked_fields_def)
  qed simp
qed (simp add: non_pk_fields_def marked_fields_def)

lemma build_meta_facts:
  assumes "build_meta t = Inr m"
  shows "distinct (map f_go_index (m_fields m))" "\<forall>f\<in>set (m_fields m). field_ok f"
    "m_pk m = find f_is_pk (m_fields m)" "m_table m = plural_snake (gs_name t)"
  using assms build_fields_ok build_fields_distinct by (auto simp: build_meta_def split: sum.splits)

lemma marks_insert_text [simp]:
  "marks (insert_text table cols phs) =
     marks table + sum_list (map marks cols) + sum_list (map marks phs)"
  by (simp add: insert_text_def)

lemma marks_columns: "\<forall>f\<in>set fs. field_ok f \<Longrightarrow> sum_list (map marks (map f_column (non_pk_fields fs))) = 0"
  by (rule sum_marks_0) (auto simp: non_pk_fields_def field_ok_def)

lemma marks_row:
  "\<forall>f\<in>set fs. marks (f_default f) = 0 \<Longrightarrow>
   sum_list (map marks (map (\<lambda>f. if uses_default f v then f_default f else ''?'') (non_pk_fields fs))) =
   length (marked_fields fs v)"
  by (induction fs) (auto simp: non_pk_fields_def marked_fields_def)

text \<open>
  One row of an INSERT is well formed: there is a placeholder or SQL default for every
  column, in column order; every field that is not left to its SQL default is bound to one
  argument, which is the field's value, its Argon2id hash (tag \<open>hash\<close>) or its ciphertext (tag
  \<open>encrypt\<close>); and the statement's \<open>?\<close> marks are as many as the arguments, as long as no default
  itself contains a question mark.
\<close>

theorem insert_row_correct:
  assumes "build_meta t = Inr m" and "\<forall>f\<in>set (m_fields m). marks (f_default f) = 0"
    and "marks table = 0" and "row_values cd (m_fields m) v r = (Inr (phs, args), v', r')"
  shows "length phs = length (non_pk_cols m) \<and>
    marks (insert_text table (non_pk_cols m) phs) = length args \<and>
    list_all2 (\<lambda>f x. stored_as cd f (v' ! f_go_index f) x) (marked_fields (m_fields m) v') args"
  using row_values_spec[OF assms(4) build_meta_facts(1)[OF assms(1)]] assms(3)
    marks_row[OF assms(2), of v'] marks_columns[OF build_meta_facts(2)[OF assms(1)]]
  by (auto simp: non_pk_cols_def dest: list_all2_lengthD)

definition sample_codec :: "nat codec" where
  "sample_codec = \<lparr>cd_hash = \<lambda>s r. (Some (''$argon2id$'' @ rev s), Suc r),
     cd_encrypt = \<lambda>s r. (Some (''$enc$'' @ rev s), Suc r),
     cd_decrypt = \<lambda>s. Some (rev (drop 5 s)),
     cd_rnd = \<lambda>n r. (replicate n (CHR ''a''), Suc r)\<rparr>"

definition sample_row :: "goval list" where
  "sample_row = [GInt KInt64 0, GStr ''pw'', GStr [], GBool False, GTime 0]"

lemma sample_row_values:
  "row_values sample_codec (m_fields sample_meta) sample_row 0 =
     (Inr ([''?'', ''true'', ''CURRENT_TIMESTAMP''], [GStr ''$argon2id$wp'']), sample_row, 1)"
  by code_simp

theorem insert_row_correct_witness:
  "row_values sample_codec (m_fields sample_meta) sample_row 0 =
     (Inr ([''?'', ''true'', ''CURRENT_TIMESTAMP''], [GStr ''$argon2id$wp'']), sample_row, 1) \<and>
   marks (insert_text ''users'' (non_pk_cols sample_meta) [''?'', ''true'', ''CURRENT_TIMESTAMP'']) = 1"
proof -
  have "\<forall>f\<in>set (m_fields sample_meta). marks (f_default f) = 0" "marks ''users'' = 0" by code_simp+
  from insert_row_correct[OF sample_meta_ok this sample_row_values] show ?thesis
    using sample_row_values by simp
qed

subsection \<open>Connections\<close>

text \<open>
  A result set: its columns, the rows the driver delivered, and the error \<open>rows.Err()\<close> reports
  after them. A connection (\<open>sqlExec\<close>) over a world \<open>'w\<close> and statements \<open>'s\<close>; \<open>x_prepare\<close> is
  \<open>None\<close> for a transaction, which is no \<open>stmtPreparer\<close>. \<open>x_conv\<close> is the conversion of
  \<open>database/sql\<close> into a destination, given the destination's present value (its type).
\<close>

record rows =
  r_cols :: "string list"
  r_data :: "goval list list"
  r_err :: "dberr option"

record ('w, 's) sql_exec =
  x_prepare :: "(string \<Rightarrow> 'w \<Rightarrow> 's option \<times> 'w) option"
  x_stmt_query :: "'s \<Rightarrow> goval list \<Rightarrow> 'w \<Rightarrow> (dberr + rows) \<times> 'w"
  x_stmt_exec :: "'s \<Rightarrow> goval list \<Rightarrow> 'w \<Rightarrow> (dberr + int option) \<times> 'w"
  x_query :: "string \<Rightarrow> goval list \<Rightarrow> 'w \<Rightarrow> (dberr + rows) \<times> 'w"
  x_exec :: "string \<Rightarrow> goval list \<Rightarrow> 'w \<Rightarrow> (dberr + int option) \<times> 'w"
  x_conv :: "goval \<Rightarrow> goval \<Rightarrow> goval option"

definition query_cached :: "('w, 's) sql_exec \<Rightarrow> string \<Rightarrow> goval list \<Rightarrow> 'w \<Rightarrow> (dberr + rows) \<times> 'w" where
  "query_cached x sql args w =
     (case x_prepare x of
        None \<Rightarrow> x_query x sql args w
      | Some prep \<Rightarrow> (case prep sql w of
            (Some stmt, w') \<Rightarrow> x_stmt_query x stmt args w'
          | (None, w') \<Rightarrow> x_query x sql args w'))"

definition exec_cached :: "('w, 's) sql_exec \<Rightarrow> string \<Rightarrow> goval list \<Rightarrow> 'w \<Rightarrow> (dberr + int option) \<times> 'w" where
  "exec_cached x sql args w =
     (case x_prepare x of
        None \<Rightarrow> x_exec x sql args w
      | Some prep \<Rightarrow> (case prep sql w of
            (Some stmt, w') \<Rightarrow> x_stmt_exec x stmt args w'
          | (None, w') \<Rightarrow> x_exec x sql args w'))"

text \<open>\<open>queryRowCached(...).Scan\<close>: the first row, or the error \<open>Scan\<close> returns.\<close>

definition query_row_cached ::
  "('w, 's) sql_exec \<Rightarrow> string \<Rightarrow> goval list \<Rightarrow> 'w \<Rightarrow> (dberr option + goval list) \<times> 'w"
where
  "query_row_cached x sql args w =
     (case query_cached x sql args w of
        (Inl e, w') \<Rightarrow> (Inl (Some e), w')
      | (Inr rs, w') \<Rightarrow>
          (case r_data rs of
             row # _ \<Rightarrow> (Inr row, w')
           | [] \<Rightarrow> (Inl (r_err rs), w')))"

definition row_error :: "string \<Rightarrow> dberr option \<Rightarrow> orm_error" where
  "row_error what e = (case e of None \<Rightarrow> NoRows | Some d \<Rightarrow> Db what d)"

text \<open>
  \<open>isUniqueViolation\<close>; the wrapped driver error is reached through the wrapping (\<open>errors.As\<close>).
\<close>

fun contains :: "string \<Rightarrow> string \<Rightarrow> bool" where
  "contains [] p = (p = [])"
| "contains (c # cs) p = (has_prefix (c # cs) p \<or> contains cs p)"

definition unique_dberr :: "dberr \<Rightarrow> bool" where
  "unique_dberr e =
     (case e of
        PqError code \<Rightarrow> code = ''23505''
      | MySQLError n \<Rightarrow> n = 1062
      | SqliteError msg \<Rightarrow> contains msg ''UNIQUE constraint''
      | OtherError _ \<Rightarrow> False)"

definition is_unique_violation :: "orm_error option \<Rightarrow> bool" where
  "is_unique_violation err = (case err of Some (Db _ e) \<Rightarrow> unique_dberr e | _ \<Rightarrow> False)"

subsection \<open>Scanning\<close>

record scan_plan =
  sp_cols :: "string list"
  sp_field_idx :: "int list"
  sp_enc_cols :: "nat list"

definition build_scan_plan :: "string list \<Rightarrow> model_meta \<Rightarrow> scan_plan" where
  "build_scan_plan cols meta =
     \<lparr>sp_cols = cols,
      sp_field_idx = map (\<lambda>c. case col_to_field meta c of Some f \<Rightarrow> int (f_go_index f) | None \<Rightarrow> -1) cols,
      sp_enc_cols = filter (\<lambda>i. case col_to_field meta (cols ! i) of Some f \<Rightarrow> f_is_encrypt f | None \<Rightarrow> False)
        [0..<length cols]\<rparr>"

text \<open>\<open>rows.Scan(dests...)\<close>: a destination is a struct field or the discarded \<open>any\<close> (index -1).\<close>

fun scan_dests :: "(goval \<Rightarrow> goval \<Rightarrow> goval option) \<Rightarrow> int list \<Rightarrow> goval list \<Rightarrow> goval list \<Rightarrow> goval list option" where
  "scan_dests conv [] [] v = Some v"
| "scan_dests conv (gi # gis) (x # xs) v =
     (if gi \<ge> 0
      then (case conv (v ! nat gi) x of
              None \<Rightarrow> None
            | Some y \<Rightarrow> scan_dests conv gis xs (v[nat gi := y]))
      else scan_dests conv gis xs v)"
| "scan_dests conv _ _ v = None"

fun decrypt_cols :: "(string \<Rightarrow> string option) \<Rightarrow> scan_plan \<Rightarrow> nat list \<Rightarrow> goval list \<Rightarrow> orm_error + goval list" where
  "decrypt_cols dec plan [] v = Inr v"
| "decrypt_cols dec plan (i # is) v =
     (let gi = nat (sp_field_idx plan ! i) in
      case v ! gi of
        GStr s \<Rightarrow> (case dec s of
            None \<Rightarrow> Inl (DecryptFailed (sp_cols plan ! i))
          | Some p \<Rightarrow> decrypt_cols dec plan is (v[gi := GStr p]))
      | _ \<Rightarrow> decrypt_cols dec plan is v)"

definition scan_one ::
  "(goval \<Rightarrow> goval \<Rightarrow> goval option) \<Rightarrow> (string \<Rightarrow> string option) \<Rightarrow> scan_plan \<Rightarrow> goval list \<Rightarrow> goval list \<Rightarrow>
   orm_error + goval list"
where
  "scan_one conv dec plan zero row =
     (case scan_dests conv (sp_field_idx plan) row zero of
        None \<Rightarrow> Inl ScanFailed
      | Some v \<Rightarrow> decrypt_cols dec plan (sp_enc_cols plan) v)"

fun scan_all ::
  "(goval list \<Rightarrow> orm_error + goval list) \<Rightarrow> goval list list \<Rightarrow> orm_error + goval list list"
where
  "scan_all one [] = Inr []"
| "scan_all one (row # rows) =
     (case one row of
        Inl e \<Rightarrow> Inl e
      | Inr item \<Rightarrow> (case scan_all one rows of Inl e \<Rightarrow> Inl e | Inr items \<Rightarrow> Inr (item # items)))"

definition scan_rows ::
  "(goval \<Rightarrow> goval \<Rightarrow> goval option) \<Rightarrow> (string \<Rightarrow> string option) \<Rightarrow> model_meta \<Rightarrow> goval list \<Rightarrow> rows \<Rightarrow>
   orm_error + goval list list"
where
  "scan_rows conv dec meta zero rs =
     (let plan = build_scan_plan (r_cols rs) meta in
      case scan_all (scan_one conv dec plan zero) (r_data rs) of
        Inl e \<Rightarrow> Inl e
      | Inr items \<Rightarrow> (case r_err rs of Some e \<Rightarrow> Inl (Db ''rows'' e) | None \<Rightarrow> Inr items))"

text \<open>\<open>eachRow\<close>: the callback runs on each row over a state \<open>'c\<close>; its error stops the iteration.\<close>

fun each_data ::
  "(goval list \<Rightarrow> orm_error + goval list) \<Rightarrow> (goval list \<Rightarrow> 'c \<Rightarrow> orm_error option \<times> 'c) \<Rightarrow> goval list list \<Rightarrow> 'c \<Rightarrow>
   orm_error option \<times> 'c"
where
  "each_data one fn [] c = (None, c)"
| "each_data one fn (row # rows) c =
     (case one row of
        Inl e \<Rightarrow> (Some e, c)
      | Inr item \<Rightarrow> (case fn item c of
            (Some e, c') \<Rightarrow> (Some e, c')
          | (None, c') \<Rightarrow> each_data one fn rows c'))"

definition each_row ::
  "(goval \<Rightarrow> goval \<Rightarrow> goval option) \<Rightarrow> (string \<Rightarrow> string option) \<Rightarrow> model_meta \<Rightarrow> goval list \<Rightarrow>
   (goval list \<Rightarrow> 'c \<Rightarrow> orm_error option \<times> 'c) \<Rightarrow> rows \<Rightarrow> 'c \<Rightarrow> orm_error option \<times> 'c"
where
  "each_row conv dec meta zero fn rs c =
     (let plan = build_scan_plan (r_cols rs) meta in
      case each_data (scan_one conv dec plan zero) fn (r_data rs) c of
        (Some e, c') \<Rightarrow> (Some e, c')
      | (None, c') \<Rightarrow> (map_option (Db ''rows'') (r_err rs), c'))"

lemma each_data_collect:
  "each_data one (\<lambda>item acc. (None, acc @ [item])) rows acc =
     (case scan_all one rows of
        Inr items \<Rightarrow> (None, acc @ items)
      | Inl e \<Rightarrow> (Some e, snd (each_data one (\<lambda>item acc. (None, acc @ [item])) rows acc)))"
  by (induction rows arbitrary: acc) (auto split: sum.splits)

text \<open>
  Streaming and collecting agree: iterating a result set with a callback that appends each
  item to a list ends with the error \<open>scanRows\<close> returns, and when there is none the list is what
  \<open>scanRows\<close> returns.
\<close>

theorem each_row_collects:
  "case each_row conv dec meta zero (\<lambda>item acc. (None, acc @ [item])) rs [] of
     (Some e, _) \<Rightarrow> scan_rows conv dec meta zero rs = Inl e
   | (None, items) \<Rightarrow> scan_rows conv dec meta zero rs = Inr items"
  using each_data_collect[of "scan_one conv dec (build_scan_plan (r_cols rs) meta) zero" "r_data rs" "[]"]
  by (auto simp: each_row_def scan_rows_def Let_def split: sum.splits option.splits prod.splits)

subsection \<open>Create and CreateAll\<close>

fun ikind_bits :: "ikind \<Rightarrow> nat" where
  "ikind_bits KInt8 = 8" | "ikind_bits KInt16 = 16" | "ikind_bits KInt32 = 32"
| "ikind_bits KInt64 = 64" | "ikind_bits KInt = 64"

text \<open>\<open>reflect.Value.SetInt\<close>: truncates to the field's width; any other kind panics (\<open>None\<close>).\<close>

fun set_int :: "goval \<Rightarrow> int \<Rightarrow> goval option" where
  "set_int (GInt k _) n =
     Some (GInt k ((n + 2 ^ (ikind_bits k - 1)) mod 2 ^ ikind_bits k - 2 ^ (ikind_bits k - 1)))"
| "set_int _ n = None"

definition set_insert_id :: "orm_field option \<Rightarrow> int option \<Rightarrow> goval list \<Rightarrow> orm_error option \<times> goval list" where
  "set_insert_id pk ident v =
     (case (pk, ident) of
        (Some f, Some n) \<Rightarrow>
          (case set_int (v ! f_go_index f) n of
             None \<Rightarrow> (Some (Panicked ''reflect: SetInt''), v)
           | Some x \<Rightarrow> (None, v[f_go_index f := x]))
      | _ \<Rightarrow> (None, v))"

definition create_into ::
  "'r codec \<Rightarrow> ('w, 's) sql_exec \<Rightarrow> string \<Rightarrow> string \<Rightarrow> model_meta \<Rightarrow> goval list \<Rightarrow> 'r \<Rightarrow> 'w \<Rightarrow>
   orm_error option \<times> goval list \<times> 'r \<times> 'w"
where
  "create_into cd x driver schema meta v r w =
     (case row_values cd (m_fields meta) v r of
        (Inl e, v', r') \<Rightarrow> (Some e, v', r', w)
      | (Inr (phs, args), v', r') \<Rightarrow>
          (let sql = insert_text (qualified_table schema (m_table meta)) (non_pk_cols meta) phs in
           if is_pg driver \<and> m_pk meta \<noteq> None then
             (let pk = the (m_pk meta) in
              case query_row_cached x (rewrite_placeholders driver (sql @ '' RETURNING '' @ f_column pk)) args w of
                (Inl e, w') \<Rightarrow> (Some (row_error ''create'' e), v', r', w')
              | (Inr row, w') \<Rightarrow>
                  (case scan_dests (x_conv x) [int (f_go_index pk)] row v' of
                     None \<Rightarrow> (Some ScanFailed, v', r', w')
                   | Some v2 \<Rightarrow> (None, v2, r', w')))
           else
             (case exec_cached x (rewrite_placeholders driver sql) args w of
                (Inl e, w') \<Rightarrow> (Some (Db ''create'' e), v', r', w')
              | (Inr ident, w') \<Rightarrow>
                  (case set_insert_id (m_pk meta) ident v' of (e, v2) \<Rightarrow> (e, v2, r', w')))))"

definition bulk_chunk_size :: nat where "bulk_chunk_size = 500"

fun chunk_values ::
  "'r codec \<Rightarrow> orm_field list \<Rightarrow> goval list list \<Rightarrow> 'r \<Rightarrow>
   (orm_error + string list list \<times> goval list) \<times> goval list list \<times> 'r"
where
  "chunk_values cd fs [] r = (Inr ([], []), [], r)"
| "chunk_values cd fs (v # vs) r =
     (case row_values cd fs v r of
        (Inl e, v', r') \<Rightarrow> (Inl e, v' # vs, r')
      | (Inr (phs, args), v', r') \<Rightarrow>
          (case chunk_values cd fs vs r' of
             (Inl e, vs', r2) \<Rightarrow> (Inl e, v' # vs', r2)
           | (Inr (phss, args2), vs', r2) \<Rightarrow> (Inr (phs # phss, args @ args2), v' # vs', r2)))"

text \<open>The ids a \<open>RETURNING\<close> delivers, scanned into the structs in order; \<open>False\<close> when a scan fails.\<close>

fun fill_pks :: "(goval \<Rightarrow> goval \<Rightarrow> goval option) \<Rightarrow> nat \<Rightarrow> goval list list \<Rightarrow> goval list list \<Rightarrow> bool \<times> goval list list" where
  "fill_pks conv gi (v # vs) (row # rows) =
     (case scan_dests conv [int gi] row v of
        None \<Rightarrow> (False, v # vs)
      | Some v' \<Rightarrow> (case fill_pks conv gi vs rows of (ok, vs') \<Rightarrow> (ok, v' # vs')))"
| "fill_pks conv gi vs rows = (True, vs)"

text \<open>\<open>rows.Err\<close> is set only once \<open>Next\<close> has met the end, so not when more rows than structs came.\<close>

definition insert_chunk ::
  "'r codec \<Rightarrow> ('w, 's) sql_exec \<Rightarrow> string \<Rightarrow> model_meta \<Rightarrow> string \<Rightarrow> goval list list \<Rightarrow> 'r \<Rightarrow> 'w \<Rightarrow>
   orm_error option \<times> goval list list \<times> 'r \<times> 'w"
where
  "insert_chunk cd x driver meta table chunk r w =
     (case chunk_values cd (m_fields meta) chunk r of
        (Inl e, vs, r') \<Rightarrow> (Some e, vs, r', w)
      | (Inr (phss, args), vs, r') \<Rightarrow>
          (let sql = bulk_text table (non_pk_cols meta) phss in
           if is_pg driver \<and> m_pk meta \<noteq> None then
             (let pk = the (m_pk meta) in
              case query_cached x (rewrite_placeholders driver (sql @ '' RETURNING '' @ f_column pk)) args w of
                (Inl e, w') \<Rightarrow> (Some (Db ''createall'' e), vs, r', w')
              | (Inr rs, w') \<Rightarrow>
                  (case fill_pks (x_conv x) (f_go_index pk) vs (r_data rs) of
                     (False, vs') \<Rightarrow> (Some ScanFailed, vs', r', w')
                   | (True, vs') \<Rightarrow>
                       (if length (r_data rs) \<le> length vs then map_option (Db ''createall'') (r_err rs) else None,
                        vs', r', w')))
           else
             (case exec_cached x (rewrite_placeholders driver sql) args w of
                (Inl e, w') \<Rightarrow> (Some (Db ''createall'' e), vs, r', w')
              | (Inr _, w') \<Rightarrow> (None, vs, r', w'))))"

function create_chunks ::
  "'r codec \<Rightarrow> ('w, 's) sql_exec \<Rightarrow> string \<Rightarrow> model_meta \<Rightarrow> string \<Rightarrow> goval list list \<Rightarrow> 'r \<Rightarrow> 'w \<Rightarrow>
   orm_error option \<times> goval list list \<times> 'r \<times> 'w"
where
  "create_chunks cd x driver meta table vs r w =
     (if vs = [] then (None, [], r, w)
      else (case insert_chunk cd x driver meta table (take bulk_chunk_size vs) r w of
              (Some e, ch, r', w') \<Rightarrow> (Some e, ch @ drop bulk_chunk_size vs, r', w')
            | (None, ch, r', w') \<Rightarrow>
                (case create_chunks cd x driver meta table (drop bulk_chunk_size vs) r' w' of
                   (e, rest, st) \<Rightarrow> (e, ch @ rest, st))))"
  by pat_completeness auto
termination
  by (relation "measure (\<lambda>(cd, x, driver, meta, table, vs, r, w). length vs)") (auto simp: bulk_chunk_size_def)

declare create_chunks.simps [simp del]

definition create_all_into ::
  "'r codec \<Rightarrow> ('w, 's) sql_exec \<Rightarrow> string \<Rightarrow> string \<Rightarrow> model_meta \<Rightarrow> goval list list \<Rightarrow> 'r \<Rightarrow> 'w \<Rightarrow>
   orm_error option \<times> goval list list \<times> 'r \<times> 'w"
where
  "create_all_into cd x driver schema meta vs r w =
     create_chunks cd x driver meta (qualified_table schema (m_table meta)) vs r w"

subsection \<open>The statements that reach the connection\<close>

text \<open>
  \<open>guards x ok P\<close>: the connection keeps \<open>P\<close> of the world on statements that satisfy \<open>ok\<close>. An
  operation that keeps \<open>P\<close> on every guarded connection sends only statements that satisfy \<open>ok\<close>.
\<close>

definition guards ::
  "('w, 's) sql_exec \<Rightarrow> (string \<Rightarrow> goval list \<Rightarrow> bool) \<Rightarrow> ('w \<Rightarrow> bool) \<Rightarrow> bool"
where
  "guards x ok P \<longleftrightarrow>
     (\<forall>sql args w. P w \<and> ok sql args \<longrightarrow>
        P (snd (query_cached x sql args w)) \<and> P (snd (exec_cached x sql args w)))"

definition well_formed :: "string \<Rightarrow> nat \<Rightarrow> string \<Rightarrow> goval list \<Rightarrow> bool" where
  "well_formed driver n sql args \<longleftrightarrow>
     (\<exists>raw. sql = rewrite_placeholders driver raw \<and> marks raw = length args \<and> length args \<le> n)"

text \<open>A connection that records what it is sent, for the witnesses.\<close>

definition recorder :: "((string \<times> goval list) list, unit) sql_exec" where
  "recorder =
     \<lparr>x_prepare = None,
      x_stmt_query = (\<lambda>_ _ w. (Inl (OtherError []), w)), x_stmt_exec = (\<lambda>_ _ w. (Inl (OtherError []), w)),
      x_query = (\<lambda>sql args w. (Inr \<lparr>r_cols = [], r_data = [], r_err = None\<rparr>, w @ [(sql, args)])),
      x_exec = (\<lambda>sql args w. (Inr (Some (int (length w) + 7)), w @ [(sql, args)])),
      x_conv = (\<lambda>old new. Some new)\<rparr>"

lemma guardsD:
  assumes "guards x ok P" "P w" "ok sql args"
  shows "query_cached x sql args w = (a, w') \<Longrightarrow> P w'" "exec_cached x sql args w = (b, w') \<Longrightarrow> P w'"
    "query_row_cached x sql args w = (c, w') \<Longrightarrow> P w'"
  using assms unfolding guards_def query_row_cached_def
  by (force split: prod.splits sum.splits list.splits)+

lemma guards_recorder: "guards recorder ok (list_all (\<lambda>(sql, args). ok sql args))"
  by (simp add: guards_def query_cached_def exec_cached_def recorder_def)

lemma well_formedI: "marks raw = length args \<Longrightarrow> length args \<le> n \<Longrightarrow>
  well_formed driver n (rewrite_placeholders driver raw) args"
  by (auto simp: well_formed_def)

definition insertable :: "go_struct \<Rightarrow> model_meta \<Rightarrow> bool" where
  "insertable t m \<longleftrightarrow> build_meta t = Inr m \<and> (\<forall>f\<in>set (m_fields m). marks (f_default f) = 0)"

lemma insertable_row:
  assumes "insertable t m" "row_values cd (m_fields m) v r = (Inr (phs, args), v', r')"
  shows "sum_list (map marks phs) = length args" "length args \<le> length (non_pk_cols m)"
proof -
  note s = row_values_spec[OF assms(2) build_meta_facts(1)]
  have m: "build_meta t = Inr m" "\<forall>f\<in>set (m_fields m). marks (f_default f) = 0"
    using assms(1) by (simp_all add: insertable_def)
  from s[OF m(1)] have l: "length args = length (marked_fields (m_fields m) v')"
    by (auto dest: list_all2_lengthD)
  with s[OF m(1)] marks_row[OF m(2), of v'] show "sum_list (map marks phs) = length args" by simp
  show "length args \<le> length (non_pk_cols m)"
    unfolding l by (simp add: marked_fields_def non_pk_cols_def)
qed

lemma insertable_names:
  assumes "insertable t m"
  shows "sum_list (map marks (non_pk_cols m)) = 0" "m_pk m = Some pk \<Longrightarrow> marks (f_column pk) = 0"
proof -
  have m: "build_meta t = Inr m" using assms by (simp add: insertable_def)
  show "sum_list (map marks (non_pk_cols m)) = 0"
    using marks_columns[OF build_meta_facts(2)[OF m]] by (simp add: non_pk_cols_def)
  assume "m_pk m = Some pk"
  then have "pk \<in> set (m_fields m)" by (auto simp: build_meta_facts(3)[OF m] find_Some_iff)
  then show "marks (f_column pk) = 0" using build_meta_facts(2)[OF m] by (simp add: field_ok_def)
qed

lemma insertable_chunk:
  assumes "insertable t m"
  shows "chunk_values cd (m_fields m) vs r = (Inr (phss, args), vs', r') \<Longrightarrow>
    sum_list (map (\<lambda>phs. sum_list (map marks phs)) phss) = length args \<and>
    length args \<le> length vs * length (non_pk_cols m)"
proof (induction vs arbitrary: r phss args vs' r')
  case (Cons v vs)
  from Cons.prems obtain phs args1 v1 r1 phss2 args2 vs2
    where rv: "row_values cd (m_fields m) v r = (Inr (phs, args1), v1, r1)"
      and cv: "chunk_values cd (m_fields m) vs r1 = (Inr (phss2, args2), vs2, r')"
      and e: "phss = phs # phss2" "args = args1 @ args2"
    by (auto split: prod.splits sum.splits)
  from Cons.IH[OF cv] insertable_row[OF assms rv] e show ?case by simp
qed simp

lemma marks_bulk [simp]:
  "marks (bulk_text table cols phss) =
     marks table + sum_list (map marks cols) + sum_list (map (\<lambda>phs. sum_list (map marks phs)) phss)"
  by (simp add: bulk_text_def comp_def)

lemma insert_chunk_guarded:
  assumes "insertable t m" "marks table = 0" "length vs \<le> bulk_chunk_size" "P w"
    and "guards x (well_formed driver (bulk_chunk_size * length (non_pk_cols m))) P"
    and "insert_chunk cd x driver m table vs r w = (e, vs', r', w')"
  shows "P w'"
proof (cases "chunk_values cd (m_fields m) vs r")
  case (fields res vs1 r1)
  show ?thesis
  proof (cases res)
    case (Inr pa)
    obtain phss args where pa: "pa = (phss, args)" by fastforce
    with fields Inr have cv: "chunk_values cd (m_fields m) vs r = (Inr (phss, args), vs1, r1)" by simp
    let ?sql = "bulk_text table (non_pk_cols m) phss"
    let ?n = "bulk_chunk_size * length (non_pk_cols m)"
    from insertable_chunk[OF assms(1) cv] assms(3)
    have a: "sum_list (map (\<lambda>phs. sum_list (map marks phs)) phss) = length args" "length args \<le> ?n"
      using mult_le_mono1 order_trans by blast+
    have wf: "well_formed driver ?n (rewrite_placeholders driver ?sql) args"
      using a assms(2) insertable_names(1)[OF assms(1)] by (intro well_formedI) simp_all
    have wfr: "well_formed driver ?n (rewrite_placeholders driver (?sql @ '' RETURNING '' @ f_column pk)) args"
      if "m_pk m = Some pk" for pk
      using a assms(2) insertable_names[OF assms(1)] that by (intro well_formedI) simp_all
    from assms(6) guardsD(1,2)[OF assms(5,4) wf] guardsD(1)[OF assms(5,4) wfr] show ?thesis
      by (auto simp: insert_chunk_def cv Let_def split: if_splits prod.splits sum.splits bool.splits)
  qed (use assms(4,6) fields in \<open>simp add: insert_chunk_def\<close>)
qed

lemma create_chunks_guarded:
  assumes "insertable t m" "marks table = 0"
    and "guards x (well_formed driver (bulk_chunk_size * length (non_pk_cols m))) P"
  shows "create_chunks cd x driver m table vs r w = (e, vs', r', w') \<Longrightarrow> P w \<Longrightarrow> P w'"
proof (induction "length vs" arbitrary: vs r w e vs' r' w' rule: less_induct)
  case less
  show ?case
  proof (cases "vs = []")
    case True
    with less.prems show ?thesis by (simp add: create_chunks.simps)
  next
    case False
    obtain e1 ch r1 w1 where ic: "insert_chunk cd x driver m table (take bulk_chunk_size vs) r w = (e1, ch, r1, w1)"
      by (metis prod_cases4)
    have P1: "P w1"
      using insert_chunk_guarded[OF assms(1,2) _ less.prems(2) assms(3) ic] by simp
    have l: "length (drop bulk_chunk_size vs) < length vs" using False by (simp add: bulk_chunk_size_def)
    from less.prems(1) False ic less.hyps[OF l _ P1] P1 show ?thesis
      by (subst (asm) create_chunks.simps) (auto split: option.splits prod.splits)
  qed
qed

lemma create_into_guarded:
  assumes "insertable t m" "marks schema = 0" "marks (m_table m) = 0" "P w"
    and "guards x (well_formed driver (length (non_pk_cols m))) P"
    and "create_into cd x driver schema m v r w = (e, v', r', w')"
  shows "P w'"
proof (cases "row_values cd (m_fields m) v r")
  case (fields res v1 r1)
  show ?thesis
  proof (cases res)
    case (Inr pa)
    obtain phs args where pa: "pa = (phs, args)" by fastforce
    with fields Inr have rv: "row_values cd (m_fields m) v r = (Inr (phs, args), v1, r1)" by simp
    let ?sql = "insert_text (qualified_table schema (m_table m)) (non_pk_cols m) phs"
    let ?n = "length (non_pk_cols m)"
    have t: "marks (qualified_table schema (m_table m)) = 0"
      using assms(2,3) by (simp add: qualified_table_def)
    note a = insertable_row[OF assms(1) rv] and c = insertable_names[OF assms(1)]
    have wf: "well_formed driver ?n (rewrite_placeholders driver ?sql) args"
      using a t c(1) by (intro well_formedI) simp_all
    have wfr: "well_formed driver ?n (rewrite_placeholders driver (?sql @ '' RETURNING '' @ f_column pk)) args"
      if "m_pk m = Some pk" for pk
      using a t c that by (intro well_formedI) simp_all
    from assms(6) guardsD(2)[OF assms(5,4) wf] guardsD(3)[OF assms(5,4) wfr] show ?thesis
      by (auto simp: create_into_def rv Let_def split: if_splits prod.splits sum.splits option.splits)
  qed (use assms(4,6) fields in \<open>simp add: create_into_def\<close>)
qed

text \<open>
  Whatever the connection does, \<open>CreateAll\<close> sends it only statements that carry as many
  arguments as placeholders, renumbered for PostgreSQL, and never more than 500 rows of
  arguments: any property of the world the connection keeps on such statements holds afterwards.
\<close>

theorem create_all_sends_well_formed:
  assumes "insertable t m" and "marks schema = 0" and "marks (m_table m) = 0" and "P w"
    and "guards x (well_formed driver (500 * length (non_pk_cols m))) P"
    and "create_all_into cd x driver schema m vs r w = (e, vs', r', w')"
  shows "P w'"
proof -
  have "marks (qualified_table schema (m_table m)) = 0" using assms(2,3) by (simp add: qualified_table_def)
  from create_chunks_guarded[OF assms(1) this, of x driver P cd vs r w e vs' r' w'] assms(4-6)
  show ?thesis by (simp add: create_all_into_def bulk_chunk_size_def)
qed

lemma sample_create_all:
  "create_all_into sample_codec recorder ''mysql'' [] sample_meta [sample_row, sample_row] 0 [] =
     (None, [sample_row, sample_row], 2,
      [(''INSERT INTO users (password, is_active, updated_at) VALUES (?, true, CURRENT_TIMESTAMP), (?, true, CURRENT_TIMESTAMP)'',
        [GStr ''$argon2id$wp'', GStr ''$argon2id$wp''])])"
proof -
  have "insert_chunk sample_codec recorder ''mysql'' sample_meta ''users'' [sample_row, sample_row] 0 [] =
     (None, [sample_row, sample_row], 2,
      [(''INSERT INTO users (password, is_active, updated_at) VALUES (?, true, CURRENT_TIMESTAMP), (?, true, CURRENT_TIMESTAMP)'',
        [GStr ''$argon2id$wp'', GStr ''$argon2id$wp''])])" by code_simp
  moreover have "qualified_table [] (m_table sample_meta) = ''users''" by code_simp
  ultimately show ?thesis
    by (simp add: create_all_into_def create_chunks.simps bulk_chunk_size_def)
qed

lemma sample_insertable: "insertable sample_user sample_meta"
proof -
  have "\<forall>f\<in>set (m_fields sample_meta). marks (f_default f) = 0" by code_simp
  then show ?thesis by (simp add: insertable_def sample_meta_ok)
qed

theorem create_all_sends_well_formed_witness:
  "\<exists>L. snd (snd (snd (create_all_into sample_codec recorder ''mysql'' [] sample_meta
       [sample_row, sample_row] 0 []))) = L \<and> length L = 1 \<and>
     list_all (\<lambda>(sql, args). well_formed ''mysql'' (500 * length (non_pk_cols sample_meta)) sql args) L"
proof -
  have "marks [] = 0" "marks (m_table sample_meta) = 0" by code_simp+
  from create_all_sends_well_formed[OF sample_insertable this _ guards_recorder sample_create_all]
  show ?thesis unfolding sample_create_all by simp
qed

end
