(* ===== verification/OrmStore.thy ===== *)
theory OrmStore
  imports OrmExec
begin

text \<open>
  What the database layer of the ORM promises together: the interface \<open>secret_codec\<close> between the
  ORM and \<open>core/security/crypton\<close>, the round trip from a struct through INSERT and scan, the
  prefetch of \<open>core/orm/prefetch.go\<close> and the SQLite tables of \<open>core/orm/autoddl.go\<close>.
\<close>

subsection \<open>The codec of crypton\<close>

definition salt_size :: nat where "salt_size = 16"

text \<open>
  \<open>rnd\<close> is \<open>crypto/rand\<close>; with the constant cost parameters Argon2id does not panic, so the panic
  of the library is folded into the error.
\<close>

definition crypton_codec ::
  "argon_fn \<Rightarrow> seal_fn \<Rightarrow> open_fn \<Rightarrow> (nat \<Rightarrow> 'r \<Rightarrow> string \<times> 'r) \<Rightarrow> string \<Rightarrow> string \<Rightarrow> 'r codec"
where
  "crypton_codec argon seal opn rnd pepper key =
     \<lparr>cd_hash = (\<lambda>s r. case rnd salt_size r of
         (salt, r') \<Rightarrow> (Option.bind (hash_password argon pepper (Some salt) s) id, r')),
      cd_encrypt = (\<lambda>s r.
         if has_prefix s enc_prefix then (Some s, r)
         else if length key = 0 then (None, r)
         else case rnd nonce_size r of
           (nonce, r') \<Rightarrow> (case encrypt seal key (Some nonce) s of Inl _ \<Rightarrow> None | Inr c \<Rightarrow> Some c, r')),
      cd_decrypt = (\<lambda>c. case decrypt opn key c of Inl _ \<Rightarrow> None | Inr s \<Rightarrow> Some s),
      cd_rnd = rnd\<rparr>"

locale secret_codec =
  fixes cd :: "'r codec" and ok :: "string \<Rightarrow> bool"
  assumes decrypt_encrypt: "ok s \<Longrightarrow> fst (cd_encrypt cd s r) = Some c \<Longrightarrow> cd_decrypt cd c = Some s"

text \<open>The decrypted form of a stored value, as \<open>scanOne\<close> computes it.\<close>

definition dec_val :: "(string \<Rightarrow> string option) \<Rightarrow> goval \<Rightarrow> goval option" where
  "dec_val dec x = (case x of GStr s \<Rightarrow> map_option GStr (dec s) | _ \<Rightarrow> Some x)"

lemma scan_dests_fields:
  assumes "length xs = length gs" "distinct (map f_go_index gs)" "\<forall>f\<in>set gs. f_go_index f < length v"
    and "\<forall>x\<in>set xs. \<forall>old. conv old x = Some x"
  shows "\<exists>w. scan_dests conv (map (\<lambda>f. int (f_go_index f)) gs) xs v = Some w \<and> length w = length v \<and>
    (\<forall>k<length gs. w ! f_go_index (gs ! k) = xs ! k) \<and> (\<forall>j. j \<notin> f_go_index ` set gs \<longrightarrow> w ! j = v ! j)"
  using assms
proof (induction gs arbitrary: xs v)
  case (Cons f gs)
  then obtain x xs' where xs: "xs = x # xs'" by (cases xs) auto
  let ?v = "v[f_go_index f := x]"
  from Cons.prems xs have "length xs' = length gs" "distinct (map f_go_index gs)"
    "\<forall>f\<in>set gs. f_go_index f < length ?v" "\<forall>x\<in>set xs'. \<forall>old. conv old x = Some x" by auto
  from Cons.IH[OF this] obtain w where w:
    "scan_dests conv (map (\<lambda>f. int (f_go_index f)) gs) xs' ?v = Some w" "length w = length ?v"
    "\<forall>k<length gs. w ! f_go_index (gs ! k) = xs' ! k" "\<forall>j. j \<notin> f_go_index ` set gs \<longrightarrow> w ! j = ?v ! j"
    by blast
  have "w ! f_go_index ((f # gs) ! k) = xs ! k" if "k < length (f # gs)" for k
    using that w(3,4) Cons.prems(2,3) xs by (cases k) auto
  with w xs Cons.prems show ?case by (intro exI[of _ w]) auto
qed simp

lemma decrypt_cols_fields:
  assumes "distinct (map (\<lambda>i. nat (sp_field_idx plan ! i)) is)"
    and "\<forall>i\<in>set is. nat (sp_field_idx plan ! i) < length v \<and> dec_val dec (v ! nat (sp_field_idx plan ! i)) \<noteq> None"
  shows "\<exists>w. decrypt_cols dec plan is v = Inr w \<and>
    (\<forall>i\<in>set is. Some (w ! nat (sp_field_idx plan ! i)) = dec_val dec (v ! nat (sp_field_idx plan ! i))) \<and>
    (\<forall>j. j \<notin> (\<lambda>i. nat (sp_field_idx plan ! i)) ` set is \<longrightarrow> w ! j = v ! j)"
  using assms
proof (induction "is" arbitrary: v)
  case (Cons i "is")
  let ?gi = "\<lambda>i. nat (sp_field_idx plan ! i)"
  obtain y where y: "dec_val dec (v ! ?gi i) = Some y" using Cons.prems(2) by auto
  have step: "decrypt_cols dec plan (i # is) v = decrypt_cols dec plan is (v[?gi i := y])"
    using y list_update_id[of v "?gi i"]
    by (cases "v ! ?gi i") (auto simp: dec_val_def Let_def split: option.splits)
  have "distinct (map ?gi is)" using Cons.prems(1) by simp
  moreover have "\<forall>k\<in>set is. ?gi k < length (v[?gi i := y]) \<and> dec_val dec (v[?gi i := y] ! ?gi k) \<noteq> None"
    using Cons.prems by (auto simp: image_iff nth_list_update)
  ultimately obtain w where w: "decrypt_cols dec plan is (v[?gi i := y]) = Inr w"
    "\<forall>k\<in>set is. Some (w ! ?gi k) = dec_val dec (v[?gi i := y] ! ?gi k)"
    "\<forall>j. j \<notin> ?gi ` set is \<longrightarrow> w ! j = v[?gi i := y] ! j" using Cons.IH by blast
  have "Some (w ! ?gi k) = dec_val dec (v ! ?gi k)" if "k \<in> set (i # is)" for k
  proof (cases "k = i")
    case True
    with Cons.prems have "?gi i \<notin> ?gi ` set is" "?gi i < length v" by auto
    with True w(3) y show ?thesis by simp
  next
    case False
    with that Cons.prems(1) have "k \<in> set is" "?gi k \<noteq> ?gi i" by (auto simp: image_iff)
    with w(2) show ?thesis by simp
  qed
  with w step show ?case by (intro exI[of _ w]) auto
qed simp

lemma col_to_field_distinct:
  assumes "distinct (map f_column (m_fields m))" "f \<in> set (m_fields m)"
  shows "col_to_field m (f_column f) = Some f"
proof -
  obtain g where g: "col_to_field m (f_column f) = Some g" using col_to_field_dom[OF assms(2)] by blast
  with col_to_field_Some[OF g] assms have "g = f" by (auto simp: distinct_map inj_on_def)
  with g show ?thesis by simp
qed

text \<open>The plan for result columns that are the columns of the fields \<open>gs\<close>.\<close>

lemma scan_plan_fields:
  assumes "distinct (map f_column (m_fields m))" "set gs \<subseteq> set (m_fields m)"
  shows "sp_field_idx (build_scan_plan (map f_column gs) m) = map (\<lambda>f. int (f_go_index f)) gs"
    "sp_enc_cols (build_scan_plan (map f_column gs) m) = filter (\<lambda>i. f_is_encrypt (gs ! i)) [0..<length gs]"
  using col_to_field_distinct[OF assms(1)] assms(2)
  by (auto simp: build_scan_plan_def subset_iff intro!: filter_cong)

text \<open>Which field values survive the round trip: encrypted text needs the codec's law.\<close>

definition storable :: "(string \<Rightarrow> bool) \<Rightarrow> orm_field \<Rightarrow> goval \<Rightarrow> bool" where
  "storable ok f val \<longleftrightarrow>
     (if f_is_encrypt f then \<not> f_is_hash f \<and> (case val of GStr s \<Rightarrow> ok s | _ \<Rightarrow> True) else True)"

lemma stored_plain: "stored_as cd f val x \<Longrightarrow> \<not> f_is_hash f \<Longrightarrow> \<not> f_is_encrypt f \<Longrightarrow> x = val"
  by (cases val) (auto simp: stored_as_def)

context secret_codec begin

lemma stored_dec:
  assumes "stored_as cd f val x" "f_is_encrypt f" "storable ok f val"
  shows "dec_val (cd_decrypt cd) x = Some val"
  using assms decrypt_encrypt by (cases val) (auto simp: stored_as_def storable_def dec_val_def)

lemma scan_stored:
  assumes cols: "distinct (map f_column (m_fields m))" and sub: "set gs \<subseteq> set (m_fields m)"
    and gi: "distinct (map f_go_index gs)" "\<forall>f\<in>set gs. f_go_index f < length zero"
    and st: "list_all2 (\<lambda>f x. stored_as cd f (v ! f_go_index f) x) gs args"
    and ok: "\<forall>f\<in>set gs. storable ok f (v ! f_go_index f)"
    and conv: "\<forall>x\<in>set args. \<forall>old. conv old x = Some x"
  shows "\<exists>w. scan_one conv (cd_decrypt cd) (build_scan_plan (map f_column gs) m) zero args = Inr w \<and>
    (\<forall>f\<in>set gs. \<not> f_is_hash f \<longrightarrow> w ! f_go_index f = v ! f_go_index f) \<and>
    (\<forall>j. j \<notin> f_go_index ` set gs \<longrightarrow> w ! j = zero ! j)"
proof -
  let ?plan = "build_scan_plan (map f_column gs) m"
  let ?is = "sp_enc_cols ?plan"
  note plan = scan_plan_fields[OF cols sub]
  have len: "length args = length gs" using st by (simp add: list_all2_lengthD)
  obtain u where u: "scan_dests conv (sp_field_idx ?plan) args zero = Some u" "length u = length zero"
    "\<forall>k<length gs. u ! f_go_index (gs ! k) = args ! k" "\<forall>j. j \<notin> f_go_index ` set gs \<longrightarrow> u ! j = zero ! j"
    using scan_dests_fields[OF len gi conv] unfolding plan(1) by blast
  have idx: "nat (sp_field_idx ?plan ! i) = f_go_index (gs ! i)" if "i < length gs" for i
    using that by (simp add: plan(1))
  have is_lt: "i \<in> set ?is \<longleftrightarrow> i < length gs \<and> f_is_encrypt (gs ! i)" for i by (auto simp: plan(2))
  have dec: "dec_val (cd_decrypt cd) (u ! f_go_index (gs ! i)) = Some (v ! f_go_index (gs ! i))"
    if "i \<in> set ?is" for i
    using stored_dec[of "gs ! i"] that st ok u(3) by (auto simp: is_lt list_all2_conv_all_nth)
  have "distinct (map (\<lambda>i. nat (sp_field_idx ?plan ! i)) ?is)"
  proof -
    have "inj_on (\<lambda>i. nat (sp_field_idx ?plan ! i)) (set ?is)"
    proof (rule inj_onI)
      fix a b
      assume ab: "a \<in> set ?is" "b \<in> set ?is" "nat (sp_field_idx ?plan ! a) = nat (sp_field_idx ?plan ! b)"
      then have "map f_go_index gs ! a = map f_go_index gs ! b" by (simp add: is_lt idx)
      with ab show "a = b" using gi(1) by (simp add: is_lt nth_eq_iff_index_eq del: nth_map)
    qed
    then show ?thesis by (simp add: distinct_map plan(2))
  qed
  moreover have "\<forall>i\<in>set ?is. nat (sp_field_idx ?plan ! i) < length u \<and>
      dec_val (cd_decrypt cd) (u ! nat (sp_field_idx ?plan ! i)) \<noteq> None"
    using dec gi(2) u(2) by (auto simp: is_lt idx)
  ultimately obtain w where w: "decrypt_cols (cd_decrypt cd) ?plan ?is u = Inr w"
    "\<forall>i\<in>set ?is. Some (w ! nat (sp_field_idx ?plan ! i)) = dec_val (cd_decrypt cd) (u ! nat (sp_field_idx ?plan ! i))"
    "\<forall>j. j \<notin> (\<lambda>i. nat (sp_field_idx ?plan ! i)) ` set ?is \<longrightarrow> w ! j = u ! j"
    using decrypt_cols_fields by blast
  have eq: "w ! f_go_index (gs ! i) = v ! f_go_index (gs ! i)" if i: "i < length gs" "\<not> f_is_hash (gs ! i)" for i
  proof (cases "f_is_encrypt (gs ! i)")
    case True
    with i have mem: "i \<in> set ?is" by (simp add: is_lt)
    from bspec[OF w(2) mem] dec[OF mem] idx[OF i(1)] show ?thesis by simp
  next
    case False
    have "f_go_index (gs ! i) \<notin> (\<lambda>i. nat (sp_field_idx ?plan ! i)) ` set ?is"
    proof
      assume "f_go_index (gs ! i) \<in> (\<lambda>i. nat (sp_field_idx ?plan ! i)) ` set ?is"
      then obtain k where "k < length gs" "f_is_encrypt (gs ! k)" "f_go_index (gs ! i) = f_go_index (gs ! k)"
        by (auto simp: is_lt idx)
      with gi(1) i False show False by (metis distinct_conv_nth length_map nth_map)
    qed
    with w(3) u(3) i have "w ! f_go_index (gs ! i) = args ! i" by simp
    moreover have "stored_as cd (gs ! i) (v ! f_go_index (gs ! i)) (args ! i)"
      using st i(1) by (simp add: list_all2_conv_all_nth)
    ultimately show ?thesis using stored_plain[OF _ i(2) False] by simp
  qed
  have "w ! j = zero ! j" if "j \<notin> f_go_index ` set gs" for j
  proof -
    have "j \<notin> (\<lambda>i. nat (sp_field_idx ?plan ! i)) ` set ?is" using that by (auto simp: is_lt idx)
    with w(3) u(4) that show ?thesis by simp
  qed
  with eq u(1) w(1) show ?thesis
    by (intro exI[of _ w]) (auto simp: scan_one_def in_set_conv_nth)
qed

end

definition opens :: "seal_fn \<Rightarrow> open_fn \<Rightarrow> (nat \<Rightarrow> 'r \<Rightarrow> string \<times> 'r) \<Rightarrow> string \<Rightarrow> string \<Rightarrow> bool" where
  "opens seal opn rnd key s \<longleftrightarrow>
     key \<noteq> [] \<and> \<not> has_prefix s enc_prefix \<and>
     (\<forall>r. let n = fst (rnd nonce_size r) in length n = nonce_size \<and> opn key n (seal key n s) = Some s)"

interpretation crypton: secret_codec "crypton_codec argon seal opn rnd pepper key" "opens seal opn rnd key"
  for argon seal opn rnd pepper key
proof
  fix s r c
  assume ok: "opens seal opn rnd key s"
    and enc: "fst (cd_encrypt (crypton_codec argon seal opn rnd pepper key) s r) = Some c"
  let ?n = "fst (rnd nonce_size r)"
  from ok have n: "key \<noteq> []" "\<not> has_prefix s enc_prefix" "length ?n = nonce_size"
    "opn key ?n (seal key ?n s) = Some s"
    by (auto simp: opens_def Let_def)
  from enc n have c: "c = enc_prefix @ pad_encode (?n @ seal key ?n s)"
    by (auto simp: crypton_codec_def encrypt_def split: prod.splits)
  have "decrypt opn key c = Inr s"
    using n by (simp add: c decrypt_def trim_prefix_def pad_encode_decode)
  then show "cd_decrypt (crypton_codec argon seal opn rnd pepper key) c = Some s"
    by (simp add: crypton_codec_def)
qed

subsection \<open>Round trip\<close>


definition sample_card :: go_struct where
  "sample_card = \<lparr>gs_name = ''Card'', gs_fields =
     [\<lparr>gf_name = ''ID'', gf_exported = True, gf_type = TIntK KInt64, gf_tag = ''pk''\<rparr>,
      \<lparr>gf_name = ''Code'', gf_exported = True, gf_type = TString, gf_tag = ''nanoid,size:3''\<rparr>,
      \<lparr>gf_name = ''Number'', gf_exported = True, gf_type = TString, gf_tag = ''encrypt''\<rparr>]\<rparr>"

definition card_meta :: model_meta where
  "card_meta = (case build_meta sample_card of Inr m \<Rightarrow> m | Inl _ \<Rightarrow> \<lparr>m_table = [], m_fields = [], m_pk = None\<rparr>)"

definition card_codec :: "unit codec" where
  "card_codec = crypton_codec toy_argon (\<lambda>k n p. rev p) (\<lambda>k n c. Some (rev c))
     (\<lambda>n r. (replicate n (CHR ''x''), r)) ''pep'' ''key''"

lemma card_meta_ok: "build_meta sample_card = Inr card_meta"
  by code_simp

lemma card_fields: "m_fields card_meta =
  [(new_field 0 ''ID'')\<lparr>f_is_pk := True\<rparr>, (new_field 1 ''Code'')\<lparr>f_is_nanoid := True, f_size := 3\<rparr>,
   (new_field 2 ''Number'')\<lparr>f_is_encrypt := True\<rparr>]"
  by code_simp

lemma card_table: "m_table card_meta = ''cards''"
  by code_simp

lemma card_columns: "map f_column (m_fields card_meta) = [''id'', ''code'', ''number'']"
  by code_simp

lemma card_row:
  "\<exists>c. row_values card_codec (m_fields card_meta) [GInt KInt64 0, GStr ''sss'', GStr ''4242''] () =
     (Inr ([''?'', ''?''], [GStr ''sss'', GStr c]), [GInt KInt64 0, GStr ''sss'', GStr ''4242''], ())"
  by (simp add: card_fields new_field_def fill_nano_id_def uses_default_def secure_value_def card_codec_def
      crypton_codec_def encrypt_def enc_prefix_def)


subsection \<open>Keys and groups of Prefetch\<close>

fun dedupe_seen :: "'k list \<Rightarrow> 'k list \<Rightarrow> 'k list" where
  "dedupe_seen seen [] = []"
| "dedupe_seen seen (k # ks) =
     (if k \<in> set seen then dedupe_seen seen ks else k # dedupe_seen (k # seen) ks)"

definition dedupe :: "'k list \<Rightarrow> 'k list" where
  "dedupe keys = dedupe_seen [] keys"

definition add_to_group :: "('r \<Rightarrow> 'k) \<Rightarrow> ('k \<times> 'r list) list \<Rightarrow> 'r \<Rightarrow> ('k \<times> 'r list) list" where
  "add_to_group key_of grouped item =
     (let k = key_of item;
          old = (case map_of grouped k of Some l \<Rightarrow> l | None \<Rightarrow> [])
      in AList.update k (old @ [item]) grouped)"

definition group_by_key :: "'r list \<Rightarrow> ('r \<Rightarrow> 'k) \<Rightarrow> ('k \<times> 'r list) list" where
  "group_by_key items key_of = foldl (add_to_group key_of) [] items"

lemma set_dedupe_seen: "set (dedupe_seen seen ks) = set ks - set seen"
  by (induction ks arbitrary: seen) auto

lemma distinct_dedupe_seen: "distinct (dedupe_seen seen ks)"
  by (induction ks arbitrary: seen) (auto simp: set_dedupe_seen)

lemma dedupe_spec: "distinct (dedupe ks) \<and> set (dedupe ks) = set ks"
  by (simp add: dedupe_def set_dedupe_seen distinct_dedupe_seen)

lemma add_to_group_lookup:
  "map_of (add_to_group key_of g r) k =
     (if key_of r = k then Some ((case map_of g k of Some l \<Rightarrow> l | None \<Rightarrow> []) @ [r]) else map_of g k)"
  by (simp add: add_to_group_def Let_def)

lemma group_fold:
  "map_of (foldl (add_to_group key_of) g items) k =
     (let l = (case map_of g k of Some l \<Rightarrow> l | None \<Rightarrow> []) @ filter (\<lambda>r. key_of r = k) items
      in if map_of g k = None \<and> filter (\<lambda>r. key_of r = k) items = [] then None else Some l)"
proof (induction items arbitrary: g)
  case Nil
  show ?case by (cases "map_of g k") simp_all
next
  case (Cons r items)
  show ?case
    by (cases "key_of r = k"; cases "map_of g k") (simp_all add: Cons.IH add_to_group_lookup Let_def)
qed

lemma group_by_key_lookup:
  "map_of (group_by_key items key_of) k =
     (let l = filter (\<lambda>r. key_of r = k) items in if l = [] then None else Some l)"
  by (simp add: group_by_key_def group_fold Let_def)

subsection \<open>SQLite tables\<close>

definition elem_type :: "go_type \<Rightarrow> go_type" where
  "elem_type t = (case t of TPtr u \<Rightarrow> u | _ \<Rightarrow> t)"

definition is_ptr :: "go_type \<Rightarrow> bool" where
  "is_ptr t = (case t of TPtr u \<Rightarrow> True | _ \<Rightarrow> False)"

definition sqlite_column_type :: "go_type \<Rightarrow> orm_field \<Rightarrow> string" where
  "sqlite_column_type t f =
     (if f_is_pk f then ''INTEGER PRIMARY KEY''
      else case elem_type t of
        TBool \<Rightarrow> ''INTEGER''
      | TIntK _ \<Rightarrow> ''INTEGER''
      | TUintK _ \<Rightarrow> ''INTEGER''
      | TFloatK _ \<Rightarrow> ''REAL''
      | TTime \<Rightarrow> ''DATETIME''
      | _ \<Rightarrow> if f_size f > 0 then ''VARCHAR('' @ itoa (f_size f) @ '')'' else ''TEXT'')"

definition sqlite_default :: "string \<Rightarrow> string" where
  "sqlite_default def = (if to_lower def = to_lower ''NOW()'' then ''CURRENT_TIMESTAMP'' else def)"

definition sqlite_column_line :: "go_type \<Rightarrow> orm_field \<Rightarrow> string" where
  "sqlite_column_line t f =
     ''  '' @ f_column f @ '' '' @ sqlite_column_type t f @
     (if f_is_pk f then []
      else (if is_ptr t then [] else '' NOT NULL'') @
        (let d = sqlite_default (f_default f) in if d \<noteq> [] then '' DEFAULT '' @ d else []) @
        (if f_fk f \<noteq> [] then '' REFERENCES '' @ f_fk f @ ''(id)'' else []))"

definition unique_index_stmt :: "string \<Rightarrow> orm_field \<Rightarrow> string" where
  "unique_index_stmt table f =
     ''CREATE UNIQUE INDEX IF NOT EXISTS '' @ table @ ''_'' @ f_column f @ ''_idx ON '' @ table @
     '' ('' @ f_column f @ '')''"

definition build_sqlite_create_table :: "model_meta \<Rightarrow> go_struct \<Rightarrow> string \<times> string list" where
  "build_sqlite_create_table meta t =
     (''CREATE TABLE IF NOT EXISTS '' @ m_table meta @ '' (\<newline>'' @
        join '',\<newline>'' (map (\<lambda>f. sqlite_column_line (gf_type (gs_fields t ! f_go_index f)) f) (m_fields meta)) @
        ''\<newline>)'',
      map (unique_index_stmt (m_table meta)) (filter (\<lambda>f. f_unique f \<and> \<not> f_is_pk f) (m_fields meta)))"

fun run_stmts :: "(string \<Rightarrow> 'w \<Rightarrow> dberr option \<times> 'w) \<Rightarrow> string list \<Rightarrow> 'w \<Rightarrow> dberr option \<times> 'w" where
  "run_stmts exec [] w = (None, w)"
| "run_stmts exec (s # ss) w =
     (case exec s w of (Some e, w') \<Rightarrow> (Some e, w') | (None, w') \<Rightarrow> run_stmts exec ss w')"

definition ensure_sqlite_table ::
  "(string \<Rightarrow> 'w \<Rightarrow> dberr option \<times> 'w) \<Rightarrow> string \<Rightarrow> model_meta \<Rightarrow> go_struct \<Rightarrow> 'w \<Rightarrow> orm_error option \<times> 'w"
where
  "ensure_sqlite_table exec driver meta t w =
     (if \<not> is_sqlite driver then (Some (Panicked ''EnsureSQLiteTable''), w)
      else let (create, indexes) = build_sqlite_create_table meta t in
        case exec create w of
          (Some e, w') \<Rightarrow> (Some (Db ''create table'' e), w')
        | (None, w') \<Rightarrow> (case run_stmts exec indexes w' of
              (e, w2) \<Rightarrow> (map_option (Db ''create index'') e, w2)))"

lemma utoa_no_semi: "CHR '';'' \<notin> set (utoa n)"
  using utoa_digits[of n] by (auto simp: list_all_iff is_digit_def)

lemma valid_ident_no_semi: "valid_ident s \<Longrightarrow> CHR '';'' \<notin> set s"
proof -
  have "\<not> sql_safe_char (CHR '';'')" by code_simp
  then show "valid_ident s \<Longrightarrow> CHR '';'' \<notin> set s" using valid_ident_chars by blast
qed

lemma sqlite_type_no_semi: "CHR '';'' \<notin> set (sqlite_column_type t f)"
  using utoa_no_semi by (auto simp: sqlite_column_type_def itoa_def split: go_type.split)

lemma sqlite_line_quiet:
  assumes "field_ok f" "CHR '';'' \<notin> set (f_default f)"
  shows "CHR '';'' \<notin> set (sqlite_column_line t f)"
  using assms valid_ident_no_semi sqlite_type_no_semi[of t f]
  by (auto simp: sqlite_column_line_def field_ok_def sqlite_default_def Let_def)

text \<open>
  On a driver other than SQLite \<open>EnsureSQLiteTable\<close> panics before it touches the database. On
  SQLite everything it executes is a single statement: for any model \<open>buildMeta\<close> accepts whose
  table name is an identifier and whose defaults contain no semicolon, neither the CREATE TABLE nor
  any CREATE UNIQUE INDEX contains one, and there is exactly one index for every unique column
  other than the primary key.
\<close>

theorem sqlite_ddl_single_statements:
  assumes "build_meta t = Inr m" and "valid_ident (m_table m)"
    and "\<forall>f\<in>set (m_fields m). CHR '';'' \<notin> set (f_default f)"
  shows "(\<not> is_sqlite driver \<longrightarrow> ensure_sqlite_table exec driver m t w = (Some (Panicked ''EnsureSQLiteTable''), w)) \<and>
    (\<forall>create indexes. build_sqlite_create_table m t = (create, indexes) \<longrightarrow>
       (\<forall>s\<in>set (create # indexes). CHR '';'' \<notin> set s) \<and>
       length indexes = length (filter (\<lambda>f. f_unique f \<and> \<not> f_is_pk f) (m_fields m)))"
proof -
  note ok = build_meta_facts(2)[OF assms(1)]
  have tab: "CHR '';'' \<notin> set (m_table m)" using assms(2) by (rule valid_ident_no_semi)
  let ?lines = "map (\<lambda>f. sqlite_column_line (gf_type (gs_fields t ! f_go_index f)) f) (m_fields m)"
  have "\<forall>l\<in>set ?lines. CHR '';'' \<notin> set l" using ok assms(3) sqlite_line_quiet by auto
  then have "CHR '';'' \<notin> set (join '',\<newline>'' ?lines)"
    using set_join[of "'',\<newline>''" ?lines] by auto
  moreover have "CHR '';'' \<notin> set (unique_index_stmt (m_table m) f)" if "f \<in> set (m_fields m)" for f
    using tab that ok valid_ident_no_semi by (auto simp: unique_index_stmt_def field_ok_def)
  ultimately show ?thesis
    using tab by (auto simp: build_sqlite_create_table_def ensure_sqlite_table_def)
qed

theorem sqlite_ddl_single_statements_witness:
  "fst (build_sqlite_create_table card_meta sample_card) =
     ''CREATE TABLE IF NOT EXISTS cards (\<newline>  id INTEGER PRIMARY KEY,\<newline>  code VARCHAR(3) NOT NULL,\<newline>  number TEXT NOT NULL\<newline>)'' \<and>
   list_all (\<lambda>s. CHR '';'' \<notin> set s) (fst (build_sqlite_create_table card_meta sample_card) #
        snd (build_sqlite_create_table card_meta sample_card))"
proof -
  have "valid_ident (m_table card_meta)" by code_simp
  moreover have "\<forall>f\<in>set (m_fields card_meta). CHR '';'' \<notin> set (f_default f)" by code_simp
  moreover have "fst (build_sqlite_create_table card_meta sample_card) =
     ''CREATE TABLE IF NOT EXISTS cards (\<newline>  id INTEGER PRIMARY KEY,\<newline>  code VARCHAR(3) NOT NULL,\<newline>  number TEXT NOT NULL\<newline>)''"
    by (simp add: build_sqlite_create_table_def card_fields new_field_def sqlite_column_line_def sample_card_def
        sqlite_column_type_def elem_type_def is_ptr_def sqlite_default_def itoa_def utoa.simps go_eval to_snake_def
        card_table; code_simp)
  ultimately show ?thesis
    using sqlite_ddl_single_statements[OF card_meta_ok] unfolding list_all_iff
    by (metis prod.collapse)
qed

end
