(* ===== verification/Database.thy ===== *)
theory Database
  imports OrmStore "HOL-Library.Multiset"
begin

text \<open>
  \<open>core/database/database.go\<close>, \<open>core/orm/db.go\<close> and \<open>core/orm/config.go\<close>: the LRU cache of prepared
  statements, transactions, the two registries of connections (\<open>Manager\<close> and the ORM's own) and
  the pool settings. The statement cache is an implementation of the interface \<open>lru_store\<close>, the
  registries of the interface \<open>conn_registry\<close>.
\<close>

subsection \<open>The statement cache\<close>

text \<open>
  \<open>container/list\<close> elements are numbered: \<open>sc_items\<close> maps a query to its element, \<open>sc_order\<close> is the
  list from the most to the least recently used element.
\<close>

record 's stmt_cache =
  sc_items :: "(string \<times> nat) list"
  sc_order :: "(nat \<times> string \<times> 's) list"
  sc_next :: nat

definition max_cached_stmts :: nat where "max_cached_stmts = 512"

definition new_stmt_cache :: "'s stmt_cache" where
  "new_stmt_cache = \<lparr>sc_items = [], sc_order = [], sc_next = 0\<rparr>"

definition move_to_front :: "nat \<Rightarrow> (nat \<times> 'e) list \<Rightarrow> (nat \<times> 'e) list" where
  "move_to_front el order =
     (case map_of order el of None \<Rightarrow> order | Some e \<Rightarrow> (el, e) # AList.delete el order)"

definition stmt_get :: "string \<Rightarrow> 's stmt_cache \<Rightarrow> 's option \<times> 's stmt_cache" where
  "stmt_get key c =
     (case map_of (sc_items c) key of
        Some el \<Rightarrow> (map_option snd (map_of (sc_order c) el), c\<lparr>sc_order := move_to_front el (sc_order c)\<rparr>)
      | None \<Rightarrow> (None, c))"

definition cache_push :: "string \<Rightarrow> 's \<Rightarrow> 's stmt_cache \<Rightarrow> 's stmt_cache" where
  "cache_push key s c =
     \<lparr>sc_items = AList.update key (sc_next c) (sc_items c), sc_order = (sc_next c, key, s) # sc_order c,
      sc_next = Suc (sc_next c)\<rparr>"

definition cache_evict :: "'s stmt_cache \<Rightarrow> 's list \<times> 's stmt_cache" where
  "cache_evict c =
     (if length (sc_order c) > max_cached_stmts
      then (case last (sc_order c) of
              (oldest, key, stmt) \<Rightarrow>
                ([stmt], c\<lparr>sc_order := butlast (sc_order c), sc_items := AList.delete key (sc_items c)\<rparr>))
      else ([], c))"

text \<open>\<open>put\<close>: the statement to use, those the caller must close, and the cache.\<close>

definition stmt_put :: "string \<Rightarrow> 's \<Rightarrow> 's stmt_cache \<Rightarrow> 's \<times> 's list \<times> 's stmt_cache" where
  "stmt_put key s c =
     (case map_of (sc_items c) key of
        Some el \<Rightarrow>
          (snd (the (map_of (sc_order c) el)), [s], c\<lparr>sc_order := move_to_front el (sc_order c)\<rparr>)
      | None \<Rightarrow> (case cache_evict (cache_push key s c) of (to_close, c') \<Rightarrow> (s, to_close, c')))"

definition stmt_close_all :: "'s stmt_cache \<Rightarrow> 's list \<times> 's stmt_cache" where
  "stmt_close_all c =
     (map (\<lambda>(k, el). snd (the (map_of (sc_order c) el))) (sc_items c), c\<lparr>sc_items := [], sc_order := []\<rparr>)"

text \<open>The invariant: map and list hold the same elements, keys and elements are unique.\<close>

definition cache_inv :: "'s stmt_cache \<Rightarrow> bool" where
  "cache_inv c \<longleftrightarrow>
     distinct (map fst (sc_order c)) \<and> distinct (map (fst \<circ> snd) (sc_order c)) \<and>
     distinct (map fst (sc_items c)) \<and>
     set (sc_items c) = (\<lambda>(el, k, s). (k, el)) ` set (sc_order c) \<and>
     (\<forall>el\<in>fst ` set (sc_order c). el < sc_next c) \<and> length (sc_order c) \<le> max_cached_stmts"

text \<open>The abstract cache: an association list, most recently used first.\<close>

definition cache_abs :: "'s stmt_cache \<Rightarrow> (string \<times> 's) list" where
  "cache_abs c = map snd (sc_order c)"

definition lru_get :: "'k \<Rightarrow> ('k \<times> 'v) list \<Rightarrow> 'v option \<times> ('k \<times> 'v) list" where
  "lru_get k l = (case map_of l k of None \<Rightarrow> (None, l) | Some v \<Rightarrow> (Some v, (k, v) # AList.delete k l))"

definition lru_put :: "nat \<Rightarrow> 'k \<Rightarrow> 'v \<Rightarrow> ('k \<times> 'v) list \<Rightarrow> 'v \<times> 'v list \<times> ('k \<times> 'v) list" where
  "lru_put cap k v l =
     (case map_of l k of
        Some old \<Rightarrow> (old, [v], (k, old) # AList.delete k l)
      | None \<Rightarrow> (v, map snd (drop cap ((k, v) # l)), take cap ((k, v) # l)))"

lemma cache_lookup:
  assumes "cache_inv c"
  shows "map_of (sc_items c) key = Some el \<longleftrightarrow> (\<exists>s. (el, key, s) \<in> set (sc_order c))"
proof -
  have "map_of (sc_items c) key = Some el \<longleftrightarrow> (key, el) \<in> set (sc_items c)"
    using assms by (simp add: cache_inv_def)
  also have "\<dots> \<longleftrightarrow> (key, el) \<in> (\<lambda>(el, k, s). (k, el)) ` set (sc_order c)"
    using assms by (simp add: cache_inv_def)
  also have "\<dots> \<longleftrightarrow> (\<exists>s. (el, key, s) \<in> set (sc_order c))" by force
  finally show ?thesis .
qed

lemma order_entry:
  "cache_inv c \<Longrightarrow> (el, key, s) \<in> set (sc_order c) \<Longrightarrow> map_of (sc_order c) el = Some (key, s)"
  by (simp add: cache_inv_def)

lemma abs_entry:
  assumes "cache_inv c" shows "map_of (cache_abs c) key = Some s \<longleftrightarrow> (\<exists>el. (el, key, s) \<in> set (sc_order c))"
proof -
  have "distinct (map fst (cache_abs c))" using assms by (simp add: cache_inv_def cache_abs_def comp_def)
  then show ?thesis by (force simp: cache_abs_def)
qed

lemma abs_none: "cache_inv c \<Longrightarrow> map_of (cache_abs c) key = None \<longleftrightarrow> map_of (sc_items c) key = None"
  by (metis abs_entry cache_lookup not_None_eq)

lemma delete_same_entry:
  "distinct (map fst xs) \<Longrightarrow> distinct (map (fst \<circ> snd) xs) \<Longrightarrow> (el, k, s) \<in> set xs \<Longrightarrow>
   map snd (AList.delete el xs) = AList.delete k (map snd xs)"
proof (induction xs)
  case (Cons x xs)
  obtain el' k' s' where x: "x = (el', k', s')" by (cases x) auto
  show ?case
  proof (cases "el' = el")
    case True
    with Cons.prems x have e: "k' = k" by (auto simp: image_iff)
    from Cons.prems x True have "el \<notin> fst ` set xs" "k' \<notin> fst ` set (map snd xs)" by (auto simp: image_iff)
    with x True e show ?thesis by (simp add: AList.delete_id)
  next
    case False
    with Cons.prems x have mem: "(el, k, s) \<in> set xs" by auto
    with Cons.prems x have "k' \<noteq> k" by (force simp: image_iff)
    with Cons mem x False show ?thesis by simp
  qed
qed simp

lemma move_abs:
  assumes "cache_inv c" "(el, k, s) \<in> set (sc_order c)"
  shows "cache_abs (c\<lparr>sc_order := move_to_front el (sc_order c)\<rparr>) = (k, s) # AList.delete k (cache_abs c)"
  using assms delete_same_entry[of "sc_order c" el k s] order_entry[OF assms]
  by (simp add: move_to_front_def cache_inv_def cache_abs_def)

lemma mset_delete:
  "distinct (map fst xs) \<Longrightarrow> map_of xs el = Some e \<Longrightarrow> mset xs = add_mset (el, e) (mset (AList.delete el xs))"
proof (induction xs)
  case (Cons x xs)
  show ?case
  proof (cases "fst x = el")
    case True
    with Cons.prems have "el \<notin> fst ` set xs" "x = (el, e)" by (cases x; force)+
    then show ?thesis by (simp add: AList.delete_id)
  qed (use Cons in \<open>cases x, auto\<close>)
qed simp

lemma mset_move: "distinct (map fst xs) \<Longrightarrow> mset (move_to_front el xs) = mset xs"
  by (cases "map_of xs el") (simp_all add: move_to_front_def mset_delete)

lemma move_inv: "cache_inv c \<Longrightarrow> cache_inv (c\<lparr>sc_order := move_to_front el (sc_order c)\<rparr>)"
proof -
  assume i: "cache_inv c"
  let ?m = "move_to_front el (sc_order c)"
  have m: "mset ?m = mset (sc_order c)" using i by (intro mset_move) (simp add: cache_inv_def)
  then have d: "distinct (map f ?m) = distinct (map f (sc_order c))" for f :: "_ \<Rightarrow> 'b"
    by (intro mset_eq_imp_distinct_iff) simp
  have d2: "distinct (map f ?m) = distinct (map f (sc_order c))" for f :: "_ \<Rightarrow> nat"
    using m by (intro mset_eq_imp_distinct_iff) simp
  have d3: "distinct (map f ?m) = distinct (map f (sc_order c))" for f :: "_ \<Rightarrow> string"
    using m by (intro mset_eq_imp_distinct_iff) simp
  from i d2 d3 mset_eq_setD[OF m] mset_eq_length[OF m] show ?thesis by (simp add: cache_inv_def)
qed

lemma get_refines:
  assumes "cache_inv c" "stmt_get key c = (r, c')"
  shows "cache_inv c' \<and> lru_get key (cache_abs c) = (r, cache_abs c')"
proof (cases "map_of (sc_items c) key")
  case None
  then have "map_of (cache_abs c) key = None" using abs_none[OF assms(1)] by blast
  with None assms show ?thesis by (auto simp: stmt_get_def lru_get_def)
next
  case (Some el)
  then obtain s where s: "(el, key, s) \<in> set (sc_order c)" using cache_lookup[OF assms(1)] by blast
  with abs_entry[OF assms(1)] have g: "map_of (cache_abs c) key = Some s" by blast
  have "r = Some s" "c' = c\<lparr>sc_order := move_to_front el (sc_order c)\<rparr>"
    using Some assms(2) order_entry[OF assms(1) s] by (simp_all add: stmt_get_def)
  with move_abs[OF assms(1) s] move_inv[OF assms(1)] show ?thesis by (simp add: lru_get_def g)
qed

lemma butlast_inv:
  assumes "sc_order c = es @ [(el, k, s)]" "sc_items c = items" "length es \<le> max_cached_stmts"
    and "distinct (map fst (sc_order c))" "distinct (map (fst \<circ> snd) (sc_order c))" "distinct (map fst items)"
    and "set items = (\<lambda>(el, k, s). (k, el)) ` set (sc_order c)" "\<forall>el\<in>fst ` set (sc_order c). el < sc_next c"
  shows "cache_inv (c\<lparr>sc_order := es, sc_items := AList.delete k items\<rparr>)"
proof -
  have "k \<notin> (fst \<circ> snd) ` set es" using assms(1,5) by auto
  then have "set (AList.delete k items) = (\<lambda>(el, k, s). (k, el)) ` set es"
  proof -
    assume k: "k \<notin> (fst \<circ> snd) ` set es"
    have "set (AList.delete k items) = {p \<in> set items. fst p \<noteq> k}" by (auto simp: AList.delete_eq)
    also have "\<dots> = (\<lambda>(el, k, s). (k, el)) ` {e \<in> set (sc_order c). fst (snd e) \<noteq> k}"
      unfolding assms(7) by force
    also have "{e \<in> set (sc_order c). fst (snd e) \<noteq> k} = set es" using assms(1) k by auto
    finally show ?thesis .
  qed
  moreover have "distinct (map fst (AList.delete k items))"
    using assms(6) by (simp add: AList.distinct_delete)
  ultimately show ?thesis using assms by (simp add: cache_inv_def)
qed

lemma push_facts:
  assumes "cache_inv c" "map_of (sc_items c) key = None" and c1_def: "c1 = cache_push key s c"
  shows "distinct (map fst (sc_order c1))" "distinct (map (fst \<circ> snd) (sc_order c1))"
    "distinct (map fst (sc_items c1))" "set (sc_items c1) = (\<lambda>(el, k, s). (k, el)) ` set (sc_order c1)"
    "\<forall>el\<in>fst ` set (sc_order c1). el < sc_next c1" "cache_abs c1 = (key, s) # cache_abs c"
    "length (sc_order c1) \<le> Suc max_cached_stmts"
proof -
  have fresh: "key \<notin> fst ` set (sc_items c)" using assms(2) by (simp add: map_of_eq_None_iff)
  have keys: "key \<notin> (fst \<circ> snd) ` set (sc_order c)"
    using fresh assms(1) by (force simp: cache_inv_def image_iff)
  show "distinct (map fst (sc_order c1))" "distinct (map (fst \<circ> snd) (sc_order c1))"
    "distinct (map fst (sc_items c1))" "set (sc_items c1) = (\<lambda>(el, k, s). (k, el)) ` set (sc_order c1)"
    "\<forall>el\<in>fst ` set (sc_order c1). el < sc_next c1" "cache_abs c1 = (key, s) # cache_abs c"
    "length (sc_order c1) \<le> Suc max_cached_stmts"
    using assms(1) fresh keys by (auto simp: cache_inv_def AList_update_fresh c1_def cache_push_def cache_abs_def)
qed

lemma evict_facts:
  assumes "cache_inv c" "map_of (sc_items c) key = None" "cache_evict (cache_push key s c) = (cl, c')"
  shows "cache_inv c'" "cl = map snd (drop max_cached_stmts ((key, s) # cache_abs c))"
    "cache_abs c' = take max_cached_stmts ((key, s) # cache_abs c)"
proof -
  let ?c1 = "cache_push key s c"
  note p = push_facts[OF assms(1,2) refl, of s]
  have "cache_inv c' \<and> cl = map snd (drop max_cached_stmts (cache_abs ?c1)) \<and>
    cache_abs c' = take max_cached_stmts (cache_abs ?c1)"
  proof (cases "length (sc_order ?c1) > max_cached_stmts")
    case False
    then have "cache_inv ?c1" using p by (simp add: cache_inv_def)
    with False assms(3) show ?thesis by (auto simp: cache_evict_def cache_abs_def)
  next
    case True
    then obtain es x where xe: "sc_order ?c1 = es @ [x]" by (cases "sc_order ?c1" rule: rev_cases) auto
    obtain el k old where x: "x = (el, k, old)" by (cases x) auto
    have l: "length es = max_cached_stmts" using True p(7) xe by simp
    have "cache_inv (?c1\<lparr>sc_order := es, sc_items := AList.delete k (sc_items ?c1)\<rparr>)"
      using xe x l p by (intro butlast_inv[of ?c1 es el k old]) simp_all
    with True xe x l assms(3) show ?thesis by (auto simp: cache_evict_def cache_abs_def)
  qed
  then show "cache_inv c'" "cl = map snd (drop max_cached_stmts ((key, s) # cache_abs c))"
    "cache_abs c' = take max_cached_stmts ((key, s) # cache_abs c)" by (simp_all add: p(6))
qed

lemma put_refines:
  assumes "cache_inv c" "stmt_put key s c = (use, cl, c')"
  shows "cache_inv c' \<and> lru_put max_cached_stmts key s (cache_abs c) = (use, cl, cache_abs c')"
proof (cases "map_of (sc_items c) key")
  case (Some el)
  then obtain t where t: "(el, key, t) \<in> set (sc_order c)" using cache_lookup[OF assms(1)] by blast
  with abs_entry[OF assms(1)] have g: "map_of (cache_abs c) key = Some t" by blast
  have "use = t" "cl = [s]" "c' = c\<lparr>sc_order := move_to_front el (sc_order c)\<rparr>"
    using Some assms(2) order_entry[OF assms(1) t] by (simp_all add: stmt_put_def)
  with move_abs[OF assms(1) t] move_inv[OF assms(1)] show ?thesis by (simp add: lru_put_def g)
next
  case None
  then have "map_of (cache_abs c) key = None" using abs_none[OF assms(1)] by blast
  with None assms(2) evict_facts[OF assms(1) None, of s] show ?thesis
    by (auto simp: stmt_put_def lru_put_def split: prod.splits)
qed

lemma cache_inv_keys: "cache_inv c \<Longrightarrow> distinct (map fst (cache_abs c))"
  by (simp add: cache_inv_def cache_abs_def comp_def)

lemma new_cache_inv [simp]: "cache_inv new_stmt_cache" "cache_abs new_stmt_cache = []"
  by (simp_all add: cache_inv_def cache_abs_def new_stmt_cache_def)

subsection \<open>Prepared statements through the cache\<close>

text \<open>\<open>PrepareCached\<close> over any cache operations; the driver prepares and closes statements.\<close>

definition prepare_via ::
  "(string \<Rightarrow> 'c \<Rightarrow> 's option \<times> 'c) \<Rightarrow> (string \<Rightarrow> 's \<Rightarrow> 'c \<Rightarrow> 's \<times> 's list \<times> 'c) \<Rightarrow>
   (string \<Rightarrow> 'w \<Rightarrow> (dberr + 's) \<times> 'w) \<Rightarrow> ('s \<Rightarrow> 'w \<Rightarrow> 'w) \<Rightarrow> string \<Rightarrow> 'c \<Rightarrow> 'w \<Rightarrow> (dberr + 's) \<times> 'c \<times> 'w"
where
  "prepare_via get put prep close query c w =
     (case get query c of
        (Some s, c1) \<Rightarrow> (Inr s, c1, w)
      | (None, c1) \<Rightarrow>
          (case prep query w of
             (Inl e, w1) \<Rightarrow> (Inl e, c1, w1)
           | (Inr s, w1) \<Rightarrow>
               (case put query s c1 of (use, to_close, c2) \<Rightarrow> (Inr use, c2, fold close to_close w1))))"

definition prepare_cached ::
  "(string \<Rightarrow> 'w \<Rightarrow> (dberr + 's) \<times> 'w) \<Rightarrow> ('s \<Rightarrow> 'w \<Rightarrow> 'w) \<Rightarrow> string \<Rightarrow> 's stmt_cache \<Rightarrow> 'w \<Rightarrow>
   (dberr + 's) \<times> 's stmt_cache \<times> 'w"
where
  "prepare_cached = prepare_via stmt_get stmt_put"

definition entries :: "('k \<times> 's) list \<Rightarrow> ('s \<times> 'k) set" where
  "entries l = (\<lambda>(k, s). (s, k)) ` set l"

text \<open>
  What the library promises of statements: preparing opens a fresh one for the query (or none,
  on an error), closing removes it.
\<close>

definition stmt_driver ::
  "(string \<Rightarrow> 'w \<Rightarrow> (dberr + 's) \<times> 'w) \<Rightarrow> ('s \<Rightarrow> 'w \<Rightarrow> 'w) \<Rightarrow> ('w \<Rightarrow> ('s \<times> string) set) \<Rightarrow> bool"
where
  "stmt_driver prep close opened \<longleftrightarrow>
     (\<forall>q w e w'. prep q w = (Inl e, w') \<longrightarrow> opened w' = opened w) \<and>
     (\<forall>q w s w'. prep q w = (Inr s, w') \<longrightarrow> opened w' = insert (s, q) (opened w) \<and> s \<notin> fst ` opened w) \<and>
     (\<forall>s w. opened (close s w) = {p \<in> opened w. fst p \<noteq> s})"

locale lru_store =
  fixes get :: "string \<Rightarrow> 'c \<Rightarrow> 's option \<times> 'c"
    and put :: "string \<Rightarrow> 's \<Rightarrow> 'c \<Rightarrow> 's \<times> 's list \<times> 'c"
    and okc :: "'c \<Rightarrow> bool" and view :: "'c \<Rightarrow> (string \<times> 's) list" and cap :: nat
  assumes cap: "0 < cap"
    and keys: "okc c \<Longrightarrow> distinct (map fst (view c))"
    and get_abs: "okc c \<Longrightarrow> get k c = (r, c') \<Longrightarrow> okc c' \<and> lru_get k (view c) = (r, view c')"
    and put_abs: "okc c \<Longrightarrow> put k s c = (use, cl, c') \<Longrightarrow> okc c' \<and> lru_put cap k s (view c) = (use, cl, view c')"

lemma entries_split:
  assumes "snd ` A \<inter> snd ` B = {}"
  shows "{p \<in> (\<lambda>(k, s). (s, k)) ` (A \<union> B). fst p \<notin> snd ` B} = (\<lambda>(k, s). (s, k)) ` A"
proof (rule set_eqI)
  fix p :: "'a \<times> 'b"
  obtain s k where p: "p = (s, k)" by (cases p)
  have m: "p \<in> (\<lambda>(k, s). (s, k)) ` C \<longleftrightarrow> (k, s) \<in> C" for C by (force simp: p)
  show "p \<in> {p \<in> (\<lambda>(k, s). (s, k)) ` (A \<union> B). fst p \<notin> snd ` B} \<longleftrightarrow> p \<in> (\<lambda>(k, s). (s, k)) ` A"
    using assms by (simp add: m) (force simp: p)
qed

text \<open>The open statements are exactly the cached ones: none leaks, none cached is closed.\<close>

definition coherent ::
  "('c \<Rightarrow> bool) \<Rightarrow> ('c \<Rightarrow> (string \<times> 's) list) \<Rightarrow> ('w \<Rightarrow> ('s \<times> string) set) \<Rightarrow> 'c \<Rightarrow> 'w \<Rightarrow> bool"
where
  "coherent okc view opened c w \<longleftrightarrow> okc c \<and> distinct (map snd (view c)) \<and> opened w = entries (view c)"

lemma opened_fold_close:
  "stmt_driver prep close opened \<Longrightarrow> opened (fold close cl w) = {p \<in> opened w. fst p \<notin> set cl}"
  by (induction cl arbitrary: w) (auto simp: stmt_driver_def)

lemma lru_get_entries:
  assumes "distinct (map fst l)" "lru_get k l = (r, l')"
  shows "entries l' = entries l \<and> (r = None \<longrightarrow> map_of l k = None) \<and> (\<forall>s. r = Some s \<longrightarrow> (s, k) \<in> entries l) \<and>
    (distinct (map snd l) \<longrightarrow> distinct (map snd l'))"
proof (cases "map_of l k")
  case (Some v)
  then have m: "mset l = add_mset (k, v) (mset (AList.delete k l))" using assms(1) by (rule_tac mset_delete)
  from Some assms(2) have l': "l' = (k, v) # AList.delete k l" "r = Some v" by (auto simp: lru_get_def)
  then have "mset l' = mset l" by (simp add: m)
  then have "set l' = set l" "distinct (map snd l) = distinct (map snd l')"
    by (auto dest: mset_eq_setD intro!: mset_eq_imp_distinct_iff)
  with l' Some show ?thesis by (force simp: entries_def dest: map_of_SomeD)
qed (use assms in \<open>auto simp: lru_get_def\<close>)

context lru_store begin

lemma prepare_coherent:
  assumes drv: "stmt_driver prep close opened" and coh: "coherent okc view opened c w"
    and run: "prepare_via get put prep close q c w = (res, c', w')"
  shows "coherent okc view opened c' w' \<and> (\<forall>s. res = Inr s \<longrightarrow> (s, q) \<in> opened w')"
proof -
  obtain r c1 where g: "get q c = (r, c1)" by fastforce
  from coh have i: "okc c" "distinct (map snd (view c))" "opened w = entries (view c)"
    by (simp_all add: coherent_def)
  from get_abs[OF i(1) g] have i1: "okc c1" and lg: "lru_get q (view c) = (r, view c1)" by auto
  note e = lru_get_entries[OF keys[OF i(1)] lg]
  have c1: "coherent okc view opened c1 w" using i i1 e by (simp add: coherent_def)
  show ?thesis
  proof (cases r)
    case (Some s)
    with run g c1 e i(3) show ?thesis by (auto simp: prepare_via_def)
  next
    case None
    obtain pr w1 where p: "prep q w = (pr, w1)" by fastforce
    show ?thesis
    proof (cases pr)
      case (Inl x)
      with drv p have "opened w1 = opened w" by (auto simp: stmt_driver_def)
      with run g None p Inl c1 show ?thesis by (auto simp: prepare_via_def coherent_def)
    next
      case (Inr s)
      obtain use cl c2 where pt: "put q s c1 = (use, cl, c2)" by (metis prod_cases3)
      let ?l = "(q, s) # view c1"
      have "map_of (view c) q = None" using e None by blast
      moreover have "view c1 = view c" using lg calculation by (auto simp: lru_get_def)
      ultimately have mn: "map_of (view c1) q = None" by simp
      from put_abs[OF i1 pt] mn
      have c2: "okc c2" "use = s" "cl = map snd (drop cap ?l)" "view c2 = take cap ?l" by (auto simp: lru_put_def)
      from drv p Inr have o1: "opened w1 = insert (s, q) (opened w)" "s \<notin> fst ` opened w"
        by (auto simp: stmt_driver_def)
      have "s \<notin> snd ` set (view c1)" using o1(2) c1 by (force simp: coherent_def entries_def)
      then have d: "distinct (map snd ?l)" using c1 by (simp add: coherent_def)
      have "opened w' = {p \<in> entries ?l. fst p \<notin> set cl}"
      proof -
        have "w' = fold close cl w1" using run g None p Inr pt by (simp add: prepare_via_def)
        moreover have "opened w1 = entries ?l" using o1(1) c1 by (simp add: coherent_def entries_def)
        ultimately show ?thesis by (simp add: opened_fold_close[OF drv])
      qed
      also have "\<dots> = entries (take cap ?l)"
      proof -
        have split: "set ?l = set (take cap ?l) \<union> set (drop cap ?l)" by (metis append_take_drop_id set_append)
        have dis: "snd ` set (take cap ?l) \<inter> snd ` set (drop cap ?l) = {}"
          using d by (metis append_take_drop_id distinct_append map_append set_map)
        show ?thesis unfolding c2(3) entries_def split set_map by (rule entries_split[OF dis])
      qed
      finally have o: "opened w' = entries (view c2)" by (simp add: c2(4))
      have "distinct (map snd (view c2))" using d by (metis c2(4) distinct_take take_map)
      moreover have "res = Inr s" "c' = c2" using run g None p Inr pt c2(2) by (auto simp: prepare_via_def)
      moreover have "(s, q) \<in> entries (view c2)" using cap c2(4) by (cases cap) (simp_all add: entries_def)
      ultimately show ?thesis using o c2(1) by (simp add: coherent_def)
    qed
  qed
qed

end

interpretation stmts: lru_store stmt_get stmt_put cache_inv cache_abs max_cached_stmts
proof
  show "0 < max_cached_stmts" by (simp add: max_cached_stmts_def)
qed (rule cache_inv_keys get_refines put_refines, assumption+)+


definition sample_prep :: "string \<Rightarrow> (nat \<times> string) list \<Rightarrow> (dberr + nat) \<times> (nat \<times> string) list" where
  "sample_prep q w = (let s = Suc (sum_list (map fst w)) in (Inr s, (s, q) # w))"

definition sample_close :: "nat \<Rightarrow> (nat \<times> string) list \<Rightarrow> (nat \<times> string) list" where
  "sample_close s w = filter (\<lambda>p. fst p \<noteq> s) w"

lemma sample_stmt_driver: "stmt_driver sample_prep sample_close set"
proof -
  have "Suc (sum_list (map fst w)) \<notin> fst ` set w" for w :: "(nat \<times> string) list"
    using member_le_sum_list[of _ "map fst w"] by fastforce
  then show ?thesis by (auto simp: stmt_driver_def sample_prep_def sample_close_def Let_def)
qed


text \<open>
  Eviction closes a statement whoever holds it: when 512 statements are cached and a new query
  is prepared, the least recently used one is closed, although an earlier \<open>PrepareCached\<close> handed
  it to a caller that may not have executed it yet (nothing counts its users).
\<close>

theorem eviction_closes_handed_out_statement:
  assumes "stmt_driver prep close opened" and "coherent cache_inv cache_abs opened c w"
    and "length (cache_abs c) = 512" and "map_of (cache_abs c) query = None" and "prep query w = (Inr s, w1)"
    and "prepare_cached prep close query c w = (res, c', w')" and l: "last (cache_abs c) = (old_query, old)"
  shows "(old, old_query) \<in> opened w \<and> (old, old_query) \<notin> opened w'"
proof -
  from assms(2) have i: "cache_inv c" "distinct (map snd (cache_abs c))" "opened w = entries (cache_abs c)"
    by (simp_all add: coherent_def)
  obtain es where es: "cache_abs c = es @ [(old_query, old)]"
    using assms(3) l by (cases "cache_abs c" rule: rev_cases) auto
  have o: "(old, old_query) \<in> opened w" using i(3) es by (auto simp: entries_def)
  have items: "map_of (sc_items c) query = None" using abs_none[OF i(1)] assms(4) by blast
  obtain cl c2 where ev: "cache_evict (cache_push query s c) = (cl, c2)" by fastforce
  from evict_facts(2)[OF i(1) items ev] es assms(3) have cl: "cl = [old]"
    by (simp add: max_cached_stmts_def)
  have "w' = fold close cl w1"
    using assms(5,6) items ev by (auto simp: prepare_cached_def prepare_via_def stmt_get_def stmt_put_def)
  then have "opened w' = {p \<in> opened w1. fst p \<noteq> old}"
    using opened_fold_close[OF assms(1), of cl w1] cl by simp
  with o show "(old, old_query) \<in> opened w \<and> (old, old_query) \<notin> opened w'" by simp
qed

definition full_stmts :: "(string \<times> nat) list" where
  "full_stmts = map (\<lambda>i. (utoa i, i)) [0..<512]"

definition full_cache :: "nat stmt_cache" where
  "full_cache = \<lparr>sc_items = full_stmts, sc_order = map (\<lambda>(k, i). (i, k, i)) full_stmts, sc_next = 512\<rparr>"

lemma full_cache_inv: "cache_inv full_cache"
proof -
  have "inj utoa" by (rule injI) (rule utoa_inj)
  from inj_on_subset[OF this] have "distinct (map utoa [0..<512])" by (simp add: distinct_map)
  then show ?thesis
    by (auto simp: cache_inv_def full_cache_def full_stmts_def comp_def max_cached_stmts_def image_image)
qed

lemma full_cache_abs: "cache_abs full_cache = full_stmts"
  by (simp add: cache_abs_def full_cache_def full_stmts_def comp_def)

theorem eviction_closes_handed_out_statement_witness:
  "\<exists>w' :: (nat \<times> string) list. (511, utoa 511) \<notin> set w' \<and>
     snd (snd (prepare_cached sample_prep sample_close ''SELECT 1'' full_cache (map (\<lambda>(k, i). (i, k)) full_stmts))) = w'"
proof -
  let ?w = "map (\<lambda>(k, i). (i, k)) full_stmts"
  have c: "coherent cache_inv cache_abs set full_cache ?w"
    using full_cache_inv by (simp add: coherent_def full_cache_abs entries_def full_stmts_def comp_def image_image)
  have len: "length (cache_abs full_cache) = 512" by (simp add: full_cache_abs full_stmts_def)
  have "\<not> list_all is_digit ''SELECT 1''" by code_simp
  then have ne: "utoa i \<noteq> ''SELECT 1''" for i using utoa_digits by metis
  then have new: "map_of (cache_abs full_cache) ''SELECT 1'' = None"
    using ne by (auto simp: full_cache_abs full_stmts_def map_of_eq_None_iff dest: sym)
  have lst: "last (cache_abs full_cache) = (utoa 511, 511)"
    by (simp add: full_cache_abs full_stmts_def last_map)
  obtain s w1 where p: "sample_prep ''SELECT 1'' ?w = (Inr s, w1)" by (simp add: sample_prep_def Let_def)
  obtain res c' w' where r: "prepare_cached sample_prep sample_close ''SELECT 1'' full_cache ?w = (res, c', w')"
    by (metis prod_cases3)
  from eviction_closes_handed_out_statement[OF sample_stmt_driver c len new p r lst] r show ?thesis by auto
qed

subsection \<open>Closing a connection\<close>

definition close_db :: "('s \<Rightarrow> 'w \<Rightarrow> 'w) \<Rightarrow> 's stmt_cache option \<Rightarrow> 'w \<Rightarrow> 's stmt_cache option \<times> 'w" where
  "close_db close stmts w =
     (case stmts of
        None \<Rightarrow> (None, w)
      | Some c \<Rightarrow> (case stmt_close_all c of (to_close, c') \<Rightarrow> (Some c', fold close to_close w)))"

text \<open>
  Closing a connection closes every statement of its cache: from a coherent state no
  statement is open afterwards, and the emptied cache is again coherent.
\<close>

theorem close_db_closes_all:
  assumes "stmt_driver prep close opened" and "coherent cache_inv cache_abs opened c w"
    and "close_db close (Some c) w = (stmts, w')"
  shows "\<exists>c'. stmts = Some c' \<and> opened w' = {} \<and> coherent cache_inv cache_abs opened c' w'"
proof -
  from assms(2) have i: "cache_inv c" "opened w = entries (cache_abs c)" by (simp_all add: coherent_def)
  obtain cl c' where ca: "stmt_close_all c = (cl, c')" by fastforce
  with assms(3) have w': "stmts = Some c'" "w' = fold close cl w" by (auto simp: close_db_def)
  from ca have c': "c' = c\<lparr>sc_items := [], sc_order := []\<rparr>"
    and cl: "cl = map (\<lambda>(k, el). snd (the (map_of (sc_order c) el))) (sc_items c)"
    by (auto simp: stmt_close_all_def)
  have "s \<in> set cl" if "(s, k) \<in> opened w" for s k
  proof -
    from that i(2) obtain el where e: "(el, k, s) \<in> set (sc_order c)" by (auto simp: entries_def cache_abs_def)
    with cache_lookup[OF i(1)] have "(k, el) \<in> set (sc_items c)" by (blast dest: map_of_SomeD)
    with order_entry[OF i(1) e] show ?thesis unfolding cl by force
  qed
  then have "opened w' = {}" using opened_fold_close[OF assms(1), of cl w] w'(2) by auto
  moreover have "cache_inv c'" "cache_abs c' = []" by (simp_all add: c' cache_inv_def cache_abs_def)
  ultimately show ?thesis using w'(1) by (simp add: coherent_def entries_def)
qed

theorem close_db_closes_all_witness:
  "\<exists>c'. close_db sample_close (Some full_cache) (map (\<lambda>(k, i). (i, k)) full_stmts) = (Some c', []) \<and> cache_inv c'"
proof -
  let ?w = "map (\<lambda>(k, i). (i, k)) full_stmts"
  have c: "coherent cache_inv cache_abs set full_cache ?w"
    using full_cache_inv by (simp add: coherent_def full_cache_abs entries_def full_stmts_def comp_def image_image)
  obtain st w' where r: "close_db sample_close (Some full_cache) ?w = (st, w')" by fastforce
  from close_db_closes_all[OF sample_stmt_driver c r] r show ?thesis by (auto simp: coherent_def)
qed

subsection \<open>Transactions\<close>

datatype 'e tx_result = TxDone | TxFailed 'e | TxPanicked string

definition transaction ::
  "('w \<Rightarrow> 'e option \<times> 'w) \<Rightarrow> ('w \<Rightarrow> 'e option \<times> 'w) \<Rightarrow> ('w \<Rightarrow> 'w) \<Rightarrow> ('w \<Rightarrow> 'e tx_result \<times> 'w) \<Rightarrow> 'w \<Rightarrow>
   'e tx_result \<times> 'w"
where
  "transaction begin_tx commit rollback fn w =
     (case begin_tx w of
        (Some e, w1) \<Rightarrow> (TxFailed e, w1)
      | (None, w1) \<Rightarrow>
          (case fn w1 of
             (TxPanicked p, w2) \<Rightarrow> (TxPanicked p, rollback w2)
           | (TxFailed e, w2) \<Rightarrow> (TxFailed e, rollback w2)
           | (TxDone, w2) \<Rightarrow>
               (case commit w2 of (Some e, w3) \<Rightarrow> (TxFailed e, w3) | (None, w3) \<Rightarrow> (TxDone, w3))))"


definition mem_begin :: "int \<times> int \<Rightarrow> string option \<times> int \<times> int" where
  "mem_begin w = (None, fst w, fst w)"

definition mem_commit :: "int \<times> int \<Rightarrow> string option \<times> int \<times> int" where
  "mem_commit w = (None, snd w, snd w)"

definition mem_rollback :: "int \<times> int \<Rightarrow> int \<times> int" where
  "mem_rollback w = (fst w, fst w)"


subsection \<open>Named connections\<close>

record 'd manager =
  mg_conns :: "(string \<times> 'd) list"
  mg_order :: "string list"

definition new_manager :: "'d manager" where
  "new_manager = \<lparr>mg_conns = [], mg_order = []\<rparr>"

definition add_db :: "string \<Rightarrow> 'd \<Rightarrow> 'd manager \<Rightarrow> 'd manager" where
  "add_db name db m =
     (let m1 = (if map_of (mg_conns m) name = None then m\<lparr>mg_order := mg_order m @ [name]\<rparr> else m)
      in m1\<lparr>mg_conns := AList.update name db (mg_conns m1)\<rparr>)"

text \<open>\<open>Use\<close>: \<open>None\<close> as name is the call without argument, \<open>None\<close> as result the nil connection.\<close>

definition manager_use :: "string option \<Rightarrow> 'd manager \<Rightarrow> 'd option" where
  "manager_use name m =
     (let key = (case name of Some n \<Rightarrow> (if n \<noteq> [] then n else ''default'') | None \<Rightarrow> ''default'') in
      case map_of (mg_conns m) key of
        Some db \<Rightarrow> Some db
      | None \<Rightarrow> (case mg_order m of n # _ \<Rightarrow> map_of (mg_conns m) n | [] \<Rightarrow> None))"

record conn_info =
  ci_name :: string
  ci_driver :: string
  ci_online :: bool

definition manager_info :: "('d \<Rightarrow> string) \<Rightarrow> ('d \<Rightarrow> bool) \<Rightarrow> 'd manager \<Rightarrow> conn_info list" where
  "manager_info driver ping m =
     map (\<lambda>name. let db = the (map_of (mg_conns m) name)
        in \<lparr>ci_name = name, ci_driver = driver db, ci_online = ping db\<rparr>) (mg_order m)"

text \<open>The registry of the ORM, package variables \<open>connections\<close> and \<open>connOrder\<close>.\<close>

record 'd conn_table =
  ct_connections :: "(string \<times> 'd) list"
  ct_conn_order :: "string list"

definition no_connections :: "'d conn_table" where
  "no_connections = \<lparr>ct_connections = [], ct_conn_order = []\<rparr>"

definition register_conn :: "string \<Rightarrow> 'd \<Rightarrow> 'd conn_table \<Rightarrow> 'd conn_table" where
  "register_conn name db t =
     (let t1 = (if map_of (ct_connections t) name = None then t\<lparr>ct_conn_order := ct_conn_order t @ [name]\<rparr> else t)
      in t1\<lparr>ct_connections := AList.update name db (ct_connections t1)\<rparr>)"

text \<open>\<open>orm.DB\<close>; \<open>None\<close> is the panic.\<close>

definition orm_db :: "string \<Rightarrow> 'd conn_table \<Rightarrow> 'd option" where
  "orm_db name t =
     (case map_of (ct_connections t) name of
        Some db \<Rightarrow> Some db
      | None \<Rightarrow>
          (if name = ''default'' \<and> ct_conn_order t \<noteq> []
           then map_of (ct_connections t) (hd (ct_conn_order t)) else None))"

definition has_connections :: "'d conn_table \<Rightarrow> bool" where
  "has_connections t \<longleftrightarrow> length (ct_connections t) > 0"

text \<open>The contract the two registries share: the last connection of a name, in first-seen order.\<close>

locale conn_registry =
  fixes add :: "string \<Rightarrow> 'd \<Rightarrow> 'm \<Rightarrow> 'm" and conns :: "'m \<Rightarrow> (string \<times> 'd) list"
    and order :: "'m \<Rightarrow> string list"
  assumes add_conns: "map_of (conns (add n d m)) = (map_of (conns m))(n \<mapsto> d)"
    and add_order: "order (add n d m) = (if map_of (conns m) n = None then order m @ [n] else order m)"

context conn_registry begin

definition good :: "'m \<Rightarrow> bool" where
  "good m \<longleftrightarrow> distinct (order m) \<and> set (order m) = dom (map_of (conns m))"

lemma add_good: "good m \<Longrightarrow> good (add n d m)"
  by (auto simp: good_def add_conns add_order dom_def)

lemma fold_good: "good m \<Longrightarrow> good (fold (\<lambda>(n, d). add n d) regs m)"
  by (induction regs arbitrary: m) (auto simp: add_good)

lemma fold_conns: "map_of (conns (fold (\<lambda>(n, d). add n d) regs m)) = map_of (conns m) ++ map_of (rev regs)"
  by (induction regs arbitrary: m) (auto simp: add_conns map_add_def fun_eq_iff split: option.split)

lemma fold_order: "good m \<Longrightarrow> order (fold (\<lambda>(n, d). add n d) regs m) =
   order m @ filter (\<lambda>n. n \<notin> set (order m)) (rev (remdups (rev (map fst regs))))"
proof (induction regs rule: rev_induct)
  case (snoc r regs)
  obtain n d where r: "r = (n, d)" by (cases r)
  let ?m = "fold (\<lambda>(n, d). add n d) regs m"
  have "map_of (conns ?m) n = None \<longleftrightarrow> n \<notin> set (order m) \<and> n \<notin> set (map fst regs)"
    using snoc.prems by (auto simp: fold_conns good_def map_add_None map_of_eq_None_iff dom_def)
  with snoc r show ?case by (auto simp: add_order)
qed simp

end

interpretation mgr: conn_registry add_db mg_conns mg_order
  by unfold_locales (simp_all add: add_db_def Let_def AList.update_conv')

interpretation reg: conn_registry register_conn ct_connections ct_conn_order
  by unfold_locales (simp_all add: register_conn_def Let_def AList.update_conv')

record db_config =
  dc_name :: string
  dc_enabled :: bool
  dc_driver :: string
  dc_dsn :: string

text \<open>\<open>LoadDatabases\<close>: \<open>Inl\<close> is the panic that stops the start-up; \<open>opn\<close> is \<open>database.Open\<close>.\<close>

datatype load_panic = EmptyName | EmptyDSN string | OpenFailed string string

fun load_databases ::
  "(string \<Rightarrow> string \<Rightarrow> string + 'd) \<Rightarrow> db_config list \<Rightarrow> 'd manager \<Rightarrow> 'd conn_table \<Rightarrow>
   load_panic + 'd manager \<times> 'd conn_table"
where
  "load_databases opn [] m t = Inr (m, t)"
| "load_databases opn (cfg # cfgs) m t =
     (if \<not> dc_enabled cfg then load_databases opn cfgs m t
      else if dc_name cfg = [] then Inl EmptyName
      else if dc_dsn cfg = [] then Inl (EmptyDSN (dc_name cfg))
      else case opn (dc_driver cfg) (dc_dsn cfg) of
          Inl e \<Rightarrow> Inl (OpenFailed (dc_name cfg) e)
        | Inr db \<Rightarrow> load_databases opn cfgs (add_db (dc_name cfg) db m) (register_conn (dc_name cfg) db t))"

lemma load_databases_regs:
  "load_databases opn cfgs m t = Inr (m', t') \<Longrightarrow>
   \<exists>regs. map fst regs = map dc_name (filter dc_enabled cfgs) \<and> (\<forall>(n, d)\<in>set regs. n \<noteq> []) \<and>
     m' = fold (\<lambda>(n, d). add_db n d) regs m \<and> t' = fold (\<lambda>(n, d). register_conn n d) regs t"
proof (induction cfgs arbitrary: m t)
  case (Cons cfg cfgs)
  show ?case
  proof (cases "dc_enabled cfg")
    case True
    with Cons.prems obtain db where db: "dc_name cfg \<noteq> []"
      "load_databases opn cfgs (add_db (dc_name cfg) db m) (register_conn (dc_name cfg) db t) = Inr (m', t')"
      by (auto split: if_splits sum.splits)
    from Cons.IH[OF db(2)] obtain regs where
      "map fst regs = map dc_name (filter dc_enabled cfgs)" "\<forall>(n, d)\<in>set regs. n \<noteq> []"
      "m' = fold (\<lambda>(n, d). add_db n d) regs (add_db (dc_name cfg) db m)"
      "t' = fold (\<lambda>(n, d). register_conn n d) regs (register_conn (dc_name cfg) db t)" by blast
    with True db(1) show ?thesis by (intro exI[of _ "(dc_name cfg, db) # regs"]) auto
  qed (use Cons in auto)
qed simp

text \<open>
  After \<open>LoadDatabases\<close> on empty registries the manager and the ORM agree: both list the
  enabled names in the order of their first block, \<open>Use\<close> and \<open>DB\<close> give the same connection for
  every registered name and for \<open>default\<close>, which is never missing once a database is enabled. For
  any other name they differ: \<open>DB\<close> panics while \<open>Use\<close> gives the first connection registered.
\<close>

theorem load_databases_agree:
  assumes "load_databases opn cfgs new_manager no_connections = Inr (m, t)"
  shows "mg_order m = ct_conn_order t \<and>
    mg_order m = rev (remdups (rev (map dc_name (filter dc_enabled cfgs)))) \<and>
    (has_connections t \<longleftrightarrow> (\<exists>c\<in>set cfgs. dc_enabled c)) \<and>
    manager_use None m = orm_db ''default'' t \<and>
    (has_connections t \<longrightarrow> manager_use None m \<noteq> None) \<and>
    (\<forall>n. n \<noteq> [] \<longrightarrow> (if n \<in> set (mg_order m) \<or> n = ''default'' then orm_db n t = manager_use (Some n) m
       else orm_db n t = None \<and>
         (mg_order m \<noteq> [] \<longrightarrow> manager_use (Some n) m = manager_use (Some (hd (mg_order m))) m)))"
proof -
  obtain regs where regs: "map fst regs = map dc_name (filter dc_enabled cfgs)" "\<forall>(n, d)\<in>set regs. n \<noteq> []"
    and m: "m = fold (\<lambda>(n, d). add_db n d) regs new_manager"
    and t: "t = fold (\<lambda>(n, d). register_conn n d) regs no_connections"
    using load_databases_regs[OF assms] by blast
  have g: "mgr.good new_manager" "reg.good no_connections"
    by (simp_all add: mgr.good_def reg.good_def new_manager_def no_connections_def)
  have conns: "map_of (mg_conns m) = map_of (rev regs)" "map_of (ct_connections t) = map_of (rev regs)"
    by (simp_all add: m t mgr.fold_conns reg.fold_conns new_manager_def no_connections_def)
  have ord: "mg_order m = rev (remdups (rev (map fst regs)))" "ct_conn_order t = mg_order m"
    by (simp_all add: m t mgr.fold_order[OF g(1)] reg.fold_order[OF g(2)])
      (simp_all add: new_manager_def no_connections_def)
  have so: "set (mg_order m) = fst ` set regs" by (simp add: ord)
  have sn: "map_of (rev regs) n = None \<longleftrightarrow> n \<notin> set (mg_order m)" for n
    by (simp add: so map_of_eq_None_iff)
  have hc: "has_connections t \<longleftrightarrow> mg_order m \<noteq> []"
    using conns(2) map_of_eq_empty_iff[of "ct_connections t"] map_of_eq_empty_iff[of "rev regs"]
    by (auto simp: has_connections_def ord)
  have en: "mg_order m \<noteq> [] \<longleftrightarrow> (\<exists>c\<in>set cfgs. dc_enabled c)"
    using regs(1) by (simp add: ord) (metis filter_empty_conv map_is_Nil_conv)
  let ?C = "map_of (rev regs)" and ?first = "case mg_order m of n # _ \<Rightarrow> map_of (rev regs) n | [] \<Rightarrow> None"
  have use: "manager_use (Some n) m = (case ?C n of Some db \<Rightarrow> Some db | None \<Rightarrow> ?first)" if "n \<noteq> []" for n
    using that unfolding manager_use_def conns Let_def by simp
  have use0: "manager_use None m = (case ?C ''default'' of Some db \<Rightarrow> Some db | None \<Rightarrow> ?first)"
    unfolding manager_use_def conns Let_def by simp
  have db: "orm_db n t = (case ?C n of Some db \<Rightarrow> Some db | None \<Rightarrow> if n = ''default'' then ?first else None)" for n
    unfolding orm_db_def conns ord(2) by (simp split: option.split list.split)
  have first: "mg_order m \<noteq> [] \<Longrightarrow> ?first \<noteq> None"
    using sn[of "hd (mg_order m)"] by (cases "mg_order m") auto
  have nodef: "?C ''default'' \<noteq> None" if "''default'' \<in> set (mg_order m)" using that sn by blast
  have "orm_db n t = manager_use (Some n) m" if "n \<noteq> []" "n \<in> set (mg_order m) \<or> n = ''default''" for n
    using that sn[of n] by (auto simp: use db split: option.split)
  moreover have "orm_db n t = None \<and>
      (mg_order m \<noteq> [] \<longrightarrow> manager_use (Some n) m = manager_use (Some (hd (mg_order m))) m)"
    if n: "n \<noteq> []" "n \<notin> set (mg_order m)" "n \<noteq> ''default''" for n
  proof -
    have c: "?C n = None" using n(2) sn by blast
    have "hd (mg_order m) \<noteq> []" "?C (hd (mg_order m)) = ?first" if "mg_order m \<noteq> []"
      using that regs(2) hd_in_set[OF that] so by (auto split: list.split)
    with n(1,3) c show ?thesis by (auto simp: db use split: option.split)
  qed
  moreover have "manager_use None m = orm_db ''default'' t" by (simp add: use0 db split: option.split)
  moreover have "has_connections t \<longrightarrow> manager_use None m \<noteq> None"
    using first hc by (auto simp: use0 split: option.split)
  ultimately show ?thesis using ord hc en regs(1) by metis
qed

definition sample_dbs :: "db_config list" where
  "sample_dbs = [\<lparr>dc_name = ''main'', dc_enabled = True, dc_driver = ''postgres'', dc_dsn = ''dsn1''\<rparr>,
     \<lparr>dc_name = ''old'', dc_enabled = False, dc_driver = ''mysql'', dc_dsn = []\<rparr>,
     \<lparr>dc_name = ''logs'', dc_enabled = True, dc_driver = ''sqlite'', dc_dsn = ''logs.db''\<rparr>]"

theorem load_databases_agree_witness:
  "\<exists>m t. load_databases (\<lambda>driver dsn. Inr dsn) sample_dbs new_manager no_connections = Inr (m, t) \<and>
     orm_db ''typo'' t = None \<and> manager_use (Some ''typo'') m = Some ''dsn1'' \<and>
     orm_db ''default'' t = Some ''dsn1''"
proof -
  obtain m t where r: "load_databases (\<lambda>driver dsn. Inr dsn) sample_dbs new_manager no_connections = Inr (m, t)"
    "mg_order m = [''main'', ''logs'']" "manager_use None m = Some ''dsn1''"
    "manager_use (Some ''main'') m = Some ''dsn1''"
    by (auto simp: sample_dbs_def new_manager_def no_connections_def add_db_def register_conn_def manager_use_def)
  note agree = load_databases_agree[OF r(1)]
  have h: "hd (mg_order m) = ''main''" "mg_order m \<noteq> []" "''typo'' \<notin> set (mg_order m)" by (simp_all add: r(2))
  have "orm_db ''typo'' t = None \<and> manager_use (Some ''typo'') m = manager_use (Some ''main'') m"
    using agree[THEN conjunct2, THEN conjunct2, THEN conjunct2, THEN conjunct2, THEN conjunct2, THEN spec, of "''typo''"] h
    by simp
  moreover have "orm_db ''default'' t = Some ''dsn1''" using agree r(3) by simp
  ultimately have "orm_db ''typo'' t = None \<and> manager_use (Some ''typo'') m = Some ''dsn1'' \<and>
    orm_db ''default'' t = Some ''dsn1''" using r(4) by simp
  with r(1) show ?thesis by blast
qed

subsection \<open>Opening a connection\<close>

record pool =
  pl_max_open :: int
  pl_max_idle :: int
  pl_max_lifetime :: duration
  pl_max_idle_time :: duration

definition second :: duration where "second = 1000000000"

text \<open>An integer variable of the environment, when it is present, well formed and passes the test.\<close>

definition env_int :: "(string \<Rightarrow> string) \<Rightarrow> string \<Rightarrow> (int \<Rightarrow> bool) \<Rightarrow> int option" where
  "env_int get name ok =
     (let v = get name in
      if v = [] then None
      else case atoi v of (n, valid) \<Rightarrow> if valid \<and> ok n then Some n else None)"

definition pool_settings :: "(string \<Rightarrow> string) \<Rightarrow> pool" where
  "pool_settings get =
     \<lparr>pl_max_open = (case env_int get ''DB_MAX_OPEN_CONNS'' (\<lambda>n. n > 0) of Some n \<Rightarrow> n | None \<Rightarrow> 25),
      pl_max_idle = (case env_int get ''DB_MAX_IDLE_CONNS'' (\<lambda>n. n \<ge> 0) of Some n \<Rightarrow> n | None \<Rightarrow> 5),
      pl_max_lifetime = (case env_int get ''DB_CONN_MAX_LIFETIME_SECONDS'' (\<lambda>n. n > 0) of
          Some n \<Rightarrow> wrap64 (n * second) | None \<Rightarrow> 30 * 60 * second),
      pl_max_idle_time = (case env_int get ''DB_CONN_MAX_IDLE_SECONDS'' (\<lambda>n. n \<ge> 0) of
          Some n \<Rightarrow> wrap64 (n * second) | None \<Rightarrow> 5 * 60 * second)\<rparr>"

datatype open_error = OpenErr string string | PingErr string string

definition open_db ::
  "(string \<Rightarrow> string \<Rightarrow> string + 'h) \<Rightarrow> ('h \<Rightarrow> string option) \<Rightarrow> (string \<Rightarrow> string) \<Rightarrow> string \<Rightarrow> string \<Rightarrow>
   open_error + 'h \<times> pool \<times> 's stmt_cache"
where
  "open_db sql_open ping get driver dsn =
     (case sql_open driver dsn of
        Inl e \<Rightarrow> Inl (OpenErr driver e)
      | Inr h \<Rightarrow>
          (case ping h of
             Some e \<Rightarrow> Inl (PingErr driver e)
           | None \<Rightarrow> Inr (h, pool_settings get, new_stmt_cache)))"

lemma env_int_ok: "env_int get name ok = Some n \<Longrightarrow> ok n"
  by (auto simp: env_int_def Let_def split: if_splits prod.splits)

text \<open>
  Whatever the environment holds, an opened connection allows at least one connection and a
  non-negative number of idle ones; the lifetimes are non-negative, and the lifetime positive, as
  long as the configured seconds do not exceed 9223372036 (beyond that the nanoseconds wrap around
  and the limit silently becomes another one).
\<close>

theorem pool_settings_bounds:
  assumes "\<forall>n. env_int get ''DB_CONN_MAX_LIFETIME_SECONDS'' (\<lambda>n. n > 0) = Some n \<longrightarrow> n \<le> 9223372036"
    and "\<forall>n. env_int get ''DB_CONN_MAX_IDLE_SECONDS'' (\<lambda>n. n \<ge> 0) = Some n \<longrightarrow> n \<le> 9223372036"
  shows "1 \<le> pl_max_open (pool_settings get) \<and> 0 \<le> pl_max_idle (pool_settings get) \<and>
    0 < pl_max_lifetime (pool_settings get) \<and> 0 \<le> pl_max_idle_time (pool_settings get)"
proof -
  have w: "wrap64 (n * second) = n * second" if "0 \<le> n" "n \<le> 9223372036" for n
    using that by (intro wrap64_id) (simp_all add: second_def min_int_def max_int_def)
  have "0 < pl_max_lifetime (pool_settings get)"
    using assms(1) w env_int_ok[of get "''DB_CONN_MAX_LIFETIME_SECONDS''" "\<lambda>n. n > 0"]
    by (auto simp: pool_settings_def second_def split: option.split)
  moreover have "0 \<le> pl_max_idle_time (pool_settings get)"
    using assms(2) w env_int_ok[of get "''DB_CONN_MAX_IDLE_SECONDS''" "\<lambda>n. n \<ge> 0"]
    by (auto simp: pool_settings_def second_def split: option.split)
  moreover have "1 \<le> pl_max_open (pool_settings get)" "0 \<le> pl_max_idle (pool_settings get)"
    using env_int_ok[of get "''DB_MAX_OPEN_CONNS''" "\<lambda>n. n > 0"]
      env_int_ok[of get "''DB_MAX_IDLE_CONNS''" "\<lambda>n. n \<ge> 0"]
    by (force simp: pool_settings_def split: option.split)+
  ultimately show ?thesis by blast
qed

lemma lifetime_wraps: "wrap64 (9223372037 * second) = -9223372036709551616"
  by (simp add: wrap64_def second_def)

theorem pool_settings_bounds_witness:
  "pl_max_lifetime (pool_settings (\<lambda>k. if k = ''DB_CONN_MAX_LIFETIME_SECONDS'' then ''60'' else [])) = 60 * second \<and>
   0 < pl_max_lifetime (pool_settings (\<lambda>k. if k = ''DB_CONN_MAX_LIFETIME_SECONDS'' then ''60'' else []))"
proof -
  let ?get = "\<lambda>k. if k = ''DB_CONN_MAX_LIFETIME_SECONDS'' then ''60'' else []"
  have a: "env_int ?get ''DB_CONN_MAX_LIFETIME_SECONDS'' (\<lambda>n. n > 0) = Some 60"
    by (simp add: env_int_def atoi_def is_digit_def digit_val_def max_int_def min_int_def Let_def)
  have b: "env_int ?get ''DB_CONN_MAX_IDLE_SECONDS'' (\<lambda>n. n \<ge> 0) = None"
    by (simp add: env_int_def)
  have "pl_max_lifetime (pool_settings ?get) = 60 * second"
    unfolding pool_settings_def a by (simp add: wrap64_def second_def)
  with pool_settings_bounds[of ?get] a b show ?thesis by simp
qed

subsection \<open>The connection the ORM executes on\<close>

text \<open>
  \<open>*database.DB\<close> as an \<open>sqlExec\<close> that is a \<open>stmtPreparer\<close>, and \<open>*database.Tx\<close> as one that is not;
  \<open>qry\<close>, \<open>exe\<close>, \<open>sqry\<close>, \<open>sexe\<close> are the methods of \<open>database/sql\<close>.
\<close>

definition db_exec ::
  "(string \<Rightarrow> 'w \<Rightarrow> (dberr + 's) \<times> 'w) \<Rightarrow> ('s \<Rightarrow> 'w \<Rightarrow> 'w) \<Rightarrow>
   (string \<Rightarrow> goval list \<Rightarrow> 'w \<Rightarrow> (dberr + rows) \<times> 'w) \<Rightarrow> (string \<Rightarrow> goval list \<Rightarrow> 'w \<Rightarrow> (dberr + int option) \<times> 'w) \<Rightarrow>
   ('s \<Rightarrow> goval list \<Rightarrow> 'w \<Rightarrow> (dberr + rows) \<times> 'w) \<Rightarrow> ('s \<Rightarrow> goval list \<Rightarrow> 'w \<Rightarrow> (dberr + int option) \<times> 'w) \<Rightarrow>
   (goval \<Rightarrow> goval \<Rightarrow> goval option) \<Rightarrow> ('s stmt_cache \<times> 'w, 's) sql_exec"
where
  "db_exec prep close qry exe sqry sexe conv =
     \<lparr>x_prepare = Some (\<lambda>q (c, w). case prepare_cached prep close q c w of
         (Inr s, c', w') \<Rightarrow> (Some s, c', w') | (Inl _, c', w') \<Rightarrow> (None, c', w')),
      x_stmt_query = (\<lambda>s args (c, w). case sqry s args w of (r, w') \<Rightarrow> (r, c, w')),
      x_stmt_exec = (\<lambda>s args (c, w). case sexe s args w of (r, w') \<Rightarrow> (r, c, w')),
      x_query = (\<lambda>q args (c, w). case qry q args w of (r, w') \<Rightarrow> (r, c, w')),
      x_exec = (\<lambda>q args (c, w). case exe q args w of (r, w') \<Rightarrow> (r, c, w')),
      x_conv = conv\<rparr>"

text \<open>
  The statement cache is transparent: from a coherent state, if executing an open statement
  answers as its query text does on the data, then a cached query answers as the uncached one does
  on the same data, whether the statement was cached, had to be prepared, or could not be prepared.
\<close>

theorem query_cached_transparent:
  assumes "stmt_driver prep close opened" and "coherent cache_inv cache_abs opened c w"
    and "\<And>s q args w. (s, q) \<in> opened w \<Longrightarrow> fst (sqry s args w) = answer q args (data w)"
    and "\<And>q args w. fst (qry q args w) = answer q args (data w)"
    and "\<And>q w. data (snd (prep q w)) = data w" and "\<And>s w. data (close s w) = data w"
  shows "fst (query_cached (db_exec prep close qry exe sqry sexe conv) query args (c, w)) = fst (qry query args w)"
proof -
  obtain res c' w' where r: "prepare_cached prep close query c w = (res, c', w')" by (metis prod_cases3)
  have fold: "data (fold close cl w) = data w" for cl w
    by (induction cl arbitrary: w) (simp_all add: assms(6))
  have d: "data w' = data w"
    using r assms(5)[of query w] fold
    by (auto simp: prepare_cached_def prepare_via_def split: prod.splits option.splits sum.splits)
  from stmts.prepare_coherent[OF assms(1,2) r[unfolded prepare_cached_def]]
  have o: "\<forall>s. res = Inr s \<longrightarrow> (s, query) \<in> opened w'" by blast
  have q: "fst (qry query args w') = fst (qry query args w)" by (simp add: assms(4) d)
  have s: "fst (sqry s args w') = fst (qry query args w)" if "res = Inr s" for s
    using assms(3)[of s query w' args] o that by (simp add: assms(4) d)
  show ?thesis
    using r q s by (cases res) (simp_all add: query_cached_def db_exec_def case_prod_beta)
qed

text \<open>A driver whose statements carry their text, for the witness.\<close>

type_synonym text_stmt = "nat \<times> string"

definition text_prep :: "string \<Rightarrow> (text_stmt \<times> string) list \<Rightarrow> (dberr + text_stmt) \<times> (text_stmt \<times> string) list" where
  "text_prep q w = (let s = (Suc (sum_list (map (\<lambda>p. fst (fst p)) w)), q) in (Inr s, (s, q) # w))"

definition text_close :: "text_stmt \<Rightarrow> (text_stmt \<times> string) list \<Rightarrow> (text_stmt \<times> string) list" where
  "text_close s w = filter (\<lambda>p. fst p \<noteq> s) w"

definition text_open :: "(text_stmt \<times> string) list \<Rightarrow> (text_stmt \<times> string) set" where
  "text_open w = {p \<in> set w. snd (fst p) = snd p}"

definition text_rows :: "string \<Rightarrow> goval list \<Rightarrow> dberr + rows" where
  "text_rows q args = Inr \<lparr>r_cols = [q], r_data = [args], r_err = None\<rparr>"

lemma text_stmt_driver: "stmt_driver text_prep text_close text_open"
proof -
  have "n \<le> sum_list (map (\<lambda>p. fst (fst p)) w)" if "((n, x), q) \<in> set w" for n x q and w :: "(text_stmt \<times> string) list"
    using member_le_sum_list[of n "map (\<lambda>p. fst (fst p)) w"] that by force
  then have "((Suc (sum_list (map (\<lambda>p. fst (fst p)) w)), x), q) \<notin> set w" for x q and w :: "(text_stmt \<times> string) list"
    by (metis Suc_n_not_le_n)
  then show ?thesis
    by (auto simp: stmt_driver_def text_prep_def text_close_def text_open_def Let_def)
qed

theorem query_cached_transparent_witness:
  "fst (query_cached (db_exec text_prep text_close (\<lambda>q args w. (text_rows q args, w)) (\<lambda>q args w. (Inr None, w))
      (\<lambda>s args w. (text_rows (snd s) args, w)) (\<lambda>s args w. (Inr None, w)) (\<lambda>old x. Some x))
      ''SELECT ?'' [GBool True] (new_stmt_cache, [])) = text_rows ''SELECT ?'' [GBool True]"
proof -
  have c: "coherent cache_inv cache_abs text_open new_stmt_cache ([] :: (text_stmt \<times> string) list)"
    by (simp add: coherent_def entries_def text_open_def)
  show ?thesis
    using query_cached_transparent[OF text_stmt_driver c, of "\<lambda>s args w. (text_rows (snd s) args, w)"
        "\<lambda>q args d. text_rows q args" "\<lambda>w. ()" "\<lambda>q args w. (text_rows q args, w)"]
    by (simp add: text_open_def)
qed

end
