(* ===== verification/OrmQuery.thy ===== *)
theory OrmQuery
  imports Database
begin

text \<open>
  The terminal operations of the builder, \<open>core/orm/query.go\<close> from \<open>All\<close> to \<open>PaginateAfter\<close>, and
  \<open>core/orm/prefetch.go\<close>, over any connection: what they send, what they refuse to send, how they
  page. A struct is read into \<open>zero\<close>, the zero value of the model type.
\<close>

subsection \<open>Reading\<close>

definition all_q ::
  "'r codec \<Rightarrow> ('w, 's) sql_exec \<Rightarrow> goval list \<Rightarrow> query \<Rightarrow> 'w \<Rightarrow> (orm_error + goval list list) \<times> 'w"
where
  "all_q cd x zero q w =
     (case q_err q of
        Some e \<Rightarrow> (Inl e, w)
      | None \<Rightarrow>
          (let (sql, args) = build_select 0 q in
           case query_cached x sql args w of
             (Inl e, w') \<Rightarrow> (Inl (Db ''all'' e), w')
           | (Inr rs, w') \<Rightarrow> (scan_rows (x_conv x) (cd_decrypt cd) (q_meta q) zero rs, w')))"

definition each_q ::
  "'r codec \<Rightarrow> ('w, 's) sql_exec \<Rightarrow> goval list \<Rightarrow> (goval list \<Rightarrow> 'c \<Rightarrow> orm_error option \<times> 'c) \<Rightarrow> query \<Rightarrow> 'c \<Rightarrow> 'w \<Rightarrow>
   orm_error option \<times> 'c \<times> 'w"
where
  "each_q cd x zero fn q c w =
     (case q_err q of
        Some e \<Rightarrow> (Some e, c, w)
      | None \<Rightarrow>
          (let (sql, args) = build_select 0 q in
           case query_cached x sql args w of
             (Inl e, w') \<Rightarrow> (Some (Db ''each'' e), c, w')
           | (Inr rs, w') \<Rightarrow>
               (case each_row (x_conv x) (cd_decrypt cd) (q_meta q) zero fn rs c of (e, c') \<Rightarrow> (e, c', w'))))"

definition first_q ::
  "'r codec \<Rightarrow> ('w, 's) sql_exec \<Rightarrow> goval list \<Rightarrow> query \<Rightarrow> 'w \<Rightarrow> (orm_error + goval list) \<times> 'w"
where
  "first_q cd x zero q w =
     (case q_err q of
        Some e \<Rightarrow> (Inl e, w)
      | None \<Rightarrow>
          (let (sql, args) = build_select 1 q in
           case query_cached x sql args w of
             (Inl e, w') \<Rightarrow> (Inl (Db ''first'' e), w')
           | (Inr rs, w') \<Rightarrow>
               (case scan_rows (x_conv x) (cd_decrypt cd) (q_meta q) zero rs of
                  Inl e \<Rightarrow> (Inl e, w')
                | Inr [] \<Rightarrow> (Inl NoRows, w')
                | Inr (item # _) \<Rightarrow> (Inr item, w'))))"

definition reverse_term :: "string \<Rightarrow> string" where
  "reverse_term term =
     (let t = trim_space term; u = to_upper t in
      if has_suffix u '' DESC'' then trim_space (take (length t - 5) t) @ '' ASC''
      else if has_suffix u '' ASC'' then trim_space (take (length t - 4) t) @ '' DESC''
      else t @ '' DESC'')"

definition reverse_order :: "string list \<Rightarrow> model_meta \<Rightarrow> string list" where
  "reverse_order terms meta =
     (if terms = []
      then (case m_pk meta of Some pk \<Rightarrow> [f_column pk @ '' DESC''] | None \<Rightarrow> [])
      else map reverse_term terms)"

definition last_q ::
  "'r codec \<Rightarrow> ('w, 's) sql_exec \<Rightarrow> goval list \<Rightarrow> query \<Rightarrow> 'w \<Rightarrow> (orm_error + goval list) \<times> 'w"
where
  "last_q cd x zero q w =
     first_q cd x zero (q\<lparr>q_order_by := reverse_order (q_order_by q) (q_meta q)\<rparr>) w"

text \<open>Scanning a one-column row into an \<open>int\<close>, an \<open>int64\<close> or a nullable \<open>float64\<close>.\<close>

definition scan_int :: "('w, 's) sql_exec \<Rightarrow> ikind \<Rightarrow> goval list \<Rightarrow> int option" where
  "scan_int x k row =
     (case row of
        [v] \<Rightarrow> (case x_conv x (GInt k 0) v of Some (GInt _ n) \<Rightarrow> Some n | _ \<Rightarrow> None)
      | _ \<Rightarrow> None)"

definition scan_null_float :: "('w, 's) sql_exec \<Rightarrow> goval list \<Rightarrow> rat option" where
  "scan_null_float x row =
     (case row of
        [GNil] \<Rightarrow> Some 0
      | [v] \<Rightarrow> (case x_conv x (GFloat KFloat64 0) v of Some (GFloat _ f) \<Rightarrow> Some f | _ \<Rightarrow> None)
      | _ \<Rightarrow> None)"

definition exists_q :: "('w, 's) sql_exec \<Rightarrow> query \<Rightarrow> 'w \<Rightarrow> (orm_error + bool) \<times> 'w" where
  "exists_q x q w =
     (case q_err q of
        Some e \<Rightarrow> (Inl e, w)
      | None \<Rightarrow>
          (let sql = ''SELECT 1'' @ write_from q @ write_where q @ '' LIMIT 1'' in
           case query_row_cached x (rewrite_placeholders (q_driver q) sql) (q_args q) w of
             (Inl None, w') \<Rightarrow> (Inr False, w')
           | (Inl (Some e), w') \<Rightarrow> (Inl (Db ''exists'' e), w')
           | (Inr row, w') \<Rightarrow>
               (case scan_int x KInt row of None \<Rightarrow> (Inl ScanFailed, w') | Some _ \<Rightarrow> (Inr True, w'))))"

definition count_q :: "('w, 's) sql_exec \<Rightarrow> query \<Rightarrow> 'w \<Rightarrow> (orm_error + int) \<times> 'w" where
  "count_q x q w =
     (case q_err q of
        Some e \<Rightarrow> (Inl e, w)
      | None \<Rightarrow>
          (let sql = ''SELECT COUNT(*)'' @ write_from q @ write_where q in
           case query_row_cached x (rewrite_placeholders (q_driver q) sql) (q_args q) w of
             (Inl e, w') \<Rightarrow> (Inl (row_error ''count'' e), w')
           | (Inr row, w') \<Rightarrow>
               (case scan_int x KInt64 row of None \<Rightarrow> (Inl ScanFailed, w') | Some n \<Rightarrow> (Inr n, w'))))"

definition aggregate :: "string \<Rightarrow> string \<Rightarrow> ('w, 's) sql_exec \<Rightarrow> query \<Rightarrow> 'w \<Rightarrow> (orm_error + rat) \<times> 'w" where
  "aggregate fn col x q w =
     (case q_err q of
        Some e \<Rightarrow> (Inl e, w)
      | None \<Rightarrow>
          if \<not> valid_ident col then (Inl (BadIdent (to_lower fn) col), w)
          else
            (let sql = ''SELECT '' @ fn @ ''('' @ col @ '')'' @ write_from q @ write_where q in
             case query_row_cached x (rewrite_placeholders (q_driver q) sql) (q_args q) w of
               (Inl e, w') \<Rightarrow> (Inl (row_error (to_lower fn) e), w')
             | (Inr row, w') \<Rightarrow>
                 (case scan_null_float x row of None \<Rightarrow> (Inl ScanFailed, w') | Some f \<Rightarrow> (Inr f, w'))))"

definition sum_q :: "string \<Rightarrow> ('w, 's) sql_exec \<Rightarrow> query \<Rightarrow> 'w \<Rightarrow> (orm_error + rat) \<times> 'w" where
  "sum_q = aggregate ''SUM''"
definition avg_q :: "string \<Rightarrow> ('w, 's) sql_exec \<Rightarrow> query \<Rightarrow> 'w \<Rightarrow> (orm_error + rat) \<times> 'w" where
  "avg_q = aggregate ''AVG''"
definition min_q :: "string \<Rightarrow> ('w, 's) sql_exec \<Rightarrow> query \<Rightarrow> 'w \<Rightarrow> (orm_error + rat) \<times> 'w" where
  "min_q = aggregate ''MIN''"
definition max_q :: "string \<Rightarrow> ('w, 's) sql_exec \<Rightarrow> query \<Rightarrow> 'w \<Rightarrow> (orm_error + rat) \<times> 'w" where
  "max_q = aggregate ''MAX''"

subsection \<open>Writing\<close>

fun update_args ::
  "'r codec \<Rightarrow> model_meta \<Rightarrow> (string \<times> goval) list \<Rightarrow> 'r \<Rightarrow> (orm_error + goval list) \<times> 'r"
where
  "update_args cd meta [] r = (Inr [], r)"
| "update_args cd meta ((col, val) # kvs) r =
     (case (case col_to_field meta col of Some f \<Rightarrow> secure_value cd f val r | None \<Rightarrow> (Inr val, r)) of
        (Inl e, r1) \<Rightarrow> (Inl e, r1)
      | (Inr v, r1) \<Rightarrow>
          (case update_args cd meta kvs r1 of
             (Inl e, r2) \<Rightarrow> (Inl e, r2)
           | (Inr vs, r2) \<Rightarrow> (Inr (v # vs), r2)))"

definition sorted_values :: "(string \<times> goval) list \<Rightarrow> (string \<times> goval) list" where
  "sorted_values values = map (\<lambda>k. (k, the (map_of values k))) (sort (map fst values))"

definition set_clauses :: "model_meta \<Rightarrow> (string \<times> goval) list \<Rightarrow> string list" where
  "set_clauses meta values =
     map (\<lambda>(k, v). k @ '' = ?'') (sorted_values values) @
     map (\<lambda>f. f_column f @ '' = CURRENT_TIMESTAMP'')
       (filter (\<lambda>f. f_is_autonow f \<and> map_of values (f_column f) = None) (m_fields meta))"

definition update_text :: "query \<Rightarrow> (string \<times> goval) list \<Rightarrow> string" where
  "update_text q values =
     ''UPDATE '' @ qualified_table (q_schema q) (m_table (q_meta q)) @ '' SET '' @
     join '', '' (set_clauses (q_meta q) values) @ write_where q"

text \<open>The guards of \<open>Update\<close> and \<open>Delete\<close>, in the order of the code.\<close>

definition write_guard :: "string \<Rightarrow> query \<Rightarrow> orm_error option" where
  "write_guard what q =
     (case q_err q of
        Some e \<Rightarrow> Some e
      | None \<Rightarrow>
          if q_where q = [] then Some (NoWhere what)
          else if q_joins q \<noteq> [] then Some (WithJoin what)
          else None)"

definition update_q ::
  "'r codec \<Rightarrow> ('w, 's) sql_exec \<Rightarrow> (string \<times> goval) list \<Rightarrow> query \<Rightarrow> 'r \<Rightarrow> 'w \<Rightarrow> orm_error option \<times> 'r \<times> 'w"
where
  "update_q cd x values q r w =
     (case write_guard ''update'' q of
        Some e \<Rightarrow> (Some e, r, w)
      | None \<Rightarrow>
          (case find (\<lambda>(k, v). col_to_field (q_meta q) k = None) values of
             Some (k, v) \<Rightarrow> (Some (UnknownColumn ''update'' k), r, w)
           | None \<Rightarrow>
               (case update_args cd (q_meta q) (sorted_values values) r of
                  (Inl e, r') \<Rightarrow> (Some e, r', w)
                | (Inr vs, r') \<Rightarrow>
                    (case exec_cached x (rewrite_placeholders (q_driver q) (update_text q values)) (vs @ q_args q) w of
                       (Inl e, w') \<Rightarrow> (Some (Db ''update'' e), r', w')
                     | (Inr _, w') \<Rightarrow> (None, r', w')))))"

definition delete_text :: "query \<Rightarrow> string" where
  "delete_text q = ''DELETE FROM '' @ qualified_table (q_schema q) (m_table (q_meta q)) @ write_where q"

definition delete_q :: "('w, 's) sql_exec \<Rightarrow> query \<Rightarrow> 'w \<Rightarrow> orm_error option \<times> 'w" where
  "delete_q x q w =
     (case write_guard ''delete'' q of
        Some e \<Rightarrow> (Some e, w)
      | None \<Rightarrow>
          (case exec_cached x (rewrite_placeholders (q_driver q) (delete_text q)) (q_args q) w of
             (Inl e, w') \<Rightarrow> (Some (Db ''delete'' e), w')
           | (Inr _, w') \<Rightarrow> (None, w')))"

text \<open>\<open>GetOrCreate\<close>: the object and whether it was created; the caller's struct is returned updated.\<close>

definition get_or_create ::
  "'r codec \<Rightarrow> ('w, 's) sql_exec \<Rightarrow> goval list \<Rightarrow> goval list \<Rightarrow> query \<Rightarrow> 'r \<Rightarrow> 'w \<Rightarrow>
   (orm_error + goval list \<times> bool) \<times> goval list \<times> 'r \<times> 'w"
where
  "get_or_create cd x zero defaults q r w =
     (case first_q cd x zero q w of
        (Inr obj, w1) \<Rightarrow> (Inr (obj, False), defaults, r, w1)
      | (Inl e, w1) \<Rightarrow>
          if e \<noteq> NoRows then (Inl e, defaults, r, w1)
          else
            (case create_into cd x (q_driver q) (q_schema q) (q_meta q) defaults r w1 of
               (None, d', r', w2) \<Rightarrow> (Inr (d', True), d', r', w2)
             | (Some e2, d', r', w2) \<Rightarrow>
                 if is_unique_violation (Some e2)
                 then (case first_q cd x zero q w2 of
                         (Inr obj, w3) \<Rightarrow> (Inr (obj, False), d', r', w3)
                       | (Inl _, w3) \<Rightarrow> (Inl e2, d', r', w3))
                 else (Inl e2, d', r', w2)))"

definition update_or_create ::
  "'r codec \<Rightarrow> ('w, 's) sql_exec \<Rightarrow> (string \<times> goval) list \<Rightarrow> goval list \<Rightarrow> query \<Rightarrow> 'r \<Rightarrow> 'w \<Rightarrow>
   bool \<times> orm_error option \<times> goval list \<times> 'r \<times> 'w"
where
  "update_or_create cd x values defaults q r w =
     (case exists_q x q w of
        (Inl e, w1) \<Rightarrow> (False, Some e, defaults, r, w1)
      | (Inr True, w1) \<Rightarrow> (case update_q cd x values q r w1 of (e, r', w2) \<Rightarrow> (False, e, defaults, r', w2))
      | (Inr False, w1) \<Rightarrow>
          (case create_into cd x (q_driver q) (q_schema q) (q_meta q) defaults r w1 of
             (None, d', r', w2) \<Rightarrow> (True, None, d', r', w2)
           | (Some e2, d', r', w2) \<Rightarrow>
               if is_unique_violation (Some e2)
               then (case update_q cd x values q r' w2 of (e, r2, w3) \<Rightarrow> (False, e, d', r2, w3))
               else (False, Some e2, d', r', w2)))"

subsection \<open>What the writes refuse\<close>

text \<open>
  C14: No UPDATE or DELETE without a WHERE: when the query has no condition, or a JOIN, or carries a
  builder error, or (for \<open>Update\<close>) a value names a column the model does not have, the operation
  returns an error and leaves the database and the random source untouched.
\<close>

theorem bulk_write_refused:
  assumes "q_err q \<noteq> None \<or> q_where q = [] \<or> q_joins q \<noteq> []"
  shows "(\<exists>e. update_q cd x values q r w = (Some e, r, w)) \<and> (\<exists>e. delete_q x q w = (Some e, w)) \<and>
    (\<forall>q2 k v. (k, v) \<in> set values \<longrightarrow> col_to_field (q_meta q2) k = None \<longrightarrow>
       (\<exists>e. update_q cd x values q2 r w = (Some e, r, w)))"
proof -
  have g: "\<exists>e. write_guard what q = Some e" for what
    using assms by (auto simp: write_guard_def split: option.split)
  have "\<exists>e. update_q cd x values q2 r w = (Some e, r, w)"
    if u: "(k, v) \<in> set values" "col_to_field (q_meta q2) k = None" for q2 k v
  proof -
    obtain k' v' where "find (\<lambda>(k, v). col_to_field (q_meta q2) k = None) values = Some (k', v')"
      using u by (cases "find (\<lambda>(k, v). col_to_field (q_meta q2) k = None) values") (auto simp: find_None_iff)
    then show ?thesis by (cases "write_guard ''update'' q2") (simp_all add: update_q_def)
  qed
  with g[of "''update''"] g[of "''delete''"] show ?thesis by (auto simp: update_q_def delete_q_def)
qed

theorem bulk_write_refused_witness:
  "delete_q recorder (new_query ''postgres'' [] sample_meta) [] = (Some (NoWhere ''delete''), []) \<and>
   (\<exists>e. update_q sample_codec recorder [(''is_active'', GBool False)] (new_query ''postgres'' [] sample_meta) 0 [] =
      (Some e, 0, []))"
proof -
  let ?q = "new_query ''postgres'' [] sample_meta"
  have "q_err ?q \<noteq> None \<or> q_where ?q = [] \<or> q_joins ?q \<noteq> []" by (simp add: new_query_def)
  from bulk_write_refused[OF this, of sample_codec recorder "[(''is_active'', GBool False)]" 0 "[]"]
  show ?thesis by (simp add: delete_q_def write_guard_def new_query_def)
qed

subsection \<open>What the operations send\<close>

definition sendable :: "string \<Rightarrow> string \<Rightarrow> goval list \<Rightarrow> bool" where
  "sendable driver sql args \<longleftrightarrow> (\<exists>n. well_formed driver n sql args)"

lemma sendableI: "marks raw = length args \<Longrightarrow> sendable driver (rewrite_placeholders driver raw) args"
  unfolding sendable_def by (rule exI, rule well_formedI) auto

lemma sendable_select:
  assumes "balanced q" "build_select k q = (sql, args)"
  shows "sendable (q_driver q) sql args"
  using marks_select_raw[OF assms(1), of k] assms(2)
  by (auto simp: build_select_def case_prod_unfold Let_def intro!: sendableI)

lemma sendable_page:
  assumes "balanced q" "build_select_page p off q = (sql, args)"
  shows "sendable (q_driver q) sql args"
  using marks_page_raw[OF assms(1), of p off] assms(2)
  by (auto simp: build_select_page_def case_prod_unfold Let_def intro!: sendableI)

lemma balanced_from_where:
  assumes "balanced q"
  shows "marks (write_from q) = 0" "marks (write_where q) = length (q_args q)"
    "marks (qualified_table (q_schema q) (m_table (q_meta q))) = 0"
  using assms by (auto simp: balanced_def write_from_def marks_concat marks_where_text qualified_table_def
      comp_def sum_list_eq_0_iff)

lemma of_char_mark: "c = CHR ''?'' \<longleftrightarrow> (of_char c :: nat) = 63"
proof -
  have "(of_char (CHR ''?'') :: nat) = 63" by simp
  then show ?thesis by (metis of_char_eq_iff)
qed

lemma to_upper_c_mark: "to_upper_c c = CHR ''?'' \<longleftrightarrow> c = CHR ''?''"
proof (cases "is_lower c")
  case True
  then have "(of_char (to_upper_c c) :: nat) = of_char c - 32" "97 \<le> (of_char c :: nat)"
    by (auto simp: to_upper_c_def is_lower_def intro!: mod_less)
  then have "(of_char (to_upper_c c) :: nat) \<noteq> 63" "(of_char c :: nat) \<noteq> 63" by auto
  then show ?thesis by (metis of_char_mark)
qed (simp add: to_upper_c_def)

lemma marks_to_upper: "marks (to_upper s) = marks s"
  by (induction s) (simp_all add: to_upper_def to_upper_c_mark)

lemma marks_trim_space: "marks (trim_space s) = marks s"
proof -
  have "marks (dropWhile is_space s) = marks s" for s
    by (induction s) (auto simp: is_space_def)
  then show ?thesis by (simp add: trim_by_def)
qed

lemma marks_drop_suffix:
  assumes "has_suffix (to_upper t) p" "marks p = 0"
  shows "marks (take (length t - length p) t) = marks t"
proof -
  obtain a where a: "to_upper t = a @ p" using assms(1) by (auto simp: suffix_def)
  have l: "length t = length a + length p" using arg_cong[OF a, of length] by (simp add: to_upper_def)
  have "to_upper (drop (length a) t) = p" using a l by (simp add: to_upper_def drop_map[symmetric])
  then have "marks (drop (length a) t) = 0" using assms(2) marks_to_upper by metis
  moreover have "marks t = marks (take (length a) t) + marks (drop (length a) t)"
    by (metis append_take_drop_id count_list_append)
  ultimately show ?thesis using l by simp
qed

lemma marks_reverse_term: "marks (reverse_term t) = marks t"
proof -
  let ?t = "trim_space t"
  have d: "marks (take (length ?t - 5) ?t) = marks ?t" if "has_suffix (to_upper ?t) '' DESC''"
    using marks_drop_suffix[OF that] by (simp add: eval_nat_numeral)
  have a: "marks (take (length ?t - 4) ?t) = marks ?t" if "has_suffix (to_upper ?t) '' ASC''"
    using marks_drop_suffix[OF that] by (simp add: eval_nat_numeral)
  show ?thesis using d a by (auto simp: reverse_term_def Let_def marks_trim_space)
qed

lemma balanced_reverse:
  assumes "balanced q" "\<forall>pk. m_pk (q_meta q) = Some pk \<longrightarrow> marks (f_column pk) = 0"
  shows "balanced (q\<lparr>q_order_by := reverse_order (q_order_by q) (q_meta q)\<rparr>)"
  using assms by (auto simp: balanced_def reverse_order_def marks_reverse_term comp_def split: option.split)

lemma marks_set_clauses:
  assumes "\<forall>f\<in>set (m_fields meta). field_ok f" "\<forall>(k, v)\<in>set values. col_to_field meta k \<noteq> None"
  shows "sum_list (map marks (set_clauses meta values)) = length values"
proof -
  have k: "marks k = 0" if "k \<in> fst ` set values" for k
  proof -
    from that assms(2) obtain f where "col_to_field meta k = Some f" by auto
    with col_to_field_Some[OF this] assms(1) show ?thesis by (auto simp: field_ok_def)
  qed
  have "sum_list (map (\<lambda>k. Suc (marks k)) ks) = length ks" if "set ks \<subseteq> fst ` set values" for ks
    using that k by (induction ks) auto
  from this[of "sort (map fst values)"]
  have "sum_list (map (\<lambda>k. Suc (marks k)) (sort (map fst values))) = length values" by simp
  moreover have "sum_list (map marks (map (\<lambda>f. f_column f @ '' = CURRENT_TIMESTAMP'')
      (filter (\<lambda>f. f_is_autonow f \<and> map_of values (f_column f) = None) (m_fields meta)))) = 0"
    using assms(1) by (auto simp: sum_list_eq_0_iff field_ok_def)
  ultimately show ?thesis by (simp add: set_clauses_def sorted_values_def comp_def)
qed

lemma update_args_length: "update_args cd meta kvs r = (Inr vs, r') \<Longrightarrow> length vs = length kvs"
  by (induction kvs arbitrary: r vs) (auto split: prod.splits sum.splits)

lemma guards_mono: "guards x ok P \<Longrightarrow> (\<And>sql args. ok' sql args \<Longrightarrow> ok sql args) \<Longrightarrow> guards x ok' P"
  by (auto simp: guards_def)

lemma guards_well_formed: "guards x (sendable driver) P \<Longrightarrow> guards x (well_formed driver n) P"
  by (erule guards_mono) (auto simp: sendable_def)

text \<open>Each operation on its own: it keeps every invariant that well-formed statements keep.\<close>

lemma all_q_guarded:
  assumes "balanced q" "guards x (sendable (q_driver q)) P" "P w"
  shows "P (snd (all_q cd x zero q w))"
proof -
  obtain sql args where b: "build_select 0 q = (sql, args)" by fastforce
  obtain r w' where c: "query_cached x sql args w = (r, w')" by fastforce
  have "P w'" using guardsD(1)[OF assms(2,3) sendable_select[OF assms(1) b] c] .
  with assms(3) b c show ?thesis by (auto simp: all_q_def split: option.split sum.split)
qed

lemma first_q_guarded:
  assumes "balanced q" "guards x (sendable (q_driver q)) P" "P w"
  shows "P (snd (first_q cd x zero q w))"
proof -
  obtain sql args where b: "build_select 1 q = (sql, args)" by fastforce
  obtain r w' where c: "query_cached x sql args w = (r, w')" by fastforce
  have "P w'" using guardsD(1)[OF assms(2,3) sendable_select[OF assms(1) b] c] .
  with assms(3) b c show ?thesis by (auto simp: first_q_def split: option.split sum.split list.split)
qed

lemma row_query_guarded:
  assumes "guards x (sendable d) P" "P w" "marks sql = length args"
  shows "P (snd (query_row_cached x (rewrite_placeholders d sql) args w))"
proof -
  obtain r w' where "query_row_cached x (rewrite_placeholders d sql) args w = (r, w')" by fastforce
  with guardsD(3)[OF assms(1,2) sendableI[OF assms(3)] this] show ?thesis by simp
qed

lemma exists_q_guarded:
  assumes "balanced q" "guards x (sendable (q_driver q)) P" "P w"
  shows "P (snd (exists_q x q w))"
proof -
  have "marks (''SELECT 1'' @ write_from q @ write_where q @ '' LIMIT 1'') = length (q_args q)"
    using balanced_from_where[OF assms(1)] by simp
  from row_query_guarded[OF assms(2,3) this] assms(3) show ?thesis
    by (auto simp: exists_q_def Let_def split: option.split sum.split prod.split)
qed

lemma count_q_guarded:
  assumes "balanced q" "guards x (sendable (q_driver q)) P" "P w"
  shows "P (snd (count_q x q w))"
proof -
  have "marks (''SELECT COUNT(*)'' @ write_from q @ write_where q) = length (q_args q)"
    using balanced_from_where[OF assms(1)] by simp
  from row_query_guarded[OF assms(2,3) this] assms(3) show ?thesis
    by (auto simp: count_q_def Let_def split: option.split sum.split prod.split)
qed

lemma aggregate_guarded:
  assumes "balanced q" "guards x (sendable (q_driver q)) P" "P w" "marks fn = 0"
  shows "P (snd (aggregate fn col x q w))"
proof (cases "valid_ident col")
  case True
  then have "marks (''SELECT '' @ fn @ ''('' @ col @ '')'' @ write_from q @ write_where q) = length (q_args q)"
    using balanced_from_where[OF assms(1)] assms(4) by simp
  from row_query_guarded[OF assms(2,3) this] assms(3) True show ?thesis
    by (auto simp: aggregate_def Let_def split: option.split sum.split prod.split)
qed (use assms(3) in \<open>simp add: aggregate_def split: option.split\<close>)

lemma exec_guarded:
  assumes "guards x (sendable d) P" "P w" "marks sql = length args"
  shows "P (snd (exec_cached x (rewrite_placeholders d sql) args w))"
proof -
  obtain r w' where "exec_cached x (rewrite_placeholders d sql) args w = (r, w')" by fastforce
  with guardsD(2)[OF assms(1,2) sendableI[OF assms(3)] this] show ?thesis by simp
qed

lemma delete_q_guarded:
  assumes "balanced q" "guards x (sendable (q_driver q)) P" "P w"
  shows "P (snd (delete_q x q w))"
proof -
  have "marks (delete_text q) = length (q_args q)"
    using balanced_from_where[OF assms(1)] by (simp add: delete_text_def)
  from exec_guarded[OF assms(2,3) this] assms(3) show ?thesis
    by (auto simp: delete_q_def split: option.split sum.split prod.split)
qed

lemma update_q_guarded:
  assumes "balanced q" "\<forall>f\<in>set (m_fields (q_meta q)). field_ok f" "guards x (sendable (q_driver q)) P" "P w"
  shows "P (snd (snd (update_q cd x values q r w)))"
proof (cases "find (\<lambda>(k, v). col_to_field (q_meta q) k = None) values")
  case None
  then have known: "\<forall>(k, v)\<in>set values. col_to_field (q_meta q) k \<noteq> None" by (auto simp: find_None_iff)
  obtain res r' where u: "update_args cd (q_meta q) (sorted_values values) r = (res, r')" by fastforce
  show ?thesis
  proof (cases res)
    case (Inr vs)
    with u have "length vs = length values"
      using update_args_length[of cd "q_meta q" "sorted_values values" r vs r'] by (simp add: sorted_values_def)
    then have "marks (update_text q values) = length (vs @ q_args q)"
      using balanced_from_where[OF assms(1)] marks_set_clauses[OF assms(2) known]
      by (simp add: update_text_def)
    from exec_guarded[OF assms(3,4) this] assms(4) None u Inr show ?thesis
      by (auto simp: update_q_def split: option.split sum.split prod.split)
  qed (use assms(4) None u in \<open>simp add: update_q_def split: option.split\<close>)
qed (use assms(4) in \<open>auto simp: update_q_def split: option.split\<close>)

lemma create_guarded:
  assumes "balanced q" "insertable t (q_meta q)" "guards x (sendable (q_driver q)) P" "P w"
  shows "P (snd (snd (snd (create_into cd x (q_driver q) (q_schema q) (q_meta q) v r w))))"
proof -
  obtain e v' r' w' where c: "create_into cd x (q_driver q) (q_schema q) (q_meta q) v r w = (e, v', r', w')"
    by (metis prod_cases4)
  have "marks (q_schema q) = 0" "marks (m_table (q_meta q)) = 0" using assms(1) by (simp_all add: balanced_def)
  from create_into_guarded[OF assms(2) this assms(4) guards_well_formed[OF assms(3)] c] c show ?thesis by simp
qed

lemma get_or_create_guarded:
  assumes "balanced q" "insertable t (q_meta q)" "guards x (sendable (q_driver q)) P" "P w"
  shows "P (snd (snd (snd (get_or_create cd x zero defaults q r w))))"
proof -
  obtain f w1 where f: "first_q cd x zero q w = (f, w1)" by fastforce
  have P1: "P w1" using first_q_guarded[OF assms(1,3,4), of cd zero] f by simp
  obtain e d' r' w2 where c: "create_into cd x (q_driver q) (q_schema q) (q_meta q) defaults r w1 = (e, d', r', w2)"
    by (metis prod_cases4)
  have P2: "P w2" using create_guarded[OF assms(1,2,3) P1, of cd defaults r] c by simp
  obtain g w3 where g: "first_q cd x zero q w2 = (g, w3)" by fastforce
  have P3: "P w3" using first_q_guarded[OF assms(1,3) P2, of cd zero] g by simp
  from P1 P2 P3 show ?thesis by (simp add: get_or_create_def f c g split: sum.split option.split)
qed

lemma update_or_create_guarded:
  assumes "balanced q" "insertable t (q_meta q)" "guards x (sendable (q_driver q)) P" "P w"
  shows "P (snd (snd (snd (snd (update_or_create cd x values defaults q r w)))))"
proof -
  have ok: "\<forall>f\<in>set (m_fields (q_meta q)). field_ok f"
    using assms(2) build_meta_facts(2) by (auto simp: insertable_def)
  obtain f w1 where f: "exists_q x q w = (f, w1)" by fastforce
  have P1: "P w1" using exists_q_guarded[OF assms(1,3,4)] f by simp
  obtain u ru wu where u: "update_q cd x values q r w1 = (u, ru, wu)" by (metis prod_cases3)
  have Pu: "P wu" using update_q_guarded[OF assms(1) ok assms(3) P1, of cd "values" r] u by simp
  obtain e d' r' w2 where c: "create_into cd x (q_driver q) (q_schema q) (q_meta q) defaults r w1 = (e, d', r', w2)"
    by (metis prod_cases4)
  have P2: "P w2" using create_guarded[OF assms(1,2,3) P1, of cd defaults r] c by simp
  obtain g rg w3 where g: "update_q cd x values q r' w2 = (g, rg, w3)" by (metis prod_cases3)
  have P3: "P w3" using update_q_guarded[OF assms(1) ok assms(3) P2, of cd "values" r'] g by simp
  from P1 Pu P2 P3 show ?thesis
    by (simp add: update_or_create_def f u c g split: sum.split option.split bool.split)
qed



subsection \<open>Paging\<close>

definition max_page_size :: int where "max_page_size = 1000"

definition clamp_paging :: "int \<Rightarrow> int \<Rightarrow> int \<times> int" where
  "clamp_paging page page_size =
     (let page = (if page < 1 then 1 else page);
          page_size = (if page_size < 1 then 10 else page_size);
          page_size = (if page_size > max_page_size then max_page_size else page_size);
          max_page = wrap64 (go_div max_int page_size + 1)
      in (if page > max_page then max_page else page, page_size))"

definition page_offset :: "int \<Rightarrow> int \<Rightarrow> int" where
  "page_offset page page_size = wrap64 (wrap64 (page - 1) * page_size)"

record page =
  pg_items :: "goval list list"
  pg_total :: int
  pg_page :: int
  pg_page_size :: int
  pg_total_pages :: int
  pg_has_next :: bool
  pg_has_prev :: bool

definition total_pages :: "int \<Rightarrow> int \<Rightarrow> int" where
  "total_pages cnt page_size =
     (let n = go_div (wrap64 (wrap64 (cnt + page_size) - 1)) page_size in if n = 0 then 1 else n)"

definition paginate ::
  "'r codec \<Rightarrow> ('w, 's) sql_exec \<Rightarrow> goval list \<Rightarrow> int \<Rightarrow> int \<Rightarrow> query \<Rightarrow> 'w \<Rightarrow> (orm_error + page) \<times> 'w"
where
  "paginate cd x zero page0 size0 q w =
     (case q_err q of
        Some e \<Rightarrow> (Inl e, w)
      | None \<Rightarrow>
          (let (page, page_size) = clamp_paging page0 size0 in
           case count_q x q w of
             (Inl e, w1) \<Rightarrow> (Inl e, w1)
           | (Inr cnt, w1) \<Rightarrow>
               (let pages = total_pages cnt page_size;
                    (sql, args) = build_select_page page_size (page_offset page page_size) q in
                case query_cached x sql args w1 of
                  (Inl e, w2) \<Rightarrow> (Inl (Db ''paginate'' e), w2)
                | (Inr rs, w2) \<Rightarrow>
                    (case scan_rows (x_conv x) (cd_decrypt cd) (q_meta q) zero rs of
                       Inl e \<Rightarrow> (Inl e, w2)
                     | Inr items \<Rightarrow>
                         (Inr \<lparr>pg_items = items, pg_total = cnt, pg_page = page, pg_page_size = page_size,
                            pg_total_pages = pages, pg_has_next = page < pages, pg_has_prev = page > 1\<rparr>, w2)))))"

definition paginate_no_count ::
  "'r codec \<Rightarrow> ('w, 's) sql_exec \<Rightarrow> goval list \<Rightarrow> int \<Rightarrow> int \<Rightarrow> query \<Rightarrow> 'w \<Rightarrow> (orm_error + page) \<times> 'w"
where
  "paginate_no_count cd x zero page0 size0 q w =
     (case q_err q of
        Some e \<Rightarrow> (Inl e, w)
      | None \<Rightarrow>
          (let (page, page_size) = clamp_paging page0 size0;
               (sql, args) = build_select_page (page_size + 1) (page_offset page page_size) q in
           case query_cached x sql args w of
             (Inl e, w') \<Rightarrow> (Inl (Db ''paginate'' e), w')
           | (Inr rs, w') \<Rightarrow>
               (case scan_rows (x_conv x) (cd_decrypt cd) (q_meta q) zero rs of
                  Inl e \<Rightarrow> (Inl e, w')
                | Inr items \<Rightarrow>
                    (let has_next = int (length items) > page_size in
                     (Inr \<lparr>pg_items = (if has_next then take (nat page_size) items else items), pg_total = -1,
                        pg_page = page, pg_page_size = page_size, pg_total_pages = 0,
                        pg_has_next = has_next, pg_has_prev = page > 1\<rparr>, w')))))"

record keyset_page =
  kp_items :: "goval list list"
  kp_next_cursor :: goval
  kp_has_next :: bool

definition clamp_limit :: "int \<Rightarrow> int" where
  "clamp_limit limit =
     (let l = (if limit < 1 then 10 else limit) in if l > max_page_size then max_page_size else l)"

definition keyset_query :: "string \<Rightarrow> goval \<Rightarrow> bool \<Rightarrow> query \<Rightarrow> query" where
  "keyset_query col after desc q =
     (let op = (if desc then ''<'' else ''>'');
          rq = (if after \<noteq> GNil \<and> \<not> is_zero_value after
                then q\<lparr>q_where := q_where q @ [\<lparr>wc_cond = col @ '' '' @ op @ '' ?'', wc_or = False\<rparr>],
                       q_args := q_args q @ [after]\<rparr>
                else q)
      in rq\<lparr>q_order_by := [col @ (if desc then '' DESC'' else '' ASC'')]\<rparr>)"

definition paginate_after ::
  "'r codec \<Rightarrow> ('w, 's) sql_exec \<Rightarrow> goval list \<Rightarrow> string \<Rightarrow> goval \<Rightarrow> bool \<Rightarrow> int \<Rightarrow> query \<Rightarrow> 'w \<Rightarrow>
   (orm_error + keyset_page) \<times> 'w"
where
  "paginate_after cd x zero col after desc limit0 q w =
     (case q_err q of
        Some e \<Rightarrow> (Inl e, w)
      | None \<Rightarrow>
          if \<not> valid_ident col then (Inl (BadIdent ''paginateafter'' col), w)
          else (case col_to_field (q_meta q) col of
             None \<Rightarrow> (Inl (UnknownColumn ''paginateafter'' col), w)
           | Some f \<Rightarrow>
               (let limit = clamp_limit limit0;
                    rq = keyset_query col after desc q;
                    (sql, args) = build_select (limit + 1) rq in
                case query_cached x sql args w of
                  (Inl e, w') \<Rightarrow> (Inl (Db ''paginateafter'' e), w')
                | (Inr rs, w') \<Rightarrow>
                    (case scan_rows (x_conv x) (cd_decrypt cd) (q_meta rq) zero rs of
                       Inl e \<Rightarrow> (Inl e, w')
                     | Inr rows \<Rightarrow>
                         (let has_next = int (length rows) > limit;
                              items = (if has_next then take (nat limit) rows else rows);
                              cursor = (if has_next \<and> items \<noteq> [] then last items ! f_go_index f else GNil)
                          in (Inr \<lparr>kp_items = items, kp_next_cursor = cursor, kp_has_next = has_next\<rparr>, w'))))))"

text \<open>
  \<open>clampPaging\<close> gives a page from 1 and a size from 1 to 1000 whose offset does not overflow,
  and changes neither when they are in range, except for page size 1: there the bound
  \<open>MaxInt/1 + 1\<close> itself wraps to the smallest integer, the page becomes that, and the offset sent
  to the database is \<open>MaxInt\<close>, so every page of size 1 is empty.
\<close>

theorem clamp_paging_correct:
  assumes "clamp_paging page page_size = (p, s)" and "page \<le> max_int"
  shows "1 \<le> s \<and> s \<le> 1000 \<and> (1 \<le> page_size \<and> page_size \<le> 1000 \<longrightarrow> s = page_size) \<and>
    (if s = 1 then p = min_int \<and> page_offset p s = max_int
     else 1 \<le> p \<and> p \<le> max 1 page \<and> page_offset p s = (p - 1) * s \<and> 0 \<le> page_offset p s \<and>
       (1 \<le> page \<and> (page - 1) * s \<le> max_int \<longrightarrow> p = page))"
proof -
  let ?page = "if page < 1 then 1 else page" and ?m = "wrap64 (go_div max_int s + 1)"
  have s: "1 \<le> s" "s \<le> 1000" "1 \<le> page_size \<and> page_size \<le> 1000 \<longrightarrow> s = page_size"
    and p: "p = (if ?page > ?m then ?m else ?page)"
    using assms(1) by (auto simp: clamp_paging_def max_page_size_def Let_def split: if_splits)
  have g: "go_div max_int s = max_int div s" using s(1) by (intro go_div_nonneg) (simp_all add: max_int_def)
  show ?thesis
  proof (cases "s = 1")
    case True
    with g have "go_div max_int s = max_int" by simp
    then have "?m = min_int" by (simp only:) (simp add: max_int_def min_int_def wrap64_def)
    moreover have "?page > min_int" by (simp add: min_int_def)
    ultimately have "p = min_int" using p by simp
    with True s show ?thesis by (simp add: page_offset_def min_int_def max_int_def wrap64_def)
  next
    case False
    have "max_int div s \<le> max_int div 2" using False s(1) by (intro zdiv_mono2) (simp_all add: max_int_def)
    then have "max_int div s + 1 \<le> max_int" by (simp add: max_int_def)
    moreover have "0 \<le> max_int div s" using s(1) by (simp add: max_int_def pos_imp_zdiv_nonneg_iff)
    ultimately have m: "?m = max_int div s + 1" by (simp add: g wrap64_id min_int_def)
    have pos: "1 \<le> p" using p m \<open>0 \<le> max_int div s\<close> by auto
    have "p - 1 \<le> max_int div s" using p m by auto
    then have "(p - 1) * s \<le> max_int div s * s" using s(1) by (intro mult_right_mono) auto
    also have "\<dots> \<le> max_int"
      using s(1) minus_mod_eq_div_mult[of max_int s] pos_mod_sign[of s max_int] by linarith
    finally have le: "(p - 1) * s \<le> max_int" .
    have le1: "p - 1 \<le> max_int" using \<open>p - 1 \<le> max_int div s\<close> \<open>max_int div s + 1 \<le> max_int\<close> by simp
    have nn: "0 \<le> (p - 1) * s" using pos s(1) by simp
    have off: "page_offset p s = (p - 1) * s"
      using pos le le1 nn by (simp add: page_offset_def wrap64_id min_int_def)
    have "p = page" if "1 \<le> page" "(page - 1) * s \<le> max_int"
    proof -
      have "page - 1 \<le> max_int div s" using zdiv_mono1[OF that(2), of s] s(1) by simp
      then show ?thesis using p m that(1) by auto
    qed
    moreover have "p \<le> max 1 page" using p by auto
    ultimately show ?thesis using s pos off nn False by simp
  qed
qed

theorem clamp_paging_correct_witness:
  "clamp_paging 3 20 = (3, 20) \<and> page_offset 3 20 = 40 \<and> clamp_paging 1 1 = (min_int, 1) \<and>
   page_offset min_int 1 = max_int"
proof -
  obtain p s p' s' where r: "clamp_paging 3 20 = (p, s)" "clamp_paging 1 1 = (p', s')" by fastforce
  have m: "3 \<le> max_int" "1 \<le> max_int" by (simp_all add: max_int_def)
  have s1: "s' = 1" "s = 20" using r by (simp_all add: clamp_paging_def Let_def max_page_size_def)
  from clamp_paging_correct[OF r(1) m(1)] clamp_paging_correct[OF r(2) m(2)] r s1 show ?thesis
    by (auto simp: max_int_def)
qed

lemma total_pages_spec:
  assumes "0 \<le> cnt" "cnt \<le> max_int - 1000" "1 \<le> s" "s \<le> 1000"
  shows "1 \<le> total_pages cnt s \<and> (total_pages cnt s - 1) * s < max 1 cnt \<and> cnt \<le> total_pages cnt s * s"
proof -
  have w: "wrap64 (wrap64 (cnt + s) - 1) = cnt + s - 1"
    using assms by (simp add: wrap64_id min_int_def)
  have g: "go_div (cnt + s - 1) s = (cnt + s - 1) div s" using assms by (intro go_div_nonneg) auto
  let ?d = "(cnt + s - 1) div s"
  have e: "?d * s = cnt + s - 1 - (cnt + s - 1) mod s" by (simp add: minus_mod_eq_div_mult)
  have b: "0 \<le> (cnt + s - 1) mod s" "(cnt + s - 1) mod s < s" using assms(3) by auto
  show ?thesis
  proof (cases "cnt = 0")
    case True
    then have "?d = 0" using assms(3) by (simp add: div_pos_pos_trivial)
    then show ?thesis unfolding total_pages_def w g Let_def using True assms(3) by simp
  next
    case False
    then have d: "1 \<le> ?d" using assms by (simp add: pos_imp_zdiv_pos_iff int_one_le_iff_zero_less)
    then have T: "total_pages cnt s = ?d" unfolding total_pages_def w g Let_def by simp
    have "(?d - 1) * s = ?d * s - s" by (simp add: left_diff_distrib)
    moreover have "max 1 cnt = cnt" using False assms(1) by simp
    ultimately show ?thesis unfolding T using d e b by linarith
  qed
qed

text \<open>
  A page that \<open>Paginate\<close> delivers is described truthfully: the number of pages is the number of
  rows divided by the page size, rounded up and at least 1; there is a next page exactly when more
  rows exist than the pages up to this one hold, and a previous one exactly when the page is not
  the first. A page of \<open>PaginateNoCount\<close> holds at most the page size, and announces a next page
  exactly when the database had one more row.
\<close>

theorem paginate_truthful:
  assumes "paginate cd x zero page size0 q w = (Inr pg, w')" and "0 \<le> pg_total pg" and "pg_total pg \<le> max_int - 1000"
    and "page \<le> max_int" and "pg_page_size pg \<noteq> 1"
  shows "1 \<le> pg_page pg \<and> 1 \<le> pg_total_pages pg \<and>
    (pg_total_pages pg - 1) * pg_page_size pg < max 1 (pg_total pg) \<and>
    pg_total pg \<le> pg_total_pages pg * pg_page_size pg \<and>
    (pg_has_next pg \<longleftrightarrow> pg_page pg * pg_page_size pg < pg_total pg) \<and>
    (pg_has_prev pg \<longleftrightarrow> pg_page pg \<noteq> 1) \<and>
    (\<forall>pg2 w2. paginate_no_count cd x zero page size0 q w = (Inr pg2, w2) \<longrightarrow>
       int (length (pg_items pg2)) \<le> pg_page_size pg2 \<and>
       (pg_has_next pg2 \<longrightarrow> int (length (pg_items pg2)) = pg_page_size pg2))"
proof -
  obtain p s where c: "clamp_paging page size0 = (p, s)" by fastforce
  have pg: "pg_page pg = p" "pg_page_size pg = s" "pg_total_pages pg = total_pages (pg_total pg) s"
    "pg_has_next pg = (p < pg_total_pages pg)" "pg_has_prev pg = (p > 1)"
    using assms(1) c by (auto simp: paginate_def Let_def split: option.splits sum.splits prod.splits)
  note k = clamp_paging_correct[OF c assms(4)]
  have s: "1 \<le> s" "s \<le> 1000" "s \<noteq> 1" using k assms(5) pg(2) by auto
  have p1: "1 \<le> p" using k s(3) by auto
  note t = total_pages_spec[OF assms(2,3) s(1,2)]
  have "p < total_pages (pg_total pg) s \<longleftrightarrow> p * s < pg_total pg"
  proof
    assume "p < total_pages (pg_total pg) s"
    then have "p * s \<le> (total_pages (pg_total pg) s - 1) * s" using s(1) by (intro mult_right_mono) auto
    with t have lt: "p * s < max 1 (pg_total pg)" by linarith
    have "1 \<le> p * s" using p1 s(1) mult_mono[of 1 p 1 s] by simp
    with lt show "p * s < pg_total pg" by simp
  next
    assume "p * s < pg_total pg"
    with t have "p * s < total_pages (pg_total pg) s * s" by linarith
    then show "p < total_pages (pg_total pg) s" using s(1) by simp
  qed
  moreover have "int (length (pg_items pg2)) \<le> pg_page_size pg2 \<and>
      (pg_has_next pg2 \<longrightarrow> int (length (pg_items pg2)) = pg_page_size pg2)"
    if "paginate_no_count cd x zero page size0 q w = (Inr pg2, w2)" for pg2 w2
    using that c s(1) by (auto simp: paginate_no_count_def Let_def split: option.splits sum.splits prod.splits)
  ultimately show ?thesis using pg t p1 by auto
qed

subsection \<open>Keyset paging\<close>

text \<open>The pages of \<open>PaginateAfter\<close> from a cursor on, following \<open>NextCursor\<close>; \<open>None\<close> is an error or no fuel.\<close>

fun keyset_walk ::
  "'r codec \<Rightarrow> ('w, 's) sql_exec \<Rightarrow> goval list \<Rightarrow> string \<Rightarrow> bool \<Rightarrow> int \<Rightarrow> query \<Rightarrow> nat \<Rightarrow> goval \<Rightarrow> 'w \<Rightarrow>
   goval list list option"
where
  "keyset_walk cd x zero col desc limit q 0 after w = None"
| "keyset_walk cd x zero col desc limit q (Suc n) after w =
     (case paginate_after cd x zero col after desc limit q w of
        (Inl e, w') \<Rightarrow> None
      | (Inr kp, w') \<Rightarrow>
          if kp_has_next kp
          then map_option (\<lambda>rest. kp_items kp @ rest)
            (keyset_walk cd x zero col desc limit q n (kp_next_cursor kp) w')
          else Some (kp_items kp))"

text \<open>
  A connection that answers the keyset queries of \<open>q\<close> from a fixed table: with a cursor, the first
  rows of those whose key comes after it (\<open>lt\<close> is the order of the column, reversed for \<open>desc\<close>).
\<close>

definition serves_table ::
  "('w, 's) sql_exec \<Rightarrow> 'r codec \<Rightarrow> goval list \<Rightarrow> string \<Rightarrow> bool \<Rightarrow> int \<Rightarrow> query \<Rightarrow> (goval \<Rightarrow> goval \<Rightarrow> bool) \<Rightarrow> nat \<Rightarrow>
   goval list list \<Rightarrow> bool"
where
  "serves_table x cd zero col desc limit q lt gi table \<longleftrightarrow>
     (\<forall>after w. \<exists>rs w'.
        query_cached x (fst (build_select (clamp_limit limit + 1) (keyset_query col after desc q)))
          (snd (build_select (clamp_limit limit + 1) (keyset_query col after desc q))) w = (Inr rs, w') \<and>
        scan_rows (x_conv x) (cd_decrypt cd) (q_meta q) zero rs =
          Inr (take (nat (clamp_limit limit) + 1)
            (if after \<noteq> GNil \<and> \<not> is_zero_value after then filter (\<lambda>row. lt after (row ! gi)) table else table)))"

lemma clamp_limit_pos: "1 \<le> clamp_limit limit"
  by (simp add: clamp_limit_def max_page_size_def Let_def)

lemma keyset_page_step:
  assumes srv: "serves_table x cd zero col desc limit q lt gi table"
    and q: "q_err q = None" "valid_ident col" "col_to_field (q_meta q) col = Some f" "f_go_index f = gi"
    and rest: "rest = (if after \<noteq> GNil \<and> \<not> is_zero_value after then filter (\<lambda>row. lt after (row ! gi)) table else table)"
  shows "\<exists>w'. paginate_after cd x zero col after desc limit q w =
    (Inr \<lparr>kp_items = take (nat (clamp_limit limit)) rest,
       kp_next_cursor = (if length rest > nat (clamp_limit limit) then last (take (nat (clamp_limit limit)) rest) ! gi else GNil),
       kp_has_next = length rest > nat (clamp_limit limit)\<rparr>, w')"
proof -
  let ?L = "nat (clamp_limit limit)" and ?b = "build_select (clamp_limit limit + 1) (keyset_query col after desc q)"
  have L: "1 \<le> clamp_limit limit" by (rule clamp_limit_pos)
  have meta: "q_meta (keyset_query col after desc q) = q_meta q" by (simp add: keyset_query_def Let_def)
  obtain rs w' where r: "query_cached x (fst ?b) (snd ?b) w = (Inr rs, w')"
    "scan_rows (x_conv x) (cd_decrypt cd) (q_meta q) zero rs = Inr (take (?L + 1) rest)"
    using srv unfolding serves_table_def rest by blast
  have len: "int (length (take (?L + 1) rest)) > clamp_limit limit \<longleftrightarrow> length rest > ?L" using L by auto
  have tk: "take ?L (take (?L + 1) rest) = take ?L rest" by simp
  have ne: "length rest > ?L \<Longrightarrow> take ?L rest \<noteq> []" using L by (cases rest) auto
  have full: "\<not> length rest > ?L \<Longrightarrow> take (?L + 1) rest = take ?L rest" by simp
  show ?thesis
    unfolding paginate_after_def using q meta r len tk ne full
    by (simp add: case_prod_unfold Let_def)
qed

lemma filter_after_cursor:
  assumes "sorted_wrt (\<lambda>a b. lt (a ! gi) (b ! gi)) (pre @ suf)" "\<And>a b. lt a b \<Longrightarrow> \<not> lt b a" "pre \<noteq> []"
  shows "filter (\<lambda>row. lt (last pre ! gi) (row ! gi)) (pre @ suf) = suf"
proof -
  obtain pre' l where pre: "pre = pre' @ [l]" using assms(3) by (cases pre rule: rev_cases) auto
  have "\<forall>row\<in>set pre. \<not> lt (l ! gi) (row ! gi)"
    using assms(1,2) unfolding pre by (auto simp: sorted_wrt_append)
  moreover have "\<forall>row\<in>set suf. lt (l ! gi) (row ! gi)"
    using assms(1) unfolding pre by (auto simp: sorted_wrt_append)
  ultimately show ?thesis by (simp add: pre filter_True filter_False)
qed

lemma keyset_walk_suffix:
  assumes srv: "serves_table x cd zero col desc limit q lt gi (pre @ suf)"
    and q: "q_err q = None" "valid_ident col" "col_to_field (q_meta q) col = Some f" "f_go_index f = gi"
    and sorted: "sorted_wrt (\<lambda>a b. lt (a ! gi) (b ! gi)) (pre @ suf)" and asym: "\<And>a b. lt a b \<Longrightarrow> \<not> lt b a"
    and cur: "\<forall>row\<in>set (pre @ suf). row ! gi \<noteq> GNil \<and> \<not> is_zero_value (row ! gi)"
  shows "length suf < n \<Longrightarrow> (if pre = [] then after = GNil else after = last pre ! gi) \<Longrightarrow>
    keyset_walk cd x zero col desc limit q n after w = Some suf"
  using assms
proof (induction n arbitrary: pre suf after w)
  case (Suc n)
  let ?L = "nat (clamp_limit limit)"
  have rest: "suf = (if after \<noteq> GNil \<and> \<not> is_zero_value after then filter (\<lambda>row. lt after (row ! gi)) (pre @ suf)
      else pre @ suf)"
  proof (cases "pre = []")
    case False
    with Suc.prems(2,10) have "after = last pre ! gi" "after \<noteq> GNil" "\<not> is_zero_value after" by auto
    with filter_after_cursor[OF Suc.prems(8,9) False] show ?thesis by simp
  qed (use Suc.prems(2) in simp)
  obtain w' where w': "paginate_after cd x zero col after desc limit q w =
    (Inr \<lparr>kp_items = take ?L suf, kp_next_cursor = (if length suf > ?L then last (take ?L suf) ! gi else GNil),
       kp_has_next = length suf > ?L\<rparr>, w')"
    using keyset_page_step[OF Suc.prems(3-7) rest, of w] by blast
  show ?case
  proof (cases "length suf > ?L")
    case False
    with w' show ?thesis by simp
  next
    case True
    have L: "1 \<le> ?L" using clamp_limit_pos[of limit] by simp
    let ?pre = "pre @ take ?L suf" and ?suf = "drop ?L suf"
    have tk: "take ?L suf \<noteq> []" "last ?pre = last (take ?L suf)" using True L by (cases suf; auto)+
    have "keyset_walk cd x zero col desc limit q n (last (take ?L suf) ! gi) w' = Some ?suf"
    proof (rule Suc.IH[where pre = ?pre])
      show "length ?suf < n" using Suc.prems(1) L True by simp
      show "if ?pre = [] then last (take ?L suf) ! gi = GNil else last (take ?L suf) ! gi = last ?pre ! gi"
        using tk by simp
    qed (use Suc.prems(3-10) in simp_all)
    with w' True show ?thesis by simp
  qed
qed simp


lemma zero_cursor_restarts:
  "is_zero_value after \<Longrightarrow> paginate_after cd x zero col after desc limit q w = paginate_after cd x zero col GNil desc limit q w"
proof -
  assume "is_zero_value after"
  then have "keyset_query col after desc q = keyset_query col GNil desc q" by (simp add: keyset_query_def)
  then show ?thesis unfolding paginate_after_def by (simp only:)
qed

text \<open>
  After a \<open>Search\<close> on PostgreSQL or MySQL, \<open>PaginateAfter\<close> sends more arguments than
  placeholders: it replaces the ranking ORDER BY but keeps its argument, so the SELECT of any
  column search on a fresh query of a model with that column is not executable.
\<close>

theorem search_then_keyset_unbalanced:
  assumes "driver = ''mysql'' \<or> is_pg driver" and "valid_ident col" and "valid_ident col2"
    and "col_to_field meta col = Some f" and "f_fts f" and "marks (m_table meta) = 0" and "marks schema = 0"
    and "0 < k"
  shows "let q = keyset_query col2 GNil False (search col term (new_query driver schema meta));
             (s, args) = build_select_raw k q
         in q_err q = None \<and> length args = Suc (marks s)"
proof -
  have n: "balanced (new_query driver schema meta)" using assms(6,7) by (simp add: balanced_def new_query_def)
  let ?s = "search col term (new_query driver schema meta)"
  let ?q = "keyset_query col2 GNil False ?s"
  let ?b = "?q\<lparr>q_rank_args := []\<rparr>"
  have r: "q_rank_args ?s = [GStr term]" "q_err ?s = None"
    using assms(1-5) by (auto simp: search_def new_query_def Let_def)
  have f: "q_where ?q = q_where ?s" "q_args ?q = q_args ?s" "q_order_by ?q = [col2 @ '' ASC'']" "q_cols ?q = q_cols ?s"
    "q_joins ?q = q_joins ?s" "q_meta ?q = q_meta ?s" "q_schema ?q = q_schema ?s" "q_rank_args ?q = q_rank_args ?s"
    "q_err ?q = q_err ?s"
    by (simp_all add: keyset_query_def Let_def)
  have "balanced ?b"
    using balanced_search[OF n, of col "term"] assms(3) f by (auto simp: balanced_def)
  from marks_select_raw[OF this, of k] have m: "marks (fst (build_select_raw k ?b)) = length (snd (build_select_raw k ?b))" .
  have t: "fst (build_select_raw k ?q) = fst (build_select_raw k ?b)"
    by (simp add: build_select_raw_def Let_def text_defs)
  have "length (snd (build_select_raw k ?q)) = Suc (length (snd (build_select_raw k ?b)))"
    using assms(8) r(1) f(8) by (simp add: build_select_raw_def Let_def)
  with m t r(2) f(9) show ?thesis by (simp add: case_prod_unfold Let_def)
qed

theorem search_then_keyset_unbalanced_witness:
  "\<exists>meta. m_table meta = ''posts'' \<and>
     fst (build_select_raw 21 (keyset_query ''id'' GNil False (search ''body'' ''go'' (new_query ''mysql'' [] meta)))) =
       ''SELECT * FROM posts WHERE (MATCH(body) AGAINST(? IN NATURAL LANGUAGE MODE)) ORDER BY id ASC LIMIT ?'' \<and>
     length (snd (build_select_raw 21 (keyset_query ''id'' GNil False (search ''body'' ''go'' (new_query ''mysql'' [] meta))))) = 3"
proof -
  let ?f = "(new_field 0 ''Body'')\<lparr>f_fts := True\<rparr>"
  let ?m = "\<lparr>m_table = ''posts'', m_fields = [?f], m_pk = None\<rparr>"
  let ?q = "keyset_query ''id'' GNil False (search ''body'' ''go'' (new_query ''mysql'' [] ?m))"
  have "valid_ident ''body''" "valid_ident ''id''" "marks ''posts'' = 0" "marks ([]::string) = 0" by code_simp+
  moreover have "col_to_field ?m ''body'' = Some ?f" by code_simp
  moreover have t: "fst (build_select_raw 21 ?q) =
      ''SELECT * FROM posts WHERE (MATCH(body) AGAINST(? IN NATURAL LANGUAGE MODE)) ORDER BY id ASC LIMIT ?''" by code_simp
  ultimately have "length (snd (build_select_raw 21 ?q)) = Suc (marks (fst (build_select_raw 21 ?q)))"
    using search_then_keyset_unbalanced[of "''mysql''" "''body''" "''id''" ?m ?f "[]" 21 "''go''"]
    by (simp add: case_prod_unfold Let_def)
  then have "length (snd (build_select_raw 21 ?q)) = 3" unfolding t by simp
  with t show ?thesis by (intro exI[of _ ?m]) simp
qed

text \<open>A small table behind a connection, for the witnesses of paging.\<close>

definition note_meta :: model_meta where
  "note_meta = \<lparr>m_table = ''notes'', m_fields = [(new_field 0 ''ID'')\<lparr>f_is_pk := True\<rparr>, new_field 1 ''Title''],
     m_pk = Some ((new_field 0 ''ID'')\<lparr>f_is_pk := True\<rparr>)\<rparr>"

definition note_zero :: "goval list" where "note_zero = [GInt KInt64 0, GStr []]"

definition note_table :: "goval list list" where
  "note_table = map (\<lambda>i. [GInt KInt64 i, GStr ''t'']) [1, 2, 3, 4, 5]"

fun int_lt :: "goval \<Rightarrow> goval \<Rightarrow> bool" where
  "int_lt (GInt _ a) (GInt _ b) = (a < b)"
| "int_lt _ _ = False"

definition note_answer :: "string \<Rightarrow> goval list \<Rightarrow> goval list list" where
  "note_answer sql args =
     (if has_prefix sql ''SELECT COUNT'' then [[GInt KInt64 5]]
      else case args of
        [GInt _ n] \<Rightarrow> take (nat n) note_table
      | [a, GInt _ n] \<Rightarrow>
          if has_suffix sql ''OFFSET ?'' then take (case a of GInt _ l \<Rightarrow> nat l | _ \<Rightarrow> 0) (drop (nat n) note_table)
          else take (nat n) (filter (\<lambda>row. int_lt a (row ! 0)) note_table)
      | _ \<Rightarrow> [])"

definition note_conn :: "(unit, unit) sql_exec" where
  "note_conn =
     \<lparr>x_prepare = None,
      x_stmt_query = (\<lambda>_ _ w. (Inl (OtherError []), w)), x_stmt_exec = (\<lambda>_ _ w. (Inl (OtherError []), w)),
      x_query = (\<lambda>sql args w. (Inr \<lparr>r_cols = [''id'', ''title''], r_data = note_answer sql args, r_err = None\<rparr>, w)),
      x_exec = (\<lambda>sql args w. (Inr None, w)), x_conv = (\<lambda>old new. Some new)\<rparr>"

lemma note_columns: "col_to_field note_meta ''id'' = Some ((new_field 0 ''ID'')\<lparr>f_is_pk := True\<rparr>)"
  "col_to_field note_meta ''title'' = Some (new_field 1 ''Title'')"
  by code_simp+

lemma note_scan:
  assumes "\<forall>row\<in>set data. length row = 2"
  shows "scan_rows (x_conv note_conn) (cd_decrypt sample_codec) note_meta note_zero
    \<lparr>r_cols = [''id'', ''title''], r_data = data, r_err = None\<rparr> = Inr data"
proof -
  have plan: "build_scan_plan [''id'', ''title''] note_meta =
      \<lparr>sp_cols = [''id'', ''title''], sp_field_idx = [0, 1], sp_enc_cols = []\<rparr>"
    by (simp add: build_scan_plan_def note_columns new_field_def)
  have one: "scan_one (x_conv note_conn) (cd_decrypt sample_codec)
      \<lparr>sp_cols = [''id'', ''title''], sp_field_idx = [0, 1], sp_enc_cols = []\<rparr> note_zero row = Inr row"
    if "length row = 2" for row
    using that by (cases row; cases "tl row") (auto simp: scan_one_def note_zero_def note_conn_def)
  have "scan_all (scan_one (x_conv note_conn) (cd_decrypt sample_codec)
      \<lparr>sp_cols = [''id'', ''title''], sp_field_idx = [0, 1], sp_enc_cols = []\<rparr> note_zero) data = Inr data"
    using assms by (induction data) (simp_all add: one)
  then show ?thesis by (simp add: scan_rows_def plan)
qed

lemma note_rows: "\<forall>row\<in>set note_table. length row = 2" "length note_table = 5"
  by (simp_all add: note_table_def)

theorem paginate_truthful_witness:
  "\<exists>pg. paginate sample_codec note_conn note_zero 2 2 (new_query ''mysql'' [] note_meta) () = (Inr pg, ()) \<and>
     pg_items pg = take 2 (drop 2 note_table) \<and> pg_total_pages pg = 3 \<and> pg_has_next pg"
proof -
  let ?q = "new_query ''mysql'' [] note_meta"
  have c: "clamp_paging 2 2 = (2, 2)"
    by (simp add: clamp_paging_def max_page_size_def Let_def max_int_def go_div_def wrap64_def)
  have o: "page_offset 2 2 = 2" by (simp add: page_offset_def wrap64_def)
  have cnt: "count_q note_conn ?q () = (Inr 5, ())"
    by (simp add: count_q_def new_query_def query_row_cached_def query_cached_def note_conn_def note_answer_def
        rewrite_placeholders_def is_pg_def scan_int_def)
  obtain sql args where b: "build_select_page 2 2 ?q = (sql, args)" by fastforce
  have a: "args = [GInt KInt 2, GInt KInt 2]" "has_suffix sql ''OFFSET ?''" "\<not> has_prefix sql ''SELECT COUNT''"
    using b by (auto simp: build_select_page_def build_select_page_raw_def new_query_def rewrite_placeholders_def is_pg_def
        text_defs suffix_def)
  have "query_cached note_conn sql args () =
      (Inr \<lparr>r_cols = [''id'', ''title''], r_data = take 2 (drop 2 note_table), r_err = None\<rparr>, ())"
    using a by (simp add: query_cached_def note_conn_def note_answer_def)
  moreover have "q_meta ?q = note_meta" "q_err ?q = None" by (simp_all add: new_query_def)
  moreover have "scan_rows (x_conv note_conn) (cd_decrypt sample_codec) note_meta note_zero
    \<lparr>r_cols = [''id'', ''title''], r_data = take 2 (drop 2 note_table), r_err = None\<rparr> = Inr (take 2 (drop 2 note_table))"
    by (rule note_scan) (use note_rows in \<open>meson in_set_dropD in_set_takeD\<close>)
  ultimately obtain pg where pg: "paginate sample_codec note_conn note_zero 2 2 ?q () = (Inr pg, ())"
    "pg_items pg = take 2 (drop 2 note_table)" "pg_total pg = 5" "pg_page pg = 2" "pg_page_size pg = 2"
    by (simp add: paginate_def c o cnt b Let_def)
  from paginate_truthful[OF pg(1)] pg have "pg_has_next pg" "(pg_total_pages pg - 1) * 2 < 5" "5 \<le> pg_total_pages pg * 2"
    by (auto simp: max_int_def)
  then have "pg_has_next pg" "pg_total_pages pg = 3" by auto
  with pg show ?thesis by blast
qed

lemma note_answer_keyset:
  assumes "\<not> has_suffix sql ''OFFSET ?''" "\<not> has_prefix sql ''SELECT COUNT''"
  shows "note_answer sql [a, GInt k n] = take (nat n) (filter (\<lambda>row. int_lt a (row ! 0)) note_table)"
    "note_answer sql [GInt k n] = take (nat n) note_table"
  using assms by (cases a; simp add: note_answer_def)+


subsection \<open>Last\<close>

lemma to_upper_append: "to_upper (a @ b) = to_upper a @ to_upper b"
  by (simp add: to_upper_def)

lemma space_c [simp]: "is_space (CHR '' '')" by (simp add: is_space_def)

lemma to_upper_no_space:
  assumes "\<forall>c\<in>set s. \<not> is_space c" shows "CHR '' '' \<notin> set (to_upper s)"
proof -
  have "to_upper_c c \<noteq> CHR '' ''" if "\<not> is_space c" for c
  proof (cases "is_lower c")
    case True
    then have "(of_char (to_upper_c c) :: nat) = of_char c - 32" "97 \<le> (of_char c :: nat)"
      by (auto simp: to_upper_c_def is_lower_def intro!: mod_less)
    then have "(of_char (to_upper_c c) :: nat) \<noteq> 32" by auto
    moreover have "(of_char (CHR '' '') :: nat) = 32" by simp
    ultimately show ?thesis by metis
  qed (use that in \<open>auto simp: to_upper_c_def\<close>)
  with assms show ?thesis by (force simp: to_upper_def)
qed

lemma no_space_no_suffix:
  assumes "\<forall>c\<in>set s. \<not> is_space c" "CHR '' '' \<in> set p"
  shows "\<not> has_suffix (to_upper s) p"
  using to_upper_no_space[OF assms(1)] assms(2) set_mono_suffix by blast

lemma trim_no_space: "\<forall>c\<in>set s. \<not> is_space c \<Longrightarrow> trim_space s = s"
  by (rule trim_by_id) (cases "s = []", auto)

lemma trim_word: "\<forall>c\<in>set s. \<not> is_space c \<Longrightarrow> s \<noteq> [] \<Longrightarrow> \<forall>c\<in>set d. \<not> is_space c \<Longrightarrow> d \<noteq> [] \<Longrightarrow>
  trim_space (s @ m @ d) = s @ m @ d"
  by (rule trim_by_id) auto

text \<open>
  \<open>Last\<close> asks for the reverse of the order given: a column without direction or with ASC is
  ordered DESC and one with DESC is ordered ASC, so reversing twice gives the ascending or the
  original direction back; but only a direction after a space is recognised, so a term written
  with a tab before DESC, which \<open>OrderBy\<close> accepts, becomes invalid SQL (\<open>DESC DESC\<close>).
\<close>

theorem reverse_order_correct:
  assumes "c \<noteq> []" and "\<forall>x\<in>set c. \<not> is_space x"
  shows "reverse_term c = c @ '' DESC'' \<and> reverse_term (c @ '' ASC'') = c @ '' DESC'' \<and>
    reverse_term (c @ '' DESC'') = c @ '' ASC'' \<and>
    reverse_term (reverse_term (c @ '' DESC'')) = c @ '' DESC'' \<and>
    reverse_term (c @ CHR 0x09 # ''DESC'') = c @ CHR 0x09 # ''DESC DESC''"
proof -
  have sp: "\<not> is_space x" if "x \<in> set ''ASCDESC''" for x using that by (auto simp: is_space_def)
  have up: "to_upper '' DESC'' = '' DESC''" "to_upper '' ASC'' = '' ASC''" by code_simp+
  have t: "trim_space c = c" "trim_space (c @ '' ASC'') = c @ '' ASC''" "trim_space (c @ '' DESC'') = c @ '' DESC''"
    "trim_space (c @ CHR 0x09 # ''DESC'') = c @ CHR 0x09 # ''DESC''"
    using trim_no_space[OF assms(2)] trim_word[OF assms(2,1), of "''ASC''" "'' ''"]
      trim_word[OF assms(2,1), of "''DESC''" "'' ''"] trim_word[OF assms(2,1), of "''DESC''" "[CHR 0x09]"] sp
    by auto
  have n: "\<not> has_suffix (to_upper c) '' DESC''" "\<not> has_suffix (to_upper c) '' ASC''"
    using no_space_no_suffix[OF assms(2)] by auto
  have na: "\<not> has_suffix (to_upper (c @ '' ASC'')) '' DESC''"
    by (simp add: to_upper_append up suffix_to_prefix)
  have nt: "\<not> has_suffix (to_upper (c @ CHR 0x09 # ''DESC'')) '' DESC''" "\<not> has_suffix (to_upper (c @ CHR 0x09 # ''DESC'')) '' ASC''"
  proof -
    have "to_upper (CHR 0x09 # ''DESC'') = CHR 0x09 # ''DESC''" by code_simp
    then show "\<not> has_suffix (to_upper (c @ CHR 0x09 # ''DESC'')) '' DESC''" "\<not> has_suffix (to_upper (c @ CHR 0x09 # ''DESC'')) '' ASC''"
      by (simp_all add: to_upper_append suffix_to_prefix)
  qed
  have d: "has_suffix (to_upper (c @ '' DESC'')) '' DESC''" "has_suffix (to_upper (c @ '' ASC'')) '' ASC''"
    by (simp_all add: to_upper_append up suffixI)
  have "reverse_term c = c @ '' DESC''" "reverse_term (c @ '' ASC'') = c @ '' DESC''"
    "reverse_term (c @ '' DESC'') = c @ '' ASC''" "reverse_term (c @ CHR 0x09 # ''DESC'') = c @ CHR 0x09 # ''DESC DESC''"
    using n na nt d by (simp_all add: reverse_term_def t Let_def)
  then show ?thesis by simp
qed

theorem reverse_order_correct_witness:
  "reverse_term ''id'' = ''id DESC'' \<and> valid_ident (''id'' @ CHR 0x09 # ''DESC'') \<and>
   reverse_term (''id'' @ CHR 0x09 # ''DESC'') = ''id'' @ CHR 0x09 # ''DESC DESC''"
proof -
  have "valid_ident (''id'' @ CHR 0x09 # ''DESC'')" by code_simp
  then show ?thesis using reverse_order_correct[of "''id''"] by (simp add: is_space_def)
qed

subsection \<open>Prefetch\<close>

text \<open>\<open>to_any\<close> boxes a key; \<open>q0\<close> is the fresh query of the related model (on a connection or a transaction).\<close>

definition prefetch ::
  "'r codec \<Rightarrow> ('w, 's) sql_exec \<Rightarrow> goval list \<Rightarrow> query \<Rightarrow> string \<Rightarrow> 'k list \<Rightarrow> ('k \<Rightarrow> goval) \<Rightarrow> (goval list \<Rightarrow> 'k) \<Rightarrow> 'w \<Rightarrow>
   (orm_error + ('k \<times> goval list list) list) \<times> 'w"
where
  "prefetch cd x zero q0 col keys to_any key_of w =
     (if keys = [] then (Inr [], w)
      else (case all_q cd x zero (where_in col [GSlice (Some (map to_any (dedupe keys)))] q0) w of
              (Inl e, w') \<Rightarrow> (Inl e, w')
            | (Inr rels, w') \<Rightarrow> (Inr (group_by_key rels key_of), w')))"

text \<open>
  \<open>Prefetch\<close> costs one query and loses nothing: without keys it sends none, otherwise it runs one
  \<open>All\<close> whose IN list holds every key once, and the map it returns gives under each key exactly the
  rows with that key, in the order delivered, and nothing under a key without rows.
\<close>

theorem prefetch_groups:
  assumes "prefetch cd x zero q0 col keys to_any key_of w = (Inr groups, w')"
  shows "(keys = [] \<longrightarrow> groups = [] \<and> w' = w) \<and>
    (keys \<noteq> [] \<longrightarrow> (\<exists>rels uniq. distinct uniq \<and> set uniq = set keys \<and>
       all_q cd x zero (where_in col [GSlice (Some (map to_any uniq))] q0) w = (Inr rels, w') \<and>
       (\<forall>k. map_of groups k =
          (if \<exists>r\<in>set rels. key_of r = k then Some (filter (\<lambda>r. key_of r = k) rels) else None))))"
proof (cases "keys = []")
  case False
  with assms obtain rels where r: "all_q cd x zero (where_in col [GSlice (Some (map to_any (dedupe keys)))] q0) w = (Inr rels, w')"
    "groups = group_by_key rels key_of"
    by (auto simp: prefetch_def split: prod.splits sum.splits)
  have "map_of groups k = (if \<exists>r\<in>set rels. key_of r = k then Some (filter (\<lambda>r. key_of r = k) rels) else None)" for k
    unfolding r(2) group_by_key_lookup by (auto simp: Let_def filter_empty_conv)
  with r(1) dedupe_spec[of keys] False show ?thesis by blast
qed (use assms in \<open>simp add: prefetch_def\<close>)

definition note_key :: "goval list \<Rightarrow> int" where
  "note_key row = (case row ! 0 of GInt _ n \<Rightarrow> n | _ \<Rightarrow> 0)"

theorem prefetch_groups_witness:
  "\<exists>groups. prefetch sample_codec note_conn note_zero (new_query ''mysql'' [] note_meta) ''id'' [1, 1] (GInt KInt64)
       note_key () = (Inr groups, ()) \<and>
     map_of groups 1 = Some [[GInt KInt64 1, GStr ''t'']] \<and> map_of groups 2 = None"
proof -
  let ?q = "where_in ''id'' [GSlice (Some (map (GInt KInt64) [1]))] (new_query ''mysql'' [] note_meta)"
  let ?row = "[GInt KInt64 1, GStr ''t'']"
  have "valid_ident ''id''" by code_simp
  then have q: "q_err ?q = None" "q_meta ?q = note_meta" "snd (build_select 0 ?q) = [GInt KInt64 1]"
    "\<not> has_suffix (fst (build_select 0 ?q)) ''OFFSET ?''" "\<not> has_prefix (fst (build_select 0 ?q)) ''SELECT COUNT''"
    by (simp_all add: where_in_def expand_vals_def max_where_in_size_def new_query_def build_select_def build_select_raw_def
        Let_def rewrite_placeholders_def is_pg_def text_defs suffix_to_prefix note_meta_def)
  have t: "take 1 note_table = [?row]" by (simp add: note_table_def)
  have "query_cached note_conn (fst (build_select 0 ?q)) (snd (build_select 0 ?q)) () =
      (Inr \<lparr>r_cols = [''id'', ''title''], r_data = [?row], r_err = None\<rparr>, ())"
    unfolding q(3) using note_answer_keyset(2)[OF q(4,5), of KInt64 1] t
    by (simp add: query_cached_def note_conn_def)
  moreover have "scan_rows (x_conv note_conn) (cd_decrypt sample_codec) note_meta note_zero
      \<lparr>r_cols = [''id'', ''title''], r_data = [?row], r_err = None\<rparr> = Inr [?row]"
    by (rule note_scan) simp
  ultimately have a: "all_q sample_codec note_conn note_zero ?q () = (Inr [?row], ())"
    using q(1,2) by (simp add: all_q_def case_prod_unfold Let_def)
  have d: "dedupe [1, 1 :: int] = [1]" by (simp add: dedupe_def)
  obtain groups where g: "prefetch sample_codec note_conn note_zero (new_query ''mysql'' [] note_meta) ''id'' [1, 1]
      (GInt KInt64) note_key () = (Inr groups, ())"
    using a by (simp add: prefetch_def d)
  from prefetch_groups[OF g] obtain rels uniq where u: "distinct uniq" "set uniq = {1 :: int}"
    "all_q sample_codec note_conn note_zero
      (where_in ''id'' [GSlice (Some (map (GInt KInt64) uniq))] (new_query ''mysql'' [] note_meta)) () = (Inr rels, ())"
    "\<forall>k. map_of groups k = (if \<exists>r\<in>set rels. note_key r = k then Some (filter (\<lambda>r. note_key r = k) rels) else None)"
    by auto
  from u(1,2) have "uniq = [1]"
  proof (cases uniq)
    case (Cons a as)
    with u(1,2) have "a = 1" "set as \<subseteq> {1}" "1 \<notin> set as" by auto
    with Cons show ?thesis by (cases as) auto
  qed simp
  with u(3) a have "rels = [?row]" by simp
  with u(4) g show ?thesis by (simp add: note_key_def)
qed

end
