(* ===== verification/Sessions.thy ===== *)
theory Sessions
  imports Prelude
begin

text \<open>
  The session store of \<open>core/security/session/session.go\<close>: sessions by id, the ids of each user key,
  the two limits, expiry and the periodic collection. All operations run under the store's lock, so
  an interleaving of requests is a sequence of operations; \<open>now\<close> is the clock reading of the
  operation. The interface \<open>ttl_map\<close> (what deletion, collection and expiry mean for lookups) is
  shared with the cache.
\<close>

declare map_of_eq_Some_iff [simp del] AList.update_conv' [simp]

subsection \<open>Maps whose entries expire\<close>

datatype ttl_op = TDrop string | TCollect time

definition run_ttl ::
  "(string \<Rightarrow> 'm \<Rightarrow> 'm) \<Rightarrow> (time \<Rightarrow> 'm \<Rightarrow> 'm) \<Rightarrow> ttl_op list \<Rightarrow> 'm \<Rightarrow> 'm"
where
  "run_ttl drp gc ops m = fold (\<lambda>op. case op of TDrop k \<Rightarrow> drp k | TCollect t \<Rightarrow> gc t) ops m"

locale ttl_map =
  fixes look :: "'m \<Rightarrow> time \<Rightarrow> string \<Rightarrow> 'v option"
    and drp :: "string \<Rightarrow> 'm \<Rightarrow> 'm" and gc :: "time \<Rightarrow> 'm \<Rightarrow> 'm" and okm :: "'m \<Rightarrow> bool"
  assumes okm_drop: "okm m \<Longrightarrow> okm (drp k m)" and okm_gc: "okm m \<Longrightarrow> okm (gc t m)"
    and look_drop: "okm m \<Longrightarrow> look (drp k m) t k' = (if k' = k then None else look m t k')"
    and look_gc: "okm m \<Longrightarrow> now \<le> t \<Longrightarrow> look (gc now m) t k = look m t k"

context ttl_map begin

lemma okm_run: "okm m \<Longrightarrow> okm (run_ttl drp gc ops m)"
  by (induction ops arbitrary: m) (auto simp: run_ttl_def okm_drop okm_gc split: ttl_op.split)

text \<open>Deletions and collections, in any order: an entry goes exactly when it is deleted.\<close>

lemma look_run:
  "okm m \<Longrightarrow> \<forall>now. TCollect now \<in> set ops \<longrightarrow> now \<le> t \<Longrightarrow>
   look (run_ttl drp gc ops m) t k = (if TDrop k \<in> set ops then None else look m t k)"
proof (induction ops arbitrary: m)
  case (Cons op ops)
  show ?case
  proof (cases op)
    case (TDrop k')
    with Cons.prems Cons.IH[of "drp k' m"] show ?thesis by (simp add: run_ttl_def okm_drop look_drop)
  next
    case (TCollect now)
    with Cons.prems Cons.IH[of "gc now m"] show ?thesis by (simp add: run_ttl_def okm_gc look_gc)
  qed
qed (simp add: run_ttl_def)

end

subsection \<open>The store\<close>

definition hex_digit :: "nat \<Rightarrow> char" where
  "hex_digit n = (if n < 10 then char_of (48 + n) else char_of (87 + n))"

definition hex_encode :: "string \<Rightarrow> string" where
  "hex_encode s = concat (map (\<lambda>c. [hex_digit (of_char c div 16), hex_digit (of_char c mod 16)]) s)"

record 'v session =
  ss_id :: string
  ss_user_key :: string
  ss_values :: "(string \<times> 'v) list"
  ss_expires :: time

record 'v store =
  st_sessions :: "(string \<times> 'v session) list"
  st_by_key :: "(string \<times> string list) list"
  st_ttl :: duration
  st_max_total :: int
  st_max_per_key :: int

datatype session_error = NoRandomness | StoreFull | KeyLimitFull

definition default_max_total :: int where "default_max_total = 10000"
definition default_max_per_key :: int where "default_max_per_key = 20"

definition new_store :: "duration \<Rightarrow> 'v store" where
  "new_store ttl = \<lparr>st_sessions = [], st_by_key = [], st_ttl = ttl,
     st_max_total = default_max_total, st_max_per_key = default_max_per_key\<rparr>"

definition set_limits :: "int \<Rightarrow> int \<Rightarrow> 'v store \<Rightarrow> 'v store" where
  "set_limits max_total max_per_key st = st\<lparr>st_max_total := max_total, st_max_per_key := max_per_key\<rparr>"

definition ids_of :: "'v store \<Rightarrow> string \<Rightarrow> string list" where
  "ids_of st key = (case map_of (st_by_key st) key of Some ids \<Rightarrow> ids | None \<Rightarrow> [])"

definition put_ids :: "string \<Rightarrow> string list \<Rightarrow> 'v store \<Rightarrow> 'v store" where
  "put_ids key ids st =
     st\<lparr>st_by_key := (if ids = [] then AList.delete key (st_by_key st) else AList.update key ids (st_by_key st))\<rparr>"

definition live :: "time \<Rightarrow> 'v session \<Rightarrow> bool" where
  "live now s \<longleftrightarrow> \<not> now > ss_expires s"

definition prune_key_expired :: "time \<Rightarrow> string \<Rightarrow> 'v store \<Rightarrow> 'v store" where
  "prune_key_expired now key st =
     put_ids key
       (filter (\<lambda>i. case map_of (st_sessions st) i of Some s \<Rightarrow> live now s | None \<Rightarrow> False) (ids_of st key)) st"

definition remove_from_key :: "string \<Rightarrow> string \<Rightarrow> 'v store \<Rightarrow> 'v store" where
  "remove_from_key key i st = put_ids key (remove1 i (ids_of st key)) st"

text \<open>\<open>newSession\<close>; \<open>rnd\<close> is the result of \<open>RandomBytes(32)\<close>.\<close>

definition new_session ::
  "string \<Rightarrow> string option \<Rightarrow> time \<Rightarrow> 'v store \<Rightarrow> (session_error + 'v session) \<times> 'v store"
where
  "new_session user_key rnd now st =
     (case rnd of
        None \<Rightarrow> (Inl NoRandomness, st)
      | Some b \<Rightarrow>
          if int (length (st_sessions st)) \<ge> st_max_total st then (Inl StoreFull, st)
          else
            (let st1 = (if user_key \<noteq> [] then prune_key_expired now user_key st else st) in
             if user_key \<noteq> [] \<and> int (length (ids_of st1 user_key)) \<ge> st_max_per_key st1
             then (Inl KeyLimitFull, st1)
             else
               (let i = hex_encode b;
                    sess = \<lparr>ss_id = i, ss_user_key = user_key, ss_values = [], ss_expires = now + st_ttl st\<rparr>;
                    st2 = st1\<lparr>st_sessions := AList.update i sess (st_sessions st1)\<rparr>
                in (Inr sess, if user_key \<noteq> [] then put_ids user_key (ids_of st2 user_key @ [i]) st2 else st2))))"

definition session_get :: "'v store \<Rightarrow> time \<Rightarrow> string \<Rightarrow> 'v session option" where
  "session_get st now i =
     (case map_of (st_sessions st) i of
        None \<Rightarrow> None
      | Some s \<Rightarrow> if now > ss_expires s then None else Some s)"

definition session_delete :: "string \<Rightarrow> 'v store \<Rightarrow> 'v store" where
  "session_delete i st =
     (case map_of (st_sessions st) i of
        None \<Rightarrow> st
      | Some s \<Rightarrow>
          (let st1 = (if ss_user_key s \<noteq> [] then remove_from_key (ss_user_key s) i st else st)
           in st1\<lparr>st_sessions := AList.delete i (st_sessions st1)\<rparr>))"

text \<open>One tick of \<open>gc\<close>: every expired session is removed as \<open>Delete\<close> does.\<close>

definition session_gc :: "time \<Rightarrow> 'v store \<Rightarrow> 'v store" where
  "session_gc now st =
     fold session_delete (map fst (filter (\<lambda>(i, s). now > ss_expires s) (st_sessions st))) st"

text \<open>The locked accessors of one session; the store holds the shared \<open>*Session\<close>.\<close>

definition value_get :: "string \<Rightarrow> 'v session \<Rightarrow> 'v option" where
  "value_get key s = map_of (ss_values s) key"

definition on_session :: "string \<Rightarrow> ('v session \<Rightarrow> 'v session) \<Rightarrow> 'v store \<Rightarrow> 'v store" where
  "on_session i f st =
     (case map_of (st_sessions st) i of
        None \<Rightarrow> st
      | Some s \<Rightarrow> st\<lparr>st_sessions := AList.update i (f s) (st_sessions st)\<rparr>)"

definition value_set :: "string \<Rightarrow> 'v \<Rightarrow> 'v session \<Rightarrow> 'v session" where
  "value_set key v s = s\<lparr>ss_values := AList.update key v (ss_values s)\<rparr>"

definition value_delete :: "string \<Rightarrow> 'v session \<Rightarrow> 'v session" where
  "value_delete key s = s\<lparr>ss_values := AList.delete key (ss_values s)\<rparr>"

subsection \<open>The cookie\<close>

record cookie =
  ck_name :: string
  ck_value :: string
  ck_max_age :: int
  ck_http_only :: bool
  ck_secure :: bool
  ck_same_site_strict :: bool
  ck_path :: string

definition cookie_name :: "bool \<Rightarrow> string" where
  "cookie_name secure_default = (if secure_default then ''__Host-kyrux_session'' else ''kyrux_session'')"

definition session_cookie :: "bool \<Rightarrow> string \<Rightarrow> bool \<Rightarrow> cookie" where
  "session_cookie secure_default session_id secure =
     \<lparr>ck_name = cookie_name secure_default, ck_value = session_id, ck_max_age = 0, ck_http_only = True,
      ck_secure = (secure \<or> secure_default), ck_same_site_strict = True, ck_path = ''/''\<rparr>"

definition from_request :: "bool \<Rightarrow> (string \<times> string) list \<Rightarrow> 'v store \<Rightarrow> time \<Rightarrow> 'v session option" where
  "from_request secure_default cookies st now =
     (case map_of cookies (cookie_name secure_default) of
        None \<Rightarrow> None
      | Some v \<Rightarrow> session_get st now v)"

subsection \<open>Invariant\<close>

definition store_inv :: "time \<Rightarrow> 'v store \<Rightarrow> bool" where
  "store_inv now st \<longleftrightarrow>
     distinct (map fst (st_sessions st)) \<and> distinct (map fst (st_by_key st)) \<and>
     (\<forall>i s. map_of (st_sessions st) i = Some s \<longrightarrow>
        ss_id s = i \<and> (ss_user_key s \<noteq> [] \<and> live now s \<longrightarrow> i \<in> set (ids_of st (ss_user_key s)))) \<and>
     (\<forall>k. distinct (ids_of st k) \<and>
        (\<forall>i\<in>set (ids_of st k). \<exists>s. map_of (st_sessions st) i = Some s \<and> ss_user_key s = k \<and> k \<noteq> []))"

lemma ids_of_put [simp]: "distinct (map fst (st_by_key st)) \<Longrightarrow>
   ids_of (put_ids key ids st) k = (if k = key then ids else ids_of st k)"
  by (simp add: ids_of_def put_ids_def)

lemma put_ids_frame [simp]:
  "st_sessions (put_ids key ids st) = st_sessions st" "st_max_total (put_ids key ids st) = st_max_total st"
  "st_max_per_key (put_ids key ids st) = st_max_per_key st" "st_ttl (put_ids key ids st) = st_ttl st"
  by (simp_all add: put_ids_def)

lemma put_ids_keys [simp]: "distinct (map fst (st_by_key st)) \<Longrightarrow> distinct (map fst (st_by_key (put_ids key ids st)))"
  by (simp add: put_ids_def AList.distinct_update AList.distinct_delete)

lemma ids_of_sessions [simp]: "ids_of (st\<lparr>st_sessions := x\<rparr>) k = ids_of st k"
  by (simp add: ids_of_def)

lemma put_ids_sessions: "put_ids k ids (st\<lparr>st_sessions := x\<rparr>) = (put_ids k ids st)\<lparr>st_sessions := x\<rparr>"
  by (simp add: put_ids_def)

lemma store_inv_new [simp]: "store_inv now (new_store ttl)"
  by (simp add: store_inv_def new_store_def ids_of_def)

lemma store_inv_tick: "store_inv t st \<Longrightarrow> t \<le> t' \<Longrightarrow> store_inv t' st"
  unfolding store_inv_def live_def by (meson not_less order_trans le_less_trans)

lemma store_inv_limits: "store_inv t (set_limits a b st) = store_inv t st"
  by (simp add: store_inv_def set_limits_def ids_of_def)

lemma prune_inv:
  assumes "store_inv now st" shows "store_inv now (prune_key_expired now key st)"
proof -
  have d: "distinct (map fst (st_by_key st))" using assms by (simp add: store_inv_def)
  show ?thesis
    using assms d by (auto simp: store_inv_def prune_key_expired_def)
qed

lemma delete_inv:
  assumes "store_inv now st" shows "store_inv now (session_delete i st)"
proof (cases "map_of (st_sessions st) i")
  case (Some s)
  have d: "distinct (map fst (st_by_key st))" and ds: "distinct (map fst (st_sessions st))"
    using assms by (simp_all add: store_inv_def)
  have "ids_of (session_delete i st) k = remove1 i (ids_of st k)" for k
  proof (cases "ss_user_key s = k \<and> k \<noteq> []")
    case True
    with Some d show ?thesis by (simp add: session_delete_def remove_from_key_def)
  next
    case False
    have "i \<notin> set (ids_of st k)" using assms Some False unfolding store_inv_def by (metis option.inject)
    with Some d False show ?thesis by (auto simp: session_delete_def remove_from_key_def remove1_idem)
  qed
  moreover have "st_sessions (session_delete i st) = AList.delete i (st_sessions st)"
    using Some by (simp add: session_delete_def remove_from_key_def)
  moreover have "distinct (map fst (st_by_key (session_delete i st)))"
    using Some d by (simp add: session_delete_def remove_from_key_def)
  ultimately show ?thesis
    using assms ds unfolding store_inv_def
    by (auto simp: AList.distinct_delete AList.delete_conv' in_set_remove1 split: if_splits)
qed (use assms in \<open>simp add: session_delete_def\<close>)

lemma delete_sessions: "st_sessions (session_delete i st) = AList.delete i (st_sessions st)"
proof (cases "map_of (st_sessions st) i")
  case None
  then have "i \<notin> fst ` set (st_sessions st)" by (simp add: map_of_eq_None_iff)
  with None show ?thesis by (simp add: session_delete_def AList.delete_id)
qed (simp add: session_delete_def remove_from_key_def)

lemma delete_limits [simp]:
  "st_max_total (session_delete i st) = st_max_total st" "st_max_per_key (session_delete i st) = st_max_per_key st"
  by (simp_all add: session_delete_def remove_from_key_def split: option.split)

lemma fold_delete_inv: "store_inv now st \<Longrightarrow> store_inv now (fold session_delete is st)"
  by (induction "is" arbitrary: st) (auto simp: delete_inv)

lemma gc_inv: "store_inv now st \<Longrightarrow> store_inv now (session_gc t st)"
  by (simp add: session_gc_def fold_delete_inv)

lemma store_inv_idsD: "store_inv now st \<Longrightarrow> i \<in> set (ids_of st k) \<Longrightarrow>
  \<exists>s. map_of (st_sessions st) i = Some s \<and> ss_user_key s = k \<and> k \<noteq> []"
  by (simp add: store_inv_def)

lemma on_session_inv:
  assumes "store_inv now st" "\<And>s. ss_id (f s) = ss_id s \<and> ss_user_key (f s) = ss_user_key s \<and> ss_expires (f s) = ss_expires s"
  shows "store_inv now (on_session i f st)"
proof (cases "map_of (st_sessions st) i")
  case (Some s)
  have f: "ss_id (f s) = ss_id s" "ss_user_key (f s) = ss_user_key s" "ss_expires (f s) = ss_expires s" for s
    using assms(2) by auto
  let ?st = "on_session i f st"
  have m: "st_sessions ?st = AList.update i (f s) (st_sessions st)" "ids_of ?st k = ids_of st k" "st_by_key ?st = st_by_key st" for k
    using Some by (simp_all add: on_session_def)
  show ?thesis
    unfolding store_inv_def m
  proof (intro conjI allI impI ballI)
    fix j s' assume "map_of (AList.update i (f s) (st_sessions st)) j = Some s'"
    then obtain s0 where "map_of (st_sessions st) j = Some s0" "ss_id s' = ss_id s0" "ss_user_key s' = ss_user_key s0"
      "ss_expires s' = ss_expires s0"
      using Some f by (cases "j = i") auto
    then show "ss_id s' = j" "ss_user_key s' \<noteq> [] \<and> live now s' \<Longrightarrow> j \<in> set (ids_of st (ss_user_key s'))"
      using assms(1) unfolding store_inv_def live_def by metis+
  next
    fix k j assume "j \<in> set (ids_of st k)"
    from store_inv_idsD[OF assms(1) this] Some f
    show "\<exists>s'. map_of (AList.update i (f s) (st_sessions st)) j = Some s' \<and> ss_user_key s' = k \<and> k \<noteq> []"
      by (cases "j = i") auto
  qed (use assms(1) in \<open>auto simp: store_inv_def AList.distinct_update\<close>)
qed (use assms(1) in \<open>simp add: on_session_def\<close>)

lemma update_ids_disjoint:
  assumes "store_inv now st" "i \<notin> fst ` set (st_sessions st)" shows "i \<notin> set (ids_of st k)"
  using store_inv_idsD[OF assms(1), of i k] assms(2) by (auto simp flip: map_of_eq_None_iff)

lemma new_inv:
  assumes inv: "store_inv now st" and fresh: "\<And>b. rnd = Some b \<Longrightarrow> hex_encode b \<notin> fst ` set (st_sessions st)"
    and new: "new_session k rnd now st = (r, st')"
  shows "store_inv now st'"
proof -
  define st1 where "st1 = (if k \<noteq> [] then prune_key_expired now k st else st)"
  have inv1: "store_inv now st1" using prune_inv[OF inv] inv by (simp add: st1_def)
  have ss: "st_sessions st1 = st_sessions st" by (simp add: prune_key_expired_def st1_def)
  show ?thesis
  proof (cases r)
    case (Inl e)
    with new inv inv1[unfolded st1_def] show ?thesis by (auto simp: new_session_def Let_def split: option.splits if_splits)
  next
    case (Inr sess)
    then obtain b where b: "rnd = Some b" and sess: "sess = \<lparr>ss_id = hex_encode b, ss_user_key = k, ss_values = [], ss_expires = now + st_ttl st\<rparr>"
      and st': "st' = (let st2 = st1\<lparr>st_sessions := AList.update (hex_encode b) sess (st_sessions st1)\<rparr>
         in if k \<noteq> [] then put_ids k (ids_of st2 k @ [hex_encode b]) st2 else st2)"
      using new unfolding st1_def by (auto simp: new_session_def Let_def split: option.splits if_splits)
    let ?i = "hex_encode b"
    have fr: "?i \<notin> fst ` set (st_sessions st1)" using fresh[OF b] ss by simp
    have none: "map_of (st_sessions st1) ?i = None" using fr by (simp add: map_of_eq_None_iff)
    have dj: "?i \<notin> set (ids_of st1 k')" for k' using update_ids_disjoint[OF inv1 fr] .
    have d: "distinct (map fst (st_by_key st1))" using inv1 by (simp add: store_inv_def)
    have ids: "ids_of st' k' = (if k' = k \<and> k \<noteq> [] then ids_of st1 k @ [?i] else ids_of st1 k')" for k'
      using d by (simp add: st' Let_def put_ids_sessions)
    have sst: "st_sessions st' = AList.update ?i sess (st_sessions st1)" by (simp add: st' Let_def)
    have bk: "distinct (map fst (st_by_key st'))" using d by (simp add: st' Let_def)
    show ?thesis
      unfolding store_inv_def
    proof (intro conjI allI impI)
      fix j s assume j: "map_of (st_sessions st') j = Some s"
      show "ss_id s = j" using j inv1 unfolding sst store_inv_def by (auto simp: sess split: if_splits)
      assume "ss_user_key s \<noteq> [] \<and> live now s"
      then show "j \<in> set (ids_of st' (ss_user_key s))"
        using j inv1 unfolding sst ids store_inv_def by (auto simp: sess split: if_splits)
    next
      fix k' show "distinct (ids_of st' k')" using inv1 dj unfolding ids store_inv_def by auto
      show "\<forall>j\<in>set (ids_of st' k'). \<exists>s. map_of (st_sessions st') j = Some s \<and> ss_user_key s = k' \<and> k' \<noteq> []"
        using store_inv_idsD[OF inv1] dj unfolding ids sst by (auto simp: sess split: if_splits)
    qed (use inv1 bk in \<open>auto simp: store_inv_def sst AList.distinct_update\<close>)
  qed
qed

subsection \<open>Histories\<close>

text \<open>
  Everything that can happen to the store, with a clock that does not run backwards. A new id is
  taken to be unused: it is the hex form of 32 random bytes.
\<close>

inductive session_step :: "time \<times> 'v store \<Rightarrow> time \<times> 'v store \<Rightarrow> bool" where
  Tick: "t \<le> t' \<Longrightarrow> session_step (t, st) (t', st)"
| New: "new_session k rnd t st = (r, st') \<Longrightarrow> (\<And>b. rnd = Some b \<Longrightarrow> hex_encode b \<notin> fst ` set (st_sessions st)) \<Longrightarrow>
    session_step (t, st) (t, st')"
| Drop: "session_step (t, st) (t, session_delete i st)"
| Collect: "session_step (t, st) (t, session_gc t st)"
| Limits: "session_step (t, st) (t, set_limits a b st)"
| SetValue: "session_step (t, st) (t, on_session i (value_set key v) st)"
| DelValue: "session_step (t, st) (t, on_session i (value_delete key) st)"

inductive_cases session_stepE: "session_step (t, st) (t', st')"

lemma step_inv: "session_step w w' \<Longrightarrow> store_inv (fst w) (snd w) \<Longrightarrow> store_inv (fst w') (snd w')"
proof (induction rule: session_step.induct)
  case (New k rnd t st r st')
  then show ?case using new_inv by (metis fst_conv snd_conv)
qed (auto simp: store_inv_tick delete_inv gc_inv store_inv_limits intro!: on_session_inv simp: value_set_def value_delete_def)

lemma reachable_inv: "session_step\<^sup>*\<^sup>* (t0, new_store ttl) (t, st) \<Longrightarrow> store_inv t st"
proof -
  have "session_step\<^sup>*\<^sup>* w w' \<Longrightarrow> store_inv (fst w) (snd w) \<Longrightarrow> store_inv (fst w') (snd w')" for w w' :: "time \<times> 'v store"
    by (induction rule: rtranclp_induct) (auto dest: step_inv)
  from this[of "(t0, new_store ttl)" "(t, st)"] show "session_step\<^sup>*\<^sup>* (t0, new_store ttl) (t, st) \<Longrightarrow> store_inv t st" by simp
qed

definition live_of :: "time \<Rightarrow> string \<Rightarrow> 'v store \<Rightarrow> string set" where
  "live_of now k st = {i. \<exists>s. map_of (st_sessions st) i = Some s \<and> ss_user_key s = k \<and> live now s}"

lemma live_of_ids: "store_inv now st \<Longrightarrow> k \<noteq> [] \<Longrightarrow> live_of now k st \<subseteq> set (ids_of st k)"
  by (auto simp: live_of_def store_inv_def)

text \<open>
  C16: Limits: in every state the store can reach, a session is created only if there is room;
  afterwards the store holds at most \<open>maxTotal\<close> sessions, and the key it was created for has at
  most \<open>maxPerKey\<close> live sessions. The new session is found under its id until it expires, and every
  other lookup is what it was.
\<close>

theorem session_creation_correct:
  assumes "session_step\<^sup>*\<^sup>* (t0, new_store ttl) (now, st)"
    and "hex_encode b \<notin> fst ` set (st_sessions st)"
    and "new_session k (Some b) now st = (Inr s, st')"
  shows "int (length (st_sessions st')) \<le> st_max_total st \<and>
    (k \<noteq> [] \<longrightarrow> int (card (live_of now k st')) \<le> st_max_per_key st) \<and>
    (\<forall>t. session_get st' t (ss_id s) = (if t > now + st_ttl st then None else Some s)) \<and>
    (\<forall>t i. i \<noteq> ss_id s \<longrightarrow> session_get st' t i = session_get st t i)"
proof -
  have inv: "store_inv now st" by (rule reachable_inv[OF assms(1)])
  have inv': "store_inv now st'" using new_inv[OF inv _ assms(3)] assms(2) by auto
  define st1 where "st1 = (if k \<noteq> [] then prune_key_expired now k st else st)"
  from assms(3) have lt: "int (length (st_sessions st)) < st_max_total st"
    and cap: "k \<noteq> [] \<Longrightarrow> int (length (ids_of st1 k)) < st_max_per_key st"
    and sess: "s = \<lparr>ss_id = hex_encode b, ss_user_key = k, ss_values = [], ss_expires = now + st_ttl st\<rparr>"
    and st': "st' = (let st2 = st1\<lparr>st_sessions := AList.update (hex_encode b) s (st_sessions st1)\<rparr>
         in if k \<noteq> [] then put_ids k (ids_of st2 k @ [hex_encode b]) st2 else st2)"
    unfolding st1_def by (auto simp: new_session_def Let_def prune_key_expired_def split: option.splits if_splits)
  have sst: "st_sessions st' = AList.update (hex_encode b) s (st_sessions st)"
    by (simp add: st' Let_def prune_key_expired_def st1_def)
  have "int (length (st_sessions st')) \<le> st_max_total st"
    using lt assms(2) by (simp add: sst length_AList_update)
  moreover have "int (card (live_of now k st')) \<le> st_max_per_key st" if k: "k \<noteq> []"
  proof -
    have d: "distinct (map fst (st_by_key st1))" using prune_inv[OF inv, of k] inv by (simp add: store_inv_def st1_def)
    have "ids_of st' k = ids_of st1 k @ [hex_encode b]" using k d by (simp add: st' Let_def put_ids_sessions)
    then have "int (length (ids_of st' k)) \<le> st_max_per_key st" using cap[OF k] by simp
    moreover have "card (live_of now k st') \<le> length (ids_of st' k)"
      using card_mono[OF finite_set live_of_ids[OF inv' k]] card_length le_trans by blast
    ultimately show ?thesis by simp
  qed
  moreover have "session_get st' t i = (if i = ss_id s then (if t > now + st_ttl st then None else Some s) else session_get st t i)" for t i
    by (auto simp: session_get_def sst sess)
  ultimately show ?thesis by simp
qed

lemma hex_digits: "hex_digit 4 = CHR ''4''" "hex_digit 1 = CHR ''1''" "hex_digit (Suc 0) = CHR ''1''"
  "hex_digit 2 = CHR ''2''" "hex_digit 3 = CHR ''3''"
  by code_simp+

definition sample_store :: "nat store" where
  "sample_store = snd (new_session ''ana'' (Some ''A'') 5 (set_limits 3 2 (new_store 100)))"

theorem session_creation_correct_witness:
  "\<exists>s st'. new_session ''ana'' (Some ''B'') 7 sample_store = (Inr s, st') \<and> ss_id s = ''42'' \<and>
     int (card (live_of 7 ''ana'' st')) \<le> 2 \<and> session_get st' 200 ''42'' = None \<and>
     fst (new_session ''ana'' (Some ''C'') 8 st') = Inl KeyLimitFull"
proof -
  have s0: "sample_store = \<lparr>st_sessions = [(''41'', \<lparr>ss_id = ''41'', ss_user_key = ''ana'', ss_values = [], ss_expires = 105\<rparr>)],
      st_by_key = [(''ana'', [''41''])], st_ttl = 100, st_max_total = 3, st_max_per_key = 2\<rparr>"
    by (simp add: sample_store_def new_session_def new_store_def set_limits_def prune_key_expired_def ids_of_def put_ids_def
        hex_encode_def hex_digits Let_def)
  have "session_step (5, set_limits 3 2 (new_store 100)) (5, sample_store)"
    by (rule New[where k = "''ana''" and rnd = "Some ''A''" and r = "fst (new_session ''ana'' (Some ''A'') 5 (set_limits 3 2 (new_store 100)))"])
      (simp_all add: sample_store_def new_store_def set_limits_def)
  moreover have "session_step (5, new_store 100) (5, set_limits 3 2 (new_store 100))" by (rule Limits)
  moreover have "session_step (5, sample_store) (7, sample_store)" by (rule Tick) simp
  ultimately have r: "session_step\<^sup>*\<^sup>* (5, new_store 100) (7, sample_store)"
    by (meson rtranclp.rtrancl_refl rtranclp.rtrancl_into_rtrancl)
  have h: "hex_encode ''B'' = ''42''" "hex_encode ''C'' = ''43''" by (simp_all add: hex_encode_def hex_digits)
  obtain s st' where n: "new_session ''ana'' (Some ''B'') 7 sample_store = (Inr s, st')" "ss_id s = ''42''"
    "fst (new_session ''ana'' (Some ''C'') 8 st') = Inl KeyLimitFull"
    by (simp add: s0 new_session_def prune_key_expired_def ids_of_def put_ids_def h live_def Let_def)
  have f: "hex_encode ''B'' \<notin> fst ` set (st_sessions sample_store)" by (simp add: s0 h)
  from session_creation_correct[OF r f n(1)] n show ?thesis by (auto simp: s0)
qed

subsection \<open>Deletion and expiry\<close>

interpretation sessions: ttl_map session_get session_delete session_gc "\<lambda>st. distinct (map fst (st_sessions st))"
proof
  have fd: "st_sessions (fold session_delete is st) = fold AList.delete is (st_sessions st)" for "is" and st :: "'a store"
    by (induction "is" arbitrary: st) (simp_all add: delete_sessions)
  have dd: "distinct (map fst m) \<Longrightarrow> distinct (map fst (fold AList.delete is m))" for "is" and m :: "(string \<times> 'a session) list"
    by (induction "is" arbitrary: m) (simp_all add: AList.distinct_delete)
  have md: "map_of (fold AList.delete is m) k = (if k \<in> set is then None else map_of m k)" for "is" k and m :: "(string \<times> 'a session) list"
    by (induction "is" arbitrary: m) (auto simp: AList.delete_conv')
  fix m :: "'a store" and k k' :: string and t now :: time
  assume d: "distinct (map fst (st_sessions m))"
  show "distinct (map fst (st_sessions (session_delete k m)))" using d by (simp add: delete_sessions AList.distinct_delete)
  show "distinct (map fst (st_sessions (session_gc t m)))" using d by (simp add: session_gc_def fd dd)
  show "session_get (session_delete k m) t k' = (if k' = k then None else session_get m t k')"
    by (simp add: session_get_def delete_sessions)
  assume le: "now \<le> t"
  show "session_get (session_gc now m) t k = session_get m t k"
  proof (cases "map_of (st_sessions m) k")
    case None
    then show ?thesis by (simp add: session_get_def session_gc_def fd md)
  next
    case (Some s)
    then have "k \<in> set (map fst (filter (\<lambda>(i, s). now > ss_expires s) (st_sessions m))) \<longleftrightarrow> now > ss_expires s"
      using d by (force dest: map_of_SomeD simp: image_iff)
    with Some le show ?thesis by (simp add: session_get_def session_gc_def fd md)
  qed
qed

text \<open>
  Logging out is final and private: from any store, after any sequence of deletions and garbage
  collections (at clock readings up to \<open>t\<close>) a session is found at \<open>t\<close> exactly if it was found before
  and was not one of those deleted; collection alone never removes a session that has not expired.
\<close>

theorem session_deletion_final:
  assumes "distinct (map fst (st_sessions st))" and "\<forall>now. TCollect now \<in> set ops \<longrightarrow> now \<le> t"
  shows "session_get (run_ttl session_delete session_gc ops st) t i =
    (if TDrop i \<in> set ops then None else session_get st t i)"
  by (rule sessions.look_run[OF assms])

theorem session_deletion_final_witness:
  "session_get (run_ttl session_delete session_gc [TCollect 50, TDrop ''41'', TCollect 60] sample_store) 60 ''41'' = None"
proof -
  have d: "distinct (map fst (st_sessions sample_store))"
    by (simp add: sample_store_def new_session_def new_store_def set_limits_def Let_def prune_key_expired_def)
  have "\<forall>now. TCollect now \<in> set [TCollect 50, TDrop ''41'', TCollect 60] \<longrightarrow> now \<le> 60" by simp
  from session_deletion_final[OF d this, of "''41''"] show ?thesis by simp
qed

end
