(* ===== verification/Throttle.thy ===== *)
theory Throttle
  imports Sessions
begin

text \<open>
  The two counters that slow attackers down: the login throttle of \<open>core/security/auth/throttle.go\<close>
  (failed attempts per account and address) and the \<open>RateLimit\<close> middleware of
  \<open>core/security/middleware/middleware.go\<close> (requests per address). Both are fixed windows; the
  interface \<open>window_counter\<close> states what a window counts and is implemented by both. The address
  comes from \<open>realIP\<close> and \<open>clientIP\<close> over Go's \<open>net.SplitHostPort\<close>.
\<close>

subsection \<open>Fixed windows\<close>

definition hits :: "(time \<Rightarrow> string \<Rightarrow> 's \<Rightarrow> 's) \<Rightarrow> (time \<times> string) list \<Rightarrow> 's \<Rightarrow> 's" where
  "hits hit evs s = fold (\<lambda>(t, k). hit t k) evs s"

text \<open>
  \<open>open_at s t k\<close> is the count and the end of the window of \<open>k\<close> that is open at time \<open>t\<close>.
\<close>

locale window_counter =
  fixes hit :: "time \<Rightarrow> string \<Rightarrow> 's \<Rightarrow> 's"
    and open_at :: "'s \<Rightarrow> time \<Rightarrow> string \<Rightarrow> (int \<times> time) option"
    and good :: "'s \<Rightarrow> bool" and window :: "'s \<Rightarrow> duration"
  assumes good_hit: "good s \<Longrightarrow> good (hit t k s)"
    and window_hit: "window (hit t k s) = window s"
    and hit_self: "good s \<Longrightarrow> t \<le> t' \<Longrightarrow> open_at (hit t k s) t' k =
      (case open_at s t k of
         Some (c, r) \<Rightarrow> if t' > r then None else Some (c + 1, r)
       | None \<Rightarrow> if t' > t + window s then None else Some (1, t + window s))"
    and hit_other: "good s \<Longrightarrow> t \<le> t' \<Longrightarrow> k' \<noteq> k \<Longrightarrow> open_at (hit t k s) t' k' = open_at s t' k'"

context window_counter begin

text \<open>While a window is open it counts every hit of its key and nothing else.\<close>

lemma hits_open:
  assumes "good s" "sorted_wrt (\<le>) (map fst evs @ [t])" "\<forall>(u, k')\<in>set evs. t0 \<le> u" "t \<le> r"
    and "\<forall>u. t0 \<le> u \<and> u \<le> r \<longrightarrow> open_at s u k = Some (c, r)" "t0 \<le> t"
  shows "open_at (hits hit evs s) t k = Some (c + int (length (filter (\<lambda>(u, k'). k' = k) evs)), r)"
  using assms
proof (induction evs arbitrary: s c t0)
  case (Cons e evs)
  obtain u k' where e: "e = (u, k')" by (cases e)
  from Cons.prems(2) e have le: "u \<le> t" "\<forall>(v, k')\<in>set evs. u \<le> v" by auto
  have u: "t0 \<le> u" "u \<le> r" using Cons.prems(3,4) e le by auto
  let ?s = "hit u k' s"
  have g: "good ?s" using Cons.prems(1) by (rule good_hit)
  have op: "open_at s u k = Some (c, r)" using Cons.prems(5) u by blast
  have "\<forall>v. u \<le> v \<and> v \<le> r \<longrightarrow> open_at ?s v k = Some (if k' = k then c + 1 else c, r)"
  proof (intro allI impI)
    fix v assume v: "u \<le> v \<and> v \<le> r"
    have "open_at s v k = Some (c, r)" using Cons.prems(5) u v by auto
    with v op show "open_at ?s v k = Some (if k' = k then c + 1 else c, r)"
      using hit_self[OF Cons.prems(1), of u v k] hit_other[OF Cons.prems(1), of u v k k'] by (cases "k' = k") auto
  qed
  moreover have "sorted_wrt (\<le>) (map fst evs @ [t])" using Cons.prems(2) by simp
  ultimately have "open_at (hits hit evs ?s) t k =
      Some ((if k' = k then c + 1 else c) + int (length (filter (\<lambda>(u, k'). k' = k) evs)), r)"
    using Cons.IH[OF g _ le(2) Cons.prems(4)] le(1) by blast
  then show ?case by (simp add: hits_def e)
qed (simp add: hits_def)

text \<open>The first hit of a key without open window opens one; up to its end it counts exactly.\<close>

lemma window_count:
  assumes "good s" "open_at s t0 k = None" "sorted_wrt (\<le>) (map fst evs @ [t])" "\<forall>(u, k')\<in>set evs. t0 \<le> u"
    and "t0 \<le> t" "t \<le> t0 + window s"
  shows "open_at (hits hit evs (hit t0 k s)) t k =
    Some (1 + int (length (filter (\<lambda>(u, k'). k' = k) evs)), t0 + window s)"
proof (rule hits_open[OF good_hit[OF assms(1)] assms(3,4,6) _ assms(5)])
  show "\<forall>u. t0 \<le> u \<and> u \<le> t0 + window s \<longrightarrow> open_at (hit t0 k s) u k = Some (1, t0 + window s)"
    using hit_self[OF assms(1), of t0 _ k] assms(2) by auto
qed

end

subsection \<open>The login throttle\<close>

record attempt_record =
  ar_count :: int
  ar_reset_at :: time

record login_throttle =
  lt_records :: "(string \<times> attempt_record) list"
  lt_max_attempts :: int
  lt_window :: duration
  lt_last_sweep :: time

definition default_max_attempts :: int where "default_max_attempts = 10"
definition default_lock_window :: duration where "default_lock_window = 60 * 1000000000"

definition new_throttle :: "time \<Rightarrow> login_throttle" where
  "new_throttle now = \<lparr>lt_records = [], lt_max_attempts = default_max_attempts,
     lt_window = default_lock_window, lt_last_sweep = now\<rparr>"

definition set_login_throttle :: "int \<Rightarrow> duration \<Rightarrow> login_throttle \<Rightarrow> login_throttle" where
  "set_login_throttle max_attempts window t =
     (let t1 = (if max_attempts > 0 then t\<lparr>lt_max_attempts := max_attempts\<rparr> else t)
      in if window > 0 then t1\<lparr>lt_window := window\<rparr> else t1)"

definition sweep_locked :: "time \<Rightarrow> login_throttle \<Rightarrow> login_throttle" where
  "sweep_locked now t =
     (if now - lt_last_sweep t < lt_window t then t
      else t\<lparr>lt_records := filter (\<lambda>(k, r). \<not> now > ar_reset_at r) (lt_records t), lt_last_sweep := now\<rparr>)"

definition throttle_blocked :: "time \<Rightarrow> string \<Rightarrow> login_throttle \<Rightarrow> bool \<times> login_throttle" where
  "throttle_blocked now key t0 =
     (let t = sweep_locked now t0 in
      case map_of (lt_records t) key of
        None \<Rightarrow> (False, t)
      | Some r \<Rightarrow> (if now > ar_reset_at r then False else ar_count r \<ge> lt_max_attempts t, t))"

definition throttle_fail :: "time \<Rightarrow> string \<Rightarrow> login_throttle \<Rightarrow> login_throttle" where
  "throttle_fail now key t =
     (let fresh = t\<lparr>lt_records := AList.update key \<lparr>ar_count = 1, ar_reset_at = now + lt_window t\<rparr> (lt_records t)\<rparr> in
      case map_of (lt_records t) key of
        None \<Rightarrow> fresh
      | Some r \<Rightarrow>
          if now > ar_reset_at r then fresh
          else t\<lparr>lt_records := AList.update key (r\<lparr>ar_count := ar_count r + 1\<rparr>) (lt_records t)\<rparr>)"

definition throttle_reset :: "string \<Rightarrow> login_throttle \<Rightarrow> login_throttle" where
  "throttle_reset key t = t\<lparr>lt_records := AList.delete key (lt_records t)\<rparr>"

definition throttle_open :: "login_throttle \<Rightarrow> time \<Rightarrow> string \<Rightarrow> (int \<times> time) option" where
  "throttle_open t now key =
     (case map_of (lt_records t) key of
        None \<Rightarrow> None
      | Some r \<Rightarrow> if now > ar_reset_at r then None else Some (ar_count r, ar_reset_at r))"

definition throttle_good :: "login_throttle \<Rightarrow> bool" where
  "throttle_good t \<longleftrightarrow> distinct (map fst (lt_records t)) \<and> 0 < lt_window t"

interpretation login: window_counter throttle_fail throttle_open throttle_good lt_window
proof
  fix s :: login_throttle and t t' :: time and k k' :: string
  show "lt_window (throttle_fail t k s) = lt_window s"
    by (simp add: throttle_fail_def Let_def split: option.split)
  assume g: "throttle_good s"
  show "throttle_good (throttle_fail t k s)"
    using g by (simp add: throttle_good_def throttle_fail_def Let_def AList.distinct_update split: option.split)
  assume le: "t \<le> t'"
  show "throttle_open (throttle_fail t k s) t' k =
      (case throttle_open s t k of
         Some (c, r) \<Rightarrow> if t' > r then None else Some (c + 1, r)
       | None \<Rightarrow> if t' > t + lt_window s then None else Some (1, t + lt_window s))"
    by (simp add: throttle_open_def throttle_fail_def Let_def split: option.split)
  assume "k' \<noteq> k"
  then show "throttle_open (throttle_fail t k s) t' k' = throttle_open s t' k'"
    by (cases "map_of (lt_records s) k") (simp_all add: throttle_open_def throttle_fail_def Let_def)
qed

lemma sweep_open:
  assumes "throttle_good t" "now \<le> t'" shows "throttle_open (sweep_locked now t) t' k = throttle_open t t' k"
  using assms
  by (auto simp: throttle_open_def sweep_locked_def throttle_good_def map_of_filter_key split: option.split)

lemma sweep_frame [simp]: "lt_max_attempts (sweep_locked now t) = lt_max_attempts t"
  "lt_window (sweep_locked now t) = lt_window t"
  by (simp_all add: sweep_locked_def)

lemma blocked_open:
  assumes "throttle_good t"
  shows "fst (throttle_blocked now key t) = (case throttle_open t now key of None \<Rightarrow> False | Some (c, r) \<Rightarrow> c \<ge> lt_max_attempts t)"
  using sweep_open[OF assms order_refl, of now key]
  by (auto simp: throttle_blocked_def throttle_open_def Let_def split: option.splits if_splits)

lemma fail_max [simp]: "lt_max_attempts (throttle_fail now key t) = lt_max_attempts t"
  by (simp add: throttle_fail_def Let_def split: option.split)

lemma hits_fail_frame: "lt_max_attempts (hits throttle_fail evs t) = lt_max_attempts t \<and>
   (throttle_good t \<longrightarrow> throttle_good (hits throttle_fail evs t))"
  by (induction evs arbitrary: t) (auto simp: hits_def login.good_hit)

text \<open>
  From the first failed attempt of an account and address on, and until its window has passed,
  the login is blocked exactly when the failures recorded for that key have reached the maximum,
  whatever other keys do in between; and asking whether a key is blocked never changes an answer.
\<close>

theorem login_throttle_exact:
  assumes "throttle_good t" and "throttle_open t t0 key = None"
    and "sorted_wrt (\<le>) (map fst evs @ [now])" and "\<forall>(u, k')\<in>set evs. t0 \<le> u"
    and "t0 \<le> now" and "now \<le> t0 + lt_window t"
  shows "(fst (throttle_blocked now key (hits throttle_fail evs (throttle_fail t0 key t))) \<longleftrightarrow>
      1 + int (length (filter (\<lambda>(u, k'). k' = key) evs)) \<ge> lt_max_attempts t) \<and>
    (\<forall>other k2 later. now \<le> later \<longrightarrow>
      fst (throttle_blocked later k2 (snd (throttle_blocked now other (hits throttle_fail evs (throttle_fail t0 key t))))) =
      fst (throttle_blocked later k2 (hits throttle_fail evs (throttle_fail t0 key t))))"
proof -
  let ?t = "hits throttle_fail evs (throttle_fail t0 key t)"
  have g: "throttle_good ?t" using hits_fail_frame login.good_hit[OF assms(1)] by blast
  have m: "lt_max_attempts ?t = lt_max_attempts t" using hits_fail_frame[of evs "throttle_fail t0 key t"] by simp
  note c = login.window_count[OF assms(1,2,3,4,5,6)]
  have sw: "snd (throttle_blocked now other ?t) = sweep_locked now ?t" for other
    by (simp add: throttle_blocked_def Let_def split: option.split)
  have gs: "throttle_good (sweep_locked now ?t)"
    using g by (auto simp: throttle_good_def sweep_locked_def distinct_map_fst_filter)
  have "fst (throttle_blocked later k2 (sweep_locked now ?t)) = fst (throttle_blocked later k2 ?t)"
    if "now \<le> later" for later k2
    unfolding blocked_open[OF gs] blocked_open[OF g] sweep_open[OF g that] sweep_frame ..
  with c m show ?thesis by (simp add: blocked_open[OF g] sw)
qed

theorem login_throttle_exact_witness:
  "fst (throttle_blocked 30 ''ana|1.2.3.4'' (hits throttle_fail [(10, ''ana|1.2.3.4''), (20, ''bob|1.2.3.4'')]
     (throttle_fail 5 ''ana|1.2.3.4'' (set_login_throttle 2 100 (new_throttle 0)))))"
proof -
  let ?t = "set_login_throttle 2 100 (new_throttle 0)"
  have g: "throttle_good ?t" "throttle_open ?t 5 ''ana|1.2.3.4'' = None" "lt_window ?t = 100" "lt_max_attempts ?t = 2"
    by (simp_all add: throttle_good_def throttle_open_def set_login_throttle_def new_throttle_def)
  have s: "sorted_wrt (\<le>) (map fst [(10, ''ana|1.2.3.4''), (20, ''bob|1.2.3.4'')] @ [30 :: time])"
    "\<forall>(u, k')\<in>set [(10, ''ana|1.2.3.4''), (20 :: time, ''bob|1.2.3.4'')]. 5 \<le> u" by simp_all
  have "5 \<le> (30 :: time)" "30 \<le> 5 + lt_window ?t" by (simp_all add: g)
  from login_throttle_exact[OF g(1,2) s this] show ?thesis by (simp add: g)
qed

subsection \<open>The client's address\<close>

text \<open>\<open>net.SplitHostPort\<close> of the standard library: the host, or \<open>None\<close> for any of its errors.\<close>

definition index_chr :: "char \<Rightarrow> string \<Rightarrow> nat option" where
  "index_chr c s = (let p = takeWhile (\<lambda>x. x \<noteq> c) s in if length p = length s then None else Some (length p))"

definition last_index_chr :: "char \<Rightarrow> string \<Rightarrow> nat option" where
  "last_index_chr c s = (case index_chr c (rev s) of None \<Rightarrow> None | Some n \<Rightarrow> Some (length s - 1 - n))"

definition split_host_port :: "string \<Rightarrow> (string \<times> string) option" where
  "split_host_port hp =
     (case last_index_chr CHR '':'' hp of
        None \<Rightarrow> None
      | Some i \<Rightarrow>
          if hp ! 0 = CHR ''['' then
            (case index_chr CHR '']'' hp of
               None \<Rightarrow> None
             | Some e \<Rightarrow>
                 if e + 1 \<noteq> i then None
                 else if CHR ''['' \<in> set (drop 1 hp) \<or> CHR '']'' \<in> set (drop (e + 1) hp) then None
                 else Some (take (e - 1) (drop 1 hp), drop (i + 1) hp))
          else if CHR '':'' \<in> set (take i hp) then None
          else if CHR ''['' \<in> set hp \<or> CHR '']'' \<in> set hp then None
          else Some (take i hp, drop (i + 1) hp))"

definition is_bracket :: "char \<Rightarrow> bool" where
  "is_bracket c \<longleftrightarrow> c = CHR ''['' \<or> c = CHR '']''"

definition client_ip :: "string \<Rightarrow> string" where
  "client_ip remote_addr =
     (case split_host_port remote_addr of Some (h, _) \<Rightarrow> h | None \<Rightarrow> trim_by is_bracket remote_addr)"

text \<open>\<open>realIP\<close>; \<open>hdr\<close> is \<open>r.Header.Get\<close> and \<open>trusted\<close> the configured proxy header (empty: none).\<close>

definition real_ip :: "string \<Rightarrow> (string \<Rightarrow> string) \<Rightarrow> string \<Rightarrow> string" where
  "real_ip trusted hdr remote_addr =
     (if trusted \<noteq> [] \<and> hdr trusted \<noteq> [] then
        (let v = takeWhile (\<lambda>c. c \<noteq> CHR '','') (hdr trusted); ip = trim_space v
         in if ip \<noteq> [] then ip else client_ip remote_addr)
      else client_ip remote_addr)"

definition is_localhost :: "string \<Rightarrow> bool" where
  "is_localhost remote_addr \<longleftrightarrow> client_ip remote_addr = ''127.0.0.1'' \<or> client_ip remote_addr = ''::1''"

lemma index_chr_append: "c \<notin> set a \<Longrightarrow> index_chr c (a @ c # b) = Some (length a)"
  by (simp add: index_chr_def takeWhile_sep)

lemma last_index_append: "c \<notin> set b \<Longrightarrow> last_index_chr c (a @ c # b) = Some (length a)"
  using index_chr_append[of c "rev b" "rev a"] by (simp add: last_index_chr_def)

lemma split_plain:
  assumes "h \<noteq> []" "set h \<inter> set '':[]'' = {}" "set p \<inter> set '':[]'' = {}"
  shows "split_host_port (h @ CHR '':'' # p) = Some (h, p)"
proof -
  have "last_index_chr CHR '':'' (h @ CHR '':'' # p) = Some (length h)" using assms by (intro last_index_append) auto
  moreover have "(h @ CHR '':'' # p) ! 0 \<noteq> CHR ''[''" using assms by (cases h) auto
  ultimately show ?thesis using assms by (simp add: split_host_port_def)
qed

lemma split_bracketed:
  assumes "set h \<inter> set ''[]'' = {}" "set p \<inter> set '':[]'' = {}"
  shows "split_host_port (''['' @ h @ '']:'' @ p) = Some (h, p)"
proof -
  let ?s = "''['' @ h @ '']:'' @ p"
  have l: "last_index_chr CHR '':'' ?s = Some (length h + 2)"
    using last_index_append[of "CHR '':''" p "''['' @ h @ '']''"] assms by simp
  have i: "index_chr CHR '']'' ?s = Some (length h + 1)"
    using index_chr_append[of "CHR '']''" "''['' @ h" "'':'' @ p"] assms by auto
  show ?thesis using assms by (simp add: split_host_port_def l[simplified] i[simplified])
qed

text \<open>
  The address the limits and the internal endpoints go by is the peer's own: for a peer \<open>host:port\<close>
  or \<open>[v6]:port\<close> it is the host without port and brackets, whatever headers the request carries
  when no trusted proxy is configured; so \<open>LocalhostOnly\<close> admits exactly the two loopback hosts.
\<close>

theorem peer_address_correct:
  assumes "set host \<inter> set ''[]'' = {}" and "host \<noteq> []" and "set port \<inter> set '':[]'' = {}"
    and "addr = (if CHR '':'' \<in> set host then ''['' @ host @ '']:'' @ port else host @ '':'' @ port)"
  shows "real_ip [] hdr addr = host \<and> (is_localhost addr \<longleftrightarrow> host \<in> {''127.0.0.1'', ''::1''})"
proof -
  have "split_host_port addr = Some (host, port)"
    using assms split_plain[of host port] split_bracketed[of host port] by auto
  then have "client_ip addr = host" by (simp add: client_ip_def)
  then show ?thesis by (simp add: real_ip_def is_localhost_def)
qed

theorem peer_address_correct_witness:
  "real_ip [] (\<lambda>_. ''127.0.0.1'') ''[fe80::1]:4711'' = ''fe80::1'' \<and> \<not> is_localhost ''[fe80::1]:4711''"
proof -
  have h: "set ''fe80::1'' \<inter> set ''[]'' = {}" "''fe80::1'' \<noteq> []" "set ''4711'' \<inter> set '':[]'' = {}"
    "''[fe80::1]:4711'' =
     (if CHR '':'' \<in> set ''fe80::1'' then ''['' @ ''fe80::1'' @ '']:'' @ ''4711'' else ''fe80::1'' @ '':'' @ ''4711'')"
    by simp_all
  from peer_address_correct[OF h, of "\<lambda>_. ''127.0.0.1''"] show ?thesis by simp
qed

subsection \<open>The rate limit\<close>

record rl_entry =
  rl_count :: int
  rl_reset :: time

record rate_limit =
  rl_entries :: "(string \<times> rl_entry) list"
  rl_last_sweep :: time
  rl_max :: int
  rl_window :: duration

definition rate_limit_new :: "int \<Rightarrow> duration \<Rightarrow> time \<Rightarrow> rate_limit" where
  "rate_limit_new mx window now = \<lparr>rl_entries = [], rl_last_sweep = now, rl_max = mx, rl_window = window\<rparr>"

text \<open>
  One request of address \<open>ip\<close>: the \<open>Retry-After\<close> value if it is refused, and the new state. \<open>now\<close>
  is the reading the window is judged by, \<open>now2\<close> the later one of \<open>time.Until\<close>.
\<close>

definition rl_sweep :: "time \<Rightarrow> rate_limit \<Rightarrow> rate_limit" where
  "rl_sweep now st =
     (if now - rl_last_sweep st > rl_window st
      then st\<lparr>rl_entries := filter (\<lambda>(k, e). \<not> now > rl_reset e) (rl_entries st), rl_last_sweep := now\<rparr>
      else st)"

definition rl_entry_of :: "time \<Rightarrow> string \<Rightarrow> rate_limit \<Rightarrow> rl_entry" where
  "rl_entry_of now ip st =
     (case map_of (rl_entries st) ip of
        None \<Rightarrow> \<lparr>rl_count = 0, rl_reset = now + rl_window st\<rparr>
      | Some e \<Rightarrow> if now > rl_reset e then \<lparr>rl_count = 0, rl_reset = now + rl_window st\<rparr> else e)"

definition rate_request :: "time \<Rightarrow> time \<Rightarrow> string \<Rightarrow> rate_limit \<Rightarrow> int option \<times> rate_limit" where
  "rate_request now now2 ip st0 =
     (let st = rl_sweep now st0;
          e0 = rl_entry_of now ip st;
          e = e0\<lparr>rl_count := rl_count e0 + 1\<rparr>;
          retry_after = go_div (rl_reset e - now2) 1000000000 + 1
      in (if rl_count e > rl_max st then Some retry_after else None,
          st\<lparr>rl_entries := AList.update ip e (rl_entries st)\<rparr>))"

definition rate_hit :: "time \<Rightarrow> string \<Rightarrow> rate_limit \<Rightarrow> rate_limit" where
  "rate_hit now ip st = snd (rate_request now now ip st)"

definition rate_open :: "rate_limit \<Rightarrow> time \<Rightarrow> string \<Rightarrow> (int \<times> time) option" where
  "rate_open st now ip =
     (case map_of (rl_entries st) ip of
        None \<Rightarrow> None
      | Some e \<Rightarrow> if now > rl_reset e then None else Some (rl_count e, rl_reset e))"

definition rate_good :: "rate_limit \<Rightarrow> bool" where
  "rate_good st \<longleftrightarrow> distinct (map fst (rl_entries st))"

lemma rl_sweep_frame [simp]: "rl_window (rl_sweep now st) = rl_window st" "rl_max (rl_sweep now st) = rl_max st"
  by (simp_all add: rl_sweep_def)

lemma rl_sweep_lookup: "rate_good st \<Longrightarrow> map_of (rl_entries (rl_sweep now st)) k =
   (case map_of (rl_entries st) k of None \<Rightarrow> None
    | Some e \<Rightarrow> if now - rl_last_sweep st > rl_window st \<and> now > rl_reset e then None else Some e)"
  by (auto simp: rl_sweep_def rate_good_def map_of_filter_key split: option.split)

lemma rate_hit_state: "rate_hit now ip st =
  (let s = rl_sweep now st; e = rl_entry_of now ip s
   in s\<lparr>rl_entries := AList.update ip (e\<lparr>rl_count := rl_count e + 1\<rparr>) (rl_entries s)\<rparr>)"
  by (simp add: rate_hit_def rate_request_def Let_def)

lemma rl_entry_swept: "rate_good st \<Longrightarrow> rl_entry_of now ip (rl_sweep now st) =
  (case rate_open st now ip of None \<Rightarrow> \<lparr>rl_count = 0, rl_reset = now + rl_window st\<rparr> | Some (c, r) \<Rightarrow> \<lparr>rl_count = c, rl_reset = r\<rparr>)"
  by (auto simp: rl_entry_of_def rl_sweep_lookup rate_open_def split: option.split)

interpretation rate: window_counter rate_hit rate_open rate_good rl_window
proof
  fix s :: rate_limit and t t' :: time and k k' :: string
  show "rl_window (rate_hit t k s) = rl_window s" by (simp add: rate_hit_state Let_def)
  assume g: "rate_good s"
  then show "rate_good (rate_hit t k s)"
    by (auto simp: rate_hit_state Let_def rate_good_def rl_sweep_def AList.distinct_update distinct_map_fst_filter)
  assume le: "t \<le> t'"
  show "rate_open (rate_hit t k s) t' k =
      (case rate_open s t k of
         Some (c, r) \<Rightarrow> if t' > r then None else Some (c + 1, r)
       | None \<Rightarrow> if t' > t + rl_window s then None else Some (1, t + rl_window s))"
    by (cases "rate_open s t k") (auto simp: rate_hit_state Let_def rl_entry_swept[OF g], auto simp: rate_open_def)
  assume "k' \<noteq> k"
  with le show "rate_open (rate_hit t k s) t' k' = rate_open s t' k'"
    by (cases "map_of (rl_entries s) k'") (auto simp: rate_hit_state Let_def rate_open_def rl_sweep_lookup[OF g])
qed

lemma rate_max_hits: "rl_max (hits rate_hit evs st) = rl_max st \<and> rl_window (hits rate_hit evs st) = rl_window st \<and>
   (rate_good st \<longrightarrow> rate_good (hits rate_hit evs st))"
proof (induction evs arbitrary: st)
  case (Cons e evs)
  obtain t k where "e = (t, k)" by (cases e)
  moreover have "rl_max (rate_hit t k st) = rl_max st" by (simp add: rate_hit_state Let_def)
  ultimately show ?case
    using Cons[of "rate_hit t k st"] rate.good_hit[of st t k] rate.window_hit[of t k st] by (simp add: hits_def)
qed (simp add: hits_def)

lemma whole_seconds: "(x :: int) < (x div 1000000000 + 1) * 1000000000 \<and> x div 1000000000 * 1000000000 \<le> x"
  by presburger

text \<open>
  C21: Within one window an address gets exactly \<open>max\<close> requests through, whatever other addresses
  do: the next request is refused exactly when \<open>max\<close> were counted, and a refused client that waits
  the \<open>Retry-After\<close> seconds it is told finds the window over, no more than a second late.
\<close>

theorem rate_limit_exact:
  assumes "rate_good st" and "rate_open st t0 ip = None"
    and "sorted_wrt (\<le>) (map fst evs @ [now])" and "\<forall>(u, k')\<in>set evs. t0 \<le> u"
    and "t0 \<le> now" and "now \<le> now2" and "now2 \<le> t0 + rl_window st"
    and "n = 1 + int (length (filter (\<lambda>(u, k'). k' = ip) evs))"
  shows "case fst (rate_request now now2 ip (hits rate_hit evs (rate_hit t0 ip st))) of
      None \<Rightarrow> n < rl_max st
    | Some retry \<Rightarrow> rl_max st \<le> n \<and> 0 < retry \<and>
        t0 + rl_window st < now2 + retry * 1000000000 \<and> now2 + retry * 1000000000 \<le> t0 + rl_window st + 1000000000"
proof -
  let ?s = "hits rate_hit evs (rate_hit t0 ip st)"
  have le: "now \<le> t0 + rl_window st" using assms(6,7) by simp
  have g: "rate_good ?s" using rate_max_hits rate.good_hit[OF assms(1)] by blast
  have m: "rl_max ?s = rl_max st"
    using rate_max_hits[of evs "rate_hit t0 ip st"] by (simp add: rate_hit_state Let_def)
  have o: "rate_open ?s now ip = Some (n, t0 + rl_window st)"
    using rate.window_count[OF assms(1-5) le] assms(8) by simp
  let ?d = "(t0 + rl_window st - now2) div 1000000000"
  have d: "go_div (t0 + rl_window st - now2) 1000000000 = ?d" using assms(7) by (intro go_div_nonneg) auto
  have b: "0 \<le> ?d" using assms(7) by (intro pos_imp_zdiv_nonneg_iff[THEN iffD2]) auto
  have e: "t0 + rl_window st < now2 + (?d + 1) * 1000000000" "now2 + (?d + 1) * 1000000000 \<le> t0 + rl_window st + 1000000000"
    using whole_seconds[of "t0 + rl_window st - now2"] by simp_all
  show ?thesis using b e by (simp add: rate_request_def Let_def rl_entry_swept[OF g] o m d)
qed

theorem rate_limit_exact_witness:
  "fst (rate_request 30 30 ''1.2.3.4'' (hits rate_hit [(10, ''1.2.3.4''), (20, ''9.9.9.9'')]
     (rate_hit 5 ''1.2.3.4'' (rate_limit_new 2 60000000000 0)))) = Some 60"
proof -
  let ?st = "rate_limit_new 2 60000000000 0"
  let ?r = "fst (rate_request 30 30 ''1.2.3.4'' (hits rate_hit [(10, ''1.2.3.4''), (20, ''9.9.9.9'')] (rate_hit 5 ''1.2.3.4'' ?st)))"
  have g: "rate_good ?st" "rate_open ?st 5 ''1.2.3.4'' = None" "rl_window ?st = 60000000000" "rl_max ?st = 2"
    by (simp_all add: rate_good_def rate_open_def rate_limit_new_def)
  have s: "sorted_wrt (\<le>) (map fst [(10, ''1.2.3.4''), (20, ''9.9.9.9'')] @ [30 :: time])"
    "\<forall>(u, k')\<in>set [(10, ''1.2.3.4''), (20 :: time, ''9.9.9.9'')]. 5 \<le> u" by simp_all
  have t: "5 \<le> (30 :: time)" "(30 :: time) \<le> 30" "30 \<le> 5 + rl_window ?st"
    "2 = 1 + int (length (filter (\<lambda>(u, k'). k' = ''1.2.3.4'') [(10 :: time, ''1.2.3.4''), (20, ''9.9.9.9'')]))"
    by (simp_all add: g)
  from rate_limit_exact[OF g(1,2) s t] show ?thesis
    by (cases ?r) (simp_all add: g)
qed

end
