(* ===== verification/Login.thy ===== *)
theory Login
  imports Crypton OrmModel Sessions Throttle "HOL-Library.Word"
begin

unbundle bit_operations_syntax

text \<open>
  Logging in (\<open>core/security/auth/login.go\<close>, \<open>user.go\<close>, \<open>ensure_superuser.go\<close>): the handler that
  combines the login throttle, the user lookup, the password check and the session store. The
  user table is outside: \<open>find_user\<close> is the answer of the query \<open>Where(loginColumn = ?).First()\<close> and
  \<open>find_id\<close> that of \<open>Where(id = ?).First()\<close>, \<open>None\<close> for any error. Password hashing is that of
  the theory \<open>Crypton\<close>. The discarded check of \<open>equalizeTiming\<close> changes nothing a caller can see.
\<close>

declare map_of_eq_Some_iff [simp del] AList.update_conv' [simp]

subsection \<open>Users\<close>

record user =
  us_id :: int
  us_uuid :: string
  us_first_name :: string
  us_last_name :: string
  us_username :: string
  us_email :: "string option"
  us_password :: string
  us_group :: string
  us_is_admin :: bool
  us_is_staff :: bool
  us_is_active :: bool
  us_created_at :: time
  us_updated_at :: time

definition user_set_password :: "argon_fn \<Rightarrow> string \<Rightarrow> string option \<Rightarrow> string \<Rightarrow> user \<Rightarrow> user option option" where
  "user_set_password argon pepper rnd plain u =
     map_option (map_option (\<lambda>h. u\<lparr>us_password := h\<rparr>)) (hash_password argon pepper rnd plain)"

definition user_check_password :: "argon_fn \<Rightarrow> string \<Rightarrow> string \<Rightarrow> user \<Rightarrow> bool option" where
  "user_check_password argon pepper plain u = check_password argon pepper plain (us_password u)"

definition full_name :: "user \<Rightarrow> string" where
  "full_name u =
     (if us_first_name u = [] then us_last_name u
      else if us_last_name u = [] then us_first_name u
      else us_first_name u @ '' '' @ us_last_name u)"

text \<open>The struct tags of \<open>User\<close>, as \<open>reflect\<close> reads them.\<close>

definition user_fields :: "(string \<times> string) list" where
  "user_fields =
     [(''ID'', ''column:id,pk''), (''UUID'', ''column:uuid,size:36''), (''FirstName'', ''column:first_name,size:150''),
      (''LastName'', ''column:last_name,size:150''), (''Username'', ''column:username,size:150,unique,login''),
      (''Email'', ''column:email,size:254,unique''), (''Password'', ''column:password,size:128,hash''),
      (''Group'', ''column:user_group,size:100''), (''IsAdmin'', ''column:is_admin''), (''IsStaff'', ''column:is_staff''),
      (''IsActive'', ''column:is_active,default:true''), (''CreatedAt'', ''column:created_at''),
      (''UpdatedAt'', ''column:updated_at'')]"

subsection \<open>The login column\<close>

text \<open>\<open>authToSnake\<close>: the index loop over the runes.\<close>

definition auth_to_snake :: "string \<Rightarrow> string" where
  "auth_to_snake s =
     concat (map (\<lambda>i. let r = s ! i in
        if is_upper r
        then (if i > 0 \<and> (\<not> is_upper (s ! (i - 1)) \<or> (i + 1 < length s \<and> is_lower (s ! (i + 1)))) then ''_'' else [])
             @ [to_lower_c r]
        else [r]) [0..<length s])"

fun detect_login_field_name :: "(string \<times> string) list \<Rightarrow> string" where
  "detect_login_field_name [] = ''Username''"
| "detect_login_field_name ((name, tag) # fs) =
     (if \<exists>p\<in>set (split_chr (CHR '','') tag). trim_space p = ''login'' then name else detect_login_field_name fs)"

definition login_part :: "string \<Rightarrow> bool \<times> string \<Rightarrow> bool \<times> string" where
  "login_part p0 acc =
     (let p = trim_space p0; is_login = (fst acc \<or> p = ''login'')
      in (is_login, if has_prefix p ''column:'' then trim_prefix p ''column:'' else snd acc))"

fun detect_login_column :: "(string \<times> string) list \<Rightarrow> string" where
  "detect_login_column [] = ''username''"
| "detect_login_column ((name, tag) # fs) =
     (case fold login_part (split_chr (CHR '','') tag) (False, auth_to_snake name) of
        (is_login, col) \<Rightarrow> if is_login then col else detect_login_column fs)"

lemma snake_go_index: "snake_go p s =
  concat (map (\<lambda>i. let r = s ! i in
     if is_upper r
     then (if (case (if i = 0 then p else Some (s ! (i - 1))) of None \<Rightarrow> False
               | Some q \<Rightarrow> \<not> is_upper q \<or> (i + 1 < length s \<and> is_lower (s ! (i + 1)))) then ''_'' else [])
          @ [to_lower_c r]
     else [r]) [0..<length s])"
proof (induction s arbitrary: p)
  case (Cons r rs)
  have u: "[0..<length (r # rs)] = 0 # map Suc [0..<length rs]" by (simp add: map_Suc_upt upt_rec[of 0 "Suc (length rs)"] del: upt_Suc)
  have n: "rs \<noteq> [] \<Longrightarrow> hd rs = rs ! 0" by (simp add: hd_conv_nth)
  have e: "(if Suc i = 0 then p else Some ((r # rs) ! (Suc i - 1))) = (if i = 0 then Some r else Some (rs ! (i - 1)))" for i
    by (cases i) simp_all
  have c: "concat (map (\<lambda>i. let x = (r # rs) ! i in
     if is_upper x
     then (if (case (if i = 0 then p else Some ((r # rs) ! (i - 1))) of None \<Rightarrow> False
               | Some q \<Rightarrow> \<not> is_upper q \<or> (i + 1 < length (r # rs) \<and> is_lower ((r # rs) ! (i + 1)))) then ''_'' else [])
          @ [to_lower_c x]
     else [x]) (map Suc [0..<length rs])) = snake_go (Some r) rs"
    unfolding Cons.IH[of "Some r"] map_map o_def e by (simp add: Let_def cong: if_cong option.case_cong)
  show ?case unfolding u list.map concat.simps c using n by (cases p) (auto simp: Let_def)
qed simp

lemma auth_to_snake_eq: "auth_to_snake s = to_snake s"
  unfolding to_snake_def snake_go_index auth_to_snake_def
  by (rule arg_cong[where f = concat], rule map_cong) (auto simp: Let_def)

lemma column_of_tags: "f_column (fold apply_tag ps f) =
  fold (\<lambda>p col. if has_prefix p ''column:'' then trim_prefix p ''column:'' else col) ps (f_column f)"
proof (induction ps arbitrary: f)
  case (Cons p ps)
  have "f_column (apply_tag p f) = (if has_prefix p ''column:'' then trim_prefix p ''column:'' else f_column f)"
    by (auto simp: apply_tag_def)
  with Cons show ?case by simp
qed simp

lemma fold_login_part: "fold login_part ps acc =
  (fst acc \<or> (\<exists>p\<in>set ps. trim_space p = ''login''),
   fold (\<lambda>p col. if has_prefix p ''column:'' then trim_prefix p ''column:'' else col) (map trim_space ps) (snd acc))"
  by (induction ps arbitrary: acc) (auto simp: login_part_def Let_def)

text \<open>
  The login query names a column that exists: for every model with a field tagged \<open>login\<close>, the
  column \<open>detectLoginColumn\<close> derives from the tags with its own copy of the snake-case rule is the
  column the ORM derives for the same field, and the field is the one \<open>detectLoginFieldName\<close> finds.
\<close>

theorem login_column_matches_schema:
  assumes "fs = before @ (gf_name sf, gf_tag sf) # after" and "''login'' \<in> set (tag_parts (gf_tag sf))"
    and "\<forall>(n, t)\<in>set before. ''login'' \<notin> set (tag_parts t)"
  shows "detect_login_column fs = f_column (parse_field i sf) \<and> detect_login_field_name fs = gf_name sf"
proof -
  have parts: "''login'' \<in> set (tag_parts t) \<longleftrightarrow> (\<exists>p\<in>set (split_chr (CHR '','') t). trim_space p = ''login'')" for t
    unfolding tag_parts_def set_map image_iff by metis
  have skip: "\<forall>(n, t)\<in>set before. ''login'' \<notin> set (tag_parts t) \<Longrightarrow>
      detect_login_column (before @ rest) = detect_login_column rest \<and>
      detect_login_field_name (before @ rest) = detect_login_field_name rest" for before rest
  proof (induction before)
    case (Cons f before)
    obtain n t where f: "f = (n, t)" by (cases f)
    with Cons.prems have "\<not> (\<exists>p\<in>set (split_chr (CHR '','') t). trim_space p = ''login'')" by (simp add: parts[symmetric])
    with f Cons show ?case by (simp add: fold_login_part)
  qed simp
  have col: "f_column (parse_field i sf) = fold (\<lambda>p col. if has_prefix p ''column:'' then trim_prefix p ''column:'' else col)
      (tag_parts (gf_tag sf)) (to_snake (gf_name sf))"
    by (simp add: parse_field_def Let_def column_of_tags new_field_def)
  show ?thesis
    using skip[OF assms(3), of "(gf_name sf, gf_tag sf) # after"] assms(2) unfolding assms(1) col parts
    by (simp add: fold_login_part auth_to_snake_eq tag_parts_def)
qed

theorem login_column_matches_schema_witness:
  "detect_login_column user_fields = ''username'' \<and> detect_login_field_name user_fields = ''Username''"
proof -
  let ?sf = "\<lparr>gf_name = ''Username'', gf_exported = True, gf_type = TString, gf_tag = ''column:username,size:150,unique,login''\<rparr>"
  have f: "user_fields = take 4 user_fields @ (gf_name ?sf, gf_tag ?sf) # drop 5 user_fields" by (simp add: user_fields_def)
  have l: "''login'' \<in> set (tag_parts (gf_tag ?sf))" by code_simp
  have n: "\<forall>(n, t)\<in>set (take 4 user_fields). ''login'' \<notin> set (tag_parts t)" by code_simp
  have "f_column (parse_field 4 ?sf) = ''username''" by code_simp
  with login_column_matches_schema[OF f l n, of 4] show ?thesis by simp
qed

subsection \<open>The login handler\<close>

datatype login_error =
    AuthDisabled | TooManyAttempts | UserNotFound | InactiveUser | WrongPassword | NoSession session_error

text \<open>\<open>LoginPanic\<close>: the Argon2 library panics on a stored hash with parameters 0.\<close>

datatype login_result = LoggedIn "goval session" cookie | LoginFailed login_error | LoginPanic

record login_request =
  lr_cookies :: "(string \<times> string) list"
  lr_remote_addr :: string
  lr_tls :: bool

definition throttle_key :: "string \<Rightarrow> login_request \<Rightarrow> string" where
  "throttle_key value r = value @ ''|'' @ client_ip (lr_remote_addr r)"

text \<open>\<open>now\<close> is the clock at the throttle check, \<open>now2\<close> after the password check.\<close>

definition login ::
  "bool \<Rightarrow> bool \<Rightarrow> (string \<Rightarrow> user option) \<Rightarrow> (string \<Rightarrow> user \<Rightarrow> bool option) \<Rightarrow> time \<Rightarrow> time \<Rightarrow> string option \<Rightarrow>
   login_request \<Rightarrow> string \<Rightarrow> string \<Rightarrow> login_throttle \<Rightarrow> goval store \<Rightarrow> login_result \<times> login_throttle \<times> goval store"
where
  "login enabled secure find_user check now now2 rnd r login_value password th st =
     (if \<not> enabled then (LoginFailed AuthDisabled, th, st)
      else
        (let key = throttle_key login_value r; (blocked, th1) = throttle_blocked now key th
         in if blocked then (LoginFailed TooManyAttempts, th1, st)
            else
              (case find_user login_value of
                 None \<Rightarrow> (LoginFailed UserNotFound, throttle_fail now2 key th1, st)
               | Some u \<Rightarrow>
                   (case check password u of
                      None \<Rightarrow> (LoginPanic, th1, st)
                    | Some ok \<Rightarrow>
                        if \<not> us_is_active u then (LoginFailed InactiveUser, throttle_fail now2 key th1, st)
                        else if \<not> ok then (LoginFailed WrongPassword, throttle_fail now2 key th1, st)
                        else
                          (let th2 = throttle_reset key th1;
                               st1 = (case from_request secure (lr_cookies r) st now2 of
                                        Some old \<Rightarrow> session_delete (ss_id old) st
                                      | None \<Rightarrow> st)
                           in case new_session [] rnd now2 st1 of
                                (Inl e, st2) \<Rightarrow> (LoginFailed (NoSession e), th2, st2)
                              | (Inr sess, st2) \<Rightarrow>
                                  (let fill = (\<lambda>s. value_set ''username'' (GStr (us_username u)) (value_set ''user_id'' (GInt KInt64 (us_id u)) s))
                                   in (LoggedIn (fill sess) (session_cookie secure (ss_id sess) (lr_tls r)), th2,
                                       on_session (ss_id sess) fill st2)))))))"

definition logout_cookie :: "bool \<Rightarrow> cookie" where
  "logout_cookie secure = \<lparr>ck_name = cookie_name secure, ck_value = [], ck_max_age = -1, ck_http_only = True,
     ck_secure = secure, ck_same_site_strict = True, ck_path = ''/''\<rparr>"

definition logout :: "bool \<Rightarrow> (string \<times> string) list \<Rightarrow> time \<Rightarrow> goval store \<Rightarrow> cookie \<times> goval store" where
  "logout secure cookies now st =
     (logout_cookie secure,
      case from_request secure cookies st now of None \<Rightarrow> st | Some s \<Rightarrow> session_delete (ss_id s) st)"

definition get_user ::
  "bool \<Rightarrow> bool \<Rightarrow> (int \<Rightarrow> user option) \<Rightarrow> (string \<times> string) list \<Rightarrow> goval store \<Rightarrow> time \<Rightarrow> login_error + user"
where
  "get_user enabled secure find_id cookies st now =
     (if \<not> enabled then Inl AuthDisabled
      else
        (case from_request secure cookies st now of
           None \<Rightarrow> Inl UserNotFound
         | Some s \<Rightarrow>
             (case value_get ''user_id'' s of
                Some (GInt KInt64 i) \<Rightarrow> (case find_id i of None \<Rightarrow> Inl UserNotFound | Some u \<Rightarrow> Inr u)
              | _ \<Rightarrow> Inl UserNotFound)))"

text \<open>Every outcome of the handler, one fact per branch.\<close>

lemma login_cases:
  assumes "login True secure find_user check now now2 rnd r v pw th st = (res, th', st')"
  obtains (blocked) "fst (throttle_blocked now (throttle_key v r) th)" "res = LoginFailed TooManyAttempts"
      "th' = snd (throttle_blocked now (throttle_key v r) th)" "st' = st"
  | (failed) e where "\<not> fst (throttle_blocked now (throttle_key v r) th)" "res = LoginFailed e" "e \<in> {UserNotFound, InactiveUser, WrongPassword}"
      "th' = throttle_fail now2 (throttle_key v r) (snd (throttle_blocked now (throttle_key v r) th))" "st' = st"
  | (panic) u where "find_user v = Some u" "check pw u = None" "res = LoginPanic" "st' = st"
  | (ok) u st1 where "find_user v = Some u" "check pw u = Some True" "us_is_active u" "\<not> fst (throttle_blocked now (throttle_key v r) th)"
      "th' = throttle_reset (throttle_key v r) (snd (throttle_blocked now (throttle_key v r) th))"
      "st1 = (case from_request secure (lr_cookies r) st now2 of Some old \<Rightarrow> session_delete (ss_id old) st | None \<Rightarrow> st)"
      "(\<exists>e. new_session [] rnd now2 st1 = (Inl e, st') \<and> res = LoginFailed (NoSession e)) \<or>
       (\<exists>sess st2. new_session [] rnd now2 st1 = (Inr sess, st2) \<and>
          (let fill = (\<lambda>s. value_set ''username'' (GStr (us_username u)) (value_set ''user_id'' (GInt KInt64 (us_id u)) s))
           in res = LoggedIn (fill sess) (session_cookie secure (ss_id sess) (lr_tls r)) \<and> st' = on_session (ss_id sess) fill st2))"
proof -
  obtain b th1 where b: "throttle_blocked now (throttle_key v r) th = (b, th1)" by fastforce
  show thesis
  proof (cases "b")
    case True
    with assms b show ?thesis by (intro blocked) (simp_all add: login_def)
  next
    case nb: False
    show ?thesis
    proof (cases "find_user v")
      case None
      with assms b nb show ?thesis by (intro failed[of UserNotFound]) (simp_all add: login_def)
    next
      case (Some u)
      show ?thesis
      proof (cases "check pw u")
        case None
        with assms b nb Some show ?thesis by (intro panic[of u]) (simp_all add: login_def)
      next
        case (Some ok)
        consider "\<not> us_is_active u" | "us_is_active u" "\<not> ok" | "us_is_active u" "ok" by blast
        then show ?thesis
        proof cases
          case 1
          with assms b nb Some \<open>find_user v = Some u\<close> show ?thesis by (intro failed[of InactiveUser]) (simp_all add: login_def)
        next
          case 2
          with assms b nb Some \<open>find_user v = Some u\<close> show ?thesis by (intro failed[of WrongPassword]) (simp_all add: login_def)
        next
          case 3
          let ?st1 = "case from_request secure (lr_cookies r) st now2 of Some old \<Rightarrow> session_delete (ss_id old) st | None \<Rightarrow> st"
          obtain x st2 where n: "new_session [] rnd now2 ?st1 = (x, st2)" by fastforce
          from 3 assms b nb Some \<open>find_user v = Some u\<close> n show ?thesis
            by (intro ok[of u ?st1]) (cases x; simp add: login_def Let_def)+
        qed
      qed
    qed
  qed
qed

lemma new_anonymous:
  assumes "new_session [] rnd now st = (Inr sess, st')"
  obtains b where "rnd = Some b" "sess = \<lparr>ss_id = hex_encode b, ss_user_key = [], ss_values = [], ss_expires = now + st_ttl st\<rparr>"
    "st' = st\<lparr>st_sessions := AList.update (hex_encode b) sess (st_sessions st)\<rparr>"
  using assms that by (auto simp: new_session_def Let_def split: option.splits if_splits)

lemma get_after_delete: "session_get (session_delete i st) t j = (if j = i then None else session_get st t j)"
  by (simp add: session_get_def delete_sessions)

lemma delete_ttl [simp]: "st_ttl (session_delete i st) = st_ttl st"
  by (simp add: session_delete_def remove_from_key_def Let_def split: option.split)

lemma from_request_id:
  assumes "store_inv t st" "from_request secure cookies st now = Some s"
  shows "map_of cookies (cookie_name secure) = Some (ss_id s) \<and> session_get st now (ss_id s) = Some s"
proof -
  obtain i where i: "map_of cookies (cookie_name secure) = Some i" "map_of (st_sessions st) i = Some s"
    "session_get st now i = Some s"
    using assms(2) by (auto simp: from_request_def session_get_def split: option.splits if_splits)
  moreover have "ss_id s = i" using assms(1) i(2) by (simp add: store_inv_def)
  ultimately show ?thesis by simp
qed

text \<open>
  C1: Logging in: a session is handed out only to an active user that exists and whose password
  checks, and only when the key is not blocked. The session is a new one that the cookie names and
  that identifies this user until it expires; the session the request came with is gone (no session
  fixation), and no other session changes.
\<close>

theorem login_success:
  assumes "login True secure find_user check now now2 (Some b) r v pw th st = (LoggedIn s ck, th', st')"
    and "store_inv now2 st" and "hex_encode b \<notin> fst ` set (st_sessions st)"
  shows "\<exists>u. find_user v = Some u \<and> us_is_active u \<and> check pw u = Some True \<and>
    \<not> fst (throttle_blocked now (throttle_key v r) th) \<and>
    (\<forall>t \<le> now2 + st_ttl st. get_user True secure find_id [(ck_name ck, ck_value ck)] st' t =
       (case find_id (us_id u) of None \<Rightarrow> Inl UserNotFound | Some w \<Rightarrow> Inr w)) \<and>
    (\<forall>t old. from_request secure (lr_cookies r) st now2 = Some old \<longrightarrow> session_get st' t (ss_id old) = None) \<and>
    (\<forall>t i. i \<noteq> ss_id s \<and> from_request secure (lr_cookies r) st now2 \<notin> {Some old |old. ss_id old = i} \<longrightarrow>
       session_get st' t i = session_get st t i)"
  using assms(1)
proof (cases rule: login_cases)
  case (ok u st1)
  let ?fill = "\<lambda>s. value_set ''username'' (GStr (us_username u)) (value_set ''user_id'' (GInt KInt64 (us_id u)) s)"
  from ok(7) obtain sess st2 where n: "new_session [] (Some b) now2 st1 = (Inr sess, st2)"
    and s: "s = ?fill sess" "ck = session_cookie secure (ss_id sess) (lr_tls r)" "st' = on_session (ss_id sess) ?fill st2"
    by (auto simp: Let_def)
  from n have sess: "sess = \<lparr>ss_id = hex_encode b, ss_user_key = [], ss_values = [], ss_expires = now2 + st_ttl st\<rparr>"
    and st2: "st2 = st1\<lparr>st_sessions := AList.update (hex_encode b) sess (st_sessions st1)\<rparr>"
    by (auto elim!: new_anonymous simp: ok(6) split: option.split)
  have g: "session_get st' t i = (if i = hex_encode b then (if t > now2 + st_ttl st then None else Some s) else session_get st1 t i)" for t i
    by (simp add: s(1,3) on_session_def st2 session_get_def) (simp add: sess value_set_def)
  have g1: "session_get st1 t i = (if from_request secure (lr_cookies r) st now2 \<in> {Some old |old. ss_id old = i} then None else session_get st t i)" for t i
    by (auto simp: ok(6) get_after_delete split: option.split)
  have sid: "ss_id s = hex_encode b" by (simp add: s(1) sess value_set_def)
  have old: "ss_id o' \<noteq> hex_encode b" if "from_request secure (lr_cookies r) st now2 = Some o'" for o'
    using from_request_id[OF assms(2) that] assms(3)
    by (auto simp: session_get_def map_of_eq_None_iff[symmetric] split: option.splits)
  have v: "value_get ''user_id'' s = Some (GInt KInt64 (us_id u))"
    by (simp add: s(1) sess value_set_def value_get_def)
  have "get_user True secure find_id [(ck_name ck, ck_value ck)] st' t =
      (case find_id (us_id u) of None \<Rightarrow> Inl UserNotFound | Some w \<Rightarrow> Inr w)" if "t \<le> now2 + st_ttl st" for t
  proof -
    have "from_request secure [(ck_name ck, ck_value ck)] st' t = Some s"
      using that g[of t "hex_encode b"] by (simp add: from_request_def s(2) session_cookie_def sess)
    then show ?thesis by (simp add: get_user_def v)
  qed
  moreover have "session_get st' t (ss_id o') = None" if "from_request secure (lr_cookies r) st now2 = Some o'" for t o'
    using g[of t "ss_id o'"] g1[of t "ss_id o'"] old[OF that] that by auto
  ultimately show ?thesis using ok(1-4) g g1 sid by auto
qed auto

definition ana :: user where
  "ana = \<lparr>us_id = 7, us_uuid = [], us_first_name = ''Ana'', us_last_name = [], us_username = ''ana'', us_email = None,
     us_password = ''pw'', us_group = [], us_is_admin = False, us_is_staff = False, us_is_active = True,
     us_created_at = 0, us_updated_at = 0\<rparr>"

definition find_ana :: "string \<Rightarrow> user option" where "find_ana v = (if v = ''ana'' then Some ana else None)"
definition toy_check :: "string \<Rightarrow> user \<Rightarrow> bool option" where "toy_check p u = Some (p = us_password u)"

definition ana_request :: login_request where
  "ana_request = \<lparr>lr_cookies = [], lr_remote_addr = ''1.2.3.4:99'', lr_tls = True\<rparr>"

lemma fresh_throttle: "throttle_blocked 5 k (new_throttle 0) = (False, new_throttle 0)"
  by (simp add: throttle_blocked_def sweep_locked_def new_throttle_def default_lock_window_def)

theorem login_success_witness:
  "\<exists>s ck th' st'. login True True find_ana toy_check 5 6 (Some ''A'') ana_request ''ana'' ''pw'' (new_throttle 0) (new_store 100) =
     (LoggedIn s ck, th', st') \<and> ck_name ck = ''__Host-kyrux_session'' \<and>
     get_user True True (\<lambda>i. if i = 7 then Some ana else None) [(ck_name ck, ck_value ck)] st' 100 = Inr ana"
proof -
  obtain s ck th' st' where l: "login True True find_ana toy_check 5 6 (Some ''A'') ana_request ''ana'' ''pw'' (new_throttle 0) (new_store 100) =
     (LoggedIn s ck, th', st')" "ck_name ck = ''__Host-kyrux_session''"
    by (simp add: login_def find_ana_def toy_check_def ana_def ana_request_def fresh_throttle
        from_request_def new_session_def new_store_def session_cookie_def cookie_name_def default_max_total_def Let_def)
  have "store_inv 6 (new_store 100 :: goval store)" "hex_encode ''A'' \<notin> fst ` set (st_sessions (new_store 100 :: goval store))"
    by (simp, simp add: new_store_def)
  from login_success[OF l(1) this, of "\<lambda>i. if i = 7 then Some ana else None"] l show ?thesis
    by (auto simp: find_ana_def ana_def new_store_def)
qed

text \<open>
  Logging out ends the session: afterwards the same cookies open no session at any time, the
  other sessions are what they were, and the browser is told to drop the cookie of that name.
\<close>

theorem logout_ends_session:
  assumes "store_inv t0 st" and "from_request secure cookies st now = Some s" and "logout secure cookies now st = (ck, st')"
  shows "(\<forall>t. from_request secure cookies st' t = None) \<and>
    (\<forall>t i. i \<noteq> ss_id s \<longrightarrow> session_get st' t i = session_get st t i) \<and>
    ck_name ck = cookie_name secure \<and> ck_max_age ck < 0 \<and> ck_value ck = []"
proof -
  have c: "map_of cookies (cookie_name secure) = Some (ss_id s)" using from_request_id[OF assms(1,2)] by simp
  have "st' = session_delete (ss_id s) st" "ck = logout_cookie secure" using assms(2,3) by (simp_all add: logout_def)
  with c show ?thesis by (simp add: from_request_def get_after_delete logout_cookie_def)
qed

theorem logout_ends_session_witness:
  "\<exists>ck st'. logout True [(''__Host-kyrux_session'', ''41'')] 7 (snd (new_session [] (Some ''A'') 5 (new_store 100 :: goval store))) = (ck, st') \<and>
     from_request True [(''__Host-kyrux_session'', ''41'')] st' 8 = None"
proof -
  let ?st = "snd (new_session [] (Some ''A'') 5 (new_store 100 :: goval store))"
  have h: "hex_encode ''A'' = ''41''" by (simp add: hex_encode_def hex_digits)
  obtain r where r: "new_session [] (Some ''A'') 5 (new_store 100 :: goval store) = (r, ?st)" by (metis prod.collapse)
  have i: "store_inv 5 ?st" by (rule new_inv[OF _ _ r]) (simp_all add: new_store_def store_inv_new[unfolded new_store_def])
  obtain s where s: "from_request True [(''__Host-kyrux_session'', ''41'')] ?st 7 = Some s"
    by (simp add: from_request_def cookie_name_def new_session_def new_store_def default_max_total_def session_get_def h Let_def)
  obtain ck st' where l: "logout True [(''__Host-kyrux_session'', ''41'')] 7 ?st = (ck, st')" by fastforce
  from logout_ends_session[OF i s l] l show ?thesis by auto
qed

subsection \<open>Guessing passwords\<close>

text \<open>A run of attempts on one account from one address; the two clock readings coincide.\<close>

definition attempt ::
  "bool \<Rightarrow> (string \<Rightarrow> user option) \<Rightarrow> (string \<Rightarrow> user \<Rightarrow> bool option) \<Rightarrow> login_request \<Rightarrow> string \<Rightarrow>
   time \<times> string \<Rightarrow> login_throttle \<times> goval store \<Rightarrow> login_throttle \<times> goval store"
where
  "attempt secure find_user check r v g ts =
     snd (login True secure find_user check (fst g) (fst g) None r v (snd g) (fst ts) (snd ts))"

definition wrong :: "(string \<Rightarrow> user option) \<Rightarrow> (string \<Rightarrow> user \<Rightarrow> bool option) \<Rightarrow> string \<Rightarrow> string \<Rightarrow> bool" where
  "wrong find_user check v pw \<longleftrightarrow>
     (case find_user v of None \<Rightarrow> True | Some u \<Rightarrow> check pw u = Some False \<or> (check pw u = Some True \<and> \<not> us_is_active u))"

lemma blocked_snd: "snd (throttle_blocked now k t) = sweep_locked now t"
  by (simp add: throttle_blocked_def Let_def split: option.split)

lemma sweep_good: "throttle_good t \<Longrightarrow> throttle_good (sweep_locked now t)"
  by (auto simp: throttle_good_def sweep_locked_def distinct_map_fst_filter)

lemma attempt_wrong:
  assumes "throttle_good th" "wrong find_user check v pw"
  shows "attempt secure find_user check r v (now, pw) (th, st) =
    (if fst (throttle_blocked now (throttle_key v r) th) then sweep_locked now th
     else throttle_fail now (throttle_key v r) (sweep_locked now th), st)"
proof -
  obtain res th' st' where l: "login True secure find_user check now now None r v pw th st = (res, th', st')" by (metis prod_cases3)
  from l show ?thesis
  proof (cases rule: login_cases)
    case (ok u st1)
    with assms(2) show ?thesis by (simp add: wrong_def)
  next
    case (panic u)
    with assms(2) show ?thesis by (simp add: wrong_def)
  qed (use l in \<open>simp_all add: attempt_def blocked_snd\<close>)
qed

lemma fail_sweep_open:
  assumes "throttle_good th" "throttle_open th t k = Some (c, r)" "t \<le> t'" "t' \<le> r"
  shows "throttle_open (throttle_fail t k (sweep_locked t th)) t' k = Some (c + 1, r)"
  using login.hit_self[OF sweep_good[OF assms(1), of t] assms(3), of k] sweep_open[OF assms(1) order_refl, of t k] assms by simp

lemma guesses_open:
  assumes "throttle_good th" "sorted_wrt (\<le>) (map fst gs @ [now])" "\<forall>(u, pw)\<in>set gs. t0 \<le> u \<and> wrong find_user check v pw"
    and "now \<le> r" "t0 \<le> now" "\<forall>u. t0 \<le> u \<and> u \<le> r \<longrightarrow> throttle_open th u (throttle_key v q) = Some (c, r)" "c \<le> lt_max_attempts th"
  shows "throttle_open (fst (fold (attempt secure find_user check q v) gs (th, st))) now (throttle_key v q) =
      Some (min (lt_max_attempts th) (c + int (length gs)), r) \<and>
    lt_max_attempts (fst (fold (attempt secure find_user check q v) gs (th, st))) = lt_max_attempts th \<and>
    throttle_good (fst (fold (attempt secure find_user check q v) gs (th, st))) \<and>
    snd (fold (attempt secure find_user check q v) gs (th, st)) = st"
  using assms
proof (induction gs arbitrary: th c t0)
  case (Cons g gs)
  obtain u pw where g: "g = (u, pw)" by (cases g)
  let ?k = "throttle_key v q"
  have u: "t0 \<le> u" "u \<le> now" "wrong find_user check v pw" "\<forall>(w, pw)\<in>set gs. u \<le> w \<and> wrong find_user check v pw"
    using Cons.prems(2,3) g by auto
  have op: "throttle_open th u ?k = Some (c, r)" using Cons.prems(4,6) u by auto
  have b: "fst (throttle_blocked u ?k th) \<longleftrightarrow> lt_max_attempts th \<le> c"
    by (simp add: blocked_open[OF Cons.prems(1)] op)
  let ?th = "if lt_max_attempts th \<le> c then sweep_locked u th else throttle_fail u ?k (sweep_locked u th)"
  let ?c = "if lt_max_attempts th \<le> c then c else c + 1"
  have at: "attempt secure find_user check q v g (th, st) = (?th, st)"
    unfolding g attempt_wrong[OF Cons.prems(1) u(3)] b by simp
  have good: "throttle_good ?th"
    using sweep_good[OF Cons.prems(1), of u] login.good_hit[OF sweep_good[OF Cons.prems(1), of u], of u ?k] by simp
  have m: "lt_max_attempts ?th = lt_max_attempts th" by simp
  have o: "\<forall>w. u \<le> w \<and> w \<le> r \<longrightarrow> throttle_open ?th w ?k = Some (?c, r)"
    using Cons.prems(6) u(1) fail_sweep_open[OF Cons.prems(1) op] sweep_open[OF Cons.prems(1), of u] by auto
  have "sorted_wrt (\<le>) (map fst gs @ [now])" "?c \<le> lt_max_attempts ?th" using Cons.prems(2,7) by auto
  from Cons.IH[OF good this(1) u(4) Cons.prems(4) u(2) o this(2)] m Cons.prems(7)
  show ?case unfolding fold.simps o_apply at by auto
qed auto



subsection \<open>Redirecting after the login\<close>

text \<open>\<open>NextURL\<close>; \<open>nxt\<close> is the decoded query parameter, empty when absent.\<close>

definition next_url :: "string \<Rightarrow> string \<Rightarrow> string" where
  "next_url nxt fallback =
     (if nxt = [] \<or> \<not> has_prefix nxt ''/'' \<or> has_prefix nxt ''//'' \<or> has_prefix nxt (''/'' @ [CHR 0x5C])
      then fallback else nxt)"

text \<open>
  What a browser resolves: the URL parser drops tabs and line breaks and reads a backslash as a slash;
  a location then leaves the site if it starts with two slashes or not with a slash.
\<close>

definition browser_view :: "string \<Rightarrow> string" where
  "browser_view s = map (\<lambda>c. if c = CHR 0x5C then CHR ''/'' else c) (filter (\<lambda>c. c \<notin> {CHR 0x09, CHR 0x0A, CHR 0x0D}) s)"

definition stays_on_site :: "string \<Rightarrow> bool" where
  "stays_on_site s \<longleftrightarrow> has_prefix (browser_view s) ''/'' \<and> \<not> has_prefix (browser_view s) ''//''"

text \<open>
  The redirect target after a login is the fallback or a path of this site, unless the parameter
  hides a tab or line break right after its first slash; such a parameter does pass the check and
  leads to another host (\<open>/\<close>, tab, \<open>/evil.com\<close>).
\<close>

theorem next_url_stays_on_site:
  assumes "nxt = [] \<or> tl nxt = [] \<or> hd (tl nxt) \<notin> {CHR 0x09, CHR 0x0A, CHR 0x0D}"
  shows "(next_url nxt fallback = fallback \<or> stays_on_site (next_url nxt fallback)) \<and>
    next_url ([CHR ''/'', CHR 0x09] @ ''/evil.com'') ''/home'' = [CHR ''/'', CHR 0x09] @ ''/evil.com'' \<and>
    \<not> stays_on_site ([CHR ''/'', CHR 0x09] @ ''/evil.com'')"
proof -
  have "stays_on_site nxt" if "has_prefix nxt ''/''" "\<not> has_prefix nxt ''//''" "\<not> has_prefix nxt (''/'' @ [CHR 0x5C])"
  proof -
    have "\<exists>s. nxt = CHR ''/'' # s" using that(1) by (cases nxt) auto
    then obtain s where s: "nxt = CHR ''/'' # s" ..
    show ?thesis
    proof (cases s)
      case (Cons c cs)
      with that s assms have "c \<noteq> CHR ''/''" "c \<noteq> CHR 0x5C" "c \<notin> {CHR 0x09, CHR 0x0A, CHR 0x0D}" by auto
      with s Cons show ?thesis by (simp add: stays_on_site_def browser_view_def)
    qed (simp add: s stays_on_site_def browser_view_def)
  qed
  then show ?thesis by (auto simp: next_url_def stays_on_site_def browser_view_def)
qed

theorem next_url_stays_on_site_witness:
  "next_url ''/admin/'' ''/'' = ''/admin/'' \<and> stays_on_site ''/admin/''"
proof -
  have "''/admin/'' = [] \<or> tl ''/admin/'' = [] \<or> hd (tl ''/admin/'') \<notin> {CHR 0x09, CHR 0x0A, CHR 0x0D}" by simp
  from next_url_stays_on_site[OF this, of "''/''"] show ?thesis by (simp add: next_url_def)
qed

subsection \<open>The first superuser\<close>

text \<open>
  \<open>EnsureSuperuser\<close>. \<open>count\<close> is the answer of the query for accounts with that login (\<open>None\<close> an
  error), \<open>hash\<close> that of \<open>SetPassword\<close>, \<open>create\<close> whether the INSERT succeeded. The result is the
  account to insert (\<open>None\<close> when nothing is done) or the error.
\<close>

datatype superuser_error = ShortPassword | CountFailed | HashFailed | CreateFailed

definition ensure_superuser ::
  "string \<Rightarrow> int option \<Rightarrow> string option \<Rightarrow> (user \<Rightarrow> bool) \<Rightarrow> string \<Rightarrow> time \<Rightarrow> string \<Rightarrow> string \<Rightarrow>
   superuser_error + user option"
where
  "ensure_superuser field_name count hash create uuid now login_value password =
     (if login_value = [] \<or> password = [] then Inr None
      else if length password < 8 then Inl ShortPassword
      else
        (case count of
           None \<Rightarrow> Inl CountFailed
         | Some n \<Rightarrow>
             if n > 0 then Inr None
             else
               (let u0 = \<lparr>us_id = 0, us_uuid = uuid, us_first_name = [], us_last_name = [], us_username = [],
                          us_email = None, us_password = [], us_group = [], us_is_admin = True, us_is_staff = True,
                          us_is_active = True, us_created_at = now, us_updated_at = now\<rparr>;
                    u1 = (if field_name = ''Email'' then u0\<lparr>us_email := Some login_value\<rparr> else u0\<lparr>us_username := login_value\<rparr>)
                in case hash of
                     None \<Rightarrow> Inl HashFailed
                   | Some h \<Rightarrow> (let u = u1\<lparr>us_password := h\<rparr> in if create u then Inr (Some u) else Inl CreateFailed))))"

text \<open>An existing account is never touched, and what is created logs in by the login field.\<close>

lemma ensure_superuser_created:
  assumes "ensure_superuser field_name count hash create uuid now v pw = Inr (Some u)"
  shows "(\<exists>n. count = Some n \<and> n \<le> 0) \<and> 8 \<le> length pw \<and> us_is_admin u \<and> us_is_staff u \<and> us_is_active u \<and>
    hash = Some (us_password u) \<and> (if field_name = ''Email'' then us_email u = Some v else us_username u = v)"
  using assms by (auto simp: ensure_superuser_def Let_def split: option.splits if_splits)

text \<open>\<open>generateUUID\<close>: version and variant bits of 16 random bytes, printed as 8-4-4-4-12.\<close>

definition uuid_bytes :: "8 word list \<Rightarrow> 8 word list" where
  "uuid_bytes b = (let b1 = b[6 := (b ! 6 AND 0x0f) OR 0x40] in b1[8 := (b1 ! 8 AND 0x3f) OR 0x80])"

definition hex_bytes :: "8 word list \<Rightarrow> string" where
  "hex_bytes b = concat (map (\<lambda>w. [hex_digit (unat w div 16), hex_digit (unat w mod 16)]) b)"

definition generate_uuid :: "8 word list \<Rightarrow> string" where
  "generate_uuid rnd =
     (let b = uuid_bytes rnd
      in hex_bytes (take 4 b) @ ''-'' @ hex_bytes (take 2 (drop 4 b)) @ ''-'' @ hex_bytes (take 2 (drop 6 b)) @ ''-'' @
         hex_bytes (take 2 (drop 8 b)) @ ''-'' @ hex_bytes (drop 10 b))"

lemma version_bits: "drop_bit 4 ((w AND 0x0f) OR 0x40 :: 8 word) = 4"
  by (rule bit_word_eqI) (auto simp: bit_simps)

lemma length_hex_bytes [simp]: "length (hex_bytes b) = 2 * length b"
  by (induction b) (simp_all add: hex_bytes_def)

lemma hex_bytes_Cons: "hex_bytes (w # b) = hex_digit (unat w div 16) # hex_digit (unat w mod 16) # hex_bytes b"
  by (simp add: hex_bytes_def)

lemma high_nibble: "unat (w :: 8 word) div 16 = unat (drop_bit 4 w)"
  by (simp add: unat_div drop_bit_eq_div)

lemma generate_uuid_v4:
  assumes "length rnd = 16"
  shows "length (generate_uuid rnd) = 36 \<and> generate_uuid rnd ! 14 = CHR ''4'' \<and>
    (\<forall>i \<in> {8, 13, 18, 23}. generate_uuid rnd ! i = CHR ''-'')"
proof -
  obtain b0 b1 b2 b3 b4 b5 b6 b7 b8 b9 bs where rnd: "rnd = [b0, b1, b2, b3, b4, b5, b6, b7, b8, b9] @ bs" "length bs = 6"
    using assms by (auto simp: numeral_eq_Suc length_Suc_conv)
  have "hex_digit (unat (drop_bit 4 ((b6 AND 0x0f) OR 0x40))) = CHR ''4''" by (simp add: version_bits hex_digits)
  then show ?thesis using rnd(2)
    by (simp add: generate_uuid_def uuid_bytes_def rnd(1) Let_def hex_bytes_Cons high_nibble nth_append)
qed

end
