(* ===== verification/Rfc3339.thy ===== *)
theory Rfc3339
  imports Prelude
begin

text \<open>
  The part of Go's \<open>time\<close> package the tokens of \<open>core/security/auth/auth.go\<close> use: \<open>Time.Format\<close>
  and \<open>time.Parse\<close> with the layout RFC 3339. A time is in nanoseconds since Go's zero time, the
  first of January of year 1, UTC; the server's zone is its offset in minutes. The fallback of
  \<open>time.Parse\<close> that accepts an hour of one digit is not modelled.
\<close>

definition leap_year :: "nat \<Rightarrow> bool" where
  "leap_year y \<longleftrightarrow> y mod 4 = 0 \<and> (y mod 100 \<noteq> 0 \<or> y mod 400 = 0)"

definition month_lens :: "nat \<Rightarrow> nat list" where
  "month_lens y = [31, if leap_year y then 29 else 28, 31, 30, 31, 30, 31, 31, 30, 31, 30, 31]"

definition year_len :: "nat \<Rightarrow> nat" where
  "year_len y = (if leap_year y then 366 else 365)"

function year_of :: "nat \<Rightarrow> nat \<Rightarrow> nat \<times> nat" where
  "year_of y d = (if d < year_len y then (y, d) else year_of (y + 1) (d - year_len y))"
  by pat_completeness auto
termination by (relation "measure snd") (auto simp: year_len_def split: if_splits)

declare year_of.simps [simp del]

fun month_of :: "nat \<Rightarrow> nat list \<Rightarrow> nat \<Rightarrow> nat \<times> nat" where
  "month_of m [] d = (m, d)"
| "month_of m (l # ls) d = (if d < l then (m, d) else month_of (m + 1) ls (d - l))"

definition days_before_year :: "nat \<Rightarrow> nat" where
  "days_before_year y = sum_list (map year_len [1..<y])"

definition day_number :: "nat \<Rightarrow> nat \<Rightarrow> nat \<Rightarrow> nat" where
  "day_number y m d = days_before_year y + sum_list (take (m - 1) (month_lens y)) + (d - 1)"

lemma sum_month_lens: "sum_list (month_lens y) = year_len y"
  by (simp add: month_lens_def year_len_def)

lemma days_before_Suc: "1 \<le> y \<Longrightarrow> days_before_year (y + 1) = days_before_year y + year_len y"
  by (simp add: days_before_year_def)

lemma year_of_spec: "1 \<le> y \<Longrightarrow> year_of y d = (y', d') \<Longrightarrow>
  d' < year_len y' \<and> y \<le> y' \<and> days_before_year y' + d' = days_before_year y + d"
proof (induction y d rule: year_of.induct)
  case (1 y d)
  show ?case
  proof (cases "d < year_len y")
    case True
    then show ?thesis using 1(3) by (auto simp: year_of.simps[of y d])
  next
    case False
    then have e: "year_of (y + 1) (d - year_len y) = (y', d')" using 1(3) by (simp add: year_of.simps[of y d])
    then have "d' < year_len y' \<and> y + 1 \<le> y' \<and> days_before_year y' + d' = days_before_year (y + 1) + (d - year_len y)"
      using 1(1)[OF False] 1(2) by simp
    then show ?thesis using False days_before_Suc[OF 1(2)] by simp
  qed
qed

lemma month_of_spec: "d < sum_list ls \<Longrightarrow> month_of m ls d = (m', d') \<Longrightarrow>
  m \<le> m' \<and> m' - m < length ls \<and> d' < ls ! (m' - m) \<and> sum_list (take (m' - m) ls) + d' = d"
proof (induction m ls d rule: month_of.induct)
  case (2 m l ls d)
  show ?case
  proof (cases "d < l")
    case False
    then have "m + 1 \<le> m' \<and> m' - (m + 1) < length ls \<and> d' < ls ! (m' - (m + 1)) \<and>
        sum_list (take (m' - (m + 1)) ls) + d' = d - l" using 2 by auto
    moreover from this have "m' - m = Suc (m' - (m + 1))" by (elim conjE) arith
    ultimately show ?thesis using False by auto
  qed (use 2(3) in auto)
qed simp

text \<open>Zero-padded decimal fields.\<close>

definition pad2 :: "nat \<Rightarrow> string" where
  "pad2 n = [digit_chr (n div 10 mod 10), digit_chr (n mod 10)]"

definition pad4 :: "nat \<Rightarrow> string" where
  "pad4 n = pad2 (n div 100) @ pad2 (n mod 100)"

text \<open>A field of \<open>time.Parse\<close>: exactly the digits, within its bounds.\<close>

definition field :: "nat \<Rightarrow> nat \<Rightarrow> string \<Rightarrow> nat option" where
  "field lo hi s = (let v = digits_val 0 s
     in if list_all is_digit s \<and> s \<noteq> [] \<and> lo \<le> v \<and> v \<le> hi then Some v else None)"

lemma digits_pad2: "n < 100 \<Longrightarrow> digits_val k (pad2 n) = k * 100 + n"
proof -
  assume "n < 100"
  then have "n div 10 mod 10 * 10 + n mod 10 = n" by simp
  then show ?thesis by (simp add: pad2_def algebra_simps)
qed

lemma pad2_digits: "list_all is_digit (pad2 n)"
  by (simp add: pad2_def)

lemma field_pad2: "n < 100 \<Longrightarrow> lo \<le> n \<Longrightarrow> n \<le> hi \<Longrightarrow> field lo hi (pad2 n) = Some n"
  using digits_pad2[of n 0] pad2_digits[of n] by (simp add: field_def) (simp add: pad2_def)

lemma field_pad4: "n < 10000 \<Longrightarrow> field 0 9999 (pad4 n) = Some n"
proof -
  assume n: "n < 10000"
  then have "digits_val 0 (pad4 n) = n"
    using digits_pad2[of "n div 100" 0] digits_pad2[of "n mod 100" "n div 100"]
    by (simp add: pad4_def digits_val_append)
  moreover have "list_all is_digit (pad4 n)" using pad2_digits by (simp add: pad4_def)
  ultimately show ?thesis using n by (simp add: field_def) (simp add: pad4_def pad2_def)
qed

lemma length_pads [simp]: "length (pad2 n) = 2" "length (pad4 n) = 4"
  by (simp_all add: pad2_def pad4_def)

subsection \<open>\<open>Time.Format\<close>\<close>

definition format_zone :: "int \<Rightarrow> string" where
  "format_zone zone =
     (if zone = 0 then ''Z''
      else (if zone < 0 then ''-'' else ''+'') @ pad2 (nat \<bar>zone\<bar> div 60) @ '':'' @ pad2 (nat \<bar>zone\<bar> mod 60))"

definition format_rfc3339 :: "int \<Rightarrow> time \<Rightarrow> string" where
  "format_rfc3339 zone t =
     (let local = nat (t div 1000000000 + zone * 60);
          s = local mod 86400;
          (y, yd) = year_of 1 (local div 86400);
          (m, d) = month_of 1 (month_lens y) yd
      in pad4 y @ ''-'' @ pad2 m @ ''-'' @ pad2 (d + 1) @ ''T'' @
         pad2 (s div 3600) @ '':'' @ pad2 (s div 60 mod 60) @ '':'' @ pad2 (s mod 60) @ format_zone zone)"

subsection \<open>\<open>time.Parse\<close>\<close>

definition parse_zone :: "string \<Rightarrow> int option" where
  "parse_zone s =
     (if s = ''Z'' then Some 0
      else if length s = 6 \<and> (s ! 0 = CHR ''+'' \<or> s ! 0 = CHR ''-'') \<and> s ! 3 = CHR '':'' then
        (case (field 0 24 (take 2 (drop 1 s)), field 0 60 (drop 4 s)) of
           (Some h, Some m) \<Rightarrow> Some ((if s ! 0 = CHR ''-'' then -1 else 1) * int (h * 60 + m))
         | _ \<Rightarrow> None)
      else None)"

text \<open>An optional fraction of a second, of which nine digits count.\<close>

definition parse_fraction :: "string \<Rightarrow> nat \<times> string" where
  "parse_fraction s =
     (let ds = takeWhile is_digit (tl s)
      in if s \<noteq> [] \<and> (hd s = CHR ''.'' \<or> hd s = CHR '','') \<and> ds \<noteq> []
         then (digits_val 0 (take 9 (ds @ replicate 9 (CHR ''0''))), dropWhile is_digit (tl s))
         else (0, s))"

definition parse_rfc3339 :: "string \<Rightarrow> time option" where
  "parse_rfc3339 s =
     (if length s < 20 \<or> s ! 4 \<noteq> CHR ''-'' \<or> s ! 7 \<noteq> CHR ''-'' \<or> s ! 10 \<noteq> CHR ''T'' \<or> s ! 13 \<noteq> CHR '':'' \<or> s ! 16 \<noteq> CHR '':''
      then None
      else
        (case (field 0 9999 (take 4 s), field 1 12 (take 2 (drop 5 s))) of
           (Some y, Some m) \<Rightarrow>
             (case (field 1 (month_lens y ! (m - 1)) (take 2 (drop 8 s)), field 0 23 (take 2 (drop 11 s)),
                    field 0 59 (take 2 (drop 14 s)), field 0 59 (take 2 (drop 17 s))) of
                (Some d, Some hh, Some mi, Some ss) \<Rightarrow>
                  (case parse_fraction (drop 19 s) of
                     (ns, rest) \<Rightarrow>
                       map_option (\<lambda>zone. (int (day_number y m d * 86400 + hh * 3600 + mi * 60 + ss) - zone * 60) * 1000000000 + int ns)
                         (parse_zone rest))
              | _ \<Rightarrow> None)
         | _ \<Rightarrow> None))"

text \<open>The instants a clock in this zone shows with a year of four digits.\<close>

definition formattable :: "int \<Rightarrow> time \<Rightarrow> bool" where
  "formattable zone t \<longleftrightarrow> \<bar>zone\<bar> < 24 * 60 \<and> 0 \<le> t div 1000000000 + zone * 60 \<and>
     fst (year_of 1 (nat (t div 1000000000 + zone * 60) div 86400)) < 10000"

lemma parse_format_zone: "\<bar>zone\<bar> < 24 * 60 \<Longrightarrow> parse_zone (format_zone zone) = Some zone"
proof (cases "zone = 0")
  case False
  assume z: "\<bar>zone\<bar> < 24 * 60"
  let ?n = "nat \<bar>zone\<bar>"
  have n: "?n div 60 < 24" "?n mod 60 < 60" using z by auto
  have "field 0 24 (pad2 (?n div 60)) = Some (?n div 60)" "field 0 60 (pad2 (?n mod 60)) = Some (?n mod 60)"
    using n by (auto intro!: field_pad2)
  moreover have "int (?n div 60 * 60 + ?n mod 60) = \<bar>zone\<bar>" by simp
  moreover have "format_zone zone = (if zone < 0 then CHR ''-'' else CHR ''+'') # pad2 (?n div 60) @ CHR '':'' # pad2 (?n mod 60)"
    using False by (simp add: format_zone_def)
  ultimately show ?thesis
    unfolding parse_zone_def by (simp add: nth_append split: if_splits)
qed (simp add: parse_zone_def format_zone_def)

lemma parse_fraction_zone: "parse_fraction (format_zone zone) = (0, format_zone zone)"
  by (auto simp: parse_fraction_def format_zone_def Let_def)

lemma clock_fields: "(k :: nat) < 86400 \<Longrightarrow> k div 3600 \<le> 23 \<and> k div 60 mod 60 \<le> 59 \<and> k mod 60 \<le> 59 \<and>
  k div 3600 * 3600 + k div 60 mod 60 * 60 + k mod 60 = k"
proof -
  assume k: "k < 86400"
  have "k div 3600 = k div 60 div 60" by (simp flip: div_mult2_eq)
  moreover have "k div 60 div 60 * 60 + k div 60 mod 60 = k div 60" "k div 60 * 60 + k mod 60 = k" by simp_all
  ultimately have "k div 3600 * 3600 + k div 60 mod 60 * 60 + k mod 60 = k" by arith
  moreover have "k div 3600 \<le> 23" using k by simp
  moreover have "j mod 60 \<le> 59" for j :: nat using mod_less_divisor[of 60 j] by linarith
  ultimately show ?thesis by blast
qed

text \<open>The calendar fields of a day are in range and number that day.\<close>

lemma civil_day:
  assumes "year_of 1 n = (y, yd)" and "month_of 1 (month_lens y) yd = (m, d)"
  shows "1 \<le> y" "1 \<le> m" "m \<le> 12" "d < month_lens y ! (m - 1)" "month_lens y ! (m - 1) \<le> 31" "day_number y m (d + 1) = n"
proof -
  have ys: "yd < year_len y" "days_before_year y + yd = n" "1 \<le> y"
    using year_of_spec[OF _ assms(1)] by (simp_all add: days_before_year_def)
  have ms: "1 \<le> m" "m - 1 < 12" "d < month_lens y ! (m - 1)" "sum_list (take (m - 1) (month_lens y)) + d = yd"
    using month_of_spec[OF _ assms(2)] ys(1) by (simp_all add: sum_month_lens) (simp_all add: month_lens_def)
  show "1 \<le> y" "1 \<le> m" "d < month_lens y ! (m - 1)" by (rule ys(3) ms)+
  show "m \<le> 12" using ms(1,2) by simp
  have "month_lens y ! (m - 1) \<in> set (month_lens y)" using ms(2) by (intro nth_mem) (simp add: month_lens_def)
  then show "month_lens y ! (m - 1) \<le> 31" by (auto simp: month_lens_def)
  show "day_number y m (d + 1) = n" using ys ms by (simp add: day_number_def)
qed

text \<open>Printing and reading back gives the instant cut to whole seconds, whatever the zone.\<close>

lemma parse_format:
  assumes "formattable zone t"
  shows "parse_rfc3339 (format_rfc3339 zone t) = Some (t div 1000000000 * 1000000000)"
proof -
  let ?l = "nat (t div 1000000000 + zone * 60)"
  let ?s = "?l mod 86400"
  obtain y yd where y: "year_of 1 (?l div 86400) = (y, yd)" by (cases "year_of 1 (?l div 86400)")
  obtain m d where m: "month_of 1 (month_lens y) yd = (m, d)" by (cases "month_of 1 (month_lens y) yd")
  have l: "int ?l = t div 1000000000 + zone * 60" and y4: "y < 10000" and z: "\<bar>zone\<bar> < 24 * 60"
    using assms y by (simp_all add: formattable_def)
  note cd = civil_day[OF y m]
  have "?s < 86400" by simp
  from clock_fields[OF this] obtain hh mi ss where hms: "?s div 3600 = hh" "?s div 60 mod 60 = mi" "?s mod 60 = ss"
    and s: "hh \<le> 23" "mi \<le> 59" "ss \<le> 59" "hh * 3600 + mi * 60 + ss = ?s"
    by blast
  let ?f = "pad4 y @ CHR ''-'' # pad2 m @ CHR ''-'' # pad2 (d + 1) @ CHR ''T'' # pad2 hh @ CHR '':'' #
      pad2 mi @ CHR '':'' # pad2 ss @ format_zone zone"
  have f: "format_rfc3339 zone t = ?f"
    by (simp add: format_rfc3339_def Let_def y m hms del: One_nat_def)
  have zl: "0 < length (format_zone zone)" by (simp add: format_zone_def)
  have a: "\<not> (length ?f < 20 \<or> ?f ! 4 \<noteq> CHR ''-'' \<or> ?f ! 7 \<noteq> CHR ''-'' \<or> ?f ! 10 \<noteq> CHR ''T'' \<or> ?f ! 13 \<noteq> CHR '':'' \<or> ?f ! 16 \<noteq> CHR '':'')"
    using zl by (simp add: pad2_def pad4_def)
  have p: "take 4 ?f = pad4 y" "take 2 (drop 5 ?f) = pad2 m" "take 2 (drop 8 ?f) = pad2 (d + 1)"
    "take 2 (drop 11 ?f) = pad2 hh" "take 2 (drop 14 ?f) = pad2 mi"
    "take 2 (drop 17 ?f) = pad2 ss" "drop 19 ?f = format_zone zone"
    by (simp_all add: pad2_def pad4_def)
  have v: "field 0 9999 (pad4 y) = Some y" "field 1 12 (pad2 m) = Some m"
    "field 1 (month_lens y ! (m - 1)) (pad2 (d + 1)) = Some (d + 1)"
    "field 0 23 (pad2 hh) = Some hh" "field 0 59 (pad2 mi) = Some mi" "field 0 59 (pad2 ss) = Some ss"
    using y4 cd(2-5) s(1-3) by (simp_all add: field_pad2 field_pad4)
  from cd(6) have "day_number y m (d + 1) * 86400 + (hh * 3600 + mi * 60 + ss) = ?l"
    unfolding s(4) by (simp only: div_mult_mod_eq)
  then have "day_number y m (d + 1) * 86400 + hh * 3600 + mi * 60 + ss = ?l" by (simp only: add.assoc)
  then have i: "int (day_number y m (d + 1) * 86400 + hh * 3600 + mi * 60 + ss) - zone * 60 = t div 1000000000"
    using l by (simp only: add_diff_cancel_right')
  show ?thesis
    unfolding parse_rfc3339_def f using a
    by (simp only: if_False p v prod.case option.case parse_fraction_zone parse_format_zone[OF z] option.map i of_nat_0 add_0_right)
qed

lemma digit_chr_not_bar: "n < 10 \<Longrightarrow> digit_chr n \<noteq> CHR ''|''"
  using is_digit_digit_chr[of n] by (auto simp: is_digit_def)

lemma format_no_bar: "CHR ''|'' \<notin> set (format_rfc3339 zone t)"
  by (auto simp: format_rfc3339_def format_zone_def pad2_def pad4_def Let_def digit_chr_not_bar[symmetric] split: prod.split)

end
