(* ===== verification/AuthTokens.thy ===== *)
theory AuthTokens
  imports Crypton Rfc3339 Sessions
begin

text \<open>
  The signed bearer tokens of \<open>core/security/auth/auth.go\<close>: a token is the MAC-signed text
  \<open>userID|expiry|jti\<close>, the expiry in RFC 3339 and the jti 16 random bytes in hexadecimal. A revoked jti
  is kept until its token has expired; an hourly collection drops it then. Both maps are
  used under the authenticator's lock.
\<close>

declare map_of_eq_Some_iff [simp del] AList.update_conv' [simp]

datatype auth_error = InvalidCredentials | TokenExpired | TokenRevoked

record claims =
  cl_user_id :: string
  cl_expires_at :: time
  cl_jti :: string

record authenticator =
  au_secret :: string
  au_revoked :: "(string \<times> time) list"

definition new_authenticator :: "string \<Rightarrow> authenticator" where
  "new_authenticator secret = \<lparr>au_secret = secret, au_revoked = []\<rparr>"

definition new_jti :: "string option \<Rightarrow> string option" where
  "new_jti rnd = map_option hex_encode rnd"

definition generate_token ::
  "mac_fn \<Rightarrow> int \<Rightarrow> authenticator \<Rightarrow> string \<Rightarrow> duration \<Rightarrow> time \<Rightarrow> string option \<Rightarrow> string option"
where
  "generate_token mac zone a user_id ttl now rnd =
     (case new_jti rnd of
        None \<Rightarrow> None
      | Some jti \<Rightarrow>
          Some (sign mac (user_id @ ''|'' @ format_rfc3339 zone (now + ttl) @ ''|'' @ jti) (au_secret a)))"

text \<open>\<open>strings.SplitN(payload, "|", 3)\<close> when it yields three parts.\<close>

definition split3 :: "string \<Rightarrow> (string \<times> string \<times> string) option" where
  "split3 s =
     (case cut_chr (CHR ''|'') s of
        (p0, rest, found) \<Rightarrow>
          if \<not> found then None
          else (case cut_chr (CHR ''|'') rest of (p1, p2, found2) \<Rightarrow> if found2 then Some (p0, p1, p2) else None))"

definition validate_token :: "mac_fn \<Rightarrow> authenticator \<Rightarrow> time \<Rightarrow> string \<Rightarrow> auth_error + claims" where
  "validate_token mac a now token =
     (case verify mac token (au_secret a) of
        None \<Rightarrow> Inl InvalidCredentials
      | Some payload \<Rightarrow>
          (case split3 payload of
             None \<Rightarrow> Inl InvalidCredentials
           | Some (user_id, exp_str, jti) \<Rightarrow>
               (case parse_rfc3339 exp_str of
                  None \<Rightarrow> Inl InvalidCredentials
                | Some expiry \<Rightarrow>
                    if now > expiry then Inl TokenExpired
                    else if map_of (au_revoked a) jti \<noteq> None then Inl TokenRevoked
                    else Inr \<lparr>cl_user_id = user_id, cl_expires_at = expiry, cl_jti = jti\<rparr>)))"

definition revoke_token :: "claims \<Rightarrow> authenticator \<Rightarrow> authenticator" where
  "revoke_token c a =
     (if cl_jti c = [] then a
      else a\<lparr>au_revoked := AList.update (cl_jti c) (cl_expires_at c) (au_revoked a)\<rparr>)"

definition revoked_gc :: "time \<Rightarrow> authenticator \<Rightarrow> authenticator" where
  "revoked_gc now a = a\<lparr>au_revoked := filter (\<lambda>(jti, expiry). \<not> now > expiry) (au_revoked a)\<rparr>"

text \<open>\<open>RequireAuth\<close>: the claims the handler sees, or the 401 answer.\<close>

definition require_auth :: "mac_fn \<Rightarrow> authenticator \<Rightarrow> time \<Rightarrow> string \<Rightarrow> claims option" where
  "require_auth mac a now header =
     (if \<not> has_prefix header ''Bearer '' \<or> drop 7 header = [] then None
      else (case validate_token mac a now (drop 7 header) of Inl _ \<Rightarrow> None | Inr c \<Rightarrow> Some c))"

lemma split3_parts: "CHR ''|'' \<notin> set u \<Longrightarrow> CHR ''|'' \<notin> set e \<Longrightarrow> split3 (u @ ''|'' @ e @ ''|'' @ j) = Some (u, e, j)"
  by (simp add: split3_def cut_chr_append)

lemma validate_generated:
  assumes "CHR ''|'' \<notin> set u" "formattable zone e"
  shows "validate_token mac a now (sign mac (u @ ''|'' @ format_rfc3339 zone e @ ''|'' @ j) (au_secret a)) =
    (if now > e div 1000000000 * 1000000000 then Inl TokenExpired
     else if map_of (au_revoked a) j \<noteq> None then Inl TokenRevoked
     else Inr \<lparr>cl_user_id = u, cl_expires_at = e div 1000000000 * 1000000000, cl_jti = j\<rparr>)"
  using split3_parts[OF assms(1) format_no_bar, of zone e j]
  by (simp add: validate_token_def parse_format[OF assms(2)])

lemma cut_seconds: "(x :: int) - 1000000000 < x div 1000000000 * 1000000000 \<and> x div 1000000000 * 1000000000 \<le> x"
  by presburger

text \<open>
  Tokens carry what they were made for: a token generated for a user id without \<open>|\<close> yields that
  user, the jti, and its expiry cut to whole seconds; it is accepted until then unless its jti is
  revoked, and never after. The expiry is at most a second early.
\<close>

theorem token_lifecycle:
  assumes "CHR ''|'' \<notin> set user" and "formattable zone (issued + ttl)"
    and "generate_token mac zone a user ttl issued (Some rnd) = Some token"
    and "au_secret a' = au_secret a"
  shows "\<exists>expiry. issued + ttl - 1000000000 < expiry \<and> expiry \<le> issued + ttl \<and>
    (\<forall>now. validate_token mac a' now token =
      (if now > expiry then Inl TokenExpired
       else if map_of (au_revoked a') (hex_encode rnd) \<noteq> None then Inl TokenRevoked
       else Inr \<lparr>cl_user_id = user, cl_expires_at = expiry, cl_jti = hex_encode rnd\<rparr>))"
proof (intro exI conjI allI)
  let ?e = "(issued + ttl) div 1000000000 * 1000000000"
  show "issued + ttl - 1000000000 < ?e" "?e \<le> issued + ttl"
    using cut_seconds[of "issued + ttl"] by blast+
  fix now
  have "token = sign mac (user @ ''|'' @ format_rfc3339 zone (issued + ttl) @ ''|'' @ hex_encode rnd) (au_secret a')"
    using assms(3,4) by (simp add: generate_token_def new_jti_def)
  then show "validate_token mac a' now token =
      (if now > ?e then Inl TokenExpired
       else if map_of (au_revoked a') (hex_encode rnd) \<noteq> None then Inl TokenRevoked
       else Inr \<lparr>cl_user_id = user, cl_expires_at = ?e, cl_jti = hex_encode rnd\<rparr>)"
    using validate_generated[OF assms(1,2)] by simp
qed

definition toy_mac :: mac_fn where "toy_mac k m = rev (k @ m)"

lemma first_day: "formattable 0 90000000000"
  by (simp add: formattable_def year_of.simps year_len_def leap_year_def)

theorem token_lifecycle_witness:
  "\<exists>token. generate_token toy_mac 0 (new_authenticator ''s3'') ''ana'' 30000000000 60000000000 (Some ''A'') = Some token \<and>
     validate_token toy_mac (new_authenticator ''s3'') 91000000001 token = Inl TokenExpired \<and>
     cl_user_id (projr (validate_token toy_mac (new_authenticator ''s3'') 89000000000 token)) = ''ana''"
proof -
  let ?a = "new_authenticator ''s3''"
  obtain token where t: "generate_token toy_mac 0 ?a ''ana'' 30000000000 60000000000 (Some ''A'') = Some token"
    by (simp add: generate_token_def new_jti_def)
  have u: "CHR ''|'' \<notin> set ''ana''" by simp
  have f: "formattable 0 (60000000000 + 30000000000)" using first_day by simp
  from token_lifecycle[OF u f t refl] obtain e where e: "60000000000 + 30000000000 - 1000000000 < e" "e \<le> 60000000000 + 30000000000"
    "\<And>now. validate_token toy_mac ?a now token =
      (if now > e then Inl TokenExpired else if map_of (au_revoked ?a) (hex_encode ''A'') \<noteq> None then Inl TokenRevoked
       else Inr \<lparr>cl_user_id = ''ana'', cl_expires_at = e, cl_jti = hex_encode ''A''\<rparr>)"
    by blast
  then show ?thesis using t by (simp add: new_authenticator_def)
qed

subsection \<open>Revocation\<close>

datatype auth_op = Revoke claims | CollectRevoked time

definition run_auth :: "auth_op list \<Rightarrow> authenticator \<Rightarrow> authenticator" where
  "run_auth ops a = fold (\<lambda>op. case op of Revoke c \<Rightarrow> revoke_token c | CollectRevoked t \<Rightarrow> revoked_gc t) ops a"

definition holds_revoked :: "string \<Rightarrow> time \<Rightarrow> authenticator \<Rightarrow> bool" where
  "holds_revoked jti expiry a \<longleftrightarrow> distinct (map fst (au_revoked a)) \<and>
     (\<exists>e. map_of (au_revoked a) jti = Some e \<and> e \<ge> expiry)"

lemma revoke_secret [simp]: "au_secret (revoke_token c a) = au_secret a"
  by (simp add: revoke_token_def)

lemma run_auth_secret [simp]: "au_secret (run_auth ops a) = au_secret a"
  by (induction ops arbitrary: a) (auto simp: run_auth_def revoke_token_def revoked_gc_def split: auth_op.split)

lemma run_auth_holds:
  assumes "holds_revoked jti expiry a" "jti \<noteq> []"
    and "\<forall>c. Revoke c \<in> set ops \<and> cl_jti c = jti \<longrightarrow> cl_expires_at c \<ge> expiry"
    and "\<forall>t. CollectRevoked t \<in> set ops \<longrightarrow> t \<le> expiry"
  shows "holds_revoked jti expiry (run_auth ops a)"
  using assms
proof (induction ops arbitrary: a)
  case (Cons op ops)
  have "holds_revoked jti expiry (case op of Revoke c \<Rightarrow> revoke_token c a | CollectRevoked t \<Rightarrow> revoked_gc t a)"
  proof (cases op)
    case (Revoke c)
    with Cons.prems show ?thesis
      by (cases "cl_jti c = jti") (auto simp: holds_revoked_def revoke_token_def AList.distinct_update)
  next
    case (CollectRevoked t)
    with Cons.prems have "t \<le> expiry" by simp
    with Cons.prems(1) CollectRevoked show ?thesis
      by (auto simp: holds_revoked_def revoked_gc_def map_of_filter_key distinct_map_fst_filter)
  qed
  with Cons.prems Cons.IH[of "case op of Revoke c \<Rightarrow> revoke_token c a | CollectRevoked t \<Rightarrow> revoked_gc t a"]
  show ?case by (cases op) (auto simp: run_auth_def)
qed (simp add: run_auth_def)

text \<open>
  C3: Logging out a token is final: once the claims of an accepted token are revoked, that token is
  refused at every later time, whatever is revoked afterwards and however often the collection runs,
  although the collection forgets the jti; another revocation of the same jti only has to carry an
  expiry that is not earlier.
\<close>

theorem revoked_token_stays_revoked:
  assumes "validate_token mac a t0 token = Inr c" and "cl_jti c \<noteq> []"
    and "distinct (map fst (au_revoked a))"
    and "\<forall>c'. Revoke c' \<in> set ops \<and> cl_jti c' = cl_jti c \<longrightarrow> cl_expires_at c' \<ge> cl_expires_at c"
    and "\<forall>t. CollectRevoked t \<in> set ops \<longrightarrow> t \<le> now"
  shows "validate_token mac (run_auth ops (revoke_token c a)) now token \<in> {Inl TokenExpired, Inl TokenRevoked}"
proof -
  obtain payload exp_str where p: "verify mac token (au_secret a) = Some payload"
    "split3 payload = Some (cl_user_id c, exp_str, cl_jti c)" "parse_rfc3339 exp_str = Some (cl_expires_at c)"
    using assms(1) by (auto simp: validate_token_def split: option.splits if_splits)
  show ?thesis
  proof (cases "now > cl_expires_at c")
    case True
    then show ?thesis using p by (simp add: validate_token_def)
  next
    case False
    have "holds_revoked (cl_jti c) (cl_expires_at c) (revoke_token c a)"
      using assms(2,3) by (simp add: holds_revoked_def revoke_token_def AList.distinct_update)
    then have "holds_revoked (cl_jti c) (cl_expires_at c) (run_auth ops (revoke_token c a))"
      using assms(2,4,5) False by (intro run_auth_holds) force+
    then have "map_of (au_revoked (run_auth ops (revoke_token c a))) (cl_jti c) \<noteq> None"
      by (auto simp: holds_revoked_def)
    then show ?thesis using p False by (simp add: validate_token_def)
  qed
qed

lemma sample_token: "validate_token toy_mac (new_authenticator ''s3'') 5
   (sign toy_mac (''ana'' @ ''|'' @ format_rfc3339 0 90000000000 @ ''|'' @ ''j1'') (au_secret (new_authenticator ''s3''))) =
   Inr \<lparr>cl_user_id = ''ana'', cl_expires_at = 90000000000, cl_jti = ''j1''\<rparr>"
  using validate_generated[OF _ first_day, of "''ana''" toy_mac "new_authenticator ''s3''" 5 "''j1''"]
  by (simp add: new_authenticator_def)

theorem revoked_token_stays_revoked_witness:
  "validate_token toy_mac (run_auth [CollectRevoked 90000000001]
       (revoke_token \<lparr>cl_user_id = ''ana'', cl_expires_at = 90000000000, cl_jti = ''j1''\<rparr> (new_authenticator ''s3''))) 90000000001
     (sign toy_mac (''ana'' @ ''|'' @ format_rfc3339 0 90000000000 @ ''|'' @ ''j1'') (au_secret (new_authenticator ''s3'')))
   \<in> {Inl TokenExpired, Inl TokenRevoked}"
  using revoked_token_stays_revoked[OF sample_token, of "[CollectRevoked 90000000001]" 90000000001]
  by (simp add: new_authenticator_def)

text \<open>
  A separator in the user id is not refused and shifts the fields: a token generated for
  \<open>victim|<time>\<close> is a token of \<open>victim\<close> valid until that time, whatever lifetime it was given.
\<close>

theorem separator_forges_claims:
  assumes "CHR ''|'' \<notin> set victim" and "formattable zone until" and "now \<le> until div 1000000000 * 1000000000"
    and "generate_token mac zone a (victim @ ''|'' @ format_rfc3339 zone until) ttl issued (Some rnd) = Some token"
    and "au_revoked a = []"
  shows "\<exists>jti. validate_token mac a now token =
    Inr \<lparr>cl_user_id = victim, cl_expires_at = until div 1000000000 * 1000000000, cl_jti = jti\<rparr>"
proof -
  let ?j = "format_rfc3339 zone (issued + ttl) @ ''|'' @ hex_encode rnd"
  have "token = sign mac (victim @ ''|'' @ format_rfc3339 zone until @ ''|'' @ ?j) (au_secret a)"
    using assms(4) by (simp add: generate_token_def new_jti_def)
  then show ?thesis using validate_generated[OF assms(1,2), of mac a now ?j] assms(3,5) by auto
qed

theorem separator_forges_claims_witness:
  "\<exists>token c. generate_token toy_mac 0 (new_authenticator ''s3'') (''root'' @ ''|'' @ format_rfc3339 0 90000000000) 1 0 (Some ''A'') = Some token \<and>
     validate_token toy_mac (new_authenticator ''s3'') 80000000000 token = Inr c \<and> cl_user_id c = ''root''"
proof -
  obtain token where t: "generate_token toy_mac 0 (new_authenticator ''s3'') (''root'' @ ''|'' @ format_rfc3339 0 90000000000) 1 0 (Some ''A'') = Some token"
    by (simp add: generate_token_def new_jti_def)
  have "CHR ''|'' \<notin> set ''root''" "80000000000 \<le> (90000000000 :: int) div 1000000000 * 1000000000"
    "au_revoked (new_authenticator ''s3'') = []" by (simp_all add: new_authenticator_def)
  from separator_forges_claims[OF this(1) first_day this(2) t this(3)] t show ?thesis by auto
qed

end
