(* ===== verification/Cache.thy ===== *)
theory Cache
  imports Sessions
begin

text \<open>
  The key/value cache with time to live of \<open>core/cache/cache.go\<close> in its two modes: a bounded map in
  memory, and Redis. The Redis client is outside: its commands are the fields of \<open>redis_api\<close> over a
  server state, and \<open>json.Marshal\<close>/\<open>json.Unmarshal\<close> into \<open>any\<close> are the functions \<open>marshal\<close> and
  \<open>unmarshal\<close>. The memory mode implements the interface \<open>ttl_map\<close> of the session store.
\<close>

declare map_of_eq_Some_iff [simp del] AList.update_conv' [simp]

definition default_max_entries :: int where "default_max_entries = 100000"

record cache_entry =
  ce_value :: goval
  ce_expires :: time

record mem_cache =
  mc_entries :: "(string \<times> cache_entry) list"
  mc_max_entries :: int
  mc_stopped :: bool

record 'r redis_api =
  r_set :: "string \<Rightarrow> string \<Rightarrow> duration \<Rightarrow> 'r \<Rightarrow> bool \<times> 'r"
  r_get :: "string \<Rightarrow> time \<Rightarrow> 'r \<Rightarrow> string option"
  r_del :: "string \<Rightarrow> 'r \<Rightarrow> 'r"
  r_dbsize :: "'r \<Rightarrow> int option"

datatype 'r cache = Memory mem_cache | Redis 'r

definition cache_new :: "'r cache" where
  "cache_new = Memory \<lparr>mc_entries = [], mc_max_entries = default_max_entries, mc_stopped = False\<rparr>"

text \<open>\<open>NewRedis\<close>: \<open>connect\<close> is the client and whether the server answers its PING.\<close>

definition cache_new_redis :: "(string \<Rightarrow> string \<Rightarrow> 'r \<times> bool) \<Rightarrow> string \<Rightarrow> string \<Rightarrow> string + 'r cache" where
  "cache_new_redis connect addr password =
     (case connect addr password of (r, ok) \<Rightarrow>
        if ok then Inr (Redis r) else Inl (''cache: conectar ao redis em '' @ addr))"

definition set_max_entries :: "int \<Rightarrow> 'r cache \<Rightarrow> 'r cache" where
  "set_max_entries n c = (case c of Memory m \<Rightarrow> Memory (m\<lparr>mc_max_entries := n\<rparr>) | Redis r \<Rightarrow> Redis r)"

text \<open>
  \<open>evictLocked\<close>; the range loop deletes the first key it meets, which Go leaves open: the \<open>victim\<close>-th.
\<close>

definition drop_expired :: "time \<Rightarrow> (string \<times> cache_entry) list \<Rightarrow> (string \<times> cache_entry) list" where
  "drop_expired now es = filter (\<lambda>(k, e). \<not> now > ce_expires e) es"

definition evict :: "time \<Rightarrow> nat \<Rightarrow> (string \<times> cache_entry) list \<Rightarrow> (string \<times> cache_entry) list" where
  "evict now victim es =
     (let kept = drop_expired now es
      in if length kept < length es then kept
         else if es = [] then es
         else AList.delete (fst (es ! (victim mod length es))) es)"

definition mem_set :: "time \<Rightarrow> nat \<Rightarrow> string \<Rightarrow> goval \<Rightarrow> duration \<Rightarrow> mem_cache \<Rightarrow> mem_cache" where
  "mem_set now victim key v ttl m =
     (let es = (if map_of (mc_entries m) key = None \<and> int (length (mc_entries m)) \<ge> mc_max_entries m
                then evict now victim (mc_entries m) else mc_entries m)
      in m\<lparr>mc_entries := AList.update key \<lparr>ce_value = v, ce_expires = now + ttl\<rparr> es\<rparr>)"

definition cache_set ::
  "'r redis_api \<Rightarrow> (goval \<Rightarrow> string option) \<Rightarrow> time \<Rightarrow> nat \<Rightarrow> string \<Rightarrow> goval \<Rightarrow> duration \<Rightarrow> 'r cache \<Rightarrow> 'r cache"
where
  "cache_set api marshal now victim key v ttl c =
     (case c of
        Redis r \<Rightarrow> (case marshal v of None \<Rightarrow> Redis r | Some data \<Rightarrow> Redis (snd (r_set api key data ttl r)))
      | Memory m \<Rightarrow> Memory (mem_set now victim key v ttl m))"

definition mem_get :: "mem_cache \<Rightarrow> time \<Rightarrow> string \<Rightarrow> goval option" where
  "mem_get m now key =
     (case map_of (mc_entries m) key of
        None \<Rightarrow> None
      | Some e \<Rightarrow> if now > ce_expires e then None else Some (ce_value e))"

definition cache_get ::
  "'r redis_api \<Rightarrow> (string \<Rightarrow> goval option) \<Rightarrow> 'r cache \<Rightarrow> time \<Rightarrow> string \<Rightarrow> goval option"
where
  "cache_get api unmarshal c now key =
     (case c of
        Redis r \<Rightarrow> (case r_get api key now r of None \<Rightarrow> None | Some data \<Rightarrow> unmarshal data)
      | Memory m \<Rightarrow> mem_get m now key)"

definition mem_delete :: "string \<Rightarrow> mem_cache \<Rightarrow> mem_cache" where
  "mem_delete key m = m\<lparr>mc_entries := AList.delete key (mc_entries m)\<rparr>"

definition cache_delete :: "'r redis_api \<Rightarrow> string \<Rightarrow> 'r cache \<Rightarrow> 'r cache" where
  "cache_delete api key c = (case c of Redis r \<Rightarrow> Redis (r_del api key r) | Memory m \<Rightarrow> Memory (mem_delete key m))"

definition cache_len :: "'r redis_api \<Rightarrow> 'r cache \<Rightarrow> int" where
  "cache_len api c =
     (case c of
        Redis r \<Rightarrow> (case r_dbsize api r of None \<Rightarrow> 0 | Some n \<Rightarrow> n)
      | Memory m \<Rightarrow> int (length (mc_entries m)))"

definition cache_close :: "'r cache \<Rightarrow> 'r cache" where
  "cache_close c = (case c of Memory m \<Rightarrow> Memory (m\<lparr>mc_stopped := True\<rparr>) | Redis r \<Rightarrow> Redis r)"

text \<open>One tick of \<open>gc\<close>; the goroutine has returned once the cache is closed.\<close>

definition mem_gc :: "time \<Rightarrow> mem_cache \<Rightarrow> mem_cache" where
  "mem_gc now m = (if mc_stopped m then m else m\<lparr>mc_entries := drop_expired now (mc_entries m)\<rparr>)"

definition mem_ok :: "mem_cache \<Rightarrow> bool" where
  "mem_ok m \<longleftrightarrow> distinct (map fst (mc_entries m))"

lemma drop_expired_keys: "distinct (map fst es) \<Longrightarrow> distinct (map fst (drop_expired now es))"
  by (simp add: drop_expired_def distinct_map_fst_filter)

lemma drop_expired_lookup: "distinct (map fst es) \<Longrightarrow> map_of (drop_expired now es) k =
  (case map_of es k of None \<Rightarrow> None | Some e \<Rightarrow> if now > ce_expires e then None else Some e)"
  by (simp add: drop_expired_def map_of_filter_key split: option.split)

interpretation memory: ttl_map mem_get mem_delete mem_gc mem_ok
proof
  fix m :: mem_cache and k k' :: string and t now :: time
  assume ok: "mem_ok m"
  then show "mem_ok (mem_delete k m)" by (simp add: mem_ok_def mem_delete_def AList.distinct_delete)
  show "mem_ok (mem_gc t m)" using ok by (simp add: mem_ok_def mem_gc_def drop_expired_keys)
  show "mem_get (mem_delete k m) t k' = (if k' = k then None else mem_get m t k')"
    by (simp add: mem_get_def mem_delete_def)
  assume "now \<le> t"
  with ok show "mem_get (mem_gc now m) t k = mem_get m t k"
    by (simp add: mem_get_def mem_gc_def mem_ok_def drop_expired_lookup split: option.split)
qed

lemma evict_lookup:
  assumes "distinct (map fst es)" "now \<le> t"
  shows "\<exists>lost. (\<forall>k. k \<noteq> lost \<longrightarrow> mem_get (m\<lparr>mc_entries := evict now v es\<rparr>) t k = mem_get (m\<lparr>mc_entries := es\<rparr>) t k) \<and>
    ((\<exists>(k, e)\<in>set es. now > ce_expires e) \<longrightarrow>
       (\<forall>k. mem_get (m\<lparr>mc_entries := evict now v es\<rparr>) t k = mem_get (m\<lparr>mc_entries := es\<rparr>) t k))"
proof (cases "length (drop_expired now es) < length es")
  case True
  then show ?thesis using assms
    by (intro exI[of _ "[]"]) (auto simp: evict_def mem_get_def drop_expired_lookup split: option.split)
next
  case False
  then have "length (filter (\<lambda>(k, e). \<not> now > ce_expires e) es) = length es"
    by (metis drop_expired_def le_neq_implies_less length_filter_le)
  then have "\<not> now > ce_expires e" if "(k, e) \<in> set es" for k e
    using length_filter_less[OF that, of "\<lambda>(k, e). \<not> now > ce_expires e"] by auto
  then have "\<forall>(k, e)\<in>set es. \<not> now > ce_expires e" by auto
  with False show ?thesis
    by (intro exI[of _ "fst (es ! (v mod length es))"]) (auto simp: evict_def mem_get_def)
qed

lemma length_evict: "distinct (map fst es) \<Longrightarrow> es \<noteq> [] \<Longrightarrow> length (evict now v es) < length es"
proof -
  assume d: "distinct (map fst es)" "es \<noteq> []"
  have "fst (es ! (v mod length es)) \<in> fst ` set es" using d by simp
  then have "length (AList.delete (fst (es ! (v mod length es))) es) < length es"
    by (auto simp: AList.delete_eq intro!: length_filter_less)
  with d show ?thesis by (auto simp: evict_def Let_def)
qed

text \<open>
  A stored value is returned until it expires. The memory cache never grows past its limit, and
  storing a new key in a full cache costs at most one other live entry, none if an expired one could
  be dropped and none when there is room or the key is already there.
\<close>

theorem cache_set_bounded:
  assumes "mem_ok m" and "now \<le> t"
  shows "mem_ok (mem_set now victim key v ttl m) \<and>
    mem_get (mem_set now victim key v ttl m) t key = (if t > now + ttl then None else Some v) \<and>
    int (length (mc_entries (mem_set now victim key v ttl m))) \<le>
      max (int (length (mc_entries m))) (max 1 (mc_max_entries m)) \<and>
    (\<exists>lost. \<forall>k. k \<noteq> key \<and> k \<noteq> lost \<longrightarrow> mem_get (mem_set now victim key v ttl m) t k = mem_get m t k) \<and>
    (key \<in> fst ` set (mc_entries m) \<or> int (length (mc_entries m)) < mc_max_entries m \<or>
       (\<exists>(k, e)\<in>set (mc_entries m). now > ce_expires e) \<longrightarrow>
       (\<forall>k. k \<noteq> key \<longrightarrow> mem_get (mem_set now victim key v ttl m) t k = mem_get m t k))"
proof -
  let ?es = "mc_entries m"
  let ?full = "map_of ?es key = None \<and> int (length ?es) \<ge> mc_max_entries m"
  let ?es' = "if ?full then evict now victim ?es else ?es"
  have d: "distinct (map fst ?es)" using assms(1) by (simp add: mem_ok_def)
  then have d': "distinct (map fst ?es')" by (auto simp: evict_def Let_def drop_expired_keys AList.distinct_delete)
  have s: "mem_set now victim key v ttl m = m\<lparr>mc_entries := AList.update key \<lparr>ce_value = v, ce_expires = now + ttl\<rparr> ?es'\<rparr>"
    by (simp add: mem_set_def Let_def)
  have o: "mem_get (mem_set now victim key v ttl m) t k = mem_get (m\<lparr>mc_entries := ?es'\<rparr>) t k" if "k \<noteq> key" for k
    using that by (simp add: s mem_get_def)
  have "mem_ok (mem_set now victim key v ttl m)" using d' by (simp add: s mem_ok_def AList.distinct_update)
  moreover have "mem_get (mem_set now victim key v ttl m) t key = (if t > now + ttl then None else Some v)"
    by (simp add: s mem_get_def)
  moreover have "int (length (mc_entries (mem_set now victim key v ttl m))) \<le> max (int (length ?es)) (max 1 (mc_max_entries m))"
  proof (cases "?full")
    case True
    have "length (AList.update key e ?es') \<le> Suc (length ?es')" for e by (simp add: length_AList_update)
    moreover have "?es \<noteq> [] \<Longrightarrow> length ?es' < length ?es" using True length_evict[OF d] by simp
    moreover have "?es = [] \<Longrightarrow> ?es' = []" by (simp add: evict_def)
    ultimately show ?thesis by (cases "?es = []") (fastforce simp: s intro: le_trans)+
  next
    case False
    then show ?thesis by (auto simp: s length_AList_update map_of_eq_None_iff)
  qed
  moreover have "\<exists>lost. \<forall>k. k \<noteq> key \<and> k \<noteq> lost \<longrightarrow> mem_get (mem_set now victim key v ttl m) t k = mem_get m t k"
    using evict_lookup[OF d assms(2), where m = m and v = victim] o by (cases ?full) auto
  moreover have "mem_get (mem_set now victim key v ttl m) t k = mem_get m t k"
    if "key \<in> fst ` set ?es \<or> int (length ?es) < mc_max_entries m \<or> (\<exists>(k, e)\<in>set ?es. now > ce_expires e)" "k \<noteq> key" for k
    using that evict_lookup[OF d assms(2), where m = m and v = victim] o[OF that(2)] by (cases ?full) (auto simp: map_of_eq_None_iff)
  ultimately show ?thesis by blast
qed

theorem cache_set_bounded_witness:
  "let m = mem_set 5 0 ''b'' (GStr ''y'') 10 (mem_set 1 0 ''a'' (GStr ''x'') 2 \<lparr>mc_entries = [], mc_max_entries = 1, mc_stopped = False\<rparr>)
   in mem_get m 6 ''b'' = Some (GStr ''y'') \<and> mem_get m 6 ''a'' = None \<and> length (mc_entries m) \<le> 1"
proof -
  let ?m = "mem_set 1 0 ''a'' (GStr ''x'') 2 \<lparr>mc_entries = [], mc_max_entries = 1, mc_stopped = False\<rparr>"
  have m: "?m = \<lparr>mc_entries = [(''a'', \<lparr>ce_value = GStr ''x'', ce_expires = 3\<rparr>)], mc_max_entries = 1, mc_stopped = False\<rparr>"
    by (simp add: mem_set_def)
  have "mem_ok ?m" by (simp add: m mem_ok_def)
  from cache_set_bounded[OF this, of 5 6 0 "''b''" "GStr ''y''" 10]
  show ?thesis by (auto simp: Let_def m mem_get_def)
qed

text \<open>
  The two modes answer alike: after \<open>Set\<close>, \<open>Get\<close> of the key gives the value (Redis: its JSON form
  read back) exactly until the time to live has passed, after \<open>Delete\<close> nothing, and a value without
  JSON form is not stored in Redis at all.
\<close>

theorem cache_modes_agree:
  assumes "\<And>k d l r t. fst (r_set api k d l r) \<Longrightarrow> r_get api k t (snd (r_set api k d l r)) = (if t > now + l then None else Some d)"
    and "\<And>k r t. r_get api k t (r_del api k r) = None"
    and "\<forall>k d l. fst (r_set api k d l r)"
    and "mem_ok m" and "now \<le> t" and "marshal v = Some d" and "unmarshal d = Some v'"
  shows "cache_get api unmarshal (cache_set api marshal now victim key v ttl (Redis r)) t key = (if t > now + ttl then None else Some v') \<and>
    cache_get api unmarshal (cache_set api marshal now victim key v ttl (Memory m)) t key = (if t > now + ttl then None else Some v) \<and>
    (\<forall>c. cache_get api unmarshal (cache_delete api key c) t key = None) \<and>
    (\<forall>w. marshal w = None \<longrightarrow> cache_set api marshal now victim key w ttl (Redis r) = Redis r)"
proof -
  have "r_get api key t (snd (r_set api key d ttl r)) = (if t > now + ttl then None else Some d)" using assms(1,3) by blast
  moreover have "mem_get (mem_set now victim key v ttl m) t key = (if t > now + ttl then None else Some v)"
    by (simp add: mem_set_def Let_def mem_get_def)
  moreover have "mem_get (mem_delete key m') t key = None" for m' by (simp add: mem_get_def mem_delete_def)
  ultimately show ?thesis using assms(2,6,7) by (auto simp: cache_get_def cache_set_def cache_delete_def split: cache.split)
qed

definition toy_redis :: "(string \<times> string \<times> time) list redis_api" where
  "toy_redis = \<lparr>r_set = (\<lambda>k d l r. (True, AList.update k (d, l) r)),
     r_get = (\<lambda>k t r. case map_of r k of None \<Rightarrow> None | Some (d, l) \<Rightarrow> if t > l then None else Some d),
     r_del = AList.delete, r_dbsize = (\<lambda>r. Some (int (length r)))\<rparr>"

theorem cache_modes_agree_witness:
  "cache_get toy_redis (\<lambda>d. Some (GStr d)) (cache_set toy_redis (\<lambda>v. case v of GStr s \<Rightarrow> Some s | _ \<Rightarrow> None) 0 0 ''k'' (GStr ''x'') 10 (Redis [])) 5 ''k''
     = Some (GStr ''x'')"
proof -
  have "fst (r_set toy_redis k d l r) \<Longrightarrow> r_get toy_redis k t (snd (r_set toy_redis k d l r)) = (if t > 0 + l then None else Some d)" for k d l r t
    by (simp add: toy_redis_def)
  moreover have "r_get toy_redis k t (r_del toy_redis k r) = None" for k r t by (simp add: toy_redis_def)
  moreover have "\<forall>k d l. fst (r_set toy_redis k d l [])" by (simp add: toy_redis_def)
  moreover have "mem_ok \<lparr>mc_entries = [], mc_max_entries = 1, mc_stopped = False\<rparr>" by (simp add: mem_ok_def)
  ultimately show ?thesis
    using cache_modes_agree[of toy_redis 0 "[]" "\<lparr>mc_entries = [], mc_max_entries = 1, mc_stopped = False\<rparr>" 5
        "\<lambda>v. case v of GStr s \<Rightarrow> Some s | _ \<Rightarrow> None" "GStr ''x''" "''x''" "\<lambda>d. Some (GStr d)" "GStr ''x''" 0 "''k''" 10] by simp
qed

text \<open>
  A cached value goes only by deletion or expiry: after any sequence of deletions and collections
  (at clock readings up to \<open>t\<close>, before or after the cache is closed) a key has at \<open>t\<close> the value it had,
  unless it was deleted.
\<close>

theorem cache_deletion_final:
  assumes "mem_ok m" and "\<forall>now. TCollect now \<in> set ops \<longrightarrow> now \<le> t"
  shows "mem_get (run_ttl mem_delete mem_gc ops m) t k = (if TDrop k \<in> set ops then None else mem_get m t k)"
  by (rule memory.look_run[OF assms])

theorem cache_deletion_final_witness:
  "mem_get (run_ttl mem_delete mem_gc [TCollect 4, TDrop ''b'']
     \<lparr>mc_entries = [(''a'', \<lparr>ce_value = GNil, ce_expires = 9\<rparr>)], mc_max_entries = 1, mc_stopped = False\<rparr>) 5 ''a'' = Some GNil"
proof -
  let ?m = "\<lparr>mc_entries = [(''a'', \<lparr>ce_value = GNil, ce_expires = 9\<rparr>)], mc_max_entries = 1, mc_stopped = False\<rparr>"
  have o: "mem_ok ?m" by (simp add: mem_ok_def)
  have t: "\<forall>now. TCollect now \<in> set [TCollect 4, TDrop ''b''] \<longrightarrow> now \<le> 5" by simp
  from cache_deletion_final[OF o t, of "''a''"] show ?thesis by (simp add: mem_get_def)
qed

end
