(* ===== verification/Queue.thy ===== *)
theory Queue
  imports Prelude "HOL-Library.Multiset"
begin

text \<open>
  The task queue of \<open>core/queue/queue.go\<close>: a bounded channel served by a pool of workers, with
  retries and a graceful \<open>Close\<close>. Go runs callers, workers and retry timers concurrently; the model is
  the step relation \<open>queue_step\<close> whose steps are the sections between two synchronisation points:
  the check of \<open>Enqueue\<close> under the read lock, the send on the channel, a worker's receive, the end of
  a handler, the firing of a retry timer, \<open>Close\<close>. The outcome of a handler is whatever the
  application makes it. \<open>qh_accepted\<close>, \<open>qh_finished\<close> and \<open>qh_calls\<close> record the history. The Redis
  mode replaces the channel by a list on a server outside; its send and receive are given over the
  client's commands.
\<close>

definition default_workers :: int where "default_workers = 4"
definition default_buffer_size :: int where "default_buffer_size = 1024"
definition default_max_retries :: int where "default_max_retries = 3"
definition default_max_age :: duration where "default_max_age = 24 * 3600 * 1000000000"

record 'p task =
  tk_name :: string
  tk_payload :: 'p
  tk_attempt :: int
  tk_enqueued_at :: time

datatype queue_error = QueueFull | QueueClosed | NoHandler | NotSerialisable string | PushFailed string

datatype 'p sender = Caller "'p task" | Retry "'p task"

datatype handler_result = HandlerOk | HandlerError | HandlerPanic

text \<open>What \<open>process\<close> does with a task.\<close>

datatype 'p verdict = Expired | Unhandled | Completed | Exhausted | Panicking | Again time "'p task"

record 'p queue =
  qu_handlers :: "string list"
  qu_tasks :: "'p task list"
  qu_buffer :: nat
  qu_workers :: nat
  qu_closed :: bool
  qu_max_retries :: int
  qu_max_age :: duration
  qu_running :: "'p task list"
  qu_timers :: "(time \<times> 'p task) list"
  qu_senders :: "'p sender list"
  qu_crashed :: bool
  qh_accepted :: "'p task list"
  qh_finished :: "'p task list"
  qh_calls :: "'p task list"

definition new_queue :: "int \<Rightarrow> int \<Rightarrow> 'p queue" where
  "new_queue workers buffer =
     \<lparr>qu_handlers = [], qu_tasks = [],
      qu_buffer = nat (if buffer \<le> 0 then default_buffer_size else buffer),
      qu_workers = nat (if workers \<le> 0 then default_workers else workers),
      qu_closed = False, qu_max_retries = default_max_retries, qu_max_age = default_max_age,
      qu_running = [], qu_timers = [], qu_senders = [], qu_crashed = False,
      qh_accepted = [], qh_finished = [], qh_calls = []\<rparr>"

definition set_max_retries :: "int \<Rightarrow> 'p queue \<Rightarrow> 'p queue" where
  "set_max_retries n q = q\<lparr>qu_max_retries := n\<rparr>"

definition set_max_age :: "duration \<Rightarrow> 'p queue \<Rightarrow> 'p queue" where
  "set_max_age d q = q\<lparr>qu_max_age := d\<rparr>"

definition register_handler :: "string \<Rightarrow> 'p queue \<Rightarrow> 'p queue" where
  "register_handler name q = q\<lparr>qu_handlers := List.insert name (qu_handlers q)\<rparr>"

text \<open>\<open>Enqueue\<close> up to the send: the checks under the read lock.\<close>

definition enqueue_check :: "string \<Rightarrow> 'p \<Rightarrow> time \<Rightarrow> 'p queue \<Rightarrow> queue_error + 'p task" where
  "enqueue_check name payload now q =
     (if qu_closed q then Inl QueueClosed
      else if name \<notin> set (qu_handlers q) then Inl NoHandler
      else Inr \<lparr>tk_name = name, tk_payload = payload, tk_attempt = 0, tk_enqueued_at = now\<rparr>)"

text \<open>
  \<open>enqueueTask\<close> in memory mode: the non-blocking send. \<open>None\<close> is the panic of a send on the
  channel \<open>Close\<close> has closed.
\<close>

definition enqueue_task :: "'p task \<Rightarrow> 'p queue \<Rightarrow> (queue_error option \<times> 'p queue) option" where
  "enqueue_task t q =
     (if qu_closed q then None
      else if length (qu_tasks q) < qu_buffer q then Some (None, q\<lparr>qu_tasks := qu_tasks q @ [t]\<rparr>)
      else Some (Some QueueFull, q))"

definition queue_len :: "'p queue \<Rightarrow> nat" where
  "queue_len q = length (qu_tasks q)"

definition close_queue :: "'p queue \<Rightarrow> 'p queue" where
  "close_queue q = (if qu_closed q then q else q\<lparr>qu_closed := True\<rparr>)"

text \<open>\<open>process\<close>; \<open>h\<close> is what the handler does if it is called, \<open>now\<close> the clock.\<close>

definition process :: "handler_result \<Rightarrow> time \<Rightarrow> 'p queue \<Rightarrow> 'p task \<Rightarrow> 'p verdict" where
  "process h now q t =
     (if qu_max_age q > 0 \<and> tk_enqueued_at t \<noteq> 0 \<and> now - tk_enqueued_at t > qu_max_age q then Expired
      else if tk_name t \<notin> set (qu_handlers q) then Unhandled
      else
        (case h of
           HandlerOk \<Rightarrow> Completed
         | HandlerPanic \<Rightarrow> Panicking
         | HandlerError \<Rightarrow>
             if tk_attempt t + 1 \<ge> qu_max_retries q then Exhausted
             else
               (let t' = t\<lparr>tk_attempt := tk_attempt t + 1\<rparr>
                in Again (now + tk_attempt t' * 1000000000) t')))"

definition handler_called :: "'p verdict \<Rightarrow> bool" where
  "handler_called v = (case v of Expired \<Rightarrow> False | Unhandled \<Rightarrow> False | _ \<Rightarrow> True)"

text \<open>The end of \<open>process\<close> in a worker: the task leaves the worker, finished or with a retry timer set.\<close>

definition finish_task :: "handler_result \<Rightarrow> time \<Rightarrow> 'p task \<Rightarrow> 'p queue \<Rightarrow> 'p queue" where
  "finish_task h now t q =
     (let v = process h now q t;
          q1 = q\<lparr>qu_running := remove1 t (qu_running q),
                 qh_calls := (if handler_called v then t # qh_calls q else qh_calls q)\<rparr>
      in case v of
           Again due t' \<Rightarrow> q1\<lparr>qu_timers := (due, t') # qu_timers q1\<rparr>
         | _ \<Rightarrow> q1\<lparr>qh_finished := t # qh_finished q1\<rparr>)"

text \<open>\<open>requeue\<close> up to the send.\<close>

definition requeue_check :: "time \<times> 'p task \<Rightarrow> 'p queue \<Rightarrow> 'p queue" where
  "requeue_check dt q =
     (let q1 = q\<lparr>qu_timers := remove1 dt (qu_timers q)\<rparr>
      in if qu_closed q then q1\<lparr>qh_finished := snd dt # qh_finished q1\<rparr>
         else q1\<lparr>qu_senders := Retry (snd dt) # qu_senders q1\<rparr>)"

text \<open>
  The send of one waiting sender. A panic in \<open>Enqueue\<close> unwinds its caller; one in the retry timer's
  goroutine, which nothing recovers, ends the process.
\<close>

definition send_step :: "'p sender \<Rightarrow> 'p queue \<Rightarrow> 'p queue" where
  "send_step s q =
     (let q1 = q\<lparr>qu_senders := remove1 s (qu_senders q)\<rparr>
      in case s of
           Caller t \<Rightarrow>
             (case enqueue_task t q1 of
                Some (None, q2) \<Rightarrow> q2\<lparr>qh_accepted := t # qh_accepted q2\<rparr>
              | _ \<Rightarrow> q1)
         | Retry t \<Rightarrow>
             (case enqueue_task t q1 of
                Some (None, q2) \<Rightarrow> q2
              | Some (Some e, q2) \<Rightarrow> q2\<lparr>qh_finished := t # qh_finished q2\<rparr>
              | None \<Rightarrow> q1\<lparr>qu_crashed := True, qh_finished := t # qh_finished q1\<rparr>))"

inductive queue_step :: "time \<times> 'p queue \<Rightarrow> time \<times> 'p queue \<Rightarrow> bool" where
  Tick: "now \<le> now' \<Longrightarrow> queue_step (now, q) (now', q)"
| Register: "queue_step (now, q) (now, register_handler name q)"
| SetAge: "queue_step (now, q) (now, set_max_age d q)"
| Enqueue: "enqueue_check name payload now q = Inr t \<Longrightarrow> queue_step (now, q) (now, q\<lparr>qu_senders := Caller t # qu_senders q\<rparr>)"
| Send: "s \<in> set (qu_senders q) \<Longrightarrow> queue_step (now, q) (now, send_step s q)"
| Receive: "qu_tasks q = t # ts \<Longrightarrow> length (qu_running q) < qu_workers q \<Longrightarrow>
    queue_step (now, q) (now, q\<lparr>qu_tasks := ts, qu_running := t # qu_running q\<rparr>)"
| Finish: "t \<in> set (qu_running q) \<Longrightarrow> queue_step (now, q) (now, finish_task h now t q)"
| Fire: "(due, t) \<in> set (qu_timers q) \<Longrightarrow> due \<le> now \<Longrightarrow> queue_step (now, q) (now, requeue_check (due, t) q)"
| Close: "queue_step (now, q) (now, close_queue q)"

inductive_cases queue_stepE: "queue_step (now, q) (now', q')"

subsection \<open>Nothing is lost, nothing runs too often\<close>

text \<open>A task without its attempt counter: what the caller enqueued.\<close>

definition job :: "'p task \<Rightarrow> 'p task" where
  "job t = t\<lparr>tk_attempt := 0\<rparr>"

fun retry_of :: "'p sender \<Rightarrow> 'p task list" where
  "retry_of (Caller t) = []"
| "retry_of (Retry t) = [t]"

definition pending :: "'p queue \<Rightarrow> 'p task multiset" where
  "pending q = mset (qu_tasks q) + mset (qu_running q) + mset (map snd (qu_timers q)) + mset (concat (map retry_of (qu_senders q)))"

definition budget :: "int \<Rightarrow> 'p task \<Rightarrow> 'p task \<Rightarrow> int" where
  "budget m j t = (if job t = j then max 1 m - tk_attempt t else 0)"

definition calls_of :: "'p task \<Rightarrow> 'p task list \<Rightarrow> int" where
  "calls_of j ts = int (count (image_mset job (mset ts)) j)"

definition queue_inv :: "int \<Rightarrow> 'p queue \<Rightarrow> bool" where
  "queue_inv m q \<longleftrightarrow>
     qu_max_retries q = m \<and> length (qu_tasks q) \<le> qu_buffer q \<and> length (qu_running q) \<le> qu_workers q \<and>
     (\<forall>t. t \<in># pending q \<longrightarrow> 0 \<le> tk_attempt t \<and> tk_attempt t < max 1 m) \<and>
     (\<forall>t. Caller t \<in> set (qu_senders q) \<longrightarrow> tk_attempt t = 0) \<and>
     image_mset job (mset (qh_accepted q)) = image_mset job (pending q + mset (qh_finished q)) \<and>
     (\<forall>j. calls_of j (qh_calls q) + (\<Sum>t\<in>#pending q. budget m j t) \<le> max 1 m * calls_of j (qh_accepted q))"

lemma calls_of_Cons: "calls_of j (t # ts) = calls_of j ts + (if job t = j then 1 else 0)"
  by (simp add: calls_of_def)

lemma budget_pos: "0 \<le> tk_attempt t \<and> tk_attempt t < max 1 m \<Longrightarrow> 0 \<le> budget m j t \<and> (job t = j \<longrightarrow> 1 \<le> budget m j t)"
  by (auto simp: budget_def)

lemma budget_retry: "budget m j (t\<lparr>tk_attempt := tk_attempt t + 1\<rparr>) = budget m j t - (if job t = j then 1 else 0)"
  by (simp add: budget_def job_def)

lemma job_retry [simp]: "job (t\<lparr>tk_attempt := a\<rparr>) = job t"
  by (simp add: job_def)

lemma mset_remove_add: "x \<in> set xs \<Longrightarrow> mset xs = add_mset x (mset (remove1 x xs))"
  by simp

lemma senders_remove: "s \<in> set ss \<Longrightarrow>
  mset (concat (map retry_of ss)) = mset (retry_of s) + mset (concat (map retry_of (remove1 s ss)))"
  by (induction ss) (auto simp: ac_simps)

lemma timers_remove: "dt \<in> set ts \<Longrightarrow> mset (map snd ts) = add_mset (snd dt) (mset (map snd (remove1 dt ts)))"
  by (metis image_mset_add_mset mset_map mset_remove_add)

text \<open>The three ways a step moves a task: it stays live (perhaps retried), ends, or is new.\<close>

lemma queue_inv_same:
  assumes "queue_inv m q" "pending q' = pending q" "qu_max_retries q' = qu_max_retries q"
    and "length (qu_tasks q') \<le> qu_buffer q'" "length (qu_running q') \<le> qu_workers q'"
    and "qh_accepted q' = qh_accepted q" "qh_finished q' = qh_finished q" "qh_calls q' = qh_calls q"
    and "\<And>t. Caller t \<in> set (qu_senders q') \<Longrightarrow> tk_attempt t = 0"
  shows "queue_inv m q'"
  using assms by (simp add: queue_inv_def)

lemma queue_inv_end:
  assumes "queue_inv m q" "pending q = add_mset t (pending q')" "qu_max_retries q' = qu_max_retries q"
    and "length (qu_tasks q') \<le> qu_buffer q'" "length (qu_running q') \<le> qu_workers q'"
    and "qh_accepted q' = qh_accepted q" "qh_finished q' = t # qh_finished q" "qh_calls q' = (if c then t # qh_calls q else qh_calls q)"
    and "\<And>t. Caller t \<in> set (qu_senders q') \<Longrightarrow> tk_attempt t = 0"
  shows "queue_inv m q'"
proof -
  have t: "0 \<le> tk_attempt t \<and> tk_attempt t < max 1 m" using assms(1,2) by (simp add: queue_inv_def)
  have "calls_of j (qh_calls q') + (\<Sum>t\<in>#pending q'. budget m j t) \<le> max 1 m * calls_of j (qh_accepted q')" for j
  proof -
    have "calls_of j (qh_calls q) + (\<Sum>t\<in>#pending q. budget m j t) \<le> max 1 m * calls_of j (qh_accepted q)"
      using assms(1) by (simp add: queue_inv_def)
    with budget_pos[OF t, of j] show ?thesis by (auto simp: assms(2,6,8) calls_of_Cons split: if_splits)
  qed
  with assms show ?thesis by (simp add: queue_inv_def)
qed

lemma queue_inv_retry:
  assumes "queue_inv m q" "pending q = add_mset t P" "pending q' = add_mset (t\<lparr>tk_attempt := tk_attempt t + 1\<rparr>) P"
    and "tk_attempt t + 1 < m" "qu_max_retries q' = qu_max_retries q"
    and "length (qu_tasks q') \<le> qu_buffer q'" "length (qu_running q') \<le> qu_workers q'"
    and "qh_accepted q' = qh_accepted q" "qh_finished q' = qh_finished q" "qh_calls q' = t # qh_calls q"
    and "\<And>t. Caller t \<in> set (qu_senders q') \<Longrightarrow> tk_attempt t = 0"
  shows "queue_inv m q'"
proof -
  have "calls_of j (qh_calls q') + (\<Sum>t\<in>#pending q'. budget m j t) \<le> max 1 m * calls_of j (qh_accepted q')" for j
  proof -
    have "calls_of j (qh_calls q) + (\<Sum>t\<in>#pending q. budget m j t) \<le> max 1 m * calls_of j (qh_accepted q)"
      using assms(1) by (simp add: queue_inv_def)
    then show ?thesis by (simp add: assms(2,3,8,10) calls_of_Cons budget_retry)
  qed
  with assms show ?thesis by (auto simp: queue_inv_def)
qed

lemma queue_inv_accept:
  assumes "queue_inv m q" "pending q' = add_mset t (pending q)" "tk_attempt t = 0" "qu_max_retries q' = qu_max_retries q"
    and "length (qu_tasks q') \<le> qu_buffer q'" "length (qu_running q') \<le> qu_workers q'"
    and "qh_accepted q' = t # qh_accepted q" "qh_finished q' = qh_finished q" "qh_calls q' = qh_calls q"
    and "\<And>t. Caller t \<in> set (qu_senders q') \<Longrightarrow> tk_attempt t = 0"
  shows "queue_inv m q'"
proof -
  have "calls_of j (qh_calls q') + (\<Sum>t\<in>#pending q'. budget m j t) \<le> max 1 m * calls_of j (qh_accepted q')" for j
  proof -
    have "calls_of j (qh_calls q) + (\<Sum>t\<in>#pending q. budget m j t) \<le> max 1 m * calls_of j (qh_accepted q)"
      using assms(1) by (simp add: queue_inv_def)
    then show ?thesis by (simp add: assms(2,3,7,9) calls_of_Cons budget_def algebra_simps)
  qed
  with assms show ?thesis by (auto simp: queue_inv_def)
qed

lemma queue_invD:
  assumes "queue_inv m q"
  shows "length (qu_tasks q) \<le> qu_buffer q" "length (qu_running q) \<le> qu_workers q"
    "Caller t \<in> set (qu_senders q) \<Longrightarrow> tk_attempt t = 0" "qu_max_retries q = m"
  using assms by (auto simp: queue_inv_def)

lemma finish_inv:
  assumes inv: "queue_inv m q" and t: "t \<in> set (qu_running q)"
  shows "queue_inv m (finish_task h now t q)"
proof -
  let ?P = "mset (qu_tasks q) + mset (remove1 t (qu_running q)) + mset (map snd (qu_timers q)) + mset (concat (map retry_of (qu_senders q)))"
  have p: "pending q = add_mset t ?P" using t by (simp add: pending_def)
  note d = queue_invD[OF inv]
  have l: "length (remove1 t (qu_running q)) \<le> qu_workers q" using d(2) t by (simp add: length_remove1)
  show ?thesis
  proof (cases "process h now q t")
    case (Again due t')
    then have t': "t' = t\<lparr>tk_attempt := tk_attempt t + 1\<rparr>" "tk_attempt t + 1 < m"
      using d(4) by (auto simp: process_def Let_def split: if_splits handler_result.splits)
    show ?thesis
      by (rule queue_inv_retry[OF inv p _ t'(2)]) (use Again l d in \<open>simp_all add: finish_task_def handler_called_def pending_def t'\<close>)
  qed (rule queue_inv_end[OF inv, where t = t and c = "handler_called (process h now q t)"],
      use l d t in \<open>simp_all add: finish_task_def handler_called_def pending_def\<close>)+
qed

lemma requeue_inv:
  assumes inv: "queue_inv m q" and t: "dt \<in> set (qu_timers q)"
  shows "queue_inv m (requeue_check dt q)"
proof (cases "qu_closed q")
  case True
  show ?thesis
    by (rule queue_inv_end[OF inv, where t = "snd dt" and c = False])
      (use True queue_invD[OF inv] timers_remove[OF t] in \<open>simp_all add: requeue_check_def pending_def\<close>)
next
  case False
  show ?thesis
    by (rule queue_inv_same[OF inv])
      (use False queue_invD[OF inv] timers_remove[OF t] in \<open>auto simp: requeue_check_def pending_def Let_def\<close>)
qed

lemma send_inv:
  assumes inv: "queue_inv m q" and s: "s \<in> set (qu_senders q)"
  shows "queue_inv m (send_step s q)"
proof -
  note d = queue_invD[OF inv] and r = senders_remove[OF s]
  have c: "Caller t \<in> set (remove1 s (qu_senders q)) \<Longrightarrow> tk_attempt t = 0" for t
    using d(3) notin_set_remove1 by metis
  consider (closed) "qu_closed q" | (room) "\<not> qu_closed q" "length (qu_tasks q) < qu_buffer q"
    | (full) "\<not> qu_closed q" "\<not> length (qu_tasks q) < qu_buffer q" by blast
  then show ?thesis
  proof cases
    case closed
    show ?thesis
    proof (cases s)
      case (Caller t)
      show ?thesis by (rule queue_inv_same[OF inv])
          (use closed Caller d c r in \<open>simp_all add: send_step_def enqueue_task_def pending_def Let_def\<close>)
    next
      case (Retry t)
      show ?thesis by (rule queue_inv_end[OF inv, where t = t and c = False])
          (use closed Retry d c r in \<open>simp_all add: send_step_def enqueue_task_def pending_def Let_def\<close>)
    qed
  next
    case room
    show ?thesis
    proof (cases s)
      case (Caller t)
      with d(3) s have t: "tk_attempt t = 0" by blast
      show ?thesis by (rule queue_inv_accept[OF inv, where t = t])
          (use room Caller t d c r in \<open>simp_all add: send_step_def enqueue_task_def pending_def Let_def\<close>)
    next
      case (Retry t)
      show ?thesis by (rule queue_inv_same[OF inv])
          (use room Retry d c r in \<open>simp_all add: send_step_def enqueue_task_def pending_def Let_def\<close>)
    qed
  next
    case full
    show ?thesis
    proof (cases s)
      case (Caller t)
      show ?thesis by (rule queue_inv_same[OF inv])
          (use full Caller d c r in \<open>simp_all add: send_step_def enqueue_task_def pending_def Let_def\<close>)
    next
      case (Retry t)
      show ?thesis by (rule queue_inv_end[OF inv, where t = t and c = False])
          (use full Retry d c r in \<open>simp_all add: send_step_def enqueue_task_def pending_def Let_def\<close>)
    qed
  qed
qed

lemma queue_step_inv: "queue_step w w' \<Longrightarrow> queue_inv m (snd w) \<Longrightarrow> queue_inv m (snd w')"
proof (induction rule: queue_step.induct)
  case (Register now q name)
  then show ?case by (simp add: queue_inv_def register_handler_def pending_def)
next
  case (SetAge now q d)
  then show ?case by (simp add: queue_inv_def set_max_age_def pending_def)
next
  case (Enqueue name payload now q t)
  then have "tk_attempt t = 0" by (auto simp: enqueue_check_def split: if_splits)
  with Enqueue show ?case by (auto simp: queue_inv_def pending_def)
next
  case (Receive q t ts now)
  then show ?case by (auto intro!: queue_inv_same[of m q] simp: pending_def queue_inv_def)
next
  case (Close now q)
  then show ?case by (simp add: close_queue_def queue_inv_def pending_def)
qed (simp_all add: finish_inv requeue_inv send_inv)

lemma queue_inv_new: "queue_inv m (set_max_retries m (new_queue w b))"
  by (simp add: queue_inv_def set_max_retries_def new_queue_def pending_def calls_of_def)

lemma queue_reachable: "queue_step\<^sup>*\<^sup>* (t0, set_max_retries m (new_queue w b)) (t, q) \<Longrightarrow> queue_inv m q"
proof -
  have "queue_step\<^sup>*\<^sup>* x y \<Longrightarrow> queue_inv m (snd x) \<Longrightarrow> queue_inv m (snd y)" for x y :: "time \<times> 'p queue"
    by (induction rule: rtranclp_induct) (auto dest: queue_step_inv)
  from this[of "(t0, set_max_retries m (new_queue w b))" "(t, q)"] show
    "queue_step\<^sup>*\<^sup>* (t0, set_max_retries m (new_queue w b)) (t, q) \<Longrightarrow> queue_inv m q" by (simp add: queue_inv_new)
qed


text \<open>A run used by the witnesses: one task, accepted, taken, failing, with its retry timer set.\<close>

definition demo_task :: "nat task" where
  "demo_task = \<lparr>tk_name = ''t'', tk_payload = 7, tk_attempt = 0, tk_enqueued_at = 5\<rparr>"

definition demo_start :: "nat queue" where "demo_start = set_max_retries 3 (new_queue 1 1)"

definition demo_queue :: "nat queue" where
  "demo_queue = finish_task HandlerError 5 demo_task
     (demo_start\<lparr>qu_handlers := [''t''], qu_running := [demo_task], qh_accepted := [demo_task]\<rparr>)"

lemma steps_cons: "queue_step x y \<Longrightarrow> queue_step\<^sup>*\<^sup>* y z \<Longrightarrow> queue_step\<^sup>*\<^sup>* x z"
  by (rule converse_rtranclp_into_rtranclp)

lemma demo_run: "queue_step\<^sup>*\<^sup>* (5, demo_start) (5, demo_queue)"
proof -
  let ?q1 = "demo_start\<lparr>qu_handlers := [''t'']\<rparr>"
  let ?q2 = "?q1\<lparr>qu_senders := [Caller demo_task]\<rparr>"
  let ?q3 = "?q1\<lparr>qu_tasks := [demo_task], qh_accepted := [demo_task]\<rparr>"
  let ?q4 = "?q1\<lparr>qu_running := [demo_task], qh_accepted := [demo_task]\<rparr>"
  have "queue_step (5, demo_start) (5, ?q1)"
    using queue_step.Register[of 5 demo_start "''t''"] by (simp add: register_handler_def demo_start_def set_max_retries_def new_queue_def)
  moreover have "enqueue_check ''t'' 7 5 ?q1 = Inr demo_task"
    by (simp add: enqueue_check_def demo_task_def demo_start_def set_max_retries_def new_queue_def)
  then have "queue_step (5, ?q1) (5, ?q2)"
    using queue_step.Enqueue[of "''t''" 7 5 ?q1 demo_task] by (simp add: demo_start_def set_max_retries_def new_queue_def)
  moreover have "send_step (Caller demo_task) ?q2 = ?q3"
    by (simp add: send_step_def enqueue_task_def demo_start_def set_max_retries_def new_queue_def Let_def)
  then have "queue_step (5, ?q2) (5, ?q3)" using queue_step.Send[of "Caller demo_task" ?q2 5] by simp
  moreover have "queue_step (5, ?q3) (5, ?q4)"
    using queue_step.Receive[of ?q3 demo_task "[]" 5] by (simp add: demo_start_def set_max_retries_def new_queue_def)
  moreover have "queue_step (5, ?q4) (5, demo_queue)"
    using queue_step.Finish[of demo_task ?q4 5 HandlerError] by (simp add: demo_queue_def)
  ultimately show ?thesis by (meson rtranclp.rtrancl_refl steps_cons)
qed

lemma demo_queue_state: "qh_accepted demo_queue = [demo_task]" "qh_calls demo_queue = [demo_task]"
  "qu_timers demo_queue = [(1000000005, demo_task\<lparr>tk_attempt := 1\<rparr>)]" "qu_tasks demo_queue = []" "qu_running demo_queue = []"
  "qh_finished demo_queue = []" "qu_senders demo_queue = []" "qu_closed demo_queue = False" "qu_buffer demo_queue = 1"
  "qu_crashed demo_queue = False" "qu_workers demo_queue = 1"
  by (simp_all add: demo_queue_def finish_task_def process_def demo_task_def demo_start_def set_max_retries_def new_queue_def
      handler_called_def default_max_age_def Let_def)


lemma sum_mset_pos: "(\<And>x. x \<in># M \<Longrightarrow> 0 \<le> f x) \<Longrightarrow> (0 :: int) \<le> (\<Sum>x\<in>#M. f x)"
  by (induction M) auto

text \<open>
  Retries are bounded: however the steps interleave, the handler of an enqueued task is called at
  most \<open>maxRetries\<close> times (once if that is below 1) for every time it was accepted.
\<close>

theorem queue_calls_bounded:
  assumes "queue_step\<^sup>*\<^sup>* (t0, set_max_retries m (new_queue workers buffer)) (t, q)"
  shows "int (count (image_mset job (mset (qh_calls q))) j) \<le> max 1 m * int (count (image_mset job (mset (qh_accepted q))) j)"
proof -
  have inv: "queue_inv m q" by (rule queue_reachable[OF assms])
  have "0 \<le> (\<Sum>t\<in>#pending q. budget m j t)"
    using inv budget_pos by (intro sum_mset_pos) (auto simp: queue_inv_def)
  moreover have "calls_of j (qh_calls q) + (\<Sum>t\<in>#pending q. budget m j t) \<le> max 1 m * calls_of j (qh_accepted q)"
    using inv unfolding queue_inv_def by blast
  ultimately show ?thesis by (simp add: calls_of_def)
qed

theorem queue_calls_bounded_witness:
  "count (image_mset job (mset (qh_calls demo_queue))) demo_task = 1 \<and> int (count (image_mset job (mset (qh_calls demo_queue))) demo_task) \<le> 3"
  using queue_calls_bounded[OF demo_run[unfolded demo_start_def], of demo_task]
  by (simp add: demo_queue_state job_def demo_task_def)

subsection \<open>Shutdown\<close>

text \<open>What \<open>Close\<close> waits for: a worker receives a task or ends one.\<close>

definition worker_step :: "time \<Rightarrow> 'p queue \<Rightarrow> 'p queue \<Rightarrow> bool" where
  "worker_step now q q' \<longleftrightarrow>
     (\<exists>t ts. qu_tasks q = t # ts \<and> length (qu_running q) < qu_workers q \<and>
        q' = q\<lparr>qu_tasks := ts, qu_running := t # qu_running q\<rparr>) \<or>
     (\<exists>t h. t \<in> set (qu_running q) \<and> q' = finish_task h now t q)"

definition load :: "'p queue \<Rightarrow> nat" where
  "load q = 2 * length (qu_tasks q) + length (qu_running q)"

lemma finish_frame [simp]: "qu_tasks (finish_task h now t q) = qu_tasks q" "qu_closed (finish_task h now t q) = qu_closed q"
  "qu_running (finish_task h now t q) = remove1 t (qu_running q)"
  by (simp_all add: finish_task_def Let_def split: verdict.split)

lemma requeue_frame [simp]: "qu_tasks (requeue_check dt q) = qu_tasks q" "qu_closed (requeue_check dt q) = qu_closed q"
  "qu_running (requeue_check dt q) = qu_running q"
  by (simp_all add: requeue_check_def Let_def)

lemma send_closed: "qu_closed q \<Longrightarrow> qu_tasks (send_step s q) = qu_tasks q \<and> qu_closed (send_step s q) \<and> qu_running (send_step s q) = qu_running q"
  by (cases s) (simp_all add: send_step_def enqueue_task_def Let_def)



text \<open>
  The check for a closed queue and the send are not one step: a retry that passes the check just
  before \<open>Close\<close> sends on the closed channel, a panic in the timer's goroutine that ends the process.
  Such a state is reachable from a fresh queue with one worker.
\<close>

theorem queue_close_race:
  "\<exists>t q. queue_step\<^sup>*\<^sup>* (5, set_max_retries 3 (new_queue 1 1) :: nat queue) (t, q) \<and> qu_closed q \<and> qu_crashed q"
proof -
  let ?r = "demo_task\<lparr>tk_attempt := 1\<rparr>"
  let ?q1 = "requeue_check (1000000005, ?r) demo_queue"
  let ?q3 = "send_step (Retry ?r) (close_queue ?q1)"
  have "queue_step (5, demo_queue) (1000000005, demo_queue)" by (rule Tick) simp
  moreover have "queue_step (1000000005, demo_queue) (1000000005, ?q1)"
    by (rule Fire) (simp_all add: demo_queue_state)
  moreover have s: "qu_senders ?q1 = [Retry ?r]" by (simp add: requeue_check_def demo_queue_state)
  moreover have "queue_step (1000000005, ?q1) (1000000005, close_queue ?q1)" by (rule Close)
  moreover have "queue_step (1000000005, close_queue ?q1) (1000000005, ?q3)"
    by (rule Send) (simp add: close_queue_def s)
  ultimately have "queue_step\<^sup>*\<^sup>* (5, demo_queue) (1000000005, ?q3)" by (meson rtranclp.rtrancl_refl steps_cons)
  with demo_run have "queue_step\<^sup>*\<^sup>* (5, demo_start) (1000000005, ?q3)" by (rule rtranclp_trans)
  moreover have "qu_closed ?q3 \<and> qu_crashed ?q3"
    by (simp add: send_step_def close_queue_def enqueue_task_def requeue_check_def demo_queue_state Let_def)
  ultimately show ?thesis unfolding demo_start_def by blast
qed

subsection \<open>Redis mode\<close>

text \<open>The commands of the Redis client on the list \<open>kyrux:queue:tasks\<close>, and the JSON form of a task.\<close>

datatype pop_result = PopError | PopTimeout | Popped "string list"

record 'r redis_list =
  rl_len :: "'r \<Rightarrow> int option"
  rl_push :: "string \<Rightarrow> 'r \<Rightarrow> bool \<times> 'r"
  rl_pop :: "'r \<Rightarrow> pop_result \<times> 'r"

record 'p wire_task =
  wt_name :: string
  wt_payload :: 'p
  wt_attempt :: int
  wt_enqueued_at :: time

definition to_wire :: "'p task \<Rightarrow> 'p wire_task" where
  "to_wire t = \<lparr>wt_name = tk_name t, wt_payload = tk_payload t, wt_attempt = tk_attempt t, wt_enqueued_at = tk_enqueued_at t\<rparr>"

definition of_wire :: "'p wire_task \<Rightarrow> 'p task" where
  "of_wire w = \<lparr>tk_name = wt_name w, tk_payload = wt_payload w, tk_attempt = wt_attempt w, tk_enqueued_at = wt_enqueued_at w\<rparr>"

definition enqueue_redis ::
  "'r redis_list \<Rightarrow> ('p wire_task \<Rightarrow> string option) \<Rightarrow> int \<Rightarrow> 'p task \<Rightarrow> 'r \<Rightarrow> queue_error option \<times> 'r"
where
  "enqueue_redis api marshal max_len t r =
     (if (case rl_len api r of Some n \<Rightarrow> n \<ge> max_len | None \<Rightarrow> False) then (Some QueueFull, r)
      else
        (case marshal (to_wire t) of
           None \<Rightarrow> (Some (NotSerialisable (tk_name t)), r)
         | Some data \<Rightarrow>
             (case rl_push api data r of
                (True, r') \<Rightarrow> (None, r')
              | (False, r') \<Rightarrow> (Some (PushFailed (tk_name t)), r'))))"

text \<open>
  One round of \<open>redisWorker\<close>: the task to process, if any; \<open>cancelled\<close> is the worker's context. The
  flag says whether the loop goes on.
\<close>

definition redis_round ::
  "'r redis_list \<Rightarrow> (string \<Rightarrow> 'p wire_task option) \<Rightarrow> bool \<Rightarrow> 'r \<Rightarrow> bool \<times> 'p task option \<times> 'r"
where
  "redis_round api unmarshal cancelled r =
     (case rl_pop api r of
        (PopError, r') \<Rightarrow> (\<not> cancelled, None, r')
      | (PopTimeout, r') \<Rightarrow> (\<not> cancelled, None, r')
      | (Popped res, r') \<Rightarrow>
          (True, if length res \<noteq> 2 then None else map_option of_wire (unmarshal (res ! 1)), r'))"

lemma of_to_wire [simp]: "of_wire (to_wire t) = t"
  by (simp add: of_wire_def to_wire_def)

text \<open>A task crosses the list unchanged, and a list that is known to be full takes nothing.\<close>

lemma redis_roundtrip:
  assumes "marshal (to_wire t) = Some d" "unmarshal d = Some (to_wire t)" "rl_push api d r = (True, r1)"
    and "rl_pop api r1 = (Popped [key, d], r2)" and "\<forall>n. rl_len api r = Some n \<longrightarrow> n < max_len"
  shows "enqueue_redis api marshal max_len t r = (None, r1) \<and> redis_round api unmarshal cancelled r1 = (True, Some t, r2)"
  using assms by (auto simp: enqueue_redis_def redis_round_def split: option.split)

lemma redis_full: "rl_len api r = Some n \<Longrightarrow> max_len \<le> n \<Longrightarrow> enqueue_redis api marshal max_len t r = (Some QueueFull, r)"
  by (simp add: enqueue_redis_def)

end
