(* ===== verification/Lifecycle.thy ===== *)
theory Lifecycle
  imports Prelude
begin

text \<open>
  The kernel that activates pluggable modules: the factory registry (\<open>core/registry\<close>), the typed
  container (\<open>core/container\<close>), the event bus (\<open>core/events\<close>), the lifecycle manager
  (\<open>core/lifecycle\<close>) and the facade \<open>core/core.go\<close>. A module is the interface's four phases over an
  arbitrary world, each failing with a message or not, and the value it offers, if any, with its type.
  \<open>Publish\<close> starts one goroutine per handler; the model records what was started.
\<close>

subsection \<open>Registry and container\<close>

type_synonym 'm registry = "(string \<times> 'm) list"

text \<open>\<open>Register\<close>; \<open>None\<close> is the panic on a second registration.\<close>

definition registry_register :: "string \<Rightarrow> 'm \<Rightarrow> 'm registry \<Rightarrow> 'm registry option" where
  "registry_register name f items = (if map_of items name \<noteq> None then None else Some (AList.update name f items))"

definition registry_new :: "string \<Rightarrow> 'm registry \<Rightarrow> string + 'm" where
  "registry_new name items =
     (case map_of items name of
        None \<Rightarrow> Inl (''registry: '' @ name)
      | Some f \<Rightarrow> Inr f)"

definition registry_names :: "'m registry \<Rightarrow> string list" where
  "registry_names items = map fst items"

text \<open>A value of the container carries its dynamic type, which \<open>Resolve[T]\<close> asserts.\<close>

type_synonym typed = "string \<times> goval"
type_synonym container = "(string \<times> typed) list"

definition provide :: "string \<Rightarrow> typed \<Rightarrow> container \<Rightarrow> container" where
  "provide name v c = AList.update name v c"

definition resolve :: "string \<Rightarrow> string \<Rightarrow> container \<Rightarrow> goval option" where
  "resolve ty name c =
     (case map_of c name of
        None \<Rightarrow> None
      | Some (ty', v) \<Rightarrow> if ty' = ty then Some v else None)"

definition must_resolve :: "string \<Rightarrow> string \<Rightarrow> container \<Rightarrow> string + goval" where
  "must_resolve ty name c = (case resolve ty name c of None \<Rightarrow> Inl (''container: '' @ name) | Some v \<Rightarrow> Inr v)"

definition container_names :: "container \<Rightarrow> string list" where
  "container_names c = map fst c"

subsection \<open>Event bus\<close>

type_synonym handler = nat

record bus =
  bs_handlers :: "(string \<times> handler list) list"
  bs_started :: "(handler \<times> string \<times> goval) list"

definition new_bus :: bus where "new_bus = \<lparr>bs_handlers = [], bs_started = []\<rparr>"

definition handlers_of :: "bus \<Rightarrow> string \<Rightarrow> handler list" where
  "handlers_of b ev = (case map_of (bs_handlers b) ev of None \<Rightarrow> [] | Some hs \<Rightarrow> hs)"

definition subscribe :: "string \<Rightarrow> handler \<Rightarrow> bus \<Rightarrow> bus" where
  "subscribe ev h b = b\<lparr>bs_handlers := AList.update ev (handlers_of b ev @ [h]) (bs_handlers b)\<rparr>"

definition publish :: "string \<Rightarrow> goval \<Rightarrow> bus \<Rightarrow> bus" where
  "publish ev payload b = b\<lparr>bs_started := bs_started b @ map (\<lambda>h. (h, ev, payload)) (handlers_of b ev)\<rparr>"

definition unsubscribe :: "string \<Rightarrow> bus \<Rightarrow> bus" where
  "unsubscribe ev b = b\<lparr>bs_handlers := AList.delete ev (bs_handlers b)\<rparr>"

subsection \<open>Lifecycle\<close>

text \<open>A phase maps the world to an error, or none, and the new world.\<close>

type_synonym 'w phase = "'w \<Rightarrow> string option \<times> 'w"

record 'w go_module =
  md_name :: string
  md_init :: "'w phase"
  md_configure :: "'w phase"
  md_start :: "'w phase"
  md_shutdown :: "'w phase"
  md_value :: "typed option"

datatype call = CInit string | CConfigure string | CStart string | CShutdown string

datatype lifecycle_error = InitFailed string string | ConfigureFailed string string | StartFailed string string
  | ShutdownFailed string string | NoValue string | NotRegistered string

text \<open>\<open>lc_calls\<close> records the phases that ran.\<close>

record 'w manager =
  lc_bus :: bus
  lc_active :: "'w go_module list"
  lc_world :: 'w
  lc_calls :: "call list"

definition run_phase :: "'w phase \<Rightarrow> call \<Rightarrow> 'w manager \<Rightarrow> string option \<times> 'w manager" where
  "run_phase ph c m =
     (case ph (lc_world m) of (e, w) \<Rightarrow> (e, m\<lparr>lc_world := w, lc_calls := lc_calls m @ [c]\<rparr>))"

definition announce :: "string \<Rightarrow> goval \<Rightarrow> 'w manager \<Rightarrow> 'w manager" where
  "announce ev v m = m\<lparr>lc_bus := publish ev v (lc_bus m)\<rparr>"

definition lifecycle_add :: "'w go_module \<Rightarrow> 'w manager \<Rightarrow> lifecycle_error option \<times> 'w manager" where
  "lifecycle_add md m0 =
     (let m = announce ''lifecycle:before_init'' (GStr (md_name md)) m0 in
      case run_phase (md_init md) (CInit (md_name md)) m of
        (Some e, m1) \<Rightarrow> (Some (InitFailed (md_name md) e), m1)
      | (None, m1) \<Rightarrow>
          (case run_phase (md_configure md) (CConfigure (md_name md)) m1 of
             (Some e, m2) \<Rightarrow> (Some (ConfigureFailed (md_name md) e), m2)
           | (None, m2) \<Rightarrow>
               (None, announce ''lifecycle:after_init'' (GStr (md_name md)) (m2\<lparr>lc_active := lc_active m2 @ [md]\<rparr>))))"

fun start_modules :: "'w go_module list \<Rightarrow> 'w manager \<Rightarrow> lifecycle_error option \<times> 'w manager" where
  "start_modules [] m = (None, m)"
| "start_modules (md # mds) m =
     (case run_phase (md_start md) (CStart (md_name md)) m of
        (Some e, m1) \<Rightarrow> (Some (StartFailed (md_name md) e), m1)
      | (None, m1) \<Rightarrow> start_modules mds m1)"

definition start_all :: "'w manager \<Rightarrow> lifecycle_error option \<times> 'w manager" where
  "start_all m =
     (case start_modules (lc_active m) (announce ''lifecycle:before_start'' GNil m) of
        (Some e, m1) \<Rightarrow> (Some e, m1)
      | (None, m1) \<Rightarrow> (None, announce ''lifecycle:after_start'' GNil m1))"

fun shutdown_modules :: "'w go_module list \<Rightarrow> 'w manager \<Rightarrow> lifecycle_error list \<times> 'w manager" where
  "shutdown_modules [] m = ([], m)"
| "shutdown_modules (md # mds) m =
     (case run_phase (md_shutdown md) (CShutdown (md_name md)) m of
        (e, m1) \<Rightarrow>
          (case shutdown_modules mds m1 of
             (es, m2) \<Rightarrow> ((case e of None \<Rightarrow> [] | Some x \<Rightarrow> [ShutdownFailed (md_name md) x]) @ es, m2)))"

definition shutdown_all :: "'w manager \<Rightarrow> lifecycle_error list \<times> 'w manager" where
  "shutdown_all m =
     (case shutdown_modules (rev (lc_active m)) (announce ''lifecycle:before_shutdown'' GNil m) of
        (es, m1) \<Rightarrow> (es, announce ''lifecycle:after_shutdown'' GNil m1))"

subsection \<open>The facade\<close>

record 'w core =
  co_container :: container
  co_lifecycle :: "'w manager"

definition core_new :: "'w \<Rightarrow> 'w core" where
  "core_new w = \<lparr>co_container = [], co_lifecycle = \<lparr>lc_bus = new_bus, lc_active = [], lc_world = w, lc_calls = []\<rparr>\<rparr>"

definition activate :: "'w go_module \<Rightarrow> 'w core \<Rightarrow> lifecycle_error option \<times> 'w core" where
  "activate md c = (case lifecycle_add md (co_lifecycle c) of (e, m) \<Rightarrow> (e, c\<lparr>co_lifecycle := m\<rparr>))"

definition use_module :: "string \<Rightarrow> 'w go_module \<Rightarrow> string \<Rightarrow> 'w core \<Rightarrow> (lifecycle_error + goval) \<times> 'w core" where
  "use_module ty md key c =
     (case lifecycle_add md (co_lifecycle c) of
        (Some e, m) \<Rightarrow> (Inl e, c\<lparr>co_lifecycle := m\<rparr>)
      | (None, m) \<Rightarrow>
          (case md_value md of
             Some (ty', v) \<Rightarrow>
               if ty' = ty then (Inr v, c\<lparr>co_lifecycle := m, co_container := provide key (ty, v) (co_container c)\<rparr>)
               else (Inl (NoValue (md_name md)), c\<lparr>co_lifecycle := m\<rparr>)
           | None \<Rightarrow> (Inl (NoValue (md_name md)), c\<lparr>co_lifecycle := m\<rparr>)))"

definition use_named ::
  "'w go_module registry \<Rightarrow> string \<Rightarrow> string \<Rightarrow> string \<Rightarrow> 'w core \<Rightarrow> (lifecycle_error + goval) \<times> 'w core"
where
  "use_named items ty name key c =
     (case registry_new name items of
        Inl e \<Rightarrow> (Inl (NotRegistered name), c)
      | Inr md \<Rightarrow> use_module ty md key c)"

definition core_run :: "'w core \<Rightarrow> lifecycle_error option \<times> 'w core" where
  "core_run c = (case start_all (co_lifecycle c) of (e, m) \<Rightarrow> (e, c\<lparr>co_lifecycle := m\<rparr>))"

definition core_shutdown :: "'w core \<Rightarrow> lifecycle_error list \<times> 'w core" where
  "core_shutdown c = (case shutdown_all (co_lifecycle c) of (es, m) \<Rightarrow> (es, c\<lparr>co_lifecycle := m\<rparr>))"

definition core_modules :: "'w core \<Rightarrow> 'w go_module list" where
  "core_modules c = lc_active (co_lifecycle c)"

subsection \<open>What the phases guarantee\<close>

lemma announce_frame [simp]: "lc_active (announce ev v m) = lc_active m" "lc_calls (announce ev v m) = lc_calls m"
  "lc_world (announce ev v m) = lc_world m"
  by (simp_all add: announce_def)

lemma run_phase_frame: "run_phase ph c m = (e, m') \<Longrightarrow> lc_active m' = lc_active m \<and> lc_calls m' = lc_calls m @ [c]"
  by (auto simp: run_phase_def split: prod.splits)

lemma start_modules_calls:
  "start_modules mds m = (e, m') \<Longrightarrow>
   lc_active m' = lc_active m \<and>
   (\<exists>n. n \<le> length mds \<and> lc_calls m' = lc_calls m @ map (CStart \<circ> md_name) (take n mds) \<and> (e = None \<longrightarrow> n = length mds))"
proof (induction mds arbitrary: m)
  case (Cons md mds)
  obtain e1 m1 where r: "run_phase (md_start md) (CStart (md_name md)) m = (e1, m1)" by fastforce
  note f = run_phase_frame[OF r]
  show ?case
  proof (cases e1)
    case None
    with Cons.prems r have "start_modules mds m1 = (e, m')" by simp
    from Cons.IH[OF this] obtain n where "n \<le> length mds" "lc_active m' = lc_active m1"
      "lc_calls m' = lc_calls m1 @ map (CStart \<circ> md_name) (take n mds)" "e = None \<longrightarrow> n = length mds" by blast
    with f show ?thesis by (intro conjI exI[of _ "Suc n"]) auto
  next
    case (Some x)
    with Cons.prems r f show ?thesis by (intro conjI exI[of _ 1]) auto
  qed
qed simp

lemma shutdown_modules_calls:
  "shutdown_modules mds m = (es, m') \<Longrightarrow>
   lc_calls m' = lc_calls m @ map (CShutdown \<circ> md_name) mds \<and> lc_active m' = lc_active m \<and> length es \<le> length mds"
proof (induction mds arbitrary: m es m')
  case (Cons md mds)
  obtain e1 m1 where r: "run_phase (md_shutdown md) (CShutdown (md_name md)) m = (e1, m1)" by fastforce
  obtain es1 m2 where s: "shutdown_modules mds m1 = (es1, m2)" by fastforce
  from Cons.IH[OF s] run_phase_frame[OF r] Cons.prems r s show ?case by (auto split: option.splits)
qed simp

text \<open>The modules among \<open>mds\<close> that a manager has activated, in order.\<close>

fun add_modules :: "'w go_module list \<Rightarrow> 'w manager \<Rightarrow> 'w manager" where
  "add_modules [] m = m"
| "add_modules (md # mds) m = add_modules mds (snd (lifecycle_add md m))"

lemma lifecycle_add_cases:
  "lifecycle_add md m = (e, m') \<Longrightarrow>
   lc_active m' = (if e = None then lc_active m @ [md] else lc_active m) \<and>
   lc_calls m' = lc_calls m @ CInit (md_name md) # (case e of Some (InitFailed _ _) \<Rightarrow> [] | _ \<Rightarrow> [CConfigure (md_name md)]) \<and>
   (e = None \<or> (\<exists>x. e = Some (InitFailed (md_name md) x)) \<or> (\<exists>x. e = Some (ConfigureFailed (md_name md) x)))"
proof -
  assume a: "lifecycle_add md m = (e, m')"
  obtain e1 m1 where r1: "run_phase (md_init md) (CInit (md_name md)) (announce ''lifecycle:before_init'' (GStr (md_name md)) m) = (e1, m1)"
    by fastforce
  obtain e2 m2 where r2: "run_phase (md_configure md) (CConfigure (md_name md)) m1 = (e2, m2)" by fastforce
  from a run_phase_frame[OF r1] run_phase_frame[OF r2] r1 r2 show ?thesis
    by (cases e1; cases e2) (auto simp: lifecycle_add_def Let_def)
qed

lemma add_modules_shutdowns: "\<forall>c\<in>set (lc_calls m). \<forall>n. c \<noteq> CShutdown n \<Longrightarrow> \<forall>c\<in>set (lc_calls (add_modules mds m)). \<forall>n. c \<noteq> CShutdown n"
proof (induction mds arbitrary: m)
  case (Cons md mds)
  obtain e m1 where l: "lifecycle_add md m = (e, m1)" by fastforce
  from lifecycle_add_cases[OF l] Cons.prems have "\<forall>c\<in>set (lc_calls m1). \<forall>n. c \<noteq> CShutdown n"
    by (auto split: option.splits lifecycle_error.splits)
  from Cons.IH[OF this] l show ?case by simp
qed simp

text \<open>
  Lifecycle order: whichever modules were added and whichever of them failed, starting runs the
  active ones in the order of activation up to the first failure, and shutting down then runs
  \<open>Shutdown\<close> of every active module exactly once, last activated first, whether or not it was started
  and whatever the others return; no module is shut down before.
\<close>

theorem lifecycle_order:
  assumes "m = add_modules mds (co_lifecycle (core_new w))" and "start_all m = (e, m1)" and "shutdown_all m1 = (errs, m2)"
  shows "\<exists>n. n \<le> length (lc_active m) \<and> (e = None \<longrightarrow> n = length (lc_active m)) \<and>
    lc_calls m2 = lc_calls m @ map (CStart \<circ> md_name) (take n (lc_active m)) @ map (CShutdown \<circ> md_name) (rev (lc_active m)) \<and>
    (\<forall>name. CShutdown name \<notin> set (lc_calls m)) \<and> length errs \<le> length (lc_active m)"
proof -
  obtain e0 m0 where s: "start_modules (lc_active m) (announce ''lifecycle:before_start'' GNil m) = (e0, m0)" by fastforce
  with assms(2) have e0: "e0 = e" "lc_calls m1 = lc_calls m0" "lc_active m1 = lc_active m0"
    by (auto simp: start_all_def split: option.splits)
  obtain es x where d: "shutdown_modules (rev (lc_active m1)) (announce ''lifecycle:before_shutdown'' GNil m1) = (es, x)" by fastforce
  with assms(3) have d': "errs = es" "lc_calls m2 = lc_calls x" by (auto simp: shutdown_all_def)
  from start_modules_calls[OF s] obtain n where n: "n \<le> length (lc_active m)" "e = None \<longrightarrow> n = length (lc_active m)"
    "lc_calls m0 = lc_calls m @ map (CStart \<circ> md_name) (take n (lc_active m))" "lc_active m0 = lc_active m"
    using e0 by auto
  have "\<forall>name. CShutdown name \<notin> set (lc_calls m)"
    using add_modules_shutdowns[of "co_lifecycle (core_new w)" mds] by (auto simp: assms(1) core_new_def)
  with n shutdown_modules_calls[OF d] d' e0 show ?thesis by (intro exI[of _ n]) auto
qed

definition demo_module :: "string \<Rightarrow> string option \<Rightarrow> string option \<Rightarrow> unit go_module" where
  "demo_module name cfg strt = \<lparr>md_name = name, md_init = (\<lambda>w. (None, w)), md_configure = (\<lambda>w. (cfg, w)),
     md_start = (\<lambda>w. (strt, w)), md_shutdown = (\<lambda>w. (None, w)), md_value = Some (''int'', GInt KInt 7)\<rparr>"

theorem lifecycle_order_witness:
  "\<exists>e m1 errs m2. start_all (add_modules [demo_module ''a'' None None, demo_module ''b'' (Some ''x'') None,
       demo_module ''c'' None (Some ''y'')] (co_lifecycle (core_new ()))) = (e, m1) \<and> shutdown_all m1 = (errs, m2) \<and>
     take 2 (rev (lc_calls m2)) = [CShutdown ''a'', CShutdown ''c'']"
proof -
  let ?m = "add_modules [demo_module ''a'' None None, demo_module ''b'' (Some ''x'') None, demo_module ''c'' None (Some ''y'')]
    (co_lifecycle (core_new ()))"
  have m: "map md_name (lc_active ?m) = [''a'', ''c'']"
    by (simp add: demo_module_def core_new_def lifecycle_add_def run_phase_def announce_def)
  obtain e m1 where s: "start_all ?m = (e, m1)" by fastforce
  obtain errs m2 where d: "shutdown_all m1 = (errs, m2)" by fastforce
  from lifecycle_order[OF refl s d] obtain n where n: "lc_calls m2 = lc_calls ?m @ map (CStart \<circ> md_name) (take n (lc_active ?m)) @
      map (CShutdown \<circ> md_name) (rev (lc_active ?m))" by blast
  have "map (CShutdown \<circ> md_name) (rev (lc_active ?m)) = map CShutdown (rev (map md_name (lc_active ?m)))" by (simp only: rev_map map_map)
  then have "map (CShutdown \<circ> md_name) (rev (lc_active ?m)) = [CShutdown ''c'', CShutdown ''a'']" by (simp only: m) simp
  then have "take 2 (rev (lc_calls m2)) = [CShutdown ''a'', CShutdown ''c'']" unfolding n by simp
  with s d show ?thesis by blast
qed

text \<open>
  Using a module: on success the container gives its value under the key, at the type it was asked
  for and at no other, and the module is active. A module that fails to initialise or configure is not
  active. A module without a value of the type is reported as an error and yet stays active, to be
  started and shut down with the others.
\<close>

theorem use_module_outcomes:
  "case use_module ty md key c of
     (Inr v, c') \<Rightarrow> md_value md = Some (ty, v) \<and> core_modules c' = core_modules c @ [md] \<and>
       resolve ty key (co_container c') = Some v \<and> (\<forall>u. u \<noteq> ty \<longrightarrow> resolve u key (co_container c') = None) \<and>
       (\<forall>k u. k \<noteq> key \<longrightarrow> resolve u k (co_container c') = resolve u k (co_container c))
   | (Inl e, c') \<Rightarrow> co_container c' = co_container c \<and>
       core_modules c' = (if e = NoValue (md_name md) then core_modules c @ [md] else core_modules c)"
proof -
  obtain e m where l: "lifecycle_add md (co_lifecycle c) = (e, m)" by fastforce
  note a = lifecycle_add_cases[OF l]
  show ?thesis
  proof (cases e)
    case None
    with a l show ?thesis
      by (auto simp: use_module_def core_modules_def provide_def resolve_def split: option.splits)
  next
    case (Some x)
    with a l show ?thesis by (auto simp: use_module_def core_modules_def)
  qed
qed

theorem use_module_outcomes_witness:
  "\<exists>c'. use_module ''int'' (demo_module ''a'' None None) ''k'' (core_new ()) = (Inr (GInt KInt 7), c') \<and>
     resolve ''int'' ''k'' (co_container c') = Some (GInt KInt 7) \<and> resolve ''string'' ''k'' (co_container c') = None"
  using use_module_outcomes[where ty = "''int''" and md = "demo_module ''a'' None None" and key = "''k''" and c = "core_new ()"]
  by (simp add: use_module_def demo_module_def core_new_def lifecycle_add_def run_phase_def announce_def)

text \<open>Every subscriber of an event, and nobody else, is started, in the order of subscription.\<close>

lemma publish_after_subscribes:
  "bs_started (publish ev v (fold (\<lambda>(e, h). subscribe e h) subs new_bus)) =
   map (\<lambda>(e, h). (h, ev, v)) (filter (\<lambda>(e, h). e = ev) subs)"
proof -
  have "handlers_of (fold (\<lambda>(e, h). subscribe e h) subs b) ev = handlers_of b ev @ map snd (filter (\<lambda>(e, h). e = ev) subs) \<and>
      bs_started (fold (\<lambda>(e, h). subscribe e h) subs b) = bs_started b" for b
    by (induction subs arbitrary: b) (auto simp: subscribe_def handlers_of_def)
  from this[of new_bus] show ?thesis
    by (auto simp: publish_def new_bus_def handlers_of_def intro: map_cong)
qed

end
