(* ===== verification/Captcha.thy ===== *)
theory Captcha
  imports Sessions "HOL-Library.Word"
begin

text \<open>
  The visual challenge of \<open>core/security/captcha\<close>: the code of \<open>captcha.go\<close> and the one kept in the
  visitor's session by \<open>store.go\<close>. The drawing of the image is in \<open>CaptchaImage\<close>. \<open>Verify\<close> reads the code
  and removes it in two calls of the session, each under its own lock: \<open>captcha_read\<close> and
  \<open>captcha_consume\<close> are the two steps.
\<close>

declare map_of_eq_Some_iff [simp del] AList.update_conv' [simp]

definition code_length :: nat where "code_length = 5"
definition captcha_key :: string where "captcha_key = ''kyrux_captcha_code''"

text \<open>\<open>New\<close>; \<open>rnd\<close> is the result of \<open>rand.Read\<close> on \<open>CodeLength\<close> bytes.\<close>

definition captcha_new :: "8 word list option \<Rightarrow> string option" where
  "captcha_new rnd = map_option (map (\<lambda>d. digit_chr (unat (d mod 10)))) rnd"

definition captcha_set_code ::
  "bool \<Rightarrow> (string \<times> string) list \<Rightarrow> bool \<Rightarrow> string \<Rightarrow> string option \<Rightarrow> time \<Rightarrow> goval store \<Rightarrow> cookie option \<times> goval store"
where
  "captcha_set_code secure cookies tls code rnd now st =
     (case from_request secure cookies st now of
        Some s \<Rightarrow> (None, on_session (ss_id s) (value_set captcha_key (GStr code)) st)
      | None \<Rightarrow>
          (case new_session [] rnd now st of
             (Inl _, st1) \<Rightarrow> (None, st1)
           | (Inr s, st1) \<Rightarrow>
               (Some (session_cookie secure (ss_id s) tls), on_session (ss_id s) (value_set captcha_key (GStr code)) st1)))"

definition captcha_read :: "bool \<Rightarrow> (string \<times> string) list \<Rightarrow> time \<Rightarrow> goval store \<Rightarrow> (string \<times> goval) option" where
  "captcha_read secure cookies now st =
     (case from_request secure cookies st now of
        None \<Rightarrow> None
      | Some s \<Rightarrow> map_option (\<lambda>v. (ss_id s, v)) (value_get captcha_key s))"

definition captcha_consume :: "string \<Rightarrow> goval store \<Rightarrow> goval store" where
  "captcha_consume i st = on_session i (value_delete captcha_key) st"

definition captcha_check :: "goval \<Rightarrow> string \<Rightarrow> bool" where
  "captcha_check v answer = (case v of GStr code \<Rightarrow> code \<noteq> [] \<and> trim_space answer = code | _ \<Rightarrow> False)"

definition captcha_verify ::
  "bool \<Rightarrow> (string \<times> string) list \<Rightarrow> time \<Rightarrow> string \<Rightarrow> goval store \<Rightarrow> bool \<times> goval store"
where
  "captcha_verify secure cookies now answer st =
     (case captcha_read secure cookies now st of
        None \<Rightarrow> (False, st)
      | Some (i, v) \<Rightarrow> (captcha_check v answer, captcha_consume i st))"

text \<open>\<open>ImageHandler\<close>; \<open>png\<close> is what \<open>PNG\<close> makes of the code: the error 500, or the image answered.\<close>

definition captcha_image ::
  "(string \<Rightarrow> string option) \<Rightarrow> bool \<Rightarrow> (string \<times> string) list \<Rightarrow> bool \<Rightarrow> 8 word list option \<Rightarrow> string option \<Rightarrow> time \<Rightarrow>
   goval store \<Rightarrow> (nat + string) \<times> cookie option \<times> goval store"
where
  "captcha_image png secure cookies tls digits rnd now st =
     (case captcha_new digits of
        None \<Rightarrow> (Inl 500, None, st)
      | Some code \<Rightarrow>
          (let r = captcha_set_code secure cookies tls code rnd now st
           in case png code of None \<Rightarrow> (Inl 500, r) | Some img \<Rightarrow> (Inr img, r)))"

subsection \<open>Single use\<close>

lemma from_request_look: "from_request secure cookies st now =
  (case map_of cookies (cookie_name secure) of None \<Rightarrow> None | Some i \<Rightarrow> session_get st now i)"
  by (simp add: from_request_def)

lemma get_on_session: "map_of (st_sessions st) i = Some s \<Longrightarrow> ss_expires (f s) = ss_expires s \<Longrightarrow>
  session_get (on_session i f st) now i = (if now > ss_expires s then None else Some (f s))"
  by (simp add: session_get_def on_session_def)

lemma value_ops_expires [simp]: "ss_expires (value_set k v s) = ss_expires s" "ss_expires (value_delete k s) = ss_expires s"
  by (simp_all add: value_set_def value_delete_def)

lemma value_get_ops [simp]: "value_get k (value_set k v s) = Some v" "value_get k (value_delete k s) = None"
  by (simp_all add: value_get_def value_set_def value_delete_def)

text \<open>
  A challenge serves one attempt: once an answer was judged, right or wrong, no later answer of the
  same visitor is accepted until a new image is served, and the first one is accepted exactly when,
  without surrounding blanks, it is the code of the last image.
\<close>

theorem captcha_single_use:
  assumes "store_inv t0 st" and "from_request secure cookies st now = Some s"
    and "captcha_set_code secure cookies tls code rnd now st = (ck, st1)"
    and "now \<le> now1" and "now1 \<le> ss_expires s" and "captcha_verify secure cookies now1 answer st1 = (ok, st2)"
  shows "(ok \<longleftrightarrow> code \<noteq> [] \<and> trim_space answer = code) \<and>
    \<not> fst (captcha_verify secure cookies now2 answer2 st2)"
proof -
  obtain i where i: "map_of cookies (cookie_name secure) = Some i" "map_of (st_sessions st) i = Some s"
    using assms(2) by (auto simp: from_request_def session_get_def split: option.splits if_splits)
  have "ss_id s = i" using assms(1) i(2) by (simp add: store_inv_def)
  then have st1: "st1 = on_session i (value_set captcha_key (GStr code)) st" using assms(2,3) by (simp add: captcha_set_code_def)
  let ?s1 = "value_set captcha_key (GStr code) s"
  have m1: "map_of (st_sessions st1) i = Some ?s1" using i(2) by (simp add: st1 on_session_def)
  have id1: "ss_id ?s1 = i" using \<open>ss_id s = i\<close> by (simp add: value_set_def)
  have "session_get st1 now1 i = Some ?s1" using m1 assms(5) by (simp add: session_get_def)
  then have r1: "captcha_read secure cookies now1 st1 = Some (i, GStr code)"
    by (simp add: captcha_read_def from_request_look i(1) id1)
  then have ok: "ok = captcha_check (GStr code) answer" and st2: "st2 = captcha_consume i st1"
    using assms(6) by (simp_all add: captcha_verify_def)
  have "session_get st2 now2 i = (if now2 > ss_expires s then None else Some (value_delete captcha_key ?s1))"
    using get_on_session[OF m1, of "value_delete captcha_key" now2] by (simp add: st2 captcha_consume_def)
  then have "captcha_read secure cookies now2 st2 = None" by (simp add: captcha_read_def from_request_look i(1))
  then show ?thesis by (simp add: ok captcha_check_def captcha_verify_def)
qed

theorem captcha_single_use_witness:
  "\<exists>st1 st2. captcha_verify True [(''__Host-kyrux_session'', ''41'')] 8 '' 57 '' st1 = (True, st2) \<and>
     \<not> fst (captcha_verify True [(''__Host-kyrux_session'', ''41'')] 8 ''57'' st2)"
proof -
  let ?ck = "[(''__Host-kyrux_session'', ''41'')]" and ?st = "snd (new_session [] (Some ''A'') 5 (new_store 100 :: goval store))"
  have h: "hex_encode ''A'' = ''41''" by code_simp
  obtain r where r: "new_session [] (Some ''A'') 5 (new_store 100 :: goval store) = (r, ?st)" by (metis prod.collapse)
  have i: "store_inv 5 ?st" by (rule new_inv[OF _ _ r]) (simp_all add: new_store_def store_inv_new[unfolded new_store_def])
  obtain s where s: "from_request True ?ck ?st 7 = Some s" "ss_expires s = 105"
    by (simp add: from_request_def cookie_name_def new_session_def new_store_def default_max_total_def session_get_def h Let_def)
  obtain ck st1 where c: "captcha_set_code True ?ck True ''57'' None 7 ?st = (ck, st1)" by fastforce
  obtain ok st2 where v: "captcha_verify True ?ck 8 '' 57 '' st1 = (ok, st2)" by fastforce
  have "trim_space '' 57 '' = ''57''" by code_simp
  with captcha_single_use[OF i s(1) c _ _ v, of 8 "''57''"] s(2) v show ?thesis by auto
qed

subsection \<open>The distribution of the digits\<close>

lemma mod_word: "b < 256 \<Longrightarrow> unat ((word_of_nat b :: 8 word) mod 10) = b mod 10"
  by (simp add: unat_mod_distrib unsigned_of_nat take_bit_eq_mod)

lemma decade: "k \<le> 10 \<Longrightarrow> length (filter (\<lambda>b. b mod 10 = d) [10 * n..<10 * n + k]) = (if d < k then 1 else 0)" for k d n :: nat
proof (induction k)
  case (Suc k)
  then have "(10 * n + k) mod 10 = k" by simp
  with Suc show ?case by (simp add: less_Suc_eq)
qed simp

lemma decades: "length (filter (\<lambda>b. b mod 10 = d) [0..<10 * n]) = n" if "d < 10" for d n :: nat
proof (induction n)
  case (Suc n)
  have "[0..<10 * Suc n] = [0..<10 * n] @ [10 * n..<10 * n + 10]" using upt_add_eq_append[of 0 "10 * n" 10] by (simp add: add.commute)
  with Suc decade[of 10 d n] that show ?case by simp
qed simp

lemma digit_counts: "d < 10 \<Longrightarrow> length (filter (\<lambda>b. b mod 10 = d) [0..<256]) = (if d < 6 then 26 else 25)" for d :: nat
proof -
  assume "d < 10"
  moreover have "[0..<256] = [0..<10 * 25] @ [10 * 25..<10 * 25 + 6 :: nat]" using upt_add_eq_append[of 0 250 6] by simp
  ultimately show ?thesis using decades[of d 25] decade[of 6 d 25] by simp
qed

lemma digit_chr_eq: "c < 10 \<Longrightarrow> d < 10 \<Longrightarrow> digit_chr c = digit_chr d \<longleftrightarrow> c = d"
  by (metis digit_val_digit_chr)

text \<open>
  A code has one digit per random byte (\<open>New\<close> reads five), and the digits are not equally likely: of the 256 values of a byte 26 give each of 0 to 5 and 25 give each of 6 to 9.
\<close>

theorem captcha_codes:
  "captcha_new (Some bs) = Some code \<Longrightarrow>
   length code = length bs \<and> (\<forall>c\<in>set code. is_digit c) \<and>
   (d < 10 \<longrightarrow> length (filter (\<lambda>b. captcha_new (Some [word_of_nat b]) = Some [digit_chr d]) [0..<256]) = (if d < 6 then 26 else 25))"
proof -
  assume a: "captcha_new (Some bs) = Some code"
  have m: "unat (w mod 10) < 10" for w :: "8 word"
    using unat_mod_distrib[of w 10] by simp
  have "(\<forall>c\<in>set code. is_digit c)"
    using a m by (auto simp: captcha_new_def)
  moreover have "length (filter (\<lambda>b. captcha_new (Some [word_of_nat b]) = Some [digit_chr d]) [0..<256]) = (if d < 6 then 26 else 25)"
    if d: "d < 10"
  proof -
    have "filter (\<lambda>b. captcha_new (Some [word_of_nat b]) = Some [digit_chr d]) [0..<256] = filter (\<lambda>b. b mod 10 = d) [0..<256]"
      using d by (intro filter_cong) (auto simp: captcha_new_def mod_word digit_chr_eq)
    then show ?thesis using digit_counts[OF d] by simp
  qed
  ultimately show ?thesis using a by (auto simp: captcha_new_def)
qed

end
