(* ===== verification/Router.thy ===== *)
theory Router
  imports OrmExec
begin

text \<open>
  The router of \<open>core/router\<close>: path parameters and their two notations (\<open>params.go\<close>), registration
  with the complementary slash form, the middleware chain and the writer that turns the mux's own
  404/405 into an error page (\<open>router.go\<close>), named routes (\<open>urls.go\<close>) and the request context
  (\<open>context.go\<close>). Matching a request against the registered patterns is \<open>http.ServeMux\<close>; its answer is
  an input here. A pattern the mux itself refuses makes the program stop at start-up and is not
  modelled.
\<close>

declare map_of_eq_Some_iff [simp del] AList.update_conv' [simp]

subsection \<open>Path parameters\<close>

text \<open>\<open>reKyruxParam\<close> and \<open>reGoParam\<close> at the head of a text: the parts and the rest after the match.\<close>

definition letter :: "char \<Rightarrow> bool" where "letter c \<longleftrightarrow> is_upper c \<or> is_lower c"

definition kyrux_param :: "string \<Rightarrow> (string \<times> string \<times> string) option" where
  "kyrux_param s =
     (case s of
        [] \<Rightarrow> None
      | c # cs \<Rightarrow>
          (let name = takeWhile ident_char cs; r1 = dropWhile ident_char cs;
               typ = takeWhile letter (tl r1); r2 = dropWhile letter (tl r1)
           in if c = CHR ''<'' \<and> name \<noteq> [] \<and> ident_start (hd name) \<and> r1 \<noteq> [] \<and> hd r1 = CHR '':'' \<and> typ \<noteq> [] \<and>
                 r2 \<noteq> [] \<and> hd r2 = CHR ''>'' then Some (name, typ, tl r2) else None))"

definition go_param :: "string \<Rightarrow> (string \<times> bool \<times> string) option" where
  "go_param s =
     (case s of
        [] \<Rightarrow> None
      | c # cs \<Rightarrow>
          (let name = takeWhile ident_char cs; r1 = dropWhile ident_char cs
           in if c = CHR ''{'' \<and> name \<noteq> [] \<and> ident_start (hd name)
              then (if has_prefix r1 ''...}'' then Some (name, True, drop 4 r1)
                    else if has_prefix r1 ''}'' then Some (name, False, drop 1 r1) else None)
              else None))"

lemma kyrux_param_shorter: "kyrux_param s = Some (n, t, rest) \<Longrightarrow> length rest < length s"
proof (cases s)
  case (Cons c cs)
  let ?r1 = "dropWhile ident_char cs" and ?r2 = "dropWhile letter (tl (dropWhile ident_char cs))"
  assume "kyrux_param s = Some (n, t, rest)"
  with Cons have "rest = tl ?r2" by (auto simp: kyrux_param_def Let_def split: if_splits)
  moreover have "length ?r2 \<le> length (tl ?r1)" by (rule length_dropWhile_le)
  moreover have "length (tl ?r1) \<le> length cs" using length_dropWhile_le[of ident_char cs] by simp
  ultimately show ?thesis using Cons by simp
qed (simp add: kyrux_param_def)

lemma go_param_shorter: "go_param s = Some (n, d, rest) \<Longrightarrow> length rest < length s"
proof (cases s)
  case (Cons c cs)
  assume "go_param s = Some (n, d, rest)"
  with Cons have "length rest \<le> length (dropWhile ident_char cs)" by (auto simp: go_param_def Let_def split: if_splits)
  also have "\<dots> \<le> length cs" by (rule length_dropWhile_le)
  finally show ?thesis using Cons by simp
qed (simp add: go_param_def)

function convert_pattern :: "string \<Rightarrow> string" where
  "convert_pattern s =
     (case kyrux_param s of
        Some (name, typ, rest) \<Rightarrow>
          (if typ = ''path'' then ''{'' @ name @ ''...}'' else ''{'' @ name @ ''}'') @ convert_pattern rest
      | None \<Rightarrow> (case s of [] \<Rightarrow> [] | c # cs \<Rightarrow> c # convert_pattern cs))"
  by pat_completeness auto
termination by (relation "measure length") (auto dest: kyrux_param_shorter)

declare convert_pattern.simps [simp del]

function extract_param_names :: "string \<Rightarrow> string list" where
  "extract_param_names s =
     (case go_param s of
        Some (name, _, rest) \<Rightarrow> name # extract_param_names rest
      | None \<Rightarrow> (case s of [] \<Rightarrow> [] | _ # cs \<Rightarrow> extract_param_names cs))"
  by pat_completeness auto
termination by (relation "measure length") (auto dest: go_param_shorter)

declare extract_param_names.simps [simp del]

function display_params :: "string \<Rightarrow> string" where
  "display_params s =
     (case go_param s of
        Some (name, dots, rest) \<Rightarrow> (if dots then ''<'' @ name @ '':path>'' else ''<'' @ name @ ''>'') @ display_params rest
      | None \<Rightarrow> (case s of [] \<Rightarrow> [] | c # cs \<Rightarrow> c # display_params cs))"
  by pat_completeness auto
termination by (relation "measure length") (auto dest: go_param_shorter)

declare display_params.simps [simp del]

definition display_path :: "string \<Rightarrow> string" where
  "display_path path = display_params (trim_suffix path ''{$}'')"

definition normalize :: "string \<Rightarrow> string" where
  "normalize pattern = (if has_suffix pattern ''/'' then pattern @ ''{$}'' else pattern)"

definition slash_alternate :: "string \<Rightarrow> string" where
  "slash_alternate pattern =
     (if contains pattern ''...}'' then []
      else if has_suffix pattern ''/{$}'' then
        (let alt = trim_suffix pattern ''/{$}''
         in case cut_chr (CHR '' '') alt of (_, path, _) \<Rightarrow> if path = [] then [] else alt)
      else (case cut_chr (CHR '' '') pattern of (_, path, _) \<Rightarrow> if path = ''/'' then [] else pattern @ ''/{$}''))"

text \<open>A pattern as its author writes it: literal text and typed parameters.\<close>

datatype piece = Lit string | Param string string

fun piece_ok :: "piece \<Rightarrow> bool" where
  "piece_ok (Lit s) \<longleftrightarrow> CHR ''<'' \<notin> set s \<and> CHR ''{'' \<notin> set s"
| "piece_ok (Param n t) \<longleftrightarrow> n \<noteq> [] \<and> ident_start (hd n) \<and> (\<forall>c\<in>set n. ident_char c) \<and> t \<noteq> [] \<and> (\<forall>c\<in>set t. letter c)"

fun piece_kyrux :: "piece \<Rightarrow> string" where
  "piece_kyrux (Lit s) = s"
| "piece_kyrux (Param n t) = ''<'' @ n @ '':'' @ t @ ''>''"

fun piece_go :: "piece \<Rightarrow> string" where
  "piece_go (Lit s) = s"
| "piece_go (Param n t) = (if t = ''path'' then ''{'' @ n @ ''...}'' else ''{'' @ n @ ''}'')"

fun piece_shown :: "piece \<Rightarrow> string" where
  "piece_shown (Lit s) = s"
| "piece_shown (Param n t) = (if t = ''path'' then ''<'' @ n @ '':path>'' else ''<'' @ n @ ''>'')"

fun piece_names :: "piece \<Rightarrow> string list" where
  "piece_names (Lit s) = []"
| "piece_names (Param n t) = [n]"

lemma ident_not_special: "ident_char c \<Longrightarrow> c \<notin> set '':>}.''"
  by (auto simp: re_defs char_defs)

lemma letter_not_gt: "letter c \<Longrightarrow> c \<noteq> CHR ''>''"
  by (auto simp: letter_def char_defs)

lemma takeWhile_all: "\<forall>c\<in>set n. P c \<Longrightarrow> \<not> P d \<Longrightarrow> takeWhile P (n @ d # s) = n \<and> dropWhile P (n @ d # s) = d # s"
  by (induction n) auto

lemma kyrux_param_match: "piece_ok (Param n t) \<Longrightarrow> kyrux_param (piece_kyrux (Param n t) @ s) = Some (n, t, s)"
proof -
  assume ok: "piece_ok (Param n t)"
  have n: "takeWhile ident_char (n @ CHR '':'' # t @ CHR ''>'' # s) = n"
    "dropWhile ident_char (n @ CHR '':'' # t @ CHR ''>'' # s) = CHR '':'' # t @ CHR ''>'' # s"
    using takeWhile_all[of n ident_char "CHR '':''"] ok ident_not_special by auto
  have t: "takeWhile letter (t @ CHR ''>'' # s) = t" "dropWhile letter (t @ CHR ''>'' # s) = CHR ''>'' # s"
    using takeWhile_all[of t letter "CHR ''>''"] ok letter_not_gt by auto
  have "\<not> ident_char CHR '':''" "\<not> ident_char CHR ''>''" "\<not> letter CHR ''>''" using ident_not_special letter_not_gt by auto
  with ok show ?thesis by (simp add: kyrux_param_def n t)
qed

lemma go_param_match: "piece_ok (Param n t) \<Longrightarrow> go_param (piece_go (Param n t) @ s) = Some (n, t = ''path'', s)"
proof -
  assume ok: "piece_ok (Param n t)"
  have n: "d \<in> set '':>}.'' \<Longrightarrow> takeWhile ident_char (n @ d # r) = n \<and> dropWhile ident_char (n @ d # r) = d # r" for d r
    using takeWhile_all[of n ident_char d r] ok ident_not_special by auto
  show ?thesis using ok n[of "CHR ''.''" "''..}'' @ s"] n[of "CHR ''}''" s] by (auto simp: go_param_def Let_def)
qed

lemma lit_skip: "piece_ok (Lit l) \<Longrightarrow>
   convert_pattern (l @ s) = l @ convert_pattern s \<and> extract_param_names (l @ s) = extract_param_names s \<and>
   display_params (l @ s) = l @ display_params s"
proof (induction l)
  case (Cons c l)
  then have "kyrux_param (c # l @ s) = None" "go_param (c # l @ s) = None" by (auto simp: kyrux_param_def go_param_def Let_def)
  with Cons show ?case
    by (simp add: convert_pattern.simps[of "c # l @ s"] extract_param_names.simps[of "c # l @ s"] display_params.simps[of "c # l @ s"])
qed simp

lemma convert_Nil [simp]: "convert_pattern [] = []" "extract_param_names [] = []" "display_params [] = []"
  by (simp_all add: convert_pattern.simps extract_param_names.simps display_params.simps kyrux_param_def go_param_def)

text \<open>
  Route patterns mean what they say: for every pattern of literal text and \<open><name:type>\<close>
  parameters, the conversion gives the mux's notation, the names read back from it are the parameters
  in order, and the debug page shows the pattern again without types (\<open>path\<close> excepted).
\<close>

theorem route_pattern_roundtrip:
  assumes "\<forall>p\<in>set ps. piece_ok p"
  shows "convert_pattern (concat (map piece_kyrux ps)) = concat (map piece_go ps) \<and>
    extract_param_names (concat (map piece_go ps)) = concat (map piece_names ps) \<and>
    display_params (concat (map piece_go ps)) = concat (map piece_shown ps)"
  using assms
proof (induction ps)
  case (Cons p ps)
  show ?case
  proof (cases p)
    case (Lit l)
    with Cons lit_skip[of l] show ?thesis by simp
  next
    case (Param n t)
    let ?k = "piece_kyrux (Param n t) @ concat (map piece_kyrux ps)" and ?g = "piece_go (Param n t) @ concat (map piece_go ps)"
    have ok: "piece_ok (Param n t)" using Cons.prems Param by simp
    have "convert_pattern ?k = piece_go (Param n t) @ convert_pattern (concat (map piece_kyrux ps))"
      by (subst convert_pattern.simps) (simp add: kyrux_param_match[OF ok] del: piece_kyrux.simps)
    moreover have "extract_param_names ?g = n # extract_param_names (concat (map piece_go ps))"
      by (subst extract_param_names.simps) (simp add: go_param_match[OF ok] del: piece_go.simps)
    moreover have "display_params ?g = piece_shown (Param n t) @ display_params (concat (map piece_go ps))"
      by (subst display_params.simps) (simp add: go_param_match[OF ok] del: piece_go.simps)
    ultimately have "convert_pattern (piece_kyrux p @ concat (map piece_kyrux ps)) = piece_go p @ convert_pattern (concat (map piece_kyrux ps))"
      "extract_param_names (piece_go p @ concat (map piece_go ps)) = piece_names p @ extract_param_names (concat (map piece_go ps))"
      "display_params (piece_go p @ concat (map piece_go ps)) = piece_shown p @ display_params (concat (map piece_go ps))"
      using Param by simp_all
    then show ?thesis using Cons by simp
  qed
qed simp

theorem route_pattern_roundtrip_witness:
  "convert_pattern ''/files/<id:int>/<rest:path>'' = ''/files/{id}/{rest...}'' \<and>
   extract_param_names ''/files/{id}/{rest...}'' = [''id'', ''rest'']"
proof -
  let ?ps = "[Lit ''/files/'', Param ''id'' ''int'', Lit ''/'', Param ''rest'' ''path'']"
  have "\<forall>p\<in>set ?ps. piece_ok p" by (simp add: letter_def re_defs char_defs)
  from route_pattern_roundtrip[OF this] show ?thesis by simp
qed

subsection \<open>Registration\<close>

record 'h router =
  rt_mux :: "(string \<times> 'h) list"
  rt_middlewares :: "('h \<Rightarrow> 'h) list"
  rt_routes :: "string list"
  rt_internal :: "string list"
  rt_registered :: "string list"

definition new_router :: "'h router" where
  "new_router = \<lparr>rt_mux = [], rt_middlewares = [], rt_routes = [], rt_internal = [], rt_registered = []\<rparr>"

definition use_middleware :: "('h \<Rightarrow> 'h) \<Rightarrow> 'h router \<Rightarrow> 'h router" where
  "use_middleware m r = r\<lparr>rt_middlewares := rt_middlewares r @ [m]\<rparr>"

definition middleware_chain :: "('h \<Rightarrow> 'h) list \<Rightarrow> 'h \<Rightarrow> 'h" where
  "middleware_chain ms h = foldr (\<lambda>m acc. m acc) ms h"

definition register_mux :: "string \<Rightarrow> 'h \<Rightarrow> 'h router \<Rightarrow> 'h router" where
  "register_mux pattern h r =
     (if pattern \<in> set (rt_registered r) then r
      else r\<lparr>rt_registered := pattern # rt_registered r, rt_mux := rt_mux r @ [(pattern, h)]\<rparr>)"

definition handle :: "string \<Rightarrow> 'h \<Rightarrow> 'h router \<Rightarrow> 'h router" where
  "handle pattern0 h r =
     (let pattern = normalize (convert_pattern pattern0);
          r1 = r\<lparr>rt_routes := List.insert pattern (rt_routes r)\<rparr>;
          mux_handler = middleware_chain (rt_middlewares r) h;
          r2 = register_mux pattern mux_handler r1;
          alt = slash_alternate pattern
      in if alt \<noteq> [] then register_mux alt mux_handler r2 else r2)"

definition handle_internal :: "string \<Rightarrow> 'h \<Rightarrow> 'h router \<Rightarrow> 'h router" where
  "handle_internal pattern h r =
     handle pattern h (r\<lparr>rt_internal := List.insert (normalize (convert_pattern pattern)) (rt_internal r)\<rparr>)"

definition handle_prefix :: "string \<Rightarrow> 'h \<Rightarrow> 'h router \<Rightarrow> 'h router" where
  "handle_prefix pre h r = r\<lparr>rt_mux := rt_mux r @ [(pre, h)]\<rparr>"

definition has_route :: "string \<Rightarrow> 'h router \<Rightarrow> bool" where
  "has_route pattern r \<longleftrightarrow> normalize (convert_pattern pattern) \<in> set (rt_routes r)"

definition route_entries :: "'h router \<Rightarrow> (string \<times> string) list" where
  "route_entries r =
     map (\<lambda>p. case cut_chr (CHR '' '') p of (meth, path, _) \<Rightarrow> (meth, display_path path))
       (filter (\<lambda>p. p \<notin> set (rt_internal r)) (rt_routes r))"

record 'h url_pattern =
  up_method :: string
  up_path :: string
  up_view :: 'h
  up_name :: string

fun include_urls :: "'h url_pattern list \<Rightarrow> 'h router \<times> (string \<times> string) list \<Rightarrow> 'h router \<times> (string \<times> string) list" where
  "include_urls [] s = s"
| "include_urls (p # ps) (r, names) =
     include_urls ps
       (handle (up_method p @ '' '' @ up_path p) (up_view p) r,
        if up_name p \<noteq> [] then AList.update (up_name p) (display_path (convert_pattern (up_path p))) names else names)"

definition resolve_url :: "(string \<times> string) list \<Rightarrow> string \<Rightarrow> string" where
  "resolve_url names name = (case map_of names name of Some path \<Rightarrow> path | None \<Rightarrow> ''#'')"

text \<open>The forms one call of \<open>Handle\<close> registers.\<close>

definition forms :: "string \<Rightarrow> string list" where
  "forms pattern = (let p = normalize (convert_pattern pattern); alt = slash_alternate p in if alt \<noteq> [] then [p, alt] else [p])"

definition registers :: "('h \<Rightarrow> 'h) list \<Rightarrow> (string \<times> 'h) list \<Rightarrow> (string \<times> 'h) list" where
  "registers ms hs = concat (map (\<lambda>(p, h). map (\<lambda>x. (x, middleware_chain ms h)) (forms p)) hs)"

definition mux_ok :: "'h router \<Rightarrow> bool" where
  "mux_ok r \<longleftrightarrow> fst ` set (rt_mux r) = set (rt_registered r) \<and> distinct (map fst (rt_mux r))"

lemma register_mux_ok:
  assumes "mux_ok r"
  shows "mux_ok (register_mux p h r) \<and> map_of (rt_mux (register_mux p h r)) = map_of (rt_mux r @ [(p, h)]) \<and>
    rt_middlewares (register_mux p h r) = rt_middlewares r \<and> rt_routes (register_mux p h r) = rt_routes r"
proof (cases "p \<in> set (rt_registered r)")
  case True
  with assms obtain x where "map_of (rt_mux r) p = Some x" unfolding mux_ok_def by (metis map_of_eq_None_iff not_None_eq)
  then have "map_of (rt_mux r @ [(p, h)]) = map_of (rt_mux r)" by (auto simp: map_add_def fun_eq_iff split: option.split)
  with True assms show ?thesis by (simp add: register_mux_def)
next
  case False
  with assms show ?thesis by (auto simp: register_mux_def mux_ok_def)
qed

lemma handle_ok:
  assumes "mux_ok r"
  shows "mux_ok (handle p h r) \<and> map_of (rt_mux (handle p h r)) = map_of (rt_mux r @ registers (rt_middlewares r) [(p, h)]) \<and>
    rt_middlewares (handle p h r) = rt_middlewares r \<and> set (rt_routes (handle p h r)) = insert (normalize (convert_pattern p)) (set (rt_routes r))"
proof -
  let ?p = "normalize (convert_pattern p)" and ?h = "middleware_chain (rt_middlewares r) h"
  let ?r1 = "r\<lparr>rt_routes := List.insert ?p (rt_routes r)\<rparr>"
  have r1: "mux_ok ?r1" "rt_mux ?r1 = rt_mux r" using assms by (simp_all add: mux_ok_def)
  note a = register_mux_ok[OF r1(1), of ?p ?h]
  note b = register_mux_ok[OF a[THEN conjunct1], of "slash_alternate ?p" ?h]
  show ?thesis
    using a b r1(2) by (auto simp: handle_def registers_def forms_def Let_def)
qed

lemma handles_ok:
  assumes "mux_ok r"
  shows "map_of (rt_mux (fold (\<lambda>(p, h). handle p h) hs r)) = map_of (rt_mux r @ registers (rt_middlewares r) hs) \<and>
    mux_ok (fold (\<lambda>(p, h). handle p h) hs r) \<and>
    set (rt_routes (fold (\<lambda>(p, h). handle p h) hs r)) = (\<lambda>(p, h). normalize (convert_pattern p)) ` set hs \<union> set (rt_routes r)"
  using assms
proof (induction hs arbitrary: r)
  case (Cons e hs)
  obtain p h where e: "e = (p, h)" by (cases e)
  from Cons.IH[OF handle_ok[OF Cons.prems, THEN conjunct1], of p h] handle_ok[OF Cons.prems, of p h]
  show ?case by (simp add: e registers_def)
qed (simp add: registers_def)

text \<open>
  Who answers: after any sequence of registrations the handler of a form (with or without the
  final slash) is the one of the first registration that produces the form, wrapped in the middlewares
  in use at that time, the first one used being the outermost. A later registration of a form that is
  taken is listed as a route but never served.
\<close>

theorem first_registration_wins:
  assumes "rt_mux r = []" and "rt_registered r = []"
  shows "map_of (rt_mux (fold (\<lambda>(p, h). handle p h) hs r)) x = map_of (registers (rt_middlewares r) hs) x \<and>
    (\<forall>(p, h)\<in>set hs. has_route p (fold (\<lambda>(p, h). handle p h) hs r)) \<and>
    middleware_chain (m # ms) f = m (middleware_chain ms f)"
proof -
  have "mux_ok r" using assms by (simp add: mux_ok_def)
  from handles_ok[OF this, of hs] assms(1) show ?thesis by (auto simp: has_route_def middleware_chain_def)
qed

theorem first_registration_wins_witness:
  "map_of (rt_mux (fold (\<lambda>(p, h). handle p h) [(''GET /a/'', 1), (''GET /a'', 2)] (use_middleware (\<lambda>h. h + 10) (new_router :: nat router)))) ''GET /a'' = Some 11"
proof -
  let ?r = "use_middleware (\<lambda>h. h + 10) (new_router :: nat router)"
  have e: "rt_mux ?r = []" "rt_registered ?r = []" by (simp_all add: use_middleware_def new_router_def)
  have f: "forms ''GET /a/'' = [''GET /a/{$}'', ''GET /a'']" by code_simp
  from first_registration_wins[OF e, of "[(''GET /a/'', 1), (''GET /a'', 2)]" "''GET /a''"] show ?thesis
    by (simp add: registers_def f use_middleware_def new_router_def middleware_chain_def)
qed

subsection \<open>The intercepting writer\<close>

text \<open>What a handler or the mux does with its \<open>ResponseWriter\<close>, and what reaches the client.\<close>

datatype write_event = WriteStatus nat | WriteBody string

datatype response_part = SentStatus nat | SentBody string | ErrorPage nat

record code_writer =
  cw_code :: nat
  cw_handler_ran :: bool
  cw_intercepted :: bool
  cw_out :: "response_part list"

definition cw_new :: code_writer where
  "cw_new = \<lparr>cw_code = 0, cw_handler_ran = False, cw_intercepted = False, cw_out = []\<rparr>"

definition cw_write_header :: "nat \<Rightarrow> code_writer \<Rightarrow> code_writer" where
  "cw_write_header code cw =
     (let cw1 = cw\<lparr>cw_code := code\<rparr>
      in if cw_handler_ran cw \<or> (code \<noteq> 404 \<and> code \<noteq> 405) then cw1\<lparr>cw_out := cw_out cw1 @ [SentStatus code]\<rparr>
         else cw1\<lparr>cw_intercepted := True\<rparr>)"

definition cw_write :: "string \<Rightarrow> code_writer \<Rightarrow> code_writer" where
  "cw_write b cw = (if cw_intercepted cw then cw else cw\<lparr>cw_out := cw_out cw @ [SentBody b]\<rparr>)"

definition cw_event :: "write_event \<Rightarrow> code_writer \<Rightarrow> code_writer" where
  "cw_event e cw = (case e of WriteStatus c \<Rightarrow> cw_write_header c cw | WriteBody b \<Rightarrow> cw_write b cw)"

text \<open>
  \<open>ServeHTTP\<close>: the mux runs the handler it found (\<open>Inr\<close> its events) or answers by itself (\<open>Inl\<close>:
  redirect, 404, 405).
\<close>

definition serve_http :: "write_event list + write_event list \<Rightarrow> response_part list" where
  "serve_http answer =
     (let cw = (case answer of
                  Inr evs \<Rightarrow> fold cw_event evs (cw_new\<lparr>cw_handler_ran := True\<rparr>)
                | Inl evs \<Rightarrow> fold cw_event evs cw_new)
      in if (cw_code cw = 404 \<or> cw_code cw = 405) \<and> \<not> cw_handler_ran cw then cw_out cw @ [ErrorPage (cw_code cw)]
         else cw_out cw)"

fun sent :: "write_event \<Rightarrow> response_part" where
  "sent (WriteStatus c) = SentStatus c"
| "sent (WriteBody b) = SentBody b"

lemma fold_cw_handler: "cw_handler_ran cw \<Longrightarrow> \<not> cw_intercepted cw \<Longrightarrow>
  cw_out (fold cw_event evs cw) = cw_out cw @ map sent evs \<and> cw_handler_ran (fold cw_event evs cw)"
proof (induction evs arbitrary: cw)
  case (Cons e evs)
  then have "cw_handler_ran (cw_event e cw) \<and> \<not> cw_intercepted (cw_event e cw) \<and> cw_out (cw_event e cw) = cw_out cw @ [sent e]"
    by (cases e) (simp_all add: cw_event_def cw_write_header_def cw_write_def)
  with Cons.IH[of "cw_event e cw"] show ?case by simp
qed simp

lemma fold_cw_bodies: "cw_intercepted cw \<Longrightarrow> fold cw_event (map WriteBody bs) cw = cw"
  by (induction bs) (simp_all add: cw_event_def cw_write_def)

lemma fold_cw_sent: "\<not> cw_intercepted cw \<Longrightarrow>
  cw_out (fold cw_event (map WriteBody bs) cw) = cw_out cw @ map SentBody bs \<and> cw_code (fold cw_event (map WriteBody bs) cw) = cw_code cw"
  by (induction bs arbitrary: cw) (simp_all add: cw_event_def cw_write_def)

text \<open>
  Answers of registered handlers reach the client untouched, their own 404 pages included; when no
  route matches, the mux's plain 404 or 405 text is replaced by exactly one error page of that code;
  any other answer of the mux passes.
\<close>

theorem serve_http_output:
  "serve_http (Inr evs) = map sent evs \<and>
   serve_http (Inl (WriteStatus code # map WriteBody bs)) =
     (if code = 404 \<or> code = 405 then [ErrorPage code] else SentStatus code # map SentBody bs)"
proof -
  have "serve_http (Inr evs) = map sent evs"
    using fold_cw_handler[of "cw_new\<lparr>cw_handler_ran := True\<rparr>" evs] by (simp add: serve_http_def cw_new_def Let_def)
  moreover have "cw_handler_ran (cw_event e cw) = cw_handler_ran cw" for e cw
    by (cases e) (simp_all add: cw_event_def cw_write_header_def cw_write_def Let_def)
  then have "cw_handler_ran (fold cw_event es cw) = cw_handler_ran cw" for es cw by (induction es arbitrary: cw) simp_all
  then have "serve_http (Inl (WriteStatus code # map WriteBody bs)) =
     (if code = 404 \<or> code = 405 then [ErrorPage code] else SentStatus code # map SentBody bs)"
    using fold_cw_bodies[of "cw_write_header code cw_new" bs] fold_cw_sent[of "cw_write_header code cw_new" bs]
    by (auto simp: serve_http_def cw_event_def cw_new_def cw_write_header_def Let_def)
  ultimately show ?thesis ..
qed

subsection \<open>The request context\<close>

text \<open>
  A context comes from a pool and is reset for its request; \<open>None\<close> is a nil map. The query values
  are parsed on first use.
\<close>

record ctx =
  cx_params :: "(string \<times> string) list option"
  cx_data :: "(string \<times> goval) list option"
  cx_query :: "(string \<times> string list) list option"

definition begin_request :: "string list \<Rightarrow> (string \<Rightarrow> string) \<Rightarrow> ctx \<Rightarrow> ctx" where
  "begin_request names path_value pooled =
     pooled\<lparr>cx_data := None, cx_query := None,
       cx_params := (if names \<noteq> [] then Some (fold (\<lambda>n m. AList.update n (path_value n) m) names []) else None)\<rparr>"

definition end_request :: "ctx \<Rightarrow> ctx" where
  "end_request cx = cx\<lparr>cx_data := None, cx_params := None\<rparr>"

definition ctx_copy :: "ctx \<Rightarrow> ctx" where
  "ctx_copy cx = \<lparr>cx_params = cx_params cx, cx_data = cx_data cx, cx_query = cx_query cx\<rparr>"

definition ctx_set_param :: "string \<Rightarrow> string \<Rightarrow> ctx \<Rightarrow> ctx" where
  "ctx_set_param k v cx = cx\<lparr>cx_params := Some (AList.update k v (case cx_params cx of None \<Rightarrow> [] | Some m \<Rightarrow> m))\<rparr>"

definition ctx_set :: "string \<Rightarrow> goval \<Rightarrow> ctx \<Rightarrow> ctx" where
  "ctx_set k v cx = cx\<lparr>cx_data := Some (AList.update k v (case cx_data cx of None \<Rightarrow> [] | Some m \<Rightarrow> m))\<rparr>"

definition ctx_get :: "string \<Rightarrow> ctx \<Rightarrow> goval option" where
  "ctx_get k cx = (case cx_data cx of None \<Rightarrow> None | Some m \<Rightarrow> map_of m k)"

definition ctx_param :: "string \<Rightarrow> ctx \<Rightarrow> string" where
  "ctx_param k cx = (case cx_params cx of None \<Rightarrow> [] | Some m \<Rightarrow> (case map_of m k of None \<Rightarrow> [] | Some v \<Rightarrow> v))"

definition ctx_param_int :: "string \<Rightarrow> ctx \<Rightarrow> int \<times> bool" where
  "ctx_param_int k cx = (if ctx_param k cx = [] then (0, False) else atoi (ctx_param k cx))"

definition query_vals :: "(string \<times> string list) list \<Rightarrow> ctx \<Rightarrow> (string \<times> string list) list \<times> ctx" where
  "query_vals url_query cx =
     (case cx_query cx of
        Some vs \<Rightarrow> (vs, cx)
      | None \<Rightarrow> (url_query, cx\<lparr>cx_query := Some url_query\<rparr>))"

definition values_get :: "(string \<times> string list) list \<Rightarrow> string \<Rightarrow> string" where
  "values_get vs k = (case map_of vs k of Some (v # _) \<Rightarrow> v | _ \<Rightarrow> [])"

definition ctx_query :: "(string \<times> string list) list \<Rightarrow> string \<Rightarrow> ctx \<Rightarrow> string" where
  "ctx_query url_query k cx = values_get (fst (query_vals url_query cx)) k"

definition ctx_query_default :: "(string \<times> string list) list \<Rightarrow> string \<Rightarrow> string \<Rightarrow> ctx \<Rightarrow> string" where
  "ctx_query_default url_query k fallback cx =
     (let v = values_get (fst (query_vals url_query cx)) k in if v \<noteq> [] then v else fallback)"

definition ctx_query_int :: "(string \<times> string list) list \<Rightarrow> string \<Rightarrow> int \<Rightarrow> ctx \<Rightarrow> int" where
  "ctx_query_int url_query k fallback cx =
     (case atoi (values_get (fst (query_vals url_query cx)) k) of (n, ok) \<Rightarrow> if ok then n else fallback)"

definition ctx_query_all :: "(string \<times> string list) list \<Rightarrow> string \<Rightarrow> ctx \<Rightarrow> string list" where
  "ctx_query_all url_query k cx = (case map_of (fst (query_vals url_query cx)) k of None \<Rightarrow> [] | Some vs \<Rightarrow> vs)"

lemma fold_params: "map_of (fold (\<lambda>n m. AList.update n (f n) m) names m) k = (if k \<in> set names then Some (f k) else map_of m k)"
  by (induction names arbitrary: m) auto

text \<open>A handler sees its own request only, whatever the pooled context held before.\<close>

lemma begin_request_fresh:
  "ctx_get k (begin_request names pv pooled) = None \<and>
   ctx_param n (begin_request names pv pooled) = (if n \<in> set names then pv n else []) \<and>
   ctx_query uq q (begin_request names pv pooled) = values_get uq q"
  by (simp add: begin_request_def ctx_get_def ctx_param_def ctx_query_def query_vals_def fold_params)

end
