(* ===== verification/Environment.thy ===== *)
theory Environment
  imports Router Database Throttle
begin

text \<open>
  The configuration: the \<open>.env\<close> reader of \<open>core/environment/environment.go\<close> and the settings of
  \<open>core/settings/settings.go\<close>. A file is its text; \<open>getenv\<close> is \<open>os.Getenv\<close>. \<open>en_loaded\<close> is the flat
  map, \<open>en_raw\<close> the lines \<open>GetBlocks\<close> reads.
\<close>

declare map_of_eq_Some_iff [simp del] AList.update_conv' [simp]

record environment =
  en_loaded :: "(string \<times> string) list"
  en_raw :: "string list"

definition no_environment :: environment where "no_environment = \<lparr>en_loaded = [], en_raw = []\<rparr>"

definition newline :: char where "newline = CHR 0x0A"

definition skipped :: "string \<Rightarrow> bool" where
  "skipped line \<longleftrightarrow> line = [] \<or> has_prefix line ''#''"

definition count_byte :: "string \<Rightarrow> char \<Rightarrow> int" where
  "count_byte s b = int (count_list s b)"

text \<open>The text before the first \<open>" #"\<close>, if there is one.\<close>

fun before_comment :: "string \<Rightarrow> string option" where
  "before_comment [] = None"
| "before_comment (c # cs) =
     (if has_prefix (c # cs) '' #'' then Some [] else map_option (\<lambda>s. c # s) (before_comment cs))"

text \<open>The inner loop: lines are appended until the brackets are balanced.\<close>

fun take_json :: "char \<Rightarrow> char \<Rightarrow> int \<Rightarrow> string \<Rightarrow> string list \<Rightarrow> string \<times> string list" where
  "take_json opn cls depth value [] = (value, [])"
| "take_json opn cls depth value (l # ls) =
     (if depth > 0 then
        (let nxt = trim_space l
         in if skipped nxt then take_json opn cls depth value ls
            else take_json opn cls (depth + count_byte nxt opn - count_byte nxt cls) (value @ nxt) ls)
      else (value, l # ls))"

lemma take_json_length: "length (snd (take_json opn cls d v ls)) \<le> length ls"
  by (induction ls arbitrary: d v) (auto simp: Let_def le_SucI)

definition env_value :: "string \<Rightarrow> string list \<Rightarrow> string \<times> string list" where
  "env_value value ls =
     (case value of
        [] \<Rightarrow> ([], ls)
      | c # _ \<Rightarrow>
          if c = CHR ''{'' then take_json c (CHR ''}'') (count_byte value c - count_byte value (CHR ''}'')) value ls
          else if c = CHR ''['' then take_json c (CHR '']'') (count_byte value c - count_byte value (CHR '']'')) value ls
          else (case before_comment value of None \<Rightarrow> (value, ls) | Some v \<Rightarrow> (trim_space v, ls)))"

lemma env_value_length: "length (snd (env_value v ls)) \<le> length ls"
  by (auto simp: env_value_def take_json_length split: list.split option.split)

text \<open>The entries of a file in order, comments and lines without \<open>=\<close> left out.\<close>

function env_entries :: "string list \<Rightarrow> (string \<times> string) list" where
  "env_entries [] = []"
| "env_entries (l # ls) =
     (let line = trim_space l
      in if skipped line then env_entries ls
         else (case cut_chr (CHR ''='') line of
                 (key, value, ok) \<Rightarrow>
                   if \<not> ok then env_entries ls
                   else (let r = env_value (trim_space value) ls in (trim_space key, fst r) # env_entries (snd r))))"
  by pat_completeness auto
termination
  by (relation "measure length") (auto simp: le_imp_less_Suc[OF env_value_length])

definition env_put :: "(string \<Rightarrow> string) \<Rightarrow> string \<times> string \<Rightarrow> (string \<times> string) list \<Rightarrow> (string \<times> string) list" where
  "env_put getenv kv m =
     (if map_of m (fst kv) \<noteq> None then m
      else m @ [(fst kv, if getenv (fst kv) \<noteq> [] then getenv (fst kv) else snd kv)])"

text \<open>\<open>Load\<close>; no file (\<open>None\<close>) is its error.\<close>

definition env_load :: "(string \<Rightarrow> string) \<Rightarrow> string option \<Rightarrow> environment \<Rightarrow> environment option" where
  "env_load getenv file en =
     map_option (\<lambda>data. (let kvs = env_entries (split_chr newline data)
       in \<lparr>en_loaded = fold (env_put getenv) kvs (en_loaded en), en_raw = map (\<lambda>(k, v). k @ ''='' @ v) kvs\<rparr>)) file"

definition env_get :: "(string \<Rightarrow> string) \<Rightarrow> environment \<Rightarrow> string \<Rightarrow> string" where
  "env_get getenv en key = (case map_of (en_loaded en) key of Some v \<Rightarrow> v | None \<Rightarrow> getenv key)"

definition env_get_or :: "(string \<Rightarrow> string) \<Rightarrow> environment \<Rightarrow> string \<Rightarrow> string \<Rightarrow> string" where
  "env_get_or getenv en key fallback = (let v = env_get getenv en key in if v \<noteq> [] then v else fallback)"

subsection \<open>Blocks\<close>

text \<open>\<open>GetBlocks\<close>: \<open>cur\<close> is the open block, \<open>pending\<close> the entries seen before the first marker.\<close>

definition signal_prefix :: "string \<Rightarrow> string" where
  "signal_prefix k =
     (case index_chr (CHR ''_'') k of Some i \<Rightarrow> if i > 0 then take (i + 1) k else [] | None \<Rightarrow> [])"

fun scan_blocks ::
  "string \<Rightarrow> string list \<Rightarrow> (string \<times> string) list option \<Rightarrow> (string \<times> string) list \<Rightarrow> (string \<times> string) list list"
where
  "scan_blocks sig [] cur pending = (case cur of None \<Rightarrow> [] | Some b \<Rightarrow> [b])"
| "scan_blocks sig (l # ls) cur pending =
     (case cut_chr (CHR ''='') l of
        (key, value, ok) \<Rightarrow>
          if \<not> ok then scan_blocks sig ls cur pending
          else if key = sig then
            (case cur of
               None \<Rightarrow> scan_blocks sig ls (Some (fold (\<lambda>(k, v) b. if map_of b k = None then b @ [(k, v)] else b) pending [(key, value)])) []
             | Some b \<Rightarrow> b # scan_blocks sig ls (Some [(key, value)]) [])
          else
            (case cur of
               Some b \<Rightarrow> scan_blocks sig ls (Some (AList.update key value b)) pending
             | None \<Rightarrow>
                 if signal_prefix sig \<noteq> [] \<and> has_prefix key (signal_prefix sig)
                 then scan_blocks sig ls None (AList.update key value pending)
                 else scan_blocks sig ls None pending))"

definition get_blocks :: "string \<Rightarrow> environment \<Rightarrow> (string \<times> string) list list" where
  "get_blocks sig en = scan_blocks sig (en_raw en) None []"

subsection \<open>Reading back a written file\<close>

definition trimmed :: "string \<Rightarrow> bool" where
  "trimmed s \<longleftrightarrow> s = [] \<or> \<not> is_space (hd s) \<and> \<not> is_space (last s)"

text \<open>An entry a line \<open>key=value\<close> can carry as it is.\<close>

definition plain_entry :: "string \<times> string \<Rightarrow> bool" where
  "plain_entry kv \<longleftrightarrow>
     (case kv of (k, v) \<Rightarrow>
        k \<noteq> [] \<and> trimmed k \<and> hd k \<noteq> CHR ''#'' \<and> CHR ''='' \<notin> set k \<and> newline \<notin> set k \<and>
        trimmed v \<and> newline \<notin> set v \<and> before_comment v = None \<and> (v = [] \<or> hd v \<notin> {CHR ''{'', CHR ''[''}))"

definition env_file :: "(string \<times> string) list \<Rightarrow> string" where
  "env_file kvs = join [newline] (map (\<lambda>(k, v). k @ ''='' @ v) kvs)"

lemma trim_trimmed: "trimmed s \<Longrightarrow> trim_space s = s"
  by (auto simp: trimmed_def intro: trim_by_id)

lemma env_value_plain: "plain_entry (k, v) \<Longrightarrow> env_value v ls = (v, ls)"
  by (cases v) (auto simp: plain_entry_def env_value_def)

lemma env_entries_plain: "plain_entry (k, v) \<Longrightarrow> env_entries ((k @ ''='' @ v) # ls) = (k, v) # env_entries ls"
proof -
  assume p: "plain_entry (k, v)"
  then have k: "k \<noteq> []" "trimmed k" "hd k \<noteq> CHR ''#''" "CHR ''='' \<notin> set k" "trimmed v" by (auto simp: plain_entry_def)
  have "trimmed (k @ ''='' @ v)"
    using k by (cases "v = []") (auto simp: trimmed_def is_space_def)
  then have t: "trim_space (k @ ''='' @ v) = k @ ''='' @ v" by (rule trim_trimmed)
  have "\<not> skipped (k @ ''='' @ v)" using k(1,3) by (cases k) (auto simp: skipped_def)
  moreover have "cut_chr (CHR ''='') (k @ ''='' @ v) = (k, v, True)" using cut_chr_append[OF k(4), of v] by simp
  ultimately show ?thesis
    unfolding env_entries.simps(2) t by (simp add: Let_def env_value_plain[OF p] trim_trimmed k(2,5))
qed

lemma split_join: "xs \<noteq> [] \<Longrightarrow> \<forall>x\<in>set xs. c \<notin> set x \<Longrightarrow> split_chr c (join [c] xs) = xs"
  by (induction xs) (auto simp: join_Cons split_chr_single split_chr_append)

lemma env_entries_file: "list_all plain_entry kvs \<Longrightarrow> env_entries (split_chr newline (env_file kvs)) = kvs"
proof (cases "kvs = []")
  case True
  then show ?thesis by (simp add: env_file_def skipped_def trim_by_def)
next
  case False
  assume a: "list_all plain_entry kvs"
  then have "split_chr newline (env_file kvs) = map (\<lambda>(k, v). k @ ''='' @ v) kvs"
    unfolding env_file_def using False by (intro split_join) (auto simp: list_all_iff plain_entry_def newline_def)
  moreover have "env_entries (map (\<lambda>(k, v). k @ ''='' @ v) kvs) = kvs"
    using a by (induction kvs) (auto simp: env_entries_plain[simplified])
  ultimately show ?thesis by simp
qed

lemma env_put_lookup: "map_of (env_put g kv m) k =
  (case map_of m k of Some v \<Rightarrow> Some v
   | None \<Rightarrow> if k = fst kv then Some (if g k \<noteq> [] then g k else snd kv) else None)"
  by (auto simp: env_put_def map_add_def split: option.split)

lemma env_puts_lookup: "map_of (fold (env_put g) kvs m) k =
  (case map_of m k of Some v \<Rightarrow> Some v | None \<Rightarrow> map_option (\<lambda>v. if g k \<noteq> [] then g k else v) (map_of kvs k))"
  by (induction kvs arbitrary: m) (auto simp: env_put_lookup split: option.split)

lemma env_load_file: "list_all plain_entry kvs \<Longrightarrow> env_load g (Some (env_file kvs)) no_environment =
  Some \<lparr>en_loaded = fold (env_put g) kvs [], en_raw = map (\<lambda>(k, v). k @ ''='' @ v) kvs\<rparr>"
  by (simp add: env_load_def env_entries_file no_environment_def Let_def)

lemma env_get_file: "env_get g \<lparr>en_loaded = fold (env_put g) kvs [], en_raw = raw\<rparr> k =
  (if g k \<noteq> [] then g k else case map_of kvs k of Some v \<Rightarrow> v | None \<Rightarrow> [])"
  by (auto simp: env_get_def env_puts_lookup split: option.split)

text \<open>
  What a configuration file says is what the program reads: after loading a file of plain lines
  \<open>key=value\<close>, the value of a key of the file is the operating system's if it sets the key, otherwise
  that of the first line of the file with the key, and keys the file does not mention come from the
  operating system alone.
\<close>

theorem env_file_roundtrip:
  assumes "list_all plain_entry kvs"
  shows "\<exists>en. env_load g (Some (env_file kvs)) no_environment = Some en \<and>
    env_get g en k = (if g k \<noteq> [] then g k else case map_of kvs k of Some v \<Rightarrow> v | None \<Rightarrow> [])"
  using env_load_file[OF assms] by (simp add: env_get_file)

theorem env_file_roundtrip_witness:
  "\<exists>en. env_load (\<lambda>k. if k = ''B'' then ''os'' else []) (Some (env_file [(''A'', ''1 2=3''), (''B'', []), (''A'', ''4'')])) no_environment = Some en \<and>
     env_get (\<lambda>k. if k = ''B'' then ''os'' else []) en ''A'' = ''1 2=3''"
proof -
  have "list_all plain_entry [(''A'', ''1 2=3''), (''B'', []), (''A'', ''4'')]" by code_simp
  from env_file_roundtrip[OF this, of "\<lambda>k. if k = ''B'' then ''os'' else []" "''A''"] show ?thesis by simp
qed

subsection \<open>A JSON value over several lines\<close>

text \<open>The depth after some lines, and whether it stays positive before each of them.\<close>

fun opens :: "char \<Rightarrow> char \<Rightarrow> int \<Rightarrow> string list \<Rightarrow> bool" where
  "opens opn cls d [] \<longleftrightarrow> d \<le> 0"
| "opens opn cls d (l # ls) \<longleftrightarrow> d > 0 \<and> \<not> skipped (trim_space l) \<and>
     opens opn cls (d + count_byte (trim_space l) opn - count_byte (trim_space l) cls) ls"

lemma take_json_concat: "opens opn cls d ls \<Longrightarrow>
  take_json opn cls d v (ls @ rest) = (v @ concat (map trim_space ls), rest)"
proof (induction ls arbitrary: d v)
  case Nil
  then show ?case by (cases rest) auto
next
  case (Cons l ls)
  then show ?case using Cons.IH[of "d + count_byte (trim_space l) opn - count_byte (trim_space l) cls" "v @ trim_space l"]
    by (simp add: Let_def)
qed

subsection \<open>Blocks and the environment\<close>

lemma env_raw_getenv: "map_option en_raw (env_load g1 f e) = map_option en_raw (env_load g2 f e)"
  by (cases f) (simp_all add: env_load_def Let_def)

lemma scan_blocks_heads:
  "map (\<lambda>b. map_of b sig) (scan_blocks sig ls cur pending) =
   (case cur of None \<Rightarrow> [] | Some b \<Rightarrow> [map_of b sig]) @
   map (\<lambda>l. Some (fst (snd (cut_chr (CHR ''='') l))))
     (filter (\<lambda>l. fst (cut_chr (CHR ''='') l) = sig \<and> snd (snd (cut_chr (CHR ''='') l))) ls)"
proof (induction sig ls cur pending rule: scan_blocks.induct)
  case (2 sig l ls cur pending)
  obtain k v ok where c: "cut_chr (CHR ''='') l = (k, v, ok)" by (metis prod_cases3)
  have first: "map_of (fold (\<lambda>(k, v) b. if map_of b k = None then b @ [(k, v)] else b) ps b) sig = map_of b sig" if "map_of b sig \<noteq> None" for ps b
    using that by (induction ps arbitrary: b) (auto simp: map_add_def split: option.split)
  show ?case
  proof (cases "\<not> ok")
    case True
    with c 2 show ?thesis by simp
  next
    case False
    show ?thesis
    proof (cases "k = sig")
      case True
      with c False 2 first[of "[(sig, v)]" pending] show ?thesis by (cases cur) simp_all
    next
      case ne: False
      with c False 2 show ?thesis by (cases cur) simp_all
    qed
  qed
qed (simp split: option.split)

subsection \<open>Settings\<close>

definition int_or :: "string \<Rightarrow> int \<Rightarrow> int" where
  "int_or s fallback = (case atoi s of (n, ok) \<Rightarrow> if ok \<and> n > 0 then n else fallback)"

definition parse_hosts :: "string \<Rightarrow> string list" where
  "parse_hosts s = (if s = [] then [] else filter (\<lambda>h. h \<noteq> []) (map trim_space (split_chr (CHR '','') s)))"

definition or_default :: "string \<Rightarrow> string \<Rightarrow> string" where
  "or_default s fallback = (if s \<noteq> [] then s else fallback)"

definition block_get :: "(string \<times> string) list \<Rightarrow> string \<Rightarrow> string" where
  "block_get b k = (case map_of b k of Some v \<Rightarrow> v | None \<Rightarrow> [])"

definition database_settings :: "environment \<Rightarrow> db_config list" where
  "database_settings en =
     map (\<lambda>b. \<lparr>dc_name = block_get b ''DB_NAME'', dc_enabled = (to_lower (block_get b ''DB_ENABLED'') = ''true''),
                dc_driver = or_default (block_get b ''DB_DRIVER'') ''postgres'', dc_dsn = block_get b ''DB_DSN''\<rparr>)
       (get_blocks ''DB_NAME'' en)"

record settings =
  se_env :: string
  se_debug :: bool
  se_url :: string
  se_timezone :: string
  se_host :: string
  se_port :: string
  se_workers :: int
  se_databases :: "db_config list"
  se_cache_enabled :: bool
  se_cache_driver :: string
  se_cache_addr :: string
  se_cache_password :: string
  se_queue_enabled :: bool
  se_queue_driver :: string
  se_queue_addr :: string
  se_queue_password :: string
  se_queue_workers :: int
  se_mail_enabled :: bool
  se_mail_host :: string
  se_mail_port :: string
  se_mail_user :: string
  se_mail_password :: string
  se_admin_enabled :: bool
  se_admin_path :: string
  se_superuser :: string
  se_superuser_password :: string
  se_secret_key :: string
  se_session_ttl :: int
  se_allowed_hosts :: "string list"
  se_pepper :: string
  se_encryption_key :: string
  se_trusted_proxy :: string
  se_csp :: string

text \<open>\<open>settings.Load\<close>; \<open>cpus\<close> is \<open>runtime.NumCPU()\<close>.\<close>

definition load_settings :: "(string \<Rightarrow> string) \<Rightarrow> int \<Rightarrow> environment \<Rightarrow> settings" where
  "load_settings getenv cpus en =
     (let get = env_get getenv en; get_or = env_get_or getenv en; env = get_or ''APP_ENV'' ''production''
      in \<lparr>se_env = env, se_debug = (env = ''development''), se_url = trim_suffix (get ''APP_URL'') ''/'',
          se_timezone = get_or ''APP_TIMEZONE'' ''UTC'',
          se_host = get_or ''SERVER_HOST'' ''127.0.0.1'', se_port = get_or ''SERVER_PORT'' ''8000'',
          se_workers = int_or (get ''SERVER_WORKERS'') cpus,
          se_databases = database_settings en,
          se_cache_enabled = (get_or ''CACHE_ENABLED'' ''false'' = ''true''), se_cache_driver = get ''CACHE_DRIVER'',
          se_cache_addr = get ''CACHE_ADDR'', se_cache_password = get ''CACHE_PASSWORD'',
          se_queue_enabled = (get_or ''QUEUE_ENABLED'' ''false'' = ''true''), se_queue_driver = get_or ''QUEUE_DRIVER'' ''memory'',
          se_queue_addr = get ''QUEUE_ADDR'', se_queue_password = get ''QUEUE_PASSWORD'',
          se_queue_workers = int_or (get ''QUEUE_WORKERS'') 4,
          se_mail_enabled = (get_or ''MAIL_ENABLED'' ''false'' = ''true''), se_mail_host = get ''MAIL_HOST'',
          se_mail_port = get_or ''MAIL_PORT'' ''587'', se_mail_user = get ''MAIL_USER'', se_mail_password = get ''MAIL_PASSWORD'',
          se_admin_enabled = (get_or ''ADMIN_ENABLED'' ''false'' = ''true''), se_admin_path = get_or ''ADMIN_PATH'' ''/admin/'',
          se_superuser = get ''ADMIN_SUPERUSER_USERNAME'', se_superuser_password = get ''ADMIN_SUPERUSER_PASSWORD'',
          se_secret_key = get_or ''SECRET_KEY'' ''change-me'', se_session_ttl = int_or (get ''SESSION_TTL'') 3600,
          se_allowed_hosts = parse_hosts (get ''ALLOWED_HOSTS''), se_pepper = get ''PASSWORD_PEPPER'',
          se_encryption_key = get ''FIELD_ENCRYPTION_KEY'', se_trusted_proxy = get ''TRUSTED_PROXY_HEADER'',
          se_csp = get ''CSP_POLICY''\<rparr>)"

lemma env_entries_keys: "(k, v) \<in> set (env_entries ls) \<Longrightarrow> CHR ''='' \<notin> set k"
proof (induction "length ls" arbitrary: ls rule: less_induct)
  case less
  show ?case
  proof (cases ls)
    case (Cons l rest)
    obtain a b ok where c: "cut_chr (CHR ''='') (trim_space l) = (a, b, ok)" by (metis prod_cases3)
    show ?thesis
    proof (cases "skipped (trim_space l) \<or> \<not> ok")
      case True
      with c Cons have "env_entries ls = env_entries rest" by (auto simp: Let_def)
      with less.hyps[of rest] less.prems Cons show ?thesis by simp
    next
      case False
      with c have "CHR ''='' \<notin> set a" using cut_chr_found[of "CHR ''=''" "trim_space l" a b] by simp
      then have a: "CHR ''='' \<notin> set (trim_space a)" using set_trim_by[of is_space a] by auto
      let ?r = "env_value (trim_space b) rest"
      have e: "env_entries ls = (trim_space a, fst ?r) # env_entries (snd ?r)" using False c Cons by (simp add: Let_def)
      have "length (snd ?r) < length ls" using env_value_length[of "trim_space b" rest] Cons by simp
      with less.hyps[of "snd ?r"] less.prems e a show ?thesis by auto
    qed
  qed (use less.prems in simp)
qed

lemma database_names: "map dc_name (database_settings en) = map (\<lambda>r. case r of Some v \<Rightarrow> v | None \<Rightarrow> [])
  (map (\<lambda>b. map_of b ''DB_NAME'') (get_blocks ''DB_NAME'' en))"
  by (simp add: database_settings_def block_get_def)

lemma raw_markers: "\<forall>(k, v)\<in>set kvs. CHR ''='' \<notin> set k \<Longrightarrow>
  map (\<lambda>l. fst (snd (cut_chr (CHR ''='') l)))
    (filter (\<lambda>l. fst (cut_chr (CHR ''='') l) = sig \<and> snd (snd (cut_chr (CHR ''='') l))) (map (\<lambda>(k, v). k @ ''='' @ v) kvs)) =
  map snd (filter (\<lambda>(k, v). k = sig) kvs)"
  by (induction kvs) (auto simp: cut_chr_append)

text \<open>
  The databases come from the file alone, one for each \<open>DB_NAME\<close> line and in the order of these
  lines; no variable of the process environment changes any of them, although for the other settings
  such a variable takes precedence over the file.
\<close>

theorem databases_from_file:
  assumes "env_load g (Some data) e = Some en"
  shows "map dc_name (database_settings en) = map snd (filter (\<lambda>(k, v). k = ''DB_NAME'') (env_entries (split_chr newline data))) \<and>
    map_option database_settings (env_load g' (Some data) e) = Some (database_settings en) \<and>
    (g k \<noteq> [] \<and> map_of (en_loaded e) k = None \<longrightarrow> env_get g en k = g k)"
proof (intro conjI impI)
  have raw: "en_raw en = map (\<lambda>(k, v). k @ ''='' @ v) (env_entries (split_chr newline data))"
    using assms by (auto simp: env_load_def Let_def)
  have "\<forall>(k, v)\<in>set (env_entries (split_chr newline data)). CHR ''='' \<notin> set k" using env_entries_keys by blast
  from raw_markers[OF this, of "''DB_NAME''"]
  show "map dc_name (database_settings en) = map snd (filter (\<lambda>(k, v). k = ''DB_NAME'') (env_entries (split_chr newline data)))"
    unfolding database_names get_blocks_def raw scan_blocks_heads by (simp add: comp_def)
  show "map_option database_settings (env_load g' (Some data) e) = Some (database_settings en)"
    using assms by (auto simp: env_load_def Let_def database_settings_def get_blocks_def)
  assume "g k \<noteq> [] \<and> map_of (en_loaded e) k = None"
  then show "env_get g en k = g k"
    using assms by (auto simp: env_load_def Let_def env_get_def env_puts_lookup split: option.split)
qed

theorem databases_from_file_witness:
  "\<exists>en. env_load (\<lambda>_. ''os'') (Some (env_file [(''DB_NAME'', ''a''), (''DB_DSN'', ''x'')])) no_environment = Some en \<and>
     map dc_name (database_settings en) = [''a''] \<and> env_get (\<lambda>_. ''os'') en ''DB_DSN'' = ''os''"
proof -
  obtain en where en: "env_load (\<lambda>_. ''os'') (Some (env_file [(''DB_NAME'', ''a''), (''DB_DSN'', ''x'')])) no_environment = Some en"
    by (simp add: env_load_def Let_def)
  have "list_all plain_entry [(''DB_NAME'', ''a''), (''DB_DSN'', ''x'')]" by code_simp
  note n = env_entries_file[OF this]
  from databases_from_file[OF en, of "\<lambda>_. []" "''DB_DSN''"] en n show ?thesis by (simp add: no_environment_def)
qed

end
