(* ===== verification/ErrorPages.thy ===== *)
theory ErrorPages
  imports Router Sessions
begin

text \<open>
  The response of a request and the error pages of \<open>core/errors/errors.go\<close>: the catalog, the choice
  between a custom handler, the debug page and the production page, and the cache of production
  pages. \<open>externals\<close> holds what lies outside: the two HTML templates executed by \<open>html/template\<close>, the
  status texts of \<open>net/http\<close>, the environment, the MAC.
\<close>

declare map_of_eq_Some_iff [simp del] AList.update_conv' [simp]

subsection \<open>Responses\<close>

text \<open>
  The header map, the cookies added to it, the head that was sent (with the headers of that moment) and
  the body so far.
\<close>

record response =
  rs_headers :: "(string \<times> string) list"
  rs_cookies :: "cookie list"
  rs_sent :: "(nat \<times> (string \<times> string) list \<times> cookie list) option"
  rs_body :: string

definition new_response :: response where
  "new_response = \<lparr>rs_headers = [], rs_cookies = [], rs_sent = None, rs_body = []\<rparr>"

definition header_set :: "string \<Rightarrow> string \<Rightarrow> response \<Rightarrow> response" where
  "header_set k v rs = rs\<lparr>rs_headers := AList.update k v (rs_headers rs)\<rparr>"

definition header_del :: "string \<Rightarrow> response \<Rightarrow> response" where
  "header_del k rs = rs\<lparr>rs_headers := AList.delete k (rs_headers rs)\<rparr>"

definition add_cookie :: "cookie \<Rightarrow> response \<Rightarrow> response" where
  "add_cookie c rs = rs\<lparr>rs_cookies := rs_cookies rs @ [c]\<rparr>"

definition write_header :: "nat \<Rightarrow> response \<Rightarrow> response" where
  "write_header code rs =
     (case rs_sent rs of Some _ \<Rightarrow> rs | None \<Rightarrow> rs\<lparr>rs_sent := Some (code, rs_headers rs, rs_cookies rs)\<rparr>)"

definition write_body :: "string \<Rightarrow> response \<Rightarrow> response" where
  "write_body b rs = (let rs1 = write_header 200 rs in rs1\<lparr>rs_body := rs_body rs1 @ b\<rparr>)"

definition http_error :: "string \<Rightarrow> nat \<Rightarrow> response \<Rightarrow> response" where
  "http_error msg code rs =
     write_body (msg @ [CHR 0x0A]) (write_header code
       (header_set ''X-Content-Type-Options'' ''nosniff''
         (header_set ''Content-Type'' ''text/plain; charset=utf-8'' (header_del ''Content-Length'' rs))))"

text \<open>\<open>Context.JSON\<close> for a value that encodes to \<open>doc\<close>, and \<open>Context.HTML\<close>.\<close>

definition ctx_json :: "nat \<Rightarrow> string + string \<Rightarrow> response \<Rightarrow> response" where
  "ctx_json status doc rs =
     (case doc of
        Inl e \<Rightarrow> http_error e 500 rs
      | Inr b \<Rightarrow> write_body b (write_header status
          (header_set ''Content-Length'' (itoa (int (length b)))
            (header_set ''Content-Type'' ''application/json; charset=utf-8'' rs))))"

definition ctx_html :: "nat \<Rightarrow> string \<Rightarrow> response \<Rightarrow> response" where
  "ctx_html status body rs =
     write_body body (write_header status
       (header_set ''Content-Length'' (itoa (int (length body)))
         (header_set ''Content-Type'' ''text/html; charset=utf-8'' rs)))"

subsection \<open>Pages\<close>

record page_data =
  pd_code :: nat
  pd_title :: string
  pd_message :: string
  pd_app :: string
  pd_version :: string

record snippet_line =
  sl_number :: int
  sl_content :: string
  sl_is_error :: bool

record template_error =
  te_kind :: string
  te_file :: string
  te_line :: int
  te_var :: string
  te_raw :: string
  te_snippet :: "snippet_line list"

record debug_data =
  dd_app :: string
  dd_version :: string
  dd_code :: nat
  dd_title :: string
  dd_method :: string
  dd_path :: string
  dd_error :: string
  dd_stack :: string
  dd_routes :: "(string \<times> string) list"
  dd_template :: "template_error option"

text \<open>A recovered panic value: a \<open>*TemplateError\<close>, or another value by its \<open>%v\<close> text.\<close>

datatype recovered = TemplatePanic template_error | OtherPanic string

record externals =
  xt_page :: "page_data \<Rightarrow> string option"
  xt_debug_page :: "debug_data \<Rightarrow> string option"
  xt_status_text :: "nat \<Rightarrow> string"
  xt_getenv :: "string \<Rightarrow> string"
  xt_mac :: "string \<Rightarrow> string \<Rightarrow> string"
  xt_with_next :: "string \<Rightarrow> string \<Rightarrow> string"

definition error_catalog :: "(nat \<times> string \<times> string) list" where
  "error_catalog =
    [
     (400, ''Bad Request'', ''A requisi'' @ [CHR 0xC3, CHR 0xA7, CHR 0xC3, CHR 0xA3] @ ''o enviada '' @ [CHR 0xC3, CHR 0xA9] @ '' inv'' @ [CHR 0xC3, CHR 0xA1] @ ''lida ou malformada.''),
     (401, ''N'' @ [CHR 0xC3, CHR 0xA3] @ ''o autorizado'', ''Autentica'' @ [CHR 0xC3, CHR 0xA7, CHR 0xC3, CHR 0xA3] @ ''o '' @ [CHR 0xC3, CHR 0xA9] @ '' necess'' @ [CHR 0xC3, CHR 0xA1] @ ''ria para acessar este recurso.''),
     (403, ''Acesso negado'', ''Voc'' @ [CHR 0xC3, CHR 0xAA] @ '' n'' @ [CHR 0xC3, CHR 0xA3] @ ''o tem permiss'' @ [CHR 0xC3, CHR 0xA3] @ ''o para acessar este recurso.''),
     (404, ''P'' @ [CHR 0xC3, CHR 0xA1] @ ''gina n'' @ [CHR 0xC3, CHR 0xA3] @ ''o encontrada'', ''O recurso solicitado n'' @ [CHR 0xC3, CHR 0xA3] @ ''o existe ou foi removido.''),
     (405, ''M'' @ [CHR 0xC3, CHR 0xA9] @ ''todo n'' @ [CHR 0xC3, CHR 0xA3] @ ''o permitido'', ''O m'' @ [CHR 0xC3, CHR 0xA9] @ ''todo HTTP utilizado n'' @ [CHR 0xC3, CHR 0xA3] @ ''o '' @ [CHR 0xC3, CHR 0xA9] @ '' suportado para esta rota.''),
     (408, ''Tempo esgotado'', ''A requisi'' @ [CHR 0xC3, CHR 0xA7, CHR 0xC3, CHR 0xA3] @ ''o demorou demais para ser conclu'' @ [CHR 0xC3, CHR 0xAD] @ ''da.''),
     (409, ''Conflito'', ''A requisi'' @ [CHR 0xC3, CHR 0xA7, CHR 0xC3, CHR 0xA3] @ ''o conflita com o estado atual do recurso.''),
     (422, ''Entidade inv'' @ [CHR 0xC3, CHR 0xA1] @ ''lida'', ''Os dados enviados n'' @ [CHR 0xC3, CHR 0xA3] @ ''o puderam ser processados.''),
     (429, ''Muitas requisi'' @ [CHR 0xC3, CHR 0xA7, CHR 0xC3, CHR 0xB5] @ ''es'', ''Voc'' @ [CHR 0xC3, CHR 0xAA] @ '' enviou requisi'' @ [CHR 0xC3, CHR 0xA7, CHR 0xC3, CHR 0xB5] @ ''es demais. Tente novamente em instantes.''),
     (500, ''Erro interno'', ''Ocorreu um erro inesperado no servidor.''),
     (502, ''Gateway inv'' @ [CHR 0xC3, CHR 0xA1] @ ''lido'', ''O servidor recebeu uma resposta inv'' @ [CHR 0xC3, CHR 0xA1] @ ''lida do servi'' @ [CHR 0xC3, CHR 0xA7] @ ''o de origem.''),
     (503, ''Servi'' @ [CHR 0xC3, CHR 0xA7] @ ''o indispon'' @ [CHR 0xC3, CHR 0xAD] @ ''vel'', ''O servidor est'' @ [CHR 0xC3, CHR 0xA1] @ '' temporariamente fora do ar.''),
     (504, ''Timeout de gateway'', ''O servidor de origem demorou demais para responder.'')]"

text \<open>
  The package variables: the debug flag, the names \<open>SetApp\<close> stored, the cache, the custom handlers (on
  the method and path of the request) and the routes the 404 debug page lists.
\<close>

record error_pages =
  ep_debug :: bool
  ep_app :: string
  ep_version :: string
  ep_cache :: "(nat \<times> string) list"
  ep_custom :: "(nat \<times> (string \<times> string \<Rightarrow> response \<Rightarrow> response)) list"
  ep_routes :: "(string \<times> string) list"

definition new_error_pages :: error_pages where
  "new_error_pages = \<lparr>ep_debug = False, ep_app = [], ep_version = [], ep_cache = [], ep_custom = [], ep_routes = []\<rparr>"

definition get_or :: "externals \<Rightarrow> string \<Rightarrow> string \<Rightarrow> string" where
  "get_or xt key fallback = (if xt_getenv xt key \<noteq> [] then xt_getenv xt key else fallback)"

definition set_app :: "string \<Rightarrow> string \<Rightarrow> error_pages \<Rightarrow> error_pages" where
  "set_app name version ep = ep\<lparr>ep_app := name, ep_version := version, ep_cache := []\<rparr>"

definition set_error_debug :: "bool \<Rightarrow> error_pages \<Rightarrow> error_pages" where
  "set_error_debug v ep = ep\<lparr>ep_debug := v\<rparr>"

definition set_custom :: "nat \<Rightarrow> (string \<times> string \<Rightarrow> response \<Rightarrow> response) \<Rightarrow> error_pages \<Rightarrow> error_pages" where
  "set_custom code h ep = ep\<lparr>ep_custom := AList.update code h (ep_custom ep)\<rparr>"

definition get_app_name :: "externals \<Rightarrow> error_pages \<Rightarrow> string" where
  "get_app_name xt ep = (if ep_app ep \<noteq> [] then ep_app ep else get_or xt ''APP_NAME'' ''KYRUX'')"

definition get_version :: "externals \<Rightarrow> error_pages \<Rightarrow> string" where
  "get_version xt ep = (if ep_version ep \<noteq> [] then ep_version ep else get_or xt ''APP_VERSION'' ''0.1.0'')"

definition page_of :: "externals \<Rightarrow> error_pages \<Rightarrow> nat \<Rightarrow> page_data" where
  "page_of xt ep code =
     (let defs = (case map_of error_catalog code of
                    Some d \<Rightarrow> d | None \<Rightarrow> (xt_status_text xt code, ''Ocorreu um erro inesperado.''))
      in \<lparr>pd_code = code, pd_title = fst defs, pd_message = snd defs,
          pd_app = get_app_name xt ep, pd_version = get_version xt ep\<rparr>)"

definition cached_page :: "externals \<Rightarrow> nat \<Rightarrow> error_pages \<Rightarrow> string option \<times> error_pages" where
  "cached_page xt code ep =
     (case map_of (ep_cache ep) code of
        Some b \<Rightarrow> (Some b, ep)
      | None \<Rightarrow>
          (case xt_page xt (page_of xt ep code) of
             None \<Rightarrow> (None, ep)
           | Some body \<Rightarrow> (Some body, ep\<lparr>ep_cache := AList.update code body (ep_cache ep)\<rparr>)))"

definition render_default :: "externals \<Rightarrow> nat \<Rightarrow> error_pages \<times> response \<Rightarrow> error_pages \<times> response" where
  "render_default xt code s =
     (case cached_page xt code (fst s) of
        (None, ep) \<Rightarrow> (ep, http_error (xt_status_text xt code) code (snd s))
      | (Some body, ep) \<Rightarrow>
          (ep, write_body body (write_header code
                 (header_set ''X-Content-Type-Options'' ''nosniff''
                   (header_set ''Content-Length'' (itoa (int (length body)))
                     (header_set ''Content-Type'' ''text/html; charset=utf-8'' (snd s)))))))"

definition write_debug :: "externals \<Rightarrow> nat \<Rightarrow> debug_data \<Rightarrow> response \<Rightarrow> response" where
  "write_debug xt code d rs =
     (case xt_debug_page xt d of
        None \<Rightarrow> http_error (''erro: '' @ dd_error d) code rs
      | Some page \<Rightarrow> write_body page (write_header code (header_set ''Content-Type'' ''text/html; charset=utf-8'' rs)))"

definition render_debug_http ::
  "externals \<Rightarrow> error_pages \<Rightarrow> string \<times> string \<Rightarrow> nat \<Rightarrow> response \<Rightarrow> response"
where
  "render_debug_http xt ep mp code rs =
     (let title = (case map_of error_catalog code of Some d \<Rightarrow> fst d | None \<Rightarrow> xt_status_text xt code)
      in write_debug xt code
           \<lparr>dd_app = get_app_name xt ep, dd_version = get_version xt ep, dd_code = code, dd_title = title,
            dd_method = fst mp, dd_path = snd mp, dd_error = [], dd_stack = [],
            dd_routes = (if code = 404 then ep_routes ep else []), dd_template = None\<rparr> rs)"

definition html_escape :: "string \<Rightarrow> string" where
  "html_escape s =
     concat (map (\<lambda>c. if c = CHR ''&'' then ''&amp;'' else if c = CHR 0x27 then ''&#39;''
                      else if c = CHR ''<'' then ''&lt;'' else if c = CHR ''>'' then ''&gt;''
                      else if c = CHR 0x22 then ''&#34;'' else [c]) s)"

definition stack_line :: "string \<Rightarrow> string" where
  "stack_line line =
     (let escaped = html_escape line
      in if contains line ''.go:''
         then (if contains line ''/apps/'' \<or> contains line ''main.go''
               then ''<span class='' @ [CHR 0x22] @ ''user'' @ [CHR 0x22] @ ''>'' @ escaped @ ''</span>'' @ [CHR 0x0A]
               else ''<span class='' @ [CHR 0x22] @ ''file'' @ [CHR 0x22] @ ''>'' @ escaped @ ''</span>'' @ [CHR 0x0A])
         else if CHR ''('' \<in> set line \<and> \<not> has_prefix line [CHR 0x09]
         then ''<span class='' @ [CHR 0x22] @ ''fn'' @ [CHR 0x22] @ ''>'' @ escaped @ ''</span>'' @ [CHR 0x0A]
         else escaped @ [CHR 0x0A])"

definition format_stack :: "string \<Rightarrow> string" where
  "format_stack stack = (if stack = [] then [] else concat (map stack_line (split_chr (CHR 0x0A) stack)))"

definition render_debug_panic ::
  "externals \<Rightarrow> error_pages \<Rightarrow> string \<times> string \<Rightarrow> recovered \<Rightarrow> string \<Rightarrow> response \<Rightarrow> response"
where
  "render_debug_panic xt ep mp rec stack rs =
     write_debug xt 500
       \<lparr>dd_app = get_app_name xt ep, dd_version = get_version xt ep, dd_code = 0, dd_title = [],
        dd_method = fst mp, dd_path = snd mp,
        dd_error = (case rec of TemplatePanic te \<Rightarrow> te_raw te | OtherPanic v \<Rightarrow> v),
        dd_stack = format_stack stack, dd_routes = [],
        dd_template = (case rec of TemplatePanic te \<Rightarrow> Some te | OtherPanic _ \<Rightarrow> None)\<rparr> rs"

definition render_error ::
  "externals \<Rightarrow> string \<times> string \<Rightarrow> nat \<Rightarrow> error_pages \<times> response \<Rightarrow> error_pages \<times> response"
where
  "render_error xt mp code s =
     (case map_of (ep_custom (fst s)) code of
        Some h \<Rightarrow> (fst s, h mp (snd s))
      | None \<Rightarrow>
          if ep_debug (fst s) then (fst s, render_debug_http xt (fst s) mp code (snd s))
          else render_default xt code s)"

definition render_panic ::
  "externals \<Rightarrow> string \<times> string \<Rightarrow> recovered \<Rightarrow> string \<Rightarrow> error_pages \<times> response \<Rightarrow> error_pages \<times> response"
where
  "render_panic xt mp rec stack s =
     (if ep_debug (fst s) then (fst s, render_debug_panic xt (fst s) mp rec stack (snd s))
      else render_default xt 500 s)"

subsection \<open>The cache never serves a stale page\<close>

text \<open>The operations on the package, and the page without a cache.\<close>

datatype page_op =
    OpSetApp string string
  | OpSetDebug bool
  | OpSetCustom nat "string \<times> string \<Rightarrow> response \<Rightarrow> response"
  | OpRender "string \<times> string" nat response
  | OpPanic "string \<times> string" recovered string response

fun page_step :: "externals \<Rightarrow> page_op \<Rightarrow> error_pages \<Rightarrow> error_pages" where
  "page_step xt (OpSetApp n v) ep = set_app n v ep"
| "page_step xt (OpSetDebug b) ep = set_error_debug b ep"
| "page_step xt (OpSetCustom c h) ep = set_custom c h ep"
| "page_step xt (OpRender mp c rs) ep = fst (render_error xt mp c (ep, rs))"
| "page_step xt (OpPanic mp r st rs) ep = fst (render_panic xt mp r st (ep, rs))"

definition cache_fresh :: "externals \<Rightarrow> error_pages \<Rightarrow> bool" where
  "cache_fresh xt ep \<longleftrightarrow> (\<forall>c b. map_of (ep_cache ep) c = Some b \<longrightarrow> xt_page xt (page_of xt ep c) = Some b)"

lemma page_of_cong: "ep_app ep = ep_app ep' \<Longrightarrow> ep_version ep = ep_version ep' \<Longrightarrow> page_of xt ep c = page_of xt ep' c"
  by (simp add: page_of_def get_app_name_def get_version_def)

lemma cache_fresh_cong: "ep_app ep' = ep_app ep \<Longrightarrow> ep_version ep' = ep_version ep \<Longrightarrow> ep_cache ep' = ep_cache ep \<Longrightarrow>
  cache_fresh xt ep' = cache_fresh xt ep"
  using page_of_cong[of ep' ep xt] by (simp add: cache_fresh_def)

lemma cached_page_hit: "map_of (ep_cache ep) code = Some b \<Longrightarrow> cached_page xt code ep = (Some b, ep)"
  by (simp add: cached_page_def)

lemma cached_page_miss: "map_of (ep_cache ep) code = None \<Longrightarrow> cached_page xt code ep =
  (xt_page xt (page_of xt ep code),
   case xt_page xt (page_of xt ep code) of
     None \<Rightarrow> ep | Some body \<Rightarrow> ep\<lparr>ep_cache := AList.update code body (ep_cache ep)\<rparr>)"
  by (simp add: cached_page_def split: option.split)

lemma cache_fresh_store: "cache_fresh xt ep \<Longrightarrow> xt_page xt (page_of xt ep code) = Some body \<Longrightarrow>
  cache_fresh xt (ep\<lparr>ep_cache := AList.update code body (ep_cache ep)\<rparr>)"
  using page_of_cong[of "ep\<lparr>ep_cache := AList.update code body (ep_cache ep)\<rparr>" ep xt]
  by (simp add: cache_fresh_def)

lemma cached_page_fresh: "cache_fresh xt ep \<Longrightarrow>
  fst (cached_page xt code ep) = xt_page xt (page_of xt ep code) \<and> cache_fresh xt (snd (cached_page xt code ep))"
proof (cases "map_of (ep_cache ep) code")
  case None
  assume "cache_fresh xt ep"
  with None show ?thesis by (simp add: cached_page_miss cache_fresh_store split: option.split)
next
  case (Some b)
  assume f: "cache_fresh xt ep"
  with Some have "xt_page xt (page_of xt ep code) = Some b" by (simp add: cache_fresh_def)
  with Some f show ?thesis by (simp add: cached_page_hit)
qed

lemma render_default_fresh: "cache_fresh xt ep \<Longrightarrow> cache_fresh xt (fst (render_default xt code (ep, rs)))"
  using cached_page_fresh[of xt ep code]
  by (cases "cached_page xt code ep") (auto simp: render_default_def split: option.split)

lemma page_step_fresh: "cache_fresh xt ep \<Longrightarrow> cache_fresh xt (page_step xt op ep)"
proof (cases op)
  case (OpSetApp n v)
  then show ?thesis by (simp add: cache_fresh_def set_app_def)
next
  case (OpSetDebug b)
  assume "cache_fresh xt ep"
  with OpSetDebug show ?thesis using cache_fresh_cong[of "set_error_debug b ep" ep xt] by (simp add: set_error_debug_def)
next
  case (OpSetCustom c h)
  assume "cache_fresh xt ep"
  with OpSetCustom show ?thesis using cache_fresh_cong[of "set_custom c h ep" ep xt] by (simp add: set_custom_def)
next
  case (OpRender mp c rs)
  assume "cache_fresh xt ep"
  with OpRender show ?thesis by (simp add: render_error_def render_default_fresh split: option.split)
next
  case (OpPanic mp r st rs)
  assume "cache_fresh xt ep"
  with OpPanic show ?thesis by (simp add: render_panic_def render_default_fresh)
qed

lemma pages_fresh: "cache_fresh xt (fold (page_step xt) ops new_error_pages)"
proof -
  have "cache_fresh xt ep \<Longrightarrow> cache_fresh xt (fold (page_step xt) ops ep)" for ep
    by (induction ops arbitrary: ep) (simp_all add: page_step_fresh)
  then show ?thesis by (simp add: cache_fresh_def new_error_pages_def)
qed

text \<open>
  After any sequence of configuration calls and error answers, the cached production page of a
  code is the page the template gives for the application name and version now in force: the cache
  never serves a page rendered with older names, and caching changes no answer.
\<close>

theorem error_page_current:
  "fst (cached_page xt code (fold (page_step xt) ops new_error_pages)) =
   xt_page xt (page_of xt (fold (page_step xt) ops new_error_pages) code)"
  using cached_page_fresh[OF pages_fresh] by blast

subsection \<open>Escaping of the stack trace\<close>

lemma html_escape_clean: "CHR ''<'' \<notin> set (html_escape s) \<and> CHR 0x22 \<notin> set (html_escape s)"
  by (auto simp: html_escape_def)

end
