(* ===== verification/Middleware.thy ===== *)
theory Middleware
  imports ErrorPages AuthTokens Throttle Login
begin

text \<open>
  The middlewares of \<open>core/security/middleware/middleware.go\<close> and \<open>core/security/csrf/csrf.go\<close>, and the
  chain \<open>bootstrap.Init\<close> installs. An \<open>exchange\<close> is one request with its context, its response and the
  server state it meets; a handler maps it to the exchange it leaves and the value it panicked with,
  if it did. The parse of the body by \<open>net/http\<close> is part of the request: \<open>rq_parse\<close> gives the form
  under a limit on the bytes read, \<open>None\<close> for its errors. Each clock reading is an input.
\<close>

declare map_of_eq_Some_iff [simp del] AList.update_conv' [simp]

record request =
  rq_method :: string
  rq_path :: string
  rq_uri :: string
  rq_host :: string
  rq_headers :: "(string \<times> string) list"
  rq_cookies :: "(string \<times> string) list"
  rq_remote_addr :: string
  rq_tls :: bool
  rq_has_body :: bool
  rq_limit :: "int option"
  rq_parse :: "int option \<Rightarrow> (string \<times> string list) list option"
  rq_form :: "(string \<times> string list) list option"

text \<open>The package variables and stores a middleware reads or writes; \<open>sv_limits\<close> by limiter.\<close>

record server =
  sv_pages :: error_pages
  sv_csp :: string
  sv_trusted_proxy :: string
  sv_secure :: bool
  sv_csrf_secret :: string
  sv_exempt :: "string list"
  sv_store :: "goval store"
  sv_auth :: authenticator
  sv_limits :: "(nat \<times> rate_limit) list"
  sv_db_enabled :: bool

record 'a exchange =
  ex_req :: request
  ex_ctx :: ctx
  ex_rs :: response
  ex_server :: server
  ex_now :: time
  ex_later :: time
  ex_random :: "string option"
  ex_stack :: string
  ex_app :: 'a

type_synonym 'a handler = "'a exchange \<Rightarrow> recovered option \<times> 'a exchange"
type_synonym 'a middleware = "'a handler \<Rightarrow> 'a handler"

definition request_header :: "string \<Rightarrow> request \<Rightarrow> string" where
  "request_header k rq = (case map_of (rq_headers rq) k of Some v \<Rightarrow> v | None \<Rightarrow> [])"

definition on_response :: "(response \<Rightarrow> response) \<Rightarrow> 'a exchange \<Rightarrow> 'a exchange" where
  "on_response f x = x\<lparr>ex_rs := f (ex_rs x)\<rparr>"

definition on_ctx :: "(ctx \<Rightarrow> ctx) \<Rightarrow> 'a exchange \<Rightarrow> 'a exchange" where
  "on_ctx f x = x\<lparr>ex_ctx := f (ex_ctx x)\<rparr>"

text \<open>An error page of \<open>kyerrors\<close> as the whole answer.\<close>

definition on_pages :: "(error_pages \<times> response \<Rightarrow> error_pages \<times> response) \<Rightarrow> 'a exchange \<Rightarrow> 'a exchange" where
  "on_pages f x =
     (let r = f (sv_pages (ex_server x), ex_rs x)
      in x\<lparr>ex_server := (ex_server x)\<lparr>sv_pages := fst r\<rparr>, ex_rs := snd r\<rparr>)"

definition method_path :: "'a exchange \<Rightarrow> string \<times> string" where
  "method_path x = (rq_method (ex_req x), rq_path (ex_req x))"

subsection \<open>Middlewares\<close>

definition allowed_hosts :: "externals \<Rightarrow> string list \<Rightarrow> bool \<Rightarrow> 'a middleware" where
  "allowed_hosts xt hosts debug next x =
     (let wildcard = ''*'' \<in> set hosts;
          allowed = map to_lower (takeWhile (\<lambda>h. h \<noteq> ''*'') hosts)
      in if debug \<or> wildcard then next x
         else
           (let host0 = rq_host (ex_req x);
                host1 = (case split_host_port host0 of Some (h, _) \<Rightarrow> h | None \<Rightarrow> host0);
                host = to_lower (trim_by is_bracket host1)
            in if host \<notin> set allowed then (None, on_pages (render_error xt (method_path x) 400) x)
               else next x))"

definition claims_value :: "claims \<Rightarrow> goval" where
  "claims_value c = GPtr (Some (GSlice (Some [GStr (cl_user_id c), GTime (cl_expires_at c), GStr (cl_jti c)])))"

definition unauthorized :: "response \<Rightarrow> response" where
  "unauthorized = ctx_json 401 (Inr (''{'' @ [CHR 0x22] @ ''error'' @ [CHR 0x22] @ '':'' @ [CHR 0x22] @ ''unauthorized'' @ [CHR 0x22] @ ''}'' @ [CHR 0x0A]))"

definition require_auth_mw :: "externals \<Rightarrow> 'a middleware" where
  "require_auth_mw xt next x =
     (case require_auth (xt_mac xt) (sv_auth (ex_server x)) (ex_now x) (request_header ''Authorization'' (ex_req x)) of
        None \<Rightarrow> (None, on_response unauthorized x)
      | Some c \<Rightarrow> next (on_ctx (ctx_set ''claims'' (claims_value c)) x))"

definition cors :: "string list \<Rightarrow> 'a middleware" where
  "cors allowed next x =
     (let origin = request_header ''Origin'' (ex_req x);
          x1 = (if origin \<in> set allowed
                then on_response (header_set ''Vary'' ''Origin'' \<circ> header_set ''Access-Control-Allow-Origin'' origin) x
                else x)
      in if rq_method (ex_req x) = ''OPTIONS''
         then (None, on_response
                (write_header 204
                 \<circ> header_set ''Access-Control-Max-Age'' ''86400''
                 \<circ> header_set ''Access-Control-Allow-Headers'' ''Content-Type, Authorization, X-CSRF-Token''
                 \<circ> header_set ''Access-Control-Allow-Methods'' ''GET, POST, PUT, PATCH, DELETE, OPTIONS'') x1)
         else next x1)"

definition static_secure_headers :: "(string \<times> string) list" where
  "static_secure_headers =
     [(''Strict-Transport-Security'', ''max-age=63072000; includeSubDomains; preload''),
      (''X-Content-Type-Options'', ''nosniff''),
      (''X-Frame-Options'', ''DENY''),
      (''Referrer-Policy'', ''strict-origin-when-cross-origin''),
      (''Permissions-Policy'', ''camera=(), microphone=(), geolocation=(), payment=()''),
      (''X-Permitted-Cross-Domain-Policies'', ''none'')]"

definition csp_header :: string where "csp_header = ''Content-Security-Policy''"

definition default_csp :: string where
  "default_csp =
     ''default-src '' @ [CHR 0x27] @ ''self'' @ [CHR 0x27] @ ''; script-src '' @ [CHR 0x27] @ ''self'' @ [CHR 0x27] @
     ''; style-src '' @ [CHR 0x27] @ ''self'' @ [CHR 0x27] @ '' '' @ [CHR 0x27] @ ''unsafe-inline'' @ [CHR 0x27] @
     ''; img-src '' @ [CHR 0x27] @ ''self'' @ [CHR 0x27] @ '' data:''"

definition set_csp :: "string \<Rightarrow> server \<Rightarrow> server" where
  "set_csp policy sv = (if policy \<noteq> [] then sv\<lparr>sv_csp := policy\<rparr> else sv)"

definition secure_headers :: "'a middleware" where
  "secure_headers next x =
     next (on_response (\<lambda>rs. header_set csp_header (sv_csp (ex_server x))
             (fold (\<lambda>(k, v). header_set k v) static_secure_headers rs)) x)"

definition csp_override :: "string \<Rightarrow> 'a middleware" where
  "csp_override policy next x = next (on_response (header_set csp_header policy) x)"

definition localhost_only :: "'a middleware" where
  "localhost_only next x =
     (if \<not> is_localhost (rq_remote_addr (ex_req x)) then (None, on_response (http_error ''403 Forbidden'' 403) x)
      else next x)"

text \<open>\<open>RateLimit\<close>: the limiter of this middleware is the one of number \<open>i\<close>.\<close>

definition rate_limit_mw :: "externals \<Rightarrow> nat \<Rightarrow> 'a middleware" where
  "rate_limit_mw xt i next x =
     (case map_of (sv_limits (ex_server x)) i of
        None \<Rightarrow> next x
      | Some rl \<Rightarrow>
          (let ip = real_ip (sv_trusted_proxy (ex_server x)) (\<lambda>k. request_header k (ex_req x)) (rq_remote_addr (ex_req x));
               r = rate_request (ex_now x) (ex_later x) ip rl;
               x1 = x\<lparr>ex_server := (ex_server x)\<lparr>sv_limits := AList.update i (snd r) (sv_limits (ex_server x))\<rparr>\<rparr>
           in case fst r of
                Some retry_after \<Rightarrow>
                  (None, on_pages (render_error xt (method_path x) 429) (on_response (header_set ''Retry-After'' (itoa retry_after)) x1))
              | None \<Rightarrow> next x1))"

definition cap_body :: "int \<Rightarrow> request \<Rightarrow> request" where
  "cap_body n rq = rq\<lparr>rq_limit := Some (case rq_limit rq of None \<Rightarrow> n | Some m \<Rightarrow> min m n)\<rparr>"

definition max_body_size :: "int \<Rightarrow> 'a middleware" where
  "max_body_size n next x = next (if rq_has_body (ex_req x) then x\<lparr>ex_req := cap_body n (ex_req x)\<rparr> else x)"

text \<open>\<open>http.Redirect\<close>, without the short HTML body it adds for a browser.\<close>

definition http_redirect :: "string \<Rightarrow> nat \<Rightarrow> response \<Rightarrow> response" where
  "http_redirect url code rs = write_header code (header_set ''Location'' url rs)"

definition session_value :: "goval session \<Rightarrow> goval" where
  "session_value s = GPtr (Some (GStr (ss_id s)))"

definition require_login :: "externals \<Rightarrow> string \<Rightarrow> 'a middleware" where
  "require_login xt login_url next x =
     (if \<not> sv_db_enabled (ex_server x) then next x
      else
        (case from_request (sv_secure (ex_server x)) (rq_cookies (ex_req x)) (sv_store (ex_server x)) (ex_now x) of
           None \<Rightarrow> (None, on_response (http_redirect (xt_with_next xt login_url (rq_uri (ex_req x))) 302) x)
         | Some s \<Rightarrow> next (on_ctx (ctx_set ''session'' (session_value s)) x)))"

definition recovery :: "externals \<Rightarrow> 'a middleware" where
  "recovery xt next x =
     (case next x of
        (None, y) \<Rightarrow> (None, y)
      | (Some p, y) \<Rightarrow> (None, on_pages (render_panic xt (method_path y) p (ex_stack y)) y))"

subsection \<open>CSRF\<close>

definition csrf_field :: string where "csrf_field = ''kyrux_csrf_token''"
definition csrf_header :: string where "csrf_header = ''X-Csrf-Token''"
definition csrf_max_body :: int where "csrf_max_body = 20 * 2 ^ 20"

definition csrf_cookie_name :: "bool \<Rightarrow> string" where
  "csrf_cookie_name secure = (if secure then ''__Host-kyrux_csrf'' else ''kyrux_csrf'')"

definition csrf_exempt :: "string \<Rightarrow> server \<Rightarrow> server" where
  "csrf_exempt p sv = sv\<lparr>sv_exempt := sv_exempt sv @ [p]\<rparr>"

definition is_exempt :: "server \<Rightarrow> string \<Rightarrow> bool" where
  "is_exempt sv path = list_ex (\<lambda>p. has_prefix path p) (sv_exempt sv)"

definition unsafe_method :: "string \<Rightarrow> bool" where
  "unsafe_method m \<longleftrightarrow> m \<in> {''POST'', ''PUT'', ''PATCH'', ''DELETE''}"

text \<open>\<open>secretKey\<close>; \<open>None\<close> is its panic.\<close>

definition csrf_key :: "externals \<Rightarrow> server \<Rightarrow> string option" where
  "csrf_key xt sv =
     (if sv_csrf_secret sv \<noteq> [] then Some (sv_csrf_secret sv)
      else if get_or xt ''SECRET_KEY'' [] \<noteq> [] then Some (get_or xt ''SECRET_KEY'' []) else None)"

definition csrf_sign :: "externals \<Rightarrow> server \<Rightarrow> string \<Rightarrow> string option" where
  "csrf_sign xt sv token = map_option (\<lambda>k. hex_encode (xt_mac xt k token)) (csrf_key xt sv)"

definition csrf_valid :: "externals \<Rightarrow> server \<Rightarrow> string \<Rightarrow> string \<Rightarrow> bool option" where
  "csrf_valid xt sv raw submitted =
     (if submitted = [] then Some False else map_option (\<lambda>e. e = submitted) (csrf_sign xt sv raw))"

definition ctx_string :: "string \<Rightarrow> ctx \<Rightarrow> string" where
  "ctx_string k cx = (case ctx_get k cx of Some (GStr s) \<Rightarrow> s | _ \<Rightarrow> [])"

text \<open>\<open>TokenFor\<close>: the token, or its panic, and the context with the token cached.\<close>

definition token_for :: "externals \<Rightarrow> server \<Rightarrow> ctx \<Rightarrow> string option \<times> ctx" where
  "token_for xt sv cx =
     (let cached = ctx_string ''csrf_token'' cx; raw = ctx_string ''csrf_raw'' cx
      in if cached \<noteq> [] then (Some cached, cx)
         else if raw = [] then (Some [], cx)
         else (case csrf_sign xt sv raw of
                 None \<Rightarrow> (None, cx)
               | Some tok \<Rightarrow> (Some tok, ctx_set ''csrf_token'' (GStr tok) cx)))"

text \<open>\<open>formValue\<close>: \<open>None\<close> is a parse error; the parsed form is kept in the request.\<close>

definition form_value :: "request \<Rightarrow> string \<Rightarrow> string option \<times> request" where
  "form_value rq key =
     (case (case rq_form rq of Some f \<Rightarrow> Some f | None \<Rightarrow> rq_parse rq (rq_limit rq)) of
        None \<Rightarrow> (None, rq)
      | Some f \<Rightarrow> (Some (case map_of f key of Some (v # _) \<Rightarrow> v | _ \<Rightarrow> []), rq\<lparr>rq_form := Some f\<rparr>))"

definition get_or_create :: "'a exchange \<Rightarrow> string option \<times> 'a exchange" where
  "get_or_create x =
     (let name = csrf_cookie_name (sv_secure (ex_server x))
      in case map_of (rq_cookies (ex_req x)) name of
           Some (c # cs) \<Rightarrow> (Some (c # cs), x)
         | _ \<Rightarrow>
             (case ex_random x of
                None \<Rightarrow> (None, x)
              | Some b \<Rightarrow>
                  (Some (hex_encode b),
                   on_response (add_cookie
                     \<lparr>ck_name = name, ck_value = hex_encode b, ck_max_age = 0, ck_http_only = True,
                      ck_secure = sv_secure (ex_server x), ck_same_site_strict = True, ck_path = ''/''\<rparr>) x)))"

definition bad_request_text :: string where
  "bad_request_text =
     ''400 Bad Request '' @ [CHR 0xE2, CHR 0x80, CHR 0x94] @ '' n'' @ [CHR 0xC3, CHR 0xA3] @ ''o foi poss'' @ [CHR 0xC3, CHR 0xAD] @
     ''vel processar o corpo da requisi'' @ [CHR 0xC3, CHR 0xA7, CHR 0xC3, CHR 0xA3] @
     ''o (arquivo grande demais ou formul'' @ [CHR 0xC3, CHR 0xA1] @ ''rio incompleto)''"

definition forbidden_text :: string where
  "forbidden_text =
     ''403 Forbidden '' @ [CHR 0xE2, CHR 0x80, CHR 0x94] @ '' CSRF token inv'' @ [CHR 0xC3, CHR 0xA1] @ ''lido ou ausente''"

definition csrf_middleware :: "externals \<Rightarrow> 'a middleware" where
  "csrf_middleware xt next x =
     (case get_or_create x of
        (None, x1) \<Rightarrow> (None, on_response (http_error ''500 Internal Server Error'' 500) x1)
      | (Some raw, x1) \<Rightarrow>
          (let x2 = on_ctx (ctx_set ''csrf_raw'' (GStr raw)) x1; rq = ex_req x2
           in if unsafe_method (rq_method rq) \<and> \<not> is_exempt (ex_server x2) (rq_path rq) then
                (case form_value (cap_body csrf_max_body rq) csrf_field of
                   (None, rq1) \<Rightarrow> (None, on_response (http_error bad_request_text 400) (x2\<lparr>ex_req := rq1\<rparr>))
                 | (Some v, rq1) \<Rightarrow>
                     (let x3 = x2\<lparr>ex_req := rq1\<rparr>;
                          submitted = (if v = [] then request_header csrf_header rq1 else v)
                      in case csrf_valid xt (ex_server x3) raw submitted of
                           None \<Rightarrow> (Some (OtherPanic ''csrf: SECRET_KEY''), x3)
                         | Some False \<Rightarrow> (None, on_response (http_error forbidden_text 403) x3)
                         | Some True \<Rightarrow> next x3))
              else next x2))"

subsection \<open>The chain of the framework\<close>

definition global_middlewares :: "externals \<Rightarrow> string list \<Rightarrow> bool \<Rightarrow> 'a middleware list" where
  "global_middlewares xt hosts debug =
     [recovery xt, max_body_size (32 * 2 ^ 20)] @ (if debug then [] else [secure_headers]) @
     [allowed_hosts xt hosts debug, csrf_middleware xt]"

definition framework_chain :: "externals \<Rightarrow> string list \<Rightarrow> bool \<Rightarrow> 'a middleware" where
  "framework_chain xt hosts debug h = middleware_chain (global_middlewares xt hosts debug) h"

lemmas exchange_defs = on_response_def on_ctx_def on_pages_def method_path_def

text \<open>The token a request submits, as the middleware reads it.\<close>

definition submitted_token :: "request \<Rightarrow> string option" where
  "submitted_token rq =
     map_option (\<lambda>v. if v = [] then request_header csrf_header rq else v) (fst (form_value (cap_body csrf_max_body rq) csrf_field))"

lemma form_value_headers: "form_value rq key = (v, rq') \<Longrightarrow> request_header k rq' = request_header k rq"
  by (auto simp: form_value_def request_header_def split: option.splits)

lemma cap_body_headers [simp]: "request_header k (cap_body n rq) = request_header k rq"
  by (simp add: cap_body_def request_header_def)

lemma get_or_create_frame: "get_or_create x = (r, x1) \<Longrightarrow>
  ex_req x1 = ex_req x \<and> ex_server x1 = ex_server x \<and> ex_app x1 = ex_app x \<and> ex_ctx x1 = ex_ctx x"
  by (auto simp: get_or_create_def on_response_def Let_def split: option.splits list.splits)

text \<open>The three outcomes for a request that is checked, and the one for the others.\<close>

lemma csrf_unchecked:
  assumes "get_or_create x = (Some raw, x1)" "\<not> (unsafe_method (rq_method (ex_req x)) \<and> \<not> is_exempt (ex_server x) (rq_path (ex_req x)))"
  shows "csrf_middleware xt next x = next (on_ctx (ctx_set ''csrf_raw'' (GStr raw)) x1)"
  using assms get_or_create_frame[OF assms(1)] by (auto simp: csrf_middleware_def on_ctx_def Let_def)

lemma csrf_checked:
  assumes "get_or_create x = (Some raw, x1)" "unsafe_method (rq_method (ex_req x))" "\<not> is_exempt (ex_server x) (rq_path (ex_req x))"
    and "form_value (cap_body csrf_max_body (ex_req x)) csrf_field = (v, rq1)"
  shows "csrf_middleware xt next x =
    (let x3 = (on_ctx (ctx_set ''csrf_raw'' (GStr raw)) x1)\<lparr>ex_req := rq1\<rparr>
     in case submitted_token (ex_req x) of
          None \<Rightarrow> (None, on_response (http_error bad_request_text 400) x3)
        | Some tok \<Rightarrow>
            (case csrf_valid xt (ex_server x) raw tok of
               None \<Rightarrow> (Some (OtherPanic ''csrf: SECRET_KEY''), x3)
             | Some False \<Rightarrow> (None, on_response (http_error forbidden_text 403) x3)
             | Some True \<Rightarrow> next x3))"
  using assms get_or_create_frame[OF assms(1)] form_value_headers[OF assms(4)]
  by (auto simp: csrf_middleware_def submitted_token_def on_ctx_def Let_def split: option.split)

lemma csrf_gate:
  assumes "csrf_middleware xt next x \<noteq> csrf_middleware xt next' x"
    and "unsafe_method (rq_method (ex_req x))" "\<not> is_exempt (ex_server x) (rq_path (ex_req x))"
  shows "\<exists>raw k. fst (get_or_create x) = Some raw \<and> csrf_key xt (ex_server x) = Some k \<and>
    submitted_token (ex_req x) = Some (hex_encode (xt_mac xt k raw))"
proof (cases "get_or_create x")
  case (Pair r x1)
  obtain v rq1 where v: "form_value (cap_body csrf_max_body (ex_req x)) csrf_field = (v, rq1)" by fastforce
  from Pair assms(1) obtain raw where r: "r = Some raw" by (cases r) (auto simp: csrf_middleware_def)
  from assms(1) have "\<exists>tok. submitted_token (ex_req x) = Some tok \<and> csrf_valid xt (ex_server x) raw tok = Some True"
    using csrf_checked[OF Pair[unfolded r] assms(2,3) v, of xt "next"] csrf_checked[OF Pair[unfolded r] assms(2,3) v, of xt "next'"]
    by (auto simp: Let_def split: option.splits bool.splits)
  then show ?thesis using Pair r by (auto simp: csrf_valid_def csrf_sign_def split: if_splits)
qed

lemma map_of_ctx_set [simp]: "ctx_get k (ctx_set k' v cx) = (if k = k' then Some v else ctx_get k cx)"
  by (auto simp: ctx_get_def ctx_set_def split: option.split)

text \<open>
  C29: The token the framework gives for a visitor is accepted from that visitor: the token \<open>TokenFor\<close>
  returns while a first request is served passes the check of a later unsafe request that carries the
  visitor's cookie and submits it in the form field, or in the header with the field absent; the
  handler then runs, on the same application state and the same response.
\<close>

theorem csrf_token_accepted:
  assumes "get_or_create x = (Some raw, x1)" and "raw \<noteq> []" and "ctx_get ''csrf_token'' (ex_ctx x) = None"
    and "fst (token_for xt (ex_server x) (ctx_set ''csrf_raw'' (GStr raw) (ex_ctx x1))) = Some tok" and "tok \<noteq> []"
    and "get_or_create y = (Some raw, y)" and "csrf_key xt (ex_server y) = csrf_key xt (ex_server x)"
    and "submitted_token (ex_req y) = Some tok"
  shows "\<exists>y'. csrf_middleware xt next y = next y' \<and> ex_app y' = ex_app y \<and> ex_rs y' = ex_rs y"
proof (cases "unsafe_method (rq_method (ex_req y)) \<and> \<not> is_exempt (ex_server y) (rq_path (ex_req y))")
  case False
  from csrf_unchecked[OF assms(6) this, of xt "next"] show ?thesis by (auto simp: on_ctx_def intro!: exI)
next
  case True
  obtain v rq1 where v: "form_value (cap_body csrf_max_body (ex_req y)) csrf_field = (v, rq1)" by fastforce
  have "csrf_sign xt (ex_server x) raw = Some tok"
    using assms(2-5) get_or_create_frame[OF assms(1)] by (auto simp: token_for_def ctx_string_def Let_def split: option.splits)
  then have "csrf_valid xt (ex_server y) raw tok = Some True"
    using assms(5,7) by (simp add: csrf_valid_def csrf_sign_def)
  with csrf_checked[OF assms(6) _ _ v, of xt "next"] True assms(8) show ?thesis by (auto simp: on_ctx_def Let_def intro!: exI)
qed

text \<open>A visitor without cookies: the token of the first page, posted back.\<close>

definition toy_externals :: externals where
  "toy_externals = \<lparr>xt_page = (\<lambda>d. Some (itoa (int (pd_code d)))), xt_debug_page = (\<lambda>_. None), xt_status_text = (\<lambda>_. ''?''),
     xt_getenv = (\<lambda>_. []), xt_mac = toy_mac, xt_with_next = (\<lambda>l u. l @ ''?next='' @ u)\<rparr>"

definition toy_server :: server where
  "toy_server = \<lparr>sv_pages = new_error_pages, sv_csp = default_csp, sv_trusted_proxy = [], sv_secure = True,
     sv_csrf_secret = ''k'', sv_exempt = [''/api/''], sv_store = new_store 100, sv_auth = new_authenticator ''k'',
     sv_limits = [], sv_db_enabled = True\<rparr>"

definition toy_request :: "string \<Rightarrow> (string \<times> string) list \<Rightarrow> (string \<times> string list) list \<Rightarrow> request" where
  "toy_request m cookies form = \<lparr>rq_method = m, rq_path = ''/p'', rq_uri = ''/p'', rq_host = ''a.io:80'', rq_headers = [],
     rq_cookies = cookies, rq_remote_addr = ''1.2.3.4:9'', rq_tls = True, rq_has_body = True, rq_limit = None,
     rq_parse = (\<lambda>_. Some form), rq_form = None\<rparr>"

definition toy_exchange :: "request \<Rightarrow> unit exchange" where
  "toy_exchange rq = \<lparr>ex_req = rq, ex_ctx = \<lparr>cx_params = None, cx_data = None, cx_query = None\<rparr>, ex_rs = new_response,
     ex_server = toy_server, ex_now = 5, ex_later = 5, ex_random = Some ''A'', ex_stack = [], ex_app = ()\<rparr>"

definition toy_get :: "unit exchange" where "toy_get = toy_exchange (toy_request ''GET'' [] [])"
definition toy_post :: "unit exchange" where
  "toy_post = toy_exchange (toy_request ''POST'' [(''__Host-kyrux_csrf'', ''41'')] [(csrf_field, [''31346b''])])"

lemmas toy_defs = toy_get_def toy_post_def toy_exchange_def toy_request_def toy_server_def toy_externals_def

lemma hex_A: "hex_encode ''A'' = ''41''" by code_simp
lemma hex_14k: "hex_encode ''14k'' = ''31346b''" by code_simp

theorem csrf_token_accepted_witness:
  "\<exists>y'. csrf_middleware toy_externals (\<lambda>z. (None, on_response (write_body ''ok'') z)) toy_post =
      (None, on_response (write_body ''ok'') y') \<and> ex_app y' = ex_app toy_post \<and> ex_rs y' = ex_rs toy_post"
proof -
  have a: "get_or_create toy_get = (Some ''41'', snd (get_or_create toy_get))"
    by (simp add: get_or_create_def toy_defs csrf_cookie_name_def hex_A on_response_def)
  have b: "ctx_get ''csrf_token'' (ex_ctx toy_get) = None" by (simp add: toy_defs ctx_get_def)
  have e: "ex_ctx (snd (get_or_create toy_get)) = ex_ctx toy_get" using get_or_create_frame[OF a] by simp
  have c: "fst (token_for toy_externals (ex_server toy_get) (ctx_set ''csrf_raw'' (GStr ''41'') (ex_ctx (snd (get_or_create toy_get))))) = Some ''31346b''"
    by (simp add: e token_for_def ctx_string_def b csrf_sign_def csrf_key_def Let_def)
       (simp add: toy_defs toy_mac_def hex_14k)
  have d: "get_or_create toy_post = (Some ''41'', toy_post)"
    by (simp add: get_or_create_def toy_defs csrf_cookie_name_def)
  have f: "csrf_key toy_externals (ex_server toy_post) = csrf_key toy_externals (ex_server toy_get)" by (simp add: toy_defs)
  have g: "submitted_token (ex_req toy_post) = Some ''31346b''"
    by (simp add: submitted_token_def form_value_def cap_body_def toy_defs csrf_field_def)
  from csrf_token_accepted[OF a _ b c _ d f g, of "\<lambda>z. (None, on_response (write_body ''ok'') z)"] show ?thesis by simp
qed

subsection \<open>Hosts\<close>

lemma allowed_hosts_lookup: "''*'' \<notin> set hosts \<Longrightarrow> takeWhile (\<lambda>h. h \<noteq> ''*'') hosts = hosts"
  by (induction hosts) auto

lemma trim_none: "\<forall>c\<in>set s. \<not> P c \<Longrightarrow> trim_by P s = s"
proof -
  assume a: "\<forall>c\<in>set s. \<not> P c"
  have drop: "dropWhile P t = t" if "\<forall>c\<in>set t. \<not> P c" for t using that by (cases t) auto
  from a show ?thesis by (simp add: trim_by_def drop)
qed

lemma trim_brackets: "set s \<inter> set ''[]'' = {} \<Longrightarrow> s \<noteq> [] \<Longrightarrow> trim_by is_bracket (''['' @ s @ '']'') = s"
proof -
  assume a: "set s \<inter> set ''[]'' = {}" "s \<noteq> []"
  then have n: "\<forall>c\<in>set s. \<not> is_bracket c" by (auto simp: is_bracket_def)
  have drop: "dropWhile is_bracket (t @ u) = t @ u" if "\<forall>c\<in>set t. \<not> is_bracket c" "t \<noteq> []" for t u
    using that by (cases t) auto
  have "dropWhile is_bracket (rev s) = rev s" using drop[of "rev s" "[]"] n a(2) by simp
  then show ?thesis using n a(2) by (simp add: trim_by_def drop is_bracket_def[of "CHR ''[''"] is_bracket_def[of "CHR '']''"])
qed

lemma last_index_less: "last_index_chr c s = Some i \<Longrightarrow> i < length s"
proof -
  assume a: "last_index_chr c s = Some i"
  then obtain n where n: "index_chr c (rev s) = Some n" "i = length s - 1 - n" by (auto simp: last_index_chr_def split: option.splits)
  then have "length (rev s) \<noteq> 0" by (cases "rev s") (auto simp: index_chr_def)
  with n show ?thesis by simp
qed

lemma split_no_port: "set s \<inter> set ''[]'' = {} \<Longrightarrow> split_host_port (''['' @ s @ '']'') = None"
proof -
  assume a: "set s \<inter> set ''[]'' = {}"
  have e: "index_chr CHR '']'' (''['' @ s @ '']'') = Some (length s + 1)"
    using index_chr_append[of "CHR '']''" "''['' @ s" "[]"] a by auto
  show ?thesis
    using last_index_less[of "CHR '':''" "''['' @ s @ '']''"] e by (auto simp: split_host_port_def split: option.split)
qed

lemma split_bare: "CHR '':'' \<notin> set s \<Longrightarrow> split_host_port s = None"
proof -
  assume "CHR '':'' \<notin> set s"
  then have "takeWhile (\<lambda>x. x \<noteq> CHR '':'') (rev s) = rev s" by (auto simp: takeWhile_eq_all_conv)
  then have "length (takeWhile (\<lambda>x. x \<noteq> CHR '':'') (rev s)) = length (rev s)" by metis
  then have "last_index_chr CHR '':'' s = None" by (simp add: last_index_chr_def index_chr_def Let_def)
  then show ?thesis by (simp add: split_host_port_def)
qed

text \<open>The ways a client writes the host \<open>name\<close>: with or without a port, an IPv6 literal in brackets.\<close>

definition host_forms :: "string \<Rightarrow> string \<Rightarrow> string list" where
  "host_forms name port =
     (if CHR '':'' \<in> set name then [''['' @ name @ '']'', ''['' @ name @ '']:'' @ port] else [name, name @ '':'' @ port])"

text \<open>
  The host check admits exactly the configured hosts: however the client writes a host, with or
  without a port, in any case, an IPv6 address in brackets, the request passes unchanged if the name is
  configured (in any case) or the list holds the wildcard, and otherwise gets the error page 400
  without the handler running.
\<close>

theorem allowed_hosts_exact:
  assumes "name \<noteq> []" and "set name \<inter> set ''[]'' = {}" and "set port \<inter> set '':[]'' = {}"
    and "rq_host (ex_req x) \<in> set (host_forms name port)"
  shows "allowed_hosts xt hosts False next x =
    (if ''*'' \<in> set hosts \<or> to_lower name \<in> to_lower ` set hosts then next x
     else (None, on_pages (render_error xt (method_path x) 400) x))"
proof (cases "''*'' \<in> set hosts")
  case False
  let ?h = "rq_host (ex_req x)"
  have nb: "\<forall>c\<in>set name. \<not> is_bracket c" using assms(2) by (auto simp: is_bracket_def)
  have t: "trim_by is_bracket (case split_host_port ?h of Some (h, _) \<Rightarrow> h | None \<Rightarrow> ?h) = name"
  proof (cases "CHR '':'' \<in> set name")
    case True
    with assms(4) consider "?h = ''['' @ name @ '']''" | "?h = ''['' @ name @ '']:'' @ port"
      by (auto simp: host_forms_def)
    then show ?thesis
    proof cases
      case 1
      then show ?thesis using split_no_port[OF assms(2)] trim_brackets[OF assms(2,1)] by simp
    next
      case 2
      then show ?thesis using split_bracketed[OF assms(2,3)] trim_none[OF nb] by simp
    qed
  next
    case False
    with assms(4) consider "?h = name" | "?h = name @ CHR '':'' # port" by (auto simp: host_forms_def)
    then show ?thesis
    proof cases
      case 1
      then show ?thesis using split_bare[OF False] trim_none[OF nb] by simp
    next
      case 2
      have "set name \<inter> set '':[]'' = {}" using False assms(2) by auto
      with 2 show ?thesis using split_plain[OF assms(1) _ assms(3)] trim_none[OF nb] by simp
    qed
  qed
  show ?thesis using False by (simp add: allowed_hosts_def t allowed_hosts_lookup[OF False] Let_def)
qed (simp add: allowed_hosts_def Let_def)

lemma lower_differs: "to_lower ''a.io'' \<noteq> to_lower ''B.io''" "to_lower ''a.io'' \<noteq> to_lower ''::1''"
  by code_simp+

theorem allowed_hosts_exact_witness:
  "allowed_hosts toy_externals [''B.io'', ''::1''] False (\<lambda>z. (None, z)) (toy_exchange ((toy_request ''GET'' [] [])\<lparr>rq_host := ''[::1]:80''\<rparr>)) =
     (None, toy_exchange ((toy_request ''GET'' [] [])\<lparr>rq_host := ''[::1]:80''\<rparr>)) \<and>
   allowed_hosts toy_externals [''B.io'', ''::1''] False (\<lambda>z. (None, z)) toy_get =
     (None, on_pages (render_error toy_externals (method_path toy_get) 400) toy_get)"
proof
  have "(rq_host (ex_req (toy_exchange ((toy_request ''GET'' [] [])\<lparr>rq_host := ''[::1]:80''\<rparr>)))) \<in> set (host_forms ''::1'' ''80'')"
    by (simp add: host_forms_def toy_exchange_def)
  from allowed_hosts_exact[OF _ _ _ this, of toy_externals "[''B.io'', ''::1'']" "\<lambda>z. (None, z)"]
  show "allowed_hosts toy_externals [''B.io'', ''::1''] False (\<lambda>z. (None, z)) (toy_exchange ((toy_request ''GET'' [] [])\<lparr>rq_host := ''[::1]:80''\<rparr>)) =
     (None, toy_exchange ((toy_request ''GET'' [] [])\<lparr>rq_host := ''[::1]:80''\<rparr>))" by simp
  have "(rq_host (ex_req toy_get)) \<in> set (host_forms ''a.io'' ''80'')"
    by (simp add: host_forms_def toy_defs)
  from allowed_hosts_exact[OF _ _ _ this, of toy_externals "[''B.io'', ''::1'']" "\<lambda>z. (None, z)"]
  show "allowed_hosts toy_externals [''B.io'', ''::1''] False (\<lambda>z. (None, z)) toy_get =
     (None, on_pages (render_error toy_externals (method_path toy_get) 400) toy_get)"
    by (simp add: lower_differs)
qed

subsection \<open>The chain of the framework\<close>

definition hardened :: "(string \<times> string) list \<Rightarrow> bool" where
  "hardened hs \<longleftrightarrow> list_all (\<lambda>k. map_of hs k \<noteq> None) (csp_header # map fst static_secure_headers)"

text \<open>The headers of a response, those of the head if it is already sent, hold every security header.\<close>

definition hardened_response :: "response \<Rightarrow> bool" where
  "hardened_response rs \<longleftrightarrow> hardened (rs_headers rs) \<and> (case rs_sent rs of None \<Rightarrow> True | Some (_, hs, _) \<Rightarrow> hardened hs)"

lemma hardened_set: "hardened hs \<Longrightarrow> hardened (AList.update k v hs)"
  by (simp add: hardened_def list_all_iff)

lemma hardened_del: "hardened hs \<Longrightarrow> hardened (AList.delete ''Content-Length'' hs)"
  by (simp add: hardened_def static_secure_headers_def csp_header_def AList.delete_conv')

lemma hardened_response_ops:
  assumes "hardened_response rs"
  shows "hardened_response (header_set k v rs)" "hardened_response (header_del ''Content-Length'' rs)"
    "hardened_response (add_cookie c rs)" "hardened_response (write_header code rs)" "hardened_response (write_body b rs)"
  using assms
  by (auto simp: hardened_response_def header_set_def header_del_def add_cookie_def write_header_def write_body_def Let_def
      hardened_set hardened_del split: option.splits)

lemma hardened_http_error: "hardened_response rs \<Longrightarrow> hardened_response (http_error msg code rs)"
  unfolding http_error_def by (intro hardened_response_ops)

lemma hardened_default: "hardened_response rs \<Longrightarrow> hardened_response (snd (render_default xt code (ep, rs)))"
  by (auto simp: render_default_def hardened_http_error intro!: hardened_response_ops split: prod.split option.split)

lemma hardened_debug: "hardened_response rs \<Longrightarrow> hardened_response (write_debug xt code d rs)"
  by (auto simp: write_debug_def hardened_http_error intro!: hardened_response_ops split: option.split)

lemma hardened_panic: "hardened_response rs \<Longrightarrow> hardened_response (snd (render_panic xt mp p st (ep, rs)))"
  by (simp add: render_panic_def render_debug_panic_def hardened_debug hardened_default)

lemma hardened_error: "map_of (ep_custom ep) code = None \<Longrightarrow> hardened_response rs \<Longrightarrow>
  hardened_response (snd (render_error xt mp code (ep, rs)))"
  by (simp add: render_error_def render_debug_http_def Let_def hardened_debug hardened_default)

lemma hardened_static: "rs_sent rs = None \<Longrightarrow>
  hardened_response (header_set csp_header v (fold (\<lambda>(k, v). header_set k v) static_secure_headers rs))"
  by (simp add: static_secure_headers_def header_set_def hardened_response_def hardened_def)

lemma framework_chain_eq: "framework_chain xt hosts False h x =
  recovery xt (max_body_size (32 * 2 ^ 20) (secure_headers (allowed_hosts xt hosts False (csrf_middleware xt h)))) x"
  by (simp add: framework_chain_def global_middlewares_def middleware_chain_def)

lemma recovery_hardened: "hardened_response (ex_rs (snd (f x))) \<Longrightarrow>
  fst (recovery xt f x) = None \<and> hardened_response (ex_rs (snd (recovery xt f x)))"
  by (cases "f x") (auto simp: recovery_def on_pages_def Let_def hardened_panic split: option.split)

lemma get_or_create_hardened: "get_or_create x = (r, x1) \<Longrightarrow> hardened_response (ex_rs x) \<Longrightarrow> hardened_response (ex_rs x1)"
  by (auto simp: get_or_create_def on_response_def Let_def intro!: hardened_response_ops split: option.splits list.splits)

lemma csrf_hardened:
  assumes "hardened_response (ex_rs x)" "\<And>y. hardened_response (ex_rs y) \<Longrightarrow> hardened_response (ex_rs (snd (h y)))"
  shows "hardened_response (ex_rs (snd (csrf_middleware xt h x)))"
proof (cases "get_or_create x")
  case (Pair r x1)
  have g: "hardened_response (ex_rs x1)" by (rule get_or_create_hardened[OF Pair assms(1)])
  show ?thesis
  proof (cases r)
    case None
    with Pair g show ?thesis by (simp add: csrf_middleware_def on_response_def hardened_http_error)
  next
    case (Some raw)
    show ?thesis
    proof (cases "unsafe_method (rq_method (ex_req x)) \<and> \<not> is_exempt (ex_server x) (rq_path (ex_req x))")
      case False
      with csrf_unchecked[OF Pair[unfolded Some] False, of xt h] g assms(2) show ?thesis by (simp add: on_ctx_def)
    next
      case True
      obtain v rq1 where v: "form_value (cap_body csrf_max_body (ex_req x)) csrf_field = (v, rq1)" by fastforce
      from csrf_checked[OF Pair[unfolded Some] _ _ v, of xt h] True g assms(2) show ?thesis
        by (auto simp: on_ctx_def on_response_def Let_def hardened_http_error split: option.split bool.split)
    qed
  qed
qed

lemma allowed_hosts_outcome: "allowed_hosts xt hosts debug h x = h x \<or>
  (\<forall>h'. allowed_hosts xt hosts debug h' x = (None, on_pages (render_error xt (method_path x) 400) x))"
  by (simp add: allowed_hosts_def Let_def)



lemma cap_cap: "cap_body csrf_max_body (cap_body 33554432 rq) = cap_body csrf_max_body rq"
  by (simp add: cap_body_def csrf_max_body_def split: option.split)

text \<open>
  C7: In production the handler of a route runs only for requests that pass both checks: if what the
  chain answers depends on the handler at all, then the host is configured (or the list has the
  wildcard), and an unsafe request outside the exempt prefixes submitted the hex HMAC, under the
  configured secret, of the visitor's cookie (or of the token just drawn for a visitor without one).
\<close>

theorem production_gate:
  assumes "framework_chain xt hosts False h x \<noteq> framework_chain xt hosts False h' x"
  shows "(''*'' \<in> set hosts \<or>
      to_lower (trim_by is_bracket (case split_host_port (rq_host (ex_req x)) of Some (n, _) \<Rightarrow> n | None \<Rightarrow> rq_host (ex_req x)))
        \<in> to_lower ` set hosts) \<and>
    (unsafe_method (rq_method (ex_req x)) \<and> \<not> is_exempt (ex_server x) (rq_path (ex_req x)) \<longrightarrow>
      (\<exists>raw k. fst (get_or_create x) = Some raw \<and> csrf_key xt (ex_server x) = Some k \<and>
        submitted_token (ex_req x) = Some (hex_encode (xt_mac xt k raw))))"
proof -
  define x1 where "x1 = (if rq_has_body (ex_req x) then x\<lparr>ex_req := cap_body (32 * 2 ^ 20) (ex_req x)\<rparr> else x)"
  define x2 where "x2 = on_response (\<lambda>rs. header_set csp_header (sv_csp (ex_server x1)) (fold (\<lambda>(k, v). header_set k v) static_secure_headers rs)) x1"
  have same: "rq_host (ex_req x2) = rq_host (ex_req x)" "rq_method (ex_req x2) = rq_method (ex_req x)"
    "rq_path (ex_req x2) = rq_path (ex_req x)" "rq_cookies (ex_req x2) = rq_cookies (ex_req x)"
    "ex_server x2 = ex_server x" "ex_random x2 = ex_random x"
    by (simp_all add: x2_def x1_def on_response_def cap_body_def)
  have tok: "submitted_token (ex_req x2) = submitted_token (ex_req x)"
    by (cases "rq_has_body (ex_req x)") (simp_all add: x2_def x1_def on_response_def submitted_token_def cap_cap cong: if_cong)
  have raw: "fst (get_or_create x2) = fst (get_or_create x)"
    using same by (simp add: get_or_create_def Let_def split: option.split list.split)
  have "allowed_hosts xt hosts False (csrf_middleware xt h) x2 \<noteq> allowed_hosts xt hosts False (csrf_middleware xt h') x2"
    using assms unfolding framework_chain_eq
    by (auto simp: recovery_def max_body_size_def secure_headers_def x1_def x2_def)
  then have gate: "''*'' \<in> set hosts \<or> to_lower (trim_by is_bracket
      (case split_host_port (rq_host (ex_req x)) of Some (n, _) \<Rightarrow> n | None \<Rightarrow> rq_host (ex_req x))) \<in> to_lower ` set hosts"
    and ne: "csrf_middleware xt h x2 \<noteq> csrf_middleware xt h' x2"
    by (auto simp: allowed_hosts_def Let_def same allowed_hosts_lookup split: if_splits)
  with csrf_gate[OF ne] show ?thesis by (simp add: same tok raw)
qed

definition say :: "string \<Rightarrow> unit handler" where "say s x = (None, on_response (write_body s) x)"

theorem production_gate_witness:
  "submitted_token (ex_req toy_post) = Some (hex_encode (toy_mac ''k'' ''41''))"
proof -
  have d: "rs_body (ex_rs (snd (framework_chain toy_externals [''a.io''] False (say s) toy_post))) = s"
    if "s \<in> {''yes'', ''no''}" for s
    using that by (elim insertE emptyE) (hypsubst, code_simp)+
  have "framework_chain toy_externals [''a.io''] False (say ''yes'') toy_post \<noteq>
      framework_chain toy_externals [''a.io''] False (say ''no'') toy_post"
    using d[of "''yes''"] d[of "''no''"] by auto
  moreover have "unsafe_method (rq_method (ex_req toy_post))" "\<not> is_exempt (ex_server toy_post) (rq_path (ex_req toy_post))"
    "fst (get_or_create toy_post) = Some ''41''" "csrf_key toy_externals (ex_server toy_post) = Some ''k''" by code_simp+
  ultimately show ?thesis using production_gate[of toy_externals "[''a.io'']" "say ''yes''" toy_post "say ''no''"]
    by (simp add: toy_externals_def)
qed

subsection \<open>Protected routes\<close>

text \<open>
  A logged-out visitor is turned away: once \<open>Logout\<close> has served a request carrying a live session,
  any later request with the same cookie to a route under \<open>RequireLogin\<close> is redirected to the login
  page with status 302 and its handler does not run, whatever other sessions are deleted or collected
  in between.
\<close>

theorem logout_locks_routes:
  assumes "store_inv t0 st" and "from_request (sv_secure (ex_server x)) (rq_cookies (ex_req x)) st now = Some s"
    and "sv_store (ex_server x) =
      run_ttl session_delete session_gc ops (snd (logout (sv_secure (ex_server x)) (rq_cookies (ex_req x)) now st))"
    and "\<forall>t. TCollect t \<in> set ops \<longrightarrow> t \<le> ex_now x"
    and "sv_db_enabled (ex_server x)" and "rs_sent (ex_rs x) = None"
  shows "fst (require_login xt url next x) = None \<and> ex_app (snd (require_login xt url next x)) = ex_app x \<and>
    (\<exists>hs cs. rs_sent (ex_rs (snd (require_login xt url next x))) = Some (302, hs, cs) \<and>
      map_of hs ''Location'' = Some (xt_with_next xt url (rq_uri (ex_req x))))"
proof -
  let ?sec = "sv_secure (ex_server x)" and ?ck = "rq_cookies (ex_req x)"
  let ?st1 = "session_delete (ss_id s) st"
  have c: "map_of ?ck (cookie_name ?sec) = Some (ss_id s)" using from_request_id[OF assms(1,2)] by simp
  have st1: "snd (logout ?sec ?ck now st) = ?st1" using assms(2) by (simp add: logout_def)
  have ok: "distinct (map fst (st_sessions st))" using assms(1) by (simp add: store_inv_def)
  have "session_get (run_ttl session_delete session_gc ops ?st1) (ex_now x) (ss_id s) = None"
    using sessions.look_run[OF sessions.okm_drop[OF ok] assms(4)] sessions.look_drop[OF ok] by simp
  then have "from_request ?sec ?ck (sv_store (ex_server x)) (ex_now x) = None"
    by (simp add: from_request_def c assms(3) st1)
  then show ?thesis
    by (simp add: require_login_def assms(5,6) on_response_def http_redirect_def write_header_def header_set_def)
qed

theorem logout_locks_routes_witness:
  "\<exists>x. fst (require_login toy_externals ''/in'' (say ''secret'') x) = None \<and> rq_uri (ex_req x) = ''/p'' \<and>
     (\<exists>hs cs. rs_sent (ex_rs (snd (require_login toy_externals ''/in'' (say ''secret'') x))) = Some (302, hs, cs) \<and>
       map_of hs ''Location'' = Some ''/in?next=/p'')"
proof -
  let ?ck = "[(''__Host-kyrux_session'', ''41'')]" and ?st = "snd (new_session [] (Some ''A'') 5 (new_store 100 :: goval store))"
  let ?x0 = "toy_exchange (toy_request ''GET'' ?ck [])"
  let ?x = "?x0\<lparr>ex_server := toy_server\<lparr>sv_store := snd (logout True ?ck 7 ?st)\<rparr>, ex_now := 8\<rparr>"
  obtain r where r: "new_session [] (Some ''A'') 5 (new_store 100 :: goval store) = (r, ?st)" by (metis prod.collapse)
  have i: "store_inv 5 ?st" by (rule new_inv[OF _ _ r]) (simp_all add: new_store_def store_inv_new[unfolded new_store_def])
  obtain s where s: "from_request True ?ck ?st 7 = Some s"
    by (simp add: from_request_def cookie_name_def new_session_def new_store_def default_max_total_def session_get_def hex_A Let_def)
  have e: "sv_secure (ex_server ?x) = True" "rq_cookies (ex_req ?x) = ?ck" "sv_db_enabled (ex_server ?x)" "rs_sent (ex_rs ?x) = None"
    "sv_store (ex_server ?x) = run_ttl session_delete session_gc [] (snd (logout True ?ck 7 ?st))"
    by (simp_all add: toy_defs new_response_def run_ttl_def)
  from logout_locks_routes[OF i, of ?x 7 s "[]" toy_externals "''/in''" "say ''secret''"] s e
  show ?thesis by (intro exI[of _ ?x]) (simp add: toy_exchange_def toy_request_def toy_externals_def)
qed

end
