(* ===== verification/Bootstrap.thy ===== *)
theory Bootstrap
  imports Environment Middleware
begin

text \<open>
  The start-up of \<open>core/bootstrap/bootstrap.go\<close>: the configuration is loaded, production refuses weak
  secrets, the package variables are set and the chain of middlewares is installed. The choice of the
  cache, queue and mail back ends, the address shown and the memory limit are modelled; the opening of
  connections, the applications' own registration and the server loop are not.
\<close>

declare map_of_eq_Some_iff [simp del] AList.update_conv' [simp]

datatype boot_error = NoEnvFile | DefaultSecret | ShortSecret | NoPepper | ExampleEncryptionKey

text \<open>The \<open>log.Fatal\<close> checks of \<open>Init\<close>; \<open>sha\<close> is SHA-256.\<close>

definition boot_check :: "(string \<Rightarrow> string) \<Rightarrow> settings \<Rightarrow> boot_error option" where
  "boot_check sha se =
     (if se_debug se then None
      else if se_secret_key se = ''change-me'' then Some DefaultSecret
      else if length (se_secret_key se) < 32 then Some ShortSecret
      else if se_pepper se = [] \<or> se_pepper se = ''your-strong-random-pepper-here'' then Some NoPepper
      else if \<not> has_encryption_key (derive_key sha (se_encryption_key se)) then None
      else if se_encryption_key se = ''your-base64-32-byte-key-here'' then Some ExampleEncryptionKey
      else None)"

definition boot :: "(string \<Rightarrow> string) \<Rightarrow> (string \<Rightarrow> string) \<Rightarrow> int \<Rightarrow> string option \<Rightarrow> boot_error + settings" where
  "boot sha getenv cpus file =
     (case env_load getenv file no_environment of
        None \<Rightarrow> Inl NoEnvFile
      | Some en \<Rightarrow>
          (let se = load_settings getenv cpus en
           in case boot_check sha se of Some e \<Rightarrow> Inl e | None \<Rightarrow> Inr se))"

text \<open>The package variables \<open>Init\<close> sets; \<open>has_db\<close> is \<open>orm.HasConnections()\<close> after the databases are loaded.\<close>

definition init_server :: "settings \<Rightarrow> bool \<Rightarrow> server" where
  "init_server se has_db =
     set_csp (se_csp se)
       \<lparr>sv_pages = set_app ''KYRUX'' ''0.7.52 (Beta)'' (set_error_debug (se_debug se) new_error_pages),
        sv_csp = default_csp, sv_trusted_proxy = se_trusted_proxy se, sv_secure = (\<not> se_debug se),
        sv_csrf_secret = se_secret_key se, sv_exempt = [], sv_store = new_store (wrap64 (se_session_ttl se * 1000000000)),
        sv_auth = new_authenticator (se_secret_key se), sv_limits = [], sv_db_enabled = has_db\<rparr>"

datatype backend = Disabled | InMemory | Redis

definition cache_backend :: "bool \<Rightarrow> settings \<Rightarrow> backend" where
  "cache_backend redis_ok se =
     (if \<not> se_cache_enabled se then Disabled
      else if se_cache_driver se = ''redis'' \<and> redis_ok then Redis else InMemory)"

definition queue_backend :: "bool \<Rightarrow> settings \<Rightarrow> backend" where
  "queue_backend redis_ok se =
     (if \<not> se_queue_enabled se then Disabled
      else if se_queue_driver se = ''redis'' \<and> redis_ok then Redis else InMemory)"

text \<open>Whether \<open>fw.Mail\<close> is set: the SMTP server answered when it was probed.\<close>

definition mail_available :: "bool \<Rightarrow> settings \<Rightarrow> bool" where
  "mail_available smtp_ok se \<longleftrightarrow> se_mail_enabled se \<and> se_mail_host se \<noteq> [] \<and> se_mail_user se \<noteq> [] \<and> smtp_ok"

definition browsable_addr :: "string \<Rightarrow> string \<Rightarrow> string" where
  "browsable_addr host port =
     (let h = (if host \<in> {''0.0.0.0'', [], ''::'', ''[::]''} then ''127.0.0.1'' else host) in h @ '':'' @ port)"

definition mem_suffixes :: "(string \<times> int) list" where
  "mem_suffixes = [(''KiB'', 2 ^ 10), (''MiB'', 2 ^ 20), (''GiB'', 2 ^ 30), (''B'', 1)]"

fun cut_suffix :: "(string \<times> int) list \<Rightarrow> string \<Rightarrow> string \<times> int" where
  "cut_suffix [] s = (s, 1)"
| "cut_suffix ((suf, unit) # rest) s = (if has_suffix s suf then (trim_suffix s suf, unit) else cut_suffix rest s)"

definition parse_mem_limit :: "string \<Rightarrow> int option" where
  "parse_mem_limit s0 =
     (case cut_suffix mem_suffixes (trim_space s0) of
        (s, unit) \<Rightarrow>
          (case atoi (trim_space s) of (n, ok) \<Rightarrow> if \<not> ok \<or> n \<le> 0 then None else Some (wrap64 (n * unit))))"

subsection \<open>What a production start guarantees\<close>

lemma bootD: "boot sha g cpus f = Inr se \<Longrightarrow>
  \<exists>en. env_load g f no_environment = Some en \<and> se = load_settings g cpus en \<and> boot_check sha se = None"
  by (auto simp: boot_def Let_def split: option.splits)


lemma load_settings_fields:
  "se_debug (load_settings g c en) \<longleftrightarrow> env_get_or g en ''APP_ENV'' ''production'' = ''development''"
  "se_secret_key (load_settings g c en) = env_get_or g en ''SECRET_KEY'' ''change-me''"
  "se_pepper (load_settings g c en) = env_get g en ''PASSWORD_PEPPER''"
  "se_encryption_key (load_settings g c en) = env_get g en ''FIELD_ENCRYPTION_KEY''"
  "se_allowed_hosts (load_settings g c en) = parse_hosts (env_get g en ''ALLOWED_HOSTS'')"
  by (simp_all add: load_settings_def Let_def)

definition strong_file :: "(string \<times> string) list" where
  "strong_file = [(''SECRET_KEY'', ''0123456789abcdef0123456789abcdef''), (''PASSWORD_PEPPER'', ''pp'')]"

lemma strong_file_boots:
  "\<exists>en se. env_load (\<lambda>_. []) (Some (env_file strong_file)) no_environment = Some en \<and>
     boot id (\<lambda>_. []) 4 (Some (env_file strong_file)) = Inr se \<and> env_get (\<lambda>_. []) en ''APP_ENV'' = [] \<and>
     env_get (\<lambda>_. []) en ''ALLOWED_HOSTS'' = []"
proof -
  have p: "list_all plain_entry strong_file" by code_simp
  let ?en = "\<lparr>en_loaded = fold (env_put (\<lambda>_. [])) strong_file [], en_raw = map (\<lambda>(k, v). k @ ''='' @ v) strong_file\<rparr>"
  note g = env_get_file[of "\<lambda>_. []" strong_file]
  have gets: "env_get (\<lambda>_. []) ?en ''APP_ENV'' = []" "env_get (\<lambda>_. []) ?en ''SECRET_KEY'' = ''0123456789abcdef0123456789abcdef''"
    "env_get (\<lambda>_. []) ?en ''PASSWORD_PEPPER'' = ''pp''" "env_get (\<lambda>_. []) ?en ''FIELD_ENCRYPTION_KEY'' = []"
    unfolding g by (simp_all add: strong_file_def)
  have "boot_check id (load_settings (\<lambda>_. []) 4 ?en) = None"
    unfolding boot_check_def load_settings_fields env_get_or_def gets Let_def by simp
  then show ?thesis unfolding env_load_file[OF p] boot_def by (simp add: Let_def g) (simp add: strong_file_def)
qed


text \<open>
  A production start does not require \<open>ALLOWED_HOSTS\<close>: without it the program starts, and then the
  chain refuses every request of every route with the error page 400.
\<close>

theorem boot_without_hosts:
  assumes "boot sha g cpus f = Inr se" and "env_load g f no_environment = Some en"
    and "env_get g en ''APP_ENV'' \<noteq> ''development''" and "env_get g en ''ALLOWED_HOSTS'' = []"
  shows "framework_chain xt (se_allowed_hosts se) (se_debug se) h x = framework_chain xt (se_allowed_hosts se) (se_debug se) h' x \<and>
    allowed_hosts xt (se_allowed_hosts se) (se_debug se) h x = (None, on_pages (render_error xt (method_path x) 400) x)"
proof -
  have se: "se = load_settings g cpus en" using bootD[OF assms(1)] assms(2) by auto
  have d: "se_debug se = False" using assms(3) by (auto simp: se load_settings_def env_get_or_def Let_def)
  have hs: "se_allowed_hosts se = []" using assms(4) by (simp add: se load_settings_def parse_hosts_def Let_def)
  have a: "allowed_hosts xt [] False f x = (None, on_pages (render_error xt (method_path x) 400) x)" for f and x :: "'a exchange"
    by (simp add: allowed_hosts_def Let_def)
  show ?thesis unfolding d hs framework_chain_eq by (simp add: a recovery_def max_body_size_def secure_headers_def)
qed

theorem boot_without_hosts_witness:
  "\<exists>se. boot id (\<lambda>_. []) 4 (Some (env_file strong_file)) = Inr se \<and>
     allowed_hosts toy_externals (se_allowed_hosts se) (se_debug se) (say ''hi'') toy_get =
       (None, on_pages (render_error toy_externals (method_path toy_get) 400) toy_get)"
proof -
  obtain en se where e: "env_load (\<lambda>_. []) (Some (env_file strong_file)) no_environment = Some en"
    "boot id (\<lambda>_. []) 4 (Some (env_file strong_file)) = Inr se" "env_get (\<lambda>_. []) en ''APP_ENV'' = []"
    "env_get (\<lambda>_. []) en ''ALLOWED_HOSTS'' = []" using strong_file_boots by blast
  from boot_without_hosts[OF e(2,1), of toy_externals "say ''hi''" toy_get] e show ?thesis by simp
qed

subsection \<open>The memory limit\<close>

lemma utoa_trim: "trim_space (utoa n) = utoa n"
proof -
  have "\<forall>c\<in>set (utoa n). \<not> is_space c"
    using utoa_digits[of n] by (auto simp: list_all_iff is_digit_def is_space_def)
  then show ?thesis by (intro trim_by_id) auto
qed

lemma cut_suffix_utoa: "(suf, k) \<in> set mem_suffixes \<Longrightarrow> cut_suffix mem_suffixes (utoa n @ suf) = (utoa n, k)"
proof -
  assume m: "(suf, k) \<in> set mem_suffixes"
  have "CHR ''i'' \<notin> set (utoa n)" using utoa_digits[of n] by (auto simp: list_all_iff is_digit_def)
  with m show ?thesis by (auto simp: mem_suffixes_def trim_suffix_def suffix_def)
qed

lemma trim_suffixed: "(suf, k) \<in> set mem_suffixes \<Longrightarrow> trim_space (utoa n @ suf) = utoa n @ suf"
proof -
  assume m: "(suf, k) \<in> set mem_suffixes"
  have "\<not> is_space (hd (utoa n))" using utoa_digits[of n] utoa_ne[of n]
    by (cases "utoa n") (auto simp: is_digit_def is_space_def)
  then have "\<not> is_space (hd (utoa n @ suf))" by simp
  moreover have "\<not> is_space (last (utoa n @ suf))" using m by (auto simp: mem_suffixes_def is_space_def)
  ultimately show ?thesis by (intro trim_by_id) simp
qed

text \<open>
  A memory limit written as a number with one of the suffixes is that number times the unit exactly
  when the product fits into 64 bits; a larger one is silently taken modulo 2^64, so that it can come
  out smaller, zero or negative, instead of being refused.
\<close>

theorem mem_limit_exact:
  assumes "(suf, k) \<in> set mem_suffixes" and "0 < n" and "int n \<le> max_int"
  shows "parse_mem_limit (utoa n @ suf) = Some (wrap64 (int n * k)) \<and>
    (wrap64 (int n * k) = int n * k \<longleftrightarrow> int n * k \<le> max_int)"
proof
  show "parse_mem_limit (utoa n @ suf) = Some (wrap64 (int n * k))"
    unfolding parse_mem_limit_def trim_suffixed[OF assms(1)] cut_suffix_utoa[OF assms(1)]
    using assms(2,3) by (simp add: utoa_trim atoi_utoa)
  have "0 < k" using assms(1) by (auto simp: mem_suffixes_def)
  with assms(2) have "0 < int n * k" by simp
  then have "wrap64 (int n * k) = int n * k \<longleftrightarrow> int n * k + 2 ^ 63 < 2 ^ 64"
    by (auto simp: wrap64_def mod_pos_pos_trivial dest: sym intro: ccontr)
  then show "wrap64 (int n * k) = int n * k \<longleftrightarrow> int n * k \<le> max_int" by (simp add: max_int_def) linarith
qed

theorem mem_limit_exact_witness:
  "parse_mem_limit (utoa 8589934592 @ ''GiB'') = Some (- (2 ^ 63)) \<and> parse_mem_limit (utoa 512 @ ''MiB'') = Some (512 * 2 ^ 20)"
  using mem_limit_exact[of "''GiB''" "2 ^ 30" 8589934592] mem_limit_exact[of "''MiB''" "2 ^ 20" 512]
  by (simp add: mem_suffixes_def max_int_def wrap64_def)

end
