(* ===== verification/Migrations.thy ===== *)
theory Migrations
  imports Login Router
begin

text \<open>
  The migration generator of \<open>core/cli/makemigrations.go\<close>: models are read from the syntax tree of the
  Go files (the parser of the standard library is outside: \<open>struct_decl\<close> is what it delivers), compared
  with the schema the existing migrations describe, and the differences written as an SQL file. The
  text is built line by line; \<open>text_of\<close> joins the lines.
\<close>

declare map_of_eq_Some_iff [simp del] AList.update_conv' [simp]

subsection \<open>Models\<close>

datatype go_expr = EIdent string | ESelector go_expr string | EStar go_expr | EArray go_expr | EOther

text \<open>One entry of a field list: names (none for an embedded field), type, and the tag literal.\<close>

record field_decl =
  fd_names :: "string list"
  fd_type :: go_expr
  fd_tag :: "string option"

record struct_decl =
  sd_name :: string
  sd_fields :: "field_decl list"

record mig_field =
  mf_column :: string
  mf_type :: string
  mf_size :: int
  mf_pk :: bool
  mf_not_null :: bool
  mf_unique :: bool
  mf_fk :: string
  mf_fts :: bool

record mig_model =
  mm_name :: string
  mm_table :: string
  mm_fields :: "mig_field list"

record mig_alter =
  ma_table :: string
  ma_pk :: string
  ma_add :: "mig_field list"
  ma_removed :: "string list"

definition exclude_test_files :: "string list \<Rightarrow> string list" where
  "exclude_test_files paths = filter (\<lambda>p. \<not> has_suffix p ''_test.go'') paths"

fun mig_expr_type :: "go_expr \<Rightarrow> string" where
  "mig_expr_type (EIdent n) = n"
| "mig_expr_type (ESelector x s) = mig_expr_type x @ ''.'' @ s"
| "mig_expr_type (EStar x) = ''*'' @ mig_expr_type x"
| "mig_expr_type (EArray x) = ''[]'' @ mig_expr_type x"
| "mig_expr_type EOther = ''string''"

text \<open>The text after the first occurrence of \<open>p\<close>.\<close>

fun after :: "string \<Rightarrow> string \<Rightarrow> string option" where
  "after p [] = (if p = [] then Some [] else None)"
| "after p (c # cs) = (if has_prefix (c # cs) p then Some (drop (length p) (c # cs)) else after p cs)"

definition mig_extract_tag :: "string \<Rightarrow> string \<Rightarrow> string" where
  "mig_extract_tag raw key =
     (case after (key @ '':'' @ [CHR 0x22]) raw of
        None \<Rightarrow> []
      | Some r \<Rightarrow> (case cut_chr (CHR 0x22) r of (v, _, found) \<Rightarrow> if found then v else []))"

definition mig_to_snake :: "string \<Rightarrow> string" where
  "mig_to_snake s =
     concat (map (\<lambda>i. let r = s ! i in
        if is_upper r
        then (if i > 0 \<and> (\<not> is_upper (s ! (i - 1)) \<or> (i + 1 < length s \<and> is_lower (s ! (i + 1)))) then ''_'' else [])
             @ [to_lower_c r]
        else [r]) [0..<length s])"

definition mig_is_vowel :: "char \<Rightarrow> bool" where
  "mig_is_vowel r \<longleftrightarrow> r \<in> set ''aeiou''"

definition mig_plural_snake :: "string \<Rightarrow> string" where
  "mig_plural_snake name =
     (let s = mig_to_snake name
      in if has_suffix s ''s'' \<or> has_suffix s ''x'' \<or> has_suffix s ''z'' \<or> has_suffix s ''sh'' \<or> has_suffix s ''ch''
         then s @ ''es''
         else if has_suffix s ''y'' \<and> length s > 1 \<and> \<not> mig_is_vowel (s ! (length s - 2))
         then take (length s - 1) s @ ''ies''
         else s @ ''s'')"

definition mig_apply_tag :: "string \<Rightarrow> mig_field \<Rightarrow> mig_field" where
  "mig_apply_tag part fd =
     (if part = ''pk'' then fd\<lparr>mf_pk := True\<rparr>
      else if part = ''unique'' \<or> part = ''unique:true'' then fd\<lparr>mf_unique := True\<rparr>
      else if part = ''fts'' then fd\<lparr>mf_fts := True\<rparr>
      else if has_prefix part ''column:'' then fd\<lparr>mf_column := trim_prefix part ''column:''\<rparr>
      else if has_prefix part ''size:'' then fd\<lparr>mf_size := fst (atoi (trim_prefix part ''size:''))\<rparr>
      else if has_prefix part ''fk:'' then fd\<lparr>mf_fk := trim_prefix part ''fk:''\<rparr>
      else fd)"

definition mig_build_field :: "string \<Rightarrow> string \<Rightarrow> string \<Rightarrow> bool \<Rightarrow> mig_field" where
  "mig_build_field name go_type kyrux_tag not_null =
     fold mig_apply_tag (map trim_space (split_chr (CHR '','') kyrux_tag))
       \<lparr>mf_column = mig_to_snake name, mf_type = go_type, mf_size = 0, mf_pk = False, mf_not_null = not_null,
        mf_unique = False, mf_fk = [], mf_fts = False\<rparr>"

definition mig_fields_of :: "field_decl \<Rightarrow> mig_field list" where
  "mig_fields_of fd =
     (let t = mig_expr_type (fd_type fd); is_ptr = has_prefix t ''*'';
          go_type = (if is_ptr then drop 1 t else t);
          tag = (case fd_tag fd of None \<Rightarrow> [] | Some lit \<Rightarrow> mig_extract_tag (trim_by (\<lambda>c. c = CHR 0x60) lit) ''kyrux'')
      in map (\<lambda>n. mig_build_field n go_type tag (\<not> is_ptr)) (fd_names fd))"

definition mig_model_of :: "struct_decl \<Rightarrow> mig_model option" where
  "mig_model_of sd =
     (let fs = concat (map mig_fields_of (sd_fields sd))
      in if \<exists>f\<in>set fs. mf_pk f
         then Some \<lparr>mm_name = sd_name sd, mm_table = mig_plural_snake (sd_name sd), mm_fields = fs\<rparr> else None)"

definition mig_parse_file :: "struct_decl list \<Rightarrow> mig_model list" where
  "mig_parse_file decls = List.map_filter mig_model_of decls"

fun mig_pk_of :: "mig_field list \<Rightarrow> string" where
  "mig_pk_of [] = ''id''"
| "mig_pk_of (f # fs) = (if mf_pk f then mf_column f else mig_pk_of fs)"

definition mig_pk_column :: "mig_model \<Rightarrow> string" where
  "mig_pk_column m = mig_pk_of (mm_fields m)"

subsection \<open>SQL\<close>

definition is_postgres :: "string \<Rightarrow> bool" where
  "is_postgres driver \<longleftrightarrow> driver = ''postgres'' \<or> driver = ''pgx''"

definition mig_default :: "string \<Rightarrow> bool \<Rightarrow> string" where
  "mig_default go_type pg =
     (if go_type = ''bool'' then ''FALSE''
      else if go_type \<in> {''int'', ''int32'', ''int64'', ''float32'', ''float64''} then ''0''
      else if go_type = ''time.Time'' then (if pg then ''NOW()'' else ''CURRENT_TIMESTAMP'')
      else [CHR 0x27, CHR 0x27])"

definition mig_sql_type :: "mig_field \<Rightarrow> bool \<Rightarrow> string" where
  "mig_sql_type f pg =
     (if mf_pk f then (if pg then ''BIGSERIAL'' else ''INTEGER'')
      else if mf_type f \<in> {''int'', ''int32''} then ''INTEGER''
      else if mf_type f = ''int64'' then (if pg then ''BIGINT'' else ''INTEGER'')
      else if mf_type f \<in> {''float32'', ''float64''} then ''DECIMAL''
      else if mf_type f = ''bool'' then ''BOOLEAN''
      else if mf_type f = ''time.Time'' then (if pg then ''TIMESTAMPTZ'' else ''DATETIME'')
      else if mf_size f > 0 then ''VARCHAR('' @ itoa (mf_size f) @ '')'' else ''TEXT'')"

definition not_null_parts :: "mig_field \<Rightarrow> bool \<Rightarrow> string list" where
  "not_null_parts f pg =
     (if mf_not_null f
      then ''NOT NULL'' # (let d = mig_default (mf_type f) pg in if d \<noteq> [] then [''DEFAULT '' @ d] else []) else [])"

definition fk_parts :: "mig_field \<Rightarrow> string list" where
  "fk_parts f = (if mf_fk f \<noteq> [] then [''REFERENCES '' @ mf_fk f @ ''(id)''] else [])"

definition spaced :: "string list \<Rightarrow> string" where
  "spaced parts = (if parts = [] then [] else '' '' @ join '' '' parts)"

definition mig_constraints :: "mig_field \<Rightarrow> bool \<Rightarrow> string" where
  "mig_constraints f pg =
     (if mf_pk f then '' PRIMARY KEY''
      else spaced (not_null_parts f pg @ (if mf_unique f then [''UNIQUE''] else []) @ fk_parts f))"

definition mig_alter_constraints :: "mig_field \<Rightarrow> bool \<Rightarrow> string" where
  "mig_alter_constraints f pg = spaced (not_null_parts f pg @ fk_parts f)"

definition shadow_table :: "string \<Rightarrow> string \<Rightarrow> string" where
  "shadow_table table col = table @ ''_'' @ col @ ''_fts''"

definition quoted :: "string \<Rightarrow> string" where "quoted s = [CHR 0x27] @ s @ [CHR 0x27]"

text \<open>\<open>migFTSUpSQL\<close>; in the warning the driver's name stands between quotes as \<open>%q\<close> writes a plain word.\<close>

definition fts_up :: "string \<Rightarrow> string \<Rightarrow> mig_field \<Rightarrow> string \<Rightarrow> string list" where
  "fts_up table pk f driver =
     (let c = mf_column f; sh = shadow_table table c
      in if is_postgres driver then
           [[], ''CREATE INDEX IF NOT EXISTS '' @ table @ ''_'' @ c @ ''_fts_idx ON '' @ table @ '' USING GIN (to_tsvector('' @
                quoted ''portuguese'' @ '', '' @ c @ ''));'']
         else if driver = ''mysql'' then
           [[], ''CREATE FULLTEXT INDEX '' @ table @ ''_'' @ c @ ''_fts_idx ON '' @ table @ '' ('' @ c @ '');'']
         else if driver \<in> {''sqlite'', ''sqlite3''} then
           [[], ''CREATE VIRTUAL TABLE IF NOT EXISTS '' @ sh @ '' USING fts5('' @ c @ '', content='' @ quoted table @ '', content_rowid='' @ quoted pk @ '');'',
            ''CREATE TRIGGER IF NOT EXISTS '' @ sh @ ''_ai AFTER INSERT ON '' @ table @ '' BEGIN'',
            ''  INSERT INTO '' @ sh @ ''(rowid, '' @ c @ '') VALUES (new.'' @ pk @ '', new.'' @ c @ '');'',
            ''END;'',
            ''CREATE TRIGGER IF NOT EXISTS '' @ sh @ ''_ad AFTER DELETE ON '' @ table @ '' BEGIN'',
            ''  INSERT INTO '' @ sh @ ''('' @ sh @ '', rowid, '' @ c @ '') VALUES('' @ quoted ''delete'' @ '', old.'' @ pk @ '', old.'' @ c @ '');'',
            ''END;'',
            ''CREATE TRIGGER IF NOT EXISTS '' @ sh @ ''_au AFTER UPDATE ON '' @ table @ '' BEGIN'',
            ''  INSERT INTO '' @ sh @ ''('' @ sh @ '', rowid, '' @ c @ '') VALUES('' @ quoted ''delete'' @ '', old.'' @ pk @ '', old.'' @ c @ '');'',
            ''  INSERT INTO '' @ sh @ ''(rowid, '' @ c @ '') VALUES (new.'' @ pk @ '', new.'' @ c @ '');'',
            ''END;'']
         else
           [[], ''-- AVISO: kyrux:'' @ [CHR 0x22] @ ''fts'' @ [CHR 0x22] @ '' em '' @ table @ ''.'' @ c @
              '' ignorado '' @ [CHR 0xE2, CHR 0x80, CHR 0x94] @ '' full-text search n'' @ [CHR 0xC3, CHR 0xA3] @
              ''o suportado no driver '' @ [CHR 0x22] @ driver @ [CHR 0x22] @ '' (suportado: postgres, mysql, sqlite)''])"

definition fts_down :: "string \<Rightarrow> mig_field \<Rightarrow> string \<Rightarrow> string list" where
  "fts_down table f driver =
     (let c = mf_column f; sh = shadow_table table c
      in if is_postgres driver then [''DROP INDEX IF EXISTS '' @ table @ ''_'' @ c @ ''_fts_idx;'']
         else if driver = ''mysql'' then [''DROP INDEX '' @ table @ ''_'' @ c @ ''_fts_idx ON '' @ table @ '';'']
         else if driver \<in> {''sqlite'', ''sqlite3''} then
           [''DROP TRIGGER IF EXISTS '' @ sh @ ''_ai;'', ''DROP TRIGGER IF EXISTS '' @ sh @ ''_ad;'',
            ''DROP TRIGGER IF EXISTS '' @ sh @ ''_au;'', ''DROP TABLE IF EXISTS '' @ sh @ '';'']
         else [])"

definition index_line :: "string \<Rightarrow> string \<Rightarrow> string \<Rightarrow> string" where
  "index_line kind table c =
     ''CREATE '' @ kind @ ''INDEX IF NOT EXISTS '' @ table @ ''_'' @ c @ ''_idx ON '' @ table @ '' ('' @ c @ '');''"

definition pad20 :: "string \<Rightarrow> string" where
  "pad20 s = s @ replicate (20 - length s) (CHR '' '')"

fun column_lines :: "bool \<Rightarrow> mig_field list \<Rightarrow> string list" where
  "column_lines pg [] = []"
| "column_lines pg (f # fs) =
     (''    '' @ pad20 (mf_column f) @ '' '' @ mig_sql_type f pg @ mig_constraints f pg @ (if fs = [] then [] else '',''))
     # column_lines pg fs"

definition field_extras :: "string \<Rightarrow> mig_model \<Rightarrow> mig_field \<Rightarrow> string list" where
  "field_extras driver m f =
     (if mf_unique f \<and> \<not> mf_pk f then [[], index_line ''UNIQUE '' (mm_table m) (mf_column f)] else []) @
     (if mf_fk f \<noteq> [] \<and> \<not> mf_unique f then [[], index_line [] (mm_table m) (mf_column f)] else []) @
     (if mf_fts f then fts_up (mm_table m) (mig_pk_column m) f driver else [])"

definition model_lines :: "string \<Rightarrow> mig_model \<Rightarrow> string list" where
  "model_lines driver m =
     (''CREATE TABLE IF NOT EXISTS '' @ mm_table m @ '' ('') # column_lines (is_postgres driver) (mm_fields m) @ ['');''] @
     concat (map (field_extras driver m) (mm_fields m))"

definition add_lines :: "string \<Rightarrow> mig_alter \<Rightarrow> mig_field \<Rightarrow> string list" where
  "add_lines driver a f =
     [''ALTER TABLE '' @ ma_table a @ '' ADD COLUMN '' @ mf_column f @ '' '' @ mig_sql_type f (is_postgres driver) @
      mig_alter_constraints f (is_postgres driver) @ '';''] @
     (if mf_unique f then [index_line ''UNIQUE '' (ma_table a) (mf_column f)]
      else if mf_fk f \<noteq> [] then [index_line [] (ma_table a) (mf_column f)] else []) @
     (if mf_fts f then fts_up (ma_table a) (ma_pk a) f driver else [])"

definition alter_lines :: "string \<Rightarrow> mig_alter \<Rightarrow> string list" where
  "alter_lines driver a =
     (if ma_add a \<noteq> [] then [[], ''-- Colunas novas em '' @ ma_table a] @ concat (map (add_lines driver a) (ma_add a)) else []) @
     (if ma_removed a \<noteq> [] then
        [[], ''-- AVISO: colunas presentes nas migrations mas ausentes do model '' @ quoted (ma_table a) @ ''.'',
         ''-- A remo'' @ [CHR 0xC3, CHR 0xA7, CHR 0xC3, CHR 0xA3] @ ''o N'' @ [CHR 0xC3, CHR 0x83] @ ''O '' @ [CHR 0xC3, CHR 0xA9] @
           '' gerada automaticamente (perda de dados) '' @ [CHR 0xE2, CHR 0x80, CHR 0x94] @ '' descomente para aplicar:''] @
        map (\<lambda>c. ''-- ALTER TABLE '' @ ma_table a @ '' DROP COLUMN '' @ c @ '';'') (ma_removed a)
      else [])"

definition alter_down :: "string \<Rightarrow> mig_alter \<Rightarrow> string list" where
  "alter_down driver a =
     concat (map (\<lambda>f. (if mf_fts f then fts_down (ma_table a) f driver else []) @
         (if mf_unique f \<or> mf_fk f \<noteq> [] then [''DROP INDEX IF EXISTS '' @ ma_table a @ ''_'' @ mf_column f @ ''_idx;''] else []) @
         [''ALTER TABLE '' @ ma_table a @ '' DROP COLUMN '' @ mf_column f @ '';'']) (rev (ma_add a)))"

definition model_down :: "string \<Rightarrow> mig_model \<Rightarrow> string list" where
  "model_down driver m =
     concat (map (\<lambda>f. (if mf_fts f then fts_down (mm_table m) f driver else []) @
         (if (mf_unique f \<or> mf_fk f \<noteq> []) \<and> \<not> mf_pk f
          then [''DROP INDEX IF EXISTS '' @ mm_table m @ ''_'' @ mf_column f @ ''_idx;''] else [])) (mm_fields m)) @
     [''DROP TABLE IF EXISTS '' @ mm_table m @ '';'']"

fun models_lines :: "string \<Rightarrow> mig_model list \<Rightarrow> string list" where
  "models_lines driver [] = []"
| "models_lines driver [m] = model_lines driver m"
| "models_lines driver (m # ms) = model_lines driver m @ [[]] @ models_lines driver ms"

definition header_lines :: "string list" where
  "header_lines =
     [''-- Migra'' @ [CHR 0xC3, CHR 0xA7, CHR 0xC3, CHR 0xA3] @ ''o gerada automaticamente pelo Kyrux Framework'',
      ''-- Revisione antes de executar: go run main.go migrate'', []]"

definition up_lines :: "mig_model list \<Rightarrow> mig_alter list \<Rightarrow> string \<Rightarrow> string list" where
  "up_lines models alters driver = header_lines @ models_lines driver models @ concat (map (alter_lines driver) alters) @ [[]]"

definition down_lines :: "mig_model list \<Rightarrow> mig_alter list \<Rightarrow> string \<Rightarrow> string list" where
  "down_lines models alters driver =
     concat (map (alter_down driver) (rev alters)) @ concat (map (model_down driver) (rev models))"

definition text_of :: "string list \<Rightarrow> string" where
  "text_of ls = concat (map (\<lambda>l. l @ [CHR 0x0A]) ls)"

definition mig_generate_sql :: "mig_model list \<Rightarrow> mig_alter list \<Rightarrow> string \<Rightarrow> string" where
  "mig_generate_sql models alters driver =
     text_of (up_lines models alters driver @ [''-- down''] @ down_lines models alters driver)"

subsection \<open>The schema the migrations describe\<close>

type_synonym schema = "(string \<times> string list) list"

definition columns_of :: "schema \<Rightarrow> string \<Rightarrow> string list" where
  "columns_of s t = (case map_of s t of None \<Rightarrow> [] | Some cs \<Rightarrow> cs)"

definition ensure_table :: "string \<Rightarrow> schema \<Rightarrow> schema" where
  "ensure_table t s = (if map_of s t = None then AList.update t [] s else s)"

definition add_column :: "string \<Rightarrow> string \<Rightarrow> schema \<Rightarrow> schema" where
  "add_column t c s = AList.update t (List.insert c (columns_of s t)) s"

definition drop_column :: "string \<Rightarrow> string \<Rightarrow> schema \<Rightarrow> schema" where
  "drop_column t c s = (case map_of s t of None \<Rightarrow> s | Some cs \<Rightarrow> AList.update t (removeAll c cs) s)"

definition constraint_keywords :: "string list" where
  "constraint_keywords = [''PRIMARY'', ''FOREIGN'', ''UNIQUE'', ''CONSTRAINT'', ''CHECK'', ''KEY'', ''INDEX'']"

text \<open>A keyword of a case-insensitive pattern at the head of a text, and \<open>\s+\<close>.\<close>

definition re_word :: "string \<Rightarrow> string \<Rightarrow> string option" where
  "re_word w s = (if to_upper (take (length w) s) = w then Some (drop (length w) s) else None)"

definition re_spaces :: "string \<Rightarrow> string option" where
  "re_spaces s = (if s \<noteq> [] \<and> re_space (hd s) then Some (dropWhile re_space s) else None)"

definition re_quote :: "string \<Rightarrow> string" where
  "re_quote s = (if s \<noteq> [] \<and> hd s = CHR 0x22 then tl s else s)"

definition re_name :: "(char \<Rightarrow> bool) \<Rightarrow> string \<Rightarrow> (string \<times> string) option" where
  "re_name P s = (if s \<noteq> [] \<and> ident_start (hd s) then Some (takeWhile P s, dropWhile P s) else None)"

text \<open>
  \<open>reAlterAdd\<close> and \<open>reAlterDrop\<close>: the table and the column. The optional word \<open>COLUMN\<close> is tried first;
  a text without a name after it falls back to the word itself as the name.
\<close>

definition re_alter :: "string \<Rightarrow> string \<Rightarrow> (string \<times> string) option" where
  "re_alter verb s =
     (case Option.bind (Option.bind (Option.bind (re_word ''ALTER'' s) re_spaces) (re_word ''TABLE'')) re_spaces of
        None \<Rightarrow> None
      | Some r \<Rightarrow>
          (case re_name (\<lambda>c. ident_char c \<or> c = CHR ''.'') (re_quote r) of
             None \<Rightarrow> None
           | Some (t, r1) \<Rightarrow>
               (case Option.bind (Option.bind (re_spaces (re_quote r1)) (re_word verb)) re_spaces of
                  None \<Rightarrow> None
                | Some r2 \<Rightarrow>
                    (case Option.bind (re_word ''COLUMN'' r2) re_spaces of
                       None \<Rightarrow> map_option (\<lambda>n. (t, fst n)) (re_name ident_char (re_quote r2))
                     | Some r3 \<Rightarrow>
                         (case re_name ident_char (re_quote r3) of
                            Some n \<Rightarrow> Some (t, fst n)
                          | None \<Rightarrow> map_option (\<lambda>n. (t, fst n)) (re_name ident_char (re_quote r2)))))))"

definition create_rest :: "string \<Rightarrow> string option" where
  "create_rest trim =
     (let upper = to_upper trim
      in if has_prefix upper ''CREATE TABLE IF NOT EXISTS '' then Some (drop 27 trim)
         else if has_prefix upper ''CREATE TABLE '' then Some (drop 13 trim) else None)"

definition name_separator :: "char \<Rightarrow> bool" where
  "name_separator c \<longleftrightarrow> c \<in> {CHR '' '', CHR 0x09, CHR ''('', CHR 0x22, CHR 0x27}"

definition first_name :: "string \<Rightarrow> string" where
  "first_name s = takeWhile (\<lambda>c. \<not> name_separator c) (dropWhile name_separator s)"

definition column_name :: "string \<Rightarrow> string" where
  "column_name trim = to_lower (trim_by (\<lambda>c. c = CHR 0x22 \<or> c = CHR '','') (takeWhile (\<lambda>c. \<not> is_space c) trim))"

fun read_schema :: "string list \<Rightarrow> string option \<Rightarrow> schema \<Rightarrow> schema" where
  "read_schema [] in_table s = s"
| "read_schema (l # ls) in_table s =
     (let trim = trim_space l
      in if trim = [] then read_schema ls in_table s
         else if has_prefix trim ''--'' then (if to_lower trim = ''-- down'' then s else read_schema ls in_table s)
         else (case in_table of
             Some t \<Rightarrow>
               if has_prefix trim '')'' then read_schema ls None s
               else (let col = column_name trim
                     in if col = [] \<or> to_upper col \<in> set constraint_keywords then read_schema ls in_table s
                        else read_schema ls in_table (add_column t col s))
           | None \<Rightarrow>
               (case create_rest trim of
                  Some rest \<Rightarrow>
                    (let n = first_name rest
                     in if n = [] then read_schema ls None s
                        else read_schema ls (Some (to_lower n)) (ensure_table (to_lower n) s))
                | None \<Rightarrow>
                    (case re_alter ''ADD'' trim of
                       Some (t, c) \<Rightarrow> read_schema ls None (add_column (to_lower t) (to_lower c) s)
                     | None \<Rightarrow>
                         (case re_alter ''DROP'' trim of
                            Some (t, c) \<Rightarrow> read_schema ls None (drop_column (to_lower t) (to_lower c) s)
                          | None \<Rightarrow> read_schema ls None s)))))"

text \<open>\<open>migSchemaInDir\<close> over the contents of the files in order.\<close>

definition schema_in_dir :: "string list \<Rightarrow> schema" where
  "schema_in_dir files = fold (\<lambda>content s. read_schema (split_chr (CHR 0x0A) content) None s) files []"

subsection \<open>Differences\<close>

definition mig_diff_model :: "mig_model \<Rightarrow> string list \<Rightarrow> mig_alter option" where
  "mig_diff_model m cols =
     (let add = filter (\<lambda>f. mf_column f \<notin> set cols \<and> \<not> mf_pk f) (mm_fields m);
          removed = sort (filter (\<lambda>c. c \<notin> mf_column ` set (mm_fields m)) cols)
      in if add = [] \<and> removed = [] then None
         else Some \<lparr>ma_table = mm_table m, ma_pk = mig_pk_column m, ma_add = add, ma_removed = removed\<rparr>)"

fun mig_plan :: "schema \<Rightarrow> mig_model list \<Rightarrow> mig_model list \<times> mig_alter list" where
  "mig_plan s [] = ([], [])"
| "mig_plan s (m # ms) =
     (case mig_plan s ms of
        (pending, alters) \<Rightarrow>
          (case map_of s (mm_table m) of
             None \<Rightarrow> (m # pending, alters)
           | Some cols \<Rightarrow>
               (case mig_diff_model m cols of None \<Rightarrow> (pending, alters) | Some a \<Rightarrow> (pending, a # alters))))"

definition has_adds :: "mig_alter list \<Rightarrow> bool" where
  "has_adds alters \<longleftrightarrow> (\<exists>a\<in>set alters. ma_add a \<noteq> [])"

text \<open>\<open>migNextNum\<close>, over the base names.\<close>

definition mig_next_num :: "string list \<Rightarrow> string" where
  "mig_next_num names =
     (let top = fold (\<lambda>b mx. case atoi (fst (cut_chr (CHR ''_'') b)) of (n, ok) \<Rightarrow> if ok \<and> n > mx then n else mx) names 0;
          s = itoa (wrap64 (top + 1))
      in replicate (4 - length s) (CHR ''0'') @ s)"

text \<open>\<open>runMakeMigrations\<close>: the file to write, or nothing to do.\<close>

definition make_migrations ::
  "string \<Rightarrow> struct_decl list list \<Rightarrow> (string \<times> string) list \<Rightarrow> (string \<times> string) option"
where
  "make_migrations driver go_files dir =
     (let models = concat (map mig_parse_file go_files);
          plan = mig_plan (schema_in_dir (map snd (sort_key fst dir))) models
      in if fst plan = [] \<and> \<not> has_adds (snd plan) then None
         else Some (mig_next_num (map fst dir) @ ''_auto.sql'', mig_generate_sql (fst plan) (snd plan) driver))"

subsection \<open>Reading generated lines\<close>

definition plain_name :: "string \<Rightarrow> bool" where
  "plain_name n \<longleftrightarrow> n \<noteq> [] \<and> ident_start (hd n) \<and> (\<forall>c\<in>set n. ident_char c \<and> \<not> is_upper c)"

lemma ident_char_plain: "ident_char c \<Longrightarrow>
  \<not> is_space c \<and> \<not> re_space c \<and> \<not> name_separator c \<and> c \<notin> {CHR ''-'', CHR '')'', CHR 0x22, CHR '','', CHR 0x0A, CHR ''.''}"
  by (auto simp: ident_char_def ident_start_def is_upper_def is_lower_def is_digit_def is_space_def re_space_def name_separator_def)

lemma plain_nameD:
  assumes "plain_name n"
  shows "n \<noteq> []" "ident_start (hd n)" "\<forall>c\<in>set n. ident_char c" "to_lower n = n" "hd n \<in> set n" "last n \<in> set n"
  using assms by (auto simp: plain_name_def to_lower_def to_lower_c_def intro: map_idI)

lemma trim_lead: "\<forall>c\<in>set a. P c \<Longrightarrow> trim_by P (a @ x) = trim_by P x"
  by (induction a) (auto simp: trim_by_def)

lemma dropWhile_all: "\<forall>c\<in>set a. P c \<Longrightarrow> dropWhile P (a @ x) = dropWhile P x"
  by (induction a) auto

lemma trim_front: "c \<noteq> [] \<Longrightarrow> \<not> P (hd c) \<Longrightarrow> \<not> P (last c) \<Longrightarrow> trim_by P (c @ r) = c @ rev (dropWhile P (rev r))"
proof -
  assume a: "c \<noteq> []" "\<not> P (hd c)" "\<not> P (last c)"
  have d: "dropWhile P (c @ r) = c @ r" using a by (cases c) auto
  have e: "dropWhile P (rev c) = rev c" using a by (intro dropWhile_hd) (simp add: hd_rev)
  show ?thesis
  proof (cases "\<forall>x\<in>set (rev r). P x")
    case True
    then have "dropWhile P (rev r @ rev c) = rev c" "dropWhile P (rev r) = []" using e dropWhile_all[of "rev r" P] by simp_all
    then show ?thesis by (simp add: trim_by_def d)
  next
    case False
    then obtain x where "x \<in> set (rev r)" "\<not> P x" by blast
    then show ?thesis by (simp add: trim_by_def d dropWhile_append1)
  qed
qed

lemma trim_tail_prefix: "\<exists>z. r = rev (dropWhile P (rev r)) @ z"
  by (metis rev_append rev_rev_ident takeWhile_dropWhile_id)

text \<open>Lines the reader passes over outside a table: blank lines, comments and the other statements.\<close>

definition skipped_line :: "string \<Rightarrow> bool" where
  "skipped_line l \<longleftrightarrow> (\<forall>ls s. read_schema (l # ls) None s = read_schema ls None s)"

definition inert_starts :: "string list" where
  "inert_starts = [''-- M'', ''-- R'', ''-- C'', ''-- A'', ''CREATE U'', ''CREATE I'', ''CREATE F'', ''CREATE V'', ''CREATE TR'', ''INSERT'', ''END;'']"

lemma lower_letters: "to_lower_c (CHR ''M'') = CHR ''m''" "to_lower_c (CHR ''R'') = CHR ''r''"
  "to_lower_c (CHR ''C'') = CHR ''c''" "to_lower_c (CHR ''A'') = CHR ''a''"
  by code_simp+

lemma read_inert:
  assumes "trim_space l = p @ r" "p \<in> set inert_starts"
  shows "read_schema (l # ls) None s = read_schema ls None s"
proof -
  have "create_rest (p @ r) = None" using assms(2)
    by (auto simp: inert_starts_def create_rest_def to_upper_def to_upper_c_def is_lower_def Let_def)
  moreover have "re_alter v (p @ r) = None" for v using assms(2)
    by (auto simp: inert_starts_def re_alter_def re_word_def to_upper_def to_upper_c_def is_lower_def take_Cons')
  moreover have "has_prefix (p @ r) ''--'' \<Longrightarrow> to_lower (p @ r) \<noteq> ''-- down''" using assms(2)
    by (auto simp: inert_starts_def to_lower_def lower_letters)
  moreover have "p @ r \<noteq> []" using assms(2) by (auto simp: inert_starts_def)
  ultimately show ?thesis by (simp add: assms(1) Let_def)
qed

lemma skipped_start: "p \<in> set inert_starts \<Longrightarrow> skipped_line (p @ r)"
proof -
  assume p: "p \<in> set inert_starts"
  then have "p \<noteq> [] \<and> \<not> is_space (hd p) \<and> \<not> is_space (last p)" by (auto simp: inert_starts_def is_space_def)
  then have "trim_space (p @ r) = p @ rev (dropWhile is_space (rev r))" by (intro trim_front) auto
  from read_inert[OF this p] show ?thesis by (simp add: skipped_line_def)
qed

lemma skipped_blank: "skipped_line []"
  by (simp add: skipped_line_def trim_by_def Let_def)

lemma skipped_insert: "skipped_line (''  INSERT'' @ r)"
proof -
  have "trim_space (''  INSERT'' @ r) = ''INSERT'' @ rev (dropWhile is_space (rev r))"
    using trim_lead[of "''  ''" is_space "''INSERT'' @ r"] trim_front[of "''INSERT''" is_space r] by (simp add: is_space_def)
  from read_inert[OF this] show ?thesis by (simp add: skipped_line_def inert_starts_def)
qed

lemma read_skipped: "list_all skipped_line ls \<Longrightarrow> read_schema (ls @ rest) None s = read_schema rest None s"
  by (induction ls) (auto simp: skipped_line_def simp del: read_schema.simps)

lemma skipped_index: "skipped_line (index_line ''UNIQUE '' t c)" "skipped_line (index_line [] t c)"
  using skipped_start[of "''CREATE U''"] skipped_start[of "''CREATE I''"]
  by (simp_all add: index_line_def inert_starts_def)

lemma skipped_fts: "list_all skipped_line (fts_up t pk f d)"
  using skipped_start[of "''CREATE I''"] skipped_start[of "''CREATE F''"] skipped_start[of "''CREATE V''"]
    skipped_start[of "''CREATE TR''"] skipped_start[of "''-- A''"] skipped_insert skipped_start[of "''END;''" "[]"] skipped_blank
  by (simp add: fts_up_def inert_starts_def Let_def)

lemma read_create: "plain_name t \<Longrightarrow>
  read_schema ((''CREATE TABLE IF NOT EXISTS '' @ t @ '' ('') # ls) None s = read_schema ls (Some t) (ensure_table t s)"
proof -
  assume t: "plain_name t"
  let ?l = "''CREATE TABLE IF NOT EXISTS '' @ t @ '' (''"
  have tr: "trim_space ?l = ?l" by (intro trim_by_id) (simp add: is_space_def)
  have c: "create_rest ?l = Some (t @ '' ('')"
    by (simp add: create_rest_def to_upper_def to_upper_c_def is_lower_def Let_def)
  have ns: "\<forall>x\<in>set t. \<not> name_separator x" using plain_nameD(3)[OF t] ident_char_plain by blast
  have "dropWhile name_separator (t @ '' ('') = t @ '' (''"
    using plain_nameD(1,5)[OF t] ns by (intro dropWhile_hd) auto
  moreover have "takeWhile (\<lambda>c. \<not> name_separator c) (t @ '' ('') = t" using ns by (simp add: name_separator_def)
  ultimately have "first_name (t @ '' ('') = t" by (simp add: first_name_def)
  then show ?thesis using c tr plain_nameD(1,4)[OF t] by (simp add: Let_def)
qed

lemma column_line:
  assumes c: "plain_name c"
  shows "trim_space (''    '' @ pad20 c @ '' '' @ r) \<noteq> [] \<and> \<not> has_prefix (trim_space (''    '' @ pad20 c @ '' '' @ r)) ''--'' \<and>
    \<not> has_prefix (trim_space (''    '' @ pad20 c @ '' '' @ r)) '')'' \<and> column_name (trim_space (''    '' @ pad20 c @ '' '' @ r)) = c"
proof -
  note d = plain_nameD[OF c]
  have ns: "\<forall>x\<in>set c. \<not> is_space x" using d(3) ident_char_plain by blast
  let ?r = "replicate (20 - length c) (CHR '' '') @ '' '' @ r"
  have tr: "trim_space (''    '' @ pad20 c @ '' '' @ r) = c @ rev (dropWhile is_space (rev ?r))"
  proof -
    have "\<forall>x\<in>set ''    ''. is_space x" by (simp add: is_space_def)
    then have 1: "trim_space (''    '' @ x) = trim_space x" for x by (rule trim_lead)
    have 2: "pad20 c @ '' '' @ r = c @ ?r" by (simp add: pad20_def)
    have "trim_space (c @ ?r) = c @ rev (dropWhile is_space (rev ?r))"
      by (rule trim_front) (use d(1,5,6) ns in blast)+
    then show ?thesis unfolding 1 2 .
  qed
  obtain z where z: "?r = rev (dropWhile is_space (rev ?r)) @ z" using trim_tail_prefix by blast
  have sp: "?r = CHR '' '' # tl ?r" by (cases "20 - length c") simp_all
  have hd_r: "u = [] \<or> is_space (hd u)" if "?r = u @ z" for u
    using that by (cases u; cases "20 - length c") (auto simp: is_space_def)
  have tw: "takeWhile (\<lambda>c. \<not> is_space c) (c @ u) = c" if "u = [] \<or> is_space (hd u)" for u
    using that ns by (cases u) auto
  note tw = tw[OF hd_r[OF z]]
  have tb: "trim_by (\<lambda>c. c = CHR 0x22 \<or> c = CHR '','') c = c"
    using d(3,5,6) ident_char_plain by (intro trim_by_id) blast
  have nm: "column_name (c @ rev (dropWhile is_space (rev ?r))) = c" unfolding column_name_def tw tb d(4) ..
  have h: "hd (c @ x) \<notin> {CHR ''-'', CHR '')''}" for x using d(1,3,5) ident_char_plain[of "hd c"] by auto
  then have "\<not> has_prefix (c @ x) ''--''" "\<not> has_prefix (c @ x) '')''" for x using d(1) by (cases c; force)+
  then show ?thesis using d(1) unfolding tr nm by simp
qed

lemma read_column: "plain_name c \<Longrightarrow> to_upper c \<notin> set constraint_keywords \<Longrightarrow>
  read_schema ((''    '' @ pad20 c @ '' '' @ r) # ls) (Some t) s = read_schema ls (Some t) (add_column t c s)"
  using column_line[of c r] plain_nameD(1)[of c] unfolding read_schema.simps Let_def by (auto split: if_splits)

lemma read_keyword: "plain_name c \<Longrightarrow> to_upper c \<in> set constraint_keywords \<Longrightarrow>
  read_schema ((''    '' @ pad20 c @ '' '' @ r) # ls) (Some t) s = read_schema ls (Some t) s"
  using column_line[of c r] unfolding read_schema.simps Let_def by (auto split: if_splits)

lemma read_close: "read_schema ('');'' # ls) (Some t) s = read_schema ls None s"
proof -
  have "trim_space '');'' = '');''" by (intro trim_by_id) (simp add: is_space_def)
  then show ?thesis by (simp add: Let_def)
qed

lemma re_alter_add: "plain_name t \<Longrightarrow> plain_name c \<Longrightarrow>
  re_alter ''ADD'' (''ALTER TABLE '' @ t @ '' ADD COLUMN '' @ c @ '' '' @ r) = Some (t, c)"
proof -
  assume t: "plain_name t" and c: "plain_name c"
  note dt = plain_nameD[OF t] and dc = plain_nameD[OF c]
  let ?P = "\<lambda>c. ident_char c \<or> c = CHR ''.''"
  have up: "to_upper ''ALTER'' = ''ALTER''" "to_upper ''TABLE'' = ''TABLE''" "to_upper ''ADD'' = ''ADD''" "to_upper ''COLUMN'' = ''COLUMN''"
    by code_simp+
  have sp: "re_space (CHR '' '')" "\<not> re_space (CHR ''T'')" "\<not> re_space (CHR ''A'')" "\<not> re_space (CHR ''C'')" by (simp_all add: re_space_def)
  have hd: "\<exists>x xs. t = x # xs \<and> \<not> re_space x \<and> x \<noteq> CHR 0x22 \<and> ident_start x" if "plain_name t" for t
    using plain_nameD[OF that] ident_char_plain by (cases t) auto
  obtain x xs where x: "t = x # xs" "\<not> re_space x" "x \<noteq> CHR 0x22" "ident_start x" using hd[OF t] by blast
  obtain y ys where y: "c = y # ys" "\<not> re_space y" "y \<noteq> CHR 0x22" "ident_start y" using hd[OF c] by blast
  have ne: "\<not> ident_char (CHR '' '')" by (auto simp: ident_char_def ident_start_def is_upper_def is_lower_def is_digit_def)
  have tk: "takeWhile ?P (t @ CHR '' '' # z) = t \<and> dropWhile ?P (t @ CHR '' '' # z) = CHR '' '' # z" for z
    using dt(3) ne by (intro takeWhile_all) auto
  have ck: "takeWhile ident_char (c @ CHR '' '' # z) = c \<and> dropWhile ident_char (c @ CHR '' '' # z) = CHR '' '' # z" for z
    using dc(3) ne by (intro takeWhile_all) auto
  have w1: "re_word w (w @ z) = Some z" if "to_upper w = w" for w z using that by (simp add: re_word_def)
  have s1: "re_spaces (CHR '' '' # z) = Some z" if "z \<noteq> [] \<and> \<not> re_space (hd z)" for z
    using that sp by (cases z) (auto simp: re_spaces_def)
  have a: "Option.bind (Option.bind (Option.bind (re_word ''ALTER'' (''ALTER'' @ CHR '' '' # ''TABLE'' @ CHR '' '' # t @ z)) re_spaces) (re_word ''TABLE'')) re_spaces = Some (t @ z)" for z
    using w1[OF up(1)] w1[OF up(2)] s1[of "''TABLE'' @ CHR '' '' # t @ z"] s1[of "t @ z"] sp x by simp
  have b: "Option.bind (Option.bind (re_spaces (CHR '' '' # ''ADD'' @ CHR '' '' # ''COLUMN'' @ CHR '' '' # c @ z)) (re_word ''ADD'')) re_spaces =
      Some (''COLUMN'' @ CHR '' '' # c @ z)" for z
    using w1[OF up(3)] s1[of "''ADD'' @ CHR '' '' # ''COLUMN'' @ CHR '' '' # c @ z"] s1[of "''COLUMN'' @ CHR '' '' # c @ z"] sp by simp
  have d: "Option.bind (re_word ''COLUMN'' (''COLUMN'' @ CHR '' '' # c @ z)) re_spaces = Some (c @ z)" for z
    using w1[OF up(4)] s1[of "c @ z"] y by simp
  have q: "re_quote (t @ z) = t @ z" "re_quote (c @ z) = c @ z" "re_quote (CHR '' '' # z) = CHR '' '' # z" for z
    using x y by (simp_all add: re_quote_def)
  have n: "re_name ?P (t @ CHR '' '' # z) = Some (t, CHR '' '' # z)" "re_name ident_char (c @ CHR '' '' # z) = Some (c, CHR '' '' # z)" for z
    using tk ck x y by (auto simp: re_name_def)
  have e: "''ALTER TABLE '' @ t @ '' ADD COLUMN '' @ c @ '' '' @ r =
      ''ALTER'' @ CHR '' '' # ''TABLE'' @ CHR '' '' # t @ CHR '' '' # ''ADD'' @ CHR '' '' # ''COLUMN'' @ CHR '' '' # c @ CHR '' '' # r" by simp
  show ?thesis unfolding re_alter_def e a option.case q n prod.case b d by simp
qed

lemma read_add:
  assumes "plain_name t" "plain_name c"
  shows "read_schema ((''ALTER TABLE '' @ t @ '' ADD COLUMN '' @ c @ '' '' @ r @ '';'') # ls) None s = read_schema ls None (add_column t c s)"
proof -
  let ?l = "''ALTER TABLE '' @ t @ '' ADD COLUMN '' @ c @ '' '' @ r @ '';''"
  have tr: "trim_space ?l = ?l" by (intro trim_by_id) (simp add: is_space_def)
  have n: "create_rest ?l = None" by (simp add: create_rest_def to_upper_def to_upper_c_def is_lower_def Let_def)
  have d: "has_prefix ?l ''--'' = False" "(?l = []) = False" by simp_all
  note a = re_alter_add[OF assms, of "r @ '';''"]
  show ?thesis unfolding read_schema.simps tr Let_def d n a option.case prod.case if_False plain_nameD(4)[OF assms(1)] plain_nameD(4)[OF assms(2)] ..
qed

definition field_ok :: "mig_field \<Rightarrow> bool" where
  "field_ok f \<longleftrightarrow> plain_name (mf_column f) \<and> to_upper (mf_column f) \<notin> set constraint_keywords \<and> CHR 0x0A \<notin> set (mf_fk f)"

definition model_ok :: "mig_model \<Rightarrow> bool" where
  "model_ok m \<longleftrightarrow> plain_name (mm_table m) \<and> list_all field_ok (mm_fields m)"

text \<open>What the reader makes of the statements for a model and for an alteration.\<close>

definition add_columns :: "string \<Rightarrow> mig_field list \<Rightarrow> schema \<Rightarrow> schema" where
  "add_columns t fs s = fold (\<lambda>f. add_column t (mf_column f)) fs s"

definition model_schema :: "mig_model \<Rightarrow> schema \<Rightarrow> schema" where
  "model_schema m s = add_columns (mm_table m) (mm_fields m) (ensure_table (mm_table m) s)"

definition alter_schema :: "mig_alter \<Rightarrow> schema \<Rightarrow> schema" where
  "alter_schema a s = add_columns (ma_table a) (ma_add a) s"

lemma read_columns: "list_all field_ok fs \<Longrightarrow>
  read_schema (column_lines pg fs @ rest) (Some t) s = read_schema rest (Some t) (add_columns t fs s)"
proof (induction fs arbitrary: s)
  case (Cons f fs)
  then have f: "plain_name (mf_column f)" "to_upper (mf_column f) \<notin> set constraint_keywords" by (simp_all add: field_ok_def)
  show ?case
    using Cons read_column[OF f, of "mig_sql_type f pg @ mig_constraints f pg @ (if fs = [] then [] else '','')" "column_lines pg fs @ rest" t s]
    by (simp add: add_columns_def del: read_schema.simps)
qed (simp add: add_columns_def del: read_schema.simps)

lemma skipped_concat: "(\<And>x. x \<in> set xs \<Longrightarrow> list_all skipped_line (f x)) \<Longrightarrow> list_all skipped_line (concat (map f xs))"
  by (induction xs) auto

lemma skipped_extras: "list_all skipped_line (field_extras d m f)"
  by (simp add: field_extras_def skipped_index skipped_fts skipped_blank)

lemma read_model: "model_ok m \<Longrightarrow> read_schema (model_lines d m @ rest) None s = read_schema rest None (model_schema m s)"
proof -
  assume m: "model_ok m"
  have x: "list_all skipped_line (concat (map (field_extras d m) (mm_fields m)))" by (rule skipped_concat[OF skipped_extras])
  show ?thesis
    unfolding model_lines_def append_Cons append_assoc
    using m by (simp add: model_ok_def read_create[unfolded append_Cons append_Nil] read_columns read_close read_skipped[OF x] model_schema_def
        del: read_schema.simps)
qed

lemma read_models: "list_all model_ok ms \<Longrightarrow>
  read_schema (models_lines d ms @ rest) None s = read_schema rest None (fold model_schema ms s)"
proof (induction d ms arbitrary: s rule: models_lines.induct)
  case (3 d m m' ms)
  have "skipped_line []" by (rule skipped_blank)
  with 3 show ?case by (simp add: read_model skipped_line_def del: read_schema.simps)
qed (simp_all add: read_model del: read_schema.simps)

lemma read_adds: "plain_name (ma_table a) \<Longrightarrow> list_all field_ok fs \<Longrightarrow>
  read_schema (concat (map (add_lines d a) fs) @ rest) None s = read_schema rest None (add_columns (ma_table a) fs s)"
proof (induction fs arbitrary: s)
  case (Cons f fs)
  have x: "list_all skipped_line ((if mf_unique f then [index_line ''UNIQUE '' (ma_table a) (mf_column f)]
      else if mf_fk f \<noteq> [] then [index_line [] (ma_table a) (mf_column f)] else []) @
     (if mf_fts f then fts_up (ma_table a) (ma_pk a) f d else []))" by (simp add: skipped_index skipped_fts)
  have f: "plain_name (mf_column f)" using Cons.prems by (simp add: field_ok_def)
  let ?r = "mig_sql_type f (is_postgres d) @ mig_alter_constraints f (is_postgres d)"
  show ?case
    using Cons read_add[OF Cons.prems(1) f, of ?r] read_skipped[OF x]
    by (simp add: add_lines_def add_columns_def del: read_schema.simps)
qed (simp add: add_columns_def del: read_schema.simps)

definition alter_ok :: "mig_alter \<Rightarrow> bool" where
  "alter_ok a \<longleftrightarrow> plain_name (ma_table a) \<and> list_all field_ok (ma_add a)"

lemma read_alter: "alter_ok a \<Longrightarrow> read_schema (alter_lines d a @ rest) None s = read_schema rest None (alter_schema a s)"
proof -
  assume a: "alter_ok a"
  have c: "skipped_line (''-- C'' @ r)" "skipped_line (''-- A'' @ r)" for r
    using skipped_start[of "''-- C''"] skipped_start[of "''-- A''"] by (simp_all add: inert_starts_def)
  have rem: "list_all skipped_line (if ma_removed a \<noteq> [] then
        [[], ''-- AVISO: colunas presentes nas migrations mas ausentes do model '' @ quoted (ma_table a) @ ''.'',
         ''-- A remo'' @ [CHR 0xC3, CHR 0xA7, CHR 0xC3, CHR 0xA3] @ ''o N'' @ [CHR 0xC3, CHR 0x83] @ ''O '' @ [CHR 0xC3, CHR 0xA9] @
           '' gerada automaticamente (perda de dados) '' @ [CHR 0xE2, CHR 0x80, CHR 0x94] @ '' descomente para aplicar:''] @
        map (\<lambda>c. ''-- ALTER TABLE '' @ ma_table a @ '' DROP COLUMN '' @ c @ '';'') (ma_removed a) else [])"
    using c[simplified] by (auto simp: skipped_blank list_all_iff)
  have hd: "list_all skipped_line [[], ''-- Colunas novas em '' @ ma_table a]" using c[simplified] by (simp add: skipped_blank)
  show ?thesis
    unfolding alter_lines_def append_assoc
    using a read_skipped[OF hd] by (simp add: alter_ok_def read_adds read_skipped[OF rem] alter_schema_def add_columns_def del: read_schema.simps)
qed

lemma read_alters: "list_all alter_ok as \<Longrightarrow>
  read_schema (concat (map (alter_lines d) as) @ rest) None s = read_schema rest None (fold alter_schema as s)"
  by (induction as arbitrary: s) (simp_all add: read_alter del: read_schema.simps)

lemma read_up: "list_all model_ok ms \<Longrightarrow> list_all alter_ok as \<Longrightarrow>
  read_schema (up_lines ms as d @ ''-- down'' # rest) None s = fold alter_schema as (fold model_schema ms s)"
proof -
  assume a: "list_all model_ok ms" "list_all alter_ok as"
  have h: "list_all skipped_line header_lines"
    using skipped_start[of "''-- M''"] skipped_start[of "''-- R''"] by (simp add: header_lines_def inert_starts_def skipped_blank)
  have b: "skipped_line []" by (rule skipped_blank)
  have "trim_space ''-- down'' = ''-- down''" by (intro trim_by_id) (simp add: is_space_def)
  moreover have "to_lower ''-- down'' = ''-- down''" by code_simp
  ultimately have e: "read_schema (''-- down'' # rest) None s' = s'" for s' by (simp add: Let_def)
  show ?thesis
    using a b e by (simp add: up_lines_def read_skipped[OF h] read_models read_alters skipped_line_def del: read_schema.simps)
qed

subsection \<open>The text and its lines\<close>

definition one_line :: "string \<Rightarrow> bool" where
  "one_line l \<longleftrightarrow> CHR 0x0A \<notin> set l"

lemma one_line_append [simp]: "one_line (a @ b) \<longleftrightarrow> one_line a \<and> one_line b"
  by (auto simp: one_line_def)

lemma one_line_Cons [simp]: "one_line (c # cs) \<longleftrightarrow> c \<noteq> CHR 0x0A \<and> one_line cs" "one_line []"
  by (auto simp: one_line_def)

lemma split_text: "list_all one_line ls \<Longrightarrow> split_chr (CHR 0x0A) (text_of (ls @ rest)) = ls @ split_chr (CHR 0x0A) (text_of rest)"
  by (induction ls) (auto simp: text_of_def one_line_def split_chr_append)

lemma one_line_plain: "plain_name n \<Longrightarrow> one_line n"
  using plain_nameD(3) ident_char_plain by (fastforce simp: one_line_def)

lemma one_line_join: "one_line sep \<Longrightarrow> list_all one_line xs \<Longrightarrow> one_line (join sep xs)"
  by (induction sep xs rule: join.induct) auto

lemma one_line_spaced: "list_all one_line xs \<Longrightarrow> one_line (spaced xs)"
  by (simp add: spaced_def one_line_join)

lemma one_line_default: "one_line (mig_default t pg)"
  by (simp add: mig_default_def)

lemma one_line_itoa: "one_line (itoa n)"
proof -
  have "one_line (utoa m)" for m using utoa_digits[of m] by (auto simp: one_line_def list_all_iff is_digit_def)
  then show ?thesis by (simp add: itoa_def)
qed

lemma one_line_type: "one_line (mig_sql_type f pg)"
  by (simp add: mig_sql_type_def one_line_itoa)

lemma one_line_not_null: "list_all one_line (not_null_parts f pg)"
  using one_line_default by (simp add: not_null_parts_def Let_def)

lemma one_line_fk: "one_line (mf_fk f) \<Longrightarrow> list_all one_line (fk_parts f)"
  by (simp add: fk_parts_def)

lemma one_line_constraints:
  "one_line (mf_fk f) \<Longrightarrow> one_line (mig_constraints f pg)" "one_line (mf_fk f) \<Longrightarrow> one_line (mig_alter_constraints f pg)"
  using one_line_not_null one_line_fk by (simp_all add: mig_constraints_def mig_alter_constraints_def one_line_spaced)

lemma one_line_replicate: "one_line (replicate n (CHR '' ''))"
  by (simp add: one_line_def)

lemma lines_columns: "list_all field_ok fs \<Longrightarrow> list_all one_line (column_lines pg fs)"
  by (induction fs) (auto simp: field_ok_def one_line_plain pad20_def one_line_type one_line_constraints one_line_replicate
      one_line_def[of "mf_fk f" for f, symmetric])

lemma lines_fts: "one_line t \<Longrightarrow> one_line p \<Longrightarrow> one_line (mf_column f) \<Longrightarrow> one_line d \<Longrightarrow> list_all one_line (fts_up t p f d)"
  by (simp add: fts_up_def shadow_table_def quoted_def Let_def)

lemma lines_concat: "(\<And>x. x \<in> set xs \<Longrightarrow> list_all P (f x)) \<Longrightarrow> list_all P (concat (map f xs))"
  by (induction xs) auto

lemma one_line_pk: "list_all field_ok fs \<Longrightarrow> one_line (mig_pk_of fs)"
  by (induction fs) (auto simp: field_ok_def one_line_plain)

lemma lines_model: "model_ok m \<Longrightarrow> one_line d \<Longrightarrow> list_all one_line (model_lines d m)"
proof -
  assume m: "model_ok m" and d: "one_line d"
  then have t: "one_line (mm_table m)" and pk: "one_line (mig_pk_column m)"
    by (simp_all add: model_ok_def one_line_plain mig_pk_column_def one_line_pk)
  have "list_all one_line (field_extras d m f)" if "f \<in> set (mm_fields m)" for f
  proof -
    from that m have "one_line (mf_column f)" by (auto simp: model_ok_def list_all_iff field_ok_def one_line_plain)
    then show ?thesis using t pk d by (simp add: field_extras_def index_line_def lines_fts)
  qed
  then show ?thesis using m t by (simp add: model_lines_def lines_columns model_ok_def lines_concat)
qed

lemma lines_models: "list_all model_ok ms \<Longrightarrow> one_line d \<Longrightarrow> list_all one_line (models_lines d ms)"
  by (induction d ms rule: models_lines.induct) (simp_all add: lines_model)

lemma lines_alter:
  assumes "alter_ok a" "one_line d" "one_line (ma_pk a)" "list_all one_line (ma_removed a)"
  shows "list_all one_line (alter_lines d a)"
proof -
  have t: "one_line (ma_table a)" using assms(1) by (simp add: alter_ok_def one_line_plain)
  have "list_all one_line (add_lines d a f)" if "f \<in> set (ma_add a)" for f
  proof -
    from that assms(1) have "one_line (mf_column f)" "one_line (mf_fk f)"
      by (auto simp: alter_ok_def list_all_iff field_ok_def one_line_plain one_line_def[of "mf_fk f"])
    then show ?thesis using t assms by (simp add: add_lines_def index_line_def lines_fts one_line_type one_line_constraints)
  qed
  then show ?thesis using t assms(4) by (auto simp: alter_lines_def lines_concat quoted_def list_all_iff)
qed

lemma lines_header: "list_all one_line header_lines"
  by (simp add: header_lines_def)

text \<open>Column names the reader stores hold no line break.\<close>

definition schema_clean :: "schema \<Rightarrow> bool" where
  "schema_clean s \<longleftrightarrow> (\<forall>t cs. map_of s t = Some cs \<longrightarrow> list_all one_line cs)"

lemma clean_add: "schema_clean s \<Longrightarrow> one_line c \<Longrightarrow> schema_clean (add_column t c s)"
  by (cases "map_of s t") (auto simp: schema_clean_def add_column_def columns_of_def list_all_iff)

lemma clean_ensure: "schema_clean s \<Longrightarrow> schema_clean (ensure_table t s)"
  by (auto simp: schema_clean_def ensure_table_def)

lemma clean_drop: "schema_clean s \<Longrightarrow> schema_clean (drop_column t c s)"
  by (auto simp: schema_clean_def drop_column_def list_all_iff split: option.splits)

lemma one_line_lower: "one_line (to_lower s) = one_line s"
proof -
  have "to_lower_c c = CHR 0x0A \<longleftrightarrow> c = CHR 0x0A" for c
    by (cases "is_upper c") (auto simp: to_lower_c_def is_upper_def dest: arg_cong[of _ _ "of_char :: char \<Rightarrow> nat"])
  then show ?thesis unfolding one_line_def to_lower_def set_map image_iff by metis
qed

lemma one_line_column_name: "one_line (column_name s)"
proof -
  have "one_line (takeWhile (\<lambda>c. \<not> is_space c) s)" by (auto simp: one_line_def is_space_def dest: set_takeWhileD)
  then have "one_line (trim_by P (takeWhile (\<lambda>c. \<not> is_space c) s))" for P
    using set_trim_by[of P "takeWhile (\<lambda>c. \<not> is_space c) s"] by (auto simp: one_line_def)
  then show ?thesis by (simp add: column_name_def one_line_lower)
qed

lemma re_alter_one_line: "re_alter v s = Some (t, c) \<Longrightarrow> one_line c"
proof -
  have n: "re_name ident_char x = Some r \<Longrightarrow> one_line (fst r)" for x r
    using ident_char_plain by (fastforce simp: re_name_def one_line_def dest: set_takeWhileD split: if_splits)
  assume "re_alter v s = Some (t, c)"
  then show ?thesis using n by (auto simp: re_alter_def split: option.splits)
qed

lemma clean_read: "schema_clean s \<Longrightarrow> schema_clean (read_schema ls t s)"
proof (induction ls arbitrary: t s)
  case (Cons l ls)
  let ?tr = "trim_space l"
  have a: "re_alter v ?tr = Some (t, c) \<Longrightarrow> one_line (to_lower c)" for v t c
    using re_alter_one_line by (simp add: one_line_lower)
  show ?case
    unfolding read_schema.simps Let_def
    by (auto simp: Cons clean_add clean_ensure clean_drop one_line_column_name a split: option.split)
qed simp

lemma clean_dir: "schema_clean (schema_in_dir files)"
proof -
  have "schema_clean s \<Longrightarrow> schema_clean (fold (\<lambda>content s. read_schema (split_chr (CHR 0x0A) content) None s) files s)" for s
    by (induction files arbitrary: s) (simp_all add: clean_read)
  moreover have "schema_clean []" by (simp add: schema_clean_def)
  ultimately show ?thesis unfolding schema_in_dir_def by blast
qed

subsection \<open>Generation settles\<close>

definition covers :: "schema \<Rightarrow> mig_model \<Rightarrow> bool" where
  "covers s m \<longleftrightarrow> map_of s (mm_table m) \<noteq> None \<and>
     (\<forall>f\<in>set (mm_fields m). \<not> mf_pk f \<longrightarrow> mf_column f \<in> set (columns_of s (mm_table m)))"

lemma grows_add: "map_of s t \<noteq> None \<Longrightarrow> map_of (add_column t' c s) t \<noteq> None \<and> set (columns_of s t) \<subseteq> set (columns_of (add_column t' c s) t)"
  by (cases "t = t'") (auto simp: add_column_def columns_of_def)

lemma grows_adds: "map_of s t \<noteq> None \<Longrightarrow> map_of (add_columns t' fs s) t \<noteq> None \<and> set (columns_of s t) \<subseteq> set (columns_of (add_columns t' fs s) t)"
proof (induction fs arbitrary: s)
  case (Cons f fs)
  from grows_add[OF Cons.prems, of t' "mf_column f"] Cons.IH[of "add_column t' (mf_column f) s"]
  show ?case by (auto simp: add_columns_def)
qed (simp add: add_columns_def)

lemma grows_ensure: "map_of s t \<noteq> None \<Longrightarrow> map_of (ensure_table t' s) t \<noteq> None \<and> columns_of (ensure_table t' s) t = columns_of s t"
  by (auto simp: ensure_table_def columns_of_def)

lemma covers_mono:
  assumes "covers s m" shows "covers (model_schema m' s) m" "covers (alter_schema a s) m"
  using assms grows_ensure[of s "mm_table m" "mm_table m'"] grows_adds[of "ensure_table (mm_table m') s" "mm_table m" "mm_table m'" "mm_fields m'"]
    grows_adds[of s "mm_table m" "ma_table a" "ma_add a"]
  by (auto simp: covers_def model_schema_def alter_schema_def)

lemma added_columns: "map_of s t \<noteq> None \<Longrightarrow> mf_column ` set fs \<subseteq> set (columns_of (add_columns t fs s) t)"
proof (induction fs arbitrary: s)
  case (Cons f fs)
  let ?s = "add_column t (mf_column f) s"
  have g: "map_of ?s t \<noteq> None" "mf_column f \<in> set (columns_of ?s t)" by (simp_all add: add_column_def columns_of_def)
  with Cons.IH[OF g(1)] grows_adds[OF g(1), of t fs] show ?case by (auto simp: add_columns_def)
qed (simp add: add_columns_def)

lemma covers_own: "covers (model_schema m s) m"
proof -
  have e: "map_of (ensure_table (mm_table m) s) (mm_table m) \<noteq> None" by (auto simp: ensure_table_def)
  from added_columns[OF e, of "mm_fields m"] grows_adds[OF e, of "mm_table m" "mm_fields m"]
  show ?thesis by (auto simp: covers_def model_schema_def)
qed

lemma covers_fold: "covers s m \<Longrightarrow> covers (fold alter_schema as (fold model_schema ms s)) m"
proof -
  have "covers s m \<Longrightarrow> covers (fold model_schema ms s) m" for s by (induction ms arbitrary: s) (simp_all add: covers_mono)
  moreover have "covers s m \<Longrightarrow> covers (fold alter_schema as s) m" for s by (induction as arbitrary: s) (simp_all add: covers_mono)
  ultimately show "covers s m \<Longrightarrow> ?thesis" by blast
qed

lemma covers_pending: "m \<in> set ms \<Longrightarrow> covers (fold alter_schema as (fold model_schema ms s)) m"
proof -
  have a: "covers s m \<Longrightarrow> covers (fold alter_schema as s) m" for s by (induction as arbitrary: s) (simp_all add: covers_mono)
  have b: "covers s m \<Longrightarrow> covers (fold model_schema ms s) m" for ms s by (induction ms arbitrary: s) (simp_all add: covers_mono)
  have "m \<in> set ms \<Longrightarrow> covers (fold model_schema ms s) m" for s
    by (induction ms arbitrary: s) (auto simp: covers_own b)
  with a show "m \<in> set ms \<Longrightarrow> ?thesis" by blast
qed

text \<open>An alteration that holds the columns a known table lacks makes the schema cover the model.\<close>

definition completes :: "schema \<Rightarrow> mig_alter \<Rightarrow> mig_model \<Rightarrow> bool" where
  "completes s a m \<longleftrightarrow> ma_table a = mm_table m \<and> map_of s (mm_table m) \<noteq> None \<and>
     (\<forall>f\<in>set (mm_fields m). \<not> mf_pk f \<longrightarrow> mf_column f \<in> set (columns_of s (mm_table m)) \<or> f \<in> set (ma_add a))"

lemma completes_mono: "completes s a m \<Longrightarrow> completes (model_schema m' s) a m" "completes s a m \<Longrightarrow> completes (alter_schema a' s) a m"
  using grows_ensure[of s "mm_table m" "mm_table m'"] grows_adds[of "ensure_table (mm_table m') s" "mm_table m" "mm_table m'" "mm_fields m'"]
    grows_adds[of s "mm_table m" "ma_table a'" "ma_add a'"]
  by (fastforce simp: completes_def model_schema_def alter_schema_def)+

lemma completes_covers: "completes s a m \<Longrightarrow> covers (alter_schema a s) m"
proof -
  assume c: "completes s a m"
  then have k: "map_of s (ma_table a) \<noteq> None" by (simp add: completes_def)
  from c added_columns[OF k, of "ma_add a"] grows_adds[OF k, of "ma_table a" "ma_add a"]
  show ?thesis by (fastforce simp: covers_def completes_def alter_schema_def)
qed

lemma covers_alters: "a \<in> set as \<Longrightarrow> completes s a m \<Longrightarrow> covers (fold alter_schema as (fold model_schema ms s)) m"
proof -
  have f: "covers s m \<Longrightarrow> covers (fold alter_schema as s) m" for as s by (induction as arbitrary: s) (simp_all add: covers_mono)
  have g: "a \<in> set as \<Longrightarrow> completes s a m \<Longrightarrow> covers (fold alter_schema as s) m" for s
    by (induction as arbitrary: s) (auto simp: completes_covers completes_mono f)
  have "completes s a m \<Longrightarrow> completes (fold model_schema ms s) a m" for s by (induction ms arbitrary: s) (simp_all add: completes_mono)
  with g show "a \<in> set as \<Longrightarrow> completes s a m \<Longrightarrow> ?thesis" by blast
qed

lemma plan_outcome: "mig_plan s ms = (p, as) \<Longrightarrow>
  set p \<subseteq> set ms \<and>
  (\<forall>a\<in>set as. \<exists>m cs. m \<in> set ms \<and> map_of s (mm_table m) = Some cs \<and> mig_diff_model m cs = Some a) \<and>
  (\<forall>m\<in>set ms. m \<in> set p \<or> covers s m \<or> (\<exists>a\<in>set as. completes s a m))"
proof (induction ms arbitrary: p as)
  case (Cons m ms)
  obtain p' as' where r: "mig_plan s ms = (p', as')" by fastforce
  note ih = Cons.IH[OF r]
  show ?case
  proof (cases "map_of s (mm_table m)")
    case None
    with Cons.prems r have "p = m # p'" "as = as'" by simp_all
    with ih show ?thesis by simp blast
  next
    case (Some cs)
    note k = Some
    show ?thesis
    proof (cases "mig_diff_model m cs")
      case None
      with Cons.prems r k have e: "p = p'" "as = as'" by simp_all
      from None k have "covers s m" by (auto simp: mig_diff_model_def covers_def columns_of_def filter_empty_conv Let_def split: if_splits)
      with ih e show ?thesis by simp blast
    next
      case (Some a)
      with Cons.prems r k have e: "p = p'" "as = a # as'" by simp_all
      from Some k have "completes s a m" by (auto simp: mig_diff_model_def completes_def columns_of_def Let_def split: if_splits)
      with ih e Some k show ?thesis by simp blast
    qed
  qed
qed simp

lemma plan_covered: "\<forall>m\<in>set ms. covers s m \<Longrightarrow> fst (mig_plan s ms) = [] \<and> \<not> has_adds (snd (mig_plan s ms))"
proof (induction ms)
  case (Cons m ms)
  obtain p as where r: "mig_plan s ms = (p, as)" by fastforce
  from Cons.prems obtain cs where cs: "map_of s (mm_table m) = Some cs" "\<forall>f\<in>set (mm_fields m). \<not> mf_pk f \<longrightarrow> mf_column f \<in> set cs"
    by (auto simp: covers_def columns_of_def)
  then have "filter (\<lambda>f. mf_column f \<notin> set cs \<and> \<not> mf_pk f) (mm_fields m) = []" by (auto simp: filter_empty_conv)
  then have "\<forall>a. mig_diff_model m cs = Some a \<longrightarrow> ma_add a = []" by (auto simp: mig_diff_model_def Let_def split: if_splits)
  with Cons r cs show ?case by (auto simp: has_adds_def split: option.split)
qed (simp add: has_adds_def)

lemma diff_fields: "mig_diff_model m cs = Some a \<Longrightarrow> ma_table a = mm_table m \<and> ma_pk a = mig_pk_column m \<and>
  set (ma_add a) \<subseteq> set (mm_fields m) \<and> set (ma_removed a) \<subseteq> set cs"
  by (auto simp: mig_diff_model_def Let_def split: if_splits)

lemma plan_lines:
  assumes "list_all model_ok models" and "one_line driver" and "mig_plan (schema_in_dir files) models = (pending, alters)"
  shows "list_all model_ok pending" "list_all alter_ok alters" "list_all one_line (up_lines pending alters driver)"
proof -
  note o = plan_outcome[OF assms(3)]
  show p: "list_all model_ok pending" using o assms(1) by (auto simp: list_all_iff)
  have a: "alter_ok a \<and> one_line (ma_pk a) \<and> list_all one_line (ma_removed a)" if "a \<in> set alters" for a
  proof -
    from that o obtain m cs where m: "m \<in> set models" "map_of (schema_in_dir files) (mm_table m) = Some cs" "mig_diff_model m cs = Some a"
      by blast
    from m(1) assms(1) have ok: "model_ok m" by (simp add: list_all_iff)
    have "list_all one_line cs" using clean_dir[of files] m(2) by (simp add: schema_clean_def)
    with diff_fields[OF m(3)] ok show ?thesis
      by (auto simp: alter_ok_def model_ok_def list_all_iff mig_pk_column_def intro!: one_line_pk)
  qed
  then show "list_all alter_ok alters" by (simp add: list_all_iff)
  show "list_all one_line (up_lines pending alters driver)"
    using p assms(2) a by (auto simp: up_lines_def lines_header lines_models intro!: lines_concat lines_alter)
qed


definition sample_model :: mig_model where
  "sample_model =
     \<lparr>mm_name = ''Post'', mm_table = ''posts'',
      mm_fields = [mig_build_field ''ID'' ''int64'' ''pk'' True, mig_build_field ''UserID'' ''int64'' ''fk:users'' True,
                   mig_build_field ''Body'' ''string'' ''fts'' False]\<rparr>"


text \<open>
  A column that is called like a constraint keyword never settles: the reader takes its line in the
  table's own \<open>CREATE TABLE\<close> for a constraint, so that for a table just created \<open>makemigrations\<close> at once
  generates an \<open>ADD COLUMN\<close> for a column the table has.
\<close>

theorem keyword_column_readded:
  assumes "plain_name t" and "field_ok g" and "mf_pk g" and "plain_name (mf_column f)"
    and "to_upper (mf_column f) \<in> set constraint_keywords" and "\<not> mf_pk f" and "CHR 0x0A \<notin> set (mf_fk f)" and "CHR 0x0A \<notin> set driver"
    and "m = \<lparr>mm_name = n, mm_table = t, mm_fields = [g, f]\<rparr>"
  shows "\<exists>a. mig_plan (schema_in_dir [mig_generate_sql [m] [] driver]) [m] = ([], [a]) \<and> ma_table a = t \<and> ma_add a = [f]"
proof -
  let ?rest = "''-- down'' # split_chr (CHR 0x0A) (text_of (down_lines [m] [] driver))"
  have l: "one_line (mf_column g)" "one_line (mf_column f)" "one_line (mf_fk f)" "one_line (mf_fk g)" "one_line t" "one_line driver"
    using assms by (auto simp: field_ok_def one_line_plain one_line_def[of "mf_fk f"] one_line_def[of "mf_fk g"] one_line_def[of driver])
  have "one_line (mig_pk_column m)" using l assms(3,9) by (simp add: mig_pk_column_def)
  then have x: "list_all one_line (concat (map (field_extras driver m) [g, f]))"
    using l assms(9) by (simp add: field_extras_def index_line_def lines_fts)
  have "list_all one_line (model_lines driver m)"
    using l x assms(9) by (simp add: model_lines_def pad20_def one_line_type one_line_constraints one_line_replicate)
  then have up: "list_all one_line (up_lines [m] [] driver @ [''-- down''])" by (simp add: up_lines_def lines_header)
  have split: "split_chr (CHR 0x0A) (mig_generate_sql [m] [] driver) = up_lines [m] [] driver @ ?rest"
    using split_text[OF up, of "down_lines [m] [] driver"] by (simp add: mig_generate_sql_def)
  have h: "list_all skipped_line header_lines"
    using skipped_start[of "''-- M''"] skipped_start[of "''-- R''"] by (simp add: header_lines_def inert_starts_def skipped_blank)
  have e: "list_all skipped_line (concat (map (field_extras driver m) [g, f]) @ [[]])"
    using skipped_extras by (simp add: skipped_blank)
  have "trim_space ''-- down'' = ''-- down''" by (intro trim_by_id) (simp add: is_space_def)
  moreover have "to_lower ''-- down'' = ''-- down''" by code_simp
  ultimately have stop: "read_schema ?rest None s' = s'" for s' by (simp add: Let_def)
  have g: "plain_name (mf_column g)" "to_upper (mf_column g) \<notin> set constraint_keywords" using assms(2) by (simp_all add: field_ok_def)
  let ?pg = "is_postgres driver"
  let ?lg = "''    '' @ pad20 (mf_column g) @ '' '' @ mig_sql_type g ?pg @ mig_constraints g ?pg @ '',''"
  let ?lf = "''    '' @ pad20 (mf_column f) @ '' '' @ mig_sql_type f ?pg @ mig_constraints f ?pg"
  have lines: "up_lines [m] [] driver @ ?rest = header_lines @ (''CREATE TABLE IF NOT EXISTS '' @ t @ '' ('') # ?lg # ?lf # '');'' #
      (concat (map (field_extras driver m) [g, f]) @ [[]]) @ ?rest"
    by (simp add: up_lines_def model_lines_def assms(9))
  have s: "schema_in_dir [mig_generate_sql [m] [] driver] = add_column t (mf_column g) (ensure_table t [])"
    unfolding schema_in_dir_def fold.simps comp_def id_apply split lines read_skipped[OF h] read_create[OF assms(1)]
      read_column[OF g] read_keyword[OF assms(4,5)] read_close read_skipped[OF e] stop ..
  then have c: "map_of (schema_in_dir [mig_generate_sql [m] [] driver]) t = Some [mf_column g]"
    by (simp add: add_column_def ensure_table_def columns_of_def)
  have "mf_column f \<noteq> mf_column g" using g(2) assms(5) by auto
  then have "mig_diff_model m [mf_column g] = Some \<lparr>ma_table = t, ma_pk = mig_pk_column m, ma_add = [f], ma_removed = []\<rparr>"
    using assms(3,6,9) by (simp add: mig_diff_model_def Let_def)
  then show ?thesis using c assms(9) by simp
qed

theorem keyword_column_readded_witness:
  "\<exists>a. mig_plan (schema_in_dir [mig_generate_sql [\<lparr>mm_name = ''Item'', mm_table = ''items'',
       mm_fields = [mig_build_field ''ID'' ''int64'' ''pk'' True, mig_build_field ''Key'' ''string'' [] True]\<rparr>] [] ''postgres''])
     [\<lparr>mm_name = ''Item'', mm_table = ''items'',
       mm_fields = [mig_build_field ''ID'' ''int64'' ''pk'' True, mig_build_field ''Key'' ''string'' [] True]\<rparr>] = ([], [a]) \<and>
     map mf_column (ma_add a) = [''key'']"
proof -
  let ?g = "mig_build_field ''ID'' ''int64'' ''pk'' True" and ?f = "mig_build_field ''Key'' ''string'' [] True"
  have a: "plain_name ''items''" "field_ok ?g" "mf_pk ?g" "plain_name (mf_column ?f)" "to_upper (mf_column ?f) \<in> set constraint_keywords"
    "\<not> mf_pk ?f" "CHR 0x0A \<notin> set (mf_fk ?f)" "CHR 0x0A \<notin> set ''postgres''" "mf_column ?f = ''key''" by code_simp+
  from keyword_column_readded[OF a(1-8) refl, of "''Item''"] a(9) show ?thesis by auto
qed

subsection \<open>The generator and the ORM agree on names\<close>

text \<open>
  C38: The tables and columns \<open>makemigrations\<close> generates are those the ORM queries: for every type name
  the two copies of the plural rule give the same table, and for every field and tag the two readers
  of the tag agree on the column, the primary key, the size, the foreign key and the search flag.
\<close>

theorem generator_agrees_with_orm:
  "mig_plural_snake tn = plural_snake tn \<and>
   mf_column (mig_build_field name ty tag nn) = f_column (fold apply_tag (tag_parts tag) (new_field i name)) \<and>
   mf_pk (mig_build_field name ty tag nn) = f_is_pk (fold apply_tag (tag_parts tag) (new_field i name)) \<and>
   mf_size (mig_build_field name ty tag nn) = f_size (fold apply_tag (tag_parts tag) (new_field i name)) \<and>
   mf_fk (mig_build_field name ty tag nn) = f_fk (fold apply_tag (tag_parts tag) (new_field i name)) \<and>
   mf_fts (mig_build_field name ty tag nn) = f_fts (fold apply_tag (tag_parts tag) (new_field i name))"
proof -
  have sn: "mig_to_snake s = to_snake s" for s using auth_to_snake_eq[of s] by (simp add: mig_to_snake_def auth_to_snake_def)
  have "mig_plural_snake tn = plural_snake tn"
    by (simp add: mig_plural_snake_def plural_snake_def plural_of_def sn mig_is_vowel_def is_vowel_def Let_def)
  moreover have "mf_column m = f_column o' \<and> mf_pk m = f_is_pk o' \<and> mf_size m = f_size o' \<and> mf_fk m = f_fk o' \<and> mf_fts m = f_fts o' \<Longrightarrow>
    (let m' = fold mig_apply_tag ps m; r = fold apply_tag ps o'
     in mf_column m' = f_column r \<and> mf_pk m' = f_is_pk r \<and> mf_size m' = f_size r \<and> mf_fk m' = f_fk r \<and> mf_fts m' = f_fts r)" for ps m o'
  proof (induction ps arbitrary: m o')
    case (Cons p ps)
    have "mf_column (mig_apply_tag p m) = f_column (apply_tag p o') \<and> mf_pk (mig_apply_tag p m) = f_is_pk (apply_tag p o') \<and>
      mf_size (mig_apply_tag p m) = f_size (apply_tag p o') \<and> mf_fk (mig_apply_tag p m) = f_fk (apply_tag p o') \<and>
      mf_fts (mig_apply_tag p m) = f_fts (apply_tag p o')"
      using Cons.prems by (auto simp: mig_apply_tag_def apply_tag_def) (auto simp: prefix_def)
    from Cons.IH[OF this] show ?case by simp
  qed (simp add: Let_def)
  ultimately show ?thesis
    by (auto simp: mig_build_field_def tag_parts_def new_field_def sn Let_def)
qed

end
