(* ===== verification/Migrate.thy ===== *)
theory Migrate
  imports Migrations
begin

text \<open>
  The migration runner of \<open>core/database/migrate/migrate.go\<close> and \<open>removemigration\<close> of
  \<open>core/cli/removemigration.go\<close>. The database is outside: \<open>mig_db\<close> holds the driver's name and the operations
  of the connection the runner calls, each of which may fail. \<open>control_laws\<close> states what the runner relies
  on: the control table keeps what is recorded, and a statement that does not name it leaves it alone.
\<close>

declare map_of_eq_Some_iff [simp del] AList.update_conv' [simp]

subsection \<open>Sections and statements\<close>

definition is_down_mark :: "string \<Rightarrow> bool" where
  "is_down_mark line \<longleftrightarrow> trim_space (to_lower line) = ''-- down''"

text \<open>The lines before and after; every marker line is left out.\<close>

fun split_lines :: "bool \<Rightarrow> string list \<Rightarrow> string list \<times> string list" where
  "split_lines in_down [] = ([], [])"
| "split_lines in_down (l # ls) =
     (if is_down_mark l then split_lines True ls
      else (case split_lines in_down ls of (up, down) \<Rightarrow> if in_down then (up, l # down) else (l # up, down)))"

definition split_migration :: "string \<Rightarrow> string \<times> string" where
  "split_migration content =
     (case split_lines False (split_chr (CHR 0x0A) content) of
        (up, down) \<Rightarrow> (join [CHR 0x0A] up, join [CHR 0x0A] down))"

definition is_comment :: "string \<Rightarrow> bool" where
  "is_comment s = list_all (\<lambda>line. trim_space line = [] \<or> has_prefix (trim_space line) ''--'') (split_chr (CHR 0x0A) s)"

definition statements :: "string \<Rightarrow> string list" where
  "statements content = filter (\<lambda>s. s \<noteq> [] \<and> \<not> is_comment s) (map trim_space (split_chr (CHR '';'') content))"

text \<open>The position of the first occurrence.\<close>

fun find_sub :: "string \<Rightarrow> string \<Rightarrow> nat option" where
  "find_sub p [] = (if p = [] then Some 0 else None)"
| "find_sub p (c # cs) = (if has_prefix (c # cs) p then Some 0 else map_option Suc (find_sub p cs))"

lemma find_sub_bound: "find_sub p s = Some i \<Longrightarrow> i + length p \<le> length s"
  by (induction s arbitrary: i) (auto split: if_splits dest: prefix_length_le)

definition table_after :: "string \<Rightarrow> string list" where
  "table_after r0 =
     (let r1 = trim_space r0;
          rest = (if has_prefix (to_upper r1) ''IF NOT EXISTS'' then trim_space (drop 13 r1) else r1);
          name = takeWhile (\<lambda>c. c \<notin> {CHR '' '', CHR ''('', CHR 0x0A}) rest
      in if name = [] \<or> length name = length rest then []
         else [case cut_chr (CHR ''.'') name of (_, b, found) \<Rightarrow> if found then b else name])"

text \<open>
  \<open>extractTableNames\<close>; \<open>None\<close> is the panic of the slice one past the end when the text ends right after
  the words.
\<close>

function extract_table_names :: "string \<Rightarrow> string list option" where
  "extract_table_names s =
     (case find_sub ''CREATE TABLE'' (to_upper s) of
        None \<Rightarrow> Some []
      | Some i \<Rightarrow>
          if i + 13 > length s then None
          else map_option (\<lambda>ts. table_after (drop (i + 12) s) @ ts) (extract_table_names (drop (i + 13) s)))"
  by pat_completeness auto
termination
  by (relation "measure length") (auto dest!: find_sub_bound simp: to_upper_def)

declare extract_table_names.simps [simp del]

subsection \<open>The runner\<close>

text \<open>
  \<open>md_exec\<close> is \<open>db.Exec\<close>, \<open>md_names\<close> the scanned rows of \<open>SELECT name FROM kyrux_migrations\<close>, \<open>md_count\<close> the
  scanned value of a one-row query (\<open>None\<close>: the query or the scan failed).
\<close>

record 'w mig_db =
  md_driver :: string
  md_exec :: "string \<Rightarrow> string list \<Rightarrow> 'w \<Rightarrow> string option \<times> 'w"
  md_names :: "'w \<Rightarrow> string + string list"
  md_count :: "string \<Rightarrow> string \<Rightarrow> 'w \<Rightarrow> nat option"

definition ensure_ddl :: "string \<Rightarrow> string" where
  "ensure_ddl driver =
     (if is_postgres driver
      then ''CREATE TABLE IF NOT EXISTS kyrux_migrations (id BIGSERIAL PRIMARY KEY, name VARCHAR(255) NOT NULL UNIQUE, '' @
           ''applied_at TIMESTAMPTZ NOT NULL DEFAULT NOW())''
      else ''CREATE TABLE IF NOT EXISTS kyrux_migrations (id INTEGER PRIMARY KEY AUTOINCREMENT, name VARCHAR(255) NOT NULL UNIQUE, '' @
           ''applied_at DATETIME NOT NULL DEFAULT CURRENT_TIMESTAMP)'')"

definition ensure_control :: "'w mig_db \<Rightarrow> 'w \<Rightarrow> string option \<times> 'w" where
  "ensure_control d w = md_exec d (ensure_ddl (md_driver d)) [] w"

definition record_sql :: "string \<Rightarrow> string" where
  "record_sql driver =
     (if is_postgres driver then ''INSERT INTO kyrux_migrations (name) VALUES ($1)'' else ''INSERT INTO kyrux_migrations (name) VALUES (?)'')"

definition record_migration :: "'w mig_db \<Rightarrow> string \<Rightarrow> 'w \<Rightarrow> string option \<times> 'w" where
  "record_migration d name w = md_exec d (record_sql (md_driver d)) [name] w"

definition unrecord :: "'w mig_db \<Rightarrow> string \<Rightarrow> 'w \<Rightarrow> string option \<times> 'w" where
  "unrecord d name w =
     md_exec d (if is_postgres (md_driver d) then ''DELETE FROM kyrux_migrations WHERE name = $1''
                else ''DELETE FROM kyrux_migrations WHERE name = ?'') [name] w"

definition table_exists :: "'w mig_db \<Rightarrow> 'w \<Rightarrow> string \<Rightarrow> bool" where
  "table_exists d w t =
     (case md_count d
        (if is_postgres (md_driver d)
         then ''SELECT EXISTS( SELECT 1 FROM information_schema.tables WHERE table_schema = '' @ quoted ''public'' @ '' AND table_name = $1 )''
         else ''SELECT COUNT(*) FROM sqlite_master WHERE type='' @ quoted ''table'' @ '' AND name=?'') t w of
        None \<Rightarrow> False | Some n \<Rightarrow> n > 0)"

datatype mig_error = EnsureError string | AppliedError string | ReadError string | ExecError string string
  | RecordError string string | RunPanic

fun exec_statements :: "'w mig_db \<Rightarrow> string list \<Rightarrow> 'w \<Rightarrow> string option \<times> 'w" where
  "exec_statements d [] w = (None, w)"
| "exec_statements d (st # sts) w =
     (case md_exec d st [] w of
        (Some e, w1) \<Rightarrow> (Some e, w1)
      | (None, w1) \<Rightarrow> exec_statements d sts w1)"

definition exec_sql :: "'w mig_db \<Rightarrow> string \<Rightarrow> 'w \<Rightarrow> string option \<times> 'w" where
  "exec_sql d content w = exec_statements d (statements content) w"

text \<open>One pending file: executed, or only registered when all its tables exist.\<close>

definition apply_file :: "'w mig_db \<Rightarrow> string \<Rightarrow> string option \<Rightarrow> 'w \<Rightarrow> mig_error option \<times> 'w" where
  "apply_file d name content w =
     (case content of
        None \<Rightarrow> (Some (ReadError name), w)
      | Some text \<Rightarrow>
          (let up = fst (split_migration text)
           in case extract_table_names up of
                None \<Rightarrow> (Some RunPanic, w)
              | Some tables \<Rightarrow>
                  (case (if tables \<noteq> [] \<and> list_all (table_exists d w) tables then (None, w) else exec_sql d up w) of
                     (Some e, w1) \<Rightarrow> (Some (ExecError name e), w1)
                   | (None, w1) \<Rightarrow>
                       (case record_migration d name w1 of
                          (Some e, w2) \<Rightarrow> (Some (RecordError name e), w2)
                        | (None, w2) \<Rightarrow> (None, w2)))))"

fun run_files ::
  "'w mig_db \<Rightarrow> string list \<Rightarrow> (string \<times> string option) list \<Rightarrow> 'w \<Rightarrow> mig_error option \<times> 'w"
where
  "run_files d applied [] w = (None, w)"
| "run_files d applied ((name, content) # fs) w =
     (if name \<in> set applied then run_files d applied fs w
      else (case apply_file d name content w of
              (Some e, w1) \<Rightarrow> (Some e, w1)
            | (None, w1) \<Rightarrow> run_files d applied fs w1))"

text \<open>\<open>Run\<close>, on the base names and contents of the \<open>.sql\<close> files of the directory.\<close>

definition run_migrations :: "'w mig_db \<Rightarrow> (string \<times> string option) list \<Rightarrow> 'w \<Rightarrow> mig_error option \<times> 'w" where
  "run_migrations d dir w =
     (case ensure_control d w of
        (Some e, w1) \<Rightarrow> (Some (EnsureError e), w1)
      | (None, w1) \<Rightarrow>
          (case md_names d w1 of
             Inl e \<Rightarrow> (Some (AppliedError e), w1)
           | Inr applied \<Rightarrow> run_files d applied (sort_key fst dir) w1))"

datatype remove_error = EmptyNumber | NotFoundFile | Ambiguous | NoDownSection | DownFailed string | UnrecordFailed string

definition exec_down :: "'w mig_db \<Rightarrow> string \<Rightarrow> 'w \<Rightarrow> remove_error option \<times> 'w" where
  "exec_down d content w =
     (let down = trim_space (snd (split_migration content))
      in if down = [] then (Some NoDownSection, w)
         else (case exec_sql d down w of (Some e, w1) \<Rightarrow> (Some (DownFailed e), w1) | (None, w1) \<Rightarrow> (None, w1)))"

text \<open>
  \<open>runRemoveMigration\<close> on a readable directory and an open database, for a number without pattern
  characters: the error, the file deleted, the database.
\<close>

definition remove_migration ::
  "'w mig_db \<Rightarrow> string \<Rightarrow> bool \<Rightarrow> (string \<times> string) list \<Rightarrow> 'w \<Rightarrow> remove_error option \<times> string option \<times> 'w"
where
  "remove_migration d num0 remove_all dir w =
     (let num = trim_space num0
      in if num = [] then (Some EmptyNumber, None, w)
         else (case filter (\<lambda>(n, _). has_prefix n (num @ ''_'') \<and> has_suffix n ''.sql'' \<and> length num + 5 \<le> length n) dir of
                 [] \<Rightarrow> (Some NotFoundFile, None, w)
               | [(name, content)] \<Rightarrow>
                   if \<not> remove_all then (None, Some name, w)
                   else (case exec_down d content w of
                           (Some e, w1) \<Rightarrow> (Some e, None, w1)
                         | (None, w1) \<Rightarrow>
                             (case unrecord d name w1 of
                                (Some e, w2) \<Rightarrow> (Some (UnrecordFailed e), None, w2)
                              | (None, w2) \<Rightarrow> (None, Some name, w2)))
               | _ \<Rightarrow> (Some Ambiguous, None, w)))"

subsection \<open>Applying pending files\<close>

definition names_control :: "string \<Rightarrow> bool" where
  "names_control s \<longleftrightarrow> find_sub ''kyrux_migrations'' (to_lower s) \<noteq> None"

definition control_laws :: "'w mig_db \<Rightarrow> bool" where
  "control_laws d \<longleftrightarrow>
     (\<forall>w xs. fst (ensure_control d w) = None \<longrightarrow> md_names d w = Inr xs \<longrightarrow> md_names d (snd (ensure_control d w)) = Inr xs) \<and>
     (\<forall>s w. \<not> names_control s \<longrightarrow> md_names d (snd (md_exec d s [] w)) = md_names d w) \<and>
     (\<forall>n w xs. md_names d w = Inr xs \<longrightarrow> (\<exists>ys. md_names d (snd (record_migration d n w)) = Inr ys \<and>
        set ys = (if fst (record_migration d n w) = None then insert n (set xs) else set xs)))"

definition leaves_control :: "string option \<Rightarrow> bool" where
  "leaves_control content =
     (case content of None \<Rightarrow> True | Some c \<Rightarrow> list_all (\<lambda>s. \<not> names_control s) (statements (fst (split_migration c))))"

text \<open>The files still to apply, in the order of their names.\<close>

definition pending_files :: "string list \<Rightarrow> (string \<times> string option) list \<Rightarrow> (string \<times> string option) list" where
  "pending_files applied dir = filter (\<lambda>f. fst f \<notin> set applied) (sort_key fst dir)"

lemma exec_keeps:
  "control_laws d \<Longrightarrow> list_all (\<lambda>s. \<not> names_control s) sts \<Longrightarrow> md_names d (snd (exec_statements d sts w)) = md_names d w"
proof (induction sts arbitrary: w)
  case (Cons st sts)
  then have "md_names d (snd (md_exec d st [] w)) = md_names d w" by (simp add: control_laws_def)
  with Cons show ?case by (cases "md_exec d st [] w") (auto split: option.split)
qed simp

lemma apply_file_applied:
  assumes "control_laws d" "leaves_control c" "md_names d w = Inr xs"
  shows "\<exists>ys. md_names d (snd (apply_file d n c w)) = Inr ys \<and>
    set ys = (if fst (apply_file d n c w) = None then insert n (set xs) else set xs)"
proof (cases c)
  case (Some t0)
  let ?up = "fst (split_migration t0)"
  have ex: "md_names d (snd (exec_sql d ?up w)) = Inr xs"
    using exec_keeps[OF assms(1)] assms(2,3) Some by (simp add: exec_sql_def leaves_control_def)
  have rc: "\<exists>ys. md_names d (snd (record_migration d n v)) = Inr ys \<and>
      set ys = (if fst (record_migration d n v) = None then insert n (set xs) else set xs)" if "md_names d v = Inr xs" for v
    using assms(1) that unfolding control_laws_def by blast
  obtain e v where v: "exec_sql d ?up w = (e, v)" by fastforce
  have rv: "md_names d v = Inr xs" using ex v by simp
  show ?thesis
  proof (cases "extract_table_names ?up")
    case (Some ts)
    then show ?thesis using rc[OF assms(3)] rc[OF rv] v assms(3) \<open>c = Some t0\<close> rv
      by (cases "record_migration d n w"; cases "record_migration d n v") (auto simp: apply_file_def Let_def split: option.split)
  next
    case None
    then show ?thesis using assms(3) \<open>c = Some t0\<close> by (simp add: apply_file_def Let_def)
  qed
next
  case None
  then show ?thesis using assms(3) by (simp add: apply_file_def)
qed

lemma run_files_applied:
  assumes "control_laws d" "list_all (leaves_control \<circ> snd) fs" "md_names d w = Inr ys" "run_files d applied fs w = (e, w')"
  shows "\<exists>k zs. md_names d w' = Inr zs \<and> k \<le> length (filter (\<lambda>f. fst f \<notin> set applied) fs) \<and>
    set zs = set ys \<union> set (map fst (take k (filter (\<lambda>f. fst f \<notin> set applied) fs))) \<and>
    (e = None \<longleftrightarrow> k = length (filter (\<lambda>f. fst f \<notin> set applied) fs))"
  using assms(2-4)
proof (induction fs arbitrary: w ys)
  case (Cons f fs)
  obtain n c where f: "f = (n, c)" by fastforce
  show ?case
  proof (cases "n \<in> set applied")
    case True
    then show ?thesis using Cons f by simp
  next
    case False
    obtain e1 w1 where a: "apply_file d n c w = (e1, w1)" by fastforce
    have "leaves_control c" using Cons.prems f by simp
    from apply_file_applied[OF assms(1) this Cons.prems(2), of n] a
    obtain us where us: "md_names d w1 = Inr us" "set us = (if e1 = None then insert n (set ys) else set ys)" by auto
    show ?thesis
    proof (cases e1)
      case None
      then have "run_files d applied fs w1 = (e, w')" "list_all (leaves_control \<circ> snd) fs" using Cons.prems f False a
        by (simp_all add: comp_def)
      from Cons.IH[OF this(2) us(1) this(1)] obtain k zs where "md_names d w' = Inr zs"
        "k \<le> length (filter (\<lambda>f. fst f \<notin> set applied) fs)"
        "set zs = set us \<union> set (map fst (take k (filter (\<lambda>f. fst f \<notin> set applied) fs)))"
        "e = None \<longleftrightarrow> k = length (filter (\<lambda>f. fst f \<notin> set applied) fs)" by blast
      then show ?thesis using us None False f by (intro exI[of _ "Suc k"] exI[of _ zs]) simp
    next
      case (Some x)
      then have "e = Some x \<and> w' = w1" using Cons.prems f False a by simp
      then show ?thesis using us Some False f by (intro exI[of _ 0] exI[of _ us]) simp
    qed
  qed
qed simp

lemma run_files_none: "\<forall>f\<in>set fs. fst f \<in> set applied \<Longrightarrow> run_files d applied fs w = (None, w)"
  by (induction fs) auto

lemma run_migrations_ok:
  assumes "md_names d (snd (ensure_control d w)) = Inr xs" "run_files d xs (sort_key fst dir) (snd (ensure_control d w)) = r"
    "fst (ensure_control d w) = None"
  shows "run_migrations d dir w = r"
proof -
  obtain v where "ensure_control d w = (None, v)" using assms(3) by (cases "ensure_control d w") simp
  then show ?thesis using assms(1,2) by (simp add: run_migrations_def)
qed


text \<open>A database that keeps a log of the statements and the names recorded, and refuses one statement.\<close>

definition log_db :: "string \<Rightarrow> (string list \<times> string list) mig_db" where
  "log_db bad =
     \<lparr>md_driver = ''sqlite'',
      md_exec = (\<lambda>s args (l, ns). if s = bad then (Some ''refused'', (l, ns))
                   else if s = record_sql ''sqlite'' then (None, (l @ [s], ns @ args)) else (None, (l @ [s], ns))),
      md_names = (\<lambda>(l, ns). Inr ns), md_count = (\<lambda>q t w. None)\<rparr>"

lemma log_db_laws: "bad \<noteq> record_sql ''sqlite'' \<Longrightarrow> control_laws (log_db bad)"
proof -
  have "names_control (record_sql ''sqlite'')" by code_simp
  moreover have "ensure_ddl ''sqlite'' \<noteq> record_sql ''sqlite''" by code_simp
  ultimately show "bad \<noteq> record_sql ''sqlite'' \<Longrightarrow> control_laws (log_db bad)"
    by (auto simp: control_laws_def log_db_def ensure_control_def record_migration_def)
qed


subsection \<open>Generated files\<close>

lemma space_lower: "is_space (to_lower_c c) = is_space c"
proof (cases "is_upper c")
  case True
  have code: "(of_char x :: nat) \<le> 32" if "is_space x" for x using that by (auto simp: is_space_def)
  have c: "65 \<le> (of_char c :: nat)" "(of_char c :: nat) \<le> 90" using True by (auto simp: is_upper_def)
  then have "(of_char (to_lower_c c) :: nat) = of_char c + 32" using True by (simp add: to_lower_c_def)
  then show ?thesis using code[of c] code[of "to_lower_c c"] c by linarith
qed (simp add: to_lower_c_def)

lemma down_mark_shape: "is_down_mark l \<Longrightarrow> \<exists>z. map to_lower_c (dropWhile is_space l) = ''-- down'' @ z"
proof -
  assume l: "is_down_mark l"
  have sp: "is_space (to_lower_c c) = is_space c" for c by (rule space_lower)
  have "dropWhile is_space (to_lower l) = map to_lower_c (dropWhile is_space l)"
    by (induction l) (simp_all add: to_lower_def sp)
  then show ?thesis using l trim_tail_prefix[of "dropWhile is_space (to_lower l)" is_space]
    by (simp add: is_down_mark_def trim_by_def)
qed

definition no_mark :: "string \<Rightarrow> bool" where
  "no_mark l \<longleftrightarrow> \<not> is_down_mark l"

lemma no_mark_first: "\<not> is_space c \<Longrightarrow> to_lower_c c \<noteq> CHR ''-'' \<Longrightarrow> no_mark (c # r)"
  using down_mark_shape[of "c # r"] by (auto simp: no_mark_def)

lemma no_mark_comment: "to_lower_c c \<noteq> CHR ''d'' \<Longrightarrow> no_mark (CHR ''-'' # CHR ''-'' # CHR '' '' # c # r)"
  using down_mark_shape[of "CHR ''-'' # CHR ''-'' # CHR '' '' # c # r"] by (auto simp: no_mark_def is_space_def)

lemma no_mark_space: "is_space c \<Longrightarrow> no_mark r \<Longrightarrow> no_mark (c # r)"
  by (simp add: no_mark_def is_down_mark_def trim_by_def to_lower_def space_lower)

lemma no_mark_nil: "no_mark []"
  by (simp add: no_mark_def is_down_mark_def trim_by_def to_lower_def)

lemma letters_no_mark:
  "\<not> is_space (CHR ''C'')" "\<not> is_space (CHR ''A'')" "\<not> is_space (CHR ''D'')" "\<not> is_space (CHR ''E'')" "\<not> is_space (CHR ''I'')"
  "\<not> is_space (CHR '')'')" "is_space (CHR '' '')"
  "to_lower_c (CHR ''C'') = CHR ''c''" "to_lower_c (CHR ''A'') = CHR ''a''" "to_lower_c (CHR ''D'') = CHR ''d''"
  "to_lower_c (CHR ''E'') = CHR ''e''" "to_lower_c (CHR ''I'') = CHR ''i''" "to_lower_c (CHR '')'') = CHR '')''"
  "to_lower_c (CHR ''M'') = CHR ''m''" "to_lower_c (CHR ''R'') = CHR ''r''"
  by code_simp+

lemmas no_mark_simps = no_mark_first no_mark_comment no_mark_space no_mark_nil letters_no_mark

lemma no_mark_columns: "list_all field_ok fs \<Longrightarrow> list_all no_mark (column_lines pg fs)"
proof (induction fs)
  case (Cons f fs)
  then have p: "plain_name (mf_column f)" by (simp add: field_ok_def)
  from plain_nameD[OF p] obtain x xs where x: "mf_column f = x # xs" "ident_char x" "\<not> is_upper x"
    using p by (cases "mf_column f") (auto simp: plain_name_def)
  then have "\<not> is_space x" "to_lower_c x \<noteq> CHR ''-''" using ident_char_plain[of x] by (auto simp: to_lower_c_def)
  then show ?case using Cons x(1) by (simp add: pad20_def no_mark_simps)
qed simp

lemma no_mark_fts: "list_all no_mark (fts_up t p f d)" "list_all no_mark (fts_down t f d)"
  by (simp_all add: fts_up_def fts_down_def Let_def no_mark_simps)

lemma no_mark_model: "model_ok m \<Longrightarrow> list_all no_mark (model_lines d m)"
  by (auto simp: model_lines_def model_ok_def no_mark_columns no_mark_simps field_extras_def index_line_def no_mark_fts intro!: lines_concat)

lemma no_mark_models: "list_all model_ok ms \<Longrightarrow> list_all no_mark (models_lines d ms)"
  by (induction d ms rule: models_lines.induct) (simp_all add: no_mark_model no_mark_nil)

lemma no_mark_alter: "list_all no_mark (alter_lines d a)"
  by (auto simp: alter_lines_def add_lines_def no_mark_simps index_line_def no_mark_fts list_all_iff[of no_mark "map f xs" for f xs] intro!: lines_concat)

lemma no_mark_up: "list_all model_ok ms \<Longrightarrow> list_all no_mark (up_lines ms as d)"
  by (auto simp: up_lines_def header_lines_def no_mark_simps no_mark_models no_mark_alter intro!: lines_concat)

lemma no_mark_down: "list_all no_mark (down_lines ms as d)"
  by (auto simp: down_lines_def alter_down_def model_down_def no_mark_simps no_mark_fts intro!: lines_concat)

lemma split_lines_down: "list_all no_mark ls \<Longrightarrow> split_lines True ls = ([], ls)"
  by (induction ls) (simp_all add: no_mark_def)

lemma split_lines_marked:
  "list_all no_mark us \<Longrightarrow> list_all no_mark ds \<Longrightarrow> split_lines False (us @ ''-- down'' # ds) = (us, ds)"
proof (induction us)
  case Nil
  have "is_down_mark ''-- down''" by code_simp
  then show ?case using Nil by (simp add: split_lines_down)
qed (simp add: no_mark_def)

lemma one_line_down: "list_all model_ok ms \<Longrightarrow> list_all alter_ok as \<Longrightarrow> list_all one_line (down_lines ms as d)"
proof -
  assume ms: "list_all model_ok ms" and as: "list_all alter_ok as"
  have f: "one_line (mf_column f)" if "field_ok f" for f using that by (simp add: field_ok_def one_line_plain)
  have t: "one_line t \<Longrightarrow> field_ok f \<Longrightarrow> list_all one_line (fts_down t f d)" for t f
    using f by (simp add: fts_down_def shadow_table_def Let_def)
  have "list_all one_line (alter_down d a)" if "a \<in> set as" for a
    using that as t f by (auto simp: list_all_iff[of alter_ok] alter_ok_def one_line_plain alter_down_def list_all_iff[of field_ok] intro!: lines_concat)
  moreover have "list_all one_line (model_down d m)" if "m \<in> set ms" for m
    using that ms t f by (auto simp: list_all_iff[of model_ok] model_ok_def one_line_plain model_down_def list_all_iff[of field_ok] intro!: lines_concat)
  ultimately show ?thesis by (auto simp: down_lines_def intro!: lines_concat)
qed

lemma text_of_join: "text_of ls = join [CHR 0x0A] (ls @ [[]])"
  by (induction ls) (simp_all add: text_of_def join_Cons)

lemma generated_split:
  assumes "list_all model_ok ms" "list_all alter_ok as" "list_all one_line (up_lines ms as d)"
  shows "split_migration (mig_generate_sql ms as d) = (join [CHR 0x0A] (up_lines ms as d), text_of (down_lines ms as d))"
proof -
  have dn: "one_line ''-- down''" by simp
  note od = one_line_down[OF assms(1,2), of d]
  have "split_chr (CHR 0x0A) (mig_generate_sql ms as d) = up_lines ms as d @ ''-- down'' # split_chr (CHR 0x0A) (text_of (down_lines ms as d))"
    using split_text[of "up_lines ms as d @ [''-- down'']" "down_lines ms as d"] assms(3) dn by (simp add: mig_generate_sql_def)
  also have "split_chr (CHR 0x0A) (text_of (down_lines ms as d)) = down_lines ms as d @ [[]]"
    using split_text[OF od, of "[]"] by (simp add: text_of_def)
  finally have e: "split_chr (CHR 0x0A) (mig_generate_sql ms as d) = up_lines ms as d @ ''-- down'' # down_lines ms as d @ [[]]" .
  have "split_lines False (up_lines ms as d @ ''-- down'' # down_lines ms as d @ [[]]) = (up_lines ms as d, down_lines ms as d @ [[]])"
    using no_mark_up[OF assms(1), of as d] no_mark_down[of ms as d] by (intro split_lines_marked) (simp_all add: no_mark_nil)
  then show ?thesis unfolding split_migration_def e text_of_join by simp
qed

text \<open>
  The runner takes a generated file apart exactly where the generator put it together: for the
  plan of well-named models, whatever the migrations already there, \<open>SplitMigration\<close> returns the lines generated
  for the way up and the lines generated for the way down.
\<close>

theorem generated_file_splits:
  assumes "list_all model_ok models" and "CHR 0x0A \<notin> set driver" and "mig_plan (schema_in_dir files) models = (pending, alters)"
  shows "split_migration (mig_generate_sql pending alters driver) =
    (join [CHR 0x0A] (up_lines pending alters driver), text_of (down_lines pending alters driver))"
proof -
  have d: "one_line driver" using assms(2) by (simp add: one_line_def)
  note p = plan_lines[OF assms(1) d assms(3)]
  show ?thesis by (rule generated_split[OF p])
qed

theorem generated_file_splits_witness:
  "snd (split_migration (mig_generate_sql [sample_model] [] ''postgres'')) = text_of (down_lines [sample_model] [] ''postgres'')"
proof -
  have ok: "list_all model_ok [sample_model]" by code_simp
  have p: "mig_plan (schema_in_dir []) [sample_model] = ([sample_model], [])" by (simp add: schema_in_dir_def)
  have "CHR 0x0A \<notin> set ''postgres''" by simp
  from generated_file_splits[OF ok this p] show ?thesis by simp
qed

subsection \<open>Full-text triggers on SQLite\<close>

lemma split_chr_mid: "split_chr c (a @ c # b) = split_chr c a @ split_chr c b"
proof (induction a)
  case (Cons x a)
  then show ?case by (cases "split_chr c a") auto
qed simp

lemma statement_between:
  assumes "c = CHR '';''" "c \<notin> set m" "trim_space m \<noteq> []" "\<not> is_comment (trim_space m)"
  shows "trim_space m \<in> set (statements (a @ c # m @ c # b))"
  using assms by (simp add: statements_def split_chr_mid split_chr_append split_chr_single)

lemma join_mid: "xs \<noteq> [] \<Longrightarrow> ys \<noteq> [] \<Longrightarrow> join s (xs @ ys) = join s xs @ s @ join s ys"
  by (induction xs) (auto simp: join_Cons)

lemma end_statement:
  assumes "ls = xs @ (l @ '';'') # ''END;'' # ys" "ys \<noteq> []"
  shows "''END'' \<in> set (statements (join [CHR 0x0A] ls))"
proof -
  let ?m = "[CHR 0x0A] @ ''END''"
  have j: "join [CHR 0x0A] ((l @ '';'') # ''END;'' # ys) = l @ CHR '';'' # ?m @ CHR '';'' # [CHR 0x0A] @ join [CHR 0x0A] ys"
    using assms(2) by (simp add: join_Cons)
  have "\<exists>a b. join [CHR 0x0A] ls = a @ CHR '';'' # ?m @ CHR '';'' # b"
  proof (cases "xs = []")
    case True
    then show ?thesis using j assms(1) by (intro exI[of _ l] exI[of _ "[CHR 0x0A] @ join [CHR 0x0A] ys"]) simp
  next
    case False
    then show ?thesis using j assms(1) join_mid[OF False, of "(l @ '';'') # ''END;'' # ys" "[CHR 0x0A]"]
      by (intro exI[of _ "join [CHR 0x0A] xs @ [CHR 0x0A] @ l"] exI[of _ "[CHR 0x0A] @ join [CHR 0x0A] ys"]) simp
  qed
  moreover have "trim_space ?m = ''END'' \<and> \<not> is_comment ''END''" by code_simp
  ultimately show ?thesis using statement_between[of "CHR '';''" ?m] by auto
qed

lemma fts_up_sqlite:
  assumes "d \<in> {''sqlite'', ''sqlite3''}"
  shows "\<exists>xs l ys. fts_up t p f d = xs @ (l @ '';'') # ''END;'' # ys"
proof -
  let ?c = "mf_column f" and ?sh = "shadow_table t (mf_column f)"
  have "fts_up t p f d =
      [[], ''CREATE VIRTUAL TABLE IF NOT EXISTS '' @ ?sh @ '' USING fts5('' @ ?c @ '', content='' @ quoted t @ '', content_rowid='' @ quoted p @ '');'',
       ''CREATE TRIGGER IF NOT EXISTS '' @ ?sh @ ''_ai AFTER INSERT ON '' @ t @ '' BEGIN''] @
      ((''  INSERT INTO '' @ ?sh @ ''(rowid, '' @ ?c @ '') VALUES (new.'' @ p @ '', new.'' @ ?c @ '')'') @ '';'') # ''END;'' #
      tl (tl (tl (tl (tl (fts_up t p f d)))))"
    using assms by (auto simp: fts_up_def is_postgres_def Let_def)
  then show ?thesis by blast
qed

lemma exec_statements_ok: "fst (exec_statements d sts w) = None \<Longrightarrow> s \<in> set sts \<Longrightarrow> \<exists>v. fst (md_exec d s [] v) = None"
proof (induction sts arbitrary: w)
  case (Cons st sts)
  then show ?case by (cases "md_exec d st [] w") (auto split: option.splits intro: exI[of _ w])
qed simp

text \<open>
  The runner cannot execute what the generator writes for a full-text column on SQLite: the statements
  are cut at every semicolon, those inside a trigger's body included, so that for a model with such a
  column the word \<open>END\<close> is sent as a statement of its own, and the migration fails on every database
  that refuses it.
\<close>

theorem fts_trigger_cut:
  assumes "model_ok m" and "f \<in> set (mm_fields m)" and "mf_fts f" and "driver \<in> {''sqlite'', ''sqlite3''}"
    and "\<forall>w. fst (md_exec d ''END'' [] w) \<noteq> None"
  shows "fst (exec_sql d (fst (split_migration (mig_generate_sql [m] [] driver))) w) \<noteq> None"
proof -
  have o: "one_line driver" using assms(4) by auto
  have up: "list_all one_line (up_lines [m] [] driver)" using assms(1) o by (simp add: up_lines_def lines_header lines_model)
  obtain as bs where fs: "mm_fields m = as @ f # bs" using assms(2) by (meson split_list)
  obtain xs l ys where l: "fts_up (mm_table m) (mig_pk_column m) f driver = xs @ (l @ '';'') # ''END;'' # ys"
    using fts_up_sqlite[OF assms(4)] by blast
  have "\<exists>us vs. up_lines [m] [] driver = us @ (l @ '';'') # ''END;'' # vs \<and> vs \<noteq> []"
  proof -
    have "\<exists>us. field_extras driver m f = us @ (l @ '';'') # ''END;'' # ys"
      unfolding field_extras_def l if_P[OF assms(3)] append_assoc[symmetric] by (rule exI, rule refl)
    then obtain us where us: "field_extras driver m f = us @ (l @ '';'') # ''END;'' # ys" by blast
    let ?ps = "(''CREATE TABLE IF NOT EXISTS '' @ mm_table m @ '' ('') # column_lines (is_postgres driver) (mm_fields m) @ ['');'']"
    have ps: "model_lines driver m = ?ps @ concat (map (field_extras driver m) (mm_fields m))"
      unfolding model_lines_def append_assoc append_Cons ..
    have "concat (map (field_extras driver m) (mm_fields m)) = concat (map (field_extras driver m) as) @
        (us @ (l @ '';'') # ''END;'' # ys) @ concat (map (field_extras driver m) bs)"
      unfolding fs map_append concat_append list.map concat.simps us ..
    then have "up_lines [m] [] driver = (header_lines @ ?ps @ concat (map (field_extras driver m) as) @ us) @ (l @ '';'') # ''END;'' #
        (ys @ concat (map (field_extras driver m) bs) @ [[]])"
      unfolding up_lines_def models_lines.simps ps by simp
    then show ?thesis by blast
  qed
  then have "''END'' \<in> set (statements (join [CHR 0x0A] (up_lines [m] [] driver)))" using end_statement by blast
  moreover have "fst (split_migration (mig_generate_sql [m] [] driver)) = join [CHR 0x0A] (up_lines [m] [] driver)"
    using generated_split[of "[m]" "[]" driver] assms(1) up by simp
  ultimately show ?thesis using exec_statements_ok[of d _ w "''END''"] assms(5) by (auto simp: exec_sql_def)
qed

theorem fts_trigger_cut_witness:
  "fst (exec_sql (log_db ''END'') (fst (split_migration (mig_generate_sql [sample_model] [] ''sqlite''))) ([], [])) \<noteq> None"
proof -
  have ok: "model_ok sample_model" by code_simp
  have f: "mig_build_field ''Body'' ''string'' ''fts'' False \<in> set (mm_fields sample_model)" by (simp add: sample_model_def)
  have t: "mf_fts (mig_build_field ''Body'' ''string'' ''fts'' False)" by code_simp
  have d: "\<forall>w. fst (md_exec (log_db ''END'') ''END'' [] w) \<noteq> None" by (simp add: log_db_def)
  show ?thesis by (rule fts_trigger_cut[OF ok f t _ d]) simp
qed

end
