(* ===== verification/AdminModel.thy ===== *)
theory AdminModel
  imports OrmQuery Rfc3339
begin

text \<open>
  The registration of models in the admin, \<open>core/admin/admin.go\<close>, and the conversions between the values
  of a struct and the text of pages and forms, \<open>core/admin/crud.go\<close> and \<open>core/admin/filters.go\<close>. The type
  parameter of \<open>Register\<close> is the struct's description with its zero value. Outside, in \<open>admin_env\<close>:
  the zone the pages show times in, the decimal text of floating-point numbers, and \<open>%v\<close> on a value of
  any other type.
\<close>

declare map_of_eq_Some_iff [simp del] AList.update_conv' [simp]

subsection \<open>Fields\<close>

datatype widget = WText | WTextarea | WNumber | WNumberFloat | WCheckbox | WDatetime | WPassword | WFile | WSelect

record admin_field =
  af_name :: string
  af_column :: string
  af_label :: string
  af_go_index :: nat
  af_kind :: go_type
  af_widget :: widget
  af_optional :: bool
  af_is_pk :: bool
  af_is_hash :: bool
  af_is_encrypt :: bool
  af_is_autonow :: bool
  af_is_autonow_add :: bool
  af_is_nanoid :: bool
  af_is_image :: bool
  af_is_fk :: bool
  af_fk_table :: string
  af_fk_label :: string

fun underlying_kind :: "go_type \<Rightarrow> go_type" where
  "underlying_kind (TPtr t) = t"
| "underlying_kind t = t"

fun plain_widget :: "go_type \<Rightarrow> int \<Rightarrow> widget \<times> bool" where
  "plain_widget (TPtr t) sz = (fst (plain_widget t sz), True)"
| "plain_widget TBool sz = (WCheckbox, False)"
| "plain_widget (TFloatK k) sz = (WNumberFloat, False)"
| "plain_widget (TIntK k) sz = (WNumber, False)"
| "plain_widget (TUintK k) sz = (WNumber, False)"
| "plain_widget TTime sz = (WDatetime, False)"
| "plain_widget TString sz = (if sz = 0 then WTextarea else WText, False)"
| "plain_widget _ sz = (WText, False)"

definition detect_widget :: "go_type \<Rightarrow> bool \<Rightarrow> bool \<Rightarrow> bool \<Rightarrow> int \<Rightarrow> widget \<times> bool" where
  "detect_widget t is_hash is_image is_fk sz =
     (if is_hash then (WPassword, False)
      else if is_image then (WFile, is_ptr t)
      else if is_fk then (WSelect, is_ptr t)
      else plain_widget t sz)"

definition capitalize :: "string \<Rightarrow> string" where
  "capitalize p = (case p of [] \<Rightarrow> [] | c # cs \<Rightarrow> to_upper_c c # cs)"

definition humanize :: "string \<Rightarrow> string" where
  "humanize col = join '' '' (map capitalize (split_chr (CHR ''_'') col))"

datatype admin_panic = BadSlug string | ReservedSlug string | NoPrimaryKey string | ImageNotString string
  | ImageWithoutApp string string | UnknownField string | NotFilterable string | ReservedAction | EmptyAction string
  | DuplicateAction string string | DuplicateSlug string | MetaPanic meta_error

definition build_admin_field :: "go_struct \<Rightarrow> orm_field \<Rightarrow> admin_panic + admin_field" where
  "build_admin_field t f =
     (let ty = gf_type (gs_fields t ! f_go_index f)
      in if f_is_image f \<and> ty \<noteq> TString \<and> ty \<noteq> TPtr TString then Inl (ImageNotString (f_name f))
         else (case detect_widget ty (f_is_hash f) (f_is_image f) (f_fk f \<noteq> []) (f_size f) of
                 (wd, opt) \<Rightarrow>
                   Inr \<lparr>af_name = f_name f, af_column = f_column f, af_label = humanize (f_column f), af_go_index = f_go_index f,
                     af_kind = underlying_kind ty, af_widget = wd, af_optional = opt, af_is_pk = f_is_pk f, af_is_hash = f_is_hash f,
                     af_is_encrypt = f_is_encrypt f, af_is_autonow = f_is_autonow f, af_is_autonow_add = f_is_autonow_add f,
                     af_is_nanoid = f_is_nanoid f, af_is_image = f_is_image f, af_is_fk = (f_fk f \<noteq> []), af_fk_table = f_fk f,
                     af_fk_label = f_fk_label f\<rparr>))"

fun sequence_results :: "('e + 'a) list \<Rightarrow> 'e + 'a list" where
  "sequence_results [] = Inr []"
| "sequence_results (Inl e # rs) = Inl e"
| "sequence_results (Inr x # rs) = (case sequence_results rs of Inl e \<Rightarrow> Inl e | Inr xs \<Rightarrow> Inr (x # xs))"

definition build_admin_fields :: "model_meta \<Rightarrow> go_struct \<Rightarrow> admin_panic + admin_field list" where
  "build_admin_fields meta t = sequence_results (map (build_admin_field t) (m_fields meta))"

definition default_list_cols :: "admin_field \<Rightarrow> bool" where
  "default_list_cols f \<longleftrightarrow> \<not> af_is_hash f"

text \<open>The map by name is filled in field order, so the last field of a name counts.\<close>

definition field_named :: "admin_field list \<Rightarrow> string \<Rightarrow> admin_field option" where
  "field_named fds n = map_of (rev (map (\<lambda>f. (af_name f, f)) fds)) n"

definition resolve_columns ::
  "admin_field list \<Rightarrow> string list \<Rightarrow> (admin_field \<Rightarrow> bool) option \<Rightarrow> admin_panic + string list"
where
  "resolve_columns fds names fallback =
     (if names = [] then Inr (case fallback of None \<Rightarrow> [] | Some p \<Rightarrow> map af_column (filter p fds))
      else sequence_results (map (\<lambda>n. case field_named fds n of None \<Rightarrow> Inl (UnknownField n) | Some f \<Rightarrow> Inr (af_column f)) names))"

definition filterable_widget :: "widget \<Rightarrow> bool" where
  "filterable_widget wd \<longleftrightarrow> wd \<in> {WCheckbox, WSelect, WNumber, WNumberFloat, WDatetime}"

definition resolve_filter_fields :: "admin_field list \<Rightarrow> string list \<Rightarrow> admin_panic + admin_field list" where
  "resolve_filter_fields fds names =
     sequence_results (map (\<lambda>n. case field_named fds n of
         None \<Rightarrow> Inl (UnknownField n)
       | Some f \<Rightarrow> if filterable_widget (af_widget f) then Inr f else Inl (NotFilterable n)) names)"

subsection \<open>Registration\<close>

text \<open>An action on the rows of some primary keys: the error, if any, and the database it leaves.\<close>

type_synonym 'w bulk_fn = "goval list \<Rightarrow> 'w \<Rightarrow> string option \<times> 'w"

record 'w bulk_action =
  ba_name :: string
  ba_label :: string
  ba_fn :: "'w bulk_fn"

record 'w registered_model =
  rm_slug :: string
  rm_label :: string
  rm_conn :: string
  rm_app :: string
  rm_meta :: model_meta
  rm_struct :: go_struct
  rm_zero :: "goval list"
  rm_fields :: "admin_field list"
  rm_superuser_only :: bool
  rm_framework :: bool
  rm_list_cols :: "string list"
  rm_search_cols :: "string list"
  rm_filter_fields :: "admin_field list"
  rm_bulk_actions :: "'w bulk_action list"
  rm_pk_column :: string
  rm_pk_kind :: go_type
  rm_want_list :: "string list"
  rm_want_search :: "string list"
  rm_want_filter :: "string list"

datatype (dead 'w) admin_option =
    OConn string | OApp string | OListFields "string list" | OSearchFields "string list" | OFilterFields "string list"
  | OBulkAction string string "'w bulk_fn" | OSuperuserOnly

fun apply_option :: "'w admin_option \<Rightarrow> 'w registered_model \<Rightarrow> admin_panic + 'w registered_model" where
  "apply_option (OConn n) rm = Inr (rm\<lparr>rm_conn := n\<rparr>)"
| "apply_option (OApp n) rm = Inr (rm\<lparr>rm_app := n\<rparr>)"
| "apply_option (OListFields ns) rm = Inr (rm\<lparr>rm_want_list := ns\<rparr>)"
| "apply_option (OSearchFields ns) rm = Inr (rm\<lparr>rm_want_search := ns\<rparr>)"
| "apply_option (OFilterFields ns) rm = Inr (rm\<lparr>rm_want_filter := ns\<rparr>)"
| "apply_option (OBulkAction n l fn) rm =
     (if n = ''delete'' then Inl ReservedAction
      else Inr (rm\<lparr>rm_bulk_actions := rm_bulk_actions rm @ [\<lparr>ba_name = n, ba_label = l, ba_fn = fn\<rparr>]\<rparr>))"
| "apply_option OSuperuserOnly rm = Inr (rm\<lparr>rm_superuser_only := True\<rparr>)"

fun apply_options :: "'w admin_option list \<Rightarrow> 'w registered_model \<Rightarrow> admin_panic + 'w registered_model" where
  "apply_options [] rm = Inr rm"
| "apply_options (ob # obs) rm = (case apply_option ob rm of Inl e \<Rightarrow> Inl e | Inr rm1 \<Rightarrow> apply_options obs rm1)"

definition re_slug :: "string \<Rightarrow> bool" where
  "re_slug s = (case s of [] \<Rightarrow> False | c # cs \<Rightarrow> is_lower c \<and> list_all (\<lambda>c. is_lower c \<or> is_digit c \<or> c = CHR ''-'') cs)"

definition reserved_slugs :: "string list" where
  "reserved_slugs = [''login'', ''logout'', ''historico'']"

definition is_framework_model :: "string \<Rightarrow> bool" where
  "is_framework_model pkg_path = has_prefix pkg_path ''kyrux/core/''"

fun check_actions :: "string \<Rightarrow> 'w bulk_action list \<Rightarrow> string list \<Rightarrow> admin_panic option" where
  "check_actions label [] seen = None"
| "check_actions label (ba # bas) seen =
     (if ba_name ba = [] \<or> ba_label ba = [] then Some (EmptyAction label)
      else if ba_name ba \<in> set seen then Some (DuplicateAction label (ba_name ba))
      else check_actions label bas (ba_name ba # seen))"

text \<open>The registered models in registration order: the map and the list \<open>order\<close> together.\<close>

type_synonym 'w registry = "(string \<times> 'w registered_model) list"

definition resolve_model :: "'w registered_model \<Rightarrow> admin_panic + 'w registered_model" where
  "resolve_model rm =
     (case build_admin_fields (rm_meta rm) (rm_struct rm) of
        Inl e \<Rightarrow> Inl e
      | Inr fds \<Rightarrow>
          (case find (\<lambda>f. af_is_image f \<and> rm_app rm = []) fds of
             Some f \<Rightarrow> Inl (ImageWithoutApp (rm_label rm) (af_label f))
           | None \<Rightarrow>
               (case resolve_columns fds (rm_want_list rm) (Some default_list_cols) of
                  Inl e \<Rightarrow> Inl e
                | Inr list_cols \<Rightarrow>
                    (case resolve_columns fds (rm_want_search rm) None of
                       Inl e \<Rightarrow> Inl e
                     | Inr search_cols \<Rightarrow>
                         (case resolve_filter_fields fds (rm_want_filter rm) of
                            Inl e \<Rightarrow> Inl e
                          | Inr filters \<Rightarrow>
                              (case check_actions (rm_label rm) (rm_bulk_actions rm) [] of
                                 Some e \<Rightarrow> Inl e
                               | None \<Rightarrow>
                                   Inr (rm\<lparr>rm_fields := fds, rm_list_cols := list_cols, rm_search_cols := search_cols,
                                     rm_filter_fields := filters\<rparr>)))))))"

definition register ::
  "go_struct \<Rightarrow> goval list \<Rightarrow> string \<Rightarrow> string \<Rightarrow> string \<Rightarrow> 'w admin_option list \<Rightarrow> 'w registry \<Rightarrow> admin_panic + 'w registry"
where
  "register t zero pkg_path slug label opts reg =
     (if \<not> re_slug slug then Inl (BadSlug slug)
      else if slug \<in> set reserved_slugs then Inl (ReservedSlug slug)
      else
        (case build_meta t of
           Inl e \<Rightarrow> Inl (MetaPanic e)
         | Inr meta \<Rightarrow>
             (case m_pk meta of
                None \<Rightarrow> Inl (NoPrimaryKey label)
              | Some pk \<Rightarrow>
                  (case apply_options opts
                      \<lparr>rm_slug = slug, rm_label = label, rm_conn = ''default'', rm_app = [], rm_meta = meta, rm_struct = t,
                       rm_zero = zero, rm_fields = [], rm_superuser_only = False, rm_framework = is_framework_model pkg_path,
                       rm_list_cols = [], rm_search_cols = [], rm_filter_fields = [], rm_bulk_actions = [],
                       rm_pk_column = f_column pk, rm_pk_kind = gf_type (gs_fields t ! f_go_index pk),
                       rm_want_list = [], rm_want_search = [], rm_want_filter = []\<rparr> of
                     Inl e \<Rightarrow> Inl e
                   | Inr rm0 \<Rightarrow>
                       (case resolve_model rm0 of
                          Inl e \<Rightarrow> Inl e
                        | Inr rm \<Rightarrow> if map_of reg slug \<noteq> None then Inl (DuplicateSlug slug) else Inr (reg @ [(slug, rm)]))))))"

definition registry_count :: "'w registry \<Rightarrow> nat" where
  "registry_count reg = length reg"

definition models_ordered :: "'w registry \<Rightarrow> 'w registered_model list" where
  "models_ordered reg = map snd reg"

definition model_by_slug :: "'w registry \<Rightarrow> string \<Rightarrow> 'w registered_model option" where
  "model_by_slug reg slug = map_of reg slug"

subsection \<open>What every registered model satisfies\<close>

definition model_ok :: "'w registered_model \<Rightarrow> bool" where
  "model_ok rm \<longleftrightarrow>
     re_slug (rm_slug rm) \<and> rm_slug rm \<notin> set reserved_slugs \<and>
     build_meta (rm_struct rm) = Inr (rm_meta rm) \<and> map af_column (rm_fields rm) = map f_column (m_fields (rm_meta rm)) \<and>
     map af_go_index (rm_fields rm) = map f_go_index (m_fields (rm_meta rm)) \<and>
     map af_is_hash (rm_fields rm) = map f_is_hash (m_fields (rm_meta rm)) \<and>
     (\<exists>pk. m_pk (rm_meta rm) = Some pk \<and> rm_pk_column rm = f_column pk) \<and>
     set (rm_list_cols rm) \<subseteq> af_column ` set (rm_fields rm) \<and> set (rm_search_cols rm) \<subseteq> af_column ` set (rm_fields rm) \<and>
     set (rm_filter_fields rm) \<subseteq> set (rm_fields rm) \<and> (\<forall>f\<in>set (rm_filter_fields rm). filterable_widget (af_widget f)) \<and>
     (\<forall>f\<in>set (rm_fields rm). (af_is_hash f \<longrightarrow> af_widget f = WPassword) \<and> (af_is_image f \<longrightarrow> rm_app rm \<noteq> [])) \<and>
     distinct (map ba_name (rm_bulk_actions rm)) \<and> ''delete'' \<notin> ba_name ` set (rm_bulk_actions rm) \<and> [] \<notin> ba_name ` set (rm_bulk_actions rm)"

definition registry_ok :: "'w registry \<Rightarrow> bool" where
  "registry_ok reg \<longleftrightarrow> distinct (map fst reg) \<and> (\<forall>(slug, rm)\<in>set reg. rm_slug rm = slug \<and> model_ok rm)"

lemma sequence_results_map:
  "sequence_results (map f xs) = Inr ys \<Longrightarrow> length ys = length xs \<and> (\<forall>i<length xs. f (xs ! i) = Inr (ys ! i))"
proof (induction xs arbitrary: ys)
  case (Cons x xs)
  then obtain y zs where "f x = Inr y" "sequence_results (map f xs) = Inr zs" "ys = y # zs"
    by (cases "f x") (auto split: sum.splits)
  with Cons.IH[of zs] show ?case by (auto simp: nth_Cons split: nat.splits)
qed simp

lemma sequence_results_set: "sequence_results (map f xs) = Inr ys \<Longrightarrow> y \<in> set ys \<Longrightarrow> \<exists>x\<in>set xs. f x = Inr y"
  using sequence_results_map[of f xs ys] by (metis in_set_conv_nth)

lemma build_admin_field_frame:
  "build_admin_field t f = Inr a \<Longrightarrow> af_column a = f_column f \<and> af_go_index a = f_go_index f \<and> af_is_hash a = f_is_hash f \<and>
     (af_is_hash a \<longrightarrow> af_widget a = WPassword)"
  by (auto simp: build_admin_field_def detect_widget_def Let_def split: if_splits prod.splits)

lemma build_admin_fields_frame:
  assumes "build_admin_fields meta t = Inr fds"
  shows "map af_column fds = map f_column (m_fields meta)" "map af_go_index fds = map f_go_index (m_fields meta)"
    "map af_is_hash fds = map f_is_hash (m_fields meta)" "\<forall>f\<in>set fds. af_is_hash f \<longrightarrow> af_widget f = WPassword"
proof -
  note s = sequence_results_map[OF assms[unfolded build_admin_fields_def]]
  have i: "i < length (m_fields meta) \<Longrightarrow> build_admin_field t (m_fields meta ! i) = Inr (fds ! i)" for i using s by simp
  show "map af_column fds = map f_column (m_fields meta)" "map af_go_index fds = map f_go_index (m_fields meta)"
    "map af_is_hash fds = map f_is_hash (m_fields meta)"
    using s build_admin_field_frame[OF i] by (simp_all add: list_eq_iff_nth_eq)
  show "\<forall>f\<in>set fds. af_is_hash f \<longrightarrow> af_widget f = WPassword"
    using s build_admin_field_frame[OF i] by (metis in_set_conv_nth)
qed

lemma field_named_mem: "field_named fds n = Some f \<Longrightarrow> f \<in> set fds"
  by (auto simp: field_named_def dest!: map_of_SomeD)

lemma resolve_columns_mem: "resolve_columns fds names fb = Inr cols \<Longrightarrow> set cols \<subseteq> af_column ` set fds"
proof (cases "names = []")
  case True
  assume "resolve_columns fds names fb = Inr cols"
  then have "cols = (case fb of None \<Rightarrow> [] | Some p \<Rightarrow> map af_column (filter p fds))" using True by (simp add: resolve_columns_def)
  then show ?thesis by (auto split: option.splits)
next
  case False
  assume a: "resolve_columns fds names fb = Inr cols"
  show ?thesis
  proof
    fix c assume "c \<in> set cols"
    then obtain n where "(case field_named fds n of None \<Rightarrow> Inl (UnknownField n) | Some f \<Rightarrow> Inr (af_column f)) = Inr c"
      using a False sequence_results_set by (force simp: resolve_columns_def)
    then show "c \<in> af_column ` set fds" by (auto split: option.splits dest: field_named_mem)
  qed
qed

lemma resolve_filters_mem:
  "resolve_filter_fields fds names = Inr fs \<Longrightarrow> f \<in> set fs \<Longrightarrow> f \<in> set fds \<and> filterable_widget (af_widget f)"
  using sequence_results_set[of _ names fs f]
  by (fastforce simp: resolve_filter_fields_def split: option.splits if_splits dest: field_named_mem)

lemma check_actions_ok:
  "check_actions l bas seen = None \<Longrightarrow> distinct (map ba_name bas) \<and> [] \<notin> ba_name ` set bas \<and> set seen \<inter> ba_name ` set bas = {}"
  by (induction l bas seen rule: check_actions.induct) (auto split: if_splits)

text \<open>Options leave what \<open>Register\<close> has set and never register an action called \<open>delete\<close>.\<close>

lemma apply_options_frame:
  "apply_options obs rm = Inr rm' \<Longrightarrow> ''delete'' \<notin> ba_name ` set (rm_bulk_actions rm) \<Longrightarrow>
     rm_slug rm' = rm_slug rm \<and> rm_label rm' = rm_label rm \<and> rm_meta rm' = rm_meta rm \<and> rm_struct rm' = rm_struct rm \<and>
     rm_zero rm' = rm_zero rm \<and> rm_pk_column rm' = rm_pk_column rm \<and> rm_pk_kind rm' = rm_pk_kind rm \<and>
     ''delete'' \<notin> ba_name ` set (rm_bulk_actions rm')"
proof (induction obs arbitrary: rm)
  case (Cons ob obs)
  then obtain rm1 where r: "apply_option ob rm = Inr rm1" "apply_options obs rm1 = Inr rm'" by (auto split: sum.splits)
  have "rm_slug rm1 = rm_slug rm \<and> rm_label rm1 = rm_label rm \<and> rm_meta rm1 = rm_meta rm \<and> rm_struct rm1 = rm_struct rm \<and>
     rm_zero rm1 = rm_zero rm \<and> rm_pk_column rm1 = rm_pk_column rm \<and> rm_pk_kind rm1 = rm_pk_kind rm \<and>
     ''delete'' \<notin> ba_name ` set (rm_bulk_actions rm1)"
    using r(1) Cons.prems(2) by (cases ob) (auto split: if_splits)
  with Cons.IH[OF r(2)] show ?case by simp
qed simp

lemma resolve_model_ok:
  assumes "resolve_model rm0 = Inr rm" and "''delete'' \<notin> ba_name ` set (rm_bulk_actions rm0)"
    and "re_slug (rm_slug rm0)" "rm_slug rm0 \<notin> set reserved_slugs" "build_meta (rm_struct rm0) = Inr (rm_meta rm0)"
    and "m_pk (rm_meta rm0) = Some pk" "rm_pk_column rm0 = f_column pk"
  shows "rm_slug rm = rm_slug rm0 \<and> model_ok rm"
proof -
  from assms(1) obtain fds lc sc ff where r: "build_admin_fields (rm_meta rm0) (rm_struct rm0) = Inr fds"
      "find (\<lambda>f. af_is_image f \<and> rm_app rm0 = []) fds = None"
      "resolve_columns fds (rm_want_list rm0) (Some default_list_cols) = Inr lc" "resolve_columns fds (rm_want_search rm0) None = Inr sc"
      "resolve_filter_fields fds (rm_want_filter rm0) = Inr ff" "check_actions (rm_label rm0) (rm_bulk_actions rm0) [] = None"
      "rm = rm0\<lparr>rm_fields := fds, rm_list_cols := lc, rm_search_cols := sc, rm_filter_fields := ff\<rparr>"
    unfolding resolve_model_def by (auto split: sum.splits option.splits)
  have "\<forall>f\<in>set fds. af_is_image f \<longrightarrow> rm_app rm0 \<noteq> []" using r(2) by (auto simp: find_None_iff)
  then show ?thesis
    using assms(2-) build_admin_fields_frame[OF r(1)] resolve_columns_mem[OF r(3)] resolve_columns_mem[OF r(4)]
      resolve_filters_mem[OF r(5)] check_actions_ok[OF r(6)]
    by (auto simp: model_ok_def r(7))
qed

lemma register_result:
  assumes "register t zero pkg slug label opts reg = Inr reg'"
  shows "\<exists>rm. map_of reg slug = None \<and> reg' = reg @ [(slug, rm)] \<and> rm_slug rm = slug \<and> model_ok rm"
proof -
  from assms obtain meta pk rm0 rm where r: "re_slug slug" "slug \<notin> set reserved_slugs" "build_meta t = Inr meta" "m_pk meta = Some pk"
      "apply_options opts
        \<lparr>rm_slug = slug, rm_label = label, rm_conn = ''default'', rm_app = [], rm_meta = meta, rm_struct = t, rm_zero = zero, rm_fields = [],
         rm_superuser_only = False, rm_framework = is_framework_model pkg, rm_list_cols = [], rm_search_cols = [], rm_filter_fields = [],
         rm_bulk_actions = [], rm_pk_column = f_column pk, rm_pk_kind = gf_type (gs_fields t ! f_go_index pk),
         rm_want_list = [], rm_want_search = [], rm_want_filter = []\<rparr> = Inr rm0"
      "resolve_model rm0 = Inr rm" "map_of reg slug = None" "reg' = reg @ [(slug, rm)]"
    unfolding register_def by (auto split: if_splits sum.splits option.splits)
  have f: "rm_slug rm0 = slug" "rm_meta rm0 = meta" "rm_struct rm0 = t" "rm_pk_column rm0 = f_column pk"
      "''delete'' \<notin> ba_name ` set (rm_bulk_actions rm0)"
    using apply_options_frame[OF r(5)] by simp_all
  show ?thesis using resolve_model_ok[OF r(6) f(5)] f r(1-4,7,8) by simp
qed

text \<open>
  Registration accepts only what the admin can serve: starting from the empty registry, after any
  accepted calls of \<open>Register\<close> the slugs are distinct, well-formed and none of the admin's own paths,
  every model has a primary key, its list, search and filter columns are columns of the struct, only
  filterable widgets are filters, a hashed field is a password input, image fields come with an app, and
  the names of the bulk actions are distinct and none of them hides the built-in deletion.
\<close>

theorem register_keeps_registry:
  assumes "registry_ok reg" and "register t zero pkg slug label opts reg = Inr reg'"
  shows "registry_ok reg' \<and> registry_count reg' = Suc (registry_count reg) \<and> map_of reg slug = None \<and>
    (\<forall>s. s \<noteq> slug \<longrightarrow> model_by_slug reg' s = model_by_slug reg s) \<and> model_by_slug reg' slug \<noteq> None"
proof -
  obtain rm where r: "map_of reg slug = None" "reg' = reg @ [(slug, rm)]" "rm_slug rm = slug" "model_ok rm"
    using register_result[OF assms(2)] by blast
  have "slug \<notin> fst ` set reg" using r(1) by (simp add: map_of_eq_None_iff)
  then have "registry_ok reg'" using assms(1) r by (auto simp: registry_ok_def)
  moreover have "map_of reg' s = (if s = slug then Some rm else map_of reg s)" for s
    using r(1,2) by (simp add: map_add_def split: option.split)
  ultimately show ?thesis using r(1,2) by (simp add: registry_count_def model_by_slug_def)
qed

theorem register_keeps_registry_witness:
  "case register sample_user [] ''kyrux/core/security/auth'' ''usuarios'' ''Users'' [OSuperuserOnly] ([] :: unit registry) of
     Inl e \<Rightarrow> False | Inr reg \<Rightarrow> registry_ok reg \<and> registry_count reg = 1"
proof -
  let ?r = "register sample_user [] ''kyrux/core/security/auth'' ''usuarios'' ''Users'' [OSuperuserOnly] ([] :: unit registry)"
  have "isl ?r = False" by code_simp
  then obtain reg where reg: "?r = Inr reg" by (cases ?r) auto
  have "registry_ok ([] :: unit registry)" by (simp add: registry_ok_def)
  from register_keeps_registry[OF this reg] show ?thesis unfolding reg by (simp add: registry_count_def)
qed

end
