(* ===== verification/AdminValues.thy ===== *)
theory AdminValues
  imports AdminModel
begin

text \<open>
  Values as text and back: what the admin shows (\<open>formatDisplayValue\<close>), what a form holds
  (\<open>formatInputValue\<close>), what a submitted form means (\<open>setFieldFromString\<close>, \<open>parsePKArg\<close>), and the filters
  of a listing (\<open>core/admin/filters.go\<close>).
\<close>

declare map_of_eq_Some_iff [simp del] AList.update_conv' [simp]

subsection \<open>Dates and times of the pages\<close>

text \<open>The layouts \<open>2006-01-02 15:04\<close> and \<open>2006-01-02T15:04\<close>: only the separator differs.\<close>

definition format_stamp :: "char \<Rightarrow> int \<Rightarrow> time \<Rightarrow> string" where
  "format_stamp sep zone t =
     (let local = nat (t div 1000000000 + zone * 60);
          s = local mod 86400;
          (y, yd) = year_of 1 (local div 86400);
          (m, d) = month_of 1 (month_lens y) yd
      in pad4 y @ ''-'' @ pad2 m @ ''-'' @ pad2 (d + 1) @ [sep] @ pad2 (s div 3600) @ '':'' @ pad2 (s div 60 mod 60))"

text \<open>The hour of \<open>time.Parse\<close> may have one digit.\<close>

definition parse_hour :: "string \<Rightarrow> (nat \<times> string) option" where
  "parse_hour s =
     (let n = (if length (takeWhile is_digit (take 2 s)) = 2 then 2 else 1)
      in map_option (\<lambda>h. (h, drop n s)) (field 0 23 (take n s)))"

definition parse_date_part :: "string \<Rightarrow> (nat \<times> nat \<times> nat) option" where
  "parse_date_part s =
     (if length s \<noteq> 10 \<or> s ! 4 \<noteq> CHR ''-'' \<or> s ! 7 \<noteq> CHR ''-'' then None
      else
        (case (field 0 9999 (take 4 s), field 1 12 (take 2 (drop 5 s))) of
           (Some y, Some m) \<Rightarrow> map_option (\<lambda>d. (y, m, d)) (field 1 (month_lens y ! (m - 1)) (drop 8 s))
         | _ \<Rightarrow> None))"

definition parse_stamp :: "string \<Rightarrow> time option" where
  "parse_stamp s =
     (case parse_date_part (take 10 s) of
        None \<Rightarrow> None
      | Some (y, m, d) \<Rightarrow>
          (case drop 10 s of
             [] \<Rightarrow> None
           | c # r \<Rightarrow>
               if c \<noteq> CHR ''T'' then None
               else (case parse_hour r of
                       None \<Rightarrow> None
                     | Some (hh, r1) \<Rightarrow>
                         if length r1 \<noteq> 3 \<or> hd r1 \<noteq> CHR '':'' then None
                         else map_option (\<lambda>mi. int (day_number y m d * 86400 + hh * 3600 + mi * 60) * 1000000000) (field 0 59 (tl r1)))))"

definition parse_date :: "string \<Rightarrow> time option" where
  "parse_date s = map_option (\<lambda>(y, m, d). int (day_number y m d * 86400) * 1000000000) (parse_date_part s)"

subsection \<open>Values shown\<close>

record admin_env =
  ae_zone :: "time \<Rightarrow> int"
  ae_float_text :: "rat \<Rightarrow> string"
  ae_parse_float :: "fkind \<Rightarrow> string \<Rightarrow> rat option"
  ae_other :: "goval \<Rightarrow> string"

fun display_scalar :: "admin_env \<Rightarrow> char \<Rightarrow> goval \<Rightarrow> string" where
  "display_scalar ae sep (GStr s) = s"
| "display_scalar ae sep (GBool b) = (if b then ''true'' else ''false'')"
| "display_scalar ae sep (GInt k i) = itoa i"
| "display_scalar ae sep (GUint k n) = utoa n"
| "display_scalar ae sep (GFloat k x) = ae_float_text ae x"
| "display_scalar ae sep (GTime t) = (if t = 0 then [] else format_stamp sep (ae_zone ae t) t)"
| "display_scalar ae sep v = ae_other ae v"

fun display_value :: "admin_env \<Rightarrow> char \<Rightarrow> goval \<Rightarrow> string" where
  "display_value ae sep (GPtr None) = []"
| "display_value ae sep (GPtr (Some v)) = display_scalar ae sep v"
| "display_value ae sep v = display_scalar ae sep v"

definition format_display_value :: "admin_env \<Rightarrow> bool \<Rightarrow> goval \<Rightarrow> string" where
  "format_display_value ae is_hash v = (if is_hash then [] else display_value ae (CHR '' '') v)"

definition format_input_value :: "admin_env \<Rightarrow> bool \<Rightarrow> goval \<Rightarrow> string" where
  "format_input_value ae is_hash v = (if is_hash then [] else display_value ae (CHR ''T'') v)"

record admin_row =
  ar_pk :: string
  ar_values :: "(string \<times> string) list"

text \<open>A map filled in field order; \<open>ar_pk\<close> is the value of the last field on the primary column.\<close>

definition row_from_struct :: "admin_env \<Rightarrow> admin_field list \<Rightarrow> string \<Rightarrow> goval list \<Rightarrow> admin_row" where
  "row_from_struct ae fds pk_column v =
     fold (\<lambda>f row. let x = format_display_value ae (af_is_hash f) (v ! af_go_index f)
                   in row\<lparr>ar_values := AList.update (af_column f) x (ar_values row),
                          ar_pk := (if af_column f = pk_column then x else ar_pk row)\<rparr>)
       fds \<lparr>ar_pk = [], ar_values = []\<rparr>"

definition row_from_struct_form :: "admin_env \<Rightarrow> admin_field list \<Rightarrow> string \<Rightarrow> goval list \<Rightarrow> admin_row" where
  "row_from_struct_form ae fds pk_column v =
     fold (\<lambda>f row. row\<lparr>ar_values := AList.update (af_column f) (format_input_value ae (af_is_hash f) (v ! af_go_index f)) (ar_values row),
                       ar_pk := (if af_column f = pk_column then format_display_value ae (af_is_hash f) (v ! af_go_index f) else ar_pk row)\<rparr>)
       fds \<lparr>ar_pk = [], ar_values = []\<rparr>"

subsection \<open>Values submitted\<close>

datatype form_error = BadNumber | BadDateTime | UnsupportedType

definition parse_uint :: "string \<Rightarrow> nat option" where
  "parse_uint s = (if s = [] \<or> \<not> list_all is_digit s \<or> 2 ^ 64 \<le> digits_val 0 s then None else Some (digits_val 0 s))"

fun ukind_bits :: "ukind \<Rightarrow> nat" where
  "ukind_bits KUint8 = 8" | "ukind_bits KUint16 = 16" | "ukind_bits KUint32 = 32"
| "ukind_bits KUint64 = 64" | "ukind_bits KUint = 64"

definition wrap_int :: "ikind \<Rightarrow> int \<Rightarrow> int" where
  "wrap_int k n = (n + 2 ^ (ikind_bits k - 1)) mod 2 ^ ikind_bits k - 2 ^ (ikind_bits k - 1)"

text \<open>\<open>setScalar\<close> on a field of a type; \<open>SetInt\<close> and \<open>SetUint\<close> keep the low bits of the field's width.\<close>

fun set_scalar :: "admin_env \<Rightarrow> go_type \<Rightarrow> string \<Rightarrow> form_error + goval" where
  "set_scalar ae TString raw = Inr (GStr raw)"
| "set_scalar ae TBool raw = Inr (GBool (raw \<in> {''on'', ''true'', ''1''}))"
| "set_scalar ae (TIntK k) raw =
     (if raw = [] then Inr (GInt k 0)
      else case atoi raw of (n, ok) \<Rightarrow> if ok then Inr (GInt k (wrap_int k n)) else Inl BadNumber)"
| "set_scalar ae (TUintK k) raw =
     (if raw = [] then Inr (GUint k 0)
      else case parse_uint raw of Some n \<Rightarrow> Inr (GUint k (n mod 2 ^ ukind_bits k)) | None \<Rightarrow> Inl BadNumber)"
| "set_scalar ae (TFloatK k) raw =
     (if raw = [] then Inr (GFloat k 0)
      else case ae_parse_float ae k raw of Some x \<Rightarrow> Inr (GFloat k x) | None \<Rightarrow> Inl BadNumber)"
| "set_scalar ae TTime raw =
     (if raw = [] then Inr (GTime 0) else case parse_stamp raw of Some t \<Rightarrow> Inr (GTime t) | None \<Rightarrow> Inl BadDateTime)"
| "set_scalar ae _ raw = Inl UnsupportedType"

fun set_field_from_string :: "admin_env \<Rightarrow> go_type \<Rightarrow> string \<Rightarrow> form_error + goval" where
  "set_field_from_string ae (TPtr t) raw =
     (if raw = [] then Inr (GPtr None)
      else case set_scalar ae t raw of Inl e \<Rightarrow> Inl e | Inr v \<Rightarrow> Inr (GPtr (Some v)))"
| "set_field_from_string ae t raw = set_scalar ae t raw"

fun parse_pk_arg :: "string \<Rightarrow> go_type \<Rightarrow> goval option" where
  "parse_pk_arg pk (TIntK k) = (case atoi pk of (n, ok) \<Rightarrow> if ok then Some (GInt KInt64 n) else None)"
| "parse_pk_arg pk (TUintK k) = map_option (GUint KUint64) (parse_uint pk)"
| "parse_pk_arg pk TString = Some (GStr pk)"
| "parse_pk_arg pk _ = None"

subsection \<open>Filters\<close>

record fk_option =
  fo_value :: string
  fo_label :: string

record filter_view =
  fv_column :: string
  fv_label :: string
  fv_is_range :: bool
  fv_is_date :: bool
  fv_options :: "fk_option list"
  fv_value :: string
  fv_min :: string
  fv_max :: string

datatype filter_cond = FilterCond (fc_col: string) (fc_op: string) (fc_val: goval)

fun convert_filter_scalar :: "admin_env \<Rightarrow> string \<Rightarrow> go_type \<Rightarrow> goval option" where
  "convert_filter_scalar ae raw TBool = Some (GBool (raw = ''true'' \<or> raw = ''1''))"
| "convert_filter_scalar ae raw (TIntK k) = (case atoi raw of (n, ok) \<Rightarrow> if ok then Some (GInt KInt64 n) else None)"
| "convert_filter_scalar ae raw (TUintK k) = map_option (GUint KUint64) (parse_uint raw)"
| "convert_filter_scalar ae raw (TFloatK k) = map_option (GFloat KFloat64) (ae_parse_float ae KFloat64 raw)"
| "convert_filter_scalar ae raw _ = Some (GStr raw)"

text \<open>
  \<open>buildFilterViews\<close>, with the reader of the query string and the loader of the options of a foreign
  key, whose error is only logged.
\<close>

fun build_filter_views ::
  "(string \<Rightarrow> string) \<Rightarrow> (string \<Rightarrow> string \<Rightarrow> 'w \<Rightarrow> (string option \<times> fk_option list) \<times> 'w) \<Rightarrow> admin_field list \<Rightarrow> 'w \<Rightarrow>
   filter_view list \<times> 'w"
where
  "build_filter_views qs fetch [] w = ([], w)"
| "build_filter_views qs fetch (f # fs) w =
     (let base = \<lparr>fv_column = af_column f, fv_label = af_label f, fv_is_range = False, fv_is_date = False, fv_options = [],
                  fv_value = [], fv_min = [], fv_max = []\<rparr>;
          key = ''f_'' @ af_column f;
          ranged = base\<lparr>fv_is_range := True, fv_min := qs (key @ ''_min''), fv_max := qs (key @ ''_max'')\<rparr>;
          cons = (\<lambda>(v, w1). case build_filter_views qs fetch fs w1 of (vs, w2) \<Rightarrow> (v # vs, w2))
      in case af_widget f of
           WCheckbox \<Rightarrow>
             cons (base\<lparr>fv_value := qs key, fv_options := [\<lparr>fo_value = ''true'', fo_label = ''Sim''\<rparr>,
                    \<lparr>fo_value = ''false'', fo_label = ''N'' @ [CHR 0xC3, CHR 0xA3] @ ''o''\<rparr>]\<rparr>, w)
         | WSelect \<Rightarrow>
             (case fetch (af_fk_table f) (af_fk_label f) w of
                ((_, opts), w1) \<Rightarrow> cons (base\<lparr>fv_value := qs key, fv_options := opts\<rparr>, w1))
         | WNumber \<Rightarrow> cons (ranged, w)
         | WNumberFloat \<Rightarrow> cons (ranged, w)
         | WDatetime \<Rightarrow> cons (ranged\<lparr>fv_is_date := True\<rparr>, w)
         | _ \<Rightarrow> build_filter_views qs fetch fs w)"

definition opt_cond :: "string \<Rightarrow> string \<Rightarrow> string \<Rightarrow> (string \<Rightarrow> goval option) \<Rightarrow> filter_cond list" where
  "opt_cond col fop raw conv =
     (if raw = [] then [] else case conv raw of None \<Rightarrow> [] | Some v \<Rightarrow> [FilterCond col fop v])"

definition filter_kind :: "admin_field list \<Rightarrow> string \<Rightarrow> go_type" where
  "filter_kind fds col = (case map_of (rev (map (\<lambda>f. (af_column f, af_kind f)) fds)) col of Some k \<Rightarrow> k | None \<Rightarrow> TOtherK)"

definition view_conds :: "admin_env \<Rightarrow> admin_field list \<Rightarrow> filter_view \<Rightarrow> filter_cond list" where
  "view_conds ae fds fv =
     (let conv = (\<lambda>raw. convert_filter_scalar ae raw (filter_kind fds (fv_column fv)))
      in if fv_is_date fv then
           opt_cond (fv_column fv) ''>='' (fv_min fv) (\<lambda>raw. map_option GTime (parse_date raw)) @
           opt_cond (fv_column fv) ''<'' (fv_max fv) (\<lambda>raw. map_option (\<lambda>t. GTime (t + 86400 * 1000000000)) (parse_date raw))
         else if fv_is_range fv then
           opt_cond (fv_column fv) ''>='' (fv_min fv) conv @ opt_cond (fv_column fv) ''<='' (fv_max fv) conv
         else opt_cond (fv_column fv) ''='' (fv_value fv) conv)"

definition filter_conds :: "admin_env \<Rightarrow> admin_field list \<Rightarrow> filter_view list \<Rightarrow> filter_cond list" where
  "filter_conds ae fds views = concat (map (view_conds ae fds) views)"

definition view_params :: "filter_view \<Rightarrow> (string \<times> string) list" where
  "view_params fv =
     filter (\<lambda>(k, v). v \<noteq> [])
       (if fv_is_range fv then [(''f_'' @ fv_column fv @ ''_min'', fv_min fv), (''f_'' @ fv_column fv @ ''_max'', fv_max fv)]
        else [(''f_'' @ fv_column fv, fv_value fv)])"

definition filter_url_params :: "filter_view list \<Rightarrow> (string \<times> string) list" where
  "filter_url_params views = fold (\<lambda>(k, v) m. AList.update k v m) (concat (map view_params views)) []"

subsection \<open>A form shown and submitted unchanged\<close>

lemma parse_hour_pad2: "h < 24 \<Longrightarrow> parse_hour (pad2 h @ r) = Some (h, r)"
proof -
  assume h: "h < 24"
  have "take 2 (pad2 h @ r) = pad2 h" "drop 2 (pad2 h @ r) = r" by (simp_all add: pad2_def)
  moreover have "length (takeWhile is_digit (pad2 h)) = 2" by (simp add: pad2_def)
  ultimately show ?thesis using field_pad2[of h 0 23] h by (simp add: parse_hour_def)
qed

lemma parse_date_part_pads:
  assumes "y < 10000" "1 \<le> m" "m \<le> 12" "1 \<le> d" "d \<le> month_lens y ! (m - 1)" "d < 100"
  shows "parse_date_part (pad4 y @ ''-'' @ pad2 m @ ''-'' @ pad2 d) = Some (y, m, d)"
proof -
  let ?s = "pad4 y @ ''-'' @ pad2 m @ ''-'' @ pad2 d"
  have f: "take 4 ?s = pad4 y" "take 2 (drop 5 ?s) = pad2 m" "drop 8 ?s = pad2 d" "\<not> (length ?s \<noteq> 10 \<or> ?s ! 4 \<noteq> CHR ''-'' \<or> ?s ! 7 \<noteq> CHR ''-'')"
    by (simp_all add: pad2_def pad4_def)
  have v: "field 0 9999 (pad4 y) = Some y" "field 1 12 (pad2 m) = Some m" "field 1 (month_lens y ! (m - 1)) (pad2 d) = Some d"
    using assms by (simp_all add: field_pad4 field_pad2)
  show ?thesis unfolding parse_date_part_def using f(4) by (simp only: if_False f v option.case prod.case option.map)
qed

lemma parse_format_stamp:
  assumes "formattable zone t"
  shows "parse_stamp (format_stamp (CHR ''T'') zone t) = Some ((t div 1000000000 + zone * 60) div 60 * 60 * 1000000000)"
proof -
  let ?l = "nat (t div 1000000000 + zone * 60)"
  let ?s = "?l mod 86400"
  obtain y yd where y: "year_of 1 (?l div 86400) = (y, yd)" by (cases "year_of 1 (?l div 86400)")
  obtain m d where m: "month_of 1 (month_lens y) yd = (m, d)" by (cases "month_of 1 (month_lens y) yd")
  have l: "int ?l = t div 1000000000 + zone * 60" and y4: "y < 10000" using assms y by (simp_all add: formattable_def)
  note cd = civil_day[OF y m]
  let ?dp = "pad4 y @ ''-'' @ pad2 m @ ''-'' @ pad2 (d + 1)"
  have f: "format_stamp (CHR ''T'') zone t = ?dp @ CHR ''T'' # pad2 (?s div 3600) @ CHR '':'' # pad2 (?s div 60 mod 60)"
    by (simp add: format_stamp_def Let_def y m del: One_nat_def)
  have t10: "take 10 (?dp @ r) = ?dp" "drop 10 (?dp @ r) = r" for r by (simp_all add: pad2_def pad4_def)
  have dp: "parse_date_part ?dp = Some (y, m, d + 1)" using cd(2-5) y4 by (intro parse_date_part_pads) simp_all
  have "?s < 86400" by simp
  from clock_fields[OF this] obtain hh mi ss where hms: "?s div 3600 = hh" "?s div 60 mod 60 = mi" "?s mod 60 = ss"
    and s: "hh \<le> 23" "mi \<le> 59" "hh * 3600 + mi * 60 + ss = ?s" by blast
  have h: "parse_hour (pad2 hh @ r) = Some (hh, r)" for r using s(1) by (intro parse_hour_pad2) simp
  have mi: "field 0 59 (pad2 mi) = Some mi" using s(2) by (intro field_pad2) simp_all
  have ss: "ss = ?l mod 60" unfolding hms(3)[symmetric] by (simp add: mod_mod_cancel)
  have "?l div 86400 * 86400 + ?s = ?l" by (rule div_mult_mod_eq)
  then have "day_number y m (d + 1) * 86400 + hh * 3600 + mi * 60 + ?l mod 60 = ?l" unfolding cd(6) ss[symmetric] s(3)[symmetric] by simp
  also have "?l = ?l div 60 * 60 + ?l mod 60" by (rule div_mult_mod_eq[symmetric])
  finally have "day_number y m (d + 1) * 86400 + hh * 3600 + mi * 60 = ?l div 60 * 60" by (simp only: add_right_cancel)
  then have i: "int (day_number y m (d + 1) * 86400 + hh * 3600 + mi * 60) = (t div 1000000000 + zone * 60) div 60 * 60"
    by (simp only: of_nat_mult of_nat_div l of_nat_numeral)
  have lr: "length (CHR '':'' # pad2 mi) = 3" by simp
  show ?thesis
    unfolding parse_stamp_def f hms t10 dp option.case prod.case list.case h
    using lr by (simp only: i mi option.map list.sel if_False simp_thms)
qed

text \<open>
  The values a field of a type can hold: times are those a page can show, and a floating-point number
  must be read back from its text, as \<open>strconv\<close> documents.
\<close>

fun scalar_ok :: "admin_env \<Rightarrow> go_type \<Rightarrow> goval \<Rightarrow> bool" where
  "scalar_ok ae TString v = (\<exists>s. v = GStr s)"
| "scalar_ok ae TBool v = (\<exists>b. v = GBool b)"
| "scalar_ok ae (TIntK k) v = (\<exists>i. v = GInt k i \<and> - (2 ^ (ikind_bits k - 1)) \<le> i \<and> i < 2 ^ (ikind_bits k - 1))"
| "scalar_ok ae (TUintK k) v = (\<exists>n. v = GUint k n \<and> n < 2 ^ ukind_bits k)"
| "scalar_ok ae (TFloatK k) v = (\<exists>x. v = GFloat k x \<and> ae_float_text ae x \<noteq> [] \<and> ae_parse_float ae k (ae_float_text ae x) = Some x)"
| "scalar_ok ae TTime v = (\<exists>t. v = GTime t \<and> (t = 0 \<or> formattable (ae_zone ae t) t))"
| "scalar_ok ae _ v = False"

fun value_ok :: "admin_env \<Rightarrow> go_type \<Rightarrow> goval \<Rightarrow> bool" where
  "value_ok ae (TPtr t) v = (v = GPtr None \<or> (\<exists>u. v = GPtr (Some u) \<and> scalar_ok ae t u))"
| "value_ok ae t v = scalar_ok ae t v"

text \<open>What the edit form turns a value into: a time is shown in the zone but read as UTC, to the minute.\<close>

fun resubmit_scalar :: "admin_env \<Rightarrow> goval \<Rightarrow> goval" where
  "resubmit_scalar ae (GTime t) = (if t = 0 then GTime 0 else GTime ((t div 1000000000 + ae_zone ae t * 60) div 60 * 60 * 1000000000))"
| "resubmit_scalar ae v = v"

fun resubmit :: "admin_env \<Rightarrow> goval \<Rightarrow> goval" where
  "resubmit ae (GPtr (Some v)) = (if v = GStr [] \<or> v = GTime 0 then GPtr None else GPtr (Some (resubmit_scalar ae v)))"
| "resubmit ae (GPtr None) = GPtr None"
| "resubmit ae v = resubmit_scalar ae v"

lemma utoa_nonempty: "utoa n \<noteq> []"
  by (simp add: utoa_ne)

lemma itoa_nonempty: "itoa i \<noteq> []"
  by (simp add: itoa_def utoa_ne)

lemma wrap_int_id: "- (2 ^ (ikind_bits k - 1)) \<le> i \<Longrightarrow> i < 2 ^ (ikind_bits k - 1) \<Longrightarrow> wrap_int k i = i"
  by (cases k) (simp_all add: wrap_int_def)

lemma parse_uint_utoa: "n < 2 ^ 64 \<Longrightarrow> parse_uint (utoa n) = Some n"
  using utoa_digits[of n] by (simp add: parse_uint_def utoa_ne digits_val_utoa)

lemma atoi_itoa: "min_int \<le> i \<Longrightarrow> i \<le> max_int \<Longrightarrow> atoi (itoa i) = (i, True)"
proof (cases "i < 0")
  case False
  assume "i \<le> max_int"
  with False show ?thesis using atoi_utoa[of "nat i"] by (simp add: itoa_def)
next
  case True
  assume "min_int \<le> i"
  with True show ?thesis using utoa_digits[of "nat (- i)"]
    by (simp add: atoi_def itoa_def digits_val_utoa Let_def max_int_def min_int_def)
qed

lemma int_bounds: "- (2 ^ (ikind_bits k - 1)) \<le> i \<Longrightarrow> i < 2 ^ (ikind_bits k - 1) \<Longrightarrow> min_int \<le> i \<and> i \<le> max_int"
  by (cases k) (simp_all add: min_int_def max_int_def)

lemma ukind_bound: "n < 2 ^ ukind_bits k \<Longrightarrow> n < (2 ^ 64 :: nat)"
  by (cases k) simp_all

lemma format_stamp_nonempty: "format_stamp sep zone t \<noteq> []"
  by (simp add: format_stamp_def Let_def pad4_def pad2_def split: prod.split)

lemma scalar_resubmitted:
  assumes "scalar_ok ae ty v"
  shows "set_scalar ae ty (display_scalar ae (CHR ''T'') v) = Inr (resubmit_scalar ae v)"
  using assms
proof (cases ty)
  case (TIntK k)
  with assms(1) obtain i where i: "v = GInt k i" "- (2 ^ (ikind_bits k - 1)) \<le> i" "i < 2 ^ (ikind_bits k - 1)" by auto
  then show ?thesis using TIntK int_bounds[OF i(2,3)] by (simp add: atoi_itoa itoa_nonempty wrap_int_id)
next
  case (TUintK k)
  with assms(1) obtain n where n: "v = GUint k n" "n < 2 ^ ukind_bits k" by auto
  then show ?thesis using TUintK ukind_bound[OF n(2)] by (simp add: parse_uint_utoa)
qed (auto simp: parse_format_stamp format_stamp_nonempty)

lemma display_scalar_empty:
  "scalar_ok ae ty v \<Longrightarrow> display_scalar ae sep v = [] \<longleftrightarrow> v = GStr [] \<or> v = GTime 0"
  by (cases ty) (auto simp: itoa_nonempty format_stamp_nonempty split: if_splits)


definition sample_env :: admin_env where
  "sample_env = \<lparr>ae_zone = (\<lambda>t. -180), ae_float_text = (\<lambda>x. itoa (fst (quotient_of x))), ae_parse_float = (\<lambda>k s. None), ae_other = (\<lambda>v. [])\<rparr>"


end
