(* ===== verification/Json.thy ===== *)
theory Json
  imports Sessions
begin

text \<open>
  \<open>json.Marshal\<close> and \<open>json.Unmarshal\<close> of the standard library for a map from strings to strings, as the
  audit log of the admin uses them. Text is valid UTF-8 without the line separators U+2028 and U+2029;
  the decoder gives \<open>None\<close> for a syntax error and for a value of another type, which are both errors of
  \<open>Unmarshal\<close>.
\<close>

declare map_of_eq_Some_iff [simp del] AList.update_conv' [simp]

subsection \<open>Encoding\<close>

definition json_char :: "char \<Rightarrow> string" where
  "json_char c =
     (if c = CHR 0x22 \<or> c = CHR 0x5C then [CHR 0x5C, c]
      else if c = CHR 0x08 then [CHR 0x5C, CHR ''b'']
      else if c = CHR 0x0C then [CHR 0x5C, CHR ''f'']
      else if c = CHR 0x0A then [CHR 0x5C, CHR ''n'']
      else if c = CHR 0x0D then [CHR 0x5C, CHR ''r'']
      else if c = CHR 0x09 then [CHR 0x5C, CHR ''t'']
      else if (of_char c :: nat) < 32 \<or> c \<in> {CHR ''<'', CHR ''>'', CHR ''&''}
        then [CHR 0x5C, CHR ''u'', CHR ''0'', CHR ''0'', hex_digit (of_char c div 16), hex_digit (of_char c mod 16)]
      else [c])"

definition json_string :: "string \<Rightarrow> string" where
  "json_string s = [CHR 0x22] @ concat (map json_char s) @ [CHR 0x22]"

text \<open>The keys are written in order.\<close>

definition json_object :: "(string \<times> string) list \<Rightarrow> string" where
  "json_object m =
     ''{'' @ join '','' (map (\<lambda>k. json_string k @ '':'' @ json_string (the (map_of m k))) (sort (remdups (map fst m)))) @ ''}''"

subsection \<open>Decoding\<close>

definition json_ws :: "char \<Rightarrow> bool" where
  "json_ws c \<longleftrightarrow> c \<in> {CHR '' '', CHR 0x09, CHR 0x0A, CHR 0x0D}"

definition hex_val :: "char \<Rightarrow> nat option" where
  "hex_val c =
     (let n = of_char c in
      if is_digit c then Some (n - 48) else if 97 \<le> n \<and> n \<le> 102 then Some (n - 87)
      else if 65 \<le> n \<and> n \<le> 70 then Some (n - 55) else None)"

fun hex4 :: "string \<Rightarrow> nat option" where
  "hex4 [a, b, c, d] =
     (case (hex_val a, hex_val b, hex_val c, hex_val d) of
        (Some w, Some x, Some y, Some z) \<Rightarrow> Some (w * 4096 + x * 256 + y * 16 + z) | _ \<Rightarrow> None)"
| "hex4 _ = None"

definition utf8 :: "nat \<Rightarrow> string" where
  "utf8 n =
     (if n < 0x80 then [char_of n]
      else if n < 0x800 then [char_of (0xC0 + n div 64), char_of (0x80 + n mod 64)]
      else if n < 0x10000 then [char_of (0xE0 + n div 4096), char_of (0x80 + n div 64 mod 64), char_of (0x80 + n mod 64)]
      else [char_of (0xF0 + n div 262144), char_of (0x80 + n div 4096 mod 64), char_of (0x80 + n div 64 mod 64), char_of (0x80 + n mod 64)])"

text \<open>The rune of an escape \<open>\u\<close>: a surrogate pair takes a second escape, a lone surrogate is U+FFFD.\<close>

definition u_escape :: "nat \<Rightarrow> string \<Rightarrow> string \<times> string" where
  "u_escape n r =
     (if 0xD800 \<le> n \<and> n < 0xE000 then
        (case (if take 2 r = [CHR 0x5C, CHR ''u''] then hex4 (take 4 (drop 2 r)) else None) of
           Some m \<Rightarrow> if n < 0xDC00 \<and> 0xDC00 \<le> m \<and> m < 0xE000
                     then (utf8 (0x10000 + (n - 0xD800) * 1024 + (m - 0xDC00)), drop 6 r) else (utf8 0xFFFD, r)
         | None \<Rightarrow> (utf8 0xFFFD, r))
      else (utf8 n, r))"

definition plain_escapes :: "(char \<times> char) list" where
  "plain_escapes =
     [(CHR 0x22, CHR 0x22), (CHR 0x5C, CHR 0x5C), (CHR ''/'', CHR ''/''), (CHR ''b'', CHR 0x08), (CHR ''f'', CHR 0x0C),
      (CHR ''n'', CHR 0x0A), (CHR ''r'', CHR 0x0D), (CHR ''t'', CHR 0x09)]"

text \<open>The characters up to the closing quote and what follows it.\<close>

function json_chars :: "string \<Rightarrow> (string \<times> string) option" where
  "json_chars [] = None"
| "json_chars (c # cs) =
     (if c = CHR 0x22 then Some ([], cs)
      else if c = CHR 0x5C then
        (if cs = [] then None
         else if hd cs = CHR ''u'' then
           (case hex4 (take 4 (tl cs)) of
              None \<Rightarrow> None
            | Some n \<Rightarrow> (case json_chars (snd (u_escape n (drop 5 cs))) of
                           None \<Rightarrow> None | Some (s, rest) \<Rightarrow> Some (fst (u_escape n (drop 5 cs)) @ s, rest)))
         else
           (case map_of plain_escapes (hd cs) of
              None \<Rightarrow> None
            | Some d \<Rightarrow> (case json_chars (tl cs) of None \<Rightarrow> None | Some (s, rest) \<Rightarrow> Some (d # s, rest))))
      else if (of_char c :: nat) < 32 then None
      else (case json_chars cs of None \<Rightarrow> None | Some (s, rest) \<Rightarrow> Some (c # s, rest)))"
  by pat_completeness auto
termination
  by (relation "measure length") (auto simp: u_escape_def split: option.split if_splits)

declare json_chars.simps [simp del]

lemma length_u_escape: "length (snd (u_escape n r)) \<le> length r"
  by (auto simp: u_escape_def split: option.split)

lemma json_chars_shorter: "json_chars s = Some (t, r) \<Longrightarrow> length r < length s"
proof (induction s arbitrary: t r rule: json_chars.induct)
  case (2 c cs)
  show ?case
  proof (cases "c = CHR 0x22 \<or> c \<noteq> CHR 0x5C")
    case True
    then show ?thesis using 2 by (auto simp: json_chars.simps(2)[of c cs] split: if_splits option.splits prod.splits dest: less_SucI)
  next
    case False
    then have c: "c \<noteq> CHR 0x22" "c = CHR 0x5C" by simp_all
    note eq = 2(4)[unfolded json_chars.simps(2)[of c cs]]
    from eq c have ne: "cs \<noteq> []" by (cases "cs = []") simp_all
    show ?thesis
    proof (cases "hd cs = CHR ''u''")
      case True
      then obtain n s1 where n: "hex4 (take 4 (tl cs)) = Some n" "json_chars (snd (u_escape n (drop 5 cs))) = Some (s1, r)"
        using eq c ne by (auto split: option.splits)
      from 2(1)[OF c ne True n] length_u_escape[of n "drop 5 cs"] show ?thesis by simp
    next
      case False
      then obtain d s1 where d: "map_of plain_escapes (hd cs) = Some d" "json_chars (tl cs) = Some (s1, r)"
        using eq c ne by (auto split: option.splits)
      from 2(2)[OF c ne False d] show ?thesis by simp
    qed
  qed
qed (simp add: json_chars.simps)

definition json_value :: "string \<Rightarrow> (string \<times> string) option" where
  "json_value s =
     (if s \<noteq> [] \<and> hd s = CHR 0x22 then json_chars (tl s)
      else if has_prefix s ''null'' then Some ([], drop 4 s) else None)"

lemma json_value_shorter: "json_value s = Some (v, r) \<Longrightarrow> length r < length s"
  using json_chars_shorter[of "tl s" v r] by (cases s) (auto simp: json_value_def prefix_def split: if_splits)

text \<open>The members of an object from a key on, into the map read so far.\<close>

function json_members :: "string \<Rightarrow> (string \<times> string) list \<Rightarrow> ((string \<times> string) list \<times> string) option" where
  "json_members s m =
     (let s1 = dropWhile json_ws s
      in if s1 = [] \<or> hd s1 \<noteq> CHR 0x22 then None
         else (case json_chars (tl s1) of
                 None \<Rightarrow> None
               | Some (k, r1) \<Rightarrow>
                   (let r2 = dropWhile json_ws r1
                    in if r2 = [] \<or> hd r2 \<noteq> CHR '':'' then None
                       else (case json_value (dropWhile json_ws (tl r2)) of
                               None \<Rightarrow> None
                             | Some (v, r3) \<Rightarrow>
                                 (let r4 = dropWhile json_ws r3; m1 = AList.update k v m
                                  in if r4 = [] then None
                                     else if hd r4 = CHR '','' then json_members (tl r4) m1
                                     else if hd r4 = CHR ''}'' then Some (m1, tl r4) else None)))))"
  by pat_completeness auto
termination
proof (relation "measure (\<lambda>(s, m). length s)", goal_cases)
  case (2 s m s1 x k r1 r2 y v r3 r4 m1)
  note ws = length_dropWhile_le[of json_ws]
  have "length r1 < length s1" using 2 json_chars_shorter by fastforce
  moreover have "length r3 < length (dropWhile json_ws (tl r2))" using 2 json_value_shorter by blast
  ultimately show ?case using 2 ws[of s] ws[of r1] ws[of r3] ws[of "tl r2"] by simp
qed simp

declare json_members.simps [simp del]

text \<open>\<open>Unmarshal\<close> of the whole text; \<open>null\<close> leaves the map nil.\<close>

definition json_decode :: "string \<Rightarrow> (string \<times> string) list option" where
  "json_decode s =
     (let s1 = dropWhile json_ws s; at_end = list_all json_ws
      in if has_prefix s1 ''null'' \<and> at_end (drop 4 s1) then Some []
         else if s1 = [] \<or> hd s1 \<noteq> CHR ''{'' then None
         else (let s2 = dropWhile json_ws (tl s1)
               in if s2 \<noteq> [] \<and> hd s2 = CHR ''}'' then (if at_end (tl s2) then Some [] else None)
                  else (case json_members s2 [] of Some (m, rest) \<Rightarrow> if at_end rest then Some m else None | None \<Rightarrow> None)))"

subsection \<open>Decoding what was encoded\<close>

lemma hex_val_digit: "n < 16 \<Longrightarrow> hex_val (hex_digit n) = Some n"
  by (cases "n < 10") (simp_all add: hex_val_def hex_digit_def is_digit_def Let_def)

lemma hex4_code: "(of_char c :: nat) < 128 \<Longrightarrow>
  hex4 [CHR ''0'', CHR ''0'', hex_digit (of_char c div 16), hex_digit (of_char c mod 16)] = Some (of_char c)"
proof -
  assume c: "(of_char c :: nat) < 128"
  have "hex_val (CHR ''0'') = Some 0" by code_simp
  moreover have "hex_val (hex_digit (of_char c div 16)) = Some (of_char c div 16)" "hex_val (hex_digit (of_char c mod 16)) = Some (of_char c mod 16)"
    using c by (simp_all add: hex_val_digit)
  ultimately show ?thesis by simp
qed

lemma json_chars_char: "json_chars (json_char c @ t) = map_option (\<lambda>(s, r). (c # s, r)) (json_chars t)"
proof -
  note j = json_chars.simps(2)
  have esc: "json_chars (CHR 0x5C # e # t) = map_option (\<lambda>(s, r). (d # s, r)) (json_chars t)"
    if "map_of plain_escapes e = Some d" "e \<noteq> CHR ''u''" for e d
    unfolding j[of "CHR 0x5C"] using that by (auto split: option.split)
  have pl: "json_chars (c # t) = map_option (\<lambda>(s, r). (c # s, r)) (json_chars t)"
    if "c \<noteq> CHR 0x22" "c \<noteq> CHR 0x5C" "32 \<le> (of_char c :: nat)"
    unfolding j[of c] using that by (auto split: option.split)
  have ue: "json_chars (CHR 0x5C # CHR ''u'' # CHR ''0'' # CHR ''0'' # hex_digit (of_char c div 16) # hex_digit (of_char c mod 16) # t) =
      map_option (\<lambda>(s, r). (c # s, r)) (json_chars t)" if "(of_char c :: nat) < 128"
    unfolding j[of "CHR 0x5C"] using that hex4_code[OF that] by (auto simp: u_escape_def utf8_def split: option.split)
  have low: "(of_char c :: nat) < 128" if "(of_char c :: nat) < 32 \<or> c \<in> {CHR ''<'', CHR ''>'', CHR ''&''}" using that by auto
  consider "c = CHR 0x22 \<or> c = CHR 0x5C" | "c = CHR 0x08" | "c = CHR 0x0C" | "c = CHR 0x0A" | "c = CHR 0x0D" | "c = CHR 0x09"
    | (uni) "c \<notin> {CHR 0x22, CHR 0x5C, CHR 0x08, CHR 0x0C, CHR 0x0A, CHR 0x0D, CHR 0x09}" "(of_char c :: nat) < 32 \<or> c \<in> {CHR ''<'', CHR ''>'', CHR ''&''}"
    | (plain) "c \<notin> {CHR 0x22, CHR 0x5C, CHR 0x08, CHR 0x0C, CHR 0x0A, CHR 0x0D, CHR 0x09}" "32 \<le> (of_char c :: nat)" "c \<notin> {CHR ''<'', CHR ''>'', CHR ''&''}"
    by fastforce
  then show ?thesis
  proof cases
    case uni
    then have "json_char c = [CHR 0x5C, CHR ''u'', CHR ''0'', CHR ''0'', hex_digit (of_char c div 16), hex_digit (of_char c mod 16)]"
      by (simp add: json_char_def)
    then show ?thesis using ue[OF low[OF uni(2)]] by simp
  next
    case plain
    then have "json_char c = [c]" by (simp add: json_char_def)
    then show ?thesis using pl plain by simp
  next
    case 1
    then show ?thesis using esc[of c c] by (auto simp: json_char_def plain_escapes_def)
  qed (simp_all add: json_char_def esc plain_escapes_def)
qed

lemma json_chars_string: "json_chars (concat (map json_char s) @ CHR 0x22 # r) = Some (s, r)"
  by (induction s) (simp_all add: json_chars_char json_chars.simps(2)[of "CHR 0x22"])

lemma json_value_string: "json_value (json_string s @ r) = Some (s, r)"
  by (simp add: json_value_def json_string_def json_chars_string)

lemma drop_ws: "\<not> json_ws c \<Longrightarrow> dropWhile json_ws (c # r) = c # r"
  by simp

lemma not_ws: "\<not> json_ws (CHR 0x22)" "\<not> json_ws (CHR '':'')" "\<not> json_ws (CHR '','')" "\<not> json_ws (CHR ''}'')" "\<not> json_ws (CHR ''{'')"
  by (simp_all add: json_ws_def)

text \<open>One member and the separator or brace after it.\<close>

lemma json_members_member:
  "json_members (json_string k @ CHR '':'' # json_string v @ CHR '','' # r) m = json_members r (AList.update k v m)"
  "json_members (json_string k @ CHR '':'' # json_string v @ CHR ''}'' # r) m = Some (AList.update k v m, r)"
proof -
  have k: "json_string k @ x = CHR 0x22 # concat (map json_char k) @ CHR 0x22 # x" for k x by (simp add: json_string_def)
  have v: "json_value (CHR 0x22 # concat (map json_char v) @ CHR 0x22 # x) = Some (v, x)" for x
    using json_value_string[of v x] by (simp add: json_string_def)
  show "json_members (json_string k @ CHR '':'' # json_string v @ CHR '','' # r) m = json_members r (AList.update k v m)"
    by (subst json_members.simps) (simp add: k not_ws json_chars_string v Let_def)
  show "json_members (json_string k @ CHR '':'' # json_string v @ CHR ''}'' # r) m = Some (AList.update k v m, r)"
    by (subst json_members.simps) (simp add: k not_ws json_chars_string v Let_def)
qed

lemma json_members_list:
  assumes "ks \<noteq> []" "distinct ks" "set ks \<inter> fst ` set m = {}"
  shows "json_members (join '','' (map (\<lambda>k. json_string k @ '':'' @ json_string (f k)) ks) @ ''}'' @ r) m = Some (m @ map (\<lambda>k. (k, f k)) ks, r)"
  using assms
proof (induction ks arbitrary: m)
  case (Cons k ks)
  have u: "AList.update k (f k) m = m @ [(k, f k)]" using Cons.prems(3) by (intro AList_update_fresh) auto
  show ?case
  proof (cases "ks = []")
    case True
    then show ?thesis using json_members_member(2)[of k "f k" r m] u by (simp add: join_Cons)
  next
    case False
    have "json_members (join '','' (map (\<lambda>k. json_string k @ '':'' @ json_string (f k)) (k # ks)) @ ''}'' @ r) m =
        json_members (join '','' (map (\<lambda>k. json_string k @ '':'' @ json_string (f k)) ks) @ ''}'' @ r) (AList.update k (f k) m)"
      using False json_members_member(1)[of k "f k" "join '','' (map (\<lambda>k. json_string k @ '':'' @ json_string (f k)) ks) @ ''}'' @ r" m]
      by (simp add: join_Cons)
    also have "\<dots> = Some ((m @ [(k, f k)]) @ map (\<lambda>k. (k, f k)) ks, r)"
      unfolding u using Cons.prems False by (intro Cons.IH) auto
    finally show ?thesis by simp
  qed
qed simp

lemma json_object_roundtrip:
  "json_decode (json_object m) = Some (map (\<lambda>k. (k, the (map_of m k))) (sort (remdups (map fst m))))"
proof (cases "m = []")
  case True
  then show ?thesis by (simp add: json_decode_def json_object_def not_ws prefix_def Let_def)
next
  case False
  let ?ks = "sort (remdups (map fst m))" and ?f = "\<lambda>k. the (map_of m k)"
  have "set ?ks \<noteq> {}" using False by simp
  then have ks: "?ks \<noteq> []" "distinct ?ks" by (auto simp del: set_sort)
  obtain k ks' where k: "?ks = k # ks'" using ks(1) by (cases ?ks) auto
  let ?b = "join '','' (map (\<lambda>k. json_string k @ '':'' @ json_string (?f k)) ?ks)"
  have hd: "\<exists>t. ?b = CHR 0x22 # t" unfolding k by (simp add: join_Cons json_string_def)
  then obtain t where t: "?b = CHR 0x22 # t" by blast
  have "json_members (?b @ ''}'' @ []) [] = Some ([] @ map (\<lambda>k. (k, ?f k)) ?ks, [])"
    by (rule json_members_list[OF ks]) simp
  then have "json_members (?b @ ''}'') [] = Some (map (\<lambda>k. (k, ?f k)) ?ks, [])" by (simp only: append_Nil append_Nil2)
  then show ?thesis unfolding json_decode_def json_object_def t
    by (simp add: not_ws prefix_def Let_def)
qed

end
