(* ===== verification/AdminCrud.thy ===== *)
theory AdminCrud
  imports AdminValues Json
begin

text \<open>
  The operations of the admin on the rows of a model: \<open>core/admin/crud.go\<close>, the options of foreign keys
  (\<open>core/admin/fkoptions.go\<close>), the audit log (\<open>core/admin/history.go\<close>) and the upload of images
  (\<open>core/admin/upload.go\<close>). \<open>crud_env\<close> holds what they run on: the connection and codec of the ORM
  model, the file system, the content sniffing of \<open>net/http\<close>. The closures over the model's type
  are functions of the registered model.
\<close>

declare map_of_eq_Some_iff [simp del] AList.update_conv' [simp]

record upload =
  up_filename :: string
  up_content :: string

text \<open>\<open>FormFile\<close>: no file for the field, an unreadable form, or a file.\<close>

datatype file_lookup = NoFile | BadFile | HasFile upload

record ('w, 's, 'r) crud_env =
  ce_env :: admin_env
  ce_codec :: "'r codec"
  ce_exec :: "('w, 's) sql_exec"
  ce_driver :: string
  ce_schema :: string
  ce_detect :: "string \<Rightarrow> string"
  ce_mkdir :: "string \<Rightarrow> 'w \<Rightarrow> bool \<times> 'w"
  ce_create_file :: "string \<Rightarrow> string \<Rightarrow> 'w \<Rightarrow> bool \<times> 'w"

datatype admin_error = OrmErr orm_error | InvalidPK string | RequiredField string | FieldErr string form_error
  | UploadErr string string | FKLabelErr string string string | OptionsErr string string | AdminPanic string

subsection \<open>Foreign key options\<close>

definition fk_options_limit :: nat where "fk_options_limit = 1000"

definition find_local_fk_column :: "'w registry \<Rightarrow> string \<Rightarrow> string \<Rightarrow> string option" where
  "find_local_fk_column reg table target =
     (case concat (map (\<lambda>rm. map af_column (filter (\<lambda>f. af_is_fk f \<and> af_fk_table f = target) (rm_fields rm)))
             (filter (\<lambda>rm. m_table (rm_meta rm) = table) (models_ordered reg))) of
        [] \<Rightarrow> None | c # _ \<Rightarrow> Some c)"

fun fk_label_parts ::
  "'w registry \<Rightarrow> string \<Rightarrow> string \<Rightarrow> nat \<Rightarrow> string list \<Rightarrow> (string \<times> string) list \<Rightarrow>
   admin_error + string list \<times> string list"
where
  "fk_label_parts reg table label i [] seen = Inr ([], [])"
| "fk_label_parts reg table label i (part # parts) seen =
     (let coalesce = (\<lambda>a c. ''COALESCE('' @ a @ ''.'' @ c @ '', '' @ [CHR 0x27, CHR 0x27] @ '')'')
      in case cut_chr (CHR ''.'') part of (join_table, remote, found) \<Rightarrow>
        if \<not> found then
          (case fk_label_parts reg table label (Suc i) parts seen of
             Inl e \<Rightarrow> Inl e | Inr (ss, js) \<Rightarrow> Inr (coalesce table part # ss, js))
        else
          (case map_of seen join_table of
             Some alias \<Rightarrow>
               (case fk_label_parts reg table label (Suc i) parts seen of
                  Inl e \<Rightarrow> Inl e | Inr (ss, js) \<Rightarrow> Inr (coalesce alias remote # ss, js))
           | None \<Rightarrow>
               (case find_local_fk_column reg table join_table of
                  None \<Rightarrow> Inl (FKLabelErr label table join_table)
                | Some local_col \<Rightarrow>
                    (let alias = ''fkj'' @ utoa i
                     in case fk_label_parts reg table label (Suc i) parts ((join_table, alias) # seen) of
                          Inl e \<Rightarrow> Inl e
                        | Inr (ss, js) \<Rightarrow>
                            Inr (coalesce alias remote # ss,
                              (''LEFT JOIN '' @ join_table @ '' '' @ alias @ '' ON '' @ alias @ ''.id = '' @ table @ ''.'' @ local_col) # js)))))"

definition build_fk_label_expr :: "'w registry \<Rightarrow> string \<Rightarrow> string \<Rightarrow> admin_error + string \<times> string list" where
  "build_fk_label_expr reg table label_col =
     (if label_col = [] then Inr (table @ ''.id'', [])
      else (case fk_label_parts reg table label_col 0 (split_chr (CHR ''+'') label_col) [] of
              Inl e \<Rightarrow> Inl e
            | Inr (ss, js) \<Rightarrow>
                Inr (''UPPER('' @ join ('' || '' @ [CHR 0x27] @ '' - '' @ [CHR 0x27] @ '' || '') ss @ '')'', js)))"

fun cell_to_string :: "admin_env \<Rightarrow> goval \<Rightarrow> string" where
  "cell_to_string ae GNil = []"
| "cell_to_string ae (GBytes b) = b"
| "cell_to_string ae (GStr s) = s"
| "cell_to_string ae (GInt k i) = itoa i"
| "cell_to_string ae (GBool b) = (if b then ''true'' else ''false'')"
| "cell_to_string ae v = ae_other ae v"

definition options_query :: "string \<Rightarrow> string \<Rightarrow> string list \<Rightarrow> string" where
  "options_query table label_expr joins =
     ''SELECT '' @ table @ ''.id, '' @ label_expr @ '' AS label FROM '' @ table @ '' '' @ join '' '' joins @
     '' ORDER BY label LIMIT '' @ utoa fk_options_limit"

fun scan_options :: "admin_env \<Rightarrow> goval list list \<Rightarrow> fk_option list option" where
  "scan_options ae [] = Some []"
| "scan_options ae ([a, b] # rows) =
     map_option (\<lambda>os. \<lparr>fo_value = cell_to_string ae a, fo_label = cell_to_string ae b\<rparr> # os) (scan_options ae rows)"
| "scan_options ae (_ # rows) = None"

definition fetch_fk_options ::
  "'v registry \<Rightarrow> ('w, 's, 'r) crud_env \<Rightarrow> string \<Rightarrow> string \<Rightarrow> 'w \<Rightarrow> (admin_error option \<times> fk_option list) \<times> 'w"
where
  "fetch_fk_options reg ce table label_col w =
     (case build_fk_label_expr reg table label_col of
        Inl e \<Rightarrow> ((Some e, []), w)
      | Inr (label_expr, joins) \<Rightarrow>
          (case x_query (ce_exec ce) (options_query table label_expr joins) [] w of
             (Inl e, w1) \<Rightarrow> ((Some (OptionsErr ''query'' table), []), w1)
           | (Inr rs, w1) \<Rightarrow>
               (case scan_options (ce_env ce) (r_data rs) of
                  None \<Rightarrow> ((Some (OptionsErr ''scan'' table), []), w1)
                | Some opts \<Rightarrow> ((map_option (\<lambda>_. OptionsErr ''rows'' table) (r_err rs), opts), w1))))"

definition relabel_rows :: "string \<Rightarrow> fk_option list \<Rightarrow> admin_row list \<Rightarrow> admin_row list" where
  "relabel_rows col opts rows =
     (let by_id = map_of (rev (map (\<lambda>f. (fo_value f, fo_label f)) opts))
      in map (\<lambda>row. case by_id (case map_of (ar_values row) col of Some v \<Rightarrow> v | None \<Rightarrow> []) of
                None \<Rightarrow> row | Some l \<Rightarrow> row\<lparr>ar_values := AList.update col l (ar_values row)\<rparr>) rows)"

fun resolve_fk_labels ::
  "'v registry \<Rightarrow> ('w, 's, 'r) crud_env \<Rightarrow> admin_field list \<Rightarrow> admin_row list \<Rightarrow> 'w \<Rightarrow> (admin_error + admin_row list) \<times> 'w"
where
  "resolve_fk_labels reg ce [] rows w = (Inr rows, w)"
| "resolve_fk_labels reg ce (f # fs) rows w =
     (if \<not> af_is_fk f \<or> af_fk_label f = [] then resolve_fk_labels reg ce fs rows w
      else (case fetch_fk_options reg ce (af_fk_table f) (af_fk_label f) w of
              ((Some e, _), w1) \<Rightarrow> (Inl e, w1)
            | ((None, opts), w1) \<Rightarrow> resolve_fk_labels reg ce fs (relabel_rows (af_column f) opts rows) w1))"

subsection \<open>Uploads\<close>

definition allowed_image_types :: "string list" where
  "allowed_image_types = [''image/jpeg'', ''image/png'', ''image/gif'', ''image/webp'']"

definition safe_name_char :: "char \<Rightarrow> bool" where
  "safe_name_char c \<longleftrightarrow> is_upper c \<or> is_lower c \<or> is_digit c \<or> c \<in> {CHR ''.'', CHR ''_'', CHR ''-''}"

text \<open>\<open>filepath.Base\<close> on slashes.\<close>

definition path_base :: "string \<Rightarrow> string" where
  "path_base p =
     (if p = [] then ''.''
      else (let q = rev (dropWhile (\<lambda>c. c = CHR ''/'') (rev p))
            in if q = [] then ''/'' else rev (takeWhile (\<lambda>c. c \<noteq> CHR ''/'') (rev q))))"

text \<open>Each longest run of other characters becomes one underscore.\<close>

fun replace_unsafe :: "bool \<Rightarrow> string \<Rightarrow> string" where
  "replace_unsafe in_run [] = []"
| "replace_unsafe in_run (c # cs) =
     (if safe_name_char c then c # replace_unsafe False cs
      else if in_run then replace_unsafe True cs else CHR ''_'' # replace_unsafe True cs)"

definition sanitize_filename :: "string \<Rightarrow> string" where
  "sanitize_filename name =
     (let n = replace_unsafe False (path_base name) in if n \<in> {[], ''.'', ''/''} then ''arquivo'' else n)"

definition save_uploaded_image ::
  "('w, 's, 'r) crud_env \<Rightarrow> string \<Rightarrow> string \<Rightarrow> upload \<Rightarrow> 'r \<Rightarrow> 'w \<Rightarrow> (string + string) \<times> 'r \<times> 'w"
where
  "save_uploaded_image ce app table u r w =
     (if ce_detect ce (take 512 (up_content u)) \<notin> set allowed_image_types then (Inl ''type'', r, w)
      else
        (let dir = ''medias/'' @ app @ ''/'' @ table
         in case ce_mkdir ce dir w of
              (False, w1) \<Rightarrow> (Inl ''mkdir'', r, w1)
            | (True, w1) \<Rightarrow>
                (case cd_rnd (ce_codec ce) 8 r of
                   (bytes, r1) \<Rightarrow>
                     (let name = hex_encode bytes @ ''_'' @ sanitize_filename (up_filename u)
                      in case ce_create_file ce (dir @ ''/'' @ name) (up_content u) w1 of
                           (False, w2) \<Rightarrow> (Inl ''write'', r1, w2)
                         | (True, w2) \<Rightarrow> (Inr (''/medias/'' @ app @ ''/'' @ table @ ''/'' @ name), r1, w2)))))"

definition upload_field_value ::
  "('w, 's, 'r) crud_env \<Rightarrow> string \<Rightarrow> string \<Rightarrow> admin_field \<Rightarrow> (string \<Rightarrow> file_lookup) \<Rightarrow> 'r \<Rightarrow> 'w \<Rightarrow>
   (admin_error + string option) \<times> 'r \<times> 'w"
where
  "upload_field_value ce app table f files r w =
     (case files (af_column f) of
        NoFile \<Rightarrow> (Inr None, r, w)
      | BadFile \<Rightarrow> (Inl (UploadErr (af_label f) ''form''), r, w)
      | HasFile u \<Rightarrow>
          (case save_uploaded_image ce app table u r w of
             (Inl e, r1, w1) \<Rightarrow> (Inl (UploadErr (af_label f) e), r1, w1)
           | (Inr path, r1, w1) \<Rightarrow> (Inr (Some path), r1, w1)))"

subsection \<open>The audit log\<close>

record actor =
  ac_user_id :: int
  ac_username :: string

text \<open>The model \<open>HistoryLog\<close>: its struct, its metadata and an entry.\<close>

definition history_struct :: go_struct where
  "history_struct = \<lparr>gs_name = ''HistoryLog'', gs_fields =
     [\<lparr>gf_name = ''ID'', gf_exported = True, gf_type = TIntK KInt64, gf_tag = ''pk''\<rparr>,
      \<lparr>gf_name = ''ModelSlug'', gf_exported = True, gf_type = TString, gf_tag = ''column:model_slug,size:100''\<rparr>,
      \<lparr>gf_name = ''Label'', gf_exported = True, gf_type = TString, gf_tag = ''size:150''\<rparr>,
      \<lparr>gf_name = ''RecordPK'', gf_exported = True, gf_type = TString, gf_tag = ''column:record_pk,size:100''\<rparr>,
      \<lparr>gf_name = ''Action'', gf_exported = True, gf_type = TString, gf_tag = ''size:40''\<rparr>,
      \<lparr>gf_name = ''Changes'', gf_exported = True, gf_type = TString, gf_tag = ''column:changes''\<rparr>,
      \<lparr>gf_name = ''UserID'', gf_exported = True, gf_type = TIntK KInt64, gf_tag = ''column:user_id''\<rparr>,
      \<lparr>gf_name = ''Username'', gf_exported = True, gf_type = TString, gf_tag = ''size:150''\<rparr>,
      \<lparr>gf_name = ''CreatedAt'', gf_exported = True, gf_type = TTime, gf_tag = ''column:created_at,autonow_add''\<rparr>]\<rparr>"

definition history_meta :: model_meta where
  "history_meta = (case build_meta history_struct of Inr m \<Rightarrow> m | Inl _ \<Rightarrow> \<lparr>m_table = [], m_fields = [], m_pk = None\<rparr>)"

definition history_entry :: "'v registered_model \<Rightarrow> actor \<Rightarrow> string \<Rightarrow> string \<Rightarrow> string \<Rightarrow> goval list" where
  "history_entry rm ac action record_pk changes =
     [GInt KInt64 0, GStr (rm_slug rm), GStr (rm_label rm), GStr record_pk, GStr action, GStr changes,
      GInt KInt64 (ac_user_id ac), GStr (ac_username ac), GTime 0]"

text \<open>\<open>fmt.Sprint\<close> on a value; a pointer prints its address, which \<open>ae_other\<close> gives.\<close>

fun sprint :: "admin_env \<Rightarrow> goval \<Rightarrow> string" where
  "sprint ae (GStr s) = s"
| "sprint ae (GInt k i) = itoa i"
| "sprint ae (GUint k n) = utoa n"
| "sprint ae (GBool b) = (if b then ''true'' else ''false'')"
| "sprint ae GNil = ''<nil>''"
| "sprint ae (GPtr None) = ''<nil>''"
| "sprint ae v = ae_other ae v"

definition field_values_map :: "goval list \<Rightarrow> admin_field list \<Rightarrow> (string \<times> goval) list" where
  "field_values_map v fds = fold (\<lambda>f m. if af_is_pk f then m else AList.update (af_column f) (v ! af_go_index f) m) fds []"

definition secret_column :: "admin_field list \<Rightarrow> string \<Rightarrow> bool" where
  "secret_column fds col =
     (case map_of (rev (map (\<lambda>f. (af_column f, f)) fds)) col of None \<Rightarrow> False | Some f \<Rightarrow> af_is_hash f \<or> af_is_encrypt f)"

definition redacted :: "admin_env \<Rightarrow> admin_field list \<Rightarrow> (string \<times> goval) list \<Rightarrow> (string \<times> string) list" where
  "redacted ae fds changes = map (\<lambda>(c, v). (c, if secret_column fds c then ''***'' else sprint ae v)) changes"

definition redacted_changes_json :: "admin_env \<Rightarrow> admin_field list \<Rightarrow> (string \<times> goval) list \<Rightarrow> string" where
  "redacted_changes_json ae fds changes = (if changes = [] then [] else json_object (redacted ae fds changes))"

text \<open>An error of the log is printed and dropped.\<close>

definition log_history ::
  "('w, 's, 'r) crud_env \<Rightarrow> 'v registered_model \<Rightarrow> actor \<Rightarrow> string \<Rightarrow> string \<Rightarrow> (string \<times> goval) list \<Rightarrow> 'r \<Rightarrow> 'w \<Rightarrow> 'r \<times> 'w"
where
  "log_history ce rm ac action record_pk changes r w =
     (case create_into (ce_codec ce) (ce_exec ce) (ce_driver ce) (ce_schema ce) history_meta
        (history_entry rm ac action record_pk (redacted_changes_json (ce_env ce) (rm_fields rm) changes)) r w of
        (_, _, r1, w1) \<Rightarrow> (r1, w1))"

definition log_bulk_history ::
  "('w, 's, 'r) crud_env \<Rightarrow> 'v registered_model \<Rightarrow> actor \<Rightarrow> string \<Rightarrow> string list \<Rightarrow> 'r \<Rightarrow> 'w \<Rightarrow> 'r \<times> 'w"
where
  "log_bulk_history ce rm ac action pks r w =
     (case create_all_into (ce_codec ce) (ce_exec ce) (ce_driver ce) (ce_schema ce) history_meta
        (map (\<lambda>pk. history_entry rm ac action pk []) pks) r w of
        (_, _, r1, w1) \<Rightarrow> (r1, w1))"

definition format_changes :: "string \<Rightarrow> string" where
  "format_changes raw =
     (if raw = [] then []
      else (case json_decode raw of
              None \<Rightarrow> []
            | Some m \<Rightarrow> join '', '' (map (\<lambda>c. c @ '': '' @ the (map_of m c)) (sort (map fst m)))))"

subsection \<open>Rows\<close>

abbreviation model_query :: "('w, 's, 'r) crud_env \<Rightarrow> 'v registered_model \<Rightarrow> query" where
  "model_query ce rm \<equiv> new_query (ce_driver ce) (ce_schema ce) (rm_meta rm)"

definition apply_search :: "string list \<Rightarrow> string \<Rightarrow> query \<Rightarrow> query" where
  "apply_search cols needle q =
     where_raw (''('' @ join '' OR '' (map (\<lambda>c. ''LOWER('' @ c @ '') LIKE ?'') cols) @ '')'')
       (map (\<lambda>_. GStr (''%'' @ to_lower needle @ ''%'')) cols) q"

definition apply_cond :: "filter_cond \<Rightarrow> query \<Rightarrow> query" where
  "apply_cond fc q =
     (if fc_op fc \<in> {''='', ''>='', ''<='', ''<''} then where_op (fc_col fc) (fc_op fc) (fc_val fc) False q else q)"

definition list_query :: "'v registered_model \<Rightarrow> string \<Rightarrow> string \<Rightarrow> bool \<Rightarrow> filter_cond list \<Rightarrow> query \<Rightarrow> query" where
  "list_query rm needle sort_col sort_desc conds q =
     (let q1 = (if needle \<noteq> [] \<and> rm_search_cols rm \<noteq> [] then apply_search (rm_search_cols rm) needle q else q);
          q2 = fold apply_cond conds q1
      in if sort_col \<noteq> [] then order_by [sort_col @ '' '' @ (if sort_desc then ''DESC'' else ''ASC'')] q2
         else order_by [rm_pk_column rm @ '' DESC''] q2)"

definition admin_list ::
  "'v registry \<Rightarrow> ('w, 's, 'r) crud_env \<Rightarrow> 'v registered_model \<Rightarrow> int \<Rightarrow> int \<Rightarrow> string \<Rightarrow> string \<Rightarrow> bool \<Rightarrow> filter_cond list \<Rightarrow> 'w \<Rightarrow>
   (admin_error + admin_row list \<times> bool) \<times> 'w"
where
  "admin_list reg ce rm page page_size needle sort_col sort_desc conds w =
     (case paginate_no_count (ce_codec ce) (ce_exec ce) (rm_zero rm) page page_size
        (list_query rm needle sort_col sort_desc conds (model_query ce rm)) w of
        (Inl e, w1) \<Rightarrow> (Inl (OrmErr e), w1)
      | (Inr p, w1) \<Rightarrow>
          (case resolve_fk_labels reg ce (rm_fields rm)
             (map (row_from_struct (ce_env ce) (rm_fields rm) (rm_pk_column rm)) (pg_items p)) w1 of
             (Inl e, w2) \<Rightarrow> (Inl e, w2)
           | (Inr rows, w2) \<Rightarrow> (Inr (rows, pg_has_next p), w2)))"

definition pk_query :: "'v registered_model \<Rightarrow> goval \<Rightarrow> query \<Rightarrow> query" where
  "pk_query rm arg q = where_raw (rm_pk_column rm @ '' = ?'') [arg] q"

definition admin_get ::
  "('w, 's, 'r) crud_env \<Rightarrow> 'v registered_model \<Rightarrow> string \<Rightarrow> 'w \<Rightarrow> (admin_error + admin_row) \<times> 'w"
where
  "admin_get ce rm pk w =
     (case parse_pk_arg pk (rm_pk_kind rm) of
        None \<Rightarrow> (Inl (InvalidPK pk), w)
      | Some arg \<Rightarrow>
          (case first_q (ce_codec ce) (ce_exec ce) (rm_zero rm) (pk_query rm arg (model_query ce rm)) w of
             (Inl e, w1) \<Rightarrow> (Inl (OrmErr e), w1)
           | (Inr item, w1) \<Rightarrow> (Inr (row_from_struct_form (ce_env ce) (rm_fields rm) (rm_pk_column rm) item), w1)))"

definition form_get :: "(string \<times> string list) list \<Rightarrow> string \<Rightarrow> string" where
  "form_get form k = (case map_of form k of Some (v # _) \<Rightarrow> v | _ \<Rightarrow> [])"

definition generated_field :: "admin_field \<Rightarrow> bool" where
  "generated_field f \<longleftrightarrow> af_is_pk f \<or> af_is_autonow f \<or> af_is_autonow_add f \<or> af_is_nanoid f"

text \<open>
  The loop over the fields that \<open>create\<close> and \<open>update\<close> share: the struct and the values to write. They
  differ on a blank hashed field (an error against a field kept). \<open>SetString\<close> panics on a pointer.
\<close>

fun fill_fields ::
  "('w, 's, 'r) crud_env \<Rightarrow> 'v registered_model \<Rightarrow> bool \<Rightarrow> (string \<times> string list) list \<Rightarrow> (string \<Rightarrow> file_lookup) \<Rightarrow>
   admin_field list \<Rightarrow> goval list \<Rightarrow> (string \<times> goval) list \<Rightarrow> 'r \<Rightarrow> 'w \<Rightarrow>
   (admin_error + goval list \<times> (string \<times> goval) list) \<times> 'r \<times> 'w"
where
  "fill_fields ce rm is_edit form files [] v vals r w = (Inr (v, vals), r, w)"
| "fill_fields ce rm is_edit form files (f # fs) v vals r w =
     (let ty = gf_type (gs_fields (rm_struct rm) ! af_go_index f); raw = form_get form (af_column f)
      in if generated_field f then fill_fields ce rm is_edit form files fs v vals r w
         else if af_is_image f then
           (case upload_field_value ce (rm_app rm) (m_table (rm_meta rm)) f files r w of
              (Inl e, r1, w1) \<Rightarrow> (Inl e, r1, w1)
            | (Inr None, r1, w1) \<Rightarrow> fill_fields ce rm is_edit form files fs v vals r1 w1
            | (Inr (Some path), r1, w1) \<Rightarrow>
                if ty = TString
                then fill_fields ce rm is_edit form files fs (v[af_go_index f := GStr path]) (AList.update (af_column f) (GStr path) vals) r1 w1
                else (Inl (AdminPanic ''reflect: SetString''), r1, w1))
         else if af_is_hash f \<and> raw = [] then
           (if is_edit then fill_fields ce rm is_edit form files fs v vals r w else (Inl (RequiredField (af_label f)), r, w))
         else (case set_field_from_string (ce_env ce) ty raw of
                 Inl e \<Rightarrow> (Inl (FieldErr (af_label f) e), r, w)
               | Inr x \<Rightarrow>
                   fill_fields ce rm is_edit form files fs (v[af_go_index f := x]) (AList.update (af_column f) x vals) r w))"

definition pk_field_of :: "admin_field list \<Rightarrow> admin_field option" where
  "pk_field_of fds = find af_is_pk fds"

definition admin_create ::
  "('w, 's, 'r) crud_env \<Rightarrow> 'v registered_model \<Rightarrow> (string \<times> string list) list \<Rightarrow> (string \<Rightarrow> file_lookup) \<Rightarrow> actor \<Rightarrow> 'r \<Rightarrow> 'w \<Rightarrow>
   admin_error option \<times> 'r \<times> 'w"
where
  "admin_create ce rm form files ac r w =
     (case fill_fields ce rm False form files (rm_fields rm) (rm_zero rm) [] r w of
        (Inl e, r1, w1) \<Rightarrow> (Some e, r1, w1)
      | (Inr (v, _), r1, w1) \<Rightarrow>
          (case create_into (ce_codec ce) (ce_exec ce) (ce_driver ce) (ce_schema ce) (rm_meta rm) v r1 w1 of
             (Some e, _, r2, w2) \<Rightarrow> (Some (OrmErr e), r2, w2)
           | (None, v2, r2, w2) \<Rightarrow>
               (let idx = (case pk_field_of (rm_fields rm) of Some f \<Rightarrow> af_go_index f | None \<Rightarrow> 0)
                in case log_history ce rm ac ''create'' (format_display_value (ce_env ce) False (v2 ! idx))
                          (field_values_map v2 (rm_fields rm)) r2 w2 of
                     (r3, w3) \<Rightarrow> (None, r3, w3))))"

definition admin_update ::
  "('w, 's, 'r) crud_env \<Rightarrow> 'v registered_model \<Rightarrow> string \<Rightarrow> (string \<times> string list) list \<Rightarrow> (string \<Rightarrow> file_lookup) \<Rightarrow> actor \<Rightarrow> 'r \<Rightarrow> 'w \<Rightarrow>
   admin_error option \<times> 'r \<times> 'w"
where
  "admin_update ce rm pk form files ac r w =
     (case parse_pk_arg pk (rm_pk_kind rm) of
        None \<Rightarrow> (Some (InvalidPK pk), r, w)
      | Some arg \<Rightarrow>
          (case fill_fields ce rm True form files (rm_fields rm) (rm_zero rm) [] r w of
             (Inl e, r1, w1) \<Rightarrow> (Some e, r1, w1)
           | (Inr (_, vals), r1, w1) \<Rightarrow>
               if vals = [] then (None, r1, w1)
               else (case update_q (ce_codec ce) (ce_exec ce) vals (pk_query rm arg (model_query ce rm)) r1 w1 of
                       (Some e, r2, w2) \<Rightarrow> (Some (OrmErr e), r2, w2)
                     | (None, r2, w2) \<Rightarrow>
                         (case log_history ce rm ac ''update'' pk vals r2 w2 of (r3, w3) \<Rightarrow> (None, r3, w3)))))"

definition admin_delete ::
  "('w, 's, 'r) crud_env \<Rightarrow> 'v registered_model \<Rightarrow> string \<Rightarrow> actor \<Rightarrow> 'r \<Rightarrow> 'w \<Rightarrow> admin_error option \<times> 'r \<times> 'w"
where
  "admin_delete ce rm pk ac r w =
     (case parse_pk_arg pk (rm_pk_kind rm) of
        None \<Rightarrow> (Some (InvalidPK pk), r, w)
      | Some arg \<Rightarrow>
          (case delete_q (ce_exec ce) (pk_query rm arg (model_query ce rm)) w of
             (Some e, w1) \<Rightarrow> (Some (OrmErr e), r, w1)
           | (None, w1) \<Rightarrow> (case log_history ce rm ac ''delete'' pk [] r w1 of (r2, w2) \<Rightarrow> (None, r2, w2))))"

text \<open>The built-in bulk action.\<close>

definition delete_many :: "('w, 's, 'r) crud_env \<Rightarrow> 'v registered_model \<Rightarrow> goval list \<Rightarrow> 'w \<Rightarrow> orm_error option \<times> 'w" where
  "delete_many ce rm pks w = delete_q (ce_exec ce) (where_in (rm_pk_column rm) pks (model_query ce rm)) w"

text \<open>\<open>EnsureAllTables\<close>: every table is tried, the errors are collected by label.\<close>

definition ensure_all_tables ::
  "(string \<Rightarrow> 'w \<Rightarrow> dberr option \<times> 'w) \<Rightarrow> string \<Rightarrow> 'v registry \<Rightarrow> 'w \<Rightarrow> (string \<times> orm_error) list \<times> 'w"
where
  "ensure_all_tables exec driver reg w =
     fold (\<lambda>(label, meta, t) (errs, w1). case ensure_sqlite_table exec driver meta t w1 of
             (Some e, w2) \<Rightarrow> (errs @ [(label, e)], w2) | (None, w2) \<Rightarrow> (errs, w2))
       ((''historico'', history_meta, history_struct) # map (\<lambda>rm. (rm_label rm, rm_meta rm, rm_struct rm)) (models_ordered reg)) ([], w)"

end
