(* ===== verification/AdminRows.thy ===== *)
theory AdminRows
  imports AdminCrud
begin

text \<open>
  What the operations of the admin on rows guarantee: the listing's statement is well formed and its text
  does not depend on what the user typed, an edit writes the editable columns only, every statement
  carries one argument per placeholder, the audit log reads back what was recorded with secrets masked,
  and an upload stays in its directory.
\<close>

declare map_of_eq_Some_iff [simp del] AList.update_conv' [simp]

subsection \<open>The listing\<close>

text \<open>Columns as the naming rules of the ORM give them: letters, digits and underscores.\<close>

definition plain_column :: "string \<Rightarrow> bool" where
  "plain_column c \<longleftrightarrow> c \<noteq> [] \<and> ident_start (hd c) \<and> list_all ident_char c"

lemma plain_column_ident: "plain_column c \<Longrightarrow> valid_ident c"
  by (rule valid_ident_name) (auto simp: plain_column_def list_all_iff)

lemma plain_column_dir:
  assumes "plain_column c" and "d = ''DESC'' \<or> d = ''ASC''"
  shows "valid_ident (c @ '' '' @ d)"
proof -
  obtain a as where c: "c = a # as" using assms(1) by (cases c) (auto simp: plain_column_def)
  have a: "ident_start a" "\<forall>x\<in>set as. ident_char x" using assms(1) c by (auto simp: plain_column_def list_all_iff)
  have ns: "\<not> is_space a" using a(1) by (auto simp: ident_start_def is_space_def char_defs)
  have l: "\<not> is_space (last d)" "d \<noteq> []" using assms(2) by (auto simp: is_space_def)
  have "trim_space (c @ '' '' @ d) = c @ '' '' @ d"
    using ns l by (intro trim_by_id) (auto simp: c)
  moreover have "dropWhile ident_char (as @ '' '' @ d) = '' '' @ d"
    using a(2) by (simp add: dropWhile_append2 ident_char_def ident_start_def char_defs)
  moreover have "to_upper (dropWhile re_space d) = d"
    using assms(2) by (auto simp: re_space_def to_upper_def to_upper_c_def char_defs)
  ultimately show ?thesis using a(1) assms(2) by (auto simp: valid_ident_def c re_dir_def re_space_def)
qed

abbreviation plain_columns :: "'v registered_model \<Rightarrow> bool" where
  "plain_columns rm \<equiv> \<forall>f\<in>set (rm_fields rm). plain_column (af_column f)"

lemma sum_marks_search: "\<forall>c\<in>set cols. marks c = 0 \<Longrightarrow> sum_list (map (\<lambda>c. marks (''LOWER('' @ c @ '') LIKE ?'')) cols) = length cols"
  by (induction cols) auto

lemma search_args: "list_all plain_column cols \<Longrightarrow>
  marks (''('' @ join '' OR '' (map (\<lambda>c. ''LOWER('' @ c @ '') LIKE ?'') cols) @ '')'') = length cols"
  using sum_marks_search[of cols] by (auto simp: comp_def list_all_iff plain_column_ident)

lemma conds_error_free:
  assumes "list_all (\<lambda>fc. plain_column (fc_col fc)) conds" "q_err q = None" "balanced q"
  shows "q_err (fold apply_cond conds q) = None \<and> balanced (fold apply_cond conds q)"
  using assms
proof (induction conds arbitrary: q)
  case (Cons fc conds)
  let ?q = "apply_cond fc q"
  have v: "valid_ident (fc_col fc)" using Cons.prems(1) by (simp add: plain_column_ident)
  have "q_err ?q = None" using Cons.prems(2) v by (simp add: apply_cond_def where_op_def)
  moreover have "balanced ?q" using Cons.prems(3) v by (auto simp: apply_cond_def where_op_def balanced_def)
  ultimately show ?case using Cons.IH[of ?q] Cons.prems(1) by simp
qed simp

text \<open>Two lists of conditions on the same columns with the same operators.\<close>

definition same_shape :: "filter_cond list \<Rightarrow> filter_cond list \<Rightarrow> bool" where
  "same_shape cs ds \<longleftrightarrow> map (\<lambda>c. (fc_col c, fc_op c)) cs = map (\<lambda>c. (fc_col c, fc_op c)) ds"

definition text_part :: "query \<Rightarrow> query" where
  "text_part q = q\<lparr>q_args := []\<rparr>"

lemma text_part_cond: "fc_col c = fc_col d \<Longrightarrow> fc_op c = fc_op d \<Longrightarrow> text_part q = text_part p \<Longrightarrow>
  text_part (apply_cond c q) = text_part (apply_cond d p)"
  by (cases q, cases p) (auto simp: text_part_def apply_cond_def where_op_def)

lemma text_part_conds: "same_shape cs ds \<Longrightarrow> text_part q = text_part p \<Longrightarrow>
  text_part (fold apply_cond cs q) = text_part (fold apply_cond ds p)"
proof (induction cs arbitrary: ds q p)
  case (Cons c cs)
  then obtain d ds' where d: "ds = d # ds'" "fc_col c = fc_col d" "fc_op c = fc_op d" "same_shape cs ds'"
    by (auto simp: same_shape_def)
  show ?case using Cons.IH[OF d(4) text_part_cond[OF d(2,3) Cons.prems(2)]] d(1) by simp
qed (auto simp: same_shape_def)

lemma text_part_order: "text_part q = text_part p \<Longrightarrow> text_part (order_by cs q) = text_part (order_by cs p)"
  by (cases q, cases p) (auto simp: text_part_def order_by_def split: option.split)

lemma text_part_text: "text_part q = text_part p \<Longrightarrow> select_text q = select_text p \<and> q_driver q = q_driver p"
  by (cases q, cases p) (auto simp: text_part_def text_defs)

lemma list_text_fixed:
  assumes "(needle = []) = (needle' = [])" "same_shape conds conds'"
  shows "text_part (list_query rm needle sort_col desc conds q) = text_part (list_query rm needle' sort_col desc conds' q)"
proof -
  have "text_part (apply_search cols needle q) = text_part (apply_search cols needle' q)" for cols
    by (cases q) (simp add: text_part_def apply_search_def where_raw_def)
  with assms show ?thesis
    by (auto simp: list_query_def Let_def intro!: text_part_order text_part_conds)
qed

lemma view_conds_cols: "fc \<in> set (view_conds ae fds fv) \<Longrightarrow> fc_col fc = fv_column fv"
  by (auto simp: view_conds_def opt_cond_def Let_def split: if_splits option.splits)

lemma build_views_cols:
  "build_filter_views qs fetch fs w = (views, w') \<Longrightarrow> v \<in> set views \<Longrightarrow> fv_column v \<in> af_column ` set fs"
proof (induction fs arbitrary: w w' views)
  case (Cons f fs)
  show ?case
  proof (cases "build_filter_views qs fetch fs w = (views, w')")
    case True
    then show ?thesis using Cons by auto
  next
    case False
    with Cons.prems(1) obtain b w1 vs where b: "build_filter_views qs fetch fs w1 = (vs, w')" "views = b # vs" "fv_column b = af_column f"
      by (auto simp: Let_def split: widget.splits prod.splits)
    then show ?thesis using Cons.IH[OF b(1)] Cons.prems(2) by auto
  qed
qed simp

lemma build_views_cols_conds:
  assumes "model_ok rm" "plain_columns rm" "build_filter_views qs fetch (rm_filter_fields rm) w = (views, w1)"
  shows "list_all (\<lambda>fc. plain_column (fc_col fc)) (filter_conds ae (rm_filter_fields rm) views)"
proof -
  have sub: "set (rm_filter_fields rm) \<subseteq> set (rm_fields rm)" using assms(1) by (simp add: model_ok_def)
  have "plain_column (fc_col fc)" if "fv \<in> set views" "fc \<in> set (view_conds ae (rm_filter_fields rm) fv)" for fv fc
    using view_conds_cols[OF that(2)] build_views_cols[OF assms(3) that(1)] assms(2) sub by auto
  then show ?thesis by (auto simp: filter_conds_def list_all_iff)
qed

definition has_column :: "'v registered_model \<Rightarrow> string \<Rightarrow> bool" where
  "has_column rm col \<longleftrightarrow> list_ex (\<lambda>f. af_column f = col) (rm_fields rm)"

lemma model_query_ok:
  "marks (m_table (rm_meta rm)) = 0 \<Longrightarrow> marks (ce_schema ce) = 0 \<Longrightarrow>
   q_err (model_query ce rm) = None \<and> balanced (model_query ce rm)"
  by (simp add: new_query_def balanced_def)

lemma pk_column_plain: "model_ok rm \<Longrightarrow> plain_columns rm \<Longrightarrow> plain_column (rm_pk_column rm)"
proof -
  assume m: "model_ok rm" and p: "plain_columns rm"
  then obtain pk where pk: "m_pk (rm_meta rm) = Some pk" "rm_pk_column rm = f_column pk" by (auto simp: model_ok_def)
  have "find f_is_pk (m_fields (rm_meta rm)) = Some pk" using build_meta_facts(3)[of "rm_struct rm" "rm_meta rm"] m pk(1) by (simp add: model_ok_def)
  then have "pk \<in> set (m_fields (rm_meta rm))" by (auto simp: find_Some_iff)
  moreover have "set (map af_column (rm_fields rm)) = set (map f_column (m_fields (rm_meta rm)))" using m by (simp add: model_ok_def)
  ultimately have "rm_pk_column rm \<in> af_column ` set (rm_fields rm)" using pk(2) by auto
  with p show ?thesis by auto
qed

lemma list_query_ok:
  assumes "model_ok rm" "plain_columns rm" "sort_col = [] \<or> has_column rm sort_col"
    and "list_all (\<lambda>fc. plain_column (fc_col fc)) conds" "q_err q = None" "balanced q"
  shows "q_err (list_query rm needle sort_col desc conds q) = None \<and> balanced (list_query rm needle sort_col desc conds q)"
proof -
  let ?cs = "rm_search_cols rm"
  let ?q1 = "if needle \<noteq> [] \<and> ?cs \<noteq> [] then apply_search ?cs needle q else q"
  let ?col = "if sort_col \<noteq> [] then sort_col @ '' '' @ (if desc then ''DESC'' else ''ASC'') else rm_pk_column rm @ '' DESC''"
  have cs: "list_all plain_column ?cs" using assms(1,2) by (auto simp: model_ok_def list_all_iff)
  have "q_err ?q1 = None \<and> balanced ?q1"
    using assms(5,6) search_args[OF cs] by (auto simp: apply_search_def where_raw_def balanced_def)
  then have q2: "q_err (fold apply_cond conds ?q1) = None" "balanced (fold apply_cond conds ?q1)"
    using conds_error_free[OF assms(4)] by blast+
  have "valid_ident ?col"
    using assms(2,3) plain_column_dir[of sort_col] plain_column_dir[OF pk_column_plain[OF assms(1,2)], of "''DESC''"]
    by (auto simp: has_column_def list_ex_iff)
  then have "q_err (order_by [?col] p) = q_err p \<and> (balanced p \<longrightarrow> balanced (order_by [?col] p))" for p
    by (simp add: order_by_def balanced_def)
  moreover have "list_query rm needle sort_col desc conds q = order_by [?col] (fold apply_cond conds ?q1)"
    unfolding list_query_def Let_def by (cases "sort_col = []") simp_all
  ultimately show ?thesis using q2 by (simp only: simp_thms)
qed

text \<open>
  C13: Whatever the query string of a listing holds (the text searched, the values of the filters,
  the column sorted by, once it is checked against the model), the query built has no error, the
  statement of the page carries one argument per placeholder, and its text does not depend on what was
  typed: two requests that fill the same filters get the same SQL, so that user input reaches the database
  as arguments only.
\<close>

theorem listing_query_safe:
  assumes "model_ok rm" "plain_columns rm" "sort_col = [] \<or> has_column rm sort_col"
    and "marks (m_table (rm_meta rm)) = 0" "marks (ce_schema ce) = 0"
    and "build_filter_views qs fetch (rm_filter_fields rm) w = (views, w1)"
    and "build_filter_views qs' fetch' (rm_filter_fields rm) w' = (views', w1')"
    and "conds = filter_conds ae (rm_filter_fields rm) views" "conds' = filter_conds ae' (rm_filter_fields rm) views'"
    and "q = list_query rm needle sort_col desc conds (model_query ce rm)"
    and "q' = list_query rm needle' sort_col desc conds' (model_query ce rm)"
  shows "q_err q = None \<and> sendable (ce_driver ce) (fst (build_select_page p off q)) (snd (build_select_page p off q)) \<and>
    ((needle = []) = (needle' = []) \<and> same_shape conds conds' \<longrightarrow>
       fst (build_select_page p off q) = fst (build_select_page p' off' q'))"
proof (intro conjI impI)
  have b: "q_err q = None \<and> balanced q"
    unfolding assms(10) assms(8)
    by (rule list_query_ok[OF assms(1-3) build_views_cols_conds[OF assms(1,2,6)]]) (use model_query_ok[OF assms(4,5)] in simp_all)
  then show "q_err q = None" by simp
  have t: "text_part q = text_part q'" if "(needle = []) = (needle' = [])" "same_shape conds conds'"
    unfolding assms(10,11) by (rule list_text_fixed[OF that])
  have d: "q_driver q = ce_driver ce"
  proof -
    have ap: "q_driver (fold apply_cond cs x) = q_driver x" for cs x
      by (induction cs arbitrary: x) (auto simp: apply_cond_def where_op_def)
    have ob: "q_driver (order_by cs x) = q_driver x" for cs x by (auto simp: order_by_def split: option.split)
    show ?thesis unfolding assms(10) by (auto simp: list_query_def Let_def ob ap apply_search_def where_raw_def new_query_def)
  qed
  show "sendable (ce_driver ce) (fst (build_select_page p off q)) (snd (build_select_page p off q))"
    using sendable_page[of q p off] b d by (cases "build_select_page p off q") simp
  show "fst (build_select_page p off q) = fst (build_select_page p' off' q')"
    if "(needle = []) = (needle' = []) \<and> same_shape conds conds'"
    using text_part_text[OF t] that by (simp add: build_select_page_def build_select_page_raw_def)
qed

subsection \<open>Every statement of the operations\<close>

text \<open>The file system of uploads keeps what the database's world keeps.\<close>

definition files_keep :: "('w, 's, 'r) crud_env \<Rightarrow> ('w \<Rightarrow> bool) \<Rightarrow> bool" where
  "files_keep ce P \<longleftrightarrow> (\<forall>d c w. P w \<longrightarrow> P (snd (ce_mkdir ce d w)) \<and> P (snd (ce_create_file ce d c w)))"

lemma upload_keeps:
  assumes "files_keep ce P" "P w"
  shows "P (snd (snd (upload_field_value ce app table f files r w)))"
  using assms unfolding upload_field_value_def save_uploaded_image_def files_keep_def
  by (auto simp: Let_def split: file_lookup.splits prod.splits bool.splits) (metis snd_conv)+

lemma fill_fields_keeps:
  assumes "files_keep ce P" "P w"
  shows "P (snd (snd (fill_fields ce rm e form files fs v vals r w)))"
  using assms(2)
proof (induction fs arbitrary: v vals r w)
  case (Cons f fs)
  obtain u r1 w1 where u: "upload_field_value ce (rm_app rm) (m_table (rm_meta rm)) f files r w = (u, r1, w1)" by (metis prod_cases3)
  have "P w1" using upload_keeps[OF assms(1) Cons.prems, of "rm_app rm" "m_table (rm_meta rm)" f files r] u by simp
  then show ?case using Cons u by (auto simp: Let_def split: sum.splits option.splits)
qed simp

lemma history_insertable:
  "insertable history_struct history_meta" "marks (m_table history_meta) = 0"
proof -
  have "case build_meta history_struct of Inl e \<Rightarrow> False
      | Inr m \<Rightarrow> list_all (\<lambda>f. CHR ''?'' \<notin> set (f_default f)) (m_fields m) \<and> CHR ''?'' \<notin> set (m_table m)" by code_simp
  then obtain m where m: "build_meta history_struct = Inr m" "\<forall>f\<in>set (m_fields m). CHR ''?'' \<notin> set (f_default f)" "CHR ''?'' \<notin> set (m_table m)"
    by (auto simp: list_all_iff split: sum.splits)
  then have "history_meta = m" by (simp add: history_meta_def)
  with m show "insertable history_struct history_meta" "marks (m_table history_meta) = 0"
    by (simp_all add: insertable_def count_list_0)
qed

lemma log_history_keeps:
  assumes "marks (ce_schema ce) = 0" "guards (ce_exec ce) (sendable (ce_driver ce)) P" "P w"
    and "log_history ce rm ac action pk changes r w = (r', w')"
  shows "P w'"
proof -
  let ?q = "new_query (ce_driver ce) (ce_schema ce) history_meta"
  obtain e v r1 where c: "create_into (ce_codec ce) (ce_exec ce) (ce_driver ce) (ce_schema ce) history_meta
      (history_entry rm ac action pk (redacted_changes_json (ce_env ce) (rm_fields rm) changes)) r w = (e, v, r1, w')"
    using assms(4) by (auto simp: log_history_def split: prod.splits)
  have "balanced ?q" using history_insertable assms(1) by (simp add: new_query_def balanced_def)
  from create_guarded[OF this, of history_struct "ce_exec ce" P w] history_insertable(1) assms(2,3)
  have "P (snd (snd (snd (create_into cd (ce_exec ce) (ce_driver ce) (ce_schema ce) history_meta v r w))))" for cd v r
    by (simp add: new_query_def)
  from this[of "ce_codec ce" "history_entry rm ac action pk (redacted_changes_json (ce_env ce) (rm_fields rm) changes)" r]
  show ?thesis unfolding c by simp
qed

lemma pk_query_balanced:
  "balanced q \<Longrightarrow> plain_column (rm_pk_column rm) \<Longrightarrow> balanced (pk_query rm arg q)"
  by (auto simp: pk_query_def where_raw_def balanced_def plain_column_ident)

lemma pk_query_frame [simp]:
  "q_driver (pk_query rm arg q) = q_driver q" "q_meta (pk_query rm arg q) = q_meta q"
  by (simp_all add: pk_query_def where_raw_def)

text \<open>
  The operations of the admin on a registered model send the database well-formed statements only:
  reading a record, creating, updating and deleting one with its entry in the audit log, and the bulk
  deletion keep every invariant that statements with one argument per placeholder keep, on every path,
  failed conversions, failed uploads and database errors included.
\<close>

theorem admin_sends_well_formed:
  assumes "model_ok rm" "plain_columns rm" "marks (m_table (rm_meta rm)) = 0" "marks (ce_schema ce) = 0"
    and "\<forall>f\<in>set (m_fields (rm_meta rm)). marks (f_default f) = 0"
    and "guards (ce_exec ce) (sendable (ce_driver ce)) P" "files_keep ce P" "P w"
  shows "P (snd (admin_get ce rm pk w)) \<and> P (snd (snd (admin_create ce rm form files ac r w))) \<and>
    P (snd (snd (admin_update ce rm pk form files ac r w))) \<and> P (snd (snd (admin_delete ce rm pk ac r w))) \<and>
    P (snd (delete_many ce rm pks w))"
proof -
  let ?q = "model_query ce rm"
  have q: "balanced ?q" using model_query_ok[OF assms(3,4)] by simp
  have pq: "balanced (pk_query rm arg ?q)" for arg using pk_query_balanced[OF q pk_column_plain[OF assms(1,2)]] .
  have fr: "q_driver ?q = ce_driver ce" "q_meta ?q = rm_meta rm" "q_schema ?q = ce_schema ce" by (simp_all add: new_query_def)
  have bm: "build_meta (rm_struct rm) = Inr (rm_meta rm)" using assms(1) by (simp add: model_ok_def)
  have ins: "insertable (rm_struct rm) (rm_meta rm)" using bm assms(5) by (simp add: insertable_def)
  have ok: "\<forall>f\<in>set (m_fields (rm_meta rm)). field_ok f" using build_meta_facts(2)[OF bm] .
  note g = assms(6)
  have log: "P (snd (log_history ce rm a act k chs r0 w0))" if "P w0" for a act k chs r0 w0
    by (cases "log_history ce rm a act k chs r0 w0") (use log_history_keeps[OF assms(4) g that] in simp)
  have first: "P w'" if "first_q (ce_codec ce) (ce_exec ce) (rm_zero rm) (pk_query rm arg ?q) w = (x, w')" for arg x w'
    using first_q_guarded[OF pq[of arg], of "ce_exec ce" P w "ce_codec ce" "rm_zero rm"] g assms(8) fr that by simp
  have create: "P w''" if "P w'" "create_into (ce_codec ce) (ce_exec ce) (ce_driver ce) (ce_schema ce) (rm_meta rm) v r w' = (e, v', r', w'')"
    for v r w' e v' r' w''
    using create_guarded[OF q, of "rm_struct rm" "ce_exec ce" P w' "ce_codec ce" v r] ins g fr that by simp
  have update: "P w''" if "P w'" "update_q (ce_codec ce) (ce_exec ce) vals (pk_query rm arg ?q) r w' = (e, r', w'')"
    for vals arg r w' e r' w''
    using update_q_guarded[OF pq[of arg], of "ce_exec ce" P w' "ce_codec ce" vals r] ok g fr that by simp
  have del: "P w'" if "delete_q (ce_exec ce) (pk_query rm arg ?q) w = (e, w')" for arg e w'
    using delete_q_guarded[OF pq[of arg], of "ce_exec ce" P w] g assms(8) fr that by simp
  have fill: "P w'" if "fill_fields ce rm b form files fs v vals r w = (x, r', w')" for b fs v vals x r' w'
    using fill_fields_keeps[OF assms(7,8), of rm b form files fs v vals r] that by simp
  have "P (snd (admin_get ce rm pk w))"
    using assms(8) by (auto simp: admin_get_def split: option.split prod.split sum.split dest: first)
  moreover have "P (snd (snd (admin_create ce rm form files ac r w)))"
    unfolding admin_create_def by (auto simp: Let_def split: sum.split option.split prod.split dest: fill create[OF fill] intro!: log)
  moreover have "P (snd (snd (admin_update ce rm pk form files ac r w)))"
    using assms(8) unfolding admin_update_def
    by (auto simp: Let_def split: sum.split option.split prod.split dest: fill update[OF fill] intro!: log)
  moreover have "P (snd (snd (admin_delete ce rm pk ac r w)))"
    using assms(8) by (auto simp: admin_delete_def split: option.split prod.split dest: del intro!: log)
  moreover have "balanced (where_in (rm_pk_column rm) pks ?q)" using balanced_where_in[OF q] .
  moreover have "q_driver (where_in (rm_pk_column rm) pks ?q) = ce_driver ce" using fr by (simp add: where_in_def Let_def)
  ultimately show ?thesis using delete_q_guarded[of "where_in (rm_pk_column rm) pks ?q" "ce_exec ce" P w] g assms(8)
    by (simp add: delete_many_def)
qed

subsection \<open>The audit log reads back\<close>

lemma redacted_map_of:
  "map_of (redacted ae fds changes) c = map_option (\<lambda>v. if secret_column fds c then ''***'' else sprint ae v) (map_of changes c)"
  by (induction changes) (auto simp: redacted_def)

lemma fst_redacted: "map fst (redacted ae fds changes) = map fst changes"
  by (auto simp: redacted_def)

text \<open>
  The history page shows what was recorded: the changes of an entry, stored as JSON, are decoded
  to each column with its new value in the order of the columns, whatever bytes the values hold (valid
  text), with three stars for a hashed or encrypted column; and the stored text does not depend on the
  values of those columns, so that the log never holds a password or the plaintext of a sealed field.
\<close>

theorem audit_log_readback:
  assumes "distinct (map fst changes)"
    and "map fst changes' = map fst changes" "\<forall>c. \<not> secret_column fds c \<longrightarrow> map_of changes' c = map_of changes c"
  shows "format_changes (redacted_changes_json ae fds changes) =
      join '', '' (map (\<lambda>c. c @ '': '' @ (if secret_column fds c then ''***'' else sprint ae (the (map_of changes c)))) (sort (map fst changes))) \<and>
    redacted_changes_json ae fds changes' = redacted_changes_json ae fds changes"
proof
  let ?m = "redacted ae fds changes" and ?ks = "sort (map fst changes)"
  have ks: "sort (remdups (map fst ?m)) = ?ks" using assms(1) by (simp add: fst_redacted distinct_remdups_id)
  have ne: "json_object ?m \<noteq> []" by (simp add: json_object_def)
  have look: "map_of (map (\<lambda>k. (k, f k)) xs) c = (if c \<in> set xs then Some (f c) else None)" for f :: "string \<Rightarrow> string" and xs c
    by (induction xs) auto
  have dec: "json_decode (json_object ?m) = Some (map (\<lambda>k. (k, the (map_of ?m k))) ?ks)"
    using json_object_roundtrip[of ?m] ks by simp
  have keys: "sort (map fst (map (\<lambda>k. (k, the (map_of ?m k))) ?ks)) = ?ks" by (simp add: comp_def sort_key_id_if_sorted)
  have val: "the (map_of ?m c) = (if secret_column fds c then ''***'' else sprint ae (the (map_of changes c)))" if "c \<in> fst ` set changes" for c
  proof -
    obtain v where "map_of changes c = Some v" using \<open>c \<in> fst ` set changes\<close> by (metis map_of_eq_None_iff not_None_eq)
    then show ?thesis by (simp add: redacted_map_of)
  qed
  show "format_changes (redacted_changes_json ae fds changes) =
      join '', '' (map (\<lambda>c. c @ '': '' @ (if secret_column fds c then ''***'' else sprint ae (the (map_of changes c)))) ?ks)"
  proof (cases "changes = []")
    case False
    then have "format_changes (redacted_changes_json ae fds changes) =
        join '', '' (map (\<lambda>c. c @ '': '' @ the (map_of (map (\<lambda>k. (k, the (map_of ?m k))) ?ks) c)) ?ks)"
      unfolding format_changes_def redacted_changes_json_def by (simp only: if_False ne dec option.case keys)
    also have "\<dots> = join '', '' (map (\<lambda>c. c @ '': '' @ (if secret_column fds c then ''***'' else sprint ae (the (map_of changes c)))) ?ks)"
      by (intro arg_cong[of _ _ "join '', ''"] map_cong refl) (simp add: look val)
    finally show ?thesis .
  qed (simp add: redacted_changes_json_def format_changes_def)
  have "map_of (redacted ae fds changes') c = map_of ?m c" for c
  proof (cases "secret_column fds c")
    case True
    have "(map_of changes' c = None) = (map_of changes c = None)"
      using assms(2) by (metis map_of_eq_None_iff set_map)
    with True show ?thesis by (cases "map_of changes' c"; cases "map_of changes c") (auto simp: redacted_map_of)
  qed (use assms(3) in \<open>simp add: redacted_map_of\<close>)
  then have "json_object (redacted ae fds changes') = json_object ?m"
    using assms(2) by (simp add: json_object_def fst_redacted)
  moreover have "(changes' = []) = (changes = [])" using assms(2) by (metis map_is_Nil_conv)
  ultimately show "redacted_changes_json ae fds changes' = redacted_changes_json ae fds changes" by (simp add: redacted_changes_json_def)
qed

subsection \<open>What a submitted form writes\<close>

text \<open>A hashed field left blank.\<close>

definition blank_hash :: "(string \<times> string list) list \<Rightarrow> admin_field \<Rightarrow> bool" where
  "blank_hash form f \<longleftrightarrow> af_is_hash f \<and> \<not> af_is_image f \<and> form_get form (af_column f) = []"

abbreviation form_value :: "('w, 's, 'r) crud_env \<Rightarrow> 'v registered_model \<Rightarrow> (string \<times> string list) list \<Rightarrow> admin_field \<Rightarrow> form_error + goval" where
  "form_value ce rm form f \<equiv>
     set_field_from_string (ce_env ce) (gf_type (gs_fields (rm_struct rm) ! af_go_index f)) (form_get form (af_column f))"

text \<open>One field of the form: left alone, or written.\<close>

lemma fill_field_cases:
  assumes "fill_fields ce rm e form files (f # fs) v vals r w = (Inr res, r', w')"
  obtains (left) r1 w1 where "generated_field f \<or> blank_hash form f \<or> af_is_image f"
      "fill_fields ce rm e form files fs v vals r1 w1 = (Inr res, r', w')"
  | (put) x r1 w1 where "\<not> generated_field f" "\<not> blank_hash form f" "\<not> af_is_image f \<Longrightarrow> form_value ce rm form f = Inr x"
      "fill_fields ce rm e form files fs (v[af_go_index f := x]) (AList.update (af_column f) x vals) r1 w1 = (Inr res, r', w')"
  using assms by (auto simp: Let_def blank_hash_def split: if_splits sum.splits option.splits prod.splits)

definition editable :: "(string \<times> string list) list \<Rightarrow> admin_field \<Rightarrow> bool" where
  "editable form f \<longleftrightarrow> \<not> generated_field f \<and> \<not> blank_hash form f"

lemma fill_fields_frame:
  assumes "fill_fields ce rm e form files fs v vals r w = (Inr (v', vals'), r', w')"
  shows "length v' = length v \<and> (\<forall>i. i \<notin> af_go_index ` Set.filter (editable form) (set fs) \<longrightarrow> v' ! i = v ! i) \<and>
    (\<forall>c. c \<notin> af_column ` Set.filter (editable form) (set fs) \<longrightarrow> map_of vals' c = map_of vals c)"
  using assms
proof (induction fs arbitrary: v vals r w)
  case (Cons f fs)
  from Cons.prems show ?case
  proof (cases rule: fill_field_cases)
    case (left r1 w1)
    show ?thesis using Cons.IH[OF left(2)] by auto
  next
    case (put x r1 w1)
    have "editable form f" using put(1,2) by (simp add: editable_def)
    then have ins: "g ` Set.filter (editable form) (set (f # fs)) = insert (g f) (g ` Set.filter (editable form) (set fs))"
      for g :: "admin_field \<Rightarrow> 'x" by auto
    show ?thesis unfolding ins using Cons.IH[OF put(4)] by simp
  qed
qed simp

lemma fill_fields_written:
  assumes "fill_fields ce rm e form files fs v vals r w = (Inr (v', vals'), r', w')" "distinct (map af_column fs)"
    and "f \<in> set fs" "editable form f" "\<not> af_is_image f"
  shows "\<exists>x. form_value ce rm form f = Inr x \<and> map_of vals' (af_column f) = Some x"
  using assms(1-3)
proof (induction fs arbitrary: v vals r w)
  case (Cons g fs)
  have fresh: "af_column g \<notin> af_column ` Set.filter (editable form) (set fs)" using Cons.prems(2) by auto
  from Cons.prems(1) show ?case
  proof (cases rule: fill_field_cases)
    case (left r1 w1)
    then have "f \<in> set fs" using Cons.prems(3) assms(4,5) by (auto simp: editable_def)
    then show ?thesis using Cons.IH[OF left(2)] Cons.prems(2) by simp
  next
    case (put x r1 w1)
    show ?thesis
    proof (cases "f = g")
      case True
      have "map_of vals' (af_column g) = map_of (AList.update (af_column g) x vals) (af_column g)"
        using fill_fields_frame[OF put(4)] fresh by blast
      then show ?thesis using True put(3) assms(5) by (simp add: map_of_AList_update_self)
    next
      case False
      then show ?thesis using Cons.IH[OF put(4)] Cons.prems(2,3) by simp
    qed
  qed
qed simp


subsection \<open>Uploads\<close>

lemma safe_replaced: "list_all safe_name_char (replace_unsafe b s)"
  by (induction b s rule: replace_unsafe.induct) (auto simp: safe_name_char_def)

lemma safe_sanitized: "list_all safe_name_char (sanitize_filename n)"
  using safe_replaced by (auto simp: sanitize_filename_def Let_def safe_name_char_def is_lower_def)

lemma safe_hex: "list_all safe_name_char (hex_encode bs)"
proof -
  have "safe_name_char (hex_digit n)" if "n < 16" for n
    using that by (cases "n < 10") (simp_all add: hex_digit_def safe_name_char_def char_defs)
  moreover have "of_char (c :: char) < (256 :: nat)" for c by (rule nat_of_char_less_256)
  ultimately show ?thesis by (auto simp: hex_encode_def list_all_iff less_mult_imp_div_less)
qed

text \<open>
  C24: An uploaded file is stored in the directory of its model and nowhere else, whatever name the
  browser sent: the path recorded is the model's media directory followed by a name without any
  separator, sixteen random hexadecimal digits first, so that neither \<open>..\<close> nor an absolute path nor an
  existing file can be chosen; a file whose content is not one of the four image types is refused before
  anything is written.
\<close>

theorem upload_stays_in_directory:
  assumes "save_uploaded_image ce app table u r w = (res, r', w')"
  shows "case res of
      Inr path \<Rightarrow> ce_detect ce (take 512 (up_content u)) \<in> set allowed_image_types \<and>
        (\<exists>name. path = ''/medias/'' @ app @ ''/'' @ table @ ''/'' @ name \<and> list_all safe_name_char name \<and> CHR ''/'' \<notin> set name \<and>
           has_prefix name (hex_encode (fst (cd_rnd (ce_codec ce) 8 r))) \<and>
           w' = snd (ce_create_file ce (''medias/'' @ app @ ''/'' @ table @ ''/'' @ name) (up_content u)
                  (snd (ce_mkdir ce (''medias/'' @ app @ ''/'' @ table) w))))
    | Inl e \<Rightarrow> e = ''type'' \<longrightarrow> w' = w \<and> r' = r"
proof -
  have sep: "list_all safe_name_char n \<Longrightarrow> CHR ''/'' \<notin> set n" for n
    by (auto simp: list_all_iff safe_name_char_def is_upper_def is_lower_def is_digit_def)
  have us: "safe_name_char (CHR ''_'')" by (simp add: safe_name_char_def)
  show ?thesis
    using assms sep safe_hex safe_sanitized us
    by (auto simp: save_uploaded_image_def Let_def prefix_def split: if_splits prod.splits bool.splits)
qed

subsection \<open>A model and its environment\<close>

definition sample_account :: go_struct where
  "sample_account = \<lparr>gs_name = ''No'', gs_fields =
     [\<lparr>gf_name = ''ID'', gf_exported = True, gf_type = TIntK KInt64, gf_tag = ''pk''\<rparr>,
      \<lparr>gf_name = ''Key'', gf_exported = True, gf_type = TString, gf_tag = ''hash''\<rparr>,
      \<lparr>gf_name = ''On'', gf_exported = True, gf_type = TBool, gf_tag = []\<rparr>]\<rparr>"

definition sample_reg :: "unit admin_option list \<Rightarrow> unit registry" where
  "sample_reg opts =
     (case register sample_account [GInt KInt64 0, GStr [], GBool False] ''apps'' ''no'' ''No''
        opts [] of Inr reg \<Rightarrow> reg | Inl _ \<Rightarrow> [])"

definition sample_rm :: "unit registered_model" where
  "sample_rm = snd (hd (sample_reg [OSearchFields [''Key''], OFilterFields [''On'']]))"

definition sample_ce :: "((string \<times> goval list) list, unit, nat) crud_env" where
  "sample_ce = \<lparr>ce_env = sample_env, ce_codec = sample_codec, ce_exec = recorder, ce_driver = ''postgres'', ce_schema = [],
     ce_detect = (\<lambda>s. if has_prefix s ''GIF89a'' then ''image/gif'' else ''text/plain''), ce_mkdir = (\<lambda>d w. (True, w)),
     ce_create_file = (\<lambda>p c w. (True, w))\<rparr>"

lemma sample_rm_ok: "model_ok sample_rm" "plain_columns sample_rm" "marks (m_table (rm_meta sample_rm)) = 0"
  "\<forall>f\<in>set (m_fields (rm_meta sample_rm)). marks (f_default f) = 0"
proof -
  let ?r = "register sample_account [GInt KInt64 0, GStr [], GBool False] ''apps'' ''no'' ''No''
    [OSearchFields [''Key''], OFilterFields [''On'']] ([] :: unit registry)"
  have "isl ?r = False" by code_simp
  then obtain reg where reg: "?r = Inr reg" by (cases ?r) auto
  then show "model_ok sample_rm" using register_result[OF reg] by (auto simp: sample_rm_def sample_reg_def)
  have "list_all (\<lambda>f. plain_column (af_column f)) (rm_fields sample_rm)" by code_simp
  then show "plain_columns sample_rm" by (simp add: list_all_iff)
  show "marks (m_table (rm_meta sample_rm)) = 0" by code_simp
  have "list_all (\<lambda>f. marks (f_default f) = 0) (m_fields (rm_meta sample_rm))" by code_simp
  then show "\<forall>f\<in>set (m_fields (rm_meta sample_rm)). marks (f_default f) = 0" by (simp add: list_all_iff)
qed

abbreviation no_options :: "string \<Rightarrow> string \<Rightarrow> unit \<Rightarrow> (string option \<times> fk_option list) \<times> unit" where
  "no_options t l w \<equiv> ((None, []), w)"

theorem listing_query_safe_witness:
  "let views = (\<lambda>v. fst (build_filter_views (\<lambda>k. if k = ''f_on'' then v else []) no_options (rm_filter_fields sample_rm) ()));
       q = (\<lambda>s v. list_query sample_rm s ''id'' True (filter_conds sample_env (rm_filter_fields sample_rm) (views v)) (model_query sample_ce sample_rm))
   in q_err (q [CHR 0x27, CHR '';''] ''true'') = None \<and>
      fst (build_select_page 20 0 (q [CHR 0x27, CHR '';''] ''true'')) = fst (build_select_page 20 0 (q ''x'' ''false''))"
proof -
  let ?v = "\<lambda>v. build_filter_views (\<lambda>k. if k = ''f_on'' then v else []) no_options (rm_filter_fields sample_rm) ()"
  let ?c = "\<lambda>v. filter_conds sample_env (rm_filter_fields sample_rm) (fst (?v v))"
  have h: "has_column sample_rm ''id''" by code_simp
  have s: "same_shape (?c ''true'') (?c ''false'')" by code_simp
  have sch: "marks (ce_schema sample_ce) = 0" by (simp add: sample_ce_def)
  have e: "?v x = (fst (?v x), ())" for x by (simp add: prod_eq_iff)
  from listing_query_safe[OF sample_rm_ok(1,2) disjI2[OF h] sample_rm_ok(3) sch e e refl refl refl refl]
  show ?thesis using s unfolding Let_def by (intro conjI) auto
qed

theorem admin_sends_well_formed_witness:
  "list_all (\<lambda>(sql, args). sendable ''postgres'' sql args)
     (snd (snd (admin_delete sample_ce sample_rm ''7'' \<lparr>ac_user_id = 1, ac_username = ''ana''\<rparr> 0 [])))"
proof -
  have g: "guards (ce_exec sample_ce) (sendable (ce_driver sample_ce)) (list_all (\<lambda>(sql, args). sendable ''postgres'' sql args))"
    using guards_recorder[of "sendable ''postgres''"] by (simp add: sample_ce_def)
  have f: "files_keep sample_ce (list_all (\<lambda>(sql, args). sendable ''postgres'' sql args))"
    by (simp add: files_keep_def sample_ce_def)
  have c: "marks (ce_schema sample_ce) = 0" by (simp add: sample_ce_def)
  show ?thesis
    using admin_sends_well_formed[OF sample_rm_ok(1-3) c sample_rm_ok(4) g f, of "[]"] by simp
qed

theorem audit_log_readback_witness:
  "format_changes (redacted_changes_json sample_env (rm_fields sample_rm) [(''key'', GStr ''s3cret''), (''on'', GBool True)]) =
     ''key: ***, on: true''"
proof -
  let ?c = "[(''key'', GStr ''s3cret''), (''on'', GBool True)]"
  have d: "distinct (map fst ?c)" by simp
  have e: "join '', '' (map (\<lambda>c. c @ '': '' @ (if secret_column (rm_fields sample_rm) c then ''***'' else sprint sample_env (the (map_of ?c c)))) (sort (map fst ?c)))
      = ''key: ***, on: true''" by code_simp
  from audit_log_readback[OF d refl, of "rm_fields sample_rm" sample_env] show ?thesis unfolding e by blast
qed


theorem upload_stays_in_directory_witness:
  "\<exists>name. fst (save_uploaded_image sample_ce ''loja'' ''fotos'' \<lparr>up_filename = ''../../etc/x y.gif'', up_content = ''GIF89a''\<rparr> (0::nat) []) =
     Inr (''/medias/loja/fotos/'' @ name) \<and> CHR ''/'' \<notin> set name"
proof -
  let ?x = "save_uploaded_image sample_ce ''loja'' ''fotos'' \<lparr>up_filename = ''../../etc/x y.gif'', up_content = ''GIF89a''\<rparr> (0::nat) []"
  have "isl (fst ?x) = False" by code_simp
  then obtain path r w where x: "?x = (Inr path, r, w)" by (cases ?x; cases "fst ?x") auto
  show ?thesis using upload_stays_in_directory[OF x] unfolding x by auto
qed

end
