(* ===== verification/Urls.thy ===== *)
theory Urls
  imports Router "HOL-Library.List_Lexorder" "HOL-Library.Char_ord"
begin

text \<open>
  Query strings as \<open>net/url\<close> writes and reads them (\<open>QueryEscape\<close>, \<open>Values.Encode\<close>, \<open>ParseQuery\<close>) and
  \<open>buildURL\<close> of \<open>core/admin/handlers.go\<close>, which makes every link of the admin from a map of parameters.
\<close>

declare map_of_eq_Some_iff [simp del] AList.update_conv' [simp]

subsection \<open>Escaping\<close>

definition unreserved :: "char \<Rightarrow> bool" where
  "unreserved c \<longleftrightarrow> is_upper c \<or> is_lower c \<or> is_digit c \<or> c \<in> {CHR ''-'', CHR ''_'', CHR ''.'', CHR ''~''}"

definition upper_hex :: "nat \<Rightarrow> char" where
  "upper_hex n = (if n < 10 then char_of (48 + n) else char_of (55 + n))"

definition escape_char :: "char \<Rightarrow> string" where
  "escape_char c =
     (if unreserved c then [c] else if c = CHR '' '' then ''+''
      else [CHR ''%'', upper_hex (of_char c div 16), upper_hex (of_char c mod 16)])"

definition query_escape :: "string \<Rightarrow> string" where
  "query_escape s = concat (map escape_char s)"

definition unhex :: "char \<Rightarrow> nat option" where
  "unhex c =
     (let n = of_char c :: nat
      in if is_digit c then Some (n - 48) else if 97 \<le> n \<and> n \<le> 102 then Some (n - 87)
         else if 65 \<le> n \<and> n \<le> 70 then Some (n - 55) else None)"

fun query_unescape :: "string \<Rightarrow> string option" where
  "query_unescape [] = Some []"
| "query_unescape (c # cs) =
     (if c = CHR ''%'' then
        (case cs of
           a # b # r \<Rightarrow>
             (case (unhex a, unhex b) of
                (Some x, Some y) \<Rightarrow> map_option ((#) (char_of (16 * x + y))) (query_unescape r)
              | _ \<Rightarrow> None)
         | _ \<Rightarrow> None)
      else map_option ((#) (if c = CHR ''+'' then CHR '' '' else c)) (query_unescape cs))"

lemma unhex_upper: "n < 16 \<Longrightarrow> unhex (upper_hex n) = Some n"
  by (cases "n < 10") (auto simp: unhex_def upper_hex_def is_digit_def Let_def)

lemma unescape_char: "query_unescape (escape_char c @ s) = map_option ((#) c) (query_unescape s)"
proof -
  have b: "of_char c < (256 :: nat)" by simp
  have "unhex (upper_hex (of_char c div 16)) = Some (of_char c div 16)" by (rule unhex_upper) (use b in \<open>simp add: less_mult_imp_div_less\<close>)
  moreover have "unhex (upper_hex (of_char c mod 16)) = Some (of_char c mod 16)" by (rule unhex_upper) simp
  moreover have "16 * (of_char c div 16) + of_char c mod 16 = (of_char c :: nat)" by simp
  moreover have "unreserved c \<Longrightarrow> c \<noteq> CHR ''%'' \<and> c \<noteq> CHR ''+''" by (auto simp: unreserved_def char_defs)
  ultimately show ?thesis by (auto simp: escape_char_def)
qed

lemma unescape_escape: "query_unescape (query_escape s) = Some s"
  by (induction s) (simp_all add: query_escape_def unescape_char)

lemma upper_hex_unreserved: "n < 16 \<Longrightarrow> unreserved (upper_hex n)"
  by (cases "n < 10") (simp_all add: upper_hex_def unreserved_def char_defs)

lemma escape_chars: "c \<in> set (query_escape s) \<Longrightarrow> unreserved c \<or> c = CHR ''%'' \<or> c = CHR ''+''"
proof -
  have "unreserved (upper_hex (of_char d div 16)) \<and> unreserved (upper_hex (of_char d mod 16))" for d
    using upper_hex_unreserved by (simp add: less_mult_imp_div_less)
  then show "c \<in> set (query_escape s) \<Longrightarrow> ?thesis"
    by (auto simp: query_escape_def escape_char_def split: if_splits)
qed

lemma escape_separators: "CHR ''&'' \<notin> set (query_escape s)" "CHR ''='' \<notin> set (query_escape s)" "CHR '';'' \<notin> set (query_escape s)"
  using escape_chars[of "CHR ''&''" s] escape_chars[of "CHR ''=''" s] escape_chars[of "CHR '';''" s]
  by (auto simp: unreserved_def char_defs)

subsection \<open>Query strings\<close>

definition add_value :: "string \<Rightarrow> string \<Rightarrow> (string \<times> string list) list \<Rightarrow> (string \<times> string list) list" where
  "add_value k v m = AList.update k ((case map_of m k of None \<Rightarrow> [] | Some vs \<Rightarrow> vs) @ [v]) m"

definition add_pair :: "string \<Rightarrow> (string \<times> string list) list \<Rightarrow> (string \<times> string list) list" where
  "add_pair part m =
     (if CHR '';'' \<in> set part \<or> part = [] then m
      else case cut_chr (CHR ''='') part of (k, v, _) \<Rightarrow>
        (case (query_unescape k, query_unescape v) of (Some k', Some v') \<Rightarrow> add_value k' v' m | _ \<Rightarrow> m))"

definition parse_query :: "string \<Rightarrow> (string \<times> string list) list" where
  "parse_query s = fold add_pair (split_chr (CHR ''&'') s) []"

text \<open>\<open>Encode\<close> of a map with one value per key.\<close>

definition encode_pair :: "string \<Rightarrow> string \<Rightarrow> string" where
  "encode_pair k v = query_escape k @ ''='' @ query_escape v"

definition values_encode :: "(string \<times> string) list \<Rightarrow> string" where
  "values_encode m = join ''&'' (map (\<lambda>k. encode_pair k (the (map_of m k))) (sort (remdups (map fst m))))"

definition build_url :: "string \<Rightarrow> (string \<times> string) list \<Rightarrow> string" where
  "build_url base params =
     (let enc = values_encode (filter (\<lambda>(k, v). v \<noteq> []) params) in if enc \<noteq> [] then base @ ''?'' @ enc else base)"

text \<open>What a request to a URL finds behind its question mark.\<close>

definition url_query :: "string \<Rightarrow> (string \<times> string list) list" where
  "url_query uri = (case cut_chr (CHR ''?'') uri of (_, q, _) \<Rightarrow> parse_query q)"

lemma add_pair_encoded: "add_pair (encode_pair k v) m = add_value k v m"
proof -
  have "cut_chr (CHR ''='') (encode_pair k v) = (query_escape k, query_escape v, True)"
    using cut_chr_append[OF escape_separators(2)] by (simp add: encode_pair_def)
  moreover have "CHR '';'' \<notin> set (encode_pair k v)" using escape_separators by (simp add: encode_pair_def)
  moreover have "encode_pair k v \<noteq> []" by (simp add: encode_pair_def)
  ultimately show ?thesis by (simp add: add_pair_def unescape_escape)
qed

lemma split_join_parts: "\<forall>p\<in>set ps. c \<notin> set p \<Longrightarrow> ps \<noteq> [] \<Longrightarrow> split_chr c (join [c] ps) = ps"
  by (induction ps rule: induct_list012) (auto simp: split_chr_append split_chr_single)

lemma fold_add_value: "distinct ks \<Longrightarrow> fst ` set m \<inter> set ks = {} \<Longrightarrow>
  fold (\<lambda>k m. add_value k (f k) m) ks m = m @ map (\<lambda>k. (k, [f k])) ks"
proof (induction ks arbitrary: m)
  case (Cons k ks)
  then have k: "k \<notin> fst ` set m" by auto
  then have "map_of m k = None" by (simp add: map_of_eq_None_iff)
  then have "add_value k (f k) m = m @ [(k, [f k])]"
    using k by (simp add: add_value_def AList_update_fresh)
  then show ?case using Cons by auto
qed simp

lemma parse_encode: "parse_query (values_encode m) = map (\<lambda>k. (k, [the (map_of m k)])) (sort (remdups (map fst m)))"
proof (cases "m = []")
  case False
  let ?ks = "sort (remdups (map fst m))" and ?f = "\<lambda>k. the (map_of m k)"
  have "set ?ks \<noteq> {}" using False by simp
  then have ks: "?ks \<noteq> []" "distinct ?ks" by (auto simp del: set_sort)
  have parts: "\<forall>p\<in>set (map (\<lambda>k. encode_pair k (?f k)) ?ks). CHR ''&'' \<notin> set p"
    using escape_separators by (auto simp: encode_pair_def)
  have "parse_query (values_encode m) = fold add_pair (map (\<lambda>k. encode_pair k (?f k)) ?ks) []"
    unfolding parse_query_def values_encode_def using split_join_parts[OF parts] ks(1) by simp
  also have "\<dots> = fold (\<lambda>k m. add_value k (?f k) m) ?ks []"
    by (simp add: fold_map comp_def fun_eq_iff add_pair_encoded[abs_def] cong: fold_cong)
  also have "\<dots> = map (\<lambda>k. (k, [?f k])) ?ks" using fold_add_value[OF ks(2), of "[]" ?f] by simp
  finally show ?thesis .
qed (simp add: parse_query_def values_encode_def add_pair_def)

lemma encode_get: "values_get (parse_query (values_encode m)) k = (case map_of m k of Some v \<Rightarrow> v | None \<Rightarrow> [])"
proof -
  have look: "map_of (map (\<lambda>k. (k, f k)) ks) k = (if k \<in> set ks then Some (f k) else None)" for f :: "string \<Rightarrow> string list" and ks
    by (induction ks) auto
  show ?thesis
    by (cases "map_of m k") (auto simp: values_get_def parse_encode look map_of_eq_None_iff dest: map_of_SomeD split: option.split intro: rev_image_eqI)
qed

lemma encode_empty: "values_encode m = [] \<longleftrightarrow> m = []"
proof
  assume "values_encode m = []"
  then have "parse_query (values_encode m) = []" by (simp add: parse_query_def add_pair_def)
  then have "set (sort (remdups (map fst m))) = {}" unfolding parse_encode by simp
  then show "m = []" by simp
qed (simp add: values_encode_def)

text \<open>
  A link of the admin gives back the parameters it was made from: following \<open>buildURL\<close>'s URL, every
  parameter that was set and not empty is read with exactly its value, whatever characters it holds, and
  every other parameter is absent.
\<close>

lemma build_url_get:
  assumes "CHR ''?'' \<notin> set base" "distinct (map fst params)"
  shows "values_get (url_query (build_url base params)) k = (case map_of params k of Some v \<Rightarrow> v | None \<Rightarrow> [])"
proof -
  let ?m = "filter (\<lambda>(k, v). v \<noteq> []) params"
  have m: "map_of ?m k = (case map_of params k of Some v \<Rightarrow> if v = [] then None else Some v | None \<Rightarrow> None)"
    using assms(2) by (induction params) (auto simp: map_of_eq_None_iff split: option.splits intro: rev_image_eqI)
  show ?thesis
  proof (cases "values_encode ?m = []")
    case True
    then have "?m = []" by (simp add: encode_empty)
    then have "map_of ?m k = None" by simp
    moreover have "url_query (build_url base params) = []"
      using True cut_chr_absent[OF assms(1)] by (simp add: build_url_def url_query_def parse_query_def add_pair_def)
    ultimately show ?thesis using m by (auto simp: values_get_def split: option.splits if_splits)
  next
    case False
    then have "url_query (build_url base params) = parse_query (values_encode ?m)"
      using cut_chr_append[OF assms(1)] by (simp add: build_url_def url_query_def Let_def)
    then show ?thesis using encode_get[of ?m k] m by (auto split: option.splits if_splits)
  qed
qed

end
