(* ===== verification/AdminSite.thy ===== *)
theory AdminSite
  imports AdminRows Middleware Urls
begin

text \<open>
  The site of the admin, \<open>core/admin/handlers.go\<close>: the guard of its routes, login and logout, the pages and
  the handlers over the operations of \<open>AdminCrud\<close>. Handlers are those of \<open>Middleware\<close>; the application
  state of an exchange is the database, the source of randomness and the login throttle. The record
  \<open>site\<close> holds what bootstrap passes to \<open>Mount\<close> and what lies outside: the connections by name, the user table
  as a state of the database shows it, the password check, the HTML templates, the parsed body.
\<close>

declare map_of_eq_Some_iff [simp del] AList.update_conv' [simp]

record ('w, 'r) admin_world =
  aw_db :: 'w
  aw_rnd :: 'r
  aw_throttle :: login_throttle

text \<open>The fields of the user that the cached check keeps and the handlers read.\<close>

record staff_user =
  su_id :: int
  su_username :: string
  su_first_name :: string
  su_last_name :: string
  su_is_staff :: bool
  su_is_admin :: bool

record nav_item =
  nv_slug :: string
  nv_label :: string

record base_data =
  bd_app_name :: string
  bd_version :: string
  bd_page_title :: string
  bd_base_path :: string
  bd_active_slug :: string
  bd_css_ver :: string
  bd_js_ver :: string
  bd_models :: "nav_item list"
  bd_framework_models :: "nav_item list"
  bd_app_models :: "nav_item list"
  bd_user :: string
  bd_user_initials :: string
  bd_csrf_field :: string
  bd_csrf_token :: string
  bd_flash_error :: string
  bd_flash_success :: string

record column_view =
  cv_column :: string
  cv_label :: string
  cv_sort_url :: string
  cv_sort_active :: bool
  cv_sort_desc :: bool
  cv_is_pk :: bool

record form_field =
  ff_column :: string
  ff_label :: string
  ff_widget :: widget
  ff_value :: string
  ff_checked :: bool
  ff_read_only :: bool
  ff_is_hash :: bool
  ff_is_image :: bool
  ff_is_fk :: bool
  ff_options :: "fk_option list"

record list_data =
  ld_label :: string
  ld_slug :: string
  ld_columns :: "column_view list"
  ld_rows :: "admin_row list"
  ld_search :: string
  ld_searchable :: bool
  ld_filters :: "filter_view list"
  ld_filters_active :: bool
  ld_bulk_actions :: "(string \<times> string) list"
  ld_page :: int
  ld_has_prev :: bool
  ld_has_next :: bool
  ld_prev_url :: string
  ld_next_url :: string
  ld_new_url :: string
  ld_clear_url :: string
  ld_bulk_url :: string

record form_data =
  fd_label :: string
  fd_is_edit :: bool
  fd_action :: string
  fd_cancel_url :: string
  fd_fields :: "form_field list"
  fd_error :: string
  fd_pk :: string

record history_view =
  hv_model :: string
  hv_record_pk :: string
  hv_action :: string
  hv_changes :: string
  hv_username :: string
  hv_created_at :: string

record history_data =
  hd_entries :: "history_view list"
  hd_model_filter :: string
  hd_models :: "nav_item list"
  hd_page :: int
  hd_has_prev :: bool
  hd_has_next :: bool
  hd_prev_url :: string
  hd_next_url :: string
  hd_clear_url :: string

datatype page =
    LoginPage base_data string | DashboardPage base_data | ListPage base_data list_data | FormPage base_data form_data
  | HistoryPage base_data history_data

record ('w, 's, 'r) site =
  si_base_path :: string
  si_app_name :: string
  si_version :: string
  si_css :: string
  si_js :: string
  si_sha256 :: "string \<Rightarrow> string"
  si_conn :: "string \<Rightarrow> ('w, 's, 'r) crud_env option"
  si_registry :: "'w registry"
  si_user_by_id :: "'w \<Rightarrow> int \<Rightarrow> user option"
  si_user_by_login :: "'w \<Rightarrow> string \<Rightarrow> user option"
  si_check :: "string \<Rightarrow> user \<Rightarrow> bool option"
  si_session_id :: "'r \<Rightarrow> string option \<times> 'r"
  si_template :: "page \<Rightarrow> string + string"
  si_body :: "request \<Rightarrow> (string \<times> string list) list option"
  si_files :: "request \<Rightarrow> string \<Rightarrow> file_lookup"
  si_upper_first :: "string \<Rightarrow> string"
  si_error_text :: "admin_error \<Rightarrow> string"

type_synonym ('w, 'r) admin_handler = "('w, 'r) admin_world handler"

definition normalize_base_path :: "string \<Rightarrow> string" where
  "normalize_base_path p0 =
     (let p1 = (if p0 = [] then ''/admin/'' else p0);
          p2 = (if \<not> has_prefix p1 ''/'' then ''/'' @ p1 else p1)
      in if \<not> has_suffix p2 ''/'' then p2 @ ''/'' else p2)"

subsection \<open>Sessions of a request\<close>

definition current_session :: "'a exchange \<Rightarrow> goval session option" where
  "current_session x = from_request (sv_secure (ex_server x)) (rq_cookies (ex_req x)) (sv_store (ex_server x)) (ex_now x)"

definition on_store :: "(goval store \<Rightarrow> goval store) \<Rightarrow> 'a exchange \<Rightarrow> 'a exchange" where
  "on_store f x = x\<lparr>ex_server := (ex_server x)\<lparr>sv_store := f (sv_store (ex_server x))\<rparr>\<rparr>"

definition on_app :: "('a \<Rightarrow> 'a) \<Rightarrow> 'a exchange \<Rightarrow> 'a exchange" where
  "on_app f x = x\<lparr>ex_app := f (ex_app x)\<rparr>"

abbreviation error_page :: "externals \<Rightarrow> nat \<Rightarrow> 'a exchange \<Rightarrow> 'a exchange" where
  "error_page xt code x \<equiv> on_pages (render_error xt (method_path x) code) x"

abbreviation redirect :: "string \<Rightarrow> 'a exchange \<Rightarrow> 'a exchange" where
  "redirect url x \<equiv> on_response (http_redirect url 302) x"

subsection \<open>The guard\<close>

definition staff_check_key :: string where "staff_check_key = ''_admin_staff_check''"
definition flash_session_key :: string where "flash_session_key = ''_admin_flash''"
definition user_ctx_key :: string where "user_ctx_key = ''admin_user''"
definition staff_check_ttl :: int where "staff_check_ttl = 5 * 1000000000"

text \<open>A \<open>*auth.User\<close> with these fields, and a \<open>*staffCheck\<close>, as values of a session or context.\<close>

definition user_value :: "staff_user \<Rightarrow> goval" where
  "user_value u = GPtr (Some (GSlice (Some
     [GInt KInt64 (su_id u), GStr (su_username u), GStr (su_first_name u), GStr (su_last_name u), GBool (su_is_staff u), GBool (su_is_admin u)])))"

definition staff_check_value :: "staff_user \<Rightarrow> time \<Rightarrow> goval" where
  "staff_check_value u t = GPtr (Some (GSlice (Some
     [GInt KInt64 (su_id u), GStr (su_username u), GStr (su_first_name u), GStr (su_last_name u), GBool (su_is_staff u), GBool (su_is_admin u),
      GTime t])))"

definition struct_fields :: "goval \<Rightarrow> goval list" where
  "struct_fields v =
     (case v of GPtr p \<Rightarrow> (case p of Some w \<Rightarrow> (case w of GSlice vs \<Rightarrow> (case vs of Some xs \<Rightarrow> xs | None \<Rightarrow> []) | _ \<Rightarrow> []) | None \<Rightarrow> []) | _ \<Rightarrow> [])"

definition int_field :: "goval \<Rightarrow> int" where "int_field v = (case v of GInt k i \<Rightarrow> i | _ \<Rightarrow> 0)"
definition text_field :: "goval \<Rightarrow> string" where "text_field v = (case v of GStr t \<Rightarrow> t | _ \<Rightarrow> [])"
definition bool_field :: "goval \<Rightarrow> bool" where "bool_field v = (case v of GBool b \<Rightarrow> b | _ \<Rightarrow> False)"
definition time_field :: "goval \<Rightarrow> time" where "time_field v = (case v of GTime t \<Rightarrow> t | _ \<Rightarrow> 0)"

definition staff_fields :: "goval list \<Rightarrow> staff_user" where
  "staff_fields xs = \<lparr>su_id = int_field (xs ! 0), su_username = text_field (xs ! 1), su_first_name = text_field (xs ! 2),
     su_last_name = text_field (xs ! 3), su_is_staff = bool_field (xs ! 4), su_is_admin = bool_field (xs ! 5)\<rparr>"

text \<open>The type assertions: a value that is not what the admin stored answers \<open>None\<close>.\<close>

definition staff_user_of :: "goval \<Rightarrow> staff_user option" where
  "staff_user_of v = (let u = staff_fields (struct_fields v) in if v = user_value u then Some u else None)"

definition staff_check_of :: "goval \<Rightarrow> (staff_user \<times> time) option" where
  "staff_check_of v =
     (let xs = struct_fields v; u = staff_fields xs; t = time_field (xs ! 6) in if v = staff_check_value u t then Some (u, t) else None)"

lemmas goval_field_defs = struct_fields_def int_field_def text_field_def bool_field_def time_field_def staff_fields_def

lemma staff_user_of_value [simp]: "staff_user_of (user_value u) = Some u"
  by (simp add: staff_user_of_def user_value_def goval_field_defs Let_def)

lemma staff_check_of_value [simp]: "staff_check_of (staff_check_value u t) = Some (u, t)"
  by (simp add: staff_check_of_def staff_check_value_def goval_field_defs Let_def)

lemma staff_check_of_Some: "staff_check_of v = Some (u, t) \<Longrightarrow> v = staff_check_value u t"
  by (auto simp: staff_check_of_def Let_def split: if_splits)

definition user_view :: "user \<Rightarrow> staff_user" where
  "user_view u = \<lparr>su_id = us_id u, su_username = us_username u, su_first_name = us_first_name u, su_last_name = us_last_name u,
     su_is_staff = us_is_staff u, su_is_admin = us_is_admin u\<rparr>"

definition may_enter :: "user \<Rightarrow> bool" where
  "may_enter u \<longleftrightarrow> us_is_staff u \<or> us_is_admin u"

definition fresh_check :: "time \<Rightarrow> goval session \<Rightarrow> staff_user option" where
  "fresh_check now s =
     (case value_get staff_check_key s of
        None \<Rightarrow> None
      | Some v \<Rightarrow> (case staff_check_of v of None \<Rightarrow> None | Some (u, t) \<Rightarrow> if now - t < staff_check_ttl then Some u else None))"

definition request_user :: "('w, 's, 'r) site \<Rightarrow> ('w, 'r) admin_world exchange \<Rightarrow> login_error + user" where
  "request_user s x =
     get_user (sv_db_enabled (ex_server x)) (sv_secure (ex_server x)) (si_user_by_id s (aw_db (ex_app x)))
       (rq_cookies (ex_req x)) (sv_store (ex_server x)) (ex_now x)"

definition require_staff :: "externals \<Rightarrow> ('w, 's, 'r) site \<Rightarrow> ('w, 'r) admin_world middleware" where
  "require_staff xt s next x =
     (if \<not> sv_db_enabled (ex_server x) \<or> si_conn s ''default'' = None then (None, error_page xt 503 x)
      else
        (case (case current_session x of None \<Rightarrow> None | Some ss \<Rightarrow> fresh_check (ex_now x) ss) of
           Some u \<Rightarrow> next (on_ctx (ctx_set user_ctx_key (user_value u)) x)
         | None \<Rightarrow>
             (case request_user s x of
                Inl e \<Rightarrow> (None, redirect (si_base_path s @ ''login/?next='' @ query_escape (rq_uri (ex_req x))) x)
              | Inr u \<Rightarrow>
                  if \<not> may_enter u then (None, redirect (si_base_path s @ ''login/?next='' @ query_escape (rq_uri (ex_req x))) x)
                  else
                    (let x1 = (case current_session x of
                                 None \<Rightarrow> x
                               | Some ss \<Rightarrow>
                                   on_store (on_session (ss_id ss) (value_set staff_check_key (staff_check_value (user_view u) (ex_later x)))) x)
                     in next (on_ctx (ctx_set user_ctx_key (user_value (user_view u))) x1)))))"

definition ctx_user :: "'a exchange \<Rightarrow> staff_user option" where
  "ctx_user x = (case ctx_get user_ctx_key (ex_ctx x) of None \<Rightarrow> None | Some v \<Rightarrow> staff_user_of v)"

definition actor_from :: "'a exchange \<Rightarrow> actor" where
  "actor_from x =
     (case ctx_user x of
        Some u \<Rightarrow> \<lparr>ac_user_id = su_id u, ac_username = su_username u\<rparr>
      | None \<Rightarrow> \<lparr>ac_user_id = 0, ac_username = []\<rparr>)"

definition model_visible_to :: "'w registered_model \<Rightarrow> staff_user option \<Rightarrow> bool" where
  "model_visible_to rm u \<longleftrightarrow> \<not> rm_superuser_only rm \<or> (case u of None \<Rightarrow> False | Some v \<Rightarrow> su_is_admin v)"

definition model_by_slug_for :: "('w, 's, 'r) site \<Rightarrow> 'a exchange \<Rightarrow> string \<Rightarrow> 'w registered_model option" where
  "model_by_slug_for s x slug =
     (case model_by_slug (si_registry s) slug of
        None \<Rightarrow> None
      | Some rm \<Rightarrow> if model_visible_to rm (ctx_user x) then Some rm else None)"

subsection \<open>Flash messages\<close>

definition set_flash :: "goval session \<Rightarrow> string \<Rightarrow> string \<Rightarrow> 'a exchange \<Rightarrow> 'a exchange" where
  "set_flash ss kind msg = on_store (on_session (ss_id ss) (value_set flash_session_key (GStr (kind @ ''|'' @ msg))))"

text \<open>The error and the success message.\<close>

definition pop_flash :: "goval session \<Rightarrow> 'a exchange \<Rightarrow> (string \<times> string) \<times> 'a exchange" where
  "pop_flash ss x =
     (case value_get flash_session_key ss of
        None \<Rightarrow> (([], []), x)
      | Some v \<Rightarrow>
          (case cut_chr (CHR ''|'') (text_field v) of
             (kind, msg, _) \<Rightarrow>
               (if kind = ''error'' then (msg, []) else ([], msg), on_store (on_session (ss_id ss) (value_delete flash_session_key)) x)))"

definition flash_on_session :: "string \<Rightarrow> string \<Rightarrow> 'a exchange \<Rightarrow> 'a exchange" where
  "flash_on_session kind msg x = (case current_session x of None \<Rightarrow> x | Some ss \<Rightarrow> set_flash ss kind msg x)"

subsection \<open>Pages\<close>

definition su_full_name :: "staff_user \<Rightarrow> string" where
  "su_full_name u =
     (if su_first_name u = [] then su_last_name u
      else if su_last_name u = [] then su_first_name u
      else su_first_name u @ '' '' @ su_last_name u)"

text \<open>\<open>si_upper_first\<close> is \<open>strings.ToUpper\<close> of the first rune.\<close>

definition user_initials :: "('w, 's, 'r) site \<Rightarrow> staff_user \<Rightarrow> string" where
  "user_initials s u =
     (let first = trim_space (su_first_name u); last = trim_space (su_last_name u)
      in if first \<noteq> [] \<and> last \<noteq> [] then si_upper_first s first @ si_upper_first s last
         else if first \<noteq> [] then si_upper_first s first
         else if last \<noteq> [] then si_upper_first s last
         else if su_username u \<noteq> [] then si_upper_first s (su_username u)
         else ''?'')"

definition nav_of :: "'w registered_model \<Rightarrow> nav_item" where
  "nav_of rm = \<lparr>nv_slug = rm_slug rm, nv_label = rm_label rm\<rparr>"

definition asset_ver :: "('w, 's, 'r) site \<Rightarrow> string \<Rightarrow> string" where
  "asset_ver s content = take 10 (si_sha256 s content)"

definition shown_models :: "('w, 's, 'r) site \<Rightarrow> staff_user option \<Rightarrow> 'w registered_model list" where
  "shown_models s u = filter (\<lambda>rm. model_visible_to rm u) (models_ordered (si_registry s))"

definition page_base :: "('w, 's, 'r) site \<Rightarrow> string \<Rightarrow> string \<Rightarrow> staff_user option \<Rightarrow> string \<Rightarrow> string \<times> string \<Rightarrow> base_data" where
  "page_base s active_slug page_title u tok flash =
     (let shown = shown_models s u
      in \<lparr>bd_app_name = si_app_name s, bd_version = si_version s, bd_page_title = page_title, bd_base_path = si_base_path s,
          bd_active_slug = active_slug, bd_css_ver = asset_ver s (si_css s), bd_js_ver = asset_ver s (si_js s),
          bd_models = map nav_of shown, bd_framework_models = map nav_of (filter rm_framework shown),
          bd_app_models = map nav_of (filter (\<lambda>rm. \<not> rm_framework rm) shown),
          bd_user = (case u of None \<Rightarrow> [] | Some v \<Rightarrow> if su_full_name v \<noteq> [] then su_full_name v else su_username v),
          bd_user_initials = (case u of None \<Rightarrow> [] | Some v \<Rightarrow> user_initials s v),
          bd_csrf_field = csrf_field, bd_csrf_token = tok, bd_flash_error = fst flash, bd_flash_success = snd flash\<rparr>)"

text \<open>\<open>base\<close>; \<open>None\<close> is the panic of \<open>csrf.TokenFor\<close> without a secret.\<close>

definition base ::
  "externals \<Rightarrow> ('w, 's, 'r) site \<Rightarrow> string \<Rightarrow> string \<Rightarrow> 'a exchange \<Rightarrow> base_data option \<times> 'a exchange"
where
  "base xt s active_slug page_title x =
     (case token_for xt (ex_server x) (ex_ctx x) of
        (None, cx) \<Rightarrow> (None, x\<lparr>ex_ctx := cx\<rparr>)
      | (Some tok, cx) \<Rightarrow>
          (let x1 = x\<lparr>ex_ctx := cx\<rparr>
           in case (case current_session x1 of None \<Rightarrow> (([], []), x1) | Some ss \<Rightarrow> pop_flash ss x1) of
                (flash, x2) \<Rightarrow> (Some (page_base s active_slug page_title (ctx_user x1) tok flash), x2)))"

definition render_page :: "('w, 's, 'r) site \<Rightarrow> page \<Rightarrow> 'a exchange \<Rightarrow> 'a exchange" where
  "render_page s p x =
     (case si_template s p of
        Inl e \<Rightarrow> on_response (http_error (''admin: erro ao renderizar: '' @ e) 500) x
      | Inr body \<Rightarrow>
          on_response (write_body body
            \<circ> header_set ''Content-Length'' (itoa (int (length body)))
            \<circ> header_set ''Pragma'' ''no-cache''
            \<circ> header_set ''Cache-Control'' ''no-store''
            \<circ> header_set ''Content-Type'' ''text/html; charset=utf-8'') x)"

definition with_base ::
  "externals \<Rightarrow> ('w, 's, 'r) site \<Rightarrow> string \<Rightarrow> string \<Rightarrow> (base_data \<Rightarrow> page) \<Rightarrow> 'a exchange \<Rightarrow> recovered option \<times> 'a exchange"
where
  "with_base xt s active title mk x =
     (case base xt s active title x of
        (None, x1) \<Rightarrow> (Some (OtherPanic ''csrf: SECRET_KEY''), x1)
      | (Some b, x1) \<Rightarrow> (None, render_page s (mk b) x1))"

definition serve_static :: "('w, 's, 'r) site \<Rightarrow> string \<Rightarrow> string \<Rightarrow> 'a handler" where
  "serve_static s content content_type x =
     (let etag = [CHR 0x22] @ si_sha256 s content @ [CHR 0x22]
      in (None,
          if request_header ''If-None-Match'' (ex_req x) = etag then on_response (write_header 304) x
          else on_response (write_body content
                 \<circ> header_set ''Cache-Control'' ''public, max-age=31536000, immutable''
                 \<circ> header_set ''ETag'' etag
                 \<circ> header_set ''Content-Length'' (itoa (int (length content)))
                 \<circ> header_set ''Content-Type'' content_type) x))"

subsection \<open>Login and logout\<close>

definition handle_login_form :: "externals \<Rightarrow> ('w, 's, 'r) site \<Rightarrow> ('w, 'r) admin_handler" where
  "handle_login_form xt s x =
     (if si_conn s ''default'' \<noteq> None \<and> (case request_user s x of Inr u \<Rightarrow> may_enter u | Inl e \<Rightarrow> False)
      then (None, redirect (si_base_path s) x)
      else with_base xt s [] ''Login'' (\<lambda>b. LoginPage b []) x)"

definition login_error_message :: "login_error \<Rightarrow> string" where
  "login_error_message e =
     (if e = TooManyAttempts then ''Muitas tentativas. Aguarde um pouco antes de tentar novamente.''
      else ''Usu'' @ [CHR 0xC3, CHR 0xA1] @ ''rio ou senha inv'' @ [CHR 0xC3, CHR 0xA1] @ ''lidos.'')"

definition no_permission_text :: string where
  "no_permission_text =
     ''Sua conta n'' @ [CHR 0xC3, CHR 0xA3] @ ''o tem permiss'' @ [CHR 0xC3, CHR 0xA3] @ ''o para acessar o admin.''"

definition render_login_error :: "externals \<Rightarrow> ('w, 's, 'r) site \<Rightarrow> string \<Rightarrow> string \<Rightarrow> 'a handler" where
  "render_login_error xt s login_value msg = with_base xt s [] ''Login'' (\<lambda>b. LoginPage (b\<lparr>bd_flash_error := msg\<rparr>) login_value)"

text \<open>\<open>Request.FormValue\<close>, which ignores the error of a body that does not parse.\<close>

definition form_or_empty :: "string \<Rightarrow> 'a exchange \<Rightarrow> string \<times> 'a exchange" where
  "form_or_empty key x =
     (case form_value (ex_req x) key of (v, rq) \<Rightarrow> ((case v of None \<Rightarrow> [] | Some t \<Rightarrow> t), x\<lparr>ex_req := rq\<rparr>))"

definition login_call :: "('w, 's, 'r) site \<Rightarrow> string \<Rightarrow> string \<Rightarrow> ('w, 'r) admin_world exchange \<Rightarrow> login_result \<times> ('w, 'r) admin_world exchange" where
  "login_call s login_value password x =
     (let a = ex_app x; sv = ex_server x; (rnd, r1) = si_session_id s (aw_rnd a)
      in case login (sv_db_enabled sv) (sv_secure sv) (si_user_by_login s (aw_db a)) (si_check s) (ex_now x) (ex_later x) rnd
             \<lparr>lr_cookies = rq_cookies (ex_req x), lr_remote_addr = rq_remote_addr (ex_req x), lr_tls = rq_tls (ex_req x)\<rparr>
             login_value password (aw_throttle a) (sv_store sv) of
           (res, th, st) \<Rightarrow>
             (let x1 = x\<lparr>ex_app := a\<lparr>aw_rnd := r1, aw_throttle := th\<rparr>, ex_server := sv\<lparr>sv_store := st\<rparr>\<rparr>
              in (res, case res of LoggedIn ss ck \<Rightarrow> on_response (add_cookie ck) x1 | _ \<Rightarrow> x1)))"

definition handle_login_submit :: "externals \<Rightarrow> ('w, 's, 'r) site \<Rightarrow> ('w, 'r) admin_handler" where
  "handle_login_submit xt s x0 =
     (let (login_value, xa) = form_or_empty ''login'' x0; (password, x) = form_or_empty ''password'' xa
      in if si_conn s ''default'' = None then (None, error_page xt 503 x)
         else
           (case login_call s login_value password x of
              (LoginPanic, x1) \<Rightarrow> (Some (OtherPanic ''argon2''), x1)
            | (LoginFailed e, x1) \<Rightarrow> render_login_error xt s login_value (login_error_message e) x1
            | (LoggedIn ss ck, x1) \<Rightarrow>
                (let uid = (case value_get ''user_id'' ss of Some v \<Rightarrow> int_field v | None \<Rightarrow> 0)
                 in if (case si_user_by_id s (aw_db (ex_app x1)) uid of None \<Rightarrow> False | Some u \<Rightarrow> may_enter u)
                    then (None, redirect (next_url (values_get (url_query (rq_uri (ex_req x1))) ''next'') (si_base_path s)) x1)
                    else render_login_error xt s login_value no_permission_text
                           (on_response (add_cookie (logout_cookie (sv_secure (ex_server x1)))) (on_store (session_delete (ss_id ss)) x1)))))"

definition handle_logout :: "externals \<Rightarrow> ('w, 's, 'r) site \<Rightarrow> ('w, 'r) admin_handler" where
  "handle_logout xt s x =
     (case logout (sv_secure (ex_server x)) (rq_cookies (ex_req x)) (ex_now x) (sv_store (ex_server x)) of
        (ck, st) \<Rightarrow> (None, redirect (si_base_path s @ ''login/'') (on_response (add_cookie ck) (on_store (\<lambda>_. st) x))))"

definition handle_dashboard :: "externals \<Rightarrow> ('w, 's, 'r) site \<Rightarrow> ('w, 'r) admin_handler" where
  "handle_dashboard xt s = with_base xt s [] ''Painel'' DashboardPage"

end
