(* ===== verification/AdminHandlers.thy ===== *)
theory AdminHandlers
  imports AdminSite
begin

text \<open>
  The handlers of the admin on registered models, \<open>core/admin/handlers.go\<close> and the history page of
  \<open>core/admin/history.go\<close>, and the routes \<open>Mount\<close> registers.
\<close>

declare map_of_eq_Some_iff [simp del] AList.update_conv' [simp]

text \<open>The database of an exchange, replaced; and the way every handler on a model begins.\<close>

definition set_db :: "'w \<Rightarrow> ('w, 'r) admin_world exchange \<Rightarrow> ('w, 'r) admin_world exchange" where
  "set_db w = on_app (\<lambda>a. a\<lparr>aw_db := w\<rparr>)"

definition set_db_rnd :: "'r \<Rightarrow> 'w \<Rightarrow> ('w, 'r) admin_world exchange \<Rightarrow> ('w, 'r) admin_world exchange" where
  "set_db_rnd r w = on_app (\<lambda>a. a\<lparr>aw_db := w, aw_rnd := r\<rparr>)"

definition with_model ::
  "externals \<Rightarrow> ('w, 's, 'r) site \<Rightarrow> ('w registered_model \<Rightarrow> ('w, 's, 'r) crud_env \<Rightarrow> ('w, 'r) admin_handler) \<Rightarrow> ('w, 'r) admin_handler"
where
  "with_model xt s k x =
     (case model_by_slug_for s x (ctx_param ''slug'' (ex_ctx x)) of
        None \<Rightarrow> (None, error_page xt 404 x)
      | Some rm \<Rightarrow> (case si_conn s (rm_conn rm) of None \<Rightarrow> (None, error_page xt 503 x) | Some ce \<Rightarrow> k rm ce x))"

definition list_path :: "('w, 's, 'r) site \<Rightarrow> 'v registered_model \<Rightarrow> string" where
  "list_path s rm = si_base_path s @ rm_slug rm @ ''/''"

subsection \<open>The listing\<close>

definition default_page_size :: int where "default_page_size = 20"
definition max_page_size :: int where "max_page_size = 100"

definition query_param :: "'a exchange \<Rightarrow> string \<Rightarrow> string" where
  "query_param x k = ctx_query (url_query (rq_uri (ex_req x))) k (ex_ctx x)"

definition query_int :: "'a exchange \<Rightarrow> string \<Rightarrow> int \<Rightarrow> int" where
  "query_int x k fallback = ctx_query_int (url_query (rq_uri (ex_req x))) k fallback (ex_ctx x)"

definition page_number :: "int \<Rightarrow> int" where
  "page_number n = (if n < 1 then 1 else n)"

definition page_length :: "int \<Rightarrow> int" where
  "page_length n = (let m = (if n < 1 then default_page_size else n) in if m > max_page_size then max_page_size else m)"

definition link_params :: "string \<Rightarrow> filter_view list \<Rightarrow> (string \<times> string) list \<Rightarrow> (string \<times> string) list" where
  "link_params needle filters extra = fold (\<lambda>(k, v) m. AList.update k v m) (filter_url_params filters @ extra) [(''q'', needle)]"

definition list_columns ::
  "('w, 's, 'r) site \<Rightarrow> 'v registered_model \<Rightarrow> string \<Rightarrow> filter_view list \<Rightarrow> string \<Rightarrow> bool \<Rightarrow> column_view list"
where
  "list_columns s rm needle filters sort_col sort_desc =
     map (\<lambda>col. let f = find (\<lambda>f. af_column f = col) (rev (rm_fields rm)); active = (sort_col = col);
                    next_dir = (if active \<and> \<not> sort_desc then ''desc'' else ''asc'')
                in \<lparr>cv_column = col, cv_label = (case f of None \<Rightarrow> [] | Some g \<Rightarrow> af_label g),
                    cv_sort_url = build_url (list_path s rm) (link_params needle filters [(''sort'', col), (''dir'', next_dir)]),
                    cv_sort_active = active, cv_sort_desc = (active \<and> sort_desc),
                    cv_is_pk = (case f of None \<Rightarrow> False | Some g \<Rightarrow> af_is_pk g)\<rparr>) (rm_list_cols rm)"

definition page_link ::
  "('w, 's, 'r) site \<Rightarrow> 'v registered_model \<Rightarrow> string \<Rightarrow> filter_view list \<Rightarrow> string \<Rightarrow> string \<Rightarrow> int \<Rightarrow> string"
where
  "page_link s rm needle filters sort_col dir n =
     build_url (list_path s rm) (link_params needle filters [(''sort'', sort_col), (''dir'', dir), (''page'', itoa n)])"

definition bulk_choices :: "'v registered_model \<Rightarrow> (string \<times> string) list" where
  "bulk_choices rm = (''delete'', ''Excluir selecionados'') # map (\<lambda>ba. (ba_name ba, ba_label ba)) (rm_bulk_actions rm)"

definition fetch_options ::
  "('w, 's, 'r) site \<Rightarrow> ('w, 's, 'r) crud_env \<Rightarrow> string \<Rightarrow> string \<Rightarrow> 'w \<Rightarrow> (string option \<times> fk_option list) \<times> 'w"
where
  "fetch_options s ce table label w =
     (case fetch_fk_options (si_registry s) ce table label w of
        ((e, opts), w1) \<Rightarrow> ((map_option (si_error_text s) e, opts), w1))"

definition list_model ::
  "externals \<Rightarrow> ('w, 's, 'r) site \<Rightarrow> 'w registered_model \<Rightarrow> ('w, 's, 'r) crud_env \<Rightarrow> ('w, 'r) admin_handler"
where
  "list_model xt s rm ce x =
     (let page = page_number (query_int x ''page'' 1);
          page_size = page_length (query_int x ''page_size'' default_page_size);
          needle = trim_space (query_param x ''q'');
          dir = query_param x ''dir''; sort_desc = (dir = ''desc'');
          sort0 = query_param x ''sort'';
          sort_col = (if sort0 \<noteq> [] \<and> \<not> has_column rm sort0 then [] else sort0);
          (filters, w1) = build_filter_views (query_param x) (fetch_options s ce) (rm_filter_fields rm) (aw_db (ex_app x));
          conds = filter_conds (ce_env ce) (rm_filter_fields rm) filters
      in case admin_list (si_registry s) ce rm page page_size needle sort_col sort_desc conds w1 of
           (Inl e, w2) \<Rightarrow> (None, on_response (http_error (''admin: '' @ si_error_text s e) 500) (set_db w2 x))
         | (Inr (rows, has_next), w2) \<Rightarrow>
             with_base xt s (rm_slug rm) (rm_label rm)
               (\<lambda>b. ListPage b \<lparr>ld_label = rm_label rm, ld_slug = rm_slug rm,
                  ld_columns = list_columns s rm needle filters sort_col sort_desc, ld_rows = rows, ld_search = needle,
                  ld_searchable = (rm_search_cols rm \<noteq> []), ld_filters = filters, ld_filters_active = (filter_url_params filters \<noteq> []),
                  ld_bulk_actions = bulk_choices rm, ld_page = page, ld_has_prev = (page > 1), ld_has_next = has_next,
                  ld_prev_url = page_link s rm needle filters sort_col dir (page - 1),
                  ld_next_url = page_link s rm needle filters sort_col dir (wrap64 (page + 1)),
                  ld_new_url = list_path s rm @ ''novo/'', ld_clear_url = list_path s rm, ld_bulk_url = list_path s rm @ ''lote/''\<rparr>)
               (set_db w2 x))"

definition handle_list :: "externals \<Rightarrow> ('w, 's, 'r) site \<Rightarrow> ('w, 'r) admin_handler" where
  "handle_list xt s = with_model xt s (list_model xt s)"

subsection \<open>Bulk actions\<close>

text \<open>The function an action name stands for, as an operation with its error text.\<close>

definition bulk_fn_of ::
  "('w, 's, 'r) site \<Rightarrow> 'w registered_model \<Rightarrow> ('w, 's, 'r) crud_env \<Rightarrow> string \<Rightarrow> 'w bulk_fn option"
where
  "bulk_fn_of s rm ce action =
     (if action = ''delete''
      then Some (\<lambda>pks w. case delete_many ce rm pks w of (e, w1) \<Rightarrow> (map_option (si_error_text s \<circ> OrmErr) e, w1))
      else map_option ba_fn (find (\<lambda>ba. ba_name ba = action) (rm_bulk_actions rm)))"

fun parse_pks :: "string list \<Rightarrow> go_type \<Rightarrow> goval list option" where
  "parse_pks [] k = Some []"
| "parse_pks (raw # raws) k =
     (case parse_pk_arg raw k of None \<Rightarrow> None | Some v \<Rightarrow> map_option ((#) v) (parse_pks raws k))"

definition bulk_model ::
  "externals \<Rightarrow> ('w, 's, 'r) site \<Rightarrow> 'w registered_model \<Rightarrow> ('w, 's, 'r) crud_env \<Rightarrow> ('w, 'r) admin_handler"
where
  "bulk_model xt s rm ce x =
     (case si_body s (ex_req x) of
        None \<Rightarrow> (None, error_page xt 400 x)
      | Some form \<Rightarrow>
          (let action = form_get form ''action''; raw_ids = (case map_of form ''ids'' of None \<Rightarrow> [] | Some vs \<Rightarrow> vs)
           in if raw_ids = [] then (None, redirect (list_path s rm) (flash_on_session ''error'' ''Nenhum registro selecionado.'' x))
              else
                (case parse_pks raw_ids (rm_pk_kind rm) of
                   None \<Rightarrow> (None, error_page xt 400 x)
                 | Some pks \<Rightarrow>
                     (case bulk_fn_of s rm ce action of
                        None \<Rightarrow> (None, error_page xt 400 x)
                      | Some fn \<Rightarrow>
                          (case fn pks (aw_db (ex_app x)) of
                             (Some e, w1) \<Rightarrow> (None, redirect (list_path s rm) (flash_on_session ''error'' e (set_db w1 x)))
                           | (None, w1) \<Rightarrow>
                               (case log_bulk_history ce rm (actor_from x) action raw_ids (aw_rnd (ex_app x)) w1 of
                                  (r2, w2) \<Rightarrow>
                                    (None, redirect (list_path s rm)
                                       (flash_on_session ''success'' (itoa (int (length pks)) @ '' registro(s) processado(s).'')
                                          (set_db_rnd r2 w2 x)))))))))"

definition handle_bulk_action :: "externals \<Rightarrow> ('w, 's, 'r) site \<Rightarrow> ('w, 'r) admin_handler" where
  "handle_bulk_action xt s = with_model xt s (bulk_model xt s)"

subsection \<open>Forms\<close>

text \<open>A current value that is not among the options stays visible.\<close>

definition keep_current :: "string \<Rightarrow> fk_option list \<Rightarrow> fk_option list" where
  "keep_current v opts =
     (if v \<noteq> [] \<and> \<not> list_ex (\<lambda>fo. fo_value fo = v) opts then \<lparr>fo_value = v, fo_label = v\<rparr> # opts else opts)"

fun form_fields ::
  "('w, 's, 'r) site \<Rightarrow> ('w, 's, 'r) crud_env \<Rightarrow> bool \<Rightarrow> (string \<times> string list) list option \<Rightarrow> admin_field list \<Rightarrow> 'w \<Rightarrow>
   form_field list \<times> 'w"
where
  "form_fields s ce is_edit prefill [] w = ([], w)"
| "form_fields s ce is_edit prefill (f # fs) w =
     (if af_is_pk f \<or> ((af_is_autonow f \<or> af_is_autonow_add f) \<and> \<not> is_edit) then form_fields s ce is_edit prefill fs w
      else
        (let raw = (case prefill of None \<Rightarrow> [] | Some m \<Rightarrow> if af_is_hash f then [] else form_get m (af_column f));
             (opts, w1) = (if af_is_fk f
                           then (case fetch_options s ce (af_fk_table f) (af_fk_label f) w of ((_, os), w1) \<Rightarrow> (keep_current raw os, w1))
                           else ([], w))
         in case form_fields s ce is_edit prefill fs w1 of
              (ffs, w2) \<Rightarrow>
                (\<lparr>ff_column = af_column f, ff_label = af_label f, ff_widget = af_widget f, ff_value = raw,
                  ff_checked = (raw \<in> {''true'', ''on'', ''1''}),
                  ff_read_only = (af_is_autonow f \<or> af_is_autonow_add f \<or> af_is_nanoid f), ff_is_hash = af_is_hash f,
                  ff_is_image = af_is_image f, ff_is_fk = af_is_fk f, ff_options = opts\<rparr> # ffs, w2)))"

definition form_page ::
  "externals \<Rightarrow> ('w, 's, 'r) site \<Rightarrow> 'w registered_model \<Rightarrow> ('w, 's, 'r) crud_env \<Rightarrow> bool \<Rightarrow> string \<Rightarrow>
   (string \<times> string list) list option \<Rightarrow> string \<Rightarrow> ('w, 'r) admin_handler"
where
  "form_page xt s rm ce is_edit err prefill pk x =
     (case form_fields s ce is_edit prefill (rm_fields rm) (aw_db (ex_app x)) of
        (ffs, w1) \<Rightarrow>
          with_base xt s (rm_slug rm) (rm_label rm)
            (\<lambda>b. FormPage b \<lparr>fd_label = rm_label rm, fd_is_edit = is_edit,
               fd_action = (if is_edit then list_path s rm @ pk @ ''/'' else list_path s rm @ ''novo/''),
               fd_cancel_url = list_path s rm, fd_fields = ffs, fd_error = err, fd_pk = pk\<rparr>)
            (set_db w1 x))"

definition handle_new_form :: "externals \<Rightarrow> ('w, 's, 'r) site \<Rightarrow> ('w, 'r) admin_handler" where
  "handle_new_form xt s = with_model xt s (\<lambda>rm ce. form_page xt s rm ce False [] None [])"

definition bad_form_text :: string where
  "bad_form_text = ''dados de formul'' @ [CHR 0xC3, CHR 0xA1] @ ''rio inv'' @ [CHR 0xC3, CHR 0xA1] @ ''lidos''"

definition create_model ::
  "externals \<Rightarrow> ('w, 's, 'r) site \<Rightarrow> 'w registered_model \<Rightarrow> ('w, 's, 'r) crud_env \<Rightarrow> ('w, 'r) admin_handler"
where
  "create_model xt s rm ce x =
     (case si_body s (ex_req x) of
        None \<Rightarrow> form_page xt s rm ce False bad_form_text None [] x
      | Some form \<Rightarrow>
          (case admin_create ce rm form (si_files s (ex_req x)) (actor_from x) (aw_rnd (ex_app x)) (aw_db (ex_app x)) of
             (err, r1, w1) \<Rightarrow>
               (let x1 = set_db_rnd r1 w1 x
                in case err of
                     Some (AdminPanic p) \<Rightarrow> (Some (OtherPanic p), x1)
                   | Some e \<Rightarrow> form_page xt s rm ce False (si_error_text s e) (Some form) [] x1
                   | None \<Rightarrow> (None, redirect (list_path s rm) (flash_on_session ''success'' (rm_label rm @ '' criado com sucesso.'') x1)))))"

definition handle_create :: "externals \<Rightarrow> ('w, 's, 'r) site \<Rightarrow> ('w, 'r) admin_handler" where
  "handle_create xt s = with_model xt s (create_model xt s)"

definition edit_model ::
  "externals \<Rightarrow> ('w, 's, 'r) site \<Rightarrow> 'w registered_model \<Rightarrow> ('w, 's, 'r) crud_env \<Rightarrow> ('w, 'r) admin_handler"
where
  "edit_model xt s rm ce x =
     (let pk = ctx_param ''pk'' (ex_ctx x)
      in case admin_get ce rm pk (aw_db (ex_app x)) of
           (Inl e, w1) \<Rightarrow> (None, error_page xt 404 (set_db w1 x))
         | (Inr row, w1) \<Rightarrow> form_page xt s rm ce True [] (Some (map (\<lambda>(k, v). (k, [v])) (ar_values row))) pk (set_db w1 x))"

definition handle_edit_form :: "externals \<Rightarrow> ('w, 's, 'r) site \<Rightarrow> ('w, 'r) admin_handler" where
  "handle_edit_form xt s = with_model xt s (edit_model xt s)"

definition update_model ::
  "externals \<Rightarrow> ('w, 's, 'r) site \<Rightarrow> 'w registered_model \<Rightarrow> ('w, 's, 'r) crud_env \<Rightarrow> ('w, 'r) admin_handler"
where
  "update_model xt s rm ce x =
     (let pk = ctx_param ''pk'' (ex_ctx x)
      in case si_body s (ex_req x) of
           None \<Rightarrow> (None, error_page xt 400 x)
         | Some form \<Rightarrow>
             (case admin_update ce rm pk form (si_files s (ex_req x)) (actor_from x) (aw_rnd (ex_app x)) (aw_db (ex_app x)) of
                (err, r1, w1) \<Rightarrow>
                  (let x1 = set_db_rnd r1 w1 x
                   in case err of
                        Some (AdminPanic p) \<Rightarrow> (Some (OtherPanic p), x1)
                      | Some e \<Rightarrow> form_page xt s rm ce True (si_error_text s e) (Some form) pk x1
                      | None \<Rightarrow> (None, redirect (list_path s rm) (flash_on_session ''success'' (rm_label rm @ '' atualizado com sucesso.'') x1)))))"

definition handle_update :: "externals \<Rightarrow> ('w, 's, 'r) site \<Rightarrow> ('w, 'r) admin_handler" where
  "handle_update xt s = with_model xt s (update_model xt s)"

definition delete_model ::
  "externals \<Rightarrow> ('w, 's, 'r) site \<Rightarrow> 'w registered_model \<Rightarrow> ('w, 's, 'r) crud_env \<Rightarrow> ('w, 'r) admin_handler"
where
  "delete_model xt s rm ce x =
     (case admin_delete ce rm (ctx_param ''pk'' (ex_ctx x)) (actor_from x) (aw_rnd (ex_app x)) (aw_db (ex_app x)) of
        (err, r1, w1) \<Rightarrow>
          (let x1 = set_db_rnd r1 w1 x
           in case err of
                Some e \<Rightarrow> (None, on_response (http_error (''admin: '' @ si_error_text s e) 500) x1)
              | None \<Rightarrow>
                  (None, redirect (list_path s rm)
                     (flash_on_session ''success'' (rm_label rm @ '' exclu'' @ [CHR 0xC3, CHR 0xAD] @ ''do.'') x1))))"

definition handle_delete :: "externals \<Rightarrow> ('w, 's, 'r) site \<Rightarrow> ('w, 'r) admin_handler" where
  "handle_delete xt s = with_model xt s (delete_model xt s)"

subsection \<open>The history page\<close>

definition history_zero :: "goval list" where
  "history_zero = [GInt KInt64 0, GStr [], GStr [], GStr [], GStr [], GStr [], GInt KInt64 0, GStr [], GTime 0]"

text \<open>One entry, unless its model is hidden from the user.\<close>

definition history_row :: "admin_env \<Rightarrow> goval list \<Rightarrow> history_view" where
  "history_row ae e =
     \<lparr>hv_model = (if text_field (e ! 2) = [] then text_field (e ! 1) else text_field (e ! 2)),
      hv_record_pk = text_field (e ! 3), hv_action = text_field (e ! 4), hv_changes = format_changes (text_field (e ! 5)),
      hv_username = text_field (e ! 7), hv_created_at = format_stamp (CHR '' '') (ae_zone ae (time_field (e ! 8))) (time_field (e ! 8))\<rparr>"

definition hidden_slugs :: "('w, 's, 'r) site \<Rightarrow> 'a exchange \<Rightarrow> string list" where
  "hidden_slugs s x = map rm_slug (filter (\<lambda>rm. \<not> model_visible_to rm (ctx_user x)) (models_ordered (si_registry s)))"

definition history_query :: "string \<Rightarrow> ('w, 's, 'r) crud_env \<Rightarrow> query" where
  "history_query slug ce =
     (let q = new_query (ce_driver ce) (ce_schema ce) history_meta;
          q1 = (if slug \<noteq> [] then where_op ''model_slug'' ''='' (GStr slug) False q else q)
      in order_by [''id DESC''] q1)"

definition handle_history :: "externals \<Rightarrow> ('w, 's, 'r) site \<Rightarrow> ('w, 'r) admin_handler" where
  "handle_history xt s x =
     (let wanted = query_param x ''model'';
          chosen = (if wanted = [] then None else model_by_slug_for s x wanted);
          slug = (if chosen = None then [] else wanted)
      in case si_conn s (case chosen of None \<Rightarrow> ''default'' | Some rm \<Rightarrow> rm_conn rm) of
           None \<Rightarrow> (None, error_page xt 503 x)
         | Some ce \<Rightarrow>
             (let page = page_number (query_int x ''page'' 1)
              in case paginate_no_count (ce_codec ce) (ce_exec ce) history_zero page default_page_size (history_query slug ce) (aw_db (ex_app x)) of
                   (Inl e, w1) \<Rightarrow> (None, on_response (http_error (''admin: '' @ si_error_text s (OrmErr e)) 500) (set_db w1 x))
                 | (Inr p, w1) \<Rightarrow>
                     (let entries = map (history_row (ce_env ce))
                            (filter (\<lambda>e. text_field (e ! 1) \<notin> set (hidden_slugs s x)) (pg_items p));
                          path = si_base_path s @ ''historico/'';
                          link = (\<lambda>n. build_url path [(''model'', slug), (''page'', itoa n)])
                      in with_base xt s ''historico'' (''Hist'' @ [CHR 0xC3, CHR 0xB3] @ ''rico'')
                           (\<lambda>b. HistoryPage b \<lparr>hd_entries = entries, hd_model_filter = slug,
                              hd_models = map nav_of (filter (\<lambda>rm. model_visible_to rm (ctx_user x)) (models_ordered (si_registry s))),
                              hd_page = page, hd_has_prev = (page > 1), hd_has_next = pg_has_next p,
                              hd_prev_url = link (page - 1), hd_next_url = link (wrap64 (page + 1)), hd_clear_url = path\<rparr>)
                           (set_db w1 x))))"

subsection \<open>Routes\<close>

definition guarded_routes :: "externals \<Rightarrow> ('w, 's, 'r) site \<Rightarrow> (string \<times> ('w, 'r) admin_handler) list" where
  "guarded_routes xt s =
     (let b = si_base_path s
      in [(''POST '' @ b @ ''logout/'', handle_logout xt s), (''GET '' @ b, handle_dashboard xt s), (''GET '' @ b @ ''historico/'', handle_history xt s),
          (''GET '' @ b @ ''<slug:str>/'', handle_list xt s), (''GET '' @ b @ ''<slug:str>/novo/'', handle_new_form xt s),
          (''POST '' @ b @ ''<slug:str>/novo/'', handle_create xt s), (''POST '' @ b @ ''<slug:str>/lote/'', handle_bulk_action xt s),
          (''GET '' @ b @ ''<slug:str>/<pk:str>/'', handle_edit_form xt s), (''POST '' @ b @ ''<slug:str>/<pk:str>/'', handle_update xt s),
          (''POST '' @ b @ ''<slug:str>/<pk:str>/excluir/'', handle_delete xt s)])"

definition mount ::
  "externals \<Rightarrow> ('w, 's, 'r) site \<Rightarrow> ('w, 'r) admin_handler router \<Rightarrow> ('w, 'r) admin_handler router"
where
  "mount xt s0 r =
     (let s = s0\<lparr>si_base_path := normalize_base_path (si_base_path s0)\<rparr>; b = si_base_path s
      in if si_conn s ''default'' = None then r
         else fold (\<lambda>(p, h). handle p (require_staff xt s h)) (guarded_routes xt s)
                (handle (''POST '' @ b @ ''login/'') (handle_login_submit xt s)
                  (handle (''GET '' @ b @ ''login/'') (handle_login_form xt s)
                    (handle_internal (''GET '' @ b @ ''statics/admin.js'') (serve_static s (si_js s) ''application/javascript; charset=utf-8'')
                      (handle_internal (''GET '' @ b @ ''statics/admin.css'') (serve_static s (si_css s) ''text/css; charset=utf-8'') r)))))"

end
