(* ===== verification/AdminAccess.thy ===== *)
theory AdminAccess
  imports AdminHandlers
begin

text \<open>
  Who reaches the admin: the guard against the history of the accounts, the models reserved to
  superusers, the login, the routes that are mounted.
\<close>

declare map_of_eq_Some_iff [simp del] AList.update_conv' [simp]

subsection \<open>Sessions of the store\<close>

lemma lookup_on_session:
  "map_of (st_sessions (on_session i f st)) j = (if j = i then map_option f (map_of (st_sessions st) i) else map_of (st_sessions st) j)"
  by (cases "map_of (st_sessions st) i") (auto simp: on_session_def)

definition sub_store :: "goval store \<Rightarrow> goval store \<Rightarrow> bool" where
  "sub_store st' st \<longleftrightarrow> (\<forall>i s. map_of (st_sessions st') i = Some s \<longrightarrow> map_of (st_sessions st) i = Some s)"

lemma sub_store_delete: "sub_store (session_delete i st) st"
  by (auto simp: sub_store_def delete_sessions AList.delete_conv' split: if_splits)

lemma sub_store_trans: "sub_store a b \<Longrightarrow> sub_store b c \<Longrightarrow> sub_store a c"
  by (auto simp: sub_store_def)

lemma sub_store_gc: "sub_store (session_gc now st) st"
proof -
  have "sub_store (fold session_delete is st) st" for "is"
    by (induction "is" arbitrary: st) (auto simp: sub_store_def[of st st for st] intro: sub_store_trans sub_store_delete)
  then show ?thesis by (simp add: session_gc_def)
qed

lemma lookup_new_session:
  assumes "new_session k rnd now st = (r, st')"
  shows "map_of (st_sessions st') j =
    (case r of Inr s \<Rightarrow> if j = ss_id s then Some s else map_of (st_sessions st) j | Inl e \<Rightarrow> map_of (st_sessions st) j)"
    and "r = Inr s \<Longrightarrow> ss_values s = [] \<and> (\<exists>b. rnd = Some b \<and> ss_id s = hex_encode b)"
  using assms by (auto simp: new_session_def Let_def prune_key_expired_def split: option.splits if_splits)

subsection \<open>The guard\<close>

text \<open>
  What happens while the admin runs: the clock, the user table and the session store, with every user
  table there has been and its time. A guarded request reads the user table when it starts and stamps its
  check at most \<open>d\<close> later. Nobody else writes the key of the check, and a session learns its user
  before it holds a check (\<open>Login\<close> does it on a new session).
\<close>

type_synonym staff_world = "time \<times> (int \<Rightarrow> user option) \<times> (time \<times> (int \<Rightarrow> user option)) set \<times> goval store"

inductive staff_step :: "('w, 's, 'r) site \<Rightarrow> int \<Rightarrow> staff_world \<Rightarrow> staff_world \<Rightarrow> bool" for s :: "('w, 's, 'r) site" and d :: int where
  Clock: "now \<le> now' \<Longrightarrow> staff_step s d (now, us, H, st) (now', us, insert (now', us) H, st)"
| Accounts: "staff_step s d (now, us, H, st) (now, us', insert (now, us') H, st)"
| NewSession: "new_session k rnd now st = (r, st') \<Longrightarrow> staff_step s d (now, us, H, st) (now, us, H, st')"
| DropSession: "staff_step s d (now, us, H, st) (now, us, H, session_delete i st)"
| CollectSessions: "staff_step s d (now, us, H, st) (now, us, H, session_gc now st)"
| Identify: "\<forall>ss. map_of (st_sessions st) i = Some ss \<longrightarrow> value_get staff_check_key ss = None \<Longrightarrow>
    staff_step s d (now, us, H, st) (now, us, H, on_session i (value_set ''user_id'' v) st)"
| Store: "key \<notin> {staff_check_key, ''user_id''} \<Longrightarrow> staff_step s d (now, us, H, st) (now, us, H, on_session i (value_set key v) st)"
| Forget: "key \<noteq> ''user_id'' \<Longrightarrow> staff_step s d (now, us, H, st) (now, us, H, on_session i (value_delete key) st)"
| Guarded: "ex_now x = now \<Longrightarrow> ex_later x \<le> now + d \<Longrightarrow> sv_store (ex_server x) = st \<Longrightarrow> si_user_by_id s (aw_db (ex_app x)) = us \<Longrightarrow>
    require_staff xt s (\<lambda>y. (None, y)) x = (p, y) \<Longrightarrow> staff_step s d (now, us, H, st) (now, us, H, sv_store (ex_server y))"

definition backed :: "int \<Rightarrow> (time \<times> (int \<Rightarrow> user option)) set \<Rightarrow> goval session \<Rightarrow> bool" where
  "backed d H ss \<longleftrightarrow>
     (\<forall>u \<tau>. value_get staff_check_key ss = Some (staff_check_value u \<tau>) \<longrightarrow>
        (\<exists>t us j usr. (t, us) \<in> H \<and> \<tau> - d \<le> t \<and> us j = Some usr \<and> may_enter usr \<and> u = user_view usr \<and>
           value_get ''user_id'' ss = Some (GInt KInt64 j)))"

definition staff_inv :: "int \<Rightarrow> staff_world \<Rightarrow> bool" where
  "staff_inv d W \<longleftrightarrow>
     (case W of (now, us, H, st) \<Rightarrow>
        (now, us) \<in> H \<and> (\<forall>(t, us')\<in>H. t \<le> now) \<and> (\<forall>i ss. map_of (st_sessions st) i = Some ss \<longrightarrow> ss_id ss = i \<and> backed d H ss))"

lemma staff_check_value_eq: "staff_check_value u t = staff_check_value u' t' \<longleftrightarrow> u = u' \<and> t = t'"
  using staff_check_of_value by (metis option.inject prod.inject)

lemma backed_mono: "backed d H ss \<Longrightarrow> H \<subseteq> H' \<Longrightarrow> backed d H' ss"
  unfolding backed_def by blast

lemma backed_other: "key \<notin> {staff_check_key, ''user_id''} \<Longrightarrow> backed d H (value_set key v ss) = backed d H ss"
  by (auto simp: backed_def value_get_def value_set_def)

lemma backed_unchecked: "value_get staff_check_key ss = None \<Longrightarrow> backed d H ss"
  by (simp add: backed_def)

lemma staff_invI:
  assumes "staff_inv d (now, us, H, st)"
    and "\<And>i ss. map_of (st_sessions st') i = Some ss \<Longrightarrow> ss_id ss = i \<and> backed d H ss"
  shows "staff_inv d (now, us, H, st')"
  using assms by (simp add: staff_inv_def)

lemma staff_invD:
  assumes "staff_inv d (now, us, H, st)"
  shows "(now, us) \<in> H" "(t, us') \<in> H \<Longrightarrow> t \<le> now" "map_of (st_sessions st) i = Some ss \<Longrightarrow> ss_id ss = i \<and> backed d H ss"
  using assms by (auto simp: staff_inv_def)

lemma staff_inv_on_session:
  assumes "staff_inv d (now, us, H, st)" "\<And>ss. ss_id (f ss) = ss_id ss"
    and "\<And>ss. map_of (st_sessions st) i = Some ss \<Longrightarrow> backed d H (f ss)"
  shows "staff_inv d (now, us, H, on_session i f st)"
  by (rule staff_invI[OF assms(1)]) (use assms staff_invD(3)[OF assms(1)] in \<open>auto simp: lookup_on_session split: if_splits\<close>)

lemma staff_inv_sub: "staff_inv d (now, us, H, st) \<Longrightarrow> sub_store st' st \<Longrightarrow> staff_inv d (now, us, H, st')"
  by (rule staff_invI) (auto simp: sub_store_def dest: staff_invD(3))

lemma session_of_request:
  assumes "current_session x = Some ss"
  obtains i where "map_of (st_sessions (sv_store (ex_server x))) i = Some ss"
  using assms by (auto simp: current_session_def from_request_def session_get_def split: option.splits if_splits)

lemma request_user_session:
  assumes "request_user s x = Inr u"
  obtains ss j where "current_session x = Some ss" "value_get ''user_id'' ss = Some (GInt KInt64 j)"
    "si_user_by_id s (aw_db (ex_app x)) j = Some u"
  using assms by (auto simp: request_user_def get_user_def current_session_def split: if_splits option.splits goval.splits ikind.splits)

text \<open>The three ways a guarded request goes.\<close>

lemma require_staff_cases:
  obtains (refused) x' where "\<And>nxt. require_staff xt s nxt x = (None, x')" "ex_app x' = ex_app x" "sv_store (ex_server x') = sv_store (ex_server x)"
  | (cached) ss u \<tau> where "current_session x = Some ss" "value_get staff_check_key ss = Some (staff_check_value u \<tau>)"
      "ex_now x - \<tau> < staff_check_ttl" "\<And>nxt. require_staff xt s nxt x = nxt (on_ctx (ctx_set user_ctx_key (user_value u)) x)"
  | (checked) ss j usr where "current_session x = Some ss" "value_get ''user_id'' ss = Some (GInt KInt64 j)"
      "si_user_by_id s (aw_db (ex_app x)) j = Some usr" "may_enter usr"
      "\<And>nxt. require_staff xt s nxt x = nxt (on_ctx (ctx_set user_ctx_key (user_value (user_view usr)))
        (on_store (on_session (ss_id ss) (value_set staff_check_key (staff_check_value (user_view usr) (ex_later x)))) x))"
proof -
  let ?url = "si_base_path s @ ''login/?next='' @ query_escape (rq_uri (ex_req x))"
  have frame: "ex_app (error_page xt 503 x) = ex_app x" "sv_store (ex_server (error_page xt 503 x)) = sv_store (ex_server x)"
    "ex_app (redirect ?url x) = ex_app x" "sv_store (ex_server (redirect ?url x)) = sv_store (ex_server x)"
    by (simp_all add: exchange_defs Let_def)
  let ?c = "case current_session x of None \<Rightarrow> None | Some ss \<Rightarrow> fresh_check (ex_now x) ss"
  show thesis
  proof (cases "\<not> sv_db_enabled (ex_server x) \<or> si_conn s ''default'' = None")
    case True
    then show thesis using refused[of "error_page xt 503 x"] frame by (simp add: require_staff_def)
  next
    case on: False
    have rs: "require_staff xt s nxt x =
        (case ?c of
           Some u \<Rightarrow> nxt (on_ctx (ctx_set user_ctx_key (user_value u)) x)
         | None \<Rightarrow>
             (case request_user s x of
                Inl e \<Rightarrow> (None, redirect ?url x)
              | Inr u \<Rightarrow>
                  if \<not> may_enter u then (None, redirect ?url x)
                  else nxt (on_ctx (ctx_set user_ctx_key (user_value (user_view u)))
                    (case current_session x of
                       None \<Rightarrow> x
                     | Some ss \<Rightarrow>
                         on_store (on_session (ss_id ss) (value_set staff_check_key (staff_check_value (user_view u) (ex_later x)))) x))))" for nxt
      unfolding require_staff_def Let_def by (simp only: on if_False)
    show thesis
    proof (cases ?c)
      case (Some u)
      then obtain ss v \<tau> where c: "current_session x = Some ss" "value_get staff_check_key ss = Some v" "staff_check_of v = Some (u, \<tau>)"
          "ex_now x - \<tau> < staff_check_ttl"
        by (auto simp: fresh_check_def split: option.splits prod.splits if_splits)
      show thesis
        by (rule cached[OF c(1) _ c(4)]) (use c staff_check_of_Some[OF c(3)] rs Some in simp_all)
    next
      case None
      show thesis
      proof (cases "request_user s x")
        case (Inl e)
        then show thesis using refused[of "redirect ?url x"] rs None frame by simp
      next
        case (Inr u)
        show thesis
        proof (cases "may_enter u")
          case False
          then show thesis using refused[of "redirect ?url x"] rs Inr None frame by simp
        next
          case True
          from Inr obtain ss j where j: "current_session x = Some ss" "value_get ''user_id'' ss = Some (GInt KInt64 j)"
              "si_user_by_id s (aw_db (ex_app x)) j = Some u" by (rule request_user_session)
          show thesis
            by (rule checked[OF j True]) (use None Inr True rs j in simp)
        qed
      qed
    qed
  qed
qed

lemma staff_step_inv:
  assumes "staff_step s d W W'" "staff_inv d W"
  shows "staff_inv d W'"
  using assms
proof (induction rule: staff_step.induct)
  case (Clock now now' us H st)
  then show ?case using backed_mono[of d H _ "insert (now', us) H"] by (force simp: staff_inv_def)
next
  case (Accounts now us H st us')
  then show ?case using backed_mono[of d H _ "insert (now, us') H"] by (force simp: staff_inv_def)
next
  case (NewSession k rnd now st r st' us H)
  show ?case
  proof (rule staff_invI[OF NewSession.prems])
    fix i ss assume a: "map_of (st_sessions st') i = Some ss"
    note l = lookup_new_session[OF NewSession.hyps]
    show "ss_id ss = i \<and> backed d H ss"
      using a l(1)[of i] l(2) staff_invD(3)[OF NewSession.prems]
      by (cases r) (auto split: if_splits intro!: backed_unchecked simp: value_get_def)
  qed
next
  case (DropSession now us H st i)
  then show ?case using staff_inv_sub sub_store_delete by blast
next
  case (CollectSessions now us H st)
  then show ?case using staff_inv_sub sub_store_gc by blast
next
  case (Identify st i now us H v)
  show ?case
    by (rule staff_inv_on_session[OF Identify.prems]) (use Identify.hyps in \<open>auto simp: value_set_def value_get_def staff_check_key_def intro!: backed_unchecked\<close>)
next
  case (Store key now us H st i v)
  show ?case
    by (rule staff_inv_on_session[OF Store.prems]) (use Store.hyps staff_invD(3)[OF Store.prems] backed_other in \<open>auto simp: value_set_def\<close>)
next
  case (Forget key now us H st i)
  have "backed d H (value_delete key ss)" if "backed d H ss" for ss
    using that Forget.hyps by (auto simp: backed_def value_delete_def value_get_def AList.delete_conv' split: if_splits)
  then show ?case
    by (intro staff_inv_on_session[OF Forget.prems]) (use staff_invD(3)[OF Forget.prems] in \<open>auto simp: value_delete_def\<close>)
next
  case (Guarded x now st us xt p y H)
  show ?case
  proof (cases rule: require_staff_cases[of xt s x])
    case (refused x')
    then show ?thesis using Guarded by simp
  next
    case (cached ss u \<tau>)
    then show ?thesis using Guarded by (auto simp: on_ctx_def)
  next
    case (checked ss j usr)
    let ?f = "value_set staff_check_key (staff_check_value (user_view usr) (ex_later x))"
    obtain i where i: "map_of (st_sessions st) i = Some ss" using session_of_request[OF checked(1)] Guarded.hyps(3) by metis
    have id: "ss_id ss = i" using staff_invD(3)[OF Guarded.prems i] by simp
    have "backed d H (?f ss')" if "map_of (st_sessions st) i = Some ss'" for ss'
    proof -
      have "ss' = ss" using that i by simp
      moreover have "(now, us) \<in> H" using staff_invD(1)[OF Guarded.prems] .
      ultimately show ?thesis unfolding backed_def
        using checked(2-4) Guarded.hyps(2,4)
        by (intro allI impI exI[of _ now] exI[of _ us] exI[of _ j] exI[of _ usr])
          (auto simp: value_get_def value_set_def staff_check_value_eq staff_check_key_def)
    qed
    then have "staff_inv d (now, us, H, on_session i ?f st)"
      by (intro staff_inv_on_session[OF Guarded.prems]) (simp_all add: value_set_def)
    moreover have "sv_store (ex_server y) = on_session i ?f st"
      using checked(5)[of "\<lambda>y. (None, y)"] Guarded.hyps(3,5) id by (auto simp: on_ctx_def on_store_def)
    ultimately show ?thesis by simp
  qed
qed

lemma staff_reachable: "(staff_step s d)\<^sup>*\<^sup>* (t0, us0, {(t0, us0)}, new_store ttl) W \<Longrightarrow> staff_inv d W"
proof (induction rule: rtranclp_induct)
  case base
  show ?case by (simp add: staff_inv_def new_store_def)
next
  case (step W W')
  then show ?case using staff_step_inv by blast
qed

lemma ctx_user_set [simp]: "ctx_user (on_ctx (ctx_set user_ctx_key (user_value u)) y) = Some u"
  by (simp add: ctx_user_def on_ctx_def)

text \<open>
  C2: Nobody works in the admin who was not staff a moment ago. After any history of accounts changed,
  sessions made, used and dropped, and guarded requests whose read of the user table took at most \<open>d\<close>, a
  request to a guarded route reaches its handler only if its session belongs to an account that was staff or
  superuser at some time of the last five seconds and \<open>d\<close>, and the handler sees that account; in every
  other case the answer does not depend on the handler, and neither the database nor the sessions change.
  A revocation is therefore effective after that time, whatever was cached.
\<close>

theorem staff_gate:
  assumes "(staff_step s d)\<^sup>*\<^sup>* (t0, us0, {(t0, us0)}, new_store ttl) (now, us, H, st)"
    and "ex_now x = now" "sv_store (ex_server x) = st" "si_user_by_id s (aw_db (ex_app x)) = us" "0 \<le> d"
  shows "(\<exists>x'. (\<forall>h. require_staff xt s h x = (None, x')) \<and> ex_app x' = ex_app x \<and> sv_store (ex_server x') = st) \<or>
    (\<exists>t us' ss j usr x'. (t, us') \<in> H \<and> now - staff_check_ttl - d < t \<and> t \<le> now \<and>
       current_session x = Some ss \<and> value_get ''user_id'' ss = Some (GInt KInt64 j) \<and> us' j = Some usr \<and> may_enter usr \<and>
       (\<forall>h. require_staff xt s h x = h x') \<and> ctx_user x' = Some (user_view usr) \<and> ex_app x' = ex_app x)"
proof -
  have inv: "staff_inv d (now, us, H, st)" using staff_reachable[OF assms(1)] .
  show ?thesis
  proof (cases rule: require_staff_cases[of xt s x])
    case (refused x')
    then show ?thesis using assms(3) by auto
  next
    case (cached ss u \<tau>)
    obtain i where "map_of (st_sessions st) i = Some ss" using session_of_request[OF cached(1)] assms(3) by metis
    then have "backed d H ss" using staff_invD(3)[OF inv] by blast
    then obtain t us' j usr where b: "(t, us') \<in> H" "\<tau> - d \<le> t" "us' j = Some usr" "may_enter usr" "u = user_view usr"
        "value_get ''user_id'' ss = Some (GInt KInt64 j)"
      using cached(2) unfolding backed_def by blast
    have "now - staff_check_ttl - d < t" using cached(3) b(2) assms(2) by linarith
    moreover have "t \<le> now" using staff_invD(2)[OF inv b(1)] .
    moreover have frame: "ex_app (on_ctx f x) = ex_app x" for f by (simp add: on_ctx_def)
    ultimately have facts0: "now - staff_check_ttl - d < t" "t \<le> now" by simp_all
    note facts = facts0 frame b cached(1,4)
    show ?thesis
      by (rule disjI2, rule exI[of _ t], rule exI[of _ us'], rule exI[of _ ss], rule exI[of _ j], rule exI[of _ usr],
          rule exI[of _ "on_ctx (ctx_set user_ctx_key (user_value u)) x"]) (use facts in simp)
  next
    case (checked ss j usr)
    have "now - staff_check_ttl - d < now" using assms(5) by (simp add: staff_check_ttl_def)
    then have now: "now - staff_check_ttl - d < now" .
    have frame: "ex_app (on_ctx f (on_store g x)) = ex_app x" for f g by (simp add: on_ctx_def on_store_def)
    note facts = now frame staff_invD(1)[OF inv] checked assms(4)
    show ?thesis
      by (rule disjI2, rule exI[of _ now], rule exI[of _ us], rule exI[of _ ss], rule exI[of _ j], rule exI[of _ usr],
          rule exI[of _ "on_ctx (ctx_set user_ctx_key (user_value (user_view usr)))
            (on_store (on_session (ss_id ss) (value_set staff_check_key (staff_check_value (user_view usr) (ex_later x)))) x)"]) (use facts in simp)
  qed
qed

subsection \<open>Pages leave the sessions and the database alone\<close>

definition session_ids :: "goval store \<Rightarrow> string set" where
  "session_ids st = dom (map_of (st_sessions st))"

abbreviation store_of :: "'a exchange \<Rightarrow> goval store" where
  "store_of x \<equiv> sv_store (ex_server x)"

lemma ids_on_session [simp]: "session_ids (on_session i f st) = session_ids st"
  by (auto simp: session_ids_def dom_def lookup_on_session)

lemma ids_delete: "session_ids (session_delete i st) = session_ids st - {i}"
  by (auto simp: session_ids_def dom_def delete_sessions AList.delete_conv')

lemma error_page_frame [simp]: "ex_app (error_page xt code x) = ex_app x" "store_of (error_page xt code x) = store_of x"
  by (simp_all add: exchange_defs Let_def)

lemma on_response_frame [simp]: "ex_app (on_response f x) = ex_app x" "store_of (on_response f x) = store_of x"
  "ex_req (on_response f x) = ex_req x" "ex_server (on_response f x) = ex_server x"
  by (simp_all add: on_response_def)

lemma on_store_frame [simp]: "ex_app (on_store f x) = ex_app x" "store_of (on_store f x) = f (store_of x)" "ex_req (on_store f x) = ex_req x"
  by (simp_all add: on_store_def)

lemma render_page_frame [simp]: "ex_app (render_page s p x) = ex_app x" "store_of (render_page s p x) = store_of x"
  by (simp_all add: render_page_def split: sum.split)

lemma pop_flash_frame: "pop_flash ss x = (m, y) \<Longrightarrow> ex_app y = ex_app x \<and> session_ids (store_of y) = session_ids (store_of x)"
  by (auto simp: pop_flash_def split: option.splits prod.splits)

text \<open>The two ways \<open>base\<close> goes, and what the page then knows.\<close>

lemma base_cases:
  assumes "base xt s active title x = (r, y)"
  obtains (panic) cx where "r = None" "y = x\<lparr>ex_ctx := cx\<rparr>"
  | (page) tok cx flash where "r = Some (page_base s active title (ctx_user x) tok flash)"
      "(case current_session x of None \<Rightarrow> (([], []), x\<lparr>ex_ctx := cx\<rparr>) | Some ss \<Rightarrow> pop_flash ss (x\<lparr>ex_ctx := cx\<rparr>)) = (flash, y)"
proof -
  obtain tok cx where t: "token_for xt (ex_server x) (ex_ctx x) = (tok, cx)" by fastforce
  have cs: "current_session (x\<lparr>ex_ctx := cx\<rparr>) = current_session x" by (simp add: current_session_def)
  have cu: "ctx_user (x\<lparr>ex_ctx := cx\<rparr>) = ctx_user x"
    using t by (auto simp: token_for_def ctx_user_def user_ctx_key_def Let_def split: if_splits option.splits)
  show thesis
  proof (cases tok)
    case None
    with assms t show thesis by (intro panic[of cx]) (simp_all add: base_def)
  next
    case (Some tk)
    obtain flash z where p: "(case current_session x of None \<Rightarrow> (([], []), x\<lparr>ex_ctx := cx\<rparr>) | Some ss \<Rightarrow> pop_flash ss (x\<lparr>ex_ctx := cx\<rparr>)) = (flash, z)"
      by fastforce
    from assms t Some p show thesis by (intro page[of tk flash cx]) (simp_all add: base_def Let_def cs cu)
  qed
qed

lemma base_frame:
  assumes "base xt s active title x = (r, y)"
  shows "ex_app y = ex_app x \<and> session_ids (store_of y) = session_ids (store_of x)"
  using assms
proof (cases rule: base_cases)
  case (page tok cx flash)
  then show ?thesis by (cases "current_session x") (auto dest: pop_flash_frame)
qed simp

lemma with_base_frame:
  assumes "with_base xt s active title mk x = (p, y)"
  shows "ex_app y = ex_app x \<and> session_ids (store_of y) = session_ids (store_of x)"
proof -
  obtain r z where b: "base xt s active title x = (r, z)" by fastforce
  have "y = z \<or> (\<exists>d. y = render_page s (mk d) z)"
  proof (cases r)
    case (Some d)
    with assms b have "y = render_page s (mk d) z" by (simp add: with_base_def)
    then show ?thesis by blast
  qed (use assms b in \<open>simp add: with_base_def\<close>)
  then show ?thesis using base_frame[OF b] by (elim disjE exE) simp_all
qed

lemma form_or_empty_frame: "form_or_empty k x = (v, y) \<Longrightarrow> ex_app y = ex_app x \<and> ex_server y = ex_server x"
  by (auto simp: form_or_empty_def split: prod.splits)

subsection \<open>The login\<close>

lemma login_sessions:
  assumes "login en secure find_user check now now2 rnd r v pw th st = (res, th', st')"
  shows "case res of
      LoggedIn ss ck \<Rightarrow> session_ids st' \<subseteq> insert (ss_id ss) (session_ids st) \<and> map_of (st_sessions st') (ss_id ss) = Some ss \<and>
        (\<exists>j. value_get ''user_id'' ss = Some (GInt KInt64 j))
    | _ \<Rightarrow> session_ids st' \<subseteq> session_ids st"
proof (cases en)
  case True
  with assms have "login True secure find_user check now now2 rnd r v pw th st = (res, th', st')" by simp
  then show ?thesis
  proof (cases rule: login_cases)
    case (ok u st1)
    have st1: "session_ids st1 \<subseteq> session_ids st" unfolding ok(6) by (auto simp: ids_delete split: option.splits)
    show ?thesis
      using ok(7)
    proof (elim disjE exE conjE)
      fix e assume n: "new_session [] rnd now2 st1 = (Inl e, st')" "res = LoginFailed (NoSession e)"
      have "session_ids st' = session_ids st1" using lookup_new_session(1)[OF n(1)] by (simp add: session_ids_def dom_def)
      with st1 n(2) show ?thesis by simp
    next
      fix sess st2
      let ?fill = "\<lambda>s. value_set ''username'' (GStr (us_username u)) (value_set ''user_id'' (GInt KInt64 (us_id u)) s)"
      assume n: "new_session [] rnd now2 st1 = (Inr sess, st2)"
        "let fill = ?fill in res = LoggedIn (fill sess) (session_cookie secure (ss_id sess) (lr_tls r)) \<and> st' = on_session (ss_id sess) fill st2"
      note look = lookup_new_session(1)[OF n(1)]
      have "session_ids st2 \<subseteq> insert (ss_id sess) (session_ids st1)" using look by (auto simp: session_ids_def dom_def split: if_splits)
      moreover have "map_of (st_sessions st') (ss_id sess) = Some (?fill sess)" using n(2) look by (simp add: lookup_on_session Let_def)
      ultimately show ?thesis using st1 n(2) by (auto simp: value_set_def value_get_def Let_def)
    qed
  qed auto
next
  case False
  with assms show ?thesis by (auto simp: login_def)
qed

lemma login_call_sessions:
  assumes "login_call s v pw x = (res, x1)"
  shows "case res of
      LoggedIn ss ck \<Rightarrow> session_ids (store_of x1) \<subseteq> insert (ss_id ss) (session_ids (sv_store (ex_server x))) \<and>
        map_of (st_sessions (store_of x1)) (ss_id ss) = Some ss \<and> (\<exists>j. value_get ''user_id'' ss = Some (GInt KInt64 j))
    | _ \<Rightarrow> session_ids (store_of x1) \<subseteq> session_ids (sv_store (ex_server x))"
proof -
  obtain rnd r1 where r: "si_session_id s (aw_rnd (ex_app x)) = (rnd, r1)" by fastforce
  obtain res' th st where l: "login (sv_db_enabled (ex_server x)) (sv_secure (ex_server x)) (si_user_by_login s (aw_db (ex_app x))) (si_check s)
      (ex_now x) (ex_later x) rnd
      \<lparr>lr_cookies = rq_cookies (ex_req x), lr_remote_addr = rq_remote_addr (ex_req x), lr_tls = rq_tls (ex_req x)\<rparr> v pw
      (aw_throttle (ex_app x)) (sv_store (ex_server x)) = (res', th, st)" by (metis prod_cases3)
  have "res = res'" "store_of x1 = st"
    using assms r l by (auto simp: login_call_def Let_def split: login_result.splits)
  with login_sessions[OF l] show ?thesis by (cases res') simp_all
qed

lemma login_call_db: "login_call s v pw x = (res, x1) \<Longrightarrow> aw_db (ex_app x1) = aw_db (ex_app x)"
  by (auto simp: login_call_def Let_def split: prod.splits login_result.splits)


subsection \<open>Models for superusers\<close>


subsection \<open>A site\<close>

type_synonym toy_db = "(string \<times> goval list) list"

definition toy_reg :: "toy_db registry" where
  "toy_reg =
     (case register sample_account [GInt KInt64 0, GStr [], GBool False] ''apps'' ''no'' ''No'' [OSuperuserOnly] [] of
        Inr reg \<Rightarrow> reg | Inl _ \<Rightarrow> [])"

definition staff_ana :: user where "staff_ana = ana\<lparr>us_is_staff := True\<rparr>"

definition toy_site :: "(toy_db, unit, nat) site" where
  "toy_site = \<lparr>si_base_path = ''/admin/'', si_app_name = ''Kyrux'', si_version = ''1'', si_css = ''c'', si_js = ''j'', si_sha256 = (\<lambda>s. rev s),
     si_conn = (\<lambda>n. Some sample_ce), si_registry = toy_reg, si_user_by_id = (\<lambda>w i. if i = 7 then Some staff_ana else None),
     si_user_by_login = (\<lambda>w v. if v = ''ana'' then Some staff_ana else None), si_check = toy_check,
     si_session_id = (\<lambda>r. (Some ''B'', Suc r)), si_template = (\<lambda>p. Inr ''page''), si_body = rq_form, si_files = (\<lambda>rq f. NoFile),
     si_upper_first = (\<lambda>s. take 1 (to_upper s)), si_error_text = (\<lambda>e. ''error'')\<rparr>"

definition ana_session :: "goval session" where
  "ana_session = \<lparr>ss_id = ''41'', ss_user_key = [], ss_values = [(''user_id'', GInt KInt64 7)], ss_expires = 100\<rparr>"

definition ana_store :: "goval store" where
  "ana_store = (new_store 100)\<lparr>st_sessions := [(''41'', ana_session)]\<rparr>"

definition toy_admin :: "request \<Rightarrow> goval store \<Rightarrow> (toy_db, nat) admin_world exchange" where
  "toy_admin rq st = \<lparr>ex_req = rq, ex_ctx = \<lparr>cx_params = Some [(''slug'', ''no'')], cx_data = None, cx_query = None\<rparr>, ex_rs = new_response,
     ex_server = toy_server\<lparr>sv_store := st\<rparr>, ex_now = 5, ex_later = 5, ex_random = Some ''A'', ex_stack = [],
     ex_app = \<lparr>aw_db = [], aw_rnd = 0, aw_throttle = new_throttle 0\<rparr>\<rparr>"

abbreviation toy_visit :: "(toy_db, nat) admin_world exchange" where
  "toy_visit \<equiv> toy_admin (toy_request ''GET'' [(''__Host-kyrux_session'', ''41'')] []) ana_store"

lemmas toy_admin_defs = toy_admin_def toy_request_def toy_server_def toy_externals_def toy_site_def

lemma ana_reachable:
  "(staff_step toy_site 0)\<^sup>*\<^sup>* (0, si_user_by_id toy_site [], {(0, si_user_by_id toy_site [])}, new_store 100)
     (5, si_user_by_id toy_site [], {(5, si_user_by_id toy_site []), (0, si_user_by_id toy_site [])}, ana_store)"
proof -
  let ?us = "si_user_by_id toy_site []" and ?H = "{(0, si_user_by_id toy_site [])}"
  let ?st = "(new_store 100)\<lparr>st_sessions := [(''41'', ana_session\<lparr>ss_values := []\<rparr>)]\<rparr> :: goval store"
  have "new_session [] (Some ''A'') 0 (new_store 100 :: goval store) = (Inr (ana_session\<lparr>ss_values := []\<rparr>), ?st)"
    by (simp add: new_session_def new_store_def default_max_total_def hex_A ana_session_def Let_def)
  then have s1: "staff_step toy_site 0 (0, ?us, ?H, new_store 100) (0, ?us, ?H, ?st)" by (rule NewSession)
  have st: "on_session ''41'' (value_set ''user_id'' (GInt KInt64 7)) ?st = ana_store"
    by (simp add: on_session_def value_set_def ana_session_def ana_store_def)
  have "staff_step toy_site 0 (0, ?us, ?H, ?st) (0, ?us, ?H, on_session ''41'' (value_set ''user_id'' (GInt KInt64 7)) ?st)"
    by (rule Identify) (simp add: value_get_def ana_session_def)
  then have s2: "staff_step toy_site 0 (0, ?us, ?H, ?st) (0, ?us, ?H, ana_store)" unfolding st .
  have s3: "staff_step toy_site 0 (0, ?us, ?H, ana_store) (5, ?us, insert (5, ?us) ?H, ana_store)" by (rule Clock) simp
  show ?thesis
    by (rule converse_rtranclp_into_rtranclp[OF s1 converse_rtranclp_into_rtranclp[OF s2 r_into_rtranclp[of "staff_step toy_site 0", OF s3]]])
qed

theorem staff_gate_witness:
  "\<exists>x'. (\<forall>h. require_staff toy_externals toy_site h toy_visit = h x') \<and> ctx_user x' = Some (user_view staff_ana)"
proof -
  have st: "ex_now toy_visit = 5" "sv_store (ex_server toy_visit) = ana_store"
    "si_user_by_id toy_site (aw_db (ex_app toy_visit)) = si_user_by_id toy_site []" "(0::int) \<le> 0"
    by (simp_all add: toy_admin_defs)
  have cs: "current_session toy_visit = Some ana_session"
    by (simp add: current_session_def from_request_def session_get_def toy_admin_defs ana_store_def ana_session_def cookie_name_def)
  have "request_user toy_site toy_visit = Inr staff_ana"
    using cs by (simp add: request_user_def get_user_def current_session_def toy_admin_defs ana_session_def value_get_def)
  moreover have "may_enter staff_ana" "sv_db_enabled (ex_server toy_visit)" "si_conn toy_site ''default'' \<noteq> None"
    by (simp_all add: may_enter_def staff_ana_def toy_admin_defs)
  ultimately have "fst (require_staff toy_externals toy_site (\<lambda>y. (Some (OtherPanic []), y)) toy_visit) \<noteq> None"
    using cs by (simp add: require_staff_def fresh_check_def value_get_def ana_session_def staff_check_key_def Let_def split: option.split)
  then have "\<nexists>x'. \<forall>h. require_staff toy_externals toy_site h toy_visit = (None, x')" by (metis fst_conv)
  then show ?thesis
    using staff_gate[OF ana_reachable st, of toy_externals] cs
    by (auto simp: ana_session_def value_get_def toy_site_def split: if_splits)
qed


lemma toy_reg_ok: "\<exists>rm. toy_reg = [(''no'', rm)] \<and> rm_slug rm = ''no'' \<and> model_ok rm \<and> rm_superuser_only rm"
proof -
  let ?r = "register sample_account [GInt KInt64 0, GStr [], GBool False] ''apps'' ''no'' ''No'' [OSuperuserOnly] ([] :: toy_db registry)"
  have c: "case ?r of Inl e \<Rightarrow> False | Inr reg \<Rightarrow> list_all (\<lambda>(k, rm). rm_superuser_only rm) reg" by code_simp
  then obtain reg where reg: "?r = Inr reg" by (cases ?r) auto
  then show ?thesis using register_result[OF reg] c by (auto simp: toy_reg_def)
qed


subsection \<open>The routes\<close>

lemma handle_mux:
  "(q, g) \<in> set (rt_mux (handle p h r)) \<Longrightarrow> (q, g) \<in> set (rt_mux r) \<or> g = middleware_chain (rt_middlewares r) h"
  "rt_middlewares (handle p h r) = rt_middlewares r"
  by (auto simp: handle_def register_mux_def Let_def split: if_splits)

lemma handle_internal_mux:
  "(q, g) \<in> set (rt_mux (handle_internal p h r)) \<Longrightarrow> (q, g) \<in> set (rt_mux r) \<or> g = middleware_chain (rt_middlewares r) h"
  "rt_middlewares (handle_internal p h r) = rt_middlewares r"
  using handle_mux(1)[of q g p h "r\<lparr>rt_internal := List.insert (normalize (convert_pattern p)) (rt_internal r)\<rparr>"]
  by (simp_all add: handle_internal_def handle_mux(2))

lemma fold_handle_mux:
  "(q, g) \<in> set (rt_mux (fold (\<lambda>(p, h). handle p (f h)) routes r)) \<Longrightarrow>
     (q, g) \<in> set (rt_mux r) \<or> (\<exists>h\<in>snd ` set routes. g = middleware_chain (rt_middlewares r) (f h))"
proof (induction routes arbitrary: r)
  case (Cons ph routes)
  obtain p h where ph: "ph = (p, h)" by fastforce
  from Cons.IH[of "handle p (f h) r"] Cons.prems ph handle_mux(1)[of q g p "f h" r] show ?case
    by (auto simp: handle_mux(2))
qed simp

text \<open>
  Mounting the admin adds guarded routes only: without a database nothing is mounted, and every
  handler the router gains runs, inside the middlewares of the application, either one of the guarded
  handlers behind the staff check or one of the four public ones, the login form, its submission and the two
  embedded assets.
\<close>

theorem mount_guards_routes:
  assumes "(q, g) \<in> set (rt_mux (mount xt s0 r))" "s = s0\<lparr>si_base_path := normalize_base_path (si_base_path s0)\<rparr>"
  shows "(q, g) \<in> set (rt_mux r) \<or>
    (si_conn s0 ''default'' \<noteq> None \<and>
     ((\<exists>h\<in>snd ` set (guarded_routes xt s). g = middleware_chain (rt_middlewares r) (require_staff xt s h)) \<or>
      g \<in> middleware_chain (rt_middlewares r) `
            {handle_login_form xt s, handle_login_submit xt s, serve_static s (si_css s) ''text/css; charset=utf-8'',
             serve_static s (si_js s) ''application/javascript; charset=utf-8''}))"
proof (cases "si_conn s0 ''default''")
  case None
  then show ?thesis using assms by (simp add: mount_def Let_def)
next
  case (Some ce)
  let ?r1 = "handle_internal (''GET '' @ si_base_path s @ ''statics/admin.css'') (serve_static s (si_css s) ''text/css; charset=utf-8'') r"
  let ?r2 = "handle_internal (''GET '' @ si_base_path s @ ''statics/admin.js'') (serve_static s (si_js s) ''application/javascript; charset=utf-8'') ?r1"
  let ?r3 = "handle (''GET '' @ si_base_path s @ ''login/'') (handle_login_form xt s) ?r2"
  let ?r4 = "handle (''POST '' @ si_base_path s @ ''login/'') (handle_login_submit xt s) ?r3"
  have "mount xt s0 r = fold (\<lambda>(p, h). handle p (require_staff xt s h)) (guarded_routes xt s) ?r4"
    using Some assms(2) by (simp add: mount_def Let_def)
  with assms(1) have "(q, g) \<in> set (rt_mux ?r4) \<or>
      (\<exists>h\<in>snd ` set (guarded_routes xt s). g = middleware_chain (rt_middlewares r) (require_staff xt s h))"
    using fold_handle_mux[of q g "require_staff xt s" "guarded_routes xt s" ?r4] by (simp add: handle_mux(2) handle_internal_mux(2))
  moreover have "(q, g) \<in> set (rt_mux ?r4) \<Longrightarrow> (q, g) \<in> set (rt_mux r) \<or> g \<in> middleware_chain (rt_middlewares r) `
      {handle_login_form xt s, handle_login_submit xt s, serve_static s (si_css s) ''text/css; charset=utf-8'',
       serve_static s (si_js s) ''application/javascript; charset=utf-8''}"
    using handle_mux(1)[of q g "''POST '' @ si_base_path s @ ''login/''" "handle_login_submit xt s" ?r3]
      handle_mux(1)[of q g "''GET '' @ si_base_path s @ ''login/''" "handle_login_form xt s" ?r2]
      handle_internal_mux(1)[of q g "''GET '' @ si_base_path s @ ''statics/admin.js''" "serve_static s (si_js s) ''application/javascript; charset=utf-8''" ?r1]
      handle_internal_mux(1)[of q g "''GET '' @ si_base_path s @ ''statics/admin.css''" "serve_static s (si_css s) ''text/css; charset=utf-8''" r]
    by (auto simp: handle_mux(2) handle_internal_mux(2))
  ultimately show ?thesis using Some by blast
qed

lemma handle_nonempty: "rt_mux r \<noteq> [] \<or> rt_registered r = [] \<Longrightarrow> rt_mux (handle p h r) \<noteq> []"
proof -
  have reg: "rt_mux r \<noteq> [] \<or> rt_registered r = [] \<Longrightarrow> rt_mux (register_mux q g r) \<noteq> []" for q g and r :: "'a router"
    by (auto simp: register_mux_def)
  assume r: "rt_mux r \<noteq> [] \<or> rt_registered r = []"
  have "rt_mux (r\<lparr>rt_routes := x\<rparr>) \<noteq> [] \<or> rt_registered (r\<lparr>rt_routes := x\<rparr>) = []" for x using r by simp
  note first = reg[OF this]
  note second = reg[OF disjI1[OF first]]
  show ?thesis
    unfolding handle_def Let_def by (split if_split, intro conjI impI; rule second first)
qed

lemma fold_handle_nonempty: "rt_mux r \<noteq> [] \<Longrightarrow> rt_mux (fold (\<lambda>(p, h). handle p (f h)) routes r) \<noteq> []"
proof (induction routes arbitrary: r)
  case (Cons ph routes)
  obtain p h where "ph = (p, h)" by fastforce
  then show ?case using Cons.IH[OF handle_nonempty[OF disjI1[OF Cons.prems], of p "f h"]] by simp
qed simp

theorem mount_guards_routes_witness:
  "let routes = rt_mux (mount toy_externals toy_site new_router); g = snd (hd routes)
   in routes \<noteq> [] \<and>
     ((\<exists>h\<in>snd ` set (guarded_routes toy_externals toy_site). g = require_staff toy_externals toy_site h) \<or>
      g \<in> {handle_login_form toy_externals toy_site, handle_login_submit toy_externals toy_site,
           serve_static toy_site ''c'' ''text/css; charset=utf-8'', serve_static toy_site ''j'' ''application/javascript; charset=utf-8''})"
proof -
  let ?m = "rt_mux (mount toy_externals toy_site new_router)"
  have n: "normalize_base_path ''/admin/'' = ''/admin/''" by code_simp
  have s: "toy_site = toy_site\<lparr>si_base_path := normalize_base_path (si_base_path toy_site)\<rparr>" by (simp add: toy_site_def n)
  have c: "si_conn toy_site ''default'' \<noteq> None" by (simp add: toy_site_def)
  have "?m \<noteq> []"
    unfolding mount_def Let_def s[symmetric] using c
    by (simp only: if_False, intro fold_handle_nonempty handle_nonempty disjI1)
      (simp only: handle_internal_def, intro handle_nonempty disjI1, simp, intro handle_nonempty disjI2, simp add: new_router_def)
  moreover from this have "(fst (hd ?m), snd (hd ?m)) \<in> set ?m" by simp
  moreover have "middleware_chain (rt_middlewares new_router) h = h" "rt_mux (new_router :: (toy_db, nat) admin_handler router) = []" for h :: "(toy_db, nat) admin_handler"
    by (simp_all add: new_router_def middleware_chain_def)
  moreover have "si_css toy_site = ''c''" "si_js toy_site = ''j''" by (simp_all add: toy_site_def)
  ultimately show ?thesis using mount_guards_routes[OF _ s, of "fst (hd ?m)" "snd (hd ?m)" toy_externals new_router]
    unfolding Let_def by auto
qed

end
