(* ===== verification/AdminLinks.thy ===== *)
theory AdminLinks
  imports AdminAccess
begin

text \<open>
  The links of a listing carry its state: the request they make is read as the same search, the same
  filters and the same order, on the page of the link.
\<close>

declare map_of_eq_Some_iff [simp del] AList.update_conv' [simp]

text \<open>The parameters the filters of some fields read.\<close>

definition filter_keys :: "admin_field list \<Rightarrow> string list" where
  "filter_keys fds = concat (map (\<lambda>f. case af_widget f of
       WCheckbox \<Rightarrow> [''f_'' @ af_column f] | WSelect \<Rightarrow> [''f_'' @ af_column f]
     | WNumber \<Rightarrow> [''f_'' @ af_column f @ ''_min'', ''f_'' @ af_column f @ ''_max'']
     | WNumberFloat \<Rightarrow> [''f_'' @ af_column f @ ''_min'', ''f_'' @ af_column f @ ''_max'']
     | WDatetime \<Rightarrow> [''f_'' @ af_column f @ ''_min'', ''f_'' @ af_column f @ ''_max'']
     | _ \<Rightarrow> []) fds)"

text \<open>What a view holds besides its options.\<close>

definition view_core :: "filter_view \<Rightarrow> string \<times> bool \<times> bool \<times> string \<times> string \<times> string" where
  "view_core v = (fv_column v, fv_is_range v, fv_is_date v, fv_value v, fv_min v, fv_max v)"

lemma build_view_step:
  assumes "build_filter_views qs fetch (f # fs) w = (views, w')"
  obtains (left) "filter_keys [f] = []" "build_filter_views qs fetch fs w = (views, w')"
  | (put) v vs w1 where "views = v # vs" "build_filter_views qs fetch fs w1 = (vs, w')"
      "filter_keys [f] \<noteq> []" "view_params v = filter (\<lambda>(k, x). x \<noteq> []) (map (\<lambda>k. (k, qs k)) (filter_keys [f]))"
      "view_core v = (af_column f, af_widget f \<notin> {WCheckbox, WSelect}, af_widget f = WDatetime,
         if af_widget f \<in> {WCheckbox, WSelect} then qs (''f_'' @ af_column f) else [],
         if af_widget f \<in> {WCheckbox, WSelect} then [] else qs (''f_'' @ af_column f @ ''_min''),
         if af_widget f \<in> {WCheckbox, WSelect} then [] else qs (''f_'' @ af_column f @ ''_max''))"
  using assms
  by (cases "af_widget f") (auto simp: Let_def filter_keys_def view_params_def view_core_def split: prod.splits)

lemma views_params:
  assumes "build_filter_views qs fetch fds w = (views, w')"
  shows "concat (map view_params views) = filter (\<lambda>(k, x). x \<noteq> []) (map (\<lambda>k. (k, qs k)) (filter_keys fds))"
  using assms
proof (induction fds arbitrary: views w)
  case (Cons f fds)
  have k: "filter_keys (f # fds) = filter_keys [f] @ filter_keys fds" by (simp add: filter_keys_def)
  from Cons.prems show ?case
  proof (cases rule: build_view_step)
    case left
    then show ?thesis using Cons.IH[OF left(2)] k by simp
  next
    case (put v vs w1)
    then show ?thesis using Cons.IH[OF put(2)] k by simp
  qed
qed (simp add: filter_keys_def)

lemma views_same:
  assumes "build_filter_views qs fetch fds w = (views, w')" "build_filter_views qs' fetch' fds u = (views', u')"
    and "\<forall>k\<in>set (filter_keys fds). qs k = qs' k"
  shows "map view_core views = map view_core views'"
  using assms
proof (induction fds arbitrary: views w views' u)
  case (Cons f fds)
  have k: "filter_keys (f # fds) = filter_keys [f] @ filter_keys fds" by (simp add: filter_keys_def)
  then have eq: "\<forall>k\<in>set (filter_keys fds). qs k = qs' k" "\<forall>k\<in>set (filter_keys [f]). qs k = qs' k" using Cons.prems(3) by auto
  from Cons.prems(1) show ?case
  proof (cases rule: build_view_step)
    case left
    from Cons.prems(2) show ?thesis
      by (cases rule: build_view_step) (use left Cons.IH[OF left(2) _ eq(1)] in simp_all)
  next
    case (put v vs w1)
    note v = put
    from Cons.prems(2) show ?thesis
    proof (cases rule: build_view_step)
      case left
      then show ?thesis using v(3) by simp
    next
      case (put v' vs' u1)
      have "view_core v = view_core v'"
        using v(3,5) put(5) eq(2) by (cases "af_widget f") (simp_all add: filter_keys_def)
      then show ?thesis using v(1) put(1) Cons.IH[OF v(2) put(2) eq(1)] by simp
    qed
  qed
qed simp

lemma conds_core: "view_core v = view_core v' \<Longrightarrow> view_conds ae fds v = view_conds ae fds v'"
  by (simp add: view_core_def view_conds_def Let_def)

lemma conds_same: "map view_core vs = map view_core vs' \<Longrightarrow> filter_conds ae fds vs = filter_conds ae fds vs'"
proof (induction vs arbitrary: vs')
  case (Cons v vs)
  then obtain v' us where u: "vs' = v' # us" "view_core v = view_core v'" "map view_core vs = map view_core us" by (cases vs') auto
  then show ?case using Cons.IH[OF u(3)] conds_core[OF u(2)] by (simp add: filter_conds_def)
qed (simp add: filter_conds_def)

lemma fold_update_lookup:
  "map_of (fold (\<lambda>(k, v) m. AList.update k v m) kvs m) k = (case map_of (rev kvs) k of Some v \<Rightarrow> Some v | None \<Rightarrow> map_of m k)"
  by (induction kvs arbitrary: m) (auto simp: map_add_def split: option.splits)

lemma fold_update_distinct: "distinct (map fst m) \<Longrightarrow> distinct (map fst (fold (\<lambda>(k, v) m. AList.update k v m) kvs m))"
  by (induction kvs arbitrary: m) (auto simp: AList.distinct_update)

lemma map_of_rev_distinct: "distinct (map fst m) \<Longrightarrow> map_of (rev m) k = map_of m k"
proof (cases "map_of m k")
  case None
  then have "map_of (rev m) k = None" by (simp add: map_of_eq_None_iff)
  then show ?thesis using None by simp
next
  case (Some v)
  assume "distinct (map fst m)"
  then have "distinct (map fst (rev m))" by (simp only: rev_map[symmetric] distinct_rev)
  moreover have "(k, v) \<in> set (rev m)" using map_of_SomeD[OF Some] by simp
  ultimately have "map_of (rev m) k = Some v" by (rule map_of_is_SomeI)
  then show ?thesis using Some by simp
qed

lemma map_of_graph: "map_of (rev (filter (\<lambda>(k, x). x \<noteq> []) (map (\<lambda>k. (k, f k)) ks))) k = (if k \<in> set ks \<and> f k \<noteq> [] then Some (f k) else None)"
  by (induction ks) (auto simp: map_add_def)

lemma filter_params_lookup:
  assumes "build_filter_views qs fetch fds w = (views, w')"
  shows "map_of (filter_url_params views) k = (if k \<in> set (filter_keys fds) \<and> qs k \<noteq> [] then Some (qs k) else None)"
  by (simp add: filter_url_params_def fold_update_lookup views_params[OF assms] map_of_graph)

lemma filter_key_prefix: "k \<in> set (filter_keys fds) \<Longrightarrow> has_prefix k ''f_''"
proof -
  assume "k \<in> set (filter_keys fds)"
  then obtain f where "k \<in> set (filter_keys [f])" by (auto simp: filter_keys_def)
  then show ?thesis by (cases "af_widget f") (auto simp: filter_keys_def)
qed

text \<open>The parameters of a link, read back.\<close>

lemma link_lookup:
  assumes "build_filter_views qs fetch fds w = (views, w')" "CHR ''?'' \<notin> set root_url"
  shows "values_get (url_query (build_url root_url (link_params needle views extra))) k =
    (case map_of (rev extra) k of Some v \<Rightarrow> v
     | None \<Rightarrow> if k \<in> set (filter_keys fds) \<and> qs k \<noteq> [] then qs k else if k = ''q'' then needle else [])"
proof -
  let ?p = "link_params needle views extra"
  have d: "distinct (map fst ?p)" unfolding link_params_def by (rule fold_update_distinct) simp
  have fr: "map_of (rev (filter_url_params views)) j = map_of (filter_url_params views) j" for j
  proof -
    have "distinct (map fst (filter_url_params views))" unfolding filter_url_params_def by (rule fold_update_distinct) simp
    then show ?thesis by (simp add: map_of_rev_distinct)
  qed
  have "map_of ?p k = (case map_of (rev extra) k of Some v \<Rightarrow> Some v
      | None \<Rightarrow> if k \<in> set (filter_keys fds) \<and> qs k \<noteq> [] then Some (qs k) else if k = ''q'' then Some needle else None)"
    by (simp add: link_params_def fold_update_lookup map_add_def fr filter_params_lookup[OF assms(1)] split: option.split)
  then show ?thesis using build_url_get[OF assms(2) d, of k] by (auto split: option.splits)
qed

text \<open>
  C26: Paging keeps the listing: following the link to another page, whatever the search text, the filter
  values and the column names are, the request is read as the same search, the same column and direction
  and exactly the same filter conditions, with the page number of the link.
\<close>

theorem page_links_keep_state:
  assumes "build_filter_views (query_param x) fetch (rm_filter_fields rm) w = (filters, w1)"
    and "build_filter_views (query_param y) fetch' (rm_filter_fields rm) u = (filters', u1)"
    and "rq_uri (ex_req y) = page_link s rm needle filters sort_col dir n" "cx_query (ex_ctx y) = None"
    and "CHR ''?'' \<notin> set (list_path s rm)" "0 \<le> n" "n \<le> max_int"
  shows "query_param y ''q'' = needle \<and> query_param y ''sort'' = sort_col \<and> query_param y ''dir'' = dir \<and> query_int y ''page'' 1 = n \<and>
    filter_conds ae (rm_filter_fields rm) filters' = filter_conds ae (rm_filter_fields rm) filters"
proof -
  have q: "query_param y k = values_get (url_query (page_link s rm needle filters sort_col dir n)) k" for k
    using assms(3,4) by (simp add: query_param_def ctx_query_def query_vals_def)
  note look = link_lookup[OF assms(1,5), of needle "[(''sort'', sort_col), (''dir'', dir), (''page'', itoa n)]", folded page_link_def]
  have nf: "k \<in> set (filter_keys (rm_filter_fields rm)) \<Longrightarrow> k \<noteq> ''q'' \<and> k \<noteq> ''sort'' \<and> k \<noteq> ''dir'' \<and> k \<noteq> ''page''" for k
    using filter_key_prefix[of k "rm_filter_fields rm"] by auto
  have "query_param y k = query_param x k" if "k \<in> set (filter_keys (rm_filter_fields rm))" for k
    using nf[OF that] that by (simp add: q look)
  then have "filter_conds ae (rm_filter_fields rm) filters' = filter_conds ae (rm_filter_fields rm) filters"
    by (intro conds_same views_same[OF assms(2,1)]) simp
  moreover have "query_param y ''q'' = needle" using nf[of "''q''"] by (auto simp: q look)
  moreover have "query_param y ''sort'' = sort_col" "query_param y ''dir'' = dir" "query_param y ''page'' = itoa n" by (simp_all add: q look)
  moreover have "query_int y ''page'' 1 = n"
  proof -
    have "atoi (itoa n) = (n, True)" by (rule atoi_itoa) (use assms(6,7) in \<open>simp_all add: min_int_def\<close>)
    moreover have "query_int y ''page'' 1 = (case atoi (query_param y ''page'') of (m, ok) \<Rightarrow> if ok then m else 1)"
      by (simp add: query_int_def ctx_query_int_def query_param_def ctx_query_def)
    ultimately show ?thesis using \<open>query_param y ''page'' = itoa n\<close> by simp
  qed
  ultimately show ?thesis by blast
qed

text \<open>A visitor of the toy site who filters on a column and follows the link to the second page.\<close>

definition visit :: "string \<Rightarrow> (toy_db, nat) admin_world exchange" where
  "visit uri = toy_admin ((toy_request ''GET'' [] [])\<lparr>rq_uri := uri\<rparr>) ana_store"

definition visit_filters :: "string \<Rightarrow> filter_view list" where
  "visit_filters uri = fst (build_filter_views (query_param (visit uri)) no_options (rm_filter_fields sample_rm) ())"

theorem page_links_keep_state_witness:
  "let fs = visit_filters ''/admin/no/?q=a%26b&f_on=true''; uri = page_link toy_site sample_rm ''a&b'' fs ''id'' ''desc'' 2
   in query_param (visit uri) ''q'' = ''a&b'' \<and> query_int (visit uri) ''page'' 1 = 2 \<and>
      filter_conds sample_env (rm_filter_fields sample_rm) (visit_filters uri) =
      filter_conds sample_env (rm_filter_fields sample_rm) fs"
proof -
  let ?x = "visit ''/admin/no/?q=a%26b&f_on=true''" and ?fs = "visit_filters ''/admin/no/?q=a%26b&f_on=true''"
  let ?uri = "page_link toy_site sample_rm ''a&b'' ?fs ''id'' ''desc'' 2"
  have x: "build_filter_views (query_param ?x) no_options (rm_filter_fields sample_rm) () = (?fs, ())"
    by (simp add: visit_filters_def prod_eq_iff)
  have y: "build_filter_views (query_param (visit ?uri)) no_options (rm_filter_fields sample_rm) () = (visit_filters ?uri, ())"
    by (simp add: visit_filters_def prod_eq_iff)
  have r: "rq_uri (ex_req (visit ?uri)) = ?uri" "cx_query (ex_ctx (visit ?uri)) = None" by (simp_all add: visit_def toy_admin_def)
  have p: "CHR ''?'' \<notin> set (list_path toy_site sample_rm)" by code_simp
  have n: "(0::int) \<le> 2" "2 \<le> max_int" by (simp_all add: max_int_def)
  from page_links_keep_state[OF x y r p n, of sample_env] show ?thesis unfolding Let_def by blast
qed

end
