(* ===== verification/Compress.thy ===== *)
theory Compress
  imports ErrorPages OrmExec
begin

text \<open>
  The compression middleware, \<open>core/compress/compress.go\<close>, at the level of the response writer: what a
  handler does with its writer is a list of operations, on the response itself or on the \<open>gzipWriter\<close>
  in front of it. The compressor of \<open>compress/gzip\<close> is a parameter: what each \<open>Write\<close> and \<open>Close\<close> pass on.
  A header added to one that is there is joined with a comma, its meaning in HTTP.
\<close>

declare map_of_eq_Some_iff [simp del] AList.update_conv' [simp]

subsection \<open>Operations on a response writer\<close>

datatype writer_op = SetHeader string string | DelHeader string | Head nat | Body string

definition header_get :: "string \<Rightarrow> (string \<times> string) list \<Rightarrow> string" where
  "header_get k h = (case map_of h k of Some v \<Rightarrow> v | None \<Rightarrow> [])"

definition header_add :: "string \<Rightarrow> string \<Rightarrow> response \<Rightarrow> response" where
  "header_add k v rs =
     (case map_of (rs_headers rs) k of None \<Rightarrow> header_set k v rs | Some w \<Rightarrow> header_set k (w @ '', '' @ v) rs)"

text \<open>\<open>net/http\<close> refuses a body with these statuses.\<close>

definition body_allowed :: "nat \<Rightarrow> bool" where
  "body_allowed code \<longleftrightarrow> 200 \<le> code \<and> code \<noteq> 204 \<and> code \<noteq> 304"

definition http_write :: "string \<Rightarrow> response \<Rightarrow> response" where
  "http_write b rs =
     (let rs1 = write_header 200 rs
      in case rs_sent rs1 of
           Some (code, _) \<Rightarrow> if body_allowed code then rs1\<lparr>rs_body := rs_body rs1 @ b\<rparr> else rs1
         | None \<Rightarrow> rs1)"

fun raw_op :: "writer_op \<Rightarrow> response \<Rightarrow> response" where
  "raw_op (SetHeader k v) rs = header_set k v rs"
| "raw_op (DelHeader k) rs = header_del k rs"
| "raw_op (Head code) rs = write_header code rs"
| "raw_op (Body b) rs = http_write b rs"

text \<open>What the client gets: without a head the server sends 200, without a content type it guesses one.\<close>

definition delivered :: "(string \<Rightarrow> string) \<Rightarrow> response \<Rightarrow> nat \<times> (string \<times> string) list \<times> string" where
  "delivered detect rs =
     (let (code, h) = (case rs_sent rs of Some (c, h, _) \<Rightarrow> (c, h) | None \<Rightarrow> (200, rs_headers rs));
          h1 = (if map_of h ''Content-Type'' = None \<and> header_get ''Content-Encoding'' h = [] \<and> rs_body rs \<noteq> []
                then AList.update ''Content-Type'' (detect (rs_body rs)) h else h)
      in (code, h1, rs_body rs))"

subsection \<open>The middleware\<close>

definition incompressible_prefixes :: "string list" where
  "incompressible_prefixes =
     [''image/'', ''video/'', ''audio/'', ''font/'', ''application/zip'', ''application/gzip'', ''application/pdf'',
      ''application/octet-stream'']"

definition compressible :: "string \<Rightarrow> bool" where
  "compressible ct \<longleftrightarrow>
     (if ct = [] then True
      else if has_prefix ct ''image/svg'' then True
      else \<not> list_ex (has_prefix ct) incompressible_prefixes)"

record 's gzip =
  gz_start :: 's
  gz_write :: "string \<Rightarrow> 's \<Rightarrow> string list \<times> 's"
  gz_close :: "'s \<Rightarrow> string list"

text \<open>\<open>gw_gz\<close> is \<open>None\<close> when the compressor is closed or not reset yet.\<close>

record 's gzip_writer =
  gw_rs :: response
  gw_gz :: "'s option"
  gw_active :: bool
  gw_decided :: bool

definition decide :: "'s gzip \<Rightarrow> 's gzip_writer \<Rightarrow> 's gzip_writer" where
  "decide z gw0 =
     (let gw = gw0\<lparr>gw_decided := True\<rparr>; h = rs_headers (gw_rs gw)
      in if header_get ''Content-Encoding'' h \<noteq> [] \<or> \<not> compressible (header_get ''Content-Type'' h) then gw
         else gw\<lparr>gw_rs := header_del ''Content-Length'' (header_set ''Content-Encoding'' ''gzip'' (gw_rs gw)),
                 gw_gz := Some (gz_start z), gw_active := True\<rparr>)"

definition gw_write_header :: "'s gzip \<Rightarrow> nat \<Rightarrow> 's gzip_writer \<Rightarrow> 's gzip_writer" where
  "gw_write_header z code gw0 =
     (let gw = (if gw_decided gw0 then gw0 else decide z gw0) in gw\<lparr>gw_rs := write_header code (gw_rs gw)\<rparr>)"

definition gw_write :: "'s gzip \<Rightarrow> string \<Rightarrow> 's gzip_writer \<Rightarrow> 's gzip_writer" where
  "gw_write z b gw0 =
     (let gw = (if gw_decided gw0 then gw0 else decide z gw0)
      in if gw_active gw then
           (case gw_gz gw of
              None \<Rightarrow> gw
            | Some s \<Rightarrow> (case gz_write z b s of (out, s') \<Rightarrow> gw\<lparr>gw_rs := fold http_write out (gw_rs gw), gw_gz := Some s'\<rparr>))
         else gw\<lparr>gw_rs := http_write b (gw_rs gw)\<rparr>)"

fun gw_op :: "'s gzip \<Rightarrow> writer_op \<Rightarrow> 's gzip_writer \<Rightarrow> 's gzip_writer" where
  "gw_op z (SetHeader k v) gw = gw\<lparr>gw_rs := header_set k v (gw_rs gw)\<rparr>"
| "gw_op z (DelHeader k) gw = gw\<lparr>gw_rs := header_del k (gw_rs gw)\<rparr>"
| "gw_op z (Head code) gw = gw_write_header z code gw"
| "gw_op z (Body b) gw = gw_write z b gw"

text \<open>The deferred function: an active compressor is closed.\<close>

definition gw_finish :: "'s gzip \<Rightarrow> 's gzip_writer \<Rightarrow> 's gzip_writer" where
  "gw_finish z gw =
     (if gw_active gw then
        (case gw_gz gw of
           None \<Rightarrow> gw
         | Some s \<Rightarrow> gw\<lparr>gw_rs := fold http_write (gz_close z s) (gw_rs gw), gw_gz := None\<rparr>)
      else gw)"

text \<open>The writer the context holds after the handler, which the middleware does not put back.\<close>

datatype 's writer = Direct response | Zipped "'s gzip_writer"

definition compress :: "'s gzip \<Rightarrow> string \<Rightarrow> writer_op list \<Rightarrow> response \<Rightarrow> 's writer" where
  "compress z accept ops rs =
     (let rs1 = header_add ''Vary'' ''Accept-Encoding'' rs
      in if \<not> contains accept ''gzip'' then Direct (fold raw_op ops rs1)
         else Zipped (gw_finish z (fold (gw_op z) ops \<lparr>gw_rs = rs1, gw_gz = None, gw_active = False, gw_decided = False\<rparr>)))"

fun then_ops :: "'s gzip \<Rightarrow> writer_op list \<Rightarrow> 's writer \<Rightarrow> response" where
  "then_ops z ops (Direct rs) = fold raw_op ops rs"
| "then_ops z ops (Zipped gw) = gw_rs (fold (gw_op z) ops gw)"

text \<open>The error page \<open>Recovery\<close> answers a panic with, \<open>renderDefault\<close>, as operations on a writer.\<close>

definition page_ops :: "string \<Rightarrow> nat \<Rightarrow> writer_op list" where
  "page_ops body code =
     [SetHeader ''Content-Type'' ''text/html; charset=utf-8'', SetHeader ''Content-Length'' (itoa (int (length body))),
      SetHeader ''X-Content-Type-Options'' ''nosniff'', Head code, Body body]"

text \<open>The answer of a handler behind \<open>Compress\<close>, with the page of \<open>Recovery\<close> if it panicked.\<close>

definition answer :: "'s gzip \<Rightarrow> string \<Rightarrow> writer_op list \<Rightarrow> string option \<Rightarrow> response \<Rightarrow> response" where
  "answer z accept ops panicked rs =
     then_ops z (case panicked of None \<Rightarrow> [] | Some page \<Rightarrow> page_ops page 500) (compress z accept ops rs)"

subsection \<open>What the client reads\<close>

text \<open>
  What \<open>compress/gzip\<close> documents: a stream that was closed decodes to the bytes written, and anything
  shorter does not decode.
\<close>

fun stream :: "'s gzip \<Rightarrow> string list \<Rightarrow> 's \<Rightarrow> string \<times> 's" where
  "stream z [] s = ([], s)"
| "stream z (b # bs) s =
     (case gz_write z b s of (out, s1) \<Rightarrow> (case stream z bs s1 of (rest, s2) \<Rightarrow> (concat out @ rest, s2)))"

definition gzip_laws :: "'s gzip \<Rightarrow> (string \<Rightarrow> string option) \<Rightarrow> bool" where
  "gzip_laws z unzip \<longleftrightarrow>
     (\<forall>bs. let (out, s) = stream z bs (gz_start z)
           in unzip (out @ concat (gz_close z s)) = Some (concat bs) \<and> unzip out = None)"

definition received :: "(string \<Rightarrow> string option) \<Rightarrow> nat \<times> (string \<times> string) list \<times> string \<Rightarrow> string option" where
  "received unzip d =
     (case d of (code, h, body) \<Rightarrow>
        if map_of h ''Content-Encoding'' = Some ''gzip'' \<and> body_allowed code then unzip body else Some body)"

definition is_header_op :: "writer_op \<Rightarrow> bool" where
  "is_header_op p = (case p of SetHeader k v \<Rightarrow> True | DelHeader k \<Rightarrow> True | Head c \<Rightarrow> False | Body b \<Rightarrow> False)"

text \<open>Header operations act on the response in both cases, and keep two responses apart on one key only.\<close>

lemma gw_headers: "list_all is_header_op ops \<Longrightarrow> fold (gw_op z) ops gw = gw\<lparr>gw_rs := fold raw_op ops (gw_rs gw)\<rparr>"
proof (induction ops arbitrary: gw)
  case (Cons p ops)
  then show ?case by (cases p) (simp_all add: is_header_op_def)
qed simp

lemma raw_headers:
  assumes "list_all is_header_op ops"
  shows "rs_sent (fold raw_op ops rs) = rs_sent rs" "rs_body (fold raw_op ops rs) = rs_body rs"
    "map_of (rs_headers rs) k = map_of (rs_headers rs') k \<Longrightarrow>
       map_of (rs_headers (fold raw_op ops rs)) k = map_of (rs_headers (fold raw_op ops rs')) k"
proof -
  have "rs_sent (fold raw_op ops rs) = rs_sent rs \<and> rs_body (fold raw_op ops rs) = rs_body rs \<and>
      (map_of (rs_headers rs) k = map_of (rs_headers rs') k \<longrightarrow>
       map_of (rs_headers (fold raw_op ops rs)) k = map_of (rs_headers (fold raw_op ops rs')) k)"
    using assms
  proof (induction ops arbitrary: rs rs')
    case (Cons p ops)
    show ?case
    proof (cases p)
      case (SetHeader j v)
      with Cons.prems Cons.IH[of "header_set j v rs" "header_set j v rs'"] show ?thesis by (simp add: header_set_def)
    next
      case (DelHeader j)
      with Cons.prems Cons.IH[of "header_del j rs" "header_del j rs'"] show ?thesis by (simp add: header_del_def AList.delete_conv')
    qed (use Cons.prems in \<open>simp_all add: is_header_op_def\<close>)
  qed simp
  then show "rs_sent (fold raw_op ops rs) = rs_sent rs" "rs_body (fold raw_op ops rs) = rs_body rs"
    "map_of (rs_headers rs) k = map_of (rs_headers rs') k \<Longrightarrow>
       map_of (rs_headers (fold raw_op ops rs)) k = map_of (rs_headers (fold raw_op ops rs')) k" by blast+
qed

lemma fold_sent:
  assumes "rs_sent rs = Some (code, h, ck)"
  shows "fold http_write bs rs = rs\<lparr>rs_body := rs_body rs @ (if body_allowed code then concat bs else [])\<rparr>"
  using assms by (induction bs arbitrary: rs) (auto simp: http_write_def write_header_def Let_def)

lemma fold_unsent:
  assumes "rs_sent rs = None" "bs \<noteq> []"
  shows "fold http_write bs rs = rs\<lparr>rs_sent := Some (200, rs_headers rs, rs_cookies rs), rs_body := rs_body rs @ concat bs\<rparr>"
proof -
  obtain b cs where bs: "bs = b # cs" using assms(2) by (cases bs) auto
  have "http_write b rs = rs\<lparr>rs_sent := Some (200, rs_headers rs, rs_cookies rs), rs_body := rs_body rs @ b\<rparr>"
    using assms(1) by (simp add: http_write_def write_header_def body_allowed_def Let_def)
  then show ?thesis using fold_sent[of "http_write b rs" 200] by (simp add: bs body_allowed_def)
qed

lemma raw_bodies: "fold raw_op (map Body bs) rs = fold http_write bs rs"
  by (induction bs arbitrary: rs) simp_all

lemma gw_bodies_inactive:
  "gw_decided gw \<Longrightarrow> \<not> gw_active gw \<Longrightarrow> fold (gw_op z) (map Body bs) gw = gw\<lparr>gw_rs := fold http_write bs (gw_rs gw)\<rparr>"
  by (induction bs arbitrary: gw) (simp_all add: gw_write_def)

text \<open>An active writer passes on what the compressor gives, in chunks.\<close>

lemma gw_bodies_active:
  assumes "gw_decided gw" "gw_active gw" "gw_gz gw = Some s"
  shows "\<exists>cs. fold (gw_op z) (map Body bs) gw = gw\<lparr>gw_rs := fold http_write cs (gw_rs gw), gw_gz := Some (snd (stream z bs s))\<rparr> \<and>
    concat cs = fst (stream z bs s)"
  using assms
proof (induction bs arbitrary: gw s)
  case Nil
  then show ?case by (intro exI[of _ "[]"]) simp
next
  case (Cons b bs)
  obtain out s1 where w: "gz_write z b s = (out, s1)" by fastforce
  let ?g = "gw\<lparr>gw_rs := fold http_write out (gw_rs gw), gw_gz := Some s1\<rparr>"
  have "gw_op z (Body b) gw = ?g" using Cons.prems w by (simp add: gw_write_def Let_def)
  moreover obtain cs where "fold (gw_op z) (map Body bs) ?g = ?g\<lparr>gw_rs := fold http_write cs (gw_rs ?g), gw_gz := Some (snd (stream z bs s1))\<rparr>"
      "concat cs = fst (stream z bs s1)"
    using Cons.IH[of ?g s1] Cons.prems by auto
  ultimately show ?case using w by (intro exI[of _ "out @ cs"]) (simp split: prod.splits)
qed

lemma gw_closed_stream:
  assumes "gw_decided gw" "gw_active gw" "gw_gz gw = Some (gz_start z)" "gzip_laws z unzip"
  shows "\<exists>cs. gw_rs (gw_finish z (fold (gw_op z) (map Body bs) gw)) = fold http_write cs (gw_rs gw) \<and>
    unzip (concat cs) = Some (concat bs) \<and> cs \<noteq> []"
proof -
  obtain cs where c: "fold (gw_op z) (map Body bs) gw =
      gw\<lparr>gw_rs := fold http_write cs (gw_rs gw), gw_gz := Some (snd (stream z bs (gz_start z)))\<rparr>"
      "concat cs = fst (stream z bs (gz_start z))"
    using gw_bodies_active[OF assms(1-3)] by blast
  obtain out s where st: "stream z bs (gz_start z) = (out, s)" by fastforce
  have u: "unzip (concat (cs @ gz_close z s)) = Some (concat bs)"
    using assms(4) c(2) st unfolding gzip_laws_def by (metis (mono_tags, lifting) case_prod_conv concat_append fst_conv)
  have "unzip [] = None" using assms(4) unfolding gzip_laws_def by (drule_tac spec[of _ "[]"]) simp
  with u have "cs @ gz_close z s \<noteq> []" by (metis concat.simps(1) option.distinct(1))
  with u c st assms(2) show ?thesis by (intro exI[of _ "cs @ gz_close z s"]) (simp add: gw_finish_def)
qed

text \<open>The usual handler: headers first, then perhaps a status, then the body in pieces.\<close>

definition outs :: "nat option \<Rightarrow> string list \<Rightarrow> writer_op list" where
  "outs st bs = (case st of None \<Rightarrow> [] | Some c \<Rightarrow> [Head c]) @ map Body bs"

definition status_of :: "nat option \<Rightarrow> nat" where
  "status_of st = (case st of None \<Rightarrow> 200 | Some c \<Rightarrow> c)"

definition guess_type :: "(string \<Rightarrow> string) \<Rightarrow> string \<Rightarrow> (string \<times> string) list \<Rightarrow> (string \<times> string) list" where
  "guess_type detect body h =
     (if map_of h ''Content-Type'' = None \<and> header_get ''Content-Encoding'' h = [] \<and> body \<noteq> []
      then AList.update ''Content-Type'' (detect body) h else h)"

lemma delivered_outs:
  assumes "rs_sent r = None" "rs_body r = []"
  shows "delivered detect (fold raw_op (outs st bs) r) =
    (let body = (if body_allowed (status_of st) then concat bs else [])
     in (status_of st, guess_type detect body (rs_headers r), body))"
proof (cases st)
  case None
  show ?thesis
  proof (cases "bs = []")
    case True
    with None assms show ?thesis by (simp add: outs_def delivered_def status_of_def guess_type_def Let_def)
  next
    case False
    with None assms fold_unsent[OF assms(1) False] show ?thesis
      by (auto simp: outs_def raw_bodies delivered_def status_of_def guess_type_def body_allowed_def Let_def)
  qed
next
  case (Some c)
  with assms fold_sent[of "write_header c r" c] show ?thesis
    by (simp add: outs_def raw_bodies delivered_def status_of_def guess_type_def write_header_def Let_def)
qed

lemma answer_forms:
  fixes rs :: response
  assumes "gzip_laws z unzip" "list_all is_header_op heads"
  defines "R \<equiv> fold raw_op heads (header_add ''Vary'' ''Accept-Encoding'' rs)"
  obtains (as_is) "answer z accept (heads @ outs st bs) None rs = fold raw_op (outs st bs) R"
  | (zipped) cs where "header_get ''Content-Encoding'' (rs_headers R) = []" "unzip (concat cs) = Some (concat bs)"
      "answer z accept (heads @ outs st bs) None rs =
       fold raw_op (outs st cs) (header_del ''Content-Length'' (header_set ''Content-Encoding'' ''gzip'' R))"
proof (cases "contains accept ''gzip''")
  case False
  then show thesis using as_is by (simp add: answer_def compress_def R_def)
next
  case True
  let ?g = "\<lparr>gw_rs = R, gw_gz = None, gw_active = False, gw_decided = False\<rparr> :: 'a gzip_writer"
  let ?d = "decide z ?g"
  have a: "answer z accept (heads @ outs st bs) None rs = gw_rs (gw_finish z (fold (gw_op z) (outs st bs) ?g))"
    using True gw_headers[OF assms(2), of z "\<lparr>gw_rs = header_add ''Vary'' ''Accept-Encoding'' rs, gw_gz = None, gw_active = False, gw_decided = False\<rparr>"]
    by (simp add: answer_def compress_def R_def)
  let ?h = "\<lambda>r. case st of None \<Rightarrow> r | Some c \<Rightarrow> write_header c r"
  let ?e = "?d\<lparr>gw_rs := ?h (gw_rs ?d)\<rparr>"
  have rest: "fold raw_op (outs st xs) r = fold http_write xs (?h r)" for xs r
    by (cases st) (simp_all add: outs_def raw_bodies)
  show thesis
  proof (cases "st = None \<and> bs = []")
    case True
    then show thesis using a as_is by (simp add: outs_def gw_finish_def)
  next
    case some: False
    have first: "fold (gw_op z) (outs st bs) ?g = fold (gw_op z) (map Body bs) ?e"
    proof (cases st)
      case None
      with some obtain b cs where "bs = b # cs" by (cases bs) auto
      moreover have "gw_decided ?d" by (simp add: decide_def Let_def)
      ultimately show ?thesis using None by (simp add: outs_def gw_write_def)
    qed (simp add: outs_def gw_write_header_def Let_def)
    have dec: "gw_decided ?e" by (simp add: decide_def Let_def)
    show thesis
    proof (cases "gw_active ?d")
      case False
      then have d: "gw_rs ?d = R" by (auto simp: decide_def Let_def split: if_splits)
      have na: "\<not> gw_active ?e" using False by simp
      from gw_bodies_inactive[OF dec na, of z bs] na
      have "gw_rs (gw_finish z (fold (gw_op z) (map Body bs) ?e)) = fold http_write bs (gw_rs ?e)" by (simp add: gw_finish_def)
      then have "answer z accept (heads @ outs st bs) None rs = fold http_write bs (?h (gw_rs ?d))"
        unfolding a first by simp
      then show thesis using as_is rest[of bs R] unfolding d by simp
    next
      case act: True
      then have d: "gw_rs ?d = header_del ''Content-Length'' (header_set ''Content-Encoding'' ''gzip'' R)"
          "gw_gz ?e = Some (gz_start z)" "header_get ''Content-Encoding'' (rs_headers R) = []"
        by (auto simp: decide_def Let_def split: if_splits)
      have "gw_active ?e" using act by simp
      from gw_closed_stream[OF dec this d(2) assms(1), of bs] obtain cs where
        c: "gw_rs (gw_finish z (fold (gw_op z) (map Body bs) ?e)) = fold http_write cs (gw_rs ?e)" "unzip (concat cs) = Some (concat bs)" by blast
      have "answer z accept (heads @ outs st bs) None rs = fold http_write cs (?h (gw_rs ?d))"
        unfolding a first c(1) by simp
      then show thesis using zipped[OF d(3) c(2)] rest[of cs "gw_rs ?d"] unfolding d(1) by simp
    qed
  qed
qed

text \<open>
  C33: Compression is transparent: for a handler that sets headers, then its status, then writes its
  body in any pieces, the client gets the same status and, decoded, the same body as without the
  middleware, whatever it accepts; every header is the same except the encoding, \<open>Vary\<close> and a length, which
  is dropped when the body is compressed, and a content type the server would have guessed.
\<close>

theorem compress_transparent:
  assumes "gzip_laws z unzip" "list_all is_header_op heads" "rs_sent rs = None" "rs_body rs = []"
    and "delivered detect (fold raw_op (heads @ outs st bs) rs) = (code, h, body)"
    and "delivered detect (answer z accept (heads @ outs st bs) None rs) = (code', h', body')"
  shows "code' = code \<and> received unzip (code', h', body') = received unzip (code, h, body) \<and>
    (k \<notin> {''Content-Encoding'', ''Content-Length'', ''Content-Type'', ''Vary''} \<longrightarrow> map_of h' k = map_of h k) \<and>
    (map_of (rs_headers (fold raw_op heads rs)) ''Content-Type'' \<noteq> None \<longrightarrow> map_of h' ''Content-Type'' = map_of h ''Content-Type'') \<and>
    map_of h' ''Content-Length'' = (if map_of h' ''Content-Encoding'' = map_of h ''Content-Encoding'' then map_of h ''Content-Length'' else None)"
proof -
  let ?P = "fold raw_op heads rs" and ?R = "fold raw_op heads (header_add ''Vary'' ''Accept-Encoding'' rs)"
  have add: "rs_sent (header_add ''Vary'' v rs) = rs_sent rs" "rs_body (header_add ''Vary'' v rs) = rs_body rs"
      "j \<noteq> ''Vary'' \<Longrightarrow> map_of (rs_headers rs) j = map_of (rs_headers (header_add ''Vary'' v rs)) j" for j v
    by (auto simp: header_add_def header_set_def split: option.split)
  have same: "j \<noteq> ''Vary'' \<Longrightarrow> map_of (rs_headers ?R) j = map_of (rs_headers ?P) j" for j
    using raw_headers(3)[OF assms(2) add(3)] by metis
  have P: "rs_sent ?P = None" "rs_body ?P = []" and R: "rs_sent ?R = None" "rs_body ?R = []"
    using raw_headers(1,2)[OF assms(2)] assms(3,4) add by simp_all
  let ?body = "\<lambda>xs. if body_allowed (status_of st) then concat xs else []"
  have plain: "code = status_of st" "h = guess_type detect (?body bs) (rs_headers ?P)" "body = ?body bs"
  proof -
    have "(code, h, body) = (status_of st, guess_type detect (?body bs) (rs_headers ?P), ?body bs)"
      using assms(5) delivered_outs[OF P, of detect st bs] by (simp only: fold_append comp_apply Let_def)
    then show "code = status_of st" "h = guess_type detect (?body bs) (rs_headers ?P)" "body = ?body bs"
      by (simp_all only: prod.inject)
  qed
  from assms(1,2) show ?thesis
  proof (cases rule: answer_forms[where accept = accept and st = st and bs = bs and rs = rs])
    case as_is
    have z: "code' = status_of st" "h' = guess_type detect (?body bs) (rs_headers ?R)" "body' = ?body bs"
    proof -
      have "(code', h', body') = (status_of st, guess_type detect (?body bs) (rs_headers ?R), ?body bs)"
        using assms(6) as_is delivered_outs[OF R, of detect st bs] by (simp only: Let_def)
      then show "code' = status_of st" "h' = guess_type detect (?body bs) (rs_headers ?R)" "body' = ?body bs"
        by (simp_all only: prod.inject)
    qed
    have "header_get ''Content-Encoding'' (rs_headers ?R) = header_get ''Content-Encoding'' (rs_headers ?P)" by (simp add: header_get_def same)
    then have "j \<noteq> ''Vary'' \<Longrightarrow> map_of h' j = map_of h j" for j unfolding z(2) plain(2) guess_type_def by (simp add: same)
    then show ?thesis using z plain by (simp add: received_def)
  next
    case (zipped cs)
    let ?Z = "header_del ''Content-Length'' (header_set ''Content-Encoding'' ''gzip'' ?R)"
    have Z: "rs_sent ?Z = None" "rs_body ?Z = []" using R by (simp_all add: header_del_def header_set_def)
    have z: "code' = status_of st" "h' = guess_type detect (?body cs) (rs_headers ?Z)" "body' = ?body cs"
    proof -
      have "(code', h', body') = (status_of st, guess_type detect (?body cs) (rs_headers ?Z), ?body cs)"
        using assms(6) zipped(3) delivered_outs[OF Z, of detect st cs] by (simp only: Let_def)
      then show "code' = status_of st" "h' = guess_type detect (?body cs) (rs_headers ?Z)" "body' = ?body cs"
        by (simp_all only: prod.inject)
    qed
    have hZ: "map_of (rs_headers ?Z) j =
        (if j = ''Content-Length'' then None else if j = ''Content-Encoding'' then Some ''gzip'' else map_of (rs_headers ?R) j)" for j
      by (simp add: header_del_def header_set_def AList.delete_conv')
    have h': "h' = rs_headers ?Z" unfolding z(2) guess_type_def by (simp add: header_get_def hZ)
    have e: "header_get ''Content-Encoding'' (rs_headers ?P) = []" using zipped(1) same by (simp add: header_get_def)
    have ce: "map_of h ''Content-Encoding'' \<noteq> Some ''gzip''"
      using e unfolding plain(2) guess_type_def by (auto simp: header_get_def)
    have "received unzip (code', h', body') = Some body"
      using zipped(2) z plain(3) by (simp add: received_def h' hZ)
    moreover have "received unzip (code, h, body) = Some body" using ce by (simp add: received_def)
    moreover have "k \<notin> {''Content-Encoding'', ''Content-Length'', ''Content-Type'', ''Vary''} \<longrightarrow> map_of h' k = map_of h k"
      by (auto simp: h' hZ same plain(2) guess_type_def)
    moreover have "map_of (rs_headers ?P) ''Content-Type'' \<noteq> None \<longrightarrow> map_of h' ''Content-Type'' = map_of h ''Content-Type''"
      by (auto simp: h' hZ same plain(2) guess_type_def)
    moreover have "map_of h' ''Content-Length'' = None" "map_of h' ''Content-Encoding'' = Some ''gzip''" by (simp_all add: h' hZ)
    ultimately show ?thesis using z(1) plain(1) ce by simp
  qed
qed

text \<open>
  An application that panics behind \<open>Compress\<close> loses its error page: the context still holds the
  \<open>gzipWriter\<close> whose compressor was already given back, the page goes through it, and nobody closes the
  stream. The client gets a 500 it cannot decode; without the middleware it gets the page.
\<close>

theorem panic_page_truncated:
  assumes "gzip_laws z unzip" "list_all is_header_op heads" "rs_sent rs = None" "rs_body rs = []"
    and "contains accept ''gzip''" "header_get ''Content-Encoding'' (rs_headers (fold raw_op heads rs)) = []"
  shows "fst (delivered detect (answer z accept heads (Some page) rs)) = 500 \<and>
    received unzip (delivered detect (answer z accept heads (Some page) rs)) = None \<and>
    received unzip (delivered detect (fold raw_op (heads @ page_ops page 500) rs)) = Some page"
proof -
  let ?P = "fold raw_op heads rs" and ?R = "fold raw_op heads (header_add ''Vary'' ''Accept-Encoding'' rs)"
  have "map_of (rs_headers rs) ''Content-Encoding'' = map_of (rs_headers (header_add ''Vary'' ''Accept-Encoding'' rs)) ''Content-Encoding''"
    by (auto simp: header_add_def header_set_def split: option.split)
  note same = raw_headers(3)[OF assms(2) this]
  have sent: "rs_sent (header_add ''Vary'' ''Accept-Encoding'' rs) = None" "rs_body (header_add ''Vary'' ''Accept-Encoding'' rs) = []"
    using assms(3,4) by (auto simp: header_add_def header_set_def split: option.split)
  have P: "rs_sent ?P = None" "rs_body ?P = []" and R: "rs_sent ?R = None" "rs_body ?R = []"
    using raw_headers(1,2)[OF assms(2)] assms(3,4) sent by simp_all
  have e: "header_get ''Content-Encoding'' (rs_headers ?R) = []" using assms(6) same by (simp add: header_get_def)
  obtain out s where w: "gz_write z page (gz_start z) = (out, s)" by fastforce
  then have un: "unzip (concat out) = None"
    using assms(1) unfolding gzip_laws_def by (drule_tac spec[of _ "[page]"]) simp
  define H where "H = header_del ''Content-Length'' (header_set ''Content-Encoding'' ''gzip'' (fold raw_op (take 3 (page_ops page 500)) ?R))"
  have H: "rs_sent H = None" "rs_body H = []" "map_of (rs_headers H) ''Content-Encoding'' = Some ''gzip''"
    using R by (simp_all add: H_def page_ops_def header_del_def header_set_def AList.delete_conv')
  have comp: "compressible ''text/html; charset=utf-8''" by code_simp
  let ?g = "\<lparr>gw_rs = ?R, gw_gz = None, gw_active = False, gw_decided = False\<rparr> :: 'a gzip_writer"
  have z: "compress z accept heads rs = Zipped ?g"
    using assms(5) gw_headers[OF assms(2), of z "\<lparr>gw_rs = header_add ''Vary'' ''Accept-Encoding'' rs, gw_gz = None, gw_active = False, gw_decided = False\<rparr>"]
    by (simp add: compress_def gw_finish_def Let_def)
  have e3: "header_get ''Content-Encoding'' (rs_headers (fold raw_op (take 3 (page_ops page 500)) ?R)) = []"
    using e by (simp add: page_ops_def header_set_def header_get_def)
  have "answer z accept heads (Some page) rs = fold http_write out (write_header 500 H)"
    using w e3 comp
    by (simp add: answer_def z page_ops_def gw_write_header_def gw_write_def decide_def H_def header_set_def header_get_def Let_def)
  also have "\<dots> = fold raw_op (outs (Some 500) out) H" by (simp add: outs_def raw_bodies)
  finally have a: "delivered detect (answer z accept heads (Some page) rs) = (500, rs_headers H, concat out)"
    using delivered_outs[OF H(1,2), of detect "Some 500" out] H(3)
    by (simp add: status_of_def guess_type_def body_allowed_def header_get_def)
  have "fold raw_op (heads @ page_ops page 500) rs = fold raw_op (outs (Some 500) [page]) (fold raw_op (take 3 (page_ops page 500)) ?P)"
    by (simp add: page_ops_def outs_def)
  moreover have "rs_sent (fold raw_op (take 3 (page_ops page 500)) ?P) = None" "rs_body (fold raw_op (take 3 (page_ops page 500)) ?P) = []"
    using P by (simp_all add: page_ops_def header_set_def)
  moreover have "header_get ''Content-Encoding'' (rs_headers (fold raw_op (take 3 (page_ops page 500)) ?P)) = []"
    using assms(6) by (simp add: page_ops_def header_set_def header_get_def)
  moreover from this have "map_of (rs_headers (fold raw_op (take 3 (page_ops page 500)) ?P)) ''Content-Encoding'' \<noteq> Some ''gzip''"
    by (auto simp: header_get_def)
  ultimately have b: "received unzip (delivered detect (fold raw_op (heads @ page_ops page 500) rs)) = Some page"
    using delivered_outs[of "fold raw_op (take 3 (page_ops page 500)) ?P" detect "Some 500" "[page]"]
    by (simp add: received_def status_of_def body_allowed_def guess_type_def Let_def)
  show ?thesis using a b un H(3) by (simp add: received_def body_allowed_def)
qed

text \<open>A compressor that holds everything back until it is closed.\<close>

definition late_gzip :: "string gzip" where
  "late_gzip = \<lparr>gz_start = [], gz_write = (\<lambda>b s. ([], s @ b)), gz_close = (\<lambda>s. [s @ ''.''])\<rparr>"

definition late_unzip :: "string \<Rightarrow> string option" where
  "late_unzip s = (if s = [] then None else if last s = CHR ''.'' then Some (butlast s) else None)"

lemma late_gzip_laws: "gzip_laws late_gzip late_unzip"
proof -
  have "stream late_gzip bs s = ([], s @ concat bs)" for bs s
    by (induction bs arbitrary: s) (simp_all add: late_gzip_def)
  then show ?thesis by (simp add: gzip_laws_def late_gzip_def late_unzip_def)
qed

theorem compress_transparent_witness:
  "received late_unzip (delivered (\<lambda>b. ''text/plain'')
     (answer late_gzip ''gzip, br'' ([SetHeader ''Content-Type'' ''text/html'', SetHeader ''Content-Length'' ''4''] @ outs (Some 404) [''no'', ''pe'']) None new_response)) = Some ''nope''"
proof -
  let ?heads = "[SetHeader ''Content-Type'' ''text/html'', SetHeader ''Content-Length'' ''4'']"
  obtain c h b where d: "delivered (\<lambda>b. ''text/plain'') (fold raw_op (?heads @ outs (Some 404) [''no'', ''pe'']) new_response) = (c, h, b)"
    by (rule prod_cases3)
  obtain c' h' b' where d': "delivered (\<lambda>b. ''text/plain'') (answer late_gzip ''gzip, br'' (?heads @ outs (Some 404) [''no'', ''pe'']) None new_response) = (c', h', b')"
    by (rule prod_cases3)
  have "received late_unzip (delivered (\<lambda>b. ''text/plain'') (fold raw_op (?heads @ outs (Some 404) [''no'', ''pe'']) new_response)) = Some ''nope''"
    by code_simp
  moreover have "list_all is_header_op ?heads" "rs_sent new_response = None" "rs_body new_response = []" by code_simp+
  note compress_transparent[OF late_gzip_laws this d d', of "''X''", THEN conjunct2, THEN conjunct1]
  ultimately show ?thesis unfolding d d' by simp
qed

theorem panic_page_truncated_witness:
  "received late_unzip (delivered (\<lambda>b. ''text/plain'') (answer late_gzip ''gzip'' [SetHeader ''X-Id'' ''7''] (Some ''<html>'') new_response)) = None"
proof -
  have "list_all is_header_op [SetHeader ''X-Id'' ''7'']" "rs_sent new_response = None" "rs_body new_response = []" "contains ''gzip'' ''gzip''"
    "header_get ''Content-Encoding'' (rs_headers (fold raw_op [SetHeader ''X-Id'' ''7''] new_response)) = []"
    by code_simp+
  from panic_page_truncated[OF late_gzip_laws this, of "\<lambda>b. ''text/plain''" "''<html>''"] show ?thesis by blast
qed

end
