(* ===== verification/Realtime.thy ===== *)
theory Realtime
  imports Json Lifecycle
begin

text \<open>
  The websocket hub, \<open>core/realtime/realtime.go\<close> and \<open>client.go\<close>: the updates sent to pages, the
  connections with their send channels, and the two goroutines of each connection as a step relation. The
  steps are the critical sections of the hub's lock and the single channel and socket operations. The
  websocket library, \<open>url.Parse\<close> and the random source are inputs; what happens to a closed channel is
  what Go does, a panic. \<open>hb_log\<close>, \<open>rc_from\<close>, \<open>rc_lost\<close> and \<open>rc_written\<close> record history for the theorems.
\<close>

declare map_of_eq_Some_iff [simp del] AList.update_conv' [simp]

subsection \<open>The hub\<close>

definition send_buffer :: nat where "send_buffer = 256"

datatype pump = Running | Leaving | Ended

record rt_client =
  rc_key :: string
  rc_send :: "string list"
  rc_closed :: bool
  rc_reader :: pump
  rc_writer :: pump
  rc_written :: "string list"
  rc_from :: nat
  rc_lost :: nat

record hub =
  hb_clients :: "string list"
  hb_bus :: bus
  hb_allowed_origins :: "string list"
  hb_table :: "(string \<times> rt_client) list"
  hb_panicked :: bool
  hb_log :: "(string \<times> string) list"

definition new_hub :: "bus \<Rightarrow> hub" where
  "new_hub b = \<lparr>hb_clients = [], hb_bus = b, hb_allowed_origins = [], hb_table = [], hb_panicked = False, hb_log = []\<rparr>"

definition set_allowed_origins :: "string list \<Rightarrow> hub \<Rightarrow> hub" where
  "set_allowed_origins hosts hb = hb\<lparr>hb_allowed_origins := hosts\<rparr>"

text \<open>\<open>host_of\<close> is \<open>url.Parse\<close> and \<open>Hostname\<close>.\<close>

definition origin_allowed :: "(string \<Rightarrow> string option) \<Rightarrow> string \<Rightarrow> hub \<Rightarrow> bool" where
  "origin_allowed host_of origin hb =
     (if origin = [] then True
      else if hb_allowed_origins hb = [] then True
      else (case host_of origin of
              None \<Rightarrow> False
            | Some host \<Rightarrow> list_ex (\<lambda>allowed. to_lower host = to_lower allowed) (hb_allowed_origins hb)))"

definition on_client :: "string \<Rightarrow> (rt_client \<Rightarrow> rt_client) \<Rightarrow> hub \<Rightarrow> hub" where
  "on_client i f hb =
     (case map_of (hb_table hb) i of None \<Rightarrow> hb | Some c \<Rightarrow> hb\<lparr>hb_table := AList.update i (f c) (hb_table hb)\<rparr>)"

definition session_key :: "bool \<Rightarrow> (string \<times> string) list \<Rightarrow> string" where
  "session_key secure cookies = (case map_of cookies (cookie_name secure) of Some v \<Rightarrow> v | None \<Rightarrow> [])"

definition hub_register :: "string \<Rightarrow> string \<Rightarrow> hub \<Rightarrow> hub" where
  "hub_register i key hb =
     hb\<lparr>hb_clients := List.insert i (hb_clients hb),
        hb_table := AList.update i \<lparr>rc_key = key, rc_send = [], rc_closed = False, rc_reader = Running, rc_writer = Running,
          rc_written = [], rc_from = length (hb_log hb), rc_lost = 0\<rparr> (hb_table hb)\<rparr>"

text \<open>\<open>close\<close> of a closed channel panics.\<close>

definition client_close :: "string \<Rightarrow> hub \<Rightarrow> hub" where
  "client_close i hb =
     (case map_of (hb_table hb) i of
        None \<Rightarrow> hb
      | Some c \<Rightarrow> if rc_closed c then hb\<lparr>hb_panicked := True\<rparr> else on_client i (\<lambda>c. c\<lparr>rc_closed := True\<rparr>) hb)"

definition hub_unregister :: "string \<Rightarrow> hub \<Rightarrow> hub" where
  "hub_unregister i hb =
     (if i \<in> set (hb_clients hb) then (client_close i hb)\<lparr>hb_clients := removeAll i (hb_clients hb)\<rparr> else hb)"

subsection \<open>Sending\<close>

definition dom_update :: "string \<Rightarrow> string \<Rightarrow> string \<Rightarrow> string" where
  "dom_update target html action =
     ''{'' @ join '','' (map (\<lambda>(k, v). json_string k @ '':'' @ json_string v)
        [(''type'', ''kyrux:dom''), (''target'', target), (''html'', html), (''action'', action)]) @ ''}''"

definition offer :: "string \<Rightarrow> rt_client \<Rightarrow> rt_client" where
  "offer data c =
     (if length (rc_send c) < send_buffer then c\<lparr>rc_send := rc_send c @ [data]\<rparr> else c\<lparr>rc_lost := Suc (rc_lost c)\<rparr>)"

definition wants :: "string \<Rightarrow> rt_client \<Rightarrow> bool" where
  "wants key c \<longleftrightarrow> \<not> (key \<noteq> [] \<and> rc_key c \<noteq> key)"

definition send_dom :: "string \<Rightarrow> string \<Rightarrow> string \<Rightarrow> string \<Rightarrow> hub \<Rightarrow> hub" where
  "send_dom key target html action hb =
     (let data = dom_update target html action; to = (\<lambda>i c. i \<in> set (hb_clients hb) \<and> wants key c)
      in hb\<lparr>hb_log := hb_log hb @ [(key, data)],
            hb_panicked := hb_panicked hb \<or> list_ex (\<lambda>(i, c). to i c \<and> rc_closed c) (hb_table hb),
            hb_table := map (\<lambda>(i, c). (i, if to i c then offer data c else c)) (hb_table hb)\<rparr>)"

definition send_dom_for :: "string \<Rightarrow> string \<Rightarrow> string \<Rightarrow> string \<Rightarrow> hub \<Rightarrow> hub" where
  "send_dom_for session_id target html action hb = (if session_id = [] then hb else send_dom session_id target html action hb)"

definition hub_replace :: "string \<Rightarrow> string \<Rightarrow> hub \<Rightarrow> hub" where
  "hub_replace target html = send_dom [] target html ''replace''"

definition hub_append :: "string \<Rightarrow> string \<Rightarrow> hub \<Rightarrow> hub" where
  "hub_append target html = send_dom [] target html ''append''"

definition hub_prepend :: "string \<Rightarrow> string \<Rightarrow> hub \<Rightarrow> hub" where
  "hub_prepend target html = send_dom [] target html ''prepend''"

definition hub_remove :: "string \<Rightarrow> hub \<Rightarrow> hub" where
  "hub_remove target = send_dom [] target [] ''remove''"

definition hub_replace_text :: "string \<Rightarrow> string \<Rightarrow> hub \<Rightarrow> hub" where
  "hub_replace_text target t = send_dom [] target t ''replace-text''"

definition hub_append_text :: "string \<Rightarrow> string \<Rightarrow> hub \<Rightarrow> hub" where
  "hub_append_text target t = send_dom [] target t ''append-text''"

definition hub_prepend_text :: "string \<Rightarrow> string \<Rightarrow> hub \<Rightarrow> hub" where
  "hub_prepend_text target t = send_dom [] target t ''prepend-text''"

definition hub_replace_for :: "string \<Rightarrow> string \<Rightarrow> string \<Rightarrow> hub \<Rightarrow> hub" where
  "hub_replace_for session_id target html = send_dom_for session_id target html ''replace''"

definition hub_append_for :: "string \<Rightarrow> string \<Rightarrow> string \<Rightarrow> hub \<Rightarrow> hub" where
  "hub_append_for session_id target html = send_dom_for session_id target html ''append''"

definition hub_prepend_for :: "string \<Rightarrow> string \<Rightarrow> string \<Rightarrow> hub \<Rightarrow> hub" where
  "hub_prepend_for session_id target html = send_dom_for session_id target html ''prepend''"

definition hub_remove_for :: "string \<Rightarrow> string \<Rightarrow> hub \<Rightarrow> hub" where
  "hub_remove_for session_id target = send_dom_for session_id target [] ''remove''"

definition hub_replace_text_for :: "string \<Rightarrow> string \<Rightarrow> string \<Rightarrow> hub \<Rightarrow> hub" where
  "hub_replace_text_for session_id target t = send_dom_for session_id target t ''replace-text''"

definition hub_append_text_for :: "string \<Rightarrow> string \<Rightarrow> string \<Rightarrow> hub \<Rightarrow> hub" where
  "hub_append_text_for session_id target t = send_dom_for session_id target t ''append-text''"

definition hub_prepend_text_for :: "string \<Rightarrow> string \<Rightarrow> string \<Rightarrow> hub \<Rightarrow> hub" where
  "hub_prepend_text_for session_id target t = send_dom_for session_id target t ''prepend-text''"

definition hub_broadcast :: "string \<Rightarrow> goval \<Rightarrow> hub \<Rightarrow> hub" where
  "hub_broadcast event payload hb = hb\<lparr>hb_bus := publish event payload (hb_bus hb)\<rparr>"

subsection \<open>A connection\<close>

datatype serve_result = OriginRefused | NotUpgraded | RandomFailed | Serving string

text \<open>\<open>ServeHTTP\<close> up to its goroutines: \<open>accepted\<close> is the upgrade, \<open>rnd\<close> the bytes for the id.\<close>

definition hub_serve ::
  "(string \<Rightarrow> string option) \<Rightarrow> bool \<Rightarrow> string \<Rightarrow> (string \<times> string) list \<Rightarrow> bool \<Rightarrow> string option \<Rightarrow> hub \<Rightarrow> serve_result \<times> hub"
where
  "hub_serve host_of secure origin cookies accepted rnd hb =
     (if \<not> origin_allowed host_of origin hb then (OriginRefused, hb)
      else if \<not> accepted then (NotUpgraded, hb)
      else (case rnd of
              None \<Rightarrow> (RandomFailed, hb)
            | Some b \<Rightarrow> (Serving (hex_encode b), hub_register (hex_encode b) (session_key secure cookies) hb)))"

text \<open>One turn of \<open>writePump\<close>: a message for the socket, which takes it or fails; a closed and empty channel; a ping.\<close>

definition write_turn :: "bool \<Rightarrow> rt_client \<Rightarrow> rt_client" where
  "write_turn ok c =
     (case rc_send c of
        d # ds \<Rightarrow> if ok then c\<lparr>rc_send := ds, rc_written := rc_written c @ [d]\<rparr> else c\<lparr>rc_send := ds, rc_writer := Leaving\<rparr>
      | [] \<Rightarrow> if rc_closed c then c\<lparr>rc_writer := Ended\<rparr> else c)"

definition ping_turn :: "bool \<Rightarrow> rt_client \<Rightarrow> rt_client" where
  "ping_turn ok c = (if ok then c else c\<lparr>rc_writer := Leaving\<rparr>)"

text \<open>One turn of \<open>readPump\<close>: what the page sends is discarded.\<close>

definition read_turn :: "bool \<Rightarrow> rt_client \<Rightarrow> rt_client" where
  "read_turn ok c = (if ok then c else c\<lparr>rc_reader := Leaving\<rparr>)"

text \<open>The random id of a new connection is one that was never drawn before.\<close>

inductive hub_step :: "hub \<Rightarrow> hub \<Rightarrow> bool" where
  Origins: "hub_step hb (set_allowed_origins hosts hb)"
| Serve: "hub_serve host_of secure origin cookies accepted rnd hb = (r, hb') \<Longrightarrow>
    \<forall>i. r = Serving i \<longrightarrow> map_of (hb_table hb) i = None \<Longrightarrow> hub_step hb hb'"
| Everyone: "hub_step hb (send_dom [] target html action hb)"
| ForSession: "hub_step hb (send_dom_for session_id target html action hb)"
| Publish: "hub_step hb (hub_broadcast event payload hb)"
| Write: "map_of (hb_table hb) i = Some c \<Longrightarrow> rc_writer c = Running \<Longrightarrow> hub_step hb (on_client i (write_turn ok) hb)"
| Ping: "map_of (hb_table hb) i = Some c \<Longrightarrow> rc_writer c = Running \<Longrightarrow> hub_step hb (on_client i (ping_turn ok) hb)"
| Read: "map_of (hb_table hb) i = Some c \<Longrightarrow> rc_reader c = Running \<Longrightarrow> hub_step hb (on_client i (read_turn ok) hb)"
| WriterLeaves: "map_of (hb_table hb) i = Some c \<Longrightarrow> rc_writer c = Leaving \<Longrightarrow>
    hub_step hb (on_client i (\<lambda>c. c\<lparr>rc_writer := Ended\<rparr>) (hub_unregister i hb))"
| ReaderLeaves: "map_of (hb_table hb) i = Some c \<Longrightarrow> rc_reader c = Leaving \<Longrightarrow>
    hub_step hb (on_client i (\<lambda>c. c\<lparr>rc_reader := Ended\<rparr>) (hub_unregister i hb))"

subsection \<open>What reaches a page\<close>

text \<open>The messages meant for a connection since it was registered.\<close>

definition meant_for :: "hub \<Rightarrow> rt_client \<Rightarrow> string list" where
  "meant_for hb c = map snd (filter (\<lambda>(key, d). key = [] \<or> key = rc_key c) (drop (rc_from c) (hb_log hb)))"

definition client_ok :: "hub \<Rightarrow> string \<Rightarrow> rt_client \<Rightarrow> bool" where
  "client_ok hb i c \<longleftrightarrow>
     (rc_closed c \<longleftrightarrow> i \<notin> set (hb_clients hb)) \<and> length (rc_send c) \<le> send_buffer \<and> rc_from c \<le> length (hb_log hb) \<and>
     subseq (rc_written c @ rc_send c) (meant_for hb c) \<and>
     (i \<in> set (hb_clients hb) \<and> rc_lost c = 0 \<and> rc_writer c = Running \<longrightarrow> rc_written c @ rc_send c = meant_for hb c)"

definition hub_ok :: "hub \<Rightarrow> bool" where
  "hub_ok hb \<longleftrightarrow>
     \<not> hb_panicked hb \<and> distinct (map fst (hb_table hb)) \<and> (\<forall>i\<in>set (hb_clients hb). map_of (hb_table hb) i \<noteq> None) \<and>
     (\<forall>i c. map_of (hb_table hb) i = Some c \<longrightarrow> client_ok hb i c)"

lemma hub_okD:
  assumes "hub_ok hb"
  shows "\<not> hb_panicked hb" "distinct (map fst (hb_table hb))" "i \<in> set (hb_clients hb) \<Longrightarrow> map_of (hb_table hb) i \<noteq> None"
    "map_of (hb_table hb) i = Some c \<Longrightarrow> client_ok hb i c"
  using assms by (auto simp: hub_ok_def)

lemma on_client_frame [simp]: "hb_clients (on_client i f hb) = hb_clients hb" "hb_log (on_client i f hb) = hb_log hb"
  "hb_panicked (on_client i f hb) = hb_panicked hb"
  by (simp_all add: on_client_def split: option.split)

lemma on_client_lookup: "map_of (hb_table (on_client i f hb)) j =
  (if j = i then map_option f (map_of (hb_table hb) i) else map_of (hb_table hb) j)"
  by (simp add: on_client_def split: option.split)

lemma on_client_distinct [simp]: "distinct (map fst (hb_table (on_client i f hb))) = distinct (map fst (hb_table hb))"
proof (cases "map_of (hb_table hb) i")
  case (Some c)
  then have "i \<in> fst ` set (hb_table hb)" by (metis map_of_eq_None_iff option.distinct(1))
  then show ?thesis using Some by (simp add: on_client_def AList.update_keys)
qed (simp add: on_client_def)

lemma hub_ok_on_client:
  assumes "hub_ok hb" "\<And>c. map_of (hb_table hb) i = Some c \<Longrightarrow> client_ok hb i c \<Longrightarrow> client_ok hb i (f c)"
  shows "hub_ok (on_client i f hb)"
proof -
  have same: "client_ok (on_client i f hb) = client_ok hb" by (simp add: fun_eq_iff client_ok_def meant_for_def)
  show ?thesis using assms(1)
    unfolding hub_ok_def same by (auto simp: on_client_lookup intro: assms(2))
qed

lemma hub_ok_same:
  assumes "hub_ok hb" "hb_clients hb' = hb_clients hb" "hb_table hb' = hb_table hb" "hb_panicked hb' = hb_panicked hb" "hb_log hb' = hb_log hb"
  shows "hub_ok hb'"
  using assms by (simp add: hub_ok_def client_ok_def meant_for_def)

lemma unregister_lookup:
  assumes "hub_ok hb"
  shows "map_of (hb_table (hub_unregister i hb)) j =
      (if j = i \<and> i \<in> set (hb_clients hb) then map_option (\<lambda>c. c\<lparr>rc_closed := True\<rparr>) (map_of (hb_table hb) i) else map_of (hb_table hb) j)"
    "hb_clients (hub_unregister i hb) = (if i \<in> set (hb_clients hb) then removeAll i (hb_clients hb) else hb_clients hb)"
    "hb_log (hub_unregister i hb) = hb_log hb" "\<not> hb_panicked (hub_unregister i hb)"
    "distinct (map fst (hb_table (hub_unregister i hb)))"
proof -
  have open_if: "i \<in> set (hb_clients hb) \<Longrightarrow> \<exists>c. map_of (hb_table hb) i = Some c \<and> \<not> rc_closed c"
    using hub_okD(3,4)[OF assms, of i] by (auto simp: client_ok_def)
  then have close: "i \<in> set (hb_clients hb) \<Longrightarrow> client_close i hb = on_client i (\<lambda>c. c\<lparr>rc_closed := True\<rparr>) hb"
    by (auto simp: client_close_def)
  show "map_of (hb_table (hub_unregister i hb)) j =
      (if j = i \<and> i \<in> set (hb_clients hb) then map_option (\<lambda>c. c\<lparr>rc_closed := True\<rparr>) (map_of (hb_table hb) i) else map_of (hb_table hb) j)"
    by (simp add: hub_unregister_def close on_client_lookup)
  show "hb_clients (hub_unregister i hb) = (if i \<in> set (hb_clients hb) then removeAll i (hb_clients hb) else hb_clients hb)"
    "hb_log (hub_unregister i hb) = hb_log hb"
    by (simp_all add: hub_unregister_def close)
  show "\<not> hb_panicked (hub_unregister i hb)" "distinct (map fst (hb_table (hub_unregister i hb)))"
    using hub_okD(1,2)[OF assms] by (simp_all add: hub_unregister_def close)
qed

lemma hub_ok_unregister:
  assumes "hub_ok hb"
  shows "hub_ok (hub_unregister i hb)"
proof -
  note u = unregister_lookup[OF assms, of i]
  have "client_ok (hub_unregister i hb) j c'" if at: "map_of (hb_table (hub_unregister i hb)) j = Some c'" for j c'
  proof (cases "j = i \<and> i \<in> set (hb_clients hb)")
    case True
    then obtain c where "map_of (hb_table hb) i = Some c" "c' = c\<lparr>rc_closed := True\<rparr>" using at by (auto simp: u(1))
    then show ?thesis using hub_okD(4)[OF assms, of i c] True by (simp add: client_ok_def meant_for_def u(2,3))
  next
    case False
    then have "map_of (hb_table hb) j = Some c'" using at u(1) by metis
    then show ?thesis using hub_okD(4)[OF assms, of j c'] False by (auto simp: client_ok_def meant_for_def u(2,3))
  qed
  moreover have "\<forall>j\<in>set (hb_clients (hub_unregister i hb)). map_of (hb_table (hub_unregister i hb)) j \<noteq> None"
    using hub_okD(3)[OF assms] by (auto simp: u(1,2))
  ultimately show ?thesis using u(4,5) by (simp add: hub_ok_def)
qed

lemma send_lookup: "map_of (hb_table (send_dom key target html action hb)) i =
  map_option (\<lambda>c. if i \<in> set (hb_clients hb) \<and> wants key c then offer (dom_update target html action) c else c) (map_of (hb_table hb) i)"
proof -
  have "map_of (map (\<lambda>(j, c). (j, g j c)) t) i = map_option (g i) (map_of t i)" for g :: "string \<Rightarrow> rt_client \<Rightarrow> rt_client" and t
    by (induction t) auto
  then show ?thesis by (simp add: send_dom_def Let_def)
qed

lemma hub_ok_send:
  assumes "hub_ok hb"
  shows "hub_ok (send_dom key target html action hb)"
proof -
  let ?hb = "send_dom key target html action hb" and ?d = "dom_update target html action"
  have frame: "hb_clients ?hb = hb_clients hb" "hb_log ?hb = hb_log hb @ [(key, ?d)]" by (simp_all add: send_dom_def Let_def)
  have "\<not> hb_panicked ?hb"
  proof -
    have "\<not> rc_closed c" if "(i, c) \<in> set (hb_table hb)" "i \<in> set (hb_clients hb)" for i c
      using that hub_okD(4)[OF assms, of i c] map_of_is_SomeI[OF hub_okD(2)[OF assms]] by (auto simp: client_ok_def)
    then show ?thesis using hub_okD(1)[OF assms] by (auto simp: send_dom_def Let_def list_ex_iff)
  qed
  moreover have "distinct (map fst (hb_table ?hb))"
    using hub_okD(2)[OF assms] by (simp add: send_dom_def Let_def comp_def case_prod_beta)
  moreover have "\<forall>i\<in>set (hb_clients ?hb). map_of (hb_table ?hb) i \<noteq> None"
    using hub_okD(3)[OF assms] by (simp add: frame send_lookup)
  moreover have "client_ok ?hb i c'" if at: "map_of (hb_table ?hb) i = Some c'" for i c'
  proof -
    obtain c where c: "map_of (hb_table hb) i = Some c"
        "c' = (if i \<in> set (hb_clients hb) \<and> wants key c then offer ?d c else c)"
      using at by (auto simp: send_lookup)
    note ok = hub_okD(4)[OF assms c(1)]
    have meant: "rc_from a = rc_from c \<Longrightarrow> rc_key a = rc_key c \<Longrightarrow> meant_for ?hb a = meant_for hb c @ (if wants key c then [?d] else [])" for a
      using ok by (auto simp: meant_for_def frame client_ok_def wants_def)
    have app: "subseq (a @ b) m \<Longrightarrow> subseq (a @ b @ [d]) (m @ [d])" "subseq a m \<Longrightarrow> subseq a (m @ [d])" for a b m :: "string list" and d
      using subseq_append[of "a @ b" "[d]" m] by (simp_all add: list_emb_prefix)
    show ?thesis
      using ok app meant[of c'] by (auto simp: c(2) offer_def client_ok_def frame send_buffer_def)
  qed
  ultimately show ?thesis by (simp add: hub_ok_def)
qed

lemma hub_ok_register:
  assumes "hub_ok hb" "map_of (hb_table hb) i = None"
  shows "hub_ok (hub_register i key hb)"
proof -
  let ?hb = "hub_register i key hb"
  have frame: "hb_log ?hb = hb_log hb" "hb_panicked ?hb = hb_panicked hb" "set (hb_clients ?hb) = insert i (set (hb_clients hb))"
    by (simp_all add: hub_register_def)
  have look: "j \<noteq> i \<Longrightarrow> map_of (hb_table ?hb) j = map_of (hb_table hb) j" for j by (simp add: hub_register_def)
  have "client_ok ?hb j c" if at: "map_of (hb_table ?hb) j = Some c" for j c
  proof (cases "j = i")
    case True
    with at have "c = \<lparr>rc_key = key, rc_send = [], rc_closed = False, rc_reader = Running, rc_writer = Running, rc_written = [],
        rc_from = length (hb_log hb), rc_lost = 0\<rparr>" by (simp add: hub_register_def)
    then show ?thesis using True by (simp add: client_ok_def meant_for_def frame)
  next
    case False
    with at look have "map_of (hb_table hb) j = Some c" by simp
    then show ?thesis using hub_okD(4)[OF assms(1), of j c] False by (simp add: client_ok_def meant_for_def frame)
  qed
  moreover have "distinct (map fst (hb_table ?hb))" using hub_okD(2)[OF assms(1)] by (simp add: hub_register_def AList.distinct_update)
  moreover have "\<forall>j\<in>set (hb_clients ?hb). map_of (hb_table ?hb) j \<noteq> None"
  proof
    fix j assume "j \<in> set (hb_clients ?hb)"
    then show "map_of (hb_table ?hb) j \<noteq> None"
      using hub_okD(3)[OF assms(1), of j] look[of j] by (cases "j = i") (simp_all add: frame hub_register_def)
  qed
  ultimately show ?thesis using hub_okD(1)[OF assms(1)] by (simp add: hub_ok_def frame)
qed

lemma subseq_drop_one: "subseq (a @ d # b) m \<Longrightarrow> subseq (a @ b) m"
  by (meson list_emb_Cons list_emb_append_mono subseq_order.dual_order.trans subseq_order.refl)

lemma hub_step_ok: "hub_step hb hb' \<Longrightarrow> hub_ok hb \<Longrightarrow> hub_ok hb'"
proof (induction rule: hub_step.induct)
  case (Origins hb hosts)
  then show ?case by (rule hub_ok_same) (simp_all add: set_allowed_origins_def)
next
  case (Serve host_of secure origin cookies accepted rnd hb r hb')
  then show ?case using hub_ok_register by (auto simp: hub_serve_def split: if_splits option.splits)
next
  case (Everyone hb target html action)
  then show ?case by (rule hub_ok_send)
next
  case (ForSession hb session_id target html action)
  then show ?case using hub_ok_send by (simp add: send_dom_for_def)
next
  case (Publish hb event payload)
  then show ?case by (rule hub_ok_same) (simp_all add: hub_broadcast_def)
next
  case (Write hb i c ok)
  show ?case
  proof (rule hub_ok_on_client[OF Write.prems])
    fix c' assume "map_of (hb_table hb) i = Some c'" and k: "client_ok hb i c'"
    with Write.hyps have w: "rc_writer c' = Running" by simp
    show "client_ok hb i (write_turn ok c')"
    proof (cases "rc_send c'")
      case (Cons d ds)
      with k w show ?thesis
        using subseq_drop_one[of "rc_written c'" d ds "meant_for hb c'"] by (auto simp: write_turn_def client_ok_def meant_for_def)
    qed (use k w in \<open>auto simp: write_turn_def client_ok_def meant_for_def\<close>)
  qed
next
  case (Ping hb i c ok)
  then show ?case by (intro hub_ok_on_client) (auto simp: ping_turn_def client_ok_def meant_for_def)
next
  case (Read hb i c ok)
  then show ?case by (intro hub_ok_on_client) (auto simp: read_turn_def client_ok_def meant_for_def)
next
  case (WriterLeaves hb i c)
  then show ?case by (intro hub_ok_on_client hub_ok_unregister) (auto simp: client_ok_def meant_for_def)
next
  case (ReaderLeaves hb i c)
  then show ?case by (intro hub_ok_on_client hub_ok_unregister) (auto simp: client_ok_def meant_for_def)
qed

lemma hub_reachable: "hub_step\<^sup>*\<^sup>* (new_hub b) hb \<Longrightarrow> hub_ok hb"
proof (induction rule: rtranclp_induct)
  case base
  show ?case by (simp add: new_hub_def hub_ok_def)
next
  case (step hb hb')
  then show ?case using hub_step_ok by blast
qed

text \<open>The page reads back exactly the fields of an update, whatever they contain.\<close>

lemma dom_update_readback:
  "json_decode (dom_update target html action) = Some [(''type'', ''kyrux:dom''), (''target'', target), (''html'', html), (''action'', action)]"
proof -
  let ?m = "[(''type'', ''kyrux:dom''), (''target'', target), (''html'', html), (''action'', action)]"
  let ?ks = "[''type'', ''target'', ''html'', ''action'']"
  have "dom_update target html action = ''{'' @ (join '','' (map (\<lambda>k. json_string k @ '':'' @ json_string (the (map_of ?m k))) ?ks) @ ''}'' @ [])"
    by (simp add: dom_update_def)
  moreover have "json_members (join '','' (map (\<lambda>k. json_string k @ '':'' @ json_string (the (map_of ?m k))) ?ks) @ ''}'' @ []) [] = Some (?m, [])"
    by (subst json_members_list) simp_all
  moreover have "\<exists>r. join '','' (map (\<lambda>k. json_string k @ '':'' @ json_string (the (map_of ?m k))) ?ks) @ ''}'' @ [] = CHR 0x22 # r"
    by (simp add: json_string_def)
  ultimately show ?thesis by (auto simp: json_decode_def json_ws_def)
qed

text \<open>
  C30: Updates reach the right pages only. After any run of the hub, with connections coming, failing and
  leaving in any interleaving with the sends: nothing panics (no channel is closed twice or sent to after
  its close), a connection's buffer is bounded, and what its page got is a part, in order, of the updates
  sent since it connected to everyone or to its own session, never another session's; a connection that is
  alive and never overflowed has got or still holds all of them.
\<close>

theorem updates_reach_own_session:
  assumes "hub_step\<^sup>*\<^sup>* (new_hub b) hb" "map_of (hb_table hb) i = Some c"
    and "own = map snd (filter (\<lambda>(key, d). key = [] \<or> key = rc_key c) (drop (rc_from c) (hb_log hb)))"
  shows "\<not> hb_panicked hb \<and> length (rc_send c) \<le> 256 \<and> subseq (rc_written c @ rc_send c) own \<and>
    (\<not> rc_closed c \<and> rc_lost c = 0 \<and> rc_writer c = Running \<longrightarrow> rc_written c @ rc_send c = own)"
proof -
  have ok: "hub_ok hb" using hub_reachable[OF assms(1)] .
  have "client_ok hb i c" using hub_okD(4)[OF ok assms(2)] .
  then show ?thesis using hub_okD(1)[OF ok] by (auto simp: client_ok_def meant_for_def assms(3) send_buffer_def)
qed

text \<open>
  A page of another host cannot open a connection when hosts are configured: the request is refused
  and the hub does not change.
\<close>

lemma foreign_origin_refused:
  assumes "origin \<noteq> []" "hb_allowed_origins hb \<noteq> []"
    and "\<forall>host. host_of origin = Some host \<longrightarrow> to_lower host \<notin> to_lower ` set (hb_allowed_origins hb)"
  shows "hub_serve host_of secure origin cookies accepted rnd hb = (OriginRefused, hb)"
  using assms by (auto simp: hub_serve_def origin_allowed_def list_ex_iff split: option.split)

text \<open>The wildcard of \<open>ALLOWED_HOSTS\<close>, which the middleware for hosts understands, refuses every page here.\<close>

theorem wildcard_refuses_pages:
  assumes "origin \<noteq> []" "host_of origin \<noteq> Some ''*''"
  shows "fst (hub_serve host_of secure origin cookies accepted rnd (set_allowed_origins [''*''] hb)) = OriginRefused"
proof -
  have "to_lower host \<noteq> ''*''" if "host \<noteq> ''*''" for host
  proof
    assume a: "to_lower host = ''*''"
    then obtain d where d: "host = [d]" "to_lower_c d = CHR ''*''" by (cases host) (auto simp: to_lower_def)
    have "\<not> is_upper d"
    proof
      assume u: "is_upper d"
      with of_char_to_lower[OF u] d(2) show False by (simp add: is_upper_def)
    qed
    with d(2) have "d = CHR ''*''" by (simp add: to_lower_c_def)
    with d that show False by simp
  qed
  note star = this
  have "to_lower ''*'' = ''*''" by code_simp
  then show ?thesis using assms star
    by (cases "host_of origin") (auto simp: hub_serve_def origin_allowed_def set_allowed_origins_def)
qed

text \<open>A page that connects, gets an update of its own and one for everyone, and misses one of somebody else.\<close>

definition demo_hub :: hub where
  "demo_hub = on_client ''41'' (write_turn True) (hub_replace ''b'' ''2'' (hub_replace_for ''s2'' ''x'' ''0''
     (hub_replace_for ''s1'' ''a'' ''1'' (hub_register ''41'' ''s1'' (new_hub new_bus)))))"

theorem updates_reach_own_session_witness:
  "case map_of (hb_table demo_hub) ''41'' of
     None \<Rightarrow> False
   | Some c \<Rightarrow> rc_written c @ rc_send c = [dom_update ''a'' ''1'' ''replace'', dom_update ''b'' ''2'' ''replace'']"
proof -
  let ?h0 = "new_hub new_bus" and ?h1 = "hub_register ''41'' ''s1'' (new_hub new_bus)"
  let ?h2 = "hub_replace_for ''s1'' ''a'' ''1'' ?h1" and ?h3 = "hub_replace_for ''s2'' ''x'' ''0'' (hub_replace_for ''s1'' ''a'' ''1'' ?h1)"
  let ?h4 = "hub_replace ''b'' ''2'' (hub_replace_for ''s2'' ''x'' ''0'' (hub_replace_for ''s1'' ''a'' ''1'' ?h1))"
  have hex: "hex_encode ''A'' = ''41''" by code_simp
  have "hub_serve (\<lambda>_. None) True [] [(''__Host-kyrux_session'', ''s1'')] True (Some ''A'') ?h0 = (Serving ''41'', ?h1)"
    by (simp add: hub_serve_def origin_allowed_def session_key_def cookie_name_def hex)
  then have s1: "hub_step ?h0 ?h1" by (rule Serve) (simp add: new_hub_def)
  have s2: "hub_step ?h1 ?h2" "hub_step ?h2 ?h3" unfolding hub_replace_for_def by (rule ForSession)+
  have s4: "hub_step ?h3 ?h4" unfolding hub_replace_def by (rule Everyone)
  have at: "case map_of (hb_table ?h4) ''41'' of None \<Rightarrow> False | Some c \<Rightarrow> rc_writer c = Running" by code_simp
  then obtain c4 where c4: "map_of (hb_table ?h4) ''41'' = Some c4" "rc_writer c4 = Running" by (auto split: option.splits)
  have s5: "hub_step ?h4 demo_hub" unfolding demo_hub_def by (rule Write[OF c4])
  have run: "hub_step\<^sup>*\<^sup>* ?h0 demo_hub" using s1 s2 s4 s5 by (meson rtranclp.rtrancl_into_rtrancl rtranclp.rtrancl_refl)
  have e: "case map_of (hb_table demo_hub) ''41'' of None \<Rightarrow> False
     | Some c \<Rightarrow> \<not> rc_closed c \<and> rc_lost c = 0 \<and> rc_writer c = Running \<and> rc_key c = ''s1'' \<and> rc_from c = 0"
    "hb_log demo_hub = [(''s1'', dom_update ''a'' ''1'' ''replace''), (''s2'', dom_update ''x'' ''0'' ''replace''), ([], dom_update ''b'' ''2'' ''replace'')]"
    by code_simp+
  then obtain c where c: "map_of (hb_table demo_hub) ''41'' = Some c" "\<not> rc_closed c \<and> rc_lost c = 0 \<and> rc_writer c = Running" "rc_key c = ''s1''" "rc_from c = 0"
    by (auto split: option.splits)
  from updates_reach_own_session[OF run c(1) refl] c show ?thesis by (simp add: e(2))
qed

theorem wildcard_refuses_pages_witness:
  "fst (hub_serve (\<lambda>u. Some (drop 8 u)) True ''https://kyrux.dev'' [] True (Some ''A'') (set_allowed_origins [''*''] (new_hub new_bus))) = OriginRefused"
  by (rule wildcard_refuses_pages) simp_all

end
