(* ===== verification/Templates.thy ===== *)
theory Templates
  imports Middleware Urls
begin

text \<open>
  The template engine, \<open>core/render\<close>: the Django-like tags (\<open>template.go\<close>), the template sets, the
  rendered response with the injected scripts (\<open>render.go\<close>), the static files (\<open>static.go\<close>). The regular
  expressions are matchers that give the group and the rest of the text; they have no alternatives to
  backtrack to. \<open>html/template\<close> is a parameter that parses a list of named sources and executes a set.
\<close>

declare map_of_eq_Some_iff [simp del] AList.update_conv' [simp]

subsection \<open>Tags\<close>

definition re_space :: "char \<Rightarrow> bool" where
  "re_space c \<longleftrightarrow> c \<in> {CHR '' '', CHR 0x09, CHR 0x0A, CHR 0x0C, CHR 0x0D}"

definition lit :: "string \<Rightarrow> string \<Rightarrow> string option" where
  "lit p s = (if has_prefix s p then Some (drop (length p) s) else None)"

definition opt_dash :: "string \<Rightarrow> string" where
  "opt_dash s = (if s \<noteq> [] \<and> hd s = CHR ''-'' then tl s else s)"

definition spaces :: "string \<Rightarrow> string" where
  "spaces s = dropWhile re_space s"

definition spaces1 :: "string \<Rightarrow> string option" where
  "spaces1 s = (if s \<noteq> [] \<and> re_space (hd s) then Some (spaces s) else None)"

definition until_quote :: "string \<Rightarrow> (string \<times> string) option" where
  "until_quote s =
     (case lit [CHR 0x22] s of
        None \<Rightarrow> None
      | Some r \<Rightarrow> (let n = takeWhile (\<lambda>c. c \<noteq> CHR 0x22) r
                  in if length n = length r then None else Some (n, drop (Suc (length n)) r)))"

definition quoted :: "string \<Rightarrow> (string \<times> string) option" where
  "quoted s = (case until_quote s of Some (n, r) \<Rightarrow> if n = [] then None else Some (n, r) | None \<Rightarrow> None)"

definition tag_end :: "string \<Rightarrow> string option" where
  "tag_end s = lit ''%}'' (opt_dash (spaces s))"

definition tag_start :: "string \<Rightarrow> string \<Rightarrow> string option" where
  "tag_start kw s = (case lit ''{%'' s of None \<Rightarrow> None | Some r \<Rightarrow> lit kw (spaces (opt_dash r)))"

definition named_tag :: "string \<Rightarrow> string \<Rightarrow> (string \<times> string) option" where
  "named_tag kw s =
     (case tag_start kw s of
        None \<Rightarrow> None
      | Some r1 \<Rightarrow>
          (case spaces1 r1 of
             None \<Rightarrow> None
           | Some r2 \<Rightarrow>
               (case quoted r2 of
                  None \<Rightarrow> None
                | Some (n, r3) \<Rightarrow> (case tag_end r3 of None \<Rightarrow> None | Some r4 \<Rightarrow> Some (n, r4)))))"

definition re_extends :: "string \<Rightarrow> (string \<times> string) option" where
  "re_extends s =
     (case named_tag ''extends'' s of
        None \<Rightarrow> None
      | Some (n, r) \<Rightarrow> Some (n, if r \<noteq> [] \<and> hd r = CHR 0x0A then tl r else r))"

definition re_block :: "string \<Rightarrow> (string \<times> string) option" where
  "re_block = named_tag ''block''"

definition re_include :: "string \<Rightarrow> (string \<times> string) option" where
  "re_include = named_tag ''include''"

definition re_end_block :: "string \<Rightarrow> (string \<times> string) option" where
  "re_end_block s =
     (case tag_start ''endblock'' s of
        None \<Rightarrow> None
      | Some r1 \<Rightarrow>
          (let r2 = (case spaces1 r1 of
                       None \<Rightarrow> r1
                     | Some q \<Rightarrow> (case until_quote q of None \<Rightarrow> r1 | Some (_, r) \<Rightarrow> r))
           in map_option (Pair []) (tag_end r2)))"

definition re_tmpl_ref :: "string \<Rightarrow> (string \<times> string) option" where
  "re_tmpl_ref s =
     (case lit ''{{'' s of
        None \<Rightarrow> None
      | Some r1 \<Rightarrow>
          (case lit ''template'' (spaces (opt_dash r1)) of
             None \<Rightarrow> None
           | Some r2 \<Rightarrow> (case spaces1 r2 of None \<Rightarrow> None | Some r3 \<Rightarrow> quoted r3)))"

text \<open>The leftmost match, all matches, and their replacement. A match consumes something.\<close>

fun find_match :: "(string \<Rightarrow> (string \<times> string) option) \<Rightarrow> string \<Rightarrow> (string \<times> string) option" where
  "find_match m [] = None"
| "find_match m (c # cs) = (case m (c # cs) of Some x \<Rightarrow> Some x | None \<Rightarrow> find_match m cs)"

function find_all :: "(string \<Rightarrow> (string \<times> string) option) \<Rightarrow> string \<Rightarrow> string list" where
  "find_all m [] = []"
| "find_all m (c # cs) =
     (case m (c # cs) of
        Some (n, r) \<Rightarrow> if length r \<le> length cs then n # find_all m r else find_all m cs
      | None \<Rightarrow> find_all m cs)"
  by pat_completeness auto
termination by (relation "measure (\<lambda>(m, s). length s)") auto

function replace_all :: "(string \<Rightarrow> (string \<times> string) option) \<Rightarrow> (string \<Rightarrow> string) \<Rightarrow> string \<Rightarrow> string" where
  "replace_all m f [] = []"
| "replace_all m f (c # cs) =
     (case m (c # cs) of
        Some (n, r) \<Rightarrow> if length r \<le> length cs then f n @ replace_all m f r else c # replace_all m f cs
      | None \<Rightarrow> c # replace_all m f cs)"
  by pat_completeness auto
termination by (relation "measure (\<lambda>(m, f, s). length s)") auto

subsection \<open>Sources\<close>

definition safe_tmpl_path :: "string \<Rightarrow> bool" where
  "safe_tmpl_path p \<longleftrightarrow> \<not> contains p ''..'' \<and> \<not> has_prefix p ''/'' \<and> \<not> has_prefix p [CHR 0x5C]"

datatype render_error =
    BadExtends string | BadInclude string | WalkError string | Traversal string | ReadError string
  | NotFound string | ParseError string string | ExecError string

definition preprocess :: "string \<Rightarrow> render_error + string \<times> string" where
  "preprocess raw0 =
     (let blocks = (\<lambda>kw after. replace_all re_block (\<lambda>n. ''{{'' @ kw @ '' '' @ [CHR 0x22] @ n @ [CHR 0x22] @ after @ ''}}''));
          ext = find_match re_extends raw0; parent = (case ext of Some (n, _) \<Rightarrow> n | None \<Rightarrow> [])
      in if ext \<noteq> None \<and> \<not> safe_tmpl_path parent then Inl (BadExtends parent)
         else
           (let raw1 = (if ext \<noteq> None then blocks ''define'' [] (replace_all re_extends (\<lambda>_. []) raw0)
                        else blocks ''block'' '' .'' raw0);
                raw2 = replace_all re_end_block (\<lambda>_. ''{{end}}'') raw1
            in case find (\<lambda>n. \<not> safe_tmpl_path n) (find_all re_include raw2) of
                 Some n \<Rightarrow> Inl (BadInclude n)
               | None \<Rightarrow>
                   Inr (trim_space (replace_all re_include (\<lambda>n. ''{{template '' @ [CHR 0x22] @ n @ [CHR 0x22] @ '' .}}'') raw2), parent)))"

definition tmpl_refs :: "string \<Rightarrow> string list" where
  "tmpl_refs content = find_all re_tmpl_ref content"

record src_info =
  si_content :: string
  si_parent :: string

type_synonym sources = "(string \<times> src_info) list"

text \<open>
  \<open>collectTransitive\<close> over the references still to visit; \<open>dst\<close> keeps the order of insertion.
\<close>

function (sequential) collect :: "sources \<Rightarrow> string list \<Rightarrow> (string \<times> string) list \<Rightarrow> (string \<times> string) list" where
  "collect srcs [] dst = dst"
| "collect srcs (n # ns) dst =
     (if n \<in> set (map fst dst) then collect srcs ns dst
      else (case map_of srcs n of
              None \<Rightarrow> collect srcs ns dst
            | Some info \<Rightarrow> collect srcs ns (collect srcs (tmpl_refs (si_content info)) (dst @ [(n, si_content info)]))))"
  by pat_completeness auto

lemma collect_dom_grows: "collect_dom (srcs, ns, dst) \<Longrightarrow> set (map fst dst) \<subseteq> set (map fst (collect srcs ns dst))"
proof (induction srcs ns dst rule: collect.pinduct)
  case (1 srcs dst)
  then show ?case by (simp add: collect.psimps)
next
  case (2 srcs n ns dst)
  show ?case
  proof (cases "n \<in> set (map fst dst)")
    case True
    then show ?thesis using 2(1) 2(2)[OF True] by (simp add: collect.psimps)
  next
    case new: False
    show ?thesis
    proof (cases "map_of srcs n")
      case None
      then show ?thesis using 2(1) 2(3)[OF new None] new by (simp add: collect.psimps)
    next
      case (Some info)
      let ?d = "collect srcs (tmpl_refs (si_content info)) (dst @ [(n, si_content info)])"
      have "set (map fst dst) \<subseteq> set (map fst ?d)" using 2(4)[OF new Some] by auto
      moreover have "set (map fst ?d) \<subseteq> set (map fst (collect srcs ns ?d))" using 2(5)[OF new Some] .
      ultimately show ?thesis using 2(1) new Some by (simp add: collect.psimps)
    qed
  qed
qed

termination collect
proof (relation "inv_image (finite_psubset <*lex*> less_than) (\<lambda>(srcs, ns, dst). (set (map fst srcs) - set (map fst dst), length ns))")
  fix srcs :: sources and n ns info and dst :: "(string \<times> string) list"
  assume n: "n \<notin> set (map fst dst)" "map_of srcs n = Some info"
  then have "n \<in> fst ` set srcs" by (metis map_of_eq_None_iff option.distinct(1))
  with n show "((srcs, tmpl_refs (si_content info), dst @ [(n, si_content info)]), srcs, n # ns, dst) \<in>
      inv_image (finite_psubset <*lex*> less_than) (\<lambda>(srcs, ns, dst). (set (map fst srcs) - set (map fst dst), length ns))"
    by (auto simp: finite_psubset_def)
next
  fix srcs :: sources and n ns info and dst :: "(string \<times> string) list"
  assume n: "n \<notin> set (map fst dst)" "map_of srcs n = Some info"
    and "collect_dom (srcs, tmpl_refs (si_content info), dst @ [(n, si_content info)])"
  then have "set (map fst (dst @ [(n, si_content info)])) \<subseteq>
      set (map fst (collect srcs (tmpl_refs (si_content info)) (dst @ [(n, si_content info)])))"
    by (intro collect_dom_grows)
  with n show "((srcs, ns, collect srcs (tmpl_refs (si_content info)) (dst @ [(n, si_content info)])), srcs, n # ns, dst) \<in>
      inv_image (finite_psubset <*lex*> less_than) (\<lambda>(srcs, ns, dst). (set (map fst srcs) - set (map fst dst), length ns))"
    by (auto simp: finite_psubset_def)
qed (auto simp: wf_finite_psubset)

subsection \<open>Template sets\<close>

text \<open>
  \<open>compile\<close>: the root is parsed first, the others in the order \<open>ord\<close> of the iteration over the map, which
  Go leaves open. \<open>tl_parse\<close> is \<open>template.New\<close> with the function map and the calls of \<open>Parse\<close>.
\<close>

record 't template_lib =
  tl_parse :: "string \<Rightarrow> (string \<times> string) list \<Rightarrow> string + 't"
  tl_exec :: "'t \<Rightarrow> string \<Rightarrow> (string \<times> goval) list \<Rightarrow> string \<times> string option"
  tl_order :: "(string \<times> string) list \<Rightarrow> (string \<times> string) list"

record 't compiled_entry =
  ce_set :: 't
  ce_exec_name :: string

definition exec_name_of :: "src_info \<Rightarrow> string \<Rightarrow> string" where
  "exec_name_of info name = (if si_parent info \<noteq> [] then si_parent info else name)"

definition collected :: "sources \<Rightarrow> string \<Rightarrow> src_info \<Rightarrow> (string \<times> string) list" where
  "collected srcs name info =
     (if si_parent info \<noteq> []
      then collect srcs [si_parent info] (collect srcs (tmpl_refs (si_content info)) [(name, si_content info)])
      else collect srcs [name] [])"

definition compile_template :: "'t template_lib \<Rightarrow> sources \<Rightarrow> string \<Rightarrow> render_error + 't compiled_entry" where
  "compile_template lib srcs name =
     (case map_of srcs name of
        None \<Rightarrow> Inl (NotFound name)
      | Some info \<Rightarrow>
          (let exec = exec_name_of info name; found = collected srcs name info;
               main = filter (\<lambda>(n, c). n = exec) found; others = tl_order lib (filter (\<lambda>(n, c). n \<noteq> exec) found)
           in case tl_parse lib exec (main @ others) of
                Inl e \<Rightarrow> Inl (ParseError name e)
              | Inr t \<Rightarrow> Inr \<lparr>ce_set = t, ce_exec_name = exec\<rparr>))"

fun compile_all :: "'t template_lib \<Rightarrow> sources \<Rightarrow> string list \<Rightarrow> render_error + (string \<times> 't compiled_entry) list" where
  "compile_all lib srcs [] = Inr []"
| "compile_all lib srcs (n # ns) =
     (case compile_template lib srcs n of
        Inl e \<Rightarrow> Inl e
      | Inr ce \<Rightarrow> (case compile_all lib srcs ns of Inl e \<Rightarrow> Inl e | Inr m \<Rightarrow> Inr ((n, ce) # m)))"

text \<open>What \<open>WalkDir\<close> finds below the directory, in its order, with the text of each file.\<close>

record dir_entry =
  de_name :: string
  de_error :: "string option"
  de_is_dir :: bool
  de_inside :: bool
  de_text :: "string option"

fun read_sources :: "dir_entry list \<Rightarrow> sources \<Rightarrow> render_error + sources" where
  "read_sources [] srcs = Inr srcs"
| "read_sources (d # ds) srcs =
     (case de_error d of
        Some e \<Rightarrow> Inl (WalkError e)
      | None \<Rightarrow>
          if de_is_dir d \<or> \<not> has_suffix (de_name d) ''.html'' then read_sources ds srcs
          else if \<not> de_inside d then Inl (Traversal (de_name d))
          else (case de_text d of
                  None \<Rightarrow> Inl (ReadError (de_name d))
                | Some raw \<Rightarrow>
                    (case preprocess raw of
                       Inl e \<Rightarrow> Inl e
                     | Inr (content, parent) \<Rightarrow>
                         read_sources ds (AList.update (de_name d) \<lparr>si_content = content, si_parent = parent\<rparr> srcs))))"

record 't engine =
  en_sources :: sources
  en_compiled :: "(string \<times> 't compiled_entry) list"

text \<open>\<open>loadSources\<close>: \<open>None\<close> for a directory that does not exist. After an error in a file nothing has changed; after one in \<open>compile\<close> the new sources stay with the old sets.\<close>

definition load_sources :: "'t template_lib \<Rightarrow> dir_entry list option \<Rightarrow> 't engine \<Rightarrow> render_error option \<times> 't engine" where
  "load_sources lib dir en =
     (case dir of
        None \<Rightarrow> (None, \<lparr>en_sources = [], en_compiled = []\<rparr>)
      | Some ds \<Rightarrow>
          (case read_sources ds [] of
             Inl e \<Rightarrow> (Some e, en)
           | Inr srcs \<Rightarrow>
               (case compile_all lib srcs (map fst srcs) of
                  Inl e \<Rightarrow> (Some e, en\<lparr>en_sources := srcs\<rparr>)
                | Inr m \<Rightarrow> (None, \<lparr>en_sources = srcs, en_compiled = m\<rparr>))))"

definition empty_engine :: "'t engine" where
  "empty_engine = \<lparr>en_sources = [], en_compiled = []\<rparr>"

text \<open>\<open>MustNew\<close>; \<open>Inl\<close> is its panic.\<close>

definition must_new :: "'t template_lib \<Rightarrow> dir_entry list option \<Rightarrow> render_error + 't engine" where
  "must_new lib dir = (case load_sources lib dir empty_engine of (Some e, _) \<Rightarrow> Inl e | (None, en) \<Rightarrow> Inr en)"

definition source_of :: "'t engine \<Rightarrow> string \<Rightarrow> string option" where
  "source_of en name = map_option si_content (map_of (en_sources en) name)"

subsection \<open>Template errors\<close>

text \<open>The regular expressions on the messages of \<open>html/template\<close>.\<close>

definition until_chr :: "char \<Rightarrow> string \<Rightarrow> (string \<times> string) option" where
  "until_chr c s =
     (let n = takeWhile (\<lambda>x. x \<noteq> c) s in if n = [] \<or> length n = length s then None else Some (n, drop (Suc (length n)) s))"

definition digits_of :: "string \<Rightarrow> (string \<times> string) option" where
  "digits_of s = (let n = takeWhile is_digit s in if n = [] then None else Some (n, drop (length n) s))"

definition re_template_pos :: "string \<Rightarrow> ((string \<times> string) \<times> string) option" where
  "re_template_pos s =
     (case lit ''template: '' s of
        None \<Rightarrow> None
      | Some r1 \<Rightarrow>
          (case until_chr (CHR '':'') r1 of
             None \<Rightarrow> None
           | Some (file, r2) \<Rightarrow> (case digits_of r2 of None \<Rightarrow> None | Some (n, r3) \<Rightarrow> Some ((file, n), r3))))"

definition re_missing_func :: "string \<Rightarrow> (string \<times> string \<times> string) option" where
  "re_missing_func s =
     (case re_template_pos s of
        None \<Rightarrow> None
      | Some ((file, n), r3) \<Rightarrow>
          (case lit '': function '' r3 of
             None \<Rightarrow> None
           | Some r4 \<Rightarrow>
               (case quoted r4 of
                  None \<Rightarrow> None
                | Some (f, r5) \<Rightarrow> (case lit '' not defined'' r5 of None \<Rightarrow> None | Some _ \<Rightarrow> Some (file, n, f)))))"

definition re_missing_key :: "string \<Rightarrow> string option" where
  "re_missing_key s =
     (case lit ''map has no entry for key '' s of None \<Rightarrow> None | Some r \<Rightarrow> map_option fst (quoted r))"

fun first_match :: "(string \<Rightarrow> 'm option) \<Rightarrow> string \<Rightarrow> 'm option" where
  "first_match m [] = None"
| "first_match m (c # cs) = (case m (c # cs) of Some x \<Rightarrow> Some x | None \<Rightarrow> first_match m cs)"

text \<open>The lines around an error; \<open>None\<close> is the panic of a negative capacity.\<close>

definition build_snippet :: "string \<Rightarrow> int \<Rightarrow> int \<Rightarrow> snippet_line list option" where
  "build_snippet src error_line context =
     (let lines = split_chr (CHR 0x0A) src;
          start = max 0 (error_line - context - 1); stop = min (error_line + context) (int (length lines))
      in if stop < start then None
         else Some (map (\<lambda>i. \<lparr>sl_number = int i + 1, sl_content = lines ! i, sl_is_error = (int i + 1 = error_line)\<rparr>)
                      [nat start..<nat stop]))"

definition parse_template_error :: "'t engine \<Rightarrow> string \<Rightarrow> template_error option" where
  "parse_template_error en msg =
     (let pos = (case first_match re_template_pos msg of Some ((file, n), _) \<Rightarrow> (file, fst (atoi n)) | None \<Rightarrow> ([], 0));
          te = (case first_match re_missing_func msg of
                  Some (file, n, f) \<Rightarrow> (''missing_dot'', file, fst (atoi n), f)
                | None \<Rightarrow>
                    (case first_match re_missing_key msg of
                       Some k \<Rightarrow> (''missing_key'', fst pos, snd pos, k)
                     | None \<Rightarrow> (''syntax'', fst pos, snd pos, [])))
      in case te of
           (kind, file, line, var) \<Rightarrow>
             (let te0 = \<lparr>te_kind = kind, te_file = file, te_line = line, te_var = var, te_raw = msg, te_snippet = []\<rparr>
              in if file \<noteq> [] \<and> line > 0 then
                   (case source_of en file of
                      None \<Rightarrow> Some te0
                    | Some src \<Rightarrow> map_option (\<lambda>sn. te0\<lparr>te_snippet := sn\<rparr>) (build_snippet src line 3))
                 else Some te0))"

subsection \<open>Rendering\<close>

definition dq :: string where "dq = [CHR 0x22]"

definition live_script_tag :: string where
  "live_script_tag = ''<script src='' @ dq @ ''/kyrux/js/live.js'' @ dq @ '' defer></script>''"

text \<open>The script of development mode; a tilde stands for the apostrophe.\<close>

definition reload_script :: string where
  "reload_script = map (\<lambda>c. if c = CHR ''~'' then CHR 0x27 else c) (join [CHR 0x0A]
     [''<script>'', ''(function(){'', ''  var es=new EventSource(~/__kyrux_reload__~);'',
      ''  es.onmessage=function(e){if(e.data===~reload~)location.reload();};'',
      ''  es.onerror=function(){setTimeout(function(){location.reload();},1000);};'', ''})();'', ''</script>''])"

fun last_find :: "string \<Rightarrow> string \<Rightarrow> nat option" where
  "last_find p [] = (if p = [] then Some 0 else None)"
| "last_find p (c # cs) =
     (case last_find p cs of Some i \<Rightarrow> Some (Suc i) | None \<Rightarrow> if has_prefix (c # cs) p then Some 0 else None)"

definition inject_scripts :: "bool \<Rightarrow> string \<Rightarrow> string" where
  "inject_scripts debug raw =
     (let inject = live_script_tag @ (if debug then reload_script else [])
      in case last_find ''</body>'' raw of None \<Rightarrow> raw | Some i \<Rightarrow> take i raw @ inject @ drop i raw)"

definition statics_func :: "string list \<Rightarrow> string" where
  "statics_func parts = ''/statics'' @ concat (map (\<lambda>p. if p \<noteq> [] then ''/'' @ p else []) parts)"

text \<open>\<open>Engine.Render\<close>: the error, the engine after a reload, the response.\<close>

definition engine_render ::
  "'t template_lib \<Rightarrow> bool \<Rightarrow> dir_entry list option \<Rightarrow> string \<Rightarrow> (string \<times> goval) list \<Rightarrow> 't engine \<Rightarrow> response \<Rightarrow>
   render_error option \<times> 't engine \<times> response"
where
  "engine_render lib debug dir name data en0 rs =
     (case (if debug then load_sources lib dir en0 else (None, en0)) of
        (Some e, en) \<Rightarrow> (Some e, en, rs)
      | (None, en) \<Rightarrow>
          (case map_of (en_compiled en) name of
             None \<Rightarrow> (Some (NotFound name), en, rs)
           | Some ce \<Rightarrow>
               (case tl_exec lib (ce_set ce) (ce_exec_name ce) data of
                  (_, Some e) \<Rightarrow> (Some (ExecError e), en, rs)
                | (raw, None) \<Rightarrow>
                    (let body = inject_scripts debug raw
                     in (None, en, write_body body (header_set ''Content-Length'' (itoa (int (length body)))
                                     (header_set ''Content-Type'' ''text/html; charset=utf-8'' rs)))))))"

definition render_to_string :: "'t template_lib \<Rightarrow> string \<Rightarrow> (string \<times> goval) list \<Rightarrow> 't engine \<Rightarrow> string \<times> render_error option" where
  "render_to_string lib name data en =
     (case map_of (en_compiled en) name of
        None \<Rightarrow> ([], Some (NotFound name))
      | Some ce \<Rightarrow> (case tl_exec lib (ce_set ce) (ce_exec_name ce) data of (s, e) \<Rightarrow> (s, map_option ExecError e)))"

text \<open>A context processor gives variables of a request; later ones and the view's data win.\<close>

type_synonym 'a processor = "'a exchange \<Rightarrow> (string \<times> goval) list"

record ('a, 't) renderer =
  rd_engine :: "'t engine"
  rd_processors :: "'a processor list"

record ('a, 't) renderers =
  rr_defaults :: "'a processor list"
  rr_cache :: "(string \<times> ('a, 't) renderer) list"

definition add_default_processor :: "'a processor \<Rightarrow> ('a, 't) renderers \<Rightarrow> ('a, 't) renderers" where
  "add_default_processor p rr = rr\<lparr>rr_defaults := rr_defaults rr @ [p]\<rparr>"

text \<open>\<open>For\<close>; \<open>Inl\<close> is the panic of \<open>MustNew\<close>.\<close>

definition for_app ::
  "'t template_lib \<Rightarrow> (string \<Rightarrow> dir_entry list option) \<Rightarrow> string \<Rightarrow> ('a, 't) renderers \<Rightarrow>
   (render_error + ('a, 't) renderer) \<times> ('a, 't) renderers"
where
  "for_app lib dir_of app rr =
     (case map_of (rr_cache rr) app of
        Some r \<Rightarrow> (Inr r, rr)
      | None \<Rightarrow>
          (case must_new lib (dir_of app) of
             Inl e \<Rightarrow> (Inl e, rr)
           | Inr en \<Rightarrow>
               (let r = \<lparr>rd_engine = en, rd_processors = rr_defaults rr\<rparr>
                in (Inr r, rr\<lparr>rr_cache := AList.update app r (rr_cache rr)\<rparr>))))"

text \<open>\<open>With\<close> on the renderer of an app changes the cached one.\<close>

definition with_processors :: "string \<Rightarrow> 'a processor list \<Rightarrow> ('a, 't) renderers \<Rightarrow> ('a, 't) renderers" where
  "with_processors app ps rr =
     (case map_of (rr_cache rr) app of
        None \<Rightarrow> rr
      | Some r \<Rightarrow> rr\<lparr>rr_cache := AList.update app (r\<lparr>rd_processors := rd_processors r @ ps\<rparr>) (rr_cache rr)\<rparr>)"

definition merge_data :: "'a processor list \<Rightarrow> (string \<times> goval) list \<Rightarrow> 'a exchange \<Rightarrow> (string \<times> goval) list" where
  "merge_data ps data x =
     (let merged = fold (\<lambda>p m. fold (\<lambda>(k, v) m. AList.update k v m) (p x) m) ps []
      in fold (\<lambda>(k, v) m. AList.update k v m) data merged)"

text \<open>\<open>Renderer.Render\<close>; \<open>err_text\<close> is the text of an error.\<close>

definition render_view ::
  "externals \<Rightarrow> 't template_lib \<Rightarrow> (render_error \<Rightarrow> string) \<Rightarrow> bool \<Rightarrow> dir_entry list option \<Rightarrow> ('a, 't) renderer \<Rightarrow> string \<Rightarrow>
   (string \<times> goval) list \<Rightarrow> 'a exchange \<Rightarrow> recovered option \<times> ('a, 't) renderer \<times> 'a exchange"
where
  "render_view xt lib err_text debug dir r name data x =
     (case engine_render lib debug dir name (merge_data (rd_processors r) data x) (rd_engine r) (ex_rs x) of
        (None, en, rs) \<Rightarrow> (None, r\<lparr>rd_engine := en\<rparr>, x\<lparr>ex_rs := rs\<rparr>)
      | (Some e, en, rs) \<Rightarrow>
          (let r1 = r\<lparr>rd_engine := en\<rparr>; x1 = x\<lparr>ex_rs := rs\<rparr>;
               err = (if debug then map_option TemplatePanic (parse_template_error en (err_text e)) else Some (OtherPanic (err_text e)))
           in case err of
                None \<Rightarrow> (Some (OtherPanic ''makeslice: cap out of range''), r1, x1)
              | Some v \<Rightarrow> (None, r1, on_pages (render_panic xt (method_path x1) v []) x1)))"

definition partial :: "'t template_lib \<Rightarrow> ('a, 't) renderer \<Rightarrow> string \<Rightarrow> (string \<times> goval) list \<Rightarrow> string \<times> render_error option" where
  "partial lib r name data = render_to_string lib name (fold (\<lambda>(k, v) m. AList.update k v m) data []) (rd_engine r)"

text \<open>The functions that take no argument, as \<open>RegisterAppFuncs\<close> adds them to the map of the templates.\<close>

definition register_app_funcs :: "string \<Rightarrow> string \<Rightarrow> string \<Rightarrow> string \<Rightarrow> string \<Rightarrow> (string \<times> string) list \<Rightarrow> (string \<times> string) list" where
  "register_app_funcs go_version name version env addr funcs =
     fold (\<lambda>(k, v) m. AList.update k v m)
       [(''AppName'', name), (''Version'', version), (''Env'', env), (''Addr'', addr), (''GoVersion'', go_version)] funcs"

subsection \<open>Static files\<close>

text \<open>\<open>path.Clean\<close> and \<open>filepath.Join\<close> of a system with slashes.\<close>

definition path_step :: "bool \<Rightarrow> string list \<Rightarrow> string \<Rightarrow> string list" where
  "path_step rooted st c =
     (if c = [] \<or> c = ''.'' then st
      else if c = ''..'' then
        (if st \<noteq> [] \<and> last st \<noteq> ''..'' then butlast st else if rooted then st else st @ [c])
      else st @ [c])"

definition path_parts :: "string \<Rightarrow> string list" where
  "path_parts p = foldl (path_step (has_prefix p ''/'')) [] (split_chr (CHR ''/'') p)"

definition path_clean :: "string \<Rightarrow> string" where
  "path_clean p =
     (let q = (if has_prefix p ''/'' then ''/'' else []) @ join ''/'' (path_parts p) in if q = [] then ''.'' else q)"

definition path_join :: "string list \<Rightarrow> string" where
  "path_join ps = (let qs = filter (\<lambda>p. p \<noteq> []) ps in if qs = [] then [] else path_clean (join ''/'' qs))"

datatype opened = Missing | Directory | Content string

definition no_dir_listing :: "opened \<Rightarrow> opened" where
  "no_dir_listing f = (case f of Directory \<Rightarrow> Missing | _ \<Rightarrow> f)"

definition http_dir_open :: "(string \<Rightarrow> opened) \<Rightarrow> string \<Rightarrow> string \<Rightarrow> opened" where
  "http_dir_open fs dir name = fs (path_join [dir, path_clean (''/'' @ name)])"

definition multi_static_open :: "(string \<Rightarrow> opened) \<Rightarrow> string \<Rightarrow> string \<Rightarrow> opened" where
  "multi_static_open fs apps_dir name =
     (case no_dir_listing (http_dir_open fs ''statics'' name) of
        Content b \<Rightarrow> Content b
      | _ \<Rightarrow>
          (case cut_chr (CHR ''/'') (trim_prefix name ''/'') of
             (app, sub, _) \<Rightarrow>
               if app = [] then Missing else no_dir_listing (fs (path_join [apps_dir, app, ''statics'', sub]))))"

definition dir_listing_safe_open :: "(string \<Rightarrow> opened) \<Rightarrow> string \<Rightarrow> string \<Rightarrow> opened" where
  "dir_listing_safe_open fs dir name = no_dir_listing (http_dir_open fs dir name)"

text \<open>The handlers over \<open>http.FileServer\<close>, which opens the cleaned path and answers with what it finds.\<close>

definition cached_files :: "bool \<Rightarrow> (string \<Rightarrow> opened) \<Rightarrow> (opened \<Rightarrow> response \<Rightarrow> response) \<Rightarrow> string \<Rightarrow> response \<Rightarrow> response" where
  "cached_files debug file_of answer path rs =
     answer (file_of (path_clean (''/'' @ path)))
       (header_set ''Cache-Control'' (if debug then ''no-store'' else ''public, max-age=31536000, immutable'') rs)"

definition media_handler :: "bool \<Rightarrow> (string \<Rightarrow> opened) \<Rightarrow> (opened \<Rightarrow> response \<Rightarrow> response) \<Rightarrow> string \<Rightarrow> string \<Rightarrow> response \<Rightarrow> response" where
  "media_handler debug fs answer dir = cached_files debug (dir_listing_safe_open fs dir) answer"

definition multi_static_handler :: "bool \<Rightarrow> (string \<Rightarrow> opened) \<Rightarrow> (opened \<Rightarrow> response \<Rightarrow> response) \<Rightarrow> string \<Rightarrow> string \<Rightarrow> response \<Rightarrow> response" where
  "multi_static_handler debug fs answer apps_dir = cached_files debug (multi_static_open fs apps_dir) answer"

subsection \<open>Template sets are complete\<close>

definition refers :: "sources \<Rightarrow> string \<Rightarrow> string \<Rightarrow> bool" where
  "refers srcs m n \<longleftrightarrow> (\<exists>info. map_of srcs m = Some info \<and> n \<in> set (tmpl_refs (si_content info))) \<and> map_of srcs n \<noteq> None"

abbreviation names :: "(string \<times> string) list \<Rightarrow> string set" where
  "names dst \<equiv> fst ` set dst"

lemma collect_grows: "set dst \<subseteq> set (collect srcs ns dst)"
proof (induction srcs ns dst rule: collect.induct)
  case (2 srcs n ns dst)
  show ?case
  proof (cases "n \<in> set (map fst dst)")
    case new: False
    show ?thesis
    proof (cases "map_of srcs n")
      case (Some info)
      then show ?thesis using 2(3,4)[OF new Some] new by auto
    qed (use 2(2)[OF new] new in simp)
  qed (use 2(1) in simp)
qed simp

lemma collect_sound:
  "n \<in> names (collect srcs ns dst) \<Longrightarrow> n \<in> names dst \<or> (\<exists>m\<in>set ns. map_of srcs m \<noteq> None \<and> (refers srcs)\<^sup>*\<^sup>* m n)"
proof (induction srcs ns dst rule: collect.induct)
  case (2 srcs m ns dst)
  show ?case
  proof (cases "m \<in> set (map fst dst)")
    case True
    then show ?thesis using 2(1)[OF True] 2(5) by auto
  next
    case new: False
    show ?thesis
    proof (cases "map_of srcs m")
      case None
      then show ?thesis using 2(2)[OF new None] 2(5) new by auto
    next
      case (Some info)
      let ?d = "collect srcs (tmpl_refs (si_content info)) (dst @ [(m, si_content info)])"
      have "n \<in> names (collect srcs ns ?d)" using 2(5) new Some by simp
      then consider "n \<in> names ?d" | k where "k \<in> set ns" "map_of srcs k \<noteq> None" "(refers srcs)\<^sup>*\<^sup>* k n"
        using 2(4)[OF new Some] by blast
      then show ?thesis
      proof cases
        case 1
        then consider "n \<in> names dst" | "n = m" | k where "k \<in> set (tmpl_refs (si_content info))" "map_of srcs k \<noteq> None" "(refers srcs)\<^sup>*\<^sup>* k n"
          using 2(3)[OF new Some] by auto
        then show ?thesis
        proof cases
          case 3
          then have "refers srcs m k" using Some by (simp add: refers_def)
          with 3(3) have "(refers srcs)\<^sup>*\<^sup>* m n" by (rule converse_rtranclp_into_rtranclp[rotated])
          then show ?thesis using Some by auto
        qed (use Some in auto)
      qed auto
    qed
  qed
qed simp

lemma collect_todo: "n \<in> set ns \<Longrightarrow> map_of srcs n \<noteq> None \<Longrightarrow> n \<in> names (collect srcs ns dst)"
proof (induction srcs ns dst rule: collect.induct)
  case (2 srcs m ns dst)
  note grow = collect_grows
  show ?case
  proof (cases "m \<in> set (map fst dst)")
    case True
    then show ?thesis using 2(1)[OF True] 2(5,6) grow[of dst srcs ns] by auto
  next
    case new: False
    show ?thesis
    proof (cases "map_of srcs m")
      case None
      then show ?thesis using 2(2)[OF new None] 2(5,6) new by auto
    next
      case (Some info)
      let ?d = "collect srcs (tmpl_refs (si_content info)) (dst @ [(m, si_content info)])"
      have "m \<in> names ?d" using grow[of "dst @ [(m, si_content info)]" srcs "tmpl_refs (si_content info)"] by force
      then have "m \<in> names (collect srcs ns ?d)" using grow[of ?d srcs ns] by auto
      then show ?thesis using 2(4)[OF new Some] 2(5,6) new Some by auto
    qed
  qed
qed simp

lemma collect_closed:
  "m \<in> names (collect srcs ns dst) \<Longrightarrow> m \<notin> names dst \<Longrightarrow> refers srcs m n \<Longrightarrow> n \<in> names (collect srcs ns dst)"
proof (induction srcs ns dst rule: collect.induct)
  case (2 srcs k ns dst)
  note grow = collect_grows
  show ?case
  proof (cases "k \<in> set (map fst dst)")
    case True
    then show ?thesis using 2(1)[OF True] 2(5-7) by simp
  next
    case new: False
    show ?thesis
    proof (cases "map_of srcs k")
      case None
      then show ?thesis using 2(2)[OF new None] 2(5-7) new by simp
    next
      case (Some info)
      let ?r = "tmpl_refs (si_content info)" and ?d = "collect srcs (tmpl_refs (si_content info)) (dst @ [(k, si_content info)])"
      have eq: "collect srcs (k # ns) dst = collect srcs ns ?d" using new Some by simp
      have up: "names ?d \<subseteq> names (collect srcs ns ?d)" using grow[of ?d srcs ns] by auto
      show ?thesis
      proof (cases "m \<in> names ?d")
        case False
        then show ?thesis using 2(4)[OF new Some] 2(5,7) eq by simp
      next
        case inner: True
        show ?thesis
        proof (cases "m = k")
          case True
          then have "n \<in> set ?r" "map_of srcs n \<noteq> None" using 2(7) Some by (simp_all add: refers_def)
          then show ?thesis using collect_todo[of n ?r srcs "dst @ [(k, si_content info)]"] up eq by auto
        next
          case False
          then have "n \<in> names ?d" using 2(3)[OF new Some] inner 2(6,7) by simp
          then show ?thesis using up eq by auto
        qed
      qed
    qed
  qed
qed simp

lemma collect_contents:
  "(n, c) \<in> set (collect srcs ns dst) \<Longrightarrow> (n, c) \<in> set dst \<or> (\<exists>i. map_of srcs n = Some i \<and> si_content i = c)"
proof (induction srcs ns dst rule: collect.induct)
  case (2 srcs k ns dst)
  show ?case
  proof (cases "k \<in> set (map fst dst)")
    case new: False
    show ?thesis
    proof (cases "map_of srcs k")
      case (Some info)
      then show ?thesis using 2(3,4)[OF new Some] 2(5) new by auto
    qed (use 2(2)[OF new] 2(5) new in simp)
  qed (use 2(1,5) in simp)
qed simp

lemma collect_distinct: "distinct (map fst dst) \<Longrightarrow> distinct (map fst (collect srcs ns dst))"
proof (induction srcs ns dst rule: collect.induct)
  case (2 srcs k ns dst)
  show ?case
  proof (cases "k \<in> set (map fst dst)")
    case new: False
    show ?thesis
    proof (cases "map_of srcs k")
      case (Some info)
      then show ?thesis using 2(3,4)[OF new Some] 2(5) new by auto
    qed (use 2(2)[OF new] 2(5) new in simp)
  qed (use 2(1,5) in simp)
qed simp

text \<open>What is reachable from collected names is collected.\<close>

lemma closed_reaches:
  assumes "(refers srcs)\<^sup>*\<^sup>* m n" "m \<in> X" "\<And>a b. a \<in> X \<Longrightarrow> refers srcs a b \<Longrightarrow> b \<in> X"
  shows "n \<in> X"
  using assms by (induction rule: rtranclp_induct) auto

text \<open>
  C35: A compiled set is exactly what its template needs: whatever cycles the includes have, compiling
  ends with the template, the template it extends, and every template reachable from them by references
  to files that exist, each once and with its own text, and nothing else.
\<close>

theorem template_set_complete:
  assumes "map_of srcs name = Some info"
  shows "fst ` set (collected srcs name info) =
      {m. (refers srcs)\<^sup>*\<^sup>* name m} \<union>
      {m. si_parent info \<noteq> [] \<and> map_of srcs (si_parent info) \<noteq> None \<and> (refers srcs)\<^sup>*\<^sup>* (si_parent info) m} \<and>
    distinct (map fst (collected srcs name info)) \<and>
    (\<forall>(n, c)\<in>set (collected srcs name info). \<exists>i. map_of srcs n = Some i \<and> si_content i = c)"
proof (cases "si_parent info = []")
  case True
  let ?X = "names (collect srcs [name] [])"
  have "name \<in> ?X" using assms by (intro collect_todo) simp_all
  then have "{m. (refers srcs)\<^sup>*\<^sup>* name m} \<subseteq> ?X" using closed_reaches[of srcs name _ ?X] collect_closed[of _ srcs "[name]" "[]"] by auto
  moreover have "?X \<subseteq> {m. (refers srcs)\<^sup>*\<^sup>* name m}" using collect_sound[of _ srcs "[name]" "[]"] by auto
  ultimately show ?thesis using True collect_distinct[of "[]" srcs "[name]"] collect_contents[of _ _ srcs "[name]" "[]"]
    by (auto simp: collected_def)
next
  case False
  let ?p = "si_parent info" and ?r = "tmpl_refs (si_content info)"
  let ?R1 = "collect srcs ?r [(name, si_content info)]"
  let ?R2 = "collect srcs [?p] ?R1"
  have up: "names ?R1 \<subseteq> names ?R2" by (rule image_mono[OF collect_grows])
  have name: "name \<in> names ?R1" using collect_grows[of "[(name, si_content info)]" srcs ?r] by force
  have closed1: "b \<in> names ?R1" if "a \<in> names ?R1" "refers srcs a b" for a b
  proof (cases "a = name")
    case True
    with that(2) assms have "b \<in> set ?r" "map_of srcs b \<noteq> None" by (simp_all add: refers_def)
    then show ?thesis by (rule collect_todo)
  qed (use collect_closed[OF that(1) _ that(2)] in simp)
  have closed2: "b \<in> names ?R2" if "a \<in> names ?R2" "refers srcs a b" for a b
    using collect_closed[OF that(1) _ that(2)] closed1[OF _ that(2)] up by blast
  have from_name: "{m. (refers srcs)\<^sup>*\<^sup>* name m} \<subseteq> names ?R2"
    using closed_reaches[of srcs name _ "names ?R2"] closed2 name up by blast
  have "map_of srcs ?p \<noteq> None \<Longrightarrow> ?p \<in> names ?R2" by (rule collect_todo) simp_all
  then have from_parent: "{m. map_of srcs ?p \<noteq> None \<and> (refers srcs)\<^sup>*\<^sup>* ?p m} \<subseteq> names ?R2"
    using closed_reaches[of srcs ?p _ "names ?R2"] closed2 by blast
  have R1: "(refers srcs)\<^sup>*\<^sup>* name n" if "n \<in> names ?R1" for n
  proof -
    from collect_sound[OF that] consider "n = name" | k where "k \<in> set ?r" "map_of srcs k \<noteq> None" "(refers srcs)\<^sup>*\<^sup>* k n" by auto
    then show ?thesis
    proof cases
      case 2
      then have "refers srcs name k" using assms by (simp add: refers_def)
      then show ?thesis using 2(3) by (rule converse_rtranclp_into_rtranclp)
    qed simp
  qed
  have only: "(refers srcs)\<^sup>*\<^sup>* name n \<or> (map_of srcs ?p \<noteq> None \<and> (refers srcs)\<^sup>*\<^sup>* ?p n)" if "n \<in> names ?R2" for n
    using collect_sound[OF that] R1[of n] by auto
  have dist: "distinct (map fst ?R2)" by (intro collect_distinct) simp
  have texts: "\<exists>i. map_of srcs n = Some i \<and> si_content i = c" if "(n, c) \<in> set ?R2" for n c
    using collect_contents[OF that] collect_contents[of n c srcs ?r "[(name, si_content info)]"] assms by auto
  have eq: "names ?R2 = {m. (refers srcs)\<^sup>*\<^sup>* name m} \<union> {m. map_of srcs ?p \<noteq> None \<and> (refers srcs)\<^sup>*\<^sup>* ?p m}"
  proof
    show "names ?R2 \<subseteq> {m. (refers srcs)\<^sup>*\<^sup>* name m} \<union> {m. map_of srcs ?p \<noteq> None \<and> (refers srcs)\<^sup>*\<^sup>* ?p m}"
      using only by (intro subsetI) simp
    show "{m. (refers srcs)\<^sup>*\<^sup>* name m} \<union> {m. map_of srcs ?p \<noteq> None \<and> (refers srcs)\<^sup>*\<^sup>* ?p m} \<subseteq> names ?R2"
      using from_name from_parent by (rule Un_least)
  qed
  have c: "collected srcs name info = ?R2" using False by (simp add: collected_def)
  show ?thesis unfolding c eq using dist texts False by blast
qed

text \<open>
  Inheritance has one level: what the parent itself extends plays no part in compiling a template. Of a
  chain of three only the middle one is executed, whose text is nothing but blocks.
\<close>

lemma collect_same_contents:
  "(\<And>n. map_option si_content (map_of srcs' n) = map_option si_content (map_of srcs n)) \<Longrightarrow> collect srcs' ns dst = collect srcs ns dst"
proof (induction srcs ns dst rule: collect.induct)
  case (2 srcs n ns dst)
  show ?case
  proof (cases "n \<in> set (map fst dst)")
    case new: False
    show ?thesis
    proof (cases "map_of srcs n")
      case None
      moreover have "map_of srcs' n = None" using None 2(5)[of n] by simp
      ultimately show ?thesis using 2(2)[OF new None] 2(5) new by simp
    next
      case (Some info)
      then obtain info' where "map_of srcs' n = Some info'" "si_content info' = si_content info" using 2(5)[of n] by auto
      then show ?thesis using 2(3,4)[OF new Some] 2(5) new Some by simp
    qed
  qed (use 2(1,5) in simp)
qed simp

theorem grandparent_ignored:
  assumes "map_of srcs name = Some info"
  shows "compile_template lib (map (\<lambda>(n, i). (n, if n = name then i else i\<lparr>si_parent := p n\<rparr>)) srcs) name = compile_template lib srcs name"
proof -
  let ?s = "map (\<lambda>(n, i). (n, if n = name then i else i\<lparr>si_parent := p n\<rparr>)) srcs"
  have look: "map_of ?s n = map_option (\<lambda>i. if n = name then i else i\<lparr>si_parent := p n\<rparr>) (map_of srcs n)" for n
    by (induction srcs) auto
  then have "map_option si_content (map_of ?s n) = map_option si_content (map_of srcs n)" for n
    by (cases "map_of srcs n") auto
  then have "collect ?s = collect srcs" by (intro ext collect_same_contents)
  then show ?thesis using assms by (simp add: compile_template_def collected_def look)
qed

text \<open>The scripts go right before the last closing body tag.\<close>

lemma last_find_prefix: "last_find p s = Some i \<Longrightarrow> i \<le> length s \<and> has_prefix (drop i s) p"
  by (induction s arbitrary: i) (auto split: if_splits option.splits)

lemma last_find_none: "last_find p s = None \<Longrightarrow> p \<noteq> [] \<Longrightarrow> \<not> contains s p"
  by (induction s) (auto split: if_splits option.splits)

lemma last_find_last: "last_find p s = Some i \<Longrightarrow> i < j \<Longrightarrow> j \<le> length s \<Longrightarrow> p \<noteq> [] \<Longrightarrow> \<not> has_prefix (drop j s) p"
proof (induction s arbitrary: i j)
  case (Cons c s)
  have no: "\<not> has_prefix (drop k s) p" if "last_find p s = None" "k \<le> length s" for k
    using that
  proof (induction s arbitrary: k)
    case (Cons d s)
    then show ?case by (cases k) (auto split: option.splits if_splits)
  qed (use Cons.prems(4) in auto)
  show ?case
  proof (cases "last_find p s")
    case None
    with Cons.prems have "i = 0" by (auto split: if_splits)
    then show ?thesis using Cons.prems no[OF None, of "j - 1"] by (cases j) auto
  next
    case (Some k)
    with Cons.prems have "i = Suc k" by simp
    then show ?thesis using Cons.prems Cons.IH[OF Some, of "j - 1"] by (cases j) auto
  qed
qed (simp split: if_splits)

text \<open>
  C34: A view answers completely or not at all: either the whole output of its template is sent as HTML, its
  length declared right, the scripts inserted just before the last closing body tag (nowhere if there is
  none); or the response is untouched by the template, whatever it had written before failing, and only
  the error page follows.
\<close>

theorem view_whole_or_error_page:
  assumes "render_view xt lib err_text debug dir r name data x = (p, r', x')" "rs_sent (ex_rs x) = None" "rs_body (ex_rs x) = []"
    and "d = merge_data (rd_processors r) data x"
  shows "(\<exists>ce raw pre post h. map_of (en_compiled (rd_engine r')) name = Some ce \<and>
        tl_exec lib (ce_set ce) (ce_exec_name ce) d = (raw, None) \<and> raw = pre @ post \<and>
        (if contains raw ''</body>''
         then has_prefix post ''</body>'' \<and> (\<forall>k. 0 < k \<and> k \<le> length post \<longrightarrow> \<not> has_prefix (drop k post) ''</body>'') \<and>
              rs_body (ex_rs x') = pre @ live_script_tag @ (if debug then reload_script else []) @ post
         else rs_body (ex_rs x') = raw) \<and>
        rs_sent (ex_rs x') = Some (200, h, rs_cookies (ex_rs x)) \<and> p = None \<and>
        map_of h ''Content-Length'' = Some (itoa (int (length (rs_body (ex_rs x'))))) \<and>
        map_of h ''Content-Type'' = Some ''text/html; charset=utf-8'') \<or>
     (p \<noteq> None \<and> x' = x) \<or> (\<exists>v. x' = on_pages (render_panic xt (method_path x) v []) x)"
proof -
  obtain e en rs where er: "engine_render lib debug dir name d (rd_engine r) (ex_rs x) = (e, en, rs)" by (rule prod_cases3)
  show ?thesis
  proof (cases e)
    case (Some err)
    have "rs = ex_rs x" using er Some by (auto simp: engine_render_def Let_def split: option.splits prod.splits if_splits)
    then have "x\<lparr>ex_rs := rs\<rparr> = x" by simp
    then show ?thesis using assms(1) er Some unfolding render_view_def assms(4)[symmetric]
      by (auto simp: Let_def split: option.splits if_splits)
  next
    case None
    then obtain ce raw where ce: "map_of (en_compiled en) name = Some ce" "tl_exec lib (ce_set ce) (ce_exec_name ce) d = (raw, None)"
      "rs = write_body (inject_scripts debug raw) (header_set ''Content-Length'' (itoa (int (length (inject_scripts debug raw))))
         (header_set ''Content-Type'' ''text/html; charset=utf-8'' (ex_rs x)))"
      using er by (auto simp: engine_render_def Let_def split: option.splits prod.splits if_splits)
    have x': "x' = x\<lparr>ex_rs := rs\<rparr>" "r' = r\<lparr>rd_engine := en\<rparr>" "p = None"
      using assms(1) er None unfolding render_view_def assms(4)[symmetric] by simp_all
    define i where "i = (case last_find ''</body>'' raw of Some i \<Rightarrow> i | None \<Rightarrow> 0)"
    have body: "rs_body rs = inject_scripts debug raw" using assms(2,3) by (simp add: ce(3) write_body_def write_header_def header_set_def Let_def)
    have has: "contains raw ''</body>'' \<longleftrightarrow> last_find ''</body>'' raw \<noteq> None"
    proof
      show "contains raw ''</body>'' \<Longrightarrow> last_find ''</body>'' raw \<noteq> None" using last_find_none[of "''</body>''" raw] by auto
      have "has_prefix (drop j s) q \<Longrightarrow> q \<noteq> [] \<Longrightarrow> contains s q" for j and s q :: string
        by (induction s arbitrary: j) (auto simp: drop_Cons' split: if_splits)
      then show "last_find ''</body>'' raw \<noteq> None \<Longrightarrow> contains raw ''</body>''" using last_find_prefix[of "''</body>''" raw] by auto
    qed
    have split: "if contains raw ''</body>''
         then has_prefix (drop i raw) ''</body>'' \<and> (\<forall>k. 0 < k \<and> k \<le> length (drop i raw) \<longrightarrow> \<not> has_prefix (drop k (drop i raw)) ''</body>'') \<and>
              rs_body rs = take i raw @ live_script_tag @ (if debug then reload_script else []) @ drop i raw
         else rs_body rs = raw"
    proof (cases "last_find ''</body>'' raw")
      case None
      then show ?thesis using has body by (simp add: inject_scripts_def)
    next
      case (Some j)
      then have "i = j" by (simp add: i_def)
      moreover have "\<not> has_prefix (drop (j + k) raw) ''</body>''" if "0 < k" "k \<le> length raw - j" for k
        using last_find_last[OF Some, of "j + k"] last_find_prefix[OF Some] that by simp
      ultimately show ?thesis using has body Some last_find_prefix[OF Some] by (simp add: inject_scripts_def Let_def add.commute)
    qed
    let ?h = "AList.update ''Content-Length'' (itoa (int (length (inject_scripts debug raw))))
            (AList.update ''Content-Type'' ''text/html; charset=utf-8'' (rs_headers (ex_rs x)))"
    have sent: "rs_sent rs = Some (200, ?h, rs_cookies (ex_rs x))"
      using assms(2) by (simp add: ce(3) write_body_def write_header_def header_set_def Let_def)
    have h: "map_of ?h ''Content-Length'' = Some (itoa (int (length (rs_body rs))))" "map_of ?h ''Content-Type'' = Some ''text/html; charset=utf-8''"
      by (simp_all add: body)
    have facts: "map_of (en_compiled (rd_engine r')) name = Some ce" "ex_rs x' = rs" "raw = take i raw @ drop i raw"
      using ce(1) x' by simp_all
    show ?thesis
      by (rule disjI1, rule exI[of _ ce], rule exI[of _ raw], rule exI[of _ "take i raw"], rule exI[of _ "drop i raw"], rule exI[of _ ?h])
        (use facts ce(2) split sent h x'(3) in \<open>simp only: conj_assoc simp_thms\<close>)
  qed
qed

lemma merge_lookup: "map_of (fold (\<lambda>(k, v) m. AList.update k v m) kvs m) k =
  (case map_of (rev kvs) k of Some v \<Rightarrow> Some v | None \<Rightarrow> map_of m k)"
  by (induction kvs arbitrary: m) (auto simp: map_add_def split: option.splits)

text \<open>What the view passes wins over the processors, and a later processor over an earlier one.\<close>

lemma merge_precedence:
  "map_of (merge_data (ps @ [p]) data x) k =
     (case map_of (rev data) k of Some v \<Rightarrow> Some v
      | None \<Rightarrow> (case map_of (rev (p x)) k of Some v \<Rightarrow> Some v | None \<Rightarrow> map_of (merge_data ps [] x) k))"
  by (simp add: merge_data_def merge_lookup split: option.split)

text \<open>\<open>With\<close> in every request makes the processors of the cached renderer grow without bound.\<close>

lemma with_accumulates:
  assumes "map_of (rr_cache rr) app = Some r"
  shows "map_of (rr_cache ((with_processors app ps ^^ n) rr)) app = Some (r\<lparr>rd_processors := rd_processors r @ concat (replicate n ps)\<rparr>)"
proof (induction n)
  case (Suc n)
  have "concat (replicate n ps) @ ps = ps @ concat (replicate n ps)" by (induction n) auto
  then show ?case using Suc by (simp add: with_processors_def)
qed (simp add: assms)

subsection \<open>Static files stay below their directories\<close>

definition plain_name :: "string \<Rightarrow> bool" where
  "plain_name c \<longleftrightarrow> c \<notin> {[], ''.'', ''..''} \<and> CHR ''/'' \<notin> set c"

lemma plain_steps: "list_all plain_name cs \<Longrightarrow> foldl (path_step b) st cs = st @ cs"
  by (induction cs arbitrary: st) (simp_all add: path_step_def plain_name_def)

lemma rooted_parts: "list_all plain_name (path_parts (''/'' @ p))"
proof -
  have "list_all plain_name (foldl (path_step True) st cs)"
    if "list_all plain_name st" "\<forall>c\<in>set cs. CHR ''/'' \<notin> set c" for st cs
    using that
  proof (induction cs arbitrary: st)
    case (Cons c cs)
    have "list_all plain_name (butlast st)" using Cons.prems(1) by (auto simp: list_all_iff dest: in_set_butlastD)
    moreover have "plain_name c" if "c \<noteq> []" "c \<noteq> ''.''" "c \<noteq> ''..''" using that Cons.prems by (simp add: plain_name_def)
    ultimately have "list_all plain_name (path_step True st c)" using Cons.prems(1) by (simp add: path_step_def)
    then show ?case using Cons by simp
  qed simp
  from this[of "[]" "split_chr (CHR ''/'') (''/'' @ p)"] show ?thesis using split_chr_no_sep by (simp add: path_parts_def)
qed

lemma split_plain_names: "list_all plain_name cs \<Longrightarrow> split_chr (CHR ''/'') (join ''/'' cs) = (if cs = [] then [[]] else cs)"
  using split_join_parts[of cs "CHR ''/''"] by (auto simp: plain_name_def list_all_iff)

lemma join_plain_head: "list_all plain_name (c # cs) \<Longrightarrow> join ''/'' (c # cs) \<noteq> [] \<and> \<not> has_prefix (join ''/'' (c # cs)) ''/''"
  by (cases c) (auto simp: join_Cons plain_name_def)

lemma clean_plain: "list_all plain_name (c # cs) \<Longrightarrow> path_clean (join ''/'' (c # cs)) = join ''/'' (c # cs)"
  using join_plain_head[of c cs] split_plain_names[of "c # cs"] plain_steps[of "c # cs" False "[]"]
  by (simp add: path_clean_def path_parts_def del: join.simps)

lemma open_below:
  assumes "list_all plain_name (dir @ parts)" "dir \<noteq> []"
  shows "path_join [join ''/'' dir, ''/'' @ join ''/'' parts] = join ''/'' (dir @ parts)"
proof -
  obtain d ds where d: "dir = d # ds" using assms(2) by (cases dir) auto
  have ne: "join ''/'' dir \<noteq> []" "\<not> has_prefix (join ''/'' dir) ''/''" using join_plain_head[of d ds] assms(1) d by simp_all
  have "split_chr (CHR ''/'') (join ''/'' dir @ CHR ''/'' # t) = dir @ split_chr (CHR ''/'') t" for t
    using assms
  proof (induction dir)
    case (Cons a as)
    then show ?case by (cases as) (simp_all add: split_chr_append plain_name_def)
  qed simp
  then have sp: "split_chr (CHR ''/'') (join ''/'' dir @ ''/'' @ ''/'' @ join ''/'' parts) = dir @ [] # (if parts = [] then [[]] else parts)"
    using split_plain_names[of parts] assms(1) by simp
  have "foldl (path_step False) [] (dir @ [] # (if parts = [] then [[]] else parts)) = dir @ parts"
    using assms(1) by (simp add: plain_steps path_step_def)
  moreover have "\<not> has_prefix (join ''/'' dir @ ''/'' @ ''/'' @ join ''/'' parts) ''/''" using ne by (cases "join ''/'' dir") auto
  moreover have "join ''/'' (dir @ parts) \<noteq> []" using join_plain_head[of d "ds @ parts"] assms(1) d by simp
  ultimately show ?thesis
    using ne sp by (simp add: path_join_def path_clean_def path_parts_def)
qed

text \<open>
  C32: A request for a static file, whatever its path, is answered with the content of a file below
  \<open>statics/\<close> or below the \<open>statics\<close> directory of one application, never with a directory or a file elsewhere.
\<close>

theorem static_files_confined:
  "multi_static_open fs ''apps'' (path_clean (''/'' @ path)) = Missing \<or>
   (\<exists>b parts. multi_static_open fs ''apps'' (path_clean (''/'' @ path)) = Content b \<and> list_all plain_name parts \<and>
     (fs (join ''/'' (''statics'' # parts)) = Content b \<or>
      (\<exists>app rest. parts = app # rest \<and> fs (join ''/'' ([''apps'', app, ''statics''] @ rest)) = Content b)))"
proof -
  define f where "f = multi_static_open fs ''apps'' (path_clean (''/'' @ path))"
  define parts where "parts = path_parts (''/'' @ path)"
  have parts: "list_all plain_name parts" unfolding parts_def by (rule rooted_parts)
  have name: "path_clean (''/'' @ path) = ''/'' @ join ''/'' parts" by (simp add: path_clean_def parts_def)
  have again: "path_clean (''/'' @ ''/'' @ join ''/'' parts) = ''/'' @ join ''/'' parts"
    using split_plain_names[OF parts] plain_steps[OF parts, of True "[]"] by (simp add: path_clean_def path_parts_def path_step_def)
  have pl: "plain_name ''statics''" "plain_name ''apps''" by code_simp+
  have dir: "http_dir_open fs ''statics'' (''/'' @ join ''/'' parts) = fs (join ''/'' (''statics'' # parts))"
    using open_below[of "[''statics'']" parts] parts pl unfolding http_dir_open_def again by simp
  have nd: "no_dir_listing g = Missing \<or> (\<exists>b. no_dir_listing g = Content b \<and> g = Content b)" for g by (cases g) (simp_all add: no_dir_listing_def)
  have "f = Missing \<or> (\<exists>b parts. f = Content b \<and> list_all plain_name parts \<and>
     (fs (join ''/'' (''statics'' # parts)) = Content b \<or>
      (\<exists>app rest. parts = app # rest \<and> fs (join ''/'' ([''apps'', app, ''statics''] @ rest)) = Content b)))"
  proof (cases "no_dir_listing (fs (join ''/'' (''statics'' # parts)))")
    case (Content b)
    then have "f = Content b" using f_def[unfolded name] unfolding multi_static_open_def dir by simp
    moreover have "fs (join ''/'' (''statics'' # parts)) = Content b" using nd[of "fs (join ''/'' (''statics'' # parts))"] Content by auto
    ultimately show ?thesis using parts by blast
  next
    case other: Missing
    have f: "f = (case cut_chr (CHR ''/'') (join ''/'' parts) of
             (app, sub, _) \<Rightarrow> if app = [] then Missing else no_dir_listing (fs (path_join [''apps'', app, ''statics'', sub])))"
      using f_def[unfolded name] other unfolding multi_static_open_def dir by (simp add: trim_prefix_def)
    show ?thesis
    proof (cases parts)
      case Nil
      then show ?thesis using f by (simp add: cut_chr_def)
    next
      case (Cons app rest)
      have app: "plain_name app" "list_all plain_name rest" "CHR ''/'' \<notin> set app" using parts Cons by (simp_all add: plain_name_def)
      have cut: "\<exists>b. cut_chr (CHR ''/'') (join ''/'' parts) = (app, join ''/'' rest, b)"
      proof (cases rest)
        case Nil
        then show ?thesis using cut_chr_absent[OF app(3)] Cons by (intro exI[of _ False]) simp
      next
        case (Cons r rs)
        then show ?thesis using cut_chr_append[OF app(3), of "join ''/'' rest"] \<open>parts = app # rest\<close> by (intro exI[of _ True]) simp
      qed
      have "filter (\<lambda>p. p \<noteq> []) [''apps'', app, ''statics'', join ''/'' rest] = [''apps'', app, ''statics''] @ (if join ''/'' rest = [] then [] else [join ''/'' rest])"
        using app(1) by (simp add: plain_name_def)
      moreover have "join ''/'' ([''apps'', app, ''statics''] @ (if join ''/'' rest = [] then [] else [join ''/'' rest])) = join ''/'' ([''apps'', app, ''statics''] @ rest)"
        using join_plain_head app(2) by (cases rest) (auto simp: join_Cons)
      ultimately have "path_join [''apps'', app, ''statics'', join ''/'' rest] = path_clean (join ''/'' ([''apps'', app, ''statics''] @ rest))"
        by (simp only: path_join_def Let_def) simp
      also have "\<dots> = join ''/'' ([''apps'', app, ''statics''] @ rest)" using clean_plain[of "''apps''" "[app, ''statics''] @ rest"] app pl by simp
      finally have "f = no_dir_listing (fs (join ''/'' ([''apps'', app, ''statics''] @ rest)))"
        using f cut app(1) by (auto simp: plain_name_def)
      then show ?thesis using nd[of "fs (join ''/'' ([''apps'', app, ''statics''] @ rest))"] parts Cons by metis
    qed
  next
    case Directory
    then show ?thesis using nd by (metis opened.distinct(1,5))
  qed
  then show ?thesis unfolding f_def .
qed

subsection \<open>Examples\<close>

text \<open>A page that extends a layout, a partial it includes, and the layout, which includes the partial too.\<close>

definition demo_entry :: "string \<Rightarrow> string \<Rightarrow> dir_entry" where
  "demo_entry name t = \<lparr>de_name = name, de_error = None, de_is_dir = False, de_inside = True, de_text = Some t\<rparr>"

definition demo_dir :: "dir_entry list" where
  "demo_dir =
     [demo_entry ''base.html'' (''<body>{% block '' @ dq @ ''c'' @ dq @ '' %}{% endblock %}{% include '' @ dq @ ''nav.html'' @ dq @ '' %}</body>''),
      demo_entry ''nav.html'' (''nav {% include '' @ dq @ ''nav.html'' @ dq @ '' %}''),
      demo_entry ''page.html'' (''{% extends '' @ dq @ ''base.html'' @ dq @ '' %}{% block '' @ dq @ ''c'' @ dq @ '' %}hi{% endblock %}'')]"

definition demo_sources :: sources where
  "demo_sources = (case read_sources demo_dir [] of Inr srcs \<Rightarrow> srcs | Inl _ \<Rightarrow> [])"

theorem template_set_complete_witness:
  "''nav.html'' \<in> {m. (refers demo_sources)\<^sup>*\<^sup>* ''base.html'' m} \<and>
   fst ` set (collected demo_sources ''nav.html'' (the (map_of demo_sources ''nav.html''))) = {m. (refers demo_sources)\<^sup>*\<^sup>* ''nav.html'' m}"
proof -
  let ?b = "the (map_of demo_sources ''base.html'')" and ?n = "the (map_of demo_sources ''nav.html'')"
  have e: "map_of demo_sources ''base.html'' = Some ?b" "map_of demo_sources ''nav.html'' = Some ?n"
      "si_parent ?b = []" "si_parent ?n = []" "map fst (collected demo_sources ''base.html'' ?b) = [''base.html'', ''nav.html'']"
    by code_simp+
  then have "''nav.html'' \<in> set (map fst (collected demo_sources ''base.html'' ?b))" by simp
  with template_set_complete[OF e(1)] template_set_complete[OF e(2)] e(3,4) show ?thesis by simp
qed

definition demo_lib :: "string template_lib" where
  "demo_lib = \<lparr>tl_parse = (\<lambda>n srcs. Inr (the (map_of srcs n))), tl_exec = (\<lambda>t n d. (t, None)), tl_order = (\<lambda>xs. xs)\<rparr>"

theorem grandparent_ignored_witness:
  "compile_template demo_lib (map (\<lambda>(n, i). (n, if n = ''page.html'' then i else i\<lparr>si_parent := ''root.html''\<rparr>)) demo_sources) ''page.html'' =
   compile_template demo_lib demo_sources ''page.html''"
proof -
  have "map_of demo_sources ''page.html'' = Some (the (map_of demo_sources ''page.html''))" by code_simp
  then show ?thesis by (rule grandparent_ignored[where p = "\<lambda>_. ''root.html''"])
qed

definition demo_renderer :: "(unit, string) renderer" where
  "demo_renderer = \<lparr>rd_engine = \<lparr>en_sources = [], en_compiled = [(''hi'', \<lparr>ce_set = ''<body>hi</body>'', ce_exec_name = ''hi''\<rparr>)]\<rparr>,
     rd_processors = []\<rparr>"

theorem view_whole_or_error_page_witness:
  "\<exists>r' x' pre post. render_view toy_externals demo_lib (\<lambda>_. ''bad'') False None demo_renderer ''hi'' [] toy_get = (None, r', x') \<and>
     ''<body>hi</body>'' = pre @ post \<and> has_prefix post ''</body>'' \<and> rs_body (ex_rs x') = pre @ live_script_tag @ post"
proof -
  obtain p r' x' where e: "render_view toy_externals demo_lib (\<lambda>_. ''bad'') False None demo_renderer ''hi'' [] toy_get = (p, r', x')"
    by (rule prod_cases3)
  have g: "rs_sent (ex_rs toy_get) = None" "rs_body (ex_rs toy_get) = []" by (simp_all add: toy_get_def toy_exchange_def new_response_def)
  have p: "p = None" "x' \<noteq> toy_get" "en_compiled (rd_engine r') = en_compiled (rd_engine demo_renderer)" "fst (the (rs_sent (ex_rs x'))) = 200"
    using e by (auto simp: render_view_def engine_render_def demo_renderer_def demo_lib_def toy_get_def toy_exchange_def new_response_def write_body_def write_header_def header_set_def Let_def)
  have c: "contains ''<body>hi</body>'' ''</body>''" by code_simp
  have n: "x' \<noteq> on_pages (render_panic toy_externals (method_path toy_get) v []) toy_get" for v
  proof -
    have "fst (the (rs_sent (ex_rs (on_pages (render_panic toy_externals (method_path toy_get) v []) toy_get)))) = 500"
      by (auto simp: on_pages_def render_panic_def render_default_def toy_defs new_error_pages_def new_response_def http_error_def
          write_body_def write_header_def header_set_def header_del_def Let_def split: option.splits prod.splits)
    then show ?thesis using p(4) by auto
  qed
  from view_whole_or_error_page[OF e g refl] p n c
  show ?thesis using e by (auto simp: demo_renderer_def demo_lib_def)
qed

end
