(* ===== verification/Cli.thy ===== *)
theory Cli
  imports Templates Environment
begin

text \<open>
  The command line: \<open>core/cli/createuser.go\<close> (accounts typed in at the terminal) and
  \<open>core/cli/main.go\<close> (dispatch, \<open>startapp\<close>, \<open>removeapp\<close> and the generated \<open>core/apps/installed.go\<close>).
  The terminal is the bytes still to be read and the list of the answers to \<open>term.ReadPassword\<close>; the
  database, Argon2 and the calls of the file system that can fail are parameters.
\<close>

declare map_of_eq_Some_iff [simp del] AList.update_conv' [simp]

subsection \<open>Prompts\<close>

text \<open>\<open>cuReadLine\<close>: \<open>None\<close> when the input ends before a newline.\<close>

definition cu_read_line :: "string \<Rightarrow> string option \<times> string" where
  "cu_read_line inp =
     (case cut_chr (CHR 0x0A) inp of (line, rest, found) \<Rightarrow> if found then (Some (trim_space line), rest) else (None, []))"

lemma cu_read_line_less: "cu_read_line inp = (Some v, rest) \<Longrightarrow> length rest < length inp"
  by (auto simp: cu_read_line_def split: prod.splits if_splits dest!: cut_chr_found)

function cu_prompt :: "string \<Rightarrow> string option \<times> string" where
  "cu_prompt inp =
     (case cu_read_line inp of
        (None, rest) \<Rightarrow> (None, rest)
      | (Some v, rest) \<Rightarrow> if v \<noteq> [] then (Some v, rest) else cu_prompt rest)"
  by auto
termination by (relation "measure length") (auto dest: sym[THEN cu_read_line_less])

declare cu_prompt.simps [simp del]

definition cu_prompt_bool :: "string \<Rightarrow> bool option \<times> string" where
  "cu_prompt_bool inp =
     (case cu_read_line inp of
        (None, rest) \<Rightarrow> (None, rest)
      | (Some v, rest) \<Rightarrow> (Some (to_lower v = ''s''), rest))"

text \<open>\<open>cuPromptPassword\<close>: both entries equal, and eight bytes once trimmed; else it asks again.\<close>

fun cu_prompt_password :: "string option list \<Rightarrow> string option" where
  "cu_prompt_password (Some p1 # Some p2 # answers) =
     (if p1 \<noteq> p2 then cu_prompt_password answers
      else if length (trim_space p1) < 8 then cu_prompt_password answers
      else Some (trim_space p1))"
| "cu_prompt_password _ = None"

subsection \<open>Creating an account\<close>

datatype account_error =
    DbDisabled | NoDsn | NoConnection | InputEnded | CheckFailed string | InUse string string
  | NoPassword | NotHashed | HashPanic | NotCreated

definition cu_check_unique :: "(string \<Rightarrow> string \<Rightarrow> int option) \<Rightarrow> string \<Rightarrow> string \<Rightarrow> account_error option" where
  "cu_check_unique used col v =
     (case used col v of
        None \<Rightarrow> Some (CheckFailed col)
      | Some n \<Rightarrow> if n > 0 then Some (InUse col v) else None)"

text \<open>A required and an optional name, each checked in the column it goes to.\<close>

definition cu_required :: "(string \<Rightarrow> string \<Rightarrow> int option) \<Rightarrow> string \<Rightarrow> string \<Rightarrow> account_error + string \<times> string" where
  "cu_required used col inp =
     (case cu_prompt inp of
        (None, _) \<Rightarrow> Inl InputEnded
      | (Some v, rest) \<Rightarrow> (case cu_check_unique used col v of Some e \<Rightarrow> Inl e | None \<Rightarrow> Inr (v, rest)))"

definition cu_optional :: "(string \<Rightarrow> string \<Rightarrow> int option) \<Rightarrow> string \<Rightarrow> string \<Rightarrow> account_error + string \<times> string" where
  "cu_optional used col inp =
     (case cu_read_line inp of
        (None, _) \<Rightarrow> Inl InputEnded
      | (Some v, rest) \<Rightarrow>
          if v = [] then Inr (v, rest)
          else (case cu_check_unique used col v of Some e \<Rightarrow> Inl e | None \<Rightarrow> Inr (v, rest)))"

text \<open>The user name and e-mail; the field that carries the tag \<open>login\<close> is the required one.\<close>

definition cu_names :: "string \<Rightarrow> (string \<Rightarrow> string \<Rightarrow> int option) \<Rightarrow> string \<Rightarrow> account_error + string \<times> string \<times> string" where
  "cu_names login_field used inp =
     (if login_field = ''Email'' then
        (case cu_required used ''email'' inp of
           Inl e \<Rightarrow> Inl e
         | Inr (email, r1) \<Rightarrow>
             (case cu_optional used ''username'' r1 of Inl e \<Rightarrow> Inl e | Inr (username, r2) \<Rightarrow> Inr (username, email, r2)))
      else
        (case cu_required used ''username'' inp of
           Inl e \<Rightarrow> Inl e
         | Inr (username, r1) \<Rightarrow>
             (case cu_optional used ''email'' r1 of Inl e \<Rightarrow> Inl e | Inr (email, r2) \<Rightarrow> Inr (username, email, r2))))"

definition cu_name :: "string \<Rightarrow> account_error + string \<times> string" where
  "cu_name inp = (case cu_read_line inp of (None, _) \<Rightarrow> Inl InputEnded | (Some v, r) \<Rightarrow> Inr (v, r))"

definition cu_staff :: "bool \<Rightarrow> bool \<Rightarrow> string \<Rightarrow> account_error + bool" where
  "cu_staff is_admin is_staff inp =
     (if is_admin then Inr is_staff
      else (case cu_prompt_bool inp of (None, _) \<Rightarrow> Inl InputEnded | (Some b, _) \<Rightarrow> Inr b))"

text \<open>
  What happens outside: \<open>ow_count\<close> the counts of \<open>cuCheckUnique\<close>, \<open>ow_hash\<close> the result of \<open>SetPassword\<close>
  (the outer \<open>None\<close> a panic), \<open>ow_create\<close> the identifier \<open>orm.Create\<close> gives.
\<close>

record outside_world =
  ow_open :: "string \<Rightarrow> string \<Rightarrow> bool"
  ow_count :: "string \<Rightarrow> string \<Rightarrow> int option"
  ow_hash :: "string \<Rightarrow> user \<Rightarrow> user option option"
  ow_create :: "user \<Rightarrow> int option"
  ow_random :: "8 word list"
  ow_now :: time

definition new_account :: "outside_world \<Rightarrow> bool \<Rightarrow> bool \<Rightarrow> string \<Rightarrow> string \<Rightarrow> string \<Rightarrow> string \<Rightarrow> user" where
  "new_account w is_admin is_staff username email first_name last_name =
     \<lparr>us_id = 0, us_uuid = generate_uuid (ow_random w), us_first_name = first_name, us_last_name = last_name,
      us_username = username, us_email = (if email \<noteq> [] then Some email else None), us_password = [], us_group = [],
      us_is_admin = is_admin, us_is_staff = is_staff, us_is_active = True, us_created_at = ow_now w, us_updated_at = ow_now w\<rparr>"

definition store_account :: "outside_world \<Rightarrow> string \<Rightarrow> user \<Rightarrow> account_error + user" where
  "store_account w password u =
     (case ow_hash w password u of
        None \<Rightarrow> Inl HashPanic
      | Some None \<Rightarrow> Inl NotHashed
      | Some (Some h) \<Rightarrow> (case ow_create w h of None \<Rightarrow> Inl NotCreated | Some i \<Rightarrow> Inr (h\<lparr>us_id := i\<rparr>)))"

definition ask_account ::
  "outside_world \<Rightarrow> string \<Rightarrow> bool \<Rightarrow> bool \<Rightarrow> string \<Rightarrow> string option list \<Rightarrow> account_error + user"
where
  "ask_account w login_field is_admin is_staff0 inp answers =
     (case cu_names login_field (ow_count w) inp of
        Inl e \<Rightarrow> Inl e
      | Inr (username, email, r) \<Rightarrow>
          (case cu_name r of
             Inl e \<Rightarrow> Inl e
           | Inr (first_name, r1) \<Rightarrow>
               (case cu_name r1 of
                  Inl e \<Rightarrow> Inl e
                | Inr (last_name, r2) \<Rightarrow>
                    (case cu_staff is_admin is_staff0 r2 of
                       Inl e \<Rightarrow> Inl e
                     | Inr is_staff \<Rightarrow>
                         (case cu_prompt_password answers of
                            None \<Rightarrow> Inl NoPassword
                          | Some password \<Rightarrow>
                              store_account w password (new_account w is_admin is_staff username email first_name last_name))))))"

definition create_user_cli ::
  "outside_world \<Rightarrow> (string \<Rightarrow> string) \<Rightarrow> environment \<Rightarrow> bool \<Rightarrow> bool \<Rightarrow> string \<Rightarrow> string option list \<Rightarrow> account_error + user"
where
  "create_user_cli w getenv en is_admin is_staff inp answers =
     (let dsn = env_get getenv en ''DB_DSN''
      in if env_get_or getenv en ''DB_ENABLED'' ''false'' \<noteq> ''true'' then Inl DbDisabled
         else if dsn = [] then Inl NoDsn
         else if \<not> ow_open w (env_get_or getenv en ''DB_DRIVER'' ''postgres'') dsn then Inl NoConnection
         else ask_account w (detect_login_field_name user_fields) is_admin is_staff inp answers)"

definition run_create_superuser ::
  "outside_world \<Rightarrow> (string \<Rightarrow> string) \<Rightarrow> environment \<Rightarrow> string \<Rightarrow> string option list \<Rightarrow> account_error + user"
where
  "run_create_superuser w getenv en inp answers = create_user_cli w getenv en True True inp answers"

definition run_create_user ::
  "outside_world \<Rightarrow> (string \<Rightarrow> string) \<Rightarrow> environment \<Rightarrow> string \<Rightarrow> string option list \<Rightarrow> account_error + user"
where
  "run_create_user w getenv en inp answers = create_user_cli w getenv en False False inp answers"

text \<open>\<open>runMigrate\<close>: the same checks, then \<open>migrate.Run\<close> (\<open>apply\<close>) on the connection.\<close>

definition run_migrate ::
  "(string \<Rightarrow> string \<Rightarrow> 'd option) \<Rightarrow> ('d \<Rightarrow> string \<Rightarrow> 'r) \<Rightarrow> (string \<Rightarrow> string) \<Rightarrow> environment \<Rightarrow> account_error + 'r"
where
  "run_migrate connect apply_all getenv en =
     (let dsn = env_get getenv en ''DB_DSN''
      in if env_get_or getenv en ''DB_ENABLED'' ''false'' \<noteq> ''true'' then Inl DbDisabled
         else if dsn = [] then Inl NoDsn
         else (case connect (env_get_or getenv en ''DB_DRIVER'' ''postgres'') dsn of
                 None \<Rightarrow> Inl NoConnection
               | Some db \<Rightarrow> Inr (apply_all db ''database/migrations'')))"

subsection \<open>An account that was created can log in\<close>

lemma cu_prompt_nonempty: "cu_prompt inp = (Some v, rest) \<Longrightarrow> v \<noteq> [] \<and> trim_space v = v"
proof (induction inp rule: cu_prompt.induct)
  case (1 inp)
  show ?case
  proof (cases "cu_read_line inp")
    case (Pair a r)
    then consider x where "a = Some x" "x \<noteq> []" | "a = Some []" | "a = None" by (cases a) auto
    then show ?thesis
    proof cases
      case 1
      with Pair have "trim_space x = x" by (auto simp: cu_read_line_def split: prod.splits if_splits)
      with 1 Pair "1.prems" show ?thesis by (subst (asm) cu_prompt.simps) simp
    next
      case 2
      with Pair "1.prems" have "cu_prompt r = (Some v, rest)" by (subst (asm) cu_prompt.simps) simp
      then show ?thesis using "1.IH"[OF Pair[symmetric]] 2 by simp
    next
      case 3
      with Pair "1.prems" show ?thesis by (subst (asm) cu_prompt.simps) simp
    qed
  qed
qed

lemma cu_prompt_password_ok: "cu_prompt_password answers = Some p \<Longrightarrow>
  8 \<le> length p \<and> trim_space p = p \<and> (\<exists>typed. Some typed \<in> set answers \<and> p = trim_space typed)"
  by (induction answers rule: cu_prompt_password.induct) (auto split: if_splits)

lemma cu_check_unique_None: "cu_check_unique used col v = None \<longleftrightarrow> (\<exists>n. used col v = Some n \<and> n \<le> 0)"
  by (auto simp: cu_check_unique_def split: option.splits)

lemma cu_requiredD: "cu_required used col inp = Inr (v, rest) \<Longrightarrow> v \<noteq> [] \<and> (\<exists>n. used col v = Some n \<and> n \<le> 0)"
  by (auto simp: cu_required_def cu_check_unique_None dest: cu_prompt_nonempty split: prod.splits option.splits)

lemma cu_optionalD: "cu_optional used col inp = Inr (v, rest) \<Longrightarrow> v = [] \<or> (\<exists>n. used col v = Some n \<and> n \<le> 0)"
  by (auto simp: cu_optional_def cu_check_unique_None split: prod.splits option.splits if_splits)

text \<open>The login field of the model as it is: the user name.\<close>

lemma login_field: "detect_login_field_name user_fields = ''Username''" by code_simp

lemma cu_namesD: "cu_names ''Username'' used inp = Inr (username, email, rest) \<Longrightarrow>
  username \<noteq> [] \<and> (\<exists>n. used ''username'' username = Some n \<and> n \<le> 0) \<and> (email = [] \<or> (\<exists>n. used ''email'' email = Some n \<and> n \<le> 0))"
  by (simp add: cu_names_def split: sum.splits prod.splits) (metis cu_requiredD cu_optionalD)

lemma ask_accountD:
  assumes "ask_account w ''Username'' is_admin is_staff0 inp answers = Inr u"
  obtains p username email first_name last_name is_staff h i where
    "cu_prompt_password answers = Some p" "username \<noteq> []" "\<exists>n. ow_count w ''username'' username = Some n \<and> n \<le> 0"
    "email = [] \<or> (\<exists>n. ow_count w ''email'' email = Some n \<and> n \<le> 0)" "is_admin \<Longrightarrow> is_staff = is_staff0"
    "ow_hash w p (new_account w is_admin is_staff username email first_name last_name) = Some (Some h)"
    "ow_create w h = Some i" "u = h\<lparr>us_id := i\<rparr>"
proof -
  from assms obtain username email r first_name r1 last_name r2 is_staff p where
      n: "cu_names ''Username'' (ow_count w) inp = Inr (username, email, r)"
      "cu_staff is_admin is_staff0 r2 = Inr is_staff" "cu_prompt_password answers = Some p"
      "store_account w p (new_account w is_admin is_staff username email first_name last_name) = Inr u"
    by (auto simp: ask_account_def split: sum.splits option.splits)
  from n(4) obtain h i where h: "ow_hash w p (new_account w is_admin is_staff username email first_name last_name) = Some (Some h)"
      "ow_create w h = Some i" "u = h\<lparr>us_id := i\<rparr>"
    by (auto simp: store_account_def split: option.splits)
  have "is_admin \<Longrightarrow> is_staff = is_staff0" using n(2) by (simp add: cu_staff_def)
  with cu_namesD[OF n(1)] n(3) h that show thesis by blast
qed

lemma login_accepts:
  assumes "find_user v = Some u" "check pw u = Some True" "us_is_active u"
  shows "fst (login True secure find_user check now now2 rnd r v pw th st) \<notin>
    {LoginPanic, LoginFailed UserNotFound, LoginFailed InactiveUser, LoginFailed WrongPassword}"
proof -
  obtain b th1 where b: "throttle_blocked now (throttle_key v r) th = (b, th1)" by fastforce
  obtain x st2 where n: "new_session [] rnd now2 (case from_request secure (lr_cookies r) st now2 of
      Some old \<Rightarrow> session_delete (ss_id old) st | None \<Rightarrow> st) = (x, st2)" by fastforce
  show ?thesis using assms n by (cases b; cases x) (simp_all add: login_def b Let_def)
qed

text \<open>
  An account made at the terminal is one somebody can log in with: its name is not empty and was
  free, so was its e-mail, it is active, it is administrator only for \<open>createsuperuser\<close>, which makes it
  staff too; the password kept is the typed one without the spaces around it, at least eight bytes
  long, and with it (and, Argon2 telling them apart, with no other) a login is refused neither as
  unknown, nor as inactive, nor for the password.
\<close>

theorem cli_account_logs_in:
  assumes "create_user_cli w getenv en is_admin is_staff inp answers = Inr u"
    and "ow_hash w = user_set_password argon pepper (Some salt)"
    and len: "\<And>p h. argon p salt 3 65536 4 32 = Some h \<Longrightarrow> length h = 32"
    and "find_user (us_username u) = Some u"
  shows "\<exists>p. cu_prompt_password answers = Some p \<and> 8 \<le> length p \<and> trim_space p = p \<and>
    us_username u \<noteq> [] \<and> (\<exists>n. ow_count w ''username'' (us_username u) = Some n \<and> n \<le> 0) \<and>
    (\<forall>e. us_email u = Some e \<longrightarrow> (\<exists>n. ow_count w ''email'' e = Some n \<and> n \<le> 0)) \<and>
    us_is_active u \<and> us_is_admin u = is_admin \<and> (is_admin \<longrightarrow> us_is_staff u = is_staff) \<and>
    fst (login True secure find_user (user_check_password argon pepper) now now2 rnd r (us_username u) p th st) \<notin>
      {LoginPanic, LoginFailed UserNotFound, LoginFailed InactiveUser, LoginFailed WrongPassword} \<and>
    (\<forall>q. argon (q @ pepper) salt 3 65536 4 32 \<noteq> argon (p @ pepper) salt 3 65536 4 32 \<longrightarrow>
       user_check_password argon pepper q u \<noteq> Some True)"
proof -
  have ask: "ask_account w ''Username'' is_admin is_staff inp answers = Inr u"
    using assms(1) by (simp add: create_user_cli_def login_field Let_def split: if_splits)
  from ask obtain p username email first_name last_name staff h i where
      a: "cu_prompt_password answers = Some p" "username \<noteq> []" "\<exists>n. ow_count w ''username'' username = Some n \<and> n \<le> 0"
      "email = [] \<or> (\<exists>n. ow_count w ''email'' email = Some n \<and> n \<le> 0)" "is_admin \<Longrightarrow> staff = is_staff"
      "ow_hash w p (new_account w is_admin staff username email first_name last_name) = Some (Some h)" "u = h\<lparr>us_id := i\<rparr>"
    by (rule ask_accountD) blast
  let ?n = "new_account w is_admin staff username email first_name last_name"
  from a(6) obtain e where e: "hash_password argon pepper (Some salt) p = Some (Some e)" "h = ?n\<lparr>us_password := e\<rparr>"
    by (auto simp: assms(2) user_set_password_def)
  have u: "us_username u = username" "us_password u = e" "us_is_active u" "us_is_admin u = is_admin" "us_is_staff u = staff"
      "us_email u = (if email \<noteq> [] then Some email else None)"
    by (simp_all add: a(7) e(2) new_account_def)
  obtain k where "argon (p @ pepper) salt 3 65536 4 32 = Some k \<and> check_password argon pepper p e = Some True \<and>
      (\<forall>q. check_password argon pepper q e = map_option (\<lambda>x. x = k) (argon (q @ pepper) salt 3 65536 4 32))"
    using hash_password_roundtrip[OF e(1) len] by (rule exE)
  then have k: "argon (p @ pepper) salt 3 65536 4 32 = Some k" "check_password argon pepper p e = Some True"
      "\<And>q. check_password argon pepper q e = map_option (\<lambda>x. x = k) (argon (q @ pepper) salt 3 65536 4 32)" by simp_all
  have l: "fst (login True secure find_user (user_check_password argon pepper) now now2 rnd r (us_username u) p th st) \<notin>
      {LoginPanic, LoginFailed UserNotFound, LoginFailed InactiveUser, LoginFailed WrongPassword}"
    using assms(4) k(2) u(2,3) by (intro login_accepts[of _ _ u]) (simp_all add: user_check_password_def)
  have q: "\<forall>q. argon (q @ pepper) salt 3 65536 4 32 \<noteq> argon (p @ pepper) salt 3 65536 4 32 \<longrightarrow>
      user_check_password argon pepper q u \<noteq> Some True"
    using k(1) by (auto simp: user_check_password_def u(2) k(3))
  have m: "\<forall>e. us_email u = Some e \<longrightarrow> (\<exists>n. ow_count w ''email'' e = Some n \<and> n \<le> 0)" using a(4) by (auto simp: u(6) split: if_splits)
  have n: "us_username u \<noteq> []" "\<exists>n. ow_count w ''username'' (us_username u) = Some n \<and> n \<le> 0" using a(2,3) by (simp_all add: u(1))
  have f: "is_admin \<longrightarrow> us_is_staff u = is_staff" using a(5) by (simp add: u(5))
  have g: "8 \<le> length p" "trim_space p = p" using cu_prompt_password_ok[OF a(1)] by simp_all
  show ?thesis by (intro exI[of _ p] conjI a(1) g n m u(3,4) f l q)
qed

subsection \<open>The list of installed applications\<close>

definition app_import :: string where "app_import = ''_ '' @ dq @ ''kyrux/apps/''"

text \<open>\<open>parseInstalledApps\<close>; an unreadable file (\<open>None\<close>) counts as one without applications.\<close>

definition parse_installed :: "string option \<Rightarrow> string list" where
  "parse_installed content =
     (case content of
        None \<Rightarrow> []
      | Some t \<Rightarrow>
          filter (\<lambda>n. n \<noteq> [])
            (map (\<lambda>line. trim_suffix (trim_prefix line app_import) dq)
               (filter (\<lambda>line. has_prefix line app_import) (map trim_space (split_chr (CHR 0x0A) t)))))"

text \<open>\<open>writeInstalledFile\<close>, line by line.\<close>

definition installed_lines :: "string list \<Rightarrow> string list" where
  "installed_lines apps =
     (if apps = [] then [''package apps'', []]
      else [''package apps'', [], ''import ('', CHR 0x09 # dq @ ''kyrux/core/settings'' @ dq, []]
           @ map (\<lambda>a. CHR 0x09 # app_import @ a @ dq) apps
           @ ['')'', [], ''func init() {'', CHR 0x09 # ''settings.InstalledApps = []string{'']
           @ map (\<lambda>a. CHR 0x09 # CHR 0x09 # dq @ a @ dq @ '','') apps
           @ [CHR 0x09 # ''}'', ''}'', []])"

definition installed_text :: "string list \<Rightarrow> string" where
  "installed_text apps = join [CHR 0x0A] (installed_lines apps)"

subsection \<open>Making and removing an application\<close>

text \<open>
  The file system: the directories that were made and the files by path; the directories above a path
  exist with it. A call may fail; then nothing changed.
\<close>

record cli_fs =
  cf_dirs :: "string list"
  cf_files :: "(string \<times> string) list"

definition installed_file :: string where "installed_file = ''core/apps/installed.go''"

definition below :: "string \<Rightarrow> string \<Rightarrow> bool" where
  "below dir p \<longleftrightarrow> p = dir \<or> has_prefix p (dir @ ''/'')"

definition path_exists :: "string \<Rightarrow> cli_fs \<Rightarrow> bool" where
  "path_exists p fs \<longleftrightarrow> list_ex (below p) (cf_dirs fs @ map fst (cf_files fs))"

datatype cli_error =
    AppExists string | MkdirFailed string | WriteFailed string | NoSuchApp string | RemoveFailed string | NotInstalled

fun mkdirs :: "(string \<Rightarrow> bool) \<Rightarrow> string list \<Rightarrow> cli_fs \<Rightarrow> cli_error option \<times> cli_fs" where
  "mkdirs ok [] fs = (None, fs)"
| "mkdirs ok (d # ds) fs =
     (if \<not> ok d then (Some (MkdirFailed d), fs) else mkdirs ok ds (fs\<lparr>cf_dirs := List.insert d (cf_dirs fs)\<rparr>))"

definition write_file :: "string \<Rightarrow> string \<Rightarrow> cli_fs \<Rightarrow> cli_fs" where
  "write_file p t fs = fs\<lparr>cf_files := AList.update p t (cf_files fs)\<rparr>"

fun write_files :: "(string \<Rightarrow> bool) \<Rightarrow> (string \<times> string) list \<Rightarrow> cli_fs \<Rightarrow> cli_error option \<times> cli_fs" where
  "write_files ok [] fs = (None, fs)"
| "write_files ok ((p, t) # rest) fs =
     (if \<not> ok p then (Some (WriteFailed p), fs) else write_files ok rest (write_file p t fs))"

definition write_installed :: "(string \<Rightarrow> bool) \<Rightarrow> string list \<Rightarrow> cli_fs \<Rightarrow> cli_error option \<times> cli_fs" where
  "write_installed ok apps fs =
     (if ok installed_file then (None, write_file installed_file (installed_text apps) fs) else (Some NotInstalled, fs))"

definition installed_apps :: "cli_fs \<Rightarrow> string list" where
  "installed_apps fs = parse_installed (map_of (cf_files fs) installed_file)"

definition add_to_installed :: "(string \<Rightarrow> bool) \<Rightarrow> string \<Rightarrow> cli_fs \<Rightarrow> cli_error option \<times> cli_fs" where
  "add_to_installed ok name fs = write_installed ok (installed_apps fs @ [name]) fs"

definition remove_from_installed :: "(string \<Rightarrow> bool) \<Rightarrow> string \<Rightarrow> cli_fs \<Rightarrow> cli_error option \<times> cli_fs" where
  "remove_from_installed ok name fs = write_installed ok (filter (\<lambda>a. a \<noteq> name) (installed_apps fs)) fs"

text \<open>The generated files; the view, the style sheet and the page (\<open>viewsTpl\<close>, \<open>cssTpl\<close>, \<open>templateTpl\<close>) are arguments.\<close>

definition code_lines :: "string list \<Rightarrow> string" where
  "code_lines ls = join [CHR 0x0A] (map (map (\<lambda>c. if c = CHR ''~'' then CHR 0x22 else if c = CHR ''^'' then CHR 0x09 else c)) ls) @ [CHR 0x0A]"

definition routes_tpl :: "string list" where
  "routes_tpl =
     [''package {{.Name}}'', [], ''import ('', ''^~kyrux/apps/{{.Name}}/views~'', ''^~kyrux/core/bootstrap~'', ''^~kyrux/core/router~'', '')'',
      [], ''func init() {'', ''^bootstrap.RegisterApp(~{{.Name}}~, Register)'', ''}'', [],
      ''func Register(r *router.Router, fw *bootstrap.Framework) {'', ''^router.Include(r, []router.URLPattern{'',
      ''^^router.Path(~GET~, ~/{{.Name}}/~, views.ExemploView(fw), ~exemplo_home~),'', ''^})'', ''}'']"

definition models_tpl :: "string list" where "models_tpl = [''package models'']"

text \<open>\<open>expand name text\<close> is \<open>text/template\<close> on the text with the application's name.\<close>

definition app_dirs :: "string \<Rightarrow> string list" where
  "app_dirs dir = [path_join [dir, ''statics'', ''styles''], path_join [dir, ''templates''], path_join [dir, ''views''], path_join [dir, ''models'']]"

definition app_files :: "(string \<Rightarrow> string \<Rightarrow> string) \<Rightarrow> string \<Rightarrow> string \<Rightarrow> string \<Rightarrow> string \<Rightarrow> string \<Rightarrow> (string \<times> string) list" where
  "app_files expand views_go html css dir name =
     [(path_join [dir, ''routes.go''], expand name (code_lines routes_tpl)),
      (path_join [dir, ''views'', ''views.go''], expand name views_go),
      (path_join [dir, ''models'', ''models.go''], expand name (code_lines models_tpl)),
      (path_join [dir, ''templates'', ''exemplo.html''], expand name html),
      (path_join [dir, ''statics'', ''styles'', ''exemplo.css''], expand name css)]"

definition app_base :: "string \<Rightarrow> string" where "app_base name = path_join [''apps'', name]"

definition start_app ::
  "(string \<Rightarrow> bool) \<Rightarrow> (string \<Rightarrow> bool) \<Rightarrow> (string \<Rightarrow> string \<Rightarrow> string) \<Rightarrow> string \<Rightarrow> string \<Rightarrow> string \<Rightarrow> string \<Rightarrow> cli_fs \<Rightarrow>
   cli_error option \<times> cli_fs"
where
  "start_app mk wr expand views_go html css name fs =
     (let dir = app_base name
      in if path_exists dir fs then (Some (AppExists name), fs)
         else (case mkdirs mk (app_dirs dir) fs of
                 (Some e, fs1) \<Rightarrow> (Some e, fs1)
               | (None, fs1) \<Rightarrow>
                   (case write_files wr (app_files expand views_go html css dir name) fs1 of
                      (Some e, fs2) \<Rightarrow> (Some e, fs2)
                    | (None, fs2) \<Rightarrow> add_to_installed wr name fs2)))"

text \<open>\<open>os.RemoveAll\<close>: the path and everything below it; a path that ends in a dot is refused.\<close>

definition ends_with_dot :: "string \<Rightarrow> bool" where
  "ends_with_dot p \<longleftrightarrow> p = ''.'' \<or> has_suffix p ''/.''"

definition remove_all :: "string \<Rightarrow> cli_fs \<Rightarrow> cli_fs" where
  "remove_all dir fs = fs\<lparr>cf_dirs := filter (\<lambda>d. \<not> below dir d) (cf_dirs fs), cf_files := filter (\<lambda>(p, t). \<not> below dir p) (cf_files fs)\<rparr>"

definition remove_app ::
  "(string \<Rightarrow> bool) \<Rightarrow> (string \<Rightarrow> bool) \<Rightarrow> string \<Rightarrow> string \<Rightarrow> cli_fs \<Rightarrow> cli_error option \<times> cli_fs"
where
  "remove_app rm wr answer name fs =
     (let dir = app_base name
      in if \<not> path_exists dir fs then (Some (NoSuchApp name), fs)
         else if to_lower (trim_space answer) \<noteq> ''s'' then (None, fs)
         else if ends_with_dot dir \<or> \<not> rm dir then (Some (RemoveFailed dir), fs)
         else remove_from_installed wr name (remove_all dir fs))"

text \<open>\<open>Run\<close>: the command a call of the program stands for; \<open>None\<close> prints the usage and exits with 1.\<close>

datatype command =
    StartApp string | RemoveApp string | RunMigrate | MakeMigrations | RemoveMigration string bool
  | CreateSuperuser | CreateUser | RunBenchmark

definition run_command :: "string list \<Rightarrow> command option" where
  "run_command args =
     (case args of
        [] \<Rightarrow> None
      | c # rest \<Rightarrow>
          if c = ''startapp'' then (case rest of [] \<Rightarrow> None | a # _ \<Rightarrow> Some (StartApp (to_lower a)))
          else if c = ''removeapp'' then (case rest of [] \<Rightarrow> None | a # _ \<Rightarrow> Some (RemoveApp (to_lower a)))
          else if c = ''migrate'' then Some RunMigrate
          else if c = ''makemigrations'' then Some MakeMigrations
          else if c = ''removemigration'' then
            (case rest of [] \<Rightarrow> None | a # opts \<Rightarrow> Some (RemoveMigration a (case opts of b # _ \<Rightarrow> b = ''all'' | [] \<Rightarrow> False)))
          else if c = ''createsuperuser'' then Some CreateSuperuser
          else if c = ''createuser'' then Some CreateUser
          else if c = ''benchmark'' then Some RunBenchmark
          else None)"

subsection \<open>The list reads back\<close>

lemma dq_chars: "dq = [CHR 0x22]" "app_import = CHR ''_'' # CHR '' '' # CHR 0x22 # ''kyrux/apps/''"
  by (simp_all add: dq_def app_import_def)

lemma trim_Cons: "\<not> P c \<Longrightarrow> trim_by P (c # s) = c # rev (dropWhile P (rev s))"
  by (simp add: trim_by_def dropWhile_append3)

lemma trim_tab: "trim_space (CHR 0x09 # s) = trim_space s"
  by (simp add: trim_by_def is_space_def)

lemma trim_line: "\<not> is_space c \<Longrightarrow> \<not> is_space (last (c # s)) \<Longrightarrow> trim_space (CHR 0x09 # c # s) = c # s"
  unfolding trim_tab by (rule trim_by_id) simp

lemma trim_import: "trim_space (CHR 0x09 # app_import @ a @ dq) = app_import @ a @ dq"
proof -
  have "trim_space (CHR 0x09 # CHR ''_'' # (CHR '' '' # CHR 0x22 # ''kyrux/apps/'' @ a @ dq)) = CHR ''_'' # (CHR '' '' # CHR 0x22 # ''kyrux/apps/'' @ a @ dq)"
    by (rule trim_line) (simp_all add: is_space_def dq_chars)
  then show ?thesis by (simp add: dq_chars)
qed

lemma import_line: "trim_suffix (trim_prefix (app_import @ a @ dq) app_import) dq = a"
  by (simp add: trim_prefix_def trim_suffix_def dq_chars)

lemma entry_line: "\<not> has_prefix (trim_space (CHR 0x09 # CHR 0x09 # dq @ s)) app_import"
  by (simp add: trim_tab dq_chars trim_Cons is_space_def)

lemma parse_lines:
  assumes "list_all (\<lambda>l. CHR 0x0A \<notin> set l) ls" "ls \<noteq> []"
  shows "parse_installed (Some (join [CHR 0x0A] ls)) =
    filter (\<lambda>n. n \<noteq> []) (map (\<lambda>line. trim_suffix (trim_prefix line app_import) dq) (filter (\<lambda>line. has_prefix line app_import) (map trim_space ls)))"
  using assms split_join_parts[of ls "CHR 0x0A"] by (simp add: parse_installed_def list_all_iff)

lemma installed_roundtrip:
  assumes "\<forall>a\<in>set apps. a \<noteq> [] \<and> CHR 0x0A \<notin> set a"
  shows "parse_installed (Some (installed_text apps)) = apps"
proof (cases "apps = []")
  case True
  then show ?thesis by (simp add: installed_text_def installed_lines_def) code_simp
next
  case False
  have nl: "list_all (\<lambda>l. CHR 0x0A \<notin> set l) (installed_lines apps)" "installed_lines apps \<noteq> []"
    using assms by (auto simp: installed_lines_def list_all_iff dq_chars)
  let ?imports = "map (\<lambda>a. CHR 0x09 # app_import @ a @ dq) apps" and ?entries = "map (\<lambda>a. CHR 0x09 # CHR 0x09 # dq @ a @ dq @ '','') apps"
  have f: "filter (\<lambda>line. has_prefix line app_import) (map trim_space ?imports) = map (\<lambda>a. app_import @ a @ dq) apps"
    "filter (\<lambda>line. has_prefix line app_import) (map trim_space ?entries) = []"
    by (simp_all add: trim_import o_def filter_empty_conv entry_line)
  have c: "filter (\<lambda>line. has_prefix line app_import)
       (map trim_space [''package apps'', [], ''import ('', CHR 0x09 # dq @ ''kyrux/core/settings'' @ dq, []]) = []"
    "filter (\<lambda>line. has_prefix line app_import)
       (map trim_space ['')'', [], ''func init() {'', CHR 0x09 # ''settings.InstalledApps = []string{'']) = []"
    "filter (\<lambda>line. has_prefix line app_import) (map trim_space [CHR 0x09 # ''}'', ''}'', []]) = []"
    by code_simp+
  have "filter (\<lambda>line. has_prefix line app_import) (map trim_space (installed_lines apps)) = map (\<lambda>a. app_import @ a @ dq) apps"
    using False unfolding installed_lines_def by (simp only: if_False map_append filter_append f c append_Nil append_Nil2)
  with assms show ?thesis unfolding installed_text_def parse_lines[OF nl] by (simp add: o_def import_line filter_id_conv)
qed

lemma parsed_names_ok: "a \<in> set (parse_installed t) \<Longrightarrow> a \<noteq> [] \<and> CHR 0x0A \<notin> set a"
proof -
  have trims: "set (trim_suffix (trim_prefix (trim_space l) p) q) \<subseteq> set l" for l p q
  proof -
    have "set (trim_suffix x q) \<subseteq> set x" for x by (auto simp: trim_suffix_def dest: in_set_takeD)
    moreover have "set (trim_prefix x p) \<subseteq> set x" for x by (auto simp: trim_prefix_def dest: in_set_dropD)
    ultimately show ?thesis using set_trim_by[of is_space l] by blast
  qed
  assume "a \<in> set (parse_installed t)"
  then obtain x l where "t = Some x" "l \<in> set (split_chr (CHR 0x0A) x)" "a = trim_suffix (trim_prefix (trim_space l) app_import) dq" "a \<noteq> []"
    by (auto simp: parse_installed_def split: option.splits)
  with split_chr_no_sep[of l "CHR 0x0A" x] trims[of l app_import dq] show ?thesis by blast
qed

subsection \<open>An application that is made and removed\<close>

lemma join_join: "xs \<noteq> [] \<Longrightarrow> join sep (join sep xs # ys) = join sep (xs @ ys)"
  by (induction xs rule: induct_list012) (auto simp: join_Cons)

lemma path_join_plain:
  assumes "list_all plain_name ((d # ds) @ parts)"
  shows "path_join (join ''/'' (d # ds) # parts) = join ''/'' ((d # ds) @ parts)"
proof -
  have ne: "join ''/'' (d # ds) \<noteq> []" using join_plain_head[of d ds] assms by simp
  have "filter (\<lambda>p. p \<noteq> []) parts = parts" using assms by (auto simp: filter_id_conv list_all_iff plain_name_def)
  then have "path_join (join ''/'' (d # ds) # parts) = path_clean (join ''/'' (join ''/'' (d # ds) # parts))"
    using ne by (simp add: path_join_def)
  also have "\<dots> = join ''/'' ((d # ds) @ parts)"
    using clean_plain[of d "ds @ parts"] assms by (simp only: join_join list.distinct not_False_eq_True append_Cons)
  finally show ?thesis .
qed

lemma app_base_plain: "plain_name name \<Longrightarrow> app_base name = ''apps/'' @ name"
  using path_join_plain[of "''apps''" "[]" "[name]"] by (simp add: app_base_def) (simp add: plain_name_def)

lemma app_path:
  assumes "plain_name name" "list_all plain_name parts"
  shows "path_join (app_base name # parts) = join ''/'' (''apps'' # name # parts)"
proof -
  have "app_base name = join ''/'' [''apps'', name]" using app_base_plain[OF assms(1)] by simp
  moreover have "list_all plain_name ([''apps'', name] @ parts)" using assms by simp (simp add: plain_name_def)
  ultimately show ?thesis using path_join_plain[of "''apps''" "[name]" parts] by simp
qed

lemma app_file_paths:
  assumes "plain_name name"
  shows "map fst (app_files expand v h c (app_base name) name) =
    map (\<lambda>t. app_base name @ t) [''/routes.go'', ''/views/views.go'', ''/models/models.go'', ''/templates/exemplo.html'', ''/statics/styles/exemplo.css'']"
proof -
  have "path_join (app_base name # parts) = app_base name @ concat (map (\<lambda>p. ''/'' @ p) parts)"
    if "list_all plain_name parts" for parts
  proof -
    have "join ''/'' (a # ps) = a @ concat (map (\<lambda>p. ''/'' @ p) ps)" for a ps
      by (induction ps arbitrary: a) (simp_all add: join_Cons)
    from this[of "''apps''" "name # parts"] app_path[OF assms that] app_base_plain[OF assms] show ?thesis by simp
  qed
  note j = this
  show ?thesis unfolding app_files_def by (simp add: j plain_name_def)
qed

lemma map_of_rev: "distinct (map fst m) \<Longrightarrow> map_of (rev m) = map_of m"
  by (subst map_of_inject_set) (simp_all add: rev_map[symmetric])

lemma map_of_remaining: "map_of (filter (\<lambda>(k, v). Q k) m) k = (if Q k then map_of m k else None)"
  by (induction m) auto

lemma write_filesD: "write_files ok ps fs = (None, fs1) \<Longrightarrow>
  cf_dirs fs1 = cf_dirs fs \<and> cf_files fs1 = fold (\<lambda>(k, v) m. AList.update k v m) ps (cf_files fs)"
  by (induction ps arbitrary: fs) (auto simp: write_file_def split: if_splits)

lemma mkdirs_files: "mkdirs ok ds fs = (r, fs1) \<Longrightarrow> cf_files fs1 = cf_files fs"
  by (induction ds arbitrary: fs) (auto split: if_splits)

lemma mkdirs_made: "mkdirs ok ds fs = (None, fs1) \<Longrightarrow> set (cf_dirs fs1) = set ds \<union> set (cf_dirs fs)"
  by (induction ds arbitrary: fs) (auto split: if_splits)

lemma write_installed_apps:
  assumes "write_installed ok apps fs = (None, fs1)" "\<forall>a\<in>set apps. a \<noteq> [] \<and> CHR 0x0A \<notin> set a"
  shows "installed_apps fs1 = apps \<and> cf_dirs fs1 = cf_dirs fs \<and> (p \<noteq> installed_file \<longrightarrow> map_of (cf_files fs1) p = map_of (cf_files fs) p)"
  using assms by (auto simp: write_installed_def write_file_def installed_apps_def installed_roundtrip split: if_splits)

text \<open>
  Making an application and removing it again gives the project back. For a name without a slash or a
  newline, when \<open>startapp\<close> succeeds its five files hold the expanded templates below \<open>apps/<name>\<close>, the
  application is the last of the installed list and no other file has changed; \<open>removeapp\<close>, confirmed,
  then leaves every file and the installed list as they were before, and nothing in the directory.
\<close>

theorem startapp_removeapp:
  assumes "start_app mk wr expand views_go html css name fs = (None, fs1)"
    and "plain_name name" "CHR 0x0A \<notin> set name" "name \<notin> set (installed_apps fs)" "rm (app_base name)"
  shows "(\<forall>(p, t)\<in>set (app_files expand views_go html css (''apps/'' @ name) name).
       below (''apps/'' @ name) p \<and> map_of (cf_files fs1) p = Some t) \<and>
    installed_apps fs1 = installed_apps fs @ [name] \<and>
    (\<forall>p. \<not> below (''apps/'' @ name) p \<and> p \<noteq> installed_file \<longrightarrow> map_of (cf_files fs1) p = map_of (cf_files fs) p) \<and>
    (\<exists>fs2. remove_app rm wr ''S'' name fs1 = (None, fs2) \<and> installed_apps fs2 = installed_apps fs \<and>
       (\<forall>p. p \<noteq> installed_file \<longrightarrow> map_of (cf_files fs2) p = map_of (cf_files fs) p) \<and> \<not> path_exists (''apps/'' @ name) fs2)"
proof -
  define bs where "bs = ''apps/'' @ name"
  let ?b = bs and ?ps = "app_files expand views_go html css (app_base name) name"
  have b: "app_base name = ?b" unfolding bs_def by (rule app_base_plain[OF assms(2)])
  from assms(1) obtain fsd fsw where new: "\<not> path_exists ?b fs" and d: "mkdirs mk (app_dirs ?b) fs = (None, fsd)"
      and w: "write_files wr ?ps fsd = (None, fsw)" and a: "add_to_installed wr name fsw = (None, fs1)"
    by (auto simp: start_app_def b Let_def split: if_splits prod.splits option.splits)
  from a have wr: "wr installed_file" by (simp add: add_to_installed_def write_installed_def split: if_splits)
  have paths: "map fst ?ps = map (\<lambda>t. ?b @ t) [''/routes.go'', ''/views/views.go'', ''/models/models.go'', ''/templates/exemplo.html'', ''/statics/styles/exemplo.css'']"
    using app_file_paths[OF assms(2)] b by simp
  then have dist: "distinct (map fst ?ps)" and bel: "\<forall>p\<in>set (map fst ?ps). below ?b p" by (auto simp: below_def)
  have inst: "installed_file \<notin> set (map fst ?ps)" "\<not> below ?b installed_file" unfolding paths by (auto simp: installed_file_def below_def bs_def)
  have look: "map_of (cf_files fsw) p = (case map_of ?ps p of Some t \<Rightarrow> Some t | None \<Rightarrow> map_of (cf_files fs) p)" for p
    using write_filesD[OF w] mkdirs_files[OF d] merge_lookup[of ?ps "cf_files fs" p] dist by (simp add: map_of_rev)
  have "map_of ?ps installed_file = None" using inst(1) unfolding map_of_eq_None_iff by simp
  then have same: "installed_apps fsw = installed_apps fs" by (simp add: installed_apps_def look)
  have ok: "\<forall>x\<in>set (installed_apps fs). x \<noteq> [] \<and> CHR 0x0A \<notin> set x" using parsed_names_ok by (simp add: installed_apps_def)
  have "\<forall>x\<in>set (installed_apps fsw @ [name]). x \<noteq> [] \<and> CHR 0x0A \<notin> set x" using ok same assms(2,3) by (auto simp: plain_name_def)
  note one = write_installed_apps[OF a[unfolded add_to_installed_def] this]
  have l1: "map_of (cf_files fs1) p = (case map_of ?ps p of Some t \<Rightarrow> Some t | None \<Rightarrow> map_of (cf_files fs) p)" if "p \<noteq> installed_file" for p
    using one that look by simp
  have none: "map_of (cf_files fs) p = None" if "below ?b p" for p
    using new that by (auto simp: path_exists_def list_ex_iff map_of_eq_None_iff)
  let ?fs = "remove_all ?b fs1"
  have r: "map_of (cf_files ?fs) p = (if below ?b p then None else map_of (cf_files fs1) p)" for p
    using map_of_remaining[of "\<lambda>p. \<not> below ?b p" "cf_files fs1" p] by (simp add: remove_all_def)
  have restored: "map_of (cf_files ?fs) p = map_of (cf_files fs) p" if "p \<noteq> installed_file" for p
  proof (cases "below ?b p")
    case False
    then have "map_of ?ps p = None" using bel by (auto simp: map_of_eq_None_iff)
    with False that show ?thesis by (simp add: r l1)
  qed (simp add: r none)
  have apps: "installed_apps ?fs = installed_apps fs @ [name]" using one inst(2) same by (simp add: installed_apps_def r)
  have left: "filter (\<lambda>a. a \<noteq> name) (installed_apps ?fs) = installed_apps fs" using assms(4) by (auto simp: apps filter_id_conv)
  obtain fs2 where fs2: "write_installed wr (installed_apps fs) ?fs = (None, fs2)" using wr by (simp add: write_installed_def)
  have dirs: "\<exists>d\<in>set (cf_dirs fs1). below ?b d"
  proof -
    have "path_join [?b, ''templates''] = ?b @ ''/templates''" using app_path[OF assms(2), of "[''templates'']"] b by (simp add: plain_name_def) (simp add: bs_def)
    then have "?b @ ''/templates'' \<in> set (cf_dirs fsd)" using mkdirs_made[OF d] by (simp add: app_dirs_def)
    then show ?thesis using one write_filesD[OF w] by (intro bexI[of _ "?b @ ''/templates''"]) (simp_all add: below_def)
  qed
  have "\<not> ends_with_dot ?b" using assms(2) by (auto simp: bs_def ends_with_dot_def plain_name_def suffix_def append_eq_append_conv2 Cons_eq_append_conv append_eq_Cons_conv)
  moreover have "path_exists ?b fs1" using dirs by (auto simp: path_exists_def list_ex_iff)
  ultimately have rem: "remove_app rm wr ''S'' name fs1 = (None, fs2)"
    using assms(5) fs2 by (simp add: remove_app_def b Let_def remove_from_installed_def left) code_simp
  note two = write_installed_apps[OF fs2 ok]
  have "path \<in> set (map fst (cf_files fs2)) \<Longrightarrow> \<not> below ?b path" for path
  proof -
    assume "path \<in> set (map fst (cf_files fs2))"
    then have "map_of (cf_files fs2) path \<noteq> None" by (simp add: map_of_eq_None_iff)
    then show "\<not> below ?b path" using two[of path] r[of path] inst(2) by (cases "path = installed_file") auto
  qed
  moreover have "\<forall>d\<in>set (cf_dirs fs2). \<not> below ?b d" using two by (simp add: remove_all_def)
  ultimately have gone: "\<not> path_exists ?b fs2" by (auto simp: path_exists_def list_ex_iff)
  have "map_of (cf_files fs1) q = Some t \<and> below ?b q" if "(q, t) \<in> set ?ps" for q t
  proof -
    have q: "q \<in> set (map fst ?ps)" using that by force
    then have "q \<noteq> installed_file" using inst(1) by blast
    moreover have "below ?b q" using bel q by blast
    ultimately show ?thesis using map_of_is_SomeI[OF dist that] l1 by simp
  qed
  then have made: "\<forall>(q, t)\<in>set (app_files expand views_go html css ?b name). below ?b q \<and> map_of (cf_files fs1) q = Some t"
    unfolding b by blast
  have frame: "map_of (cf_files fs1) q = map_of (cf_files fs) q" if "\<not> below ?b q" "q \<noteq> installed_file" for q
  proof -
    have "map_of ?ps q = None" using that bel unfolding map_of_eq_None_iff by auto
    with that l1 show ?thesis by simp
  qed
  have after: "\<forall>q. q \<noteq> installed_file \<longrightarrow> map_of (cf_files fs2) q = map_of (cf_files fs) q" using two restored by simp
  have "installed_apps fs1 = installed_apps fs @ [name]" using one same by simp
  with made frame rem two after gone show ?thesis unfolding bs_def[symmetric] by blast
qed

text \<open>
  Nothing checks the name: \<open>removeapp .\<close> removes the directory of all applications, and takes none of
  them off the installed list.
\<close>

theorem removeapp_dot:
  assumes "path_exists ''apps'' fs" "rm ''apps''" "wr installed_file" "''.'' \<notin> set (installed_apps fs)"
  shows "\<exists>fs1. remove_app rm wr ''s'' ''.'' fs = (None, fs1) \<and> installed_apps fs1 = installed_apps fs \<and>
    (\<forall>p. p \<noteq> installed_file \<and> below ''apps'' p \<longrightarrow> map_of (cf_files fs1) p = None)"
proof -
  have b: "app_base ''.'' = ''apps''" by code_simp
  let ?fs = "remove_all ''apps'' fs"
  have r: "map_of (cf_files ?fs) p = (if below ''apps'' p then None else map_of (cf_files fs) p)" for p
    using map_of_remaining[of "\<lambda>p. \<not> below ''apps'' p" "cf_files fs" p] by (simp add: remove_all_def)
  have "\<not> below ''apps'' installed_file" by code_simp
  then have apps: "installed_apps ?fs = installed_apps fs" by (simp add: installed_apps_def r)
  have left: "filter (\<lambda>a. a \<noteq> ''.'') (installed_apps ?fs) = installed_apps fs" using assms(4) by (auto simp: apps filter_id_conv)
  obtain fs1 where w: "write_installed wr (installed_apps fs) ?fs = (None, fs1)" using assms(3) by (simp add: write_installed_def)
  have "\<forall>x\<in>set (installed_apps fs). x \<noteq> [] \<and> CHR 0x0A \<notin> set x" using parsed_names_ok by (simp add: installed_apps_def)
  note one = write_installed_apps[OF w this]
  have "trim_space ''s'' = ''s''" "to_lower ''s'' = ''s''" "\<not> ends_with_dot ''apps''" by code_simp+
  then have "remove_app rm wr ''s'' ''.'' fs = (None, fs1)"
    using assms(1,2) w by (simp add: remove_app_def b remove_from_installed_def left Let_def)
  with one r show ?thesis by auto
qed

text \<open>A run of \<open>startapp\<close> that fails half-way leaves the directory, so it cannot be repeated.\<close>

lemma startapp_half_way:
  assumes "mkdirs mk (app_dirs (app_base name)) fs = (None, fs1)"
    and "start_app mk wr expand v h c name fs = (Some (WriteFailed p), fs2)" "plain_name name"
  shows "start_app mk wr' expand v h c name fs2 = (Some (AppExists name), fs2)"
proof -
  have w: "cf_dirs fs' = cf_dirs fs0" if "write_files wr ps fs0 = (e, fs')" for ps fs0 fs' e
    using that by (induction ps arbitrary: fs0) (auto simp: write_file_def split: if_splits)
  have "write_files wr (app_files expand v h c (app_base name) name) fs1 = (Some (WriteFailed p), fs2)"
    using assms(1,2) by (auto simp: start_app_def Let_def add_to_installed_def write_installed_def split: if_splits prod.splits option.splits)
  from w[OF this] have d: "cf_dirs fs2 = cf_dirs fs1" .
  have "path_join [app_base name, ''templates''] = app_base name @ ''/templates''"
    using app_path[OF assms(3), of "[''templates'']"] app_base_plain[OF assms(3)] by (simp add: plain_name_def)
  then have "app_base name @ ''/templates'' \<in> set (cf_dirs fs2)" using mkdirs_made[OF assms(1)] d by (simp add: app_dirs_def)
  then have "path_exists (app_base name) fs2"
    unfolding path_exists_def list_ex_iff by (intro bexI[of _ "app_base name @ ''/templates''"]) (simp_all add: below_def)
  then show ?thesis by (simp add: start_app_def)
qed

subsection \<open>Examples\<close>

definition toy_world :: outside_world where
  "toy_world = \<lparr>ow_open = (\<lambda>_ _. True), ow_count = (\<lambda>_ _. Some 0),
     ow_hash = user_set_password toy_argon ''pep'' (Some ''salt''), ow_create = (\<lambda>_. Some 7), ow_random = replicate 16 0, ow_now = 5\<rparr>"

definition typed_in :: string where "typed_in = join [CHR 0x0A] [[], '' ana'', [], ''Ana'', [], []]"

theorem cli_account_logs_in_witness:
  "\<exists>u. create_user_cli toy_world (\<lambda>k. if k = ''DB_ENABLED'' then ''true'' else ''x'') no_environment True True typed_in
        [Some ''short'', Some ''short'', Some '' long enough'', Some '' long enough''] = Inr u \<and>
     us_username u = ''ana'' \<and> user_check_password toy_argon ''pep'' '' long enough'' u \<noteq> Some True"
proof -
  let ?g = "\<lambda>k. if k = ''DB_ENABLED'' then ''true'' else ''x''" and ?a = "[Some ''short'', Some ''short'', Some '' long enough'', Some '' long enough'']"
  let ?r = "join [CHR 0x0A] [''Ana'', [], []]" and ?n = "new_account toy_world True True ''ana'' [] ''Ana'' []"
  have p: "cu_prompt_password ?a = Some ''long enough''"
    "cu_names ''Username'' (\<lambda>_ _. Some 0) typed_in = Inr (''ana'', [], ?r)" "cu_name ?r = Inr (''Ana'', join [CHR 0x0A] [[], []])"
    "cu_name (join [CHR 0x0A] [[], []]) = Inr ([], [])"
    by code_simp+
  have "ow_count toy_world = (\<lambda>_ _. Some 0)" by (simp add: toy_world_def)
  then have "ask_account toy_world ''Username'' True True typed_in ?a = store_account toy_world ''long enough'' ?n"
    unfolding ask_account_def by (simp add: p cu_staff_def del: join.simps cu_prompt_password.simps)
  then have "create_user_cli toy_world ?g no_environment True True typed_in ?a = store_account toy_world ''long enough'' ?n"
    unfolding create_user_cli_def login_field by (simp add: env_get_or_def env_get_def no_environment_def) (simp add: toy_world_def)
  moreover have "hash_password toy_argon ''pep'' (Some ''salt'') ''long enough'' \<noteq> None" "\<exists>h. hash_password toy_argon ''pep'' (Some ''salt'') ''long enough'' = Some (Some h)"
    by (simp_all add: hash_password_def argon_key_def toy_argon_def argon_iterations_def argon_parallelism_def)
  ultimately obtain u where u: "create_user_cli toy_world ?g no_environment True True typed_in ?a = Inr u" "us_username u = ''ana''"
    by (auto simp: store_account_def user_set_password_def new_account_def toy_world_def)
  have l: "toy_argon p salt 3 65536 4 32 = Some h \<Longrightarrow> length h = 32" for p salt h by (auto simp: toy_argon_def)
  have d: "toy_argon ('' long enough'' @ ''pep'') ''salt'' 3 65536 4 32 \<noteq> toy_argon (''long enough'' @ ''pep'') ''salt'' 3 65536 4 32"
    by (simp add: toy_argon_def)
  have h: "ow_hash toy_world = user_set_password toy_argon ''pep'' (Some ''salt'')" by (simp add: toy_world_def)
  from cli_account_logs_in[where find_user = "\<lambda>_. Some u", OF u(1) h l] p(1) d u show ?thesis by fastforce
qed

definition toy_fs :: cli_fs where
  "toy_fs = \<lparr>cf_dirs = [''apps''], cf_files = [(''core/apps/installed.go'', installed_text [''meta''])]\<rparr>"

lemma toy_installed: "installed_apps toy_fs = [''meta'']"
  using installed_roundtrip[of "[''meta'']"] by (simp add: installed_apps_def toy_fs_def installed_file_def)

theorem startapp_removeapp_witness:
  "\<exists>fs1 fs2. start_app (\<lambda>_. True) (\<lambda>_. True) (\<lambda>n t. t) [] [] [] ''shop'' toy_fs = (None, fs1) \<and> installed_apps fs1 = [''meta'', ''shop''] \<and>
     remove_app (\<lambda>_. True) (\<lambda>_. True) ''S'' ''shop'' fs1 = (None, fs2) \<and> installed_apps fs2 = [''meta'']"
proof -
  have "fst (start_app (\<lambda>_. True) (\<lambda>_. True) (\<lambda>n t. t) [] [] [] ''shop'' toy_fs) = None" by code_simp
  then obtain fs1 where s: "start_app (\<lambda>_. True) (\<lambda>_. True) (\<lambda>n t. t) [] [] [] ''shop'' toy_fs = (None, fs1)" by (metis prod.collapse)
  have "plain_name ''shop''" "CHR 0x0A \<notin> set ''shop''" "''shop'' \<notin> set (installed_apps toy_fs)" by (simp_all add: plain_name_def toy_installed)
  from startapp_removeapp[OF s this, of "\<lambda>_. True"] s show ?thesis by (auto simp: toy_installed)
qed

theorem removeapp_dot_witness:
  "\<exists>fs1. remove_app (\<lambda>_. True) (\<lambda>_. True) ''s'' ''.'' (write_file ''apps/meta/routes.go'' ''x'' toy_fs) = (None, fs1) \<and>
     installed_apps fs1 = [''meta''] \<and> map_of (cf_files fs1) ''apps/meta/routes.go'' = None"
proof -
  let ?fs = "write_file ''apps/meta/routes.go'' ''x'' toy_fs"
  have e: "path_exists ''apps'' ?fs" "below ''apps'' ''apps/meta/routes.go''" "''apps/meta/routes.go'' \<noteq> installed_file" by code_simp+
  have i: "installed_apps ?fs = [''meta'']" using toy_installed by (simp add: installed_apps_def write_file_def installed_file_def)
  from removeapp_dot[of ?fs "\<lambda>_. True" "\<lambda>_. True"] e i show ?thesis by auto
qed

end
