(* ===== verification/Mail.thy ===== *)
theory Mail
  imports Queue Crypton OrmExec
begin

text \<open>
  Mail: the message and the queued sender (\<open>core/mail\<close>), the SMTP client with its MIME text
  (\<open>core/adapters/smtp\<close>) and what the SendGrid and SES adapters hand to their services. A server is a
  function on its state that accepts or refuses each command of the session; \<open>net/mail\<close>'s parser of
  addresses and the random boundaries of \<open>mime/multipart\<close> are parameters.
\<close>

declare map_of_eq_Some_iff [simp del] AList.update_conv' [simp]

subsection \<open>Messages\<close>

record attachment =
  at_filename :: string
  at_content :: string
  at_type :: string

record message =
  ms_from :: string
  ms_reply_to :: string
  ms_to :: "string list"
  ms_cc :: "string list"
  ms_bcc :: "string list"
  ms_subject :: string
  ms_text :: string
  ms_html :: string
  ms_attachments :: "attachment list"

subsection \<open>MIME\<close>

definition crlf :: string where "crlf = [CHR 0x0D, CHR 0x0A]"

text \<open>\<open>multipart.Writer\<close>: every part is a list of header lines and a body.\<close>

definition mime_part :: "string list \<times> string \<Rightarrow> string" where
  "mime_part p = concat (map (\<lambda>h. h @ crlf) (fst p)) @ crlf @ snd p"

fun multipart_text :: "string \<Rightarrow> (string list \<times> string) list \<Rightarrow> string" where
  "multipart_text b [] = crlf @ ''--'' @ b @ ''--'' @ crlf"
| "multipart_text b (p # ps) = crlf @ ''--'' @ b @ crlf @ mime_part p @ multipart_text b ps"

text \<open>The first delimiter has no line break before it; a writer without parts only writes its end.\<close>

definition multipart :: "string \<Rightarrow> (string list \<times> string) list \<Rightarrow> string" where
  "multipart b ps = (if ps = [] then multipart_text b [] else drop 2 (multipart_text b ps))"

definition content_type :: "string \<Rightarrow> string" where "content_type t = ''Content-Type: '' @ t"

fun lines76 :: "nat \<Rightarrow> string \<Rightarrow> string" where
  "lines76 0 s = []"
| "lines76 (Suc k) s = (if s = [] then [] else take 76 s @ crlf @ lines76 k (drop 76 s))"

definition base64_lines :: "string \<Rightarrow> string" where
  "base64_lines content = (let e = pad_encode content in lines76 (length e) e)"

definition quote :: string where "quote = [CHR 0x22]"

text \<open>The headers of an attachment, in the order of their names.\<close>

definition attachment_part :: "attachment \<Rightarrow> string list \<times> string" where
  "attachment_part a =
     ([''Content-Disposition: attachment; filename='' @ quote @ at_filename a @ quote,
       ''Content-Transfer-Encoding: base64'', content_type (at_type a)],
      base64_lines (at_content a))"

definition text_type :: string where "text_type = ''text/plain; charset=UTF-8''"
definition html_type :: string where "html_type = ''text/html; charset=UTF-8''"

definition alternative_parts :: "message \<Rightarrow> (string list \<times> string) list" where
  "alternative_parts m =
     (if ms_text m \<noteq> [] then [([content_type text_type], ms_text m)] else []) @
     (if ms_html m \<noteq> [] then [([content_type html_type], ms_html m)] else [])"

text \<open>\<open>buildMIME\<close>: the body and its content type; \<open>ab\<close> and \<open>mb\<close> are the boundaries.\<close>

definition build_mime :: "string \<Rightarrow> string \<Rightarrow> message \<Rightarrow> string \<times> string" where
  "build_mime ab mb m =
     (if ms_html m = [] \<and> ms_attachments m = [] then (ms_text m, text_type)
      else
        (let alt = multipart ab (alternative_parts m); alt_type = ''multipart/alternative; boundary='' @ ab
         in if ms_attachments m = [] then (alt, alt_type)
            else (multipart mb (([content_type alt_type], alt) # map attachment_part (ms_attachments m)),
                  ''multipart/mixed; boundary='' @ mb)))"

subsection \<open>The subject\<close>

text \<open>\<open>mime.QEncoding.Encode("UTF-8", s)\<close>; \<open>rune_len\<close> is the width of the character UTF-8 decodes first.\<close>

definition cont_byte :: "nat \<Rightarrow> nat \<Rightarrow> string \<Rightarrow> bool" where
  "cont_byte lo hi s = (case s of [] \<Rightarrow> False | c # _ \<Rightarrow> lo \<le> of_char c \<and> of_char c \<le> hi)"

definition rune_len :: "string \<Rightarrow> nat" where
  "rune_len s =
     (let b = (case s of [] \<Rightarrow> 0 :: nat | c # _ \<Rightarrow> of_char c); s1 = drop 1 s;
          c2 = cont_byte 0x80 0xBF (drop 2 s); c3 = cont_byte 0x80 0xBF (drop 3 s);
          lo = (if b = 0xE0 then 0xA0 else if b = 0xF0 then 0x90 else 0x80);
          hi = (if b = 0xED then 0x9F else if b = 0xF4 then 0x8F else 0xBF)
      in if 0xC2 \<le> b \<and> b \<le> 0xDF \<and> cont_byte 0x80 0xBF s1 then 2
         else if 0xE0 \<le> b \<and> b \<le> 0xEF \<and> cont_byte lo hi s1 \<and> c2 then 3
         else if 0xF0 \<le> b \<and> b \<le> 0xF4 \<and> cont_byte lo hi s1 \<and> c2 \<and> c3 then 4
         else 1)"

definition q_plain :: "char \<Rightarrow> bool" where
  "q_plain c \<longleftrightarrow> (of_char c :: nat) \<ge> 0x21 \<and> (of_char c :: nat) \<le> 0x7E \<and> c \<notin> {CHR ''='', CHR ''?'', CHR ''_''}"

definition upper_hex :: "nat \<Rightarrow> char" where
  "upper_hex n = (if n < 10 then char_of (48 + n) else char_of (55 + n))"

definition q_byte :: "char \<Rightarrow> string" where
  "q_byte c =
     (if c = CHR '' '' then ''_'' else if q_plain c then [c]
      else [CHR ''='', upper_hex (of_char c div 16), upper_hex (of_char c mod 16)])"

definition needs_encoding :: "string \<Rightarrow> bool" where
  "needs_encoding s = list_ex (\<lambda>c. ((of_char c :: nat) < 0x20 \<or> (of_char c :: nat) > 0x7E) \<and> c \<noteq> CHR 0x09) s"

definition open_word :: string where "open_word = ''=?UTF-8?q?''"

function q_encode :: "nat \<Rightarrow> string \<Rightarrow> string" where
  "q_encode used s =
     (if s = [] then []
      else (let plain = (hd s = CHR '' '' \<or> q_plain (hd s)); n = (if plain then 1 else rune_len s); w = (if plain then 1 else 3 * n);
                full = (used + w > 63)
            in (if full then ''?= '' @ open_word else []) @ concat (map q_byte (take n s)) @
               q_encode ((if full then 0 else used) + w) (drop n s)))"
  by auto
termination
  by (relation "measure (\<lambda>(u, s). length s)") (auto simp: rune_len_def Let_def)

declare q_encode.simps [simp del]

definition encode_subject :: "string \<Rightarrow> string" where
  "encode_subject s = (if needs_encoding s then open_word @ q_encode 0 s @ ''?='' else s)"

definition message_headers :: "message \<Rightarrow> string \<Rightarrow> string" where
  "message_headers m ctype =
     ''From: '' @ ms_from m @ crlf @
     (if ms_reply_to m \<noteq> [] then ''Reply-To: '' @ ms_reply_to m @ crlf else []) @
     ''To: '' @ join '', '' (ms_to m) @ crlf @
     (if ms_cc m \<noteq> [] then ''Cc: '' @ join '', '' (ms_cc m) @ crlf else []) @
     ''Subject: '' @ encode_subject (ms_subject m) @ crlf @ ''MIME-Version: 1.0'' @ crlf @
     content_type ctype @ crlf @ crlf"

definition message_text :: "string \<Rightarrow> string \<Rightarrow> message \<Rightarrow> string" where
  "message_text ab mb m = (case build_mime ab mb m of (body, ctype) \<Rightarrow> message_headers m ctype @ body)"

subsection \<open>The SMTP session\<close>

datatype smtp_command =
    Banner | Ehlo | Helo | StartTLS | AuthPlain string string | MailFrom string | RcptTo string | Data | Body string | Quit

text \<open>A server accepts or refuses a command; \<open>sv_auth_ext\<close> is whether its last EHLO answer lists AUTH.\<close>

record 'v smtp_server =
  sr_reply :: "bool \<Rightarrow> smtp_command \<Rightarrow> 'v \<Rightarrow> bool \<times> 'v"
  sr_auth_ext :: "'v \<Rightarrow> bool"
  sr_dial :: "bool \<Rightarrow> 'v \<Rightarrow> bool \<times> 'v"

text \<open>The client of \<open>net/smtp\<close>; \<open>sc_log\<close> keeps each command with whether the connection was TLS then and whether it was accepted.\<close>

record 'v smtp_conn =
  sc_server :: 'v
  sc_tls :: bool
  sc_hello :: "bool option"
  sc_ext :: bool
  sc_log :: "(bool \<times> smtp_command \<times> bool) list"

definition say :: "'v smtp_server \<Rightarrow> smtp_command \<Rightarrow> 'v smtp_conn \<Rightarrow> bool \<times> 'v smtp_conn" where
  "say sr c s =
     (case sr_reply sr (sc_tls s) c (sc_server s) of
        (ok, v) \<Rightarrow> (ok, s\<lparr>sc_server := v, sc_log := sc_log s @ [(sc_tls s, c, ok)]\<rparr>))"

definition ehlo :: "'v smtp_server \<Rightarrow> 'v smtp_conn \<Rightarrow> bool \<times> 'v smtp_conn" where
  "ehlo sr s = (case say sr Ehlo s of (ok, s1) \<Rightarrow> (ok, if ok then s1\<lparr>sc_ext := sr_auth_ext sr (sc_server s1)\<rparr> else s1))"

text \<open>\<open>hello\<close>: once per connection EHLO, and HELO if that is refused.\<close>

definition hello :: "'v smtp_server \<Rightarrow> 'v smtp_conn \<Rightarrow> bool \<times> 'v smtp_conn" where
  "hello sr s =
     (case sc_hello s of
        Some r \<Rightarrow> (r, s)
      | None \<Rightarrow>
          (case ehlo sr s of
             (True, s1) \<Rightarrow> (True, s1\<lparr>sc_hello := Some True\<rparr>)
           | (False, s1) \<Rightarrow> (case say sr Helo s1 of (r, s2) \<Rightarrow> (r, s2\<lparr>sc_hello := Some r\<rparr>))))"

definition cmd :: "'v smtp_server \<Rightarrow> smtp_command \<Rightarrow> 'v smtp_conn \<Rightarrow> bool \<times> 'v smtp_conn" where
  "cmd sr c s = (case hello sr s of (False, s1) \<Rightarrow> (False, s1) | (True, s1) \<Rightarrow> say sr c s1)"

definition start_tls :: "'v smtp_server \<Rightarrow> 'v smtp_conn \<Rightarrow> bool \<times> 'v smtp_conn" where
  "start_tls sr s = (case cmd sr StartTLS s of (False, s1) \<Rightarrow> (False, s1) | (True, s1) \<Rightarrow> ehlo sr (s1\<lparr>sc_tls := True\<rparr>))"

definition localhost_name :: "string \<Rightarrow> bool" where
  "localhost_name h \<longleftrightarrow> h \<in> {''localhost'', ''127.0.0.1'', ''::1''}"

text \<open>\<open>Auth\<close> with \<open>PlainAuth\<close>: without TLS only to the host itself; after a refusal the client quits.\<close>

definition auth_plain :: "'v smtp_server \<Rightarrow> string \<Rightarrow> string \<Rightarrow> string \<Rightarrow> 'v smtp_conn \<Rightarrow> bool \<times> 'v smtp_conn" where
  "auth_plain sr host user pass s =
     (case hello sr s of
        (False, s1) \<Rightarrow> (False, s1)
      | (True, s1) \<Rightarrow>
          if \<not> sc_tls s1 \<and> \<not> localhost_name host then (False, snd (cmd sr Quit s1))
          else (case say sr (AuthPlain user pass) s1 of
                  (True, s2) \<Rightarrow> (True, s2)
                | (False, s2) \<Rightarrow> (False, snd (cmd sr Quit s2))))"

definition valid_line :: "string \<Rightarrow> bool" where
  "valid_line l \<longleftrightarrow> CHR 0x0D \<notin> set l \<and> CHR 0x0A \<notin> set l"

definition line_cmd :: "'v smtp_server \<Rightarrow> (string \<Rightarrow> smtp_command) \<Rightarrow> string \<Rightarrow> 'v smtp_conn \<Rightarrow> bool \<times> 'v smtp_conn" where
  "line_cmd sr mk a s = (if valid_line a then cmd sr (mk a) s else (False, s))"

subsection \<open>Sending\<close>

record smtp_client =
  cl_host :: string
  cl_port :: string
  cl_username :: string
  cl_password :: string
  cl_use_tls :: bool
  cl_implicit_tls :: bool

datatype smtp_error =
    ConnectFailed | HandshakeFailed | StartTlsFailed | AuthRefused | FromRefused | RcptRefused string
  | DataRefused | BodyRefused | QuitFailed

definition envelope_address :: "(string \<Rightarrow> string option) \<Rightarrow> string \<Rightarrow> string" where
  "envelope_address parse s = (case parse s of Some a \<Rightarrow> a | None \<Rightarrow> s)"

fun rcpts :: "'v smtp_server \<Rightarrow> (string \<Rightarrow> string option) \<Rightarrow> string list \<Rightarrow> 'v smtp_conn \<Rightarrow> smtp_error option \<times> 'v smtp_conn" where
  "rcpts sr parse [] s = (None, s)"
| "rcpts sr parse (r # rs) s =
     (case line_cmd sr RcptTo (envelope_address parse r) s of
        (False, s1) \<Rightarrow> (Some (RcptRefused r), s1)
      | (True, s1) \<Rightarrow> rcpts sr parse rs s1)"

definition transmit :: "'v smtp_server \<Rightarrow> string \<Rightarrow> 'v smtp_conn \<Rightarrow> smtp_error option \<times> 'v smtp_conn" where
  "transmit sr content s =
     (case cmd sr Data s of
        (False, s1) \<Rightarrow> (Some DataRefused, s1)
      | (True, s1) \<Rightarrow>
          (case say sr (Body content) s1 of
             (False, s2) \<Rightarrow> (Some BodyRefused, s2)
           | (True, s2) \<Rightarrow> (case cmd sr Quit s2 of (ok, s3) \<Rightarrow> (if ok then None else Some QuitFailed, s3))))"

definition deliver ::
  "'v smtp_server \<Rightarrow> (string \<Rightarrow> string option) \<Rightarrow> string \<Rightarrow> message \<Rightarrow> 'v smtp_conn \<Rightarrow> smtp_error option \<times> 'v smtp_conn"
where
  "deliver sr parse content m s =
     (case line_cmd sr MailFrom (envelope_address parse (ms_from m)) s of
        (False, s1) \<Rightarrow> (Some FromRefused, s1)
      | (True, s1) \<Rightarrow>
          (case rcpts sr parse (ms_to m @ ms_cc m @ ms_bcc m) s1 of
             (Some e, s2) \<Rightarrow> (Some e, s2)
           | (None, s2) \<Rightarrow> transmit sr content s2))"

text \<open>The part of \<open>Send\<close> before the envelope: STARTTLS when it is asked for, AUTH when there is a user and the server offers it.\<close>

definition secure_session :: "'v smtp_server \<Rightarrow> smtp_client \<Rightarrow> 'v smtp_conn \<Rightarrow> smtp_error option \<times> 'v smtp_conn" where
  "secure_session sr cl s =
     (if cl_use_tls cl \<and> \<not> cl_implicit_tls cl
      then (case start_tls sr s of (ok, s1) \<Rightarrow> (if ok then None else Some StartTlsFailed, s1)) else (None, s))"

definition log_in_session ::
  "'v smtp_server \<Rightarrow> (string \<Rightarrow> string option) \<Rightarrow> smtp_client \<Rightarrow> 'v smtp_conn \<Rightarrow> smtp_error option \<times> 'v smtp_conn"
where
  "log_in_session sr parse cl s =
     (if cl_username cl = [] then (None, s)
      else (case hello sr s of
              (ok, s1) \<Rightarrow>
                if \<not> ok \<or> \<not> sc_ext s1 then (None, s1)
                else (case auth_plain sr (cl_host cl) (envelope_address parse (cl_username cl)) (cl_password cl) s1 of
                        (okay, s2) \<Rightarrow> (if okay then None else Some AuthRefused, s2))))"

definition smtp_send ::
  "'v smtp_server \<Rightarrow> (string \<Rightarrow> string option) \<Rightarrow> string \<Rightarrow> string \<Rightarrow> smtp_client \<Rightarrow> message \<Rightarrow> 'v \<Rightarrow>
   smtp_error option \<times> 'v \<times> (bool \<times> smtp_command \<times> bool) list"
where
  "smtp_send sr parse ab mb cl m v0 =
     (case sr_dial sr (cl_implicit_tls cl) v0 of
        (False, v) \<Rightarrow> (Some ConnectFailed, v, [])
      | (True, v) \<Rightarrow>
          (case say sr Banner \<lparr>sc_server = v, sc_tls = cl_implicit_tls cl, sc_hello = None, sc_ext = False, sc_log = []\<rparr> of
             (False, s) \<Rightarrow> (Some HandshakeFailed, sc_server s, sc_log s)
           | (True, s) \<Rightarrow>
               (case (case secure_session sr cl s of
                        (Some e, s1) \<Rightarrow> (Some e, s1)
                      | (None, s1) \<Rightarrow>
                          (case log_in_session sr parse cl s1 of
                             (Some e, s2) \<Rightarrow> (Some e, s2)
                           | (None, s2) \<Rightarrow> deliver sr parse (message_text ab mb m) m s2)) of
                  (e, s3) \<Rightarrow> (e, sc_server s3, sc_log s3))))"

subsection \<open>The adapter\<close>

record smtp_adapter =
  ad_name :: string
  ad_client :: smtp_client
  ad_ready :: bool

definition smtp_new :: "string \<Rightarrow> string \<Rightarrow> string \<Rightarrow> string \<Rightarrow> string \<Rightarrow> bool \<Rightarrow> smtp_adapter" where
  "smtp_new name host port user pass use_tls =
     \<lparr>ad_name = name,
      ad_client = \<lparr>cl_host = host, cl_port = port, cl_username = user, cl_password = pass, cl_use_tls = use_tls,
                   cl_implicit_tls = (port = ''465'')\<rparr>,
      ad_ready = False\<rparr>"

definition smtp_module_name :: "smtp_adapter \<Rightarrow> string" where
  "smtp_module_name a = ''mail.smtp.'' @ ad_name a"

text \<open>\<open>Init\<close> (\<open>True\<close> an error) and \<open>Configure\<close> with the outcome of the probe; the client is there once it succeeded.\<close>

definition smtp_init_fails :: "smtp_adapter \<Rightarrow> bool" where
  "smtp_init_fails a \<longleftrightarrow> cl_host (ad_client a) = [] \<or> cl_port (ad_client a) = []"

definition smtp_configure :: "bool \<Rightarrow> smtp_adapter \<Rightarrow> bool \<times> smtp_adapter" where
  "smtp_configure reachable a = (if reachable then (True, a\<lparr>ad_ready := True\<rparr>) else (False, a))"

definition smtp_value :: "smtp_adapter \<Rightarrow> smtp_client option" where
  "smtp_value a = (if ad_ready a then Some (ad_client a) else None)"

subsection \<open>Queued sending\<close>

text \<open>JSON values, as \<open>encoding/json\<close> reads and writes them; \<open>utf\<close> is what it makes of a string that is not UTF-8.\<close>

datatype jv = JNull | JStr string | JArr "jv list" | JObj "(string \<times> jv) list"

definition json_list :: "('a \<Rightarrow> jv) \<Rightarrow> 'a list \<Rightarrow> jv" where
  "json_list f xs = (if xs = [] then JNull else JArr (map f xs))"

definition json_attachment :: "(string \<Rightarrow> string) \<Rightarrow> attachment \<Rightarrow> jv" where
  "json_attachment utf a =
     JObj [(''Filename'', JStr (utf (at_filename a))), (''Content'', if at_content a = [] then JNull else JStr (pad_encode (at_content a))),
           (''ContentType'', JStr (utf (at_type a)))]"

definition json_message :: "(string \<Rightarrow> string) \<Rightarrow> message \<Rightarrow> jv" where
  "json_message utf m =
     JObj [(''From'', JStr (utf (ms_from m))), (''ReplyTo'', JStr (utf (ms_reply_to m))),
           (''To'', json_list (JStr \<circ> utf) (ms_to m)), (''Cc'', json_list (JStr \<circ> utf) (ms_cc m)),
           (''Bcc'', json_list (JStr \<circ> utf) (ms_bcc m)), (''Subject'', JStr (utf (ms_subject m))),
           (''Text'', JStr (utf (ms_text m))), (''HTML'', JStr (utf (ms_html m))),
           (''Attachments'', json_list (json_attachment utf) (ms_attachments m))]"

definition un_str :: "jv \<Rightarrow> string option" where
  "un_str j = (case j of JStr s \<Rightarrow> Some s | JNull \<Rightarrow> Some [] | _ \<Rightarrow> None)"

definition un_bytes :: "jv \<Rightarrow> string option" where
  "un_bytes j = (case j of JStr s \<Rightarrow> pad_decode s | JNull \<Rightarrow> Some [] | _ \<Rightarrow> None)"

fun all_some :: "'a option list \<Rightarrow> 'a list option" where
  "all_some [] = Some []"
| "all_some (x # xs) = (case x of None \<Rightarrow> None | Some a \<Rightarrow> map_option (\<lambda>as. a # as) (all_some xs))"

definition un_list :: "(jv \<Rightarrow> 'a option) \<Rightarrow> jv \<Rightarrow> 'a list option" where
  "un_list f j = (case j of JArr js \<Rightarrow> all_some (map f js) | JNull \<Rightarrow> Some [] | _ \<Rightarrow> None)"

text \<open>A member is matched to a field whatever its case; the last one counts, unknown ones are skipped.\<close>

definition same_key :: "string \<Rightarrow> string \<Rightarrow> bool" where "same_key k f \<longleftrightarrow> to_lower k = to_lower f"

definition set_attachment :: "string \<times> jv \<Rightarrow> attachment option \<Rightarrow> attachment option" where
  "set_attachment kv acc =
     (case kv of (k, j) \<Rightarrow> Option.bind acc (\<lambda>a.
        if same_key k ''Filename'' then map_option (\<lambda>s. a\<lparr>at_filename := s\<rparr>) (un_str j)
        else if same_key k ''Content'' then map_option (\<lambda>s. a\<lparr>at_content := s\<rparr>) (un_bytes j)
        else if same_key k ''ContentType'' then map_option (\<lambda>s. a\<lparr>at_type := s\<rparr>) (un_str j)
        else Some a))"

definition empty_attachment :: attachment where "empty_attachment = \<lparr>at_filename = [], at_content = [], at_type = []\<rparr>"

definition un_attachment :: "jv \<Rightarrow> attachment option" where
  "un_attachment j =
     (case j of JObj kvs \<Rightarrow> fold set_attachment kvs (Some empty_attachment) | JNull \<Rightarrow> Some empty_attachment | _ \<Rightarrow> None)"

definition set_member :: "string \<times> jv \<Rightarrow> message option \<Rightarrow> message option" where
  "set_member kv acc =
     (case kv of (k, j) \<Rightarrow> Option.bind acc (\<lambda>m.
        if same_key k ''From'' then map_option (\<lambda>s. m\<lparr>ms_from := s\<rparr>) (un_str j)
        else if same_key k ''ReplyTo'' then map_option (\<lambda>s. m\<lparr>ms_reply_to := s\<rparr>) (un_str j)
        else if same_key k ''To'' then map_option (\<lambda>s. m\<lparr>ms_to := s\<rparr>) (un_list un_str j)
        else if same_key k ''Cc'' then map_option (\<lambda>s. m\<lparr>ms_cc := s\<rparr>) (un_list un_str j)
        else if same_key k ''Bcc'' then map_option (\<lambda>s. m\<lparr>ms_bcc := s\<rparr>) (un_list un_str j)
        else if same_key k ''Subject'' then map_option (\<lambda>s. m\<lparr>ms_subject := s\<rparr>) (un_str j)
        else if same_key k ''Text'' then map_option (\<lambda>s. m\<lparr>ms_text := s\<rparr>) (un_str j)
        else if same_key k ''HTML'' then map_option (\<lambda>s. m\<lparr>ms_html := s\<rparr>) (un_str j)
        else if same_key k ''Attachments'' then map_option (\<lambda>s. m\<lparr>ms_attachments := s\<rparr>) (un_list un_attachment j)
        else Some m))"

definition empty_message :: message where
  "empty_message = \<lparr>ms_from = [], ms_reply_to = [], ms_to = [], ms_cc = [], ms_bcc = [], ms_subject = [], ms_text = [],
     ms_html = [], ms_attachments = []\<rparr>"

text \<open>A payload: the message itself in memory, the parsed JSON from Redis. \<open>None\<close> is an error of the decoding.\<close>

datatype payload = Intact message | Parsed jv

definition decode_message :: "payload \<Rightarrow> message option" where
  "decode_message p =
     (case p of
        Intact m \<Rightarrow> Some m
      | Parsed (JObj kvs) \<Rightarrow> fold set_member kvs (Some empty_message)
      | Parsed JNull \<Rightarrow> Some empty_message
      | Parsed _ \<Rightarrow> None)"

definition queue_task_name :: string where "queue_task_name = ''kyrux.mail.send''"

definition new_queued :: "payload queue option \<Rightarrow> payload queue option" where
  "new_queued q = map_option (register_handler queue_task_name) q"

datatype 'e send_error = SendFailed 'e | NotQueued queue_error | ChannelClosed

text \<open>\<open>Queued.Send\<close> over any sender; the queue is in memory mode.\<close>

definition queued_send ::
  "(message \<Rightarrow> 'v \<Rightarrow> 'e option \<times> 'v) \<Rightarrow> time \<Rightarrow> message \<Rightarrow> payload queue option \<Rightarrow> 'v \<Rightarrow>
   'e send_error option \<times> payload queue option \<times> 'v"
where
  "queued_send send now m q v =
     (case q of
        None \<Rightarrow> (case send m v of (e, v1) \<Rightarrow> (map_option SendFailed e, None, v1))
      | Some q0 \<Rightarrow>
          (case enqueue_check queue_task_name (Intact m) now q0 of
             Inl e \<Rightarrow> (Some (NotQueued e), Some q0, v)
           | Inr t \<Rightarrow>
               (case enqueue_task t q0 of
                  None \<Rightarrow> (Some ChannelClosed, Some q0, v)
                | Some (e, q1) \<Rightarrow> (map_option NotQueued e, Some q1, v))))"

definition mail_handle :: "(message \<Rightarrow> 'v \<Rightarrow> 'e option \<times> 'v) \<Rightarrow> payload \<Rightarrow> 'v \<Rightarrow> handler_result \<times> 'v" where
  "mail_handle send p v =
     (case decode_message p of
        None \<Rightarrow> (HandlerError, v)
      | Some m \<Rightarrow> (case send m v of (e, v1) \<Rightarrow> (if e = None then HandlerOk else HandlerError, v1)))"

subsection \<open>The other providers\<close>

record sg_mail =
  sg_from :: string
  sg_subject :: string
  sg_tos :: "string list"
  sg_ccs :: "string list"
  sg_bccs :: "string list"
  sg_contents :: "(string \<times> string) list"
  sg_attachments :: "(string \<times> string \<times> string \<times> string) list"

definition build_sg_mail :: "message \<Rightarrow> sg_mail" where
  "build_sg_mail m =
     \<lparr>sg_from = ms_from m, sg_subject = ms_subject m, sg_tos = ms_to m, sg_ccs = ms_cc m, sg_bccs = ms_bcc m,
      sg_contents = (if ms_text m \<noteq> [] then [(''text/plain'', ms_text m)] else []) @
                    (if ms_html m \<noteq> [] then [(''text/html'', ms_html m)] else []),
      sg_attachments = map (\<lambda>a. (pad_encode (at_content a), at_type a, at_filename a, ''attachment'')) (ms_attachments m)\<rparr>"

datatype sg_error = SgTransport | SgStatus int

definition sg_send :: "(sg_mail \<Rightarrow> 'v \<Rightarrow> int option \<times> 'v) \<Rightarrow> message \<Rightarrow> 'v \<Rightarrow> sg_error option \<times> 'v" where
  "sg_send api m v =
     (case api (build_sg_mail m) v of
        (None, v1) \<Rightarrow> (Some SgTransport, v1)
      | (Some status, v1) \<Rightarrow> (if status \<ge> 300 then Some (SgStatus status) else None, v1))"

record sg_adapter =
  sg_name :: string
  sg_api_key :: string
  sg_host :: string
  sg_request :: "(string \<times> string) option"

definition sg_new :: "string \<Rightarrow> string \<Rightarrow> sg_adapter" where
  "sg_new name key = \<lparr>sg_name = name, sg_api_key = key, sg_host = [], sg_request = None\<rparr>"

definition sg_module_name :: "sg_adapter \<Rightarrow> string" where
  "sg_module_name a = ''mail.sendgrid.'' @ sg_name a"

definition sg_init_fails :: "sg_adapter \<Rightarrow> bool" where
  "sg_init_fails a \<longleftrightarrow> sg_api_key a = []"

text \<open>The client is a POST request with the key and the address it goes to.\<close>

definition sg_default_host :: string where "sg_default_host = ''https://api.sendgrid.com''"

definition sg_configure :: "sg_adapter \<Rightarrow> sg_adapter" where
  "sg_configure a =
     a\<lparr>sg_request := Some (sg_api_key a, (if sg_host a = [] then sg_default_host else sg_host a) @ ''/v3/mail/send'')\<rparr>"

record ses_input =
  se_source :: string
  se_to :: "string list"
  se_cc :: "string list"
  se_bcc :: "string list"
  se_subject :: string
  se_text :: "string option"
  se_html :: "string option"

definition build_ses_input :: "message \<Rightarrow> ses_input" where
  "build_ses_input m =
     \<lparr>se_source = ms_from m, se_to = ms_to m, se_cc = ms_cc m, se_bcc = ms_bcc m, se_subject = ms_subject m,
      se_text = (if ms_text m \<noteq> [] then Some (ms_text m) else None),
      se_html = (if ms_html m \<noteq> [] then Some (ms_html m) else None)\<rparr>"

definition ses_send :: "(ses_input \<Rightarrow> 'v \<Rightarrow> bool \<times> 'v) \<Rightarrow> message \<Rightarrow> 'v \<Rightarrow> bool \<times> 'v" where
  "ses_send api m v = api (build_ses_input m) v"

record ses_adapter =
  se_name :: string
  se_region :: string
  se_endpoint :: string
  se_access_key :: string
  se_secret_key :: string
  se_ready :: bool

definition ses_new :: "string \<Rightarrow> string \<Rightarrow> string \<Rightarrow> string \<Rightarrow> string \<Rightarrow> ses_adapter" where
  "ses_new name region endpoint access secret =
     \<lparr>se_name = name, se_region = region, se_endpoint = endpoint, se_access_key = access, se_secret_key = secret, se_ready = False\<rparr>"

definition ses_module_name :: "ses_adapter \<Rightarrow> string" where
  "ses_module_name a = ''mail.ses.'' @ se_name a"

definition ses_init_fails :: "ses_adapter \<Rightarrow> bool" where
  "ses_init_fails a \<longleftrightarrow> se_region a = []"

text \<open>The SDK is given static keys and the endpoint only when one is set; then it has to load and its quota to be readable.\<close>

definition ses_configure ::
  "(string \<Rightarrow> (string \<times> string) option \<Rightarrow> bool) \<Rightarrow> (string option \<Rightarrow> bool) \<Rightarrow> ses_adapter \<Rightarrow> bool \<times> ses_adapter"
where
  "ses_configure loads quota a =
     (if \<not> loads (se_region a) (if se_endpoint a \<noteq> [] then Some (se_access_key a, se_secret_key a) else None) then (False, a)
      else if \<not> quota (if se_endpoint a \<noteq> [] then Some (se_endpoint a) else None) then (False, a)
      else (True, a\<lparr>se_ready := True\<rparr>))"

subsection \<open>The session follows a script\<close>

definition core :: "(bool \<times> smtp_command \<times> bool) list \<Rightarrow> (bool \<times> smtp_command \<times> bool) list" where
  "core entries = filter (\<lambda>(t, c, ok). c \<notin> {Banner, Ehlo, Helo, StartTLS, Quit}) entries"

definition cmd_ok :: "smtp_command \<Rightarrow> bool" where
  "cmd_ok c = (case c of MailFrom a \<Rightarrow> valid_line a | RcptTo a \<Rightarrow> valid_line a | _ \<Rightarrow> True)"

text \<open>How far a script got: all of it was accepted, or a beginning, with at most one refusal at its end.\<close>

definition progress :: "bool \<Rightarrow> smtp_command list \<Rightarrow> bool \<Rightarrow> (bool \<times> smtp_command \<times> bool) list \<Rightarrow> bool" where
  "progress tls script whole entries \<longleftrightarrow>
     (\<forall>(t, c, ok)\<in>set entries. cmd_ok c) \<and>
     (if whole then entries = map (\<lambda>c. (tls, c, True)) script
      else (\<exists>k < length script. entries = map (\<lambda>c. (tls, c, True)) (take k script) \<or>
              entries = map (\<lambda>c. (tls, c, True)) (take k script) @ [(tls, script ! k, False)]))"

lemma core_append: "core (a @ b) = core a @ core b"
  by (simp add: core_def)

lemma progress_append:
  assumes "progress tls s1 True e1" "progress tls s2 w e2"
  shows "progress tls (s1 @ s2) w (e1 @ e2)"
proof (cases w)
  case False
  with assms(2) obtain k where k: "k < length s2" "e2 = map (\<lambda>c. (tls, c, True)) (take k s2) \<or>
      e2 = map (\<lambda>c. (tls, c, True)) (take k s2) @ [(tls, s2 ! k, False)]" by (auto simp: progress_def)
  have "length s1 + k < length (s1 @ s2)" "take (length s1 + k) (s1 @ s2) = s1 @ take k s2" "(s1 @ s2) ! (length s1 + k) = s2 ! k"
    using k(1) by simp_all
  with False assms k(2) show ?thesis unfolding progress_def by (auto intro!: exI[of _ "length s1 + k"])
qed (use assms in \<open>auto simp: progress_def\<close>)

lemma progress_stop:
  assumes "progress tls s1 False e1"
  shows "progress tls (s1 @ s2) False e1"
proof -
  from assms obtain k where k: "k < length s1" "e1 = map (\<lambda>c. (tls, c, True)) (take k s1) \<or>
      e1 = map (\<lambda>c. (tls, c, True)) (take k s1) @ [(tls, s1 ! k, False)]" by (auto simp: progress_def)
  have "k < length (s1 @ s2)" "take k (s1 @ s2) = take k s1" "(s1 @ s2) ! k = s1 ! k" using k(1) by (simp_all add: nth_append)
  with assms k(2) show ?thesis unfolding progress_def by (auto intro!: exI[of _ k])
qed

lemma progress_none: "script \<noteq> [] \<Longrightarrow> progress tls script False []"
  by (auto simp: progress_def intro!: exI[of _ 0])

definition visible :: "smtp_command \<Rightarrow> bool" where
  "visible c \<longleftrightarrow> c \<notin> {Banner, Ehlo, Helo, StartTLS, Quit}"

lemma sayD: "say sr c s = (ok, s1) \<Longrightarrow> sc_tls s1 = sc_tls s \<and> sc_log s1 = sc_log s @ [(sc_tls s, c, ok)]"
  by (auto simp: say_def split: prod.splits)

lemma core_say: "say sr c s = (ok, s1) \<Longrightarrow>
  sc_tls s1 = sc_tls s \<and> core (sc_log s1) = core (sc_log s) @ (if visible c then [(sc_tls s, c, ok)] else [])"
  by (auto dest!: sayD simp: core_append visible_def) (simp_all add: core_def)

lemma ehloD: "ehlo sr s = (ok, s1) \<Longrightarrow> sc_tls s1 = sc_tls s \<and> core (sc_log s1) = core (sc_log s)"
  using core_say[of sr Ehlo s] by (auto simp: ehlo_def visible_def split: prod.splits if_splits)

lemma helloD:
  assumes "hello sr s = (ok, s1)"
  shows "sc_tls s1 = sc_tls s \<and> core (sc_log s1) = core (sc_log s)"
proof (cases "sc_hello s")
  case None
  obtain a s2 where e: "ehlo sr s = (a, s2)" by fastforce
  obtain b s3 where h: "say sr Helo s2 = (b, s3)" by fastforce
  from assms None e h ehloD[OF e] core_say[OF h] show ?thesis by (cases a) (auto simp: hello_def visible_def)
qed (use assms in \<open>auto simp: hello_def\<close>)

lemma cmdD:
  assumes "cmd sr c s = (ok, s1)"
  shows "sc_tls s1 = sc_tls s \<and>
    (\<exists>new. core (sc_log s1) = core (sc_log s) @ new \<and> (if visible c then cmd_ok c \<longrightarrow> progress (sc_tls s) [c] ok new else new = []))"
proof (cases "hello sr s")
  case (Pair h s2)
  note hd = helloD[OF Pair]
  show ?thesis
  proof (cases h)
    case False
    with assms Pair have "s1 = s2" "\<not> ok" by (simp_all add: cmd_def)
    with hd show ?thesis by (auto simp: progress_none)
  next
    case True
    with assms Pair have "say sr c s2 = (ok, s1)" by (simp add: cmd_def)
    from core_say[OF this] hd show ?thesis by (auto simp: progress_def)
  qed
qed

lemma line_cmdD:
  assumes "line_cmd sr mk a s = (ok, s1)" "visible (mk a)" "valid_line a \<Longrightarrow> cmd_ok (mk a)"
  shows "sc_tls s1 = sc_tls s \<and> (\<exists>new. core (sc_log s1) = core (sc_log s) @ new \<and> progress (sc_tls s) [mk a] ok new)"
  using assms cmdD[of sr "mk a" s ok s1] by (auto simp: line_cmd_def progress_none split: if_splits)

lemma rcptsD: "rcpts sr parse rs s = (e, s1) \<Longrightarrow>
  sc_tls s1 = sc_tls s \<and> (\<exists>new. core (sc_log s1) = core (sc_log s) @ new \<and>
    progress (sc_tls s) (map (\<lambda>r. RcptTo (envelope_address parse r)) rs) (e = None) new)"
proof (induction rs arbitrary: s)
  case Nil
  then show ?case by (auto simp: progress_def)
next
  case (Cons r rs)
  obtain ok s2 where l: "line_cmd sr RcptTo (envelope_address parse r) s = (ok, s2)" by fastforce
  from line_cmdD[OF l] obtain n1 where n1: "sc_tls s2 = sc_tls s" "core (sc_log s2) = core (sc_log s) @ n1"
      "progress (sc_tls s) [RcptTo (envelope_address parse r)] ok n1" by (auto simp: visible_def cmd_ok_def)
  show ?case
  proof (cases ok)
    case True
    with Cons.prems l have "rcpts sr parse rs s2 = (e, s1)" by simp
    from Cons.IH[OF this] n1 obtain n2 where "sc_tls s1 = sc_tls s" "core (sc_log s1) = core (sc_log s) @ n1 @ n2"
        "progress (sc_tls s) (map (\<lambda>r. RcptTo (envelope_address parse r)) rs) (e = None) n2" by auto
    moreover have "progress (sc_tls s) [RcptTo (envelope_address parse r)] True n1" using n1(3) True by simp
    ultimately show ?thesis using progress_append[of "sc_tls s" "[RcptTo (envelope_address parse r)]" n1] by auto
  next
    case False
    with Cons.prems l have "e \<noteq> None" "s1 = s2" by auto
    moreover have "progress (sc_tls s) ([RcptTo (envelope_address parse r)] @ map (\<lambda>r. RcptTo (envelope_address parse r)) rs) False n1"
      using n1(3) False by (intro progress_stop) simp
    ultimately show ?thesis using n1 by auto
  qed
qed

lemma rcpts_error: "rcpts sr parse rs s = (e, s1) \<Longrightarrow> e \<noteq> Some QuitFailed"
  by (induction rs arbitrary: s) (auto split: prod.splits bool.splits)

lemma transmitD:
  assumes "transmit sr content s = (e, s1)"
  shows "\<exists>new. core (sc_log s1) = core (sc_log s) @ new \<and>
    progress (sc_tls s) [Data, Body content] (e = None \<or> e = Some QuitFailed) new"
proof -
  obtain a s2 where d: "cmd sr Data s = (a, s2)" by fastforce
  from cmdD[OF d] obtain n1 where n1: "sc_tls s2 = sc_tls s" "core (sc_log s2) = core (sc_log s) @ n1" "progress (sc_tls s) [Data] a n1"
    by (auto simp: visible_def cmd_ok_def)
  show ?thesis
  proof (cases a)
    case False
    with assms d have "e = Some DataRefused" "s1 = s2" by (simp_all add: transmit_def)
    moreover have "progress (sc_tls s) ([Data] @ [Body content]) False n1" using n1(3) False by (intro progress_stop) simp
    ultimately show ?thesis using n1(2) by auto
  next
    case True
    obtain b s3 where b: "say sr (Body content) s2 = (b, s3)" by fastforce
    obtain q s4 where q: "cmd sr Quit s3 = (q, s4)" by fastforce
    have n2: "core (sc_log s3) = core (sc_log s) @ n1 @ [(sc_tls s, Body content, b)]" "sc_tls s3 = sc_tls s"
      using core_say[OF b] n1 by (simp_all add: visible_def)
    have "progress (sc_tls s) [Body content] b [(sc_tls s, Body content, b)]" by (auto simp: progress_def cmd_ok_def)
    from progress_append[OF n1(3)[simplified True] this]
    have p: "progress (sc_tls s) [Data, Body content] b (n1 @ [(sc_tls s, Body content, b)])" by simp
    have "core (sc_log s4) = core (sc_log s3)" using cmdD[OF q] by (auto simp: visible_def)
    with assms d True b q n2 p show ?thesis by (cases b) (auto simp: transmit_def)
  qed
qed

definition script :: "(string \<Rightarrow> string option) \<Rightarrow> string \<Rightarrow> message \<Rightarrow> smtp_command list" where
  "script parse content m =
     MailFrom (envelope_address parse (ms_from m)) #
     map (\<lambda>r. RcptTo (envelope_address parse r)) (ms_to m @ ms_cc m @ ms_bcc m) @ [Data, Body content]"

lemma deliverD:
  assumes "deliver sr parse content m s = (e, s1)"
  shows "\<exists>new. core (sc_log s1) = core (sc_log s) @ new \<and>
    progress (sc_tls s) (script parse content m) (e = None \<or> e = Some QuitFailed) new"
proof -
  let ?f = "MailFrom (envelope_address parse (ms_from m))" and ?rs = "ms_to m @ ms_cc m @ ms_bcc m"
  let ?r = "map (\<lambda>r. RcptTo (envelope_address parse r)) ?rs"
  obtain a s2 where l: "line_cmd sr MailFrom (envelope_address parse (ms_from m)) s = (a, s2)" by fastforce
  from line_cmdD[OF l] obtain n1 where n1: "sc_tls s2 = sc_tls s" "core (sc_log s2) = core (sc_log s) @ n1" "progress (sc_tls s) [?f] a n1"
    by (auto simp: visible_def cmd_ok_def)
  have sc: "script parse content m = [?f] @ ?r @ [Data, Body content]" by (simp add: script_def)
  show ?thesis
  proof (cases a)
    case False
    with assms l have "e = Some FromRefused" "s1 = s2" by (simp_all add: deliver_def)
    moreover have "progress (sc_tls s) ([?f] @ ?r @ [Data, Body content]) False n1" using n1(3) False by (intro progress_stop) simp
    ultimately show ?thesis using n1(2) unfolding sc by auto
  next
    case True
    obtain e2 s3 where r: "rcpts sr parse ?rs s2 = (e2, s3)" by fastforce
    from rcptsD[OF r] n1 obtain n2 where n2: "sc_tls s3 = sc_tls s" "core (sc_log s3) = core (sc_log s) @ n1 @ n2"
        "progress (sc_tls s) ?r (e2 = None) n2" by auto
    have p1: "progress (sc_tls s) [?f] True n1" using n1(3) True by simp
    show ?thesis
    proof (cases e2)
      case (Some x)
      with r rcpts_error have "x \<noteq> QuitFailed" by fast
      have "progress (sc_tls s) (?r @ [Data, Body content]) False n2" using n2(3) Some by (intro progress_stop) simp
      from progress_append[OF p1 this] show ?thesis
        using assms l True r Some n2(2) \<open>x \<noteq> QuitFailed\<close> unfolding sc by (auto simp: deliver_def)
    next
      case None
      with assms l True r have t: "transmit sr content s3 = (e, s1)" by (simp add: deliver_def)
      from transmitD[OF t] n2 obtain n3 where n3: "core (sc_log s1) = core (sc_log s) @ n1 @ n2 @ n3"
          "progress (sc_tls s) [Data, Body content] (e = None \<or> e = Some QuitFailed) n3" by auto
      have "progress (sc_tls s) ?r True n2" using n2(3) None by simp
      from progress_append[OF p1 progress_append[OF this n3(2)]] n3(1) show ?thesis unfolding sc by auto
    qed
  qed
qed

lemma secure_sessionD:
  assumes "secure_session sr cl s = (e, s1)" "sc_tls s = cl_implicit_tls cl"
  shows "core (sc_log s1) = core (sc_log s) \<and> e \<noteq> Some QuitFailed \<and> (e = None \<longrightarrow> (cl_use_tls cl \<or> cl_implicit_tls cl \<longrightarrow> sc_tls s1))"
proof (cases "cl_use_tls cl \<and> \<not> cl_implicit_tls cl")
  case True
  obtain a s2 where c: "cmd sr StartTLS s = (a, s2)" by fastforce
  have c2: "core (sc_log s2) = core (sc_log s)" using cmdD[OF c] by (auto simp: visible_def)
  obtain b s3 where e: "ehlo sr (s2\<lparr>sc_tls := True\<rparr>) = (b, s3)" by fastforce
  from assms True c e c2 ehloD[OF e] show ?thesis by (cases a) (auto simp: secure_session_def start_tls_def split: if_splits)
qed (use assms in \<open>auto simp: secure_session_def\<close>)

lemma log_in_sessionD:
  assumes "log_in_session sr parse cl s = (e, s1)"
  shows "e \<noteq> Some QuitFailed \<and>
    (\<exists>auth new. auth \<in> {[], [AuthPlain (envelope_address parse (cl_username cl)) (cl_password cl)]} \<and>
      (auth \<noteq> [] \<longrightarrow> cl_username cl \<noteq> [] \<and> (sc_tls s \<or> localhost_name (cl_host cl))) \<and>
      core (sc_log s1) = core (sc_log s) @ new \<and>
      (if e = None then progress (sc_tls s) auth True new \<and> sc_tls s1 = sc_tls s
       else \<forall>more. more \<noteq> [] \<longrightarrow> progress (sc_tls s) (auth @ more) False new))"
proof -
  let ?a = "AuthPlain (envelope_address parse (cl_username cl)) (cl_password cl)"
  obtain h s2 where h: "hello sr s = (h, s2)" by fastforce
  note hd = helloD[OF h]
  consider "cl_username cl = []" | "cl_username cl \<noteq> []" "\<not> h \<or> \<not> sc_ext s2" | "cl_username cl \<noteq> []" "h" "sc_ext s2" by blast
  then show ?thesis
  proof cases
    case 1
    with assms show ?thesis by (auto simp: log_in_session_def progress_def intro!: exI[of _ "[]"])
  next
    case 2
    with assms h hd show ?thesis by (auto simp: log_in_session_def progress_def intro!: exI[of _ "[]"])
  next
    case 3
    obtain a s3 where a: "auth_plain sr (cl_host cl) (envelope_address parse (cl_username cl)) (cl_password cl) s2 = (a, s3)" by fastforce
    have r: "e = (if a then None else Some AuthRefused)" "s1 = s3" using assms h a 3 by (simp_all add: log_in_session_def)
    obtain h2 s4 where h2: "hello sr s2 = (h2, s4)" by fastforce
    note hd2 = helloD[OF h2]
    have quit: "core (sc_log (snd (cmd sr Quit x))) = core (sc_log x)" for x
      using cmdD[of sr Quit x] by (cases "cmd sr Quit x") (auto simp: visible_def)
    obtain b s5 where b: "say sr ?a s4 = (b, s5)" by fastforce
    have cb: "sc_tls s5 = sc_tls s" "core (sc_log s5) = core (sc_log s) @ [(sc_tls s, ?a, b)]"
      using core_say[OF b] hd hd2 by (simp_all add: visible_def)
    consider "\<not> h2" | "h2" "\<not> sc_tls s4 \<and> \<not> localhost_name (cl_host cl)" | "h2" "sc_tls s4 \<or> localhost_name (cl_host cl)" "b"
      | "h2" "sc_tls s4 \<or> localhost_name (cl_host cl)" "\<not> b" by blast
    then show ?thesis
    proof cases
      case 1
      with a h2 have "\<not> a" "s3 = s4" by (simp_all add: auth_plain_def)
      with r hd hd2 show ?thesis by (auto simp: progress_none intro!: exI[of _ "[]"])
    next
      case 2
      with a h2 have "\<not> a" "core (sc_log s3) = core (sc_log s4)" using quit[of s4] by (auto simp: auth_plain_def)
      with r hd hd2 show ?thesis by (auto simp: progress_none intro!: exI[of _ "[]"])
    next
      case c: 3
      with a h2 b have "a" "s3 = s5" by (auto simp: auth_plain_def)
      then show ?thesis using r cb c hd hd2 3 by (intro conjI exI[of _ "[?a]"] exI[of _ "[(sc_tls s, ?a, True)]"]) (auto simp: progress_def cmd_ok_def)
    next
      case c: 4
      with a h2 b have "\<not> a" "core (sc_log s3) = core (sc_log s5)" using quit[of s5] by (auto simp: auth_plain_def)
      moreover have "progress (sc_tls s) ([?a] @ more) False [(sc_tls s, ?a, False)]" for more
        by (auto simp: progress_def cmd_ok_def intro!: exI[of _ 0])
      ultimately show ?thesis using r cb c hd hd2 3 by (intro conjI exI[of _ "[?a]"] exI[of _ "[(sc_tls s, ?a, False)]"]) auto
    qed
  qed
qed

lemma smtp_session:
  assumes "smtp_send sr parse ab mb cl m v = (e, v', sent)"
  shows "\<exists>auth tls. auth \<in> {[], [AuthPlain (envelope_address parse (cl_username cl)) (cl_password cl)]} \<and>
    (auth \<noteq> [] \<longrightarrow> cl_username cl \<noteq> [] \<and> (tls \<or> localhost_name (cl_host cl))) \<and>
    (cl_use_tls cl \<or> cl_implicit_tls cl \<longrightarrow> tls) \<and>
    progress tls (auth @ script parse (message_text ab mb (m\<lparr>ms_bcc := []\<rparr>)) m) (e = None \<or> e = Some QuitFailed) (core sent)"
proof -
  have nobcc: "message_text ab mb (m\<lparr>ms_bcc := []\<rparr>) = message_text ab mb m"
    by (simp add: message_text_def build_mime_def message_headers_def alternative_parts_def cong: if_cong)
  let ?sc = "script parse (message_text ab mb m) m"
  have ne: "progress True ([] @ ?sc) False []" by (simp add: progress_none script_def)
  obtain d v1 where dial: "sr_dial sr (cl_implicit_tls cl) v = (d, v1)" by fastforce
  let ?s0 = "\<lparr>sc_server = v1, sc_tls = cl_implicit_tls cl, sc_hello = None, sc_ext = False, sc_log = []\<rparr>"
  obtain g s where ban: "say sr Banner ?s0 = (g, s)" by fastforce
  obtain e1 s1 where sec: "secure_session sr cl s = (e1, s1)" by fastforce
  obtain e2 s2 where li: "log_in_session sr parse cl s1 = (e2, s2)" by fastforce
  obtain e3 s3 where de: "deliver sr parse (message_text ab mb m) m s2 = (e3, s3)" by fastforce
  have s: "sc_tls s = cl_implicit_tls cl" "core (sc_log s) = []" using core_say[OF ban] by (simp_all add: visible_def core_def)
  note sd0 = secure_sessionD[OF sec s(1)]
  have sd: "core (sc_log s1) = []" "e1 \<noteq> Some QuitFailed" using sd0 s(2) by simp_all
  have sdt: "e1 = None \<Longrightarrow> cl_use_tls cl \<or> cl_implicit_tls cl \<longrightarrow> sc_tls s1" using sd0 by simp
  consider "\<not> d" | "d" "\<not> g" | "d" "g" "e1 \<noteq> None" | "d" "g" "e1 = None" "e2 \<noteq> None" | "d" "g" "e1 = None" "e2 = None" by blast
  then show ?thesis
  proof cases
    case 1
    with assms dial have "e = Some ConnectFailed" "sent = []" by (simp_all add: smtp_send_def)
    then show ?thesis unfolding nobcc using ne by (intro exI[of _ "[]"] exI[of _ True]) (simp add: core_def)
  next
    case 2
    with assms dial ban have "e = Some HandshakeFailed" "sent = sc_log s" by (simp_all add: smtp_send_def)
    then show ?thesis unfolding nobcc using ne s by (intro exI[of _ "[]"] exI[of _ True]) simp
  next
    case 3
    with assms dial ban sec have r: "e = e1 \<and> sent = sc_log s1" by (cases e1) (simp_all add: smtp_send_def)
    have w: "(e = None \<or> e = Some QuitFailed) = False" "core sent = []" using 3(3) sd r by simp_all
    show ?thesis unfolding nobcc w using ne by (intro exI[of _ "[]"] exI[of _ True]) simp
  next
    case 4
    with assms dial ban sec li have r: "e = e2" "sent = sc_log s2" by (cases e2; simp add: smtp_send_def)+
    from log_in_sessionD[OF li] 4(4) obtain auth new where l: "e2 \<noteq> Some QuitFailed"
        "auth \<in> {[], [AuthPlain (envelope_address parse (cl_username cl)) (cl_password cl)]}"
        "auth \<noteq> [] \<longrightarrow> cl_username cl \<noteq> [] \<and> (sc_tls s1 \<or> localhost_name (cl_host cl))" "core (sc_log s2) = core (sc_log s1) @ new"
        "\<And>more. more \<noteq> [] \<Longrightarrow> progress (sc_tls s1) (auth @ more) False new" by auto
    have "core sent = new" using l(4) r(2) sd(1) by simp
    then have "progress (sc_tls s1) (auth @ ?sc) False (core sent)" using l(5)[of ?sc] by (simp add: script_def)
    moreover have "(e = None \<or> e = Some QuitFailed) = False" using 4(4) l(1) r(1) by simp
    ultimately have "progress (sc_tls s1) (auth @ ?sc) (e = None \<or> e = Some QuitFailed) (core sent)" by (simp only:)
    then show ?thesis unfolding nobcc by (intro exI[of _ auth] exI[of _ "sc_tls s1"] conjI l(2,3) sdt[OF 4(3)])
  next
    case 5
    with assms dial ban sec li de have r: "e = e3" "sent = sc_log s3" by (simp_all add: smtp_send_def)
    from log_in_sessionD[OF li] 5(4) obtain auth new where l:
        "auth \<in> {[], [AuthPlain (envelope_address parse (cl_username cl)) (cl_password cl)]}"
        "auth \<noteq> [] \<longrightarrow> cl_username cl \<noteq> [] \<and> (sc_tls s1 \<or> localhost_name (cl_host cl))" "core (sc_log s2) = core (sc_log s1) @ new"
        "progress (sc_tls s1) auth True new" "sc_tls s2 = sc_tls s1" by auto
    from deliverD[OF de] l s sd obtain n2 where n2: "core (sc_log s3) = new @ n2"
        "progress (sc_tls s1) ?sc (e3 = None \<or> e3 = Some QuitFailed) n2" by auto
    have "progress (sc_tls s1) (auth @ ?sc) (e = None \<or> e = Some QuitFailed) (core sent)"
      using progress_append[OF l(4) n2(2)] r n2(1) by simp
    then show ?thesis unfolding nobcc by (intro exI[of _ auth] exI[of _ "sc_tls s1"] conjI l(1,2) sdt[OF 5(3)])
  qed
qed

text \<open>
  C31: What a mail server sees of one sending. Apart from greetings, STARTTLS and QUIT, its commands are in order
  a beginning of one script: the login, when it happens; MAIL FROM with the sender's address; one RCPT TO for
  every address of To, Cc and Bcc; DATA; the text of the message, which does not depend on Bcc. Every command
  but the last was accepted, so no message goes out unless all its recipients were, and \<open>Send\<close> reports
  success, or a refused QUIT, exactly when all of the script was accepted. All of it runs inside TLS when TLS is configured, the
  password goes only through TLS or to the machine itself, and no address breaks its line.
\<close>

theorem smtp_send_follows_script:
  assumes "smtp_send sr parse ab mb cl m v = (e, v', sent)"
  shows "\<exists>auth tls. auth \<in> {[], [AuthPlain (envelope_address parse (cl_username cl)) (cl_password cl)]} \<and>
    (auth \<noteq> [] \<longrightarrow> cl_username cl \<noteq> [] \<and> (tls \<or> localhost_name (cl_host cl))) \<and>
    (cl_use_tls cl \<or> cl_implicit_tls cl \<longrightarrow> tls) \<and>
    progress tls (auth @ script parse (message_text ab mb (m\<lparr>ms_bcc := []\<rparr>)) m) (e = None \<or> e = Some QuitFailed) (core sent)"
  by (rule smtp_session[OF assms])

text \<open>A server with AUTH that accepts everything but QUIT.\<close>

definition abrupt :: "unit smtp_server" where
  "abrupt = \<lparr>sr_reply = \<lambda>_ c v. (c \<noteq> Quit, v), sr_auth_ext = \<lambda>_. True, sr_dial = \<lambda>_ v. (True, v)\<rparr>"

definition sample_client :: smtp_client where
  "sample_client = \<lparr>cl_host = ''mx'', cl_port = ''587'', cl_username = ''u'', cl_password = ''p'', cl_use_tls = True, cl_implicit_tls = False\<rparr>"

definition sample_mail :: message where
  "sample_mail = \<lparr>ms_from = ''a'', ms_reply_to = [], ms_to = [''b''], ms_cc = [], ms_bcc = [''c''], ms_subject = ''s'',
     ms_text = ''t'', ms_html = [], ms_attachments = []\<rparr>"

lemma abrupt_run: "smtp_send abrupt (\<lambda>_. None) ''x'' ''y'' sample_client sample_mail () =
    (Some QuitFailed, (),
     [(False, Banner, True), (False, Ehlo, True), (False, StartTLS, True), (True, Ehlo, True), (True, AuthPlain ''u'' ''p'', True),
      (True, MailFrom ''a'', True), (True, RcptTo ''b'', True), (True, RcptTo ''c'', True), (True, Data, True),
      (True, Body (message_text ''x'' ''y'' sample_mail), True), (True, Quit, False)])"
  by (simp add: smtp_send_def abrupt_def sample_client_def sample_mail_def say_def secure_session_def start_tls_def cmd_def hello_def
      ehlo_def log_in_session_def auth_plain_def deliver_def line_cmd_def valid_line_def envelope_address_def transmit_def del: One_nat_def)

theorem smtp_send_follows_script_witness:
  "\<exists>auth tls. auth \<in> {[], [AuthPlain ''u'' ''p'']} \<and> tls \<and>
    progress tls (auth @ script (\<lambda>_. None) (message_text ''x'' ''y'' (sample_mail\<lparr>ms_bcc := []\<rparr>)) sample_mail) True
      (core (snd (snd (smtp_send abrupt (\<lambda>_. None) ''x'' ''y'' sample_client sample_mail ()))))"
  using smtp_send_follows_script[OF abrupt_run] unfolding abrupt_run
  by (auto simp: sample_client_def envelope_address_def)

subsection \<open>A refused QUIT sends again\<close>



subsection \<open>What is read is what was written\<close>

fun find_sub :: "string \<Rightarrow> string \<Rightarrow> nat option" where
  "find_sub d [] = (if d = [] then Some 0 else None)"
| "find_sub d (c # cs) = (if has_prefix (c # cs) d then Some 0 else map_option Suc (find_sub d cs))"

lemma find_sub_less: "find_sub d s = Some i \<Longrightarrow> d \<noteq> [] \<Longrightarrow> i < length s"
  by (induction s arbitrary: i) (auto split: if_splits)

lemma find_sub_drop: "find_sub d s = Some i \<Longrightarrow> d \<noteq> [] \<Longrightarrow> length s - (i + length d) < length s"
  using find_sub_less[of d s i] by (cases d) simp_all

text \<open>A reader of multipart bodies after RFC 2046: what is between delimiters, then headers up to the empty line.\<close>

function split_sub :: "string \<Rightarrow> string \<Rightarrow> string list" where
  "split_sub d s =
     (if d = [] then [s]
      else (case find_sub d s of None \<Rightarrow> [s] | Some i \<Rightarrow> take i s # split_sub d (drop (i + length d) s)))"
  by auto
termination by (relation "measure (\<lambda>(d, s). length s)") (simp_all add: find_sub_drop)

declare split_sub.simps [simp del]

function read_part :: "string \<Rightarrow> (string list \<times> string) option" where
  "read_part s =
     (case find_sub crlf s of
        None \<Rightarrow> None
      | Some i \<Rightarrow>
          if i = 0 then Some ([], drop 2 s)
          else map_option (\<lambda>(hs, b). (take i s # hs, b)) (read_part (drop (i + 2) s)))"
  by auto
termination by (relation "measure length") (auto dest!: find_sub_less simp: crlf_def)

declare read_part.simps [simp del]

definition read_multipart :: "string \<Rightarrow> string \<Rightarrow> (string list \<times> string) list option" where
  "read_multipart b s =
     all_some (map (\<lambda>seg. read_part (drop 2 seg))
       (takeWhile (\<lambda>seg. \<not> has_prefix seg ''--'') (tl (split_sub (crlf @ ''--'' @ b) (crlf @ s)))))"

lemma find_sub_none: "\<not> contains s d \<Longrightarrow> find_sub d s = None"
  by (induction s) auto

lemma find_sub_first:
  assumes "d = c # t" "c \<notin> set t" "\<not> contains p d"
  shows "find_sub d (p @ d @ r) = Some (length p)"
  using assms(3)
proof (induction p)
  case Nil
  show ?case by (simp add: assms(1))
next
  case (Cons x p)
  have "\<not> has_prefix (x # p @ d @ r) d"
  proof
    assume a: "has_prefix (x # p @ d @ r) d"
    show False
    proof (cases "length d \<le> length (x # p)")
      case True
      with a have "has_prefix (x # p) d" by (metis append_Cons prefix_append prefix_length_prefix prefixI)
      with Cons.prems show False by simp
    next
      case False
      with a have "has_prefix d (x # p)" by (metis append_Cons prefix_length_prefix prefixI linear)
      then obtain u where u: "d = (x # p) @ u" by (auto simp: prefix_def)
      with False have "u \<noteq> []" by auto
      from a u have "has_prefix (d @ r) u" by (auto simp: prefix_def)
      with \<open>u \<noteq> []\<close> assms(1) have "hd u = c" by (cases u) (auto simp: prefix_def)
      moreover have "hd u \<in> set t" using u assms(1) \<open>u \<noteq> []\<close> by (cases u) auto
      ultimately show False using assms(2) by simp
    qed
  qed
  with Cons show ?case by simp
qed

lemma split_sub_first: "d = c # t \<Longrightarrow> c \<notin> set t \<Longrightarrow> \<not> contains p d \<Longrightarrow> split_sub d (p @ d @ r) = p # split_sub d r"
  by (subst split_sub.simps) (simp add: find_sub_first[of d c t p r, simplified])

lemma split_sub_last: "\<not> contains s d \<Longrightarrow> split_sub d s = [s]"
  by (subst split_sub.simps) (simp add: find_sub_none)

text \<open>A boundary can delimit a part: it has no line break and its delimiter is nowhere in the part.\<close>

definition fits :: "string \<Rightarrow> string list \<times> string \<Rightarrow> bool" where
  "fits b p \<longleftrightarrow> \<not> contains (crlf @ mime_part p) (crlf @ ''--'' @ b) \<and> list_all (\<lambda>h. h \<noteq> [] \<and> valid_line h) (fst p)"

lemma split_multipart:
  assumes "CHR 0x0D \<notin> set b" "list_all (fits b) ps" "\<not> contains q (crlf @ ''--'' @ b)"
  shows "split_sub (crlf @ ''--'' @ b) (q @ multipart_text b ps) = q # map (\<lambda>p. crlf @ mime_part p) ps @ [''--'' @ crlf]"
  using assms(2,3)
proof (induction ps arbitrary: q)
  case Nil
  have "\<not> contains (''--'' @ crlf) (crlf @ ''--'' @ b)" by (simp add: crlf_def)
  from split_sub_last[OF this] split_sub_first[of "crlf @ ''--'' @ b" "CHR 0x0D" "CHR 0x0A # ''--'' @ b" q "''--'' @ crlf"] Nil assms(1)
  show ?case by (simp add: crlf_def)
next
  case (Cons p ps)
  have "split_sub (crlf @ ''--'' @ b) (q @ (crlf @ ''--'' @ b) @ (crlf @ mime_part p) @ multipart_text b ps) =
      q # split_sub (crlf @ ''--'' @ b) ((crlf @ mime_part p) @ multipart_text b ps)"
    using assms(1) Cons.prems by (intro split_sub_first[of _ "CHR 0x0D" "CHR 0x0A # ''--'' @ b"]) (simp_all add: crlf_def)
  with Cons.IH[of "crlf @ mime_part p"] Cons.prems show ?case by (simp add: fits_def)
qed

lemma read_mime_part: "list_all (\<lambda>h. h \<noteq> [] \<and> valid_line h) hs \<Longrightarrow> read_part (mime_part (hs, b)) = Some (hs, b)"
proof (induction hs)
  case Nil
  show ?case by (subst read_part.simps) (simp add: mime_part_def crlf_def)
next
  case (Cons h hs)
  have f: "find_sub crlf (h @ crlf @ r) = Some (length h)" if "CHR 0x0D \<notin> set h" for h r
    using that by (induction h) (auto simp: crlf_def)
  have e: "mime_part (h # hs, b) = h @ crlf @ mime_part (hs, b)" by (simp add: mime_part_def)
  have d: "drop (Suc (Suc (length h))) (h @ crlf @ r) = r" for r by (simp add: crlf_def)
  have "h \<noteq> []" "CHR 0x0D \<notin> set h" "read_part (mime_part (hs, b)) = Some (hs, b)" using Cons by (simp_all add: valid_line_def)
  then show ?case unfolding e by (subst read_part.simps) (simp add: f d del: drop_append)
qed

lemma multipart_reads_back:
  assumes "CHR 0x0D \<notin> set b" "list_all (fits b) ps"
  shows "read_multipart b (multipart b ps) = Some ps"
proof -
  have some: "all_some (map Some ps) = Some ps" for ps :: "(string list \<times> string) list" by (induction ps) simp_all
  have parts: "map (\<lambda>seg. read_part (drop 2 seg)) (map (\<lambda>p. crlf @ mime_part p) ps) = map Some ps"
    using assms(2) by (induction ps) (auto simp: fits_def crlf_def intro: read_mime_part)
  have stop: "takeWhile (\<lambda>seg. \<not> has_prefix seg ''--'') (map (\<lambda>p. crlf @ mime_part p) ps @ [''--'' @ crlf]) = map (\<lambda>p. crlf @ mime_part p) ps"
    by (induction ps) (simp_all add: crlf_def)
  obtain q where q: "crlf @ multipart b ps = q @ multipart_text b ps" "\<not> contains q (crlf @ ''--'' @ b)"
  proof (cases ps)
    case Nil
    have "\<not> contains crlf (crlf @ ''--'' @ b)" by (simp add: crlf_def)
    with Nil show thesis by (intro that[of crlf]) (simp_all add: multipart_def)
  next
    case (Cons p qs)
    then show thesis by (intro that[of "[]"]) (simp_all add: multipart_def crlf_def)
  qed
  show ?thesis unfolding read_multipart_def q(1) split_multipart[OF assms q(2)] by (simp only: list.sel stop parts some)
qed

lemma filter_lines76: "length s \<le> 76 * k \<Longrightarrow> list_all (\<lambda>c. c \<noteq> CHR 0x0A \<and> c \<noteq> CHR 0x0D) s \<Longrightarrow>
    filter (\<lambda>c. c \<noteq> CHR 0x0A \<and> c \<noteq> CHR 0x0D) (lines76 k s) = s"
proof (induction k arbitrary: s)
  case (Suc k)
  have f: "filter (\<lambda>c. c \<noteq> CHR 0x0A \<and> c \<noteq> CHR 0x0D) (take 76 s) = take 76 s"
    using Suc.prems(2) by (intro filter_True) (auto simp: list_all_iff dest: in_set_takeD)
  have "length (drop 76 s) \<le> 76 * k" "list_all (\<lambda>c. c \<noteq> CHR 0x0A \<and> c \<noteq> CHR 0x0D) (drop 76 s)"
    using Suc.prems by (auto simp: list_all_iff dest: in_set_dropD)
  from Suc.IH[OF this] show ?case using f by (simp add: crlf_def)
qed simp

lemma pad_encode_clean: "filter (\<lambda>c. c \<noteq> CHR 0x0A \<and> c \<noteq> CHR 0x0D) (pad_encode s) = pad_encode s"
  using raw_encode_symbols[OF alphabets_ok(1)] alphabets_ok(1)
  by (auto simp: pad_encode_def Let_def alphabet_ok_def intro!: filter_True)

lemma pad_encode_no_break: "list_all (\<lambda>c. c \<noteq> CHR 0x0A \<and> c \<noteq> CHR 0x0D) (pad_encode s)"
proof -
  have "filter (\<lambda>c. c \<noteq> CHR 0x0A \<and> c \<noteq> CHR 0x0D) (pad_encode s) = pad_encode s"
    by (rule pad_encode_clean)
  then show ?thesis by (simp add: filter_id_conv list_all_iff)
qed

lemma base64_lines_decode: "pad_decode (base64_lines c) = Some c"
proof -
  have "filter (\<lambda>c. c \<noteq> CHR 0x0A \<and> c \<noteq> CHR 0x0D) (base64_lines c) = pad_encode c"
    unfolding base64_lines_def Let_def by (rule filter_lines76) (simp_all add: pad_encode_no_break)
  moreover have "filter (\<lambda>c. c \<noteq> CHR 0x0A \<and> c \<noteq> CHR 0x0D) (pad_encode c) = pad_encode c" by (rule pad_encode_clean)
  ultimately have "pad_decode (base64_lines c) = pad_decode (pad_encode c)" by (simp only: pad_decode_def)
  then show ?thesis by (simp only: pad_encode_decode)
qed



subsection \<open>The payload of the queue\<close>

definition message_strings :: "message \<Rightarrow> string set" where
  "message_strings m = {ms_from m, ms_reply_to m, ms_subject m, ms_text m, ms_html m} \<union> set (ms_to m) \<union> set (ms_cc m) \<union>
     set (ms_bcc m) \<union> at_filename ` set (ms_attachments m) \<union> at_type ` set (ms_attachments m)"

lemma all_some_map: "\<forall>x\<in>set xs. f (g x) = Some x \<Longrightarrow> all_some (map f (map g xs)) = Some xs"
  by (induction xs) simp_all

lemma un_json_list: "\<forall>x\<in>set xs. f (g x) = Some x \<Longrightarrow> un_list f (json_list g xs) = Some xs"
  using all_some_map[of xs f g] by (simp add: un_list_def json_list_def)

lemma un_json_attachment: "utf (at_filename a) = at_filename a \<Longrightarrow> utf (at_type a) = at_type a \<Longrightarrow> un_attachment (json_attachment utf a) = Some a"
  by (cases a) (auto simp: un_attachment_def json_attachment_def set_attachment_def un_str_def un_bytes_def empty_attachment_def
      same_key_def to_lower_def pad_encode_decode)


lemma payload_reads_back:
  assumes "\<forall>s\<in>message_strings m. utf s = s"
  shows "decode_message (Parsed (json_message utf m)) = Some m"
proof -
  have l: "un_list un_str (json_list (JStr \<circ> utf) xs) = Some xs" if "set xs \<subseteq> message_strings m" for xs
    using that assms by (intro un_json_list) (auto simp: un_str_def)
  have "set (ms_to m) \<subseteq> message_strings m" "set (ms_cc m) \<subseteq> message_strings m" "set (ms_bcc m) \<subseteq> message_strings m"
    by (auto simp: message_strings_def)
  note ls = this[THEN l]
  have a: "un_list un_attachment (json_list (json_attachment utf) (ms_attachments m)) = Some (ms_attachments m)"
    using assms by (intro un_json_list) (auto simp: message_strings_def intro!: un_json_attachment)
  have u: "utf (ms_from m) = ms_from m" "utf (ms_reply_to m) = ms_reply_to m" "utf (ms_subject m) = ms_subject m"
      "utf (ms_text m) = ms_text m" "utf (ms_html m) = ms_html m" using assms by (simp_all add: message_strings_def)
  have s: "un_str (JStr x) = Some x" for x by (simp add: un_str_def)
  show ?thesis
    by (simp add: decode_message_def json_message_def set_member_def empty_message_def u s ls a same_key_def to_lower_def to_lower_c_def is_upper_def)
qed

subsection \<open>The subject reads back\<close>

definition unhex :: "char \<Rightarrow> nat" where
  "unhex c = (if (of_char c :: nat) < 58 then of_char c - 48 else of_char c - 55)"

text \<open>A reader of encoded words after RFC 2047, behind the start of the first one.\<close>

function q_decode :: "string \<Rightarrow> string option" where
  "q_decode s =
     (case s of
        [] \<Rightarrow> None
      | c # r \<Rightarrow>
          if c = CHR ''?'' then
            (if r = ''='' then Some []
             else if has_prefix r (''= '' @ open_word) then q_decode (drop 12 r) else None)
          else if c = CHR ''='' then
            (if length r < 2 then None
             else map_option (\<lambda>t. char_of (16 * unhex (r ! 0) + unhex (r ! 1)) # t) (q_decode (drop 2 r)))
          else map_option (\<lambda>t. (if c = CHR ''_'' then CHR '' '' else c) # t) (q_decode r))"
  by auto
termination by (relation "measure length") auto

declare q_decode.simps [simp del]

lemma unhex_upper_hex: "n < 16 \<Longrightarrow> unhex (upper_hex n) = n"
  by (simp add: unhex_def upper_hex_def)

lemma q_decode_byte: "q_decode (q_byte c @ r) = map_option (\<lambda>t. c # t) (q_decode r)"
proof -
  have h: "char_of (16 * unhex (upper_hex (of_char c div 16)) + unhex (upper_hex (of_char c mod 16))) = c"
  proof -
    have "(of_char c :: nat) div 16 < 16" using nat_of_char_less_256[of c] by linarith
    then have "unhex (upper_hex (of_char c div 16)) = (of_char c :: nat) div 16" by (rule unhex_upper_hex)
    moreover have "unhex (upper_hex (of_char c mod 16)) = (of_char c :: nat) mod 16" by (rule unhex_upper_hex) simp
    ultimately have "char_of (16 * unhex (upper_hex (of_char c div 16)) + unhex (upper_hex (of_char c mod 16))) = char_of (of_char c :: nat)"
      by (simp only: mult_div_mod_eq)
    then show ?thesis by simp
  qed
  show ?thesis
    by (subst q_decode.simps) (auto simp: q_byte_def q_plain_def h)
qed

lemma q_decode_bytes: "q_decode (concat (map q_byte s) @ r) = map_option (\<lambda>t. s @ t) (q_decode r)"
proof (induction s)
  case Nil
  show ?case by (cases "q_decode r") simp_all
next
  case (Cons c s)
  then show ?case by (simp add: q_decode_byte option.map_comp comp_def)
qed

lemma q_decode_break: "q_decode (''?= '' @ open_word @ r) = q_decode r"
  by (subst q_decode.simps) (simp add: open_word_def)

lemma q_encode_reads_back: "q_decode (q_encode u s @ ''?='') = Some s"
proof (induction u s rule: q_encode.induct)
  case (1 u s)
  show ?case
  proof (cases "s = []")
    case True
    then show ?thesis by (simp add: q_encode.simps) (simp add: q_decode.simps)
  next
    case False
    define plain where "plain = (hd s = CHR '' '' \<or> q_plain (hd s))"
    define n where "n = (if plain then 1 else rune_len s)"
    define w where "w = (if plain then 1 else 3 * n)"
    define full where "full = (u + w > 63)"
    from 1[OF False plain_def n_def w_def full_def]
    have ih: "q_decode (q_encode ((if full then 0 else u) + w) (drop n s) @ ''?='') = Some (drop n s)" .
    have e: "q_encode u s = (if full then ''?= '' @ open_word else []) @ concat (map q_byte (take n s)) @
        q_encode ((if full then 0 else u) + w) (drop n s)"
      by (subst q_encode.simps) (simp only: False Let_def if_False plain_def n_def w_def full_def)
    have "q_decode (concat (map q_byte (take n s)) @ q_encode ((if full then 0 else u) + w) (drop n s) @ ''?='') = Some s"
      unfolding q_decode_bytes ih by simp
    then show ?thesis unfolding e using q_decode_break by (cases full) simp_all
  qed
qed

lemma valid_line_append: "valid_line (a @ b) \<longleftrightarrow> valid_line a \<and> valid_line b"
  by (auto simp: valid_line_def)

lemma valid_q_byte: "valid_line (q_byte c)"
proof -
  have d: "upper_hex n \<noteq> CHR 0x0D \<and> upper_hex n \<noteq> CHR 0x0A" if "n < 16" for n
  proof -
    have "(of_char (upper_hex n) :: nat) \<ge> 48"
      using that by (auto simp: upper_hex_def of_char_of)
    then show ?thesis by auto
  qed
  have "(of_char c :: nat) div 16 < 16" using nat_of_char_less_256[of c] by linarith
  then show ?thesis using d[of "of_char c div 16"] d[of "of_char c mod 16"] by (auto simp: q_byte_def q_plain_def valid_line_def)
qed

lemma valid_q_encode: "valid_line (q_encode u s)"
proof (induction u s rule: q_encode.induct)
  case (1 u s)
  have b: "valid_line (concat (map q_byte t))" for t using valid_q_byte by (auto simp: valid_line_def)
  have w: "valid_line (''?= '' @ open_word)" by (simp add: valid_line_def open_word_def)
  show ?case
  proof (cases "s = []")
    case True
    then show ?thesis by (simp add: q_encode.simps valid_line_def)
  next
    case False
    note ih = 1[OF False refl refl refl refl]
    show ?thesis by (subst q_encode.simps) (auto simp only: False Let_def if_False valid_line_append b ih w split: if_split, simp_all add: valid_line_def open_word_def)
  qed
qed

text \<open>
  A subject never breaks its header. Whatever its bytes, what \<open>Send\<close> writes behind \<open>Subject: \<close> is
  one line without CR or LF; and when it was encoded, a reader of encoded words gets back exactly its bytes.
\<close>

theorem subject_stays_in_header:
  "valid_line (encode_subject s) \<and>
   (if needs_encoding s then has_prefix (encode_subject s) open_word \<and> q_decode (drop (length open_word) (encode_subject s)) = Some s
    else encode_subject s = s)"
proof (cases "needs_encoding s")
  case True
  have "valid_line open_word" "valid_line ''?=''" by (simp_all add: valid_line_def open_word_def)
  with True show ?thesis using q_encode_reads_back[of 0 s] valid_q_encode[of 0 s] by (simp add: encode_subject_def valid_line_append)
next
  case False
  then have "CHR 0x0D \<notin> set s" "CHR 0x0A \<notin> set s" by (auto simp: needs_encoding_def list_ex_iff)
  with False show ?thesis by (simp add: encode_subject_def valid_line_def)
qed

text \<open>
  A message survives the queue. What the Redis queue stores of a message, decoded by the worker, is the
  message that was sent: addresses, subject, both bodies and the bytes of the attachments, when JSON keeps its
  texts (they are UTF-8).
\<close>

theorem queued_message_arrives:
  assumes "\<forall>s\<in>message_strings m. utf s = s"
  shows "mail_handle send (Parsed (json_message utf m)) v = mail_handle send (Intact m) v \<and>
    mail_handle send (Intact m) v = (case send m v of (e, v1) \<Rightarrow> (if e = None then HandlerOk else HandlerError, v1))"
  using payload_reads_back[OF assms] by (simp add: mail_handle_def decode_message_def)

theorem queued_message_arrives_witness:
  "mail_handle (\<lambda>m n. (None :: unit option, n + length (ms_to m))) (Parsed (json_message (\<lambda>s. s) sample_mail)) 4 = (HandlerOk, 5)"
proof -
  have "\<forall>s\<in>message_strings sample_mail. s = s" by simp
  from queued_message_arrives[of sample_mail "\<lambda>s. s", OF this, of "\<lambda>m n. (None :: unit option, n + length (ms_to m))" 4] show ?thesis by (simp add: sample_mail_def)
qed

subsection \<open>What a header or a provider loses\<close>

text \<open>
  The addresses are written as they are. A Reply-To with a line break puts the line behind it into the
  header as one of its own: here the message gains a header the application never set.
\<close>

lemma reply_to_splits_header:
  assumes "ms_reply_to m = a @ crlf @ h"
  shows "\<exists>pre post. message_text ab mb m = pre @ ''Reply-To: '' @ a @ crlf @ h @ crlf @ post"
proof -
  have ne: "ms_reply_to m \<noteq> []" using assms by (simp add: crlf_def)
  obtain body ct where b: "build_mime ab mb m = (body, ct)" by fastforce
  show ?thesis unfolding message_text_def b prod.case message_headers_def if_P[OF ne]
    unfolding assms append_assoc
    by (rule exI[of _ "''From: '' @ ms_from m @ crlf"], unfold append_assoc) (rule exI, rule refl)
qed

lemma ses_ignores: "build_ses_input (m\<lparr>ms_attachments := x, ms_reply_to := y\<rparr>) = build_ses_input m"
  by (simp add: build_ses_input_def)

lemma sendgrid_ignores: "build_sg_mail (m\<lparr>ms_reply_to := y\<rparr>) = build_sg_mail m"
  by (simp add: build_sg_mail_def)

end
