(* ===== verification/Framework.thy ===== *)
theory Framework
  imports Bootstrap AdminAccess Templates Mail Cache
begin

text \<open>
  The assembled application: the rest of \<open>bootstrap.Init\<close> and \<open>Run\<close> (\<open>core/bootstrap/bootstrap.go\<close>,
  \<open>registry.go\<close>, \<open>assets\<close>, \<open>welcome\<close>, \<open>debug\<close>). The router is built in the order of the code: the global
  middlewares, the installed applications, the assets, the welcome page, the admin, the framework's own routes
  and the two directories of files. An application is the list of calls it makes on the router.
\<close>

declare map_of_eq_Some_iff [simp del] AList.update_conv' [simp]

subsection \<open>Embedded files and the welcome page\<close>

text \<open>A file that the program carries, with its hash as entity tag.\<close>

definition embedded :: "(string \<Rightarrow> string) \<Rightarrow> string \<Rightarrow> string \<Rightarrow> string \<Rightarrow> 'a handler" where
  "embedded sha content ctype cache x =
     (let etag = dq @ sha content @ dq
      in (None,
          if request_header ''If-None-Match'' (ex_req x) = etag then on_response (write_header 304) x
          else on_response (write_body content
                 \<circ> header_set ''Cache-Control'' cache
                 \<circ> header_set ''ETag'' etag
                 \<circ> header_set ''Content-Length'' (itoa (int (length content)))
                 \<circ> header_set ''Content-Type'' ctype) x))"

definition immutable :: string where "immutable = ''public, max-age=31536000, immutable''"

definition register_assets :: "(string \<Rightarrow> string) \<Rightarrow> string \<Rightarrow> string \<Rightarrow> 'a handler router \<Rightarrow> 'a handler router" where
  "register_assets sha logo icon r =
     handle_internal ''GET /kyrux/statics/kyrux_icon.png'' (embedded sha icon ''image/png'' immutable)
       (handle_internal ''GET /kyrux/statics/kyrux_wt.png'' (embedded sha logo ''image/png'' immutable) r)"

text \<open>\<open>RegisterIfNeeded\<close>: the page, already rendered, stands in for a start page the applications do not have.\<close>

definition register_welcome :: "(string \<Rightarrow> string) \<Rightarrow> string \<Rightarrow> string \<Rightarrow> 'a handler router \<Rightarrow> 'a handler router" where
  "register_welcome sha css page r =
     (let r1 = handle_internal ''GET /kyrux/statics/welcome.css'' (embedded sha css ''text/css; charset=utf-8'' immutable) r
      in if has_route ''GET /'' r1 then r1
         else handle ''GET /'' (embedded sha page ''text/html; charset=utf-8'' ''no-cache'') r1)"

subsection \<open>The routes of the framework\<close>

definition health :: "'a handler" where
  "health x = (None, on_response (write_body ''ok'' \<circ> header_set ''Cache-Control'' ''no-store'') x)"

definition live_js :: "bool \<Rightarrow> string \<Rightarrow> 'a handler" where
  "live_js debug js x =
     (None, on_response (write_body js
        \<circ> header_set ''Cache-Control'' (if debug then ''no-store'' else ''public, max-age=86400'')
        \<circ> header_set ''Content-Type'' ''application/javascript; charset=utf-8'') x)"

text \<open>The dashboard: \<open>dash\<close> executes its template on what the program looks like at the request.\<close>

definition dashboard :: "('a exchange \<Rightarrow> string + string) \<Rightarrow> 'a handler" where
  "dashboard dash x =
     (case dash x of
        Inl e \<Rightarrow> (None, on_response (http_error (''debug: '' @ e) 500) x)
      | Inr page \<Rightarrow>
          (None, on_response (write_body page \<circ> header_set ''Cache-Control'' ''no-store''
             \<circ> header_set ''Content-Type'' ''text/html; charset=utf-8'') x))"

definition method_class :: "string \<Rightarrow> string" where
  "method_class m =
     (if m = ''GET'' then ''m-get'' else if m = ''POST'' then ''m-post'' else if m = ''PUT'' then ''m-put''
      else if m = ''DELETE'' then ''m-delete'' else if m = ''PATCH'' then ''m-patch'' else ''m-other'')"

text \<open>\<open>fmtDuration\<close>, of a duration that is not negative.\<close>

definition fmt_duration :: "duration \<Rightarrow> string" where
  "fmt_duration d =
     (let s = d div 1000000000
      in if s < 60 then itoa s @ ''s''
         else if s < 3600 then itoa (s div 60) @ ''m '' @ itoa (s mod 60) @ ''s''
         else itoa (s div 3600) @ ''h '' @ itoa (s div 60 mod 60) @ ''m'')"

text \<open>\<open>http.StripPrefix\<close> around a handler of files, which sees the path and writes the response.\<close>

definition strip_prefix :: "string \<Rightarrow> (string \<Rightarrow> response \<Rightarrow> response) \<Rightarrow> 'a handler" where
  "strip_prefix p files x =
     (let path = rq_path (ex_req x)
      in (None, on_response (if has_prefix path p then files (drop (length p) path)
                             else http_error ''404 page not found'' 404) x))"

subsection \<open>Init\<close>

text \<open>What an application does with the router it is given.\<close>

datatype 'h router_call = CallUse "'h \<Rightarrow> 'h" | CallHandle string 'h | CallInternal string 'h | CallPrefix string 'h

fun apply_call :: "'h router_call \<Rightarrow> 'h router \<Rightarrow> 'h router" where
  "apply_call (CallUse m) r = use_middleware m r"
| "apply_call (CallHandle p h) r = handle p h r"
| "apply_call (CallInternal p h) r = handle_internal p h r"
| "apply_call (CallPrefix p h) r = handle_prefix p h r"

text \<open>\<open>RegisterApp\<close>: the last registration of a name counts.\<close>

type_synonym 'a app_registry = "(string \<times> 'a handler router_call list) list"

definition register_app :: "string \<Rightarrow> 'a handler router_call list \<Rightarrow> 'a app_registry \<Rightarrow> 'a app_registry" where
  "register_app name calls reg = AList.update name calls reg"

definition run_apps :: "'a app_registry \<Rightarrow> string list \<Rightarrow> 'a handler router \<Rightarrow> 'a handler router" where
  "run_apps reg installed r =
     fold (\<lambda>name r. case map_of reg name of None \<Rightarrow> r | Some calls \<Rightarrow> fold apply_call calls r) installed r"

text \<open>The contents the routes serve and the handlers this model takes as they are.\<close>

record 'a parts =
  pt_registry :: "'a app_registry"
  pt_installed :: "string list"
  pt_sha256 :: "string \<Rightarrow> string"
  pt_logo :: string
  pt_icon :: string
  pt_welcome_css :: string
  pt_welcome_page :: string
  pt_live_script :: string
  pt_socket :: "'a handler"
  pt_reload :: "'a handler"
  pt_dash :: "'a exchange \<Rightarrow> string + string"
  pt_files :: "string \<Rightarrow> opened"
  pt_answer :: "opened \<Rightarrow> response \<Rightarrow> response"

definition base_router :: "externals \<Rightarrow> settings \<Rightarrow> 'a handler router" where
  "base_router xt se = fold use_middleware (global_middlewares xt (se_allowed_hosts se) (se_debug se)) new_router"

definition framework_routes :: "settings \<Rightarrow> 'a parts \<Rightarrow> 'a handler router \<Rightarrow> 'a handler router" where
  "framework_routes se pt r =
     handle_internal ''GET /kyrux/js/live.js'' (live_js (se_debug se) (pt_live_script pt))
       (handle_internal ''GET /kyrux/websocket/ws/'' (pt_socket pt) (handle_internal ''GET /health'' health r))"

definition static_files :: "settings \<Rightarrow> 'a parts \<Rightarrow> 'a handler" where
  "static_files se pt = strip_prefix ''/statics/'' (multi_static_handler (se_debug se) (pt_files pt) (pt_answer pt) ''apps'')"

definition media_files :: "settings \<Rightarrow> 'a parts \<Rightarrow> 'a handler" where
  "media_files se pt = strip_prefix ''/medias/'' (media_handler (se_debug se) (pt_files pt) (pt_answer pt) ''medias'')"

definition file_routes :: "settings \<Rightarrow> 'a parts \<Rightarrow> 'a handler router \<Rightarrow> 'a handler router" where
  "file_routes se pt r = handle_prefix ''GET /medias/'' (media_files se pt) (handle_prefix ''GET /statics/'' (static_files se pt) r)"

definition debug_routes :: "settings \<Rightarrow> 'a parts \<Rightarrow> 'a handler router \<Rightarrow> 'a handler router" where
  "debug_routes se pt r =
     (if se_debug se
      then handle_internal ''GET /kyrux/debug/'' (localhost_only (dashboard (pt_dash pt)))
             (handle_prefix ''GET /__kyrux_reload__'' (pt_reload pt) r)
      else r)"

definition admin_routes :: "externals \<Rightarrow> settings \<Rightarrow> ('w, 's, 'r) site \<Rightarrow> ('w, 'r) admin_handler router \<Rightarrow> ('w, 'r) admin_handler router" where
  "admin_routes xt se site r = (if se_admin_enabled se then mount xt (site\<lparr>si_base_path := se_admin_path se\<rparr>) r else r)"

text \<open>The account of the file: only with a database, a name and a password; \<open>ensure\<close> is \<open>ensure_superuser\<close> on that database.\<close>

definition init_superuser ::
  "settings \<Rightarrow> (string \<Rightarrow> string \<Rightarrow> superuser_error + user option) option \<Rightarrow> superuser_error + user option"
where
  "init_superuser se ensure =
     (case ensure of
        None \<Rightarrow> Inr None
      | Some f \<Rightarrow>
          if se_admin_enabled se \<and> se_superuser se \<noteq> [] \<and> se_superuser_password se \<noteq> [] then f (se_superuser se) (se_superuser_password se)
          else Inr None)"

definition init_router ::
  "externals \<Rightarrow> settings \<Rightarrow> ('w, 'r) admin_world parts \<Rightarrow> ('w, 's, 'r) site \<Rightarrow> ('w, 'r) admin_handler router"
where
  "init_router xt se pt site =
     (let r1 = run_apps (pt_registry pt) (pt_installed pt) (base_router xt se);
          r2 = register_assets (pt_sha256 pt) (pt_logo pt) (pt_icon pt) r1;
          r3 = register_welcome (pt_sha256 pt) (pt_welcome_css pt) (pt_welcome_page pt) r2;
          r4 = admin_routes xt se site r3
      in debug_routes se pt (file_routes se pt (framework_routes se pt r4)))"

text \<open>The SQLite file of development mode, when the admin is on and no database is configured; the flag is \<open>usingFallbackDB\<close>.\<close>

definition fallback_database :: "settings \<Rightarrow> bool \<Rightarrow> bool \<Rightarrow> bool \<times> bool" where
  "fallback_database se has_conns openable =
     (if se_admin_enabled se \<and> \<not> has_conns \<and> se_debug se \<and> openable then (True, True) else (has_conns, False))"

definition init_mail :: "settings \<Rightarrow> bool \<Rightarrow> payload queue option \<Rightarrow> (smtp_client \<times> payload queue option) option" where
  "init_mail se reachable q =
     (if \<not> se_mail_enabled se \<or> se_mail_host se = [] \<or> se_mail_user se = [] then None
      else (let a = smtp_new ''default'' (se_mail_host se) (se_mail_port se) (se_mail_user se) (se_mail_password se) (se_mail_port se \<noteq> ''465'')
            in if smtp_init_fails a then None
               else (case smtp_configure reachable a of
                       (False, _) \<Rightarrow> None
                     | (True, a1) \<Rightarrow> map_option (\<lambda>c. (c, new_queued q)) (smtp_value a1))))"

text \<open>With a port configured, \<open>fw.Mail\<close> is there exactly when \<open>mail_available\<close> says so, and TLS is never left out.\<close>

lemma init_mail_available:
  "se_mail_port se \<noteq> [] \<Longrightarrow> init_mail se reachable q \<noteq> None \<longleftrightarrow> mail_available reachable se"
  "init_mail se reachable q = Some (cl, q') \<Longrightarrow> cl_use_tls cl \<or> cl_implicit_tls cl"
  by (auto simp: init_mail_def mail_available_def smtp_init_fails_def smtp_new_def smtp_configure_def smtp_value_def Let_def split: if_splits)

subsection \<open>Run\<close>

record run_config =
  rc_max_procs :: "int option"
  rc_gc_percent :: "int option"
  rc_mem_limit :: "int option"
  rc_addr :: string
  rc_banner :: string
  rc_read_header_timeout :: duration
  rc_read_timeout :: duration
  rc_write_timeout :: duration
  rc_idle_timeout :: duration
  rc_max_header :: int

definition run_config :: "(string \<Rightarrow> string) \<Rightarrow> settings \<Rightarrow> run_config" where
  "run_config get se =
     \<lparr>rc_max_procs = (if get ''SERVER_WORKERS'' \<noteq> [] then Some (se_workers se) else None),
      rc_gc_percent = (if get ''RUNTIME_GOGC'' = [] then None
                       else (case atoi (get ''RUNTIME_GOGC'') of (n, ok) \<Rightarrow> if ok then Some n else None)),
      rc_mem_limit = (if get ''RUNTIME_GOMEMLIMIT'' = [] then None else parse_mem_limit (get ''RUNTIME_GOMEMLIMIT'')),
      rc_addr = se_host se @ '':'' @ se_port se,
      rc_banner = ''Kyrux running on http://'' @ browsable_addr (se_host se) (se_port se) @ '' (workers: '' @ itoa (se_workers se) @ '')'',
      rc_read_header_timeout = 5000000000, rc_read_timeout = 15000000000,
      rc_write_timeout = (if se_debug se then 0 else 10000000000), rc_idle_timeout = 120000000000, rc_max_header = 2 ^ 20\<rparr>"

text \<open>On a signal, once the server has stopped taking requests or five seconds have passed.\<close>

definition shut_down :: "'p queue option \<Rightarrow> 'r cache option \<Rightarrow> 'p queue option \<times> 'r cache option" where
  "shut_down q c = (map_option close_queue q, map_option cache_close c)"

subsection \<open>Who stands in front of a route\<close>

definition behind :: "('h \<Rightarrow> 'h) list \<Rightarrow> (string \<times> 'h) set \<Rightarrow> 'h router \<Rightarrow> bool" where
  "behind ms ps r \<longleftrightarrow> (\<exists>extra. rt_middlewares r = ms @ extra) \<and> (\<forall>(p, h)\<in>set (rt_mux r). (p, h) \<in> ps \<or> h \<in> range (middleware_chain ms))"

lemma middleware_chain_append: "middleware_chain (a @ b) h = middleware_chain a (middleware_chain b h)"
  by (simp add: middleware_chain_def)

lemma chain_extra: "rt_middlewares r = ms @ extra \<Longrightarrow> middleware_chain (rt_middlewares r) h \<in> range (middleware_chain ms)"
  by (simp add: middleware_chain_append)

lemma behind_handle: "behind ms ps r \<Longrightarrow> behind ms ps (handle p h r)"
  using handle_mux(1)[of _ _ p h r] chain_extra[of r ms _ h] by (fastforce simp: behind_def handle_mux(2))

lemma behind_internal: "behind ms ps r \<Longrightarrow> behind ms ps (handle_internal p h r)"
  unfolding handle_internal_def by (intro behind_handle) (simp add: behind_def)

lemma behind_use: "behind ms ps r \<Longrightarrow> behind ms ps (use_middleware m r)"
  by (auto simp: behind_def use_middleware_def)

lemma behind_prefix: "behind ms ps r \<Longrightarrow> (p, h) \<in> ps \<Longrightarrow> behind ms ps (handle_prefix p h r)"
  by (auto simp: behind_def handle_prefix_def)

lemma behind_fold: "behind ms ps r \<Longrightarrow> behind ms ps (fold (\<lambda>(p, h). handle p (f h)) routes r)"
  by (induction routes arbitrary: r) (auto intro: behind_handle)

lemma behind_mount: "behind ms ps r \<Longrightarrow> behind ms ps (mount xt s r)"
  unfolding mount_def Let_def by (split if_split) (intro conjI impI behind_fold behind_handle behind_internal; assumption)

definition call_prefixes :: "'h router_call list \<Rightarrow> (string \<times> 'h) set" where
  "call_prefixes calls = {(p, h). CallPrefix p h \<in> set calls}"

lemma behind_call: "behind ms ps r \<Longrightarrow> call_prefixes [c] \<subseteq> ps \<Longrightarrow> behind ms ps (apply_call c r)"
  by (cases c) (auto simp: call_prefixes_def intro: behind_use behind_handle behind_internal behind_prefix)

lemma behind_calls: "behind ms ps r \<Longrightarrow> call_prefixes calls \<subseteq> ps \<Longrightarrow> behind ms ps (fold apply_call calls r)"
proof (induction calls arbitrary: r)
  case (Cons c calls)
  have "call_prefixes [c] \<subseteq> ps" "call_prefixes calls \<subseteq> ps" using Cons.prems(2) by (auto simp: call_prefixes_def)
  with Cons.IH[OF behind_call[OF Cons.prems(1)]] show ?case by simp
qed simp

definition app_prefixes :: "'a app_registry \<Rightarrow> string list \<Rightarrow> (string \<times> 'a handler) set" where
  "app_prefixes reg installed = (\<Union>name\<in>set installed. case map_of reg name of None \<Rightarrow> {} | Some calls \<Rightarrow> call_prefixes calls)"

lemma behind_apps: "behind ms ps r \<Longrightarrow> app_prefixes reg installed \<subseteq> ps \<Longrightarrow> behind ms ps (run_apps reg installed r)"
  unfolding run_apps_def
proof (induction installed arbitrary: r)
  case (Cons name installed)
  have a: "app_prefixes reg installed \<subseteq> ps" using Cons.prems(2) by (auto simp: app_prefixes_def)
  have b: "call_prefixes calls \<subseteq> ps" if "map_of reg name = Some calls" for calls
    using Cons.prems(2) that by (auto simp: app_prefixes_def)
  show ?case
    using Cons.IH[OF _ a] Cons.prems(1) behind_calls[OF Cons.prems(1) b] by (cases "map_of reg name") simp_all
qed simp

lemma fold_use: "fold use_middleware ms r = r\<lparr>rt_middlewares := rt_middlewares r @ ms\<rparr>"
  by (induction ms arbitrary: r) (simp_all add: use_middleware_def)

lemma base_middlewares: "rt_middlewares (base_router xt se) = global_middlewares xt (se_allowed_hosts se) (se_debug se)"
  "rt_mux (base_router xt se) = []" "rt_registered (base_router xt se) = []" "rt_routes (base_router xt se) = []"
  by (simp_all add: base_router_def fold_use new_router_def)

text \<open>The routes in front of which nothing stands: two directories of files, what applications mount on a prefix, the reload stream.\<close>

definition bare_routes :: "settings \<Rightarrow> 'a parts \<Rightarrow> (string \<times> 'a handler) set" where
  "bare_routes se pt = {(''GET /statics/'', static_files se pt), (''GET /medias/'', media_files se pt)} \<union>
     app_prefixes (pt_registry pt) (pt_installed pt) \<union> (if se_debug se then {(''GET /__kyrux_reload__'', pt_reload pt)} else {})"

lemma init_behind: "behind (global_middlewares xt (se_allowed_hosts se) (se_debug se)) (bare_routes se pt) (init_router xt se pt site)"
proof -
  let ?ms = "global_middlewares xt (se_allowed_hosts se) (se_debug se)" and ?ps = "bare_routes se pt"
  have b: "behind ?ms ?ps (base_router xt se)" by (simp add: behind_def base_middlewares)
  have a: "behind ?ms ?ps (run_apps (pt_registry pt) (pt_installed pt) (base_router xt se))"
    by (rule behind_apps[OF b]) (auto simp: bare_routes_def)
  have as: "behind ?ms ?ps r \<Longrightarrow> behind ?ms ?ps (register_assets sha l i r)" for sha l i r
    unfolding register_assets_def by (intro behind_internal)
  have w: "behind ?ms ?ps r \<Longrightarrow> behind ?ms ?ps (register_welcome sha c p r)" for sha c p r
    unfolding register_welcome_def Let_def by (split if_split) (intro conjI impI behind_handle behind_internal)
  have fr: "behind ?ms ?ps r \<Longrightarrow> behind ?ms ?ps (framework_routes se pt r)" for r
    unfolding framework_routes_def by (intro behind_internal)
  have fi: "behind ?ms ?ps r \<Longrightarrow> behind ?ms ?ps (file_routes se pt r)" for r
    unfolding file_routes_def by (intro behind_prefix) (simp_all add: bare_routes_def)
  have d: "behind ?ms ?ps r \<Longrightarrow> behind ?ms ?ps (debug_routes se pt r)" for r
  proof (cases "se_debug se")
    case True
    assume b: "behind ?ms ?ps r"
    have "(''GET /__kyrux_reload__'', pt_reload pt) \<in> ?ps" unfolding bare_routes_def if_P[OF True] by blast
    from behind_internal[OF behind_prefix[OF b this]] show ?thesis unfolding debug_routes_def if_P[OF True] .
  next
    case False
    assume "behind ?ms ?ps r"
    then show ?thesis unfolding debug_routes_def if_not_P[OF False] .
  qed
  have m: "behind ?ms ?ps r \<Longrightarrow> behind ?ms ?ps (admin_routes xt se s r)" for s r
    by (simp add: admin_routes_def behind_mount)
  show ?thesis unfolding init_router_def Let_def by (intro d fi fr m w as a)
qed

definition client_host :: "'a exchange \<Rightarrow> string" where
  "client_host x =
     to_lower (trim_by is_bracket (case split_host_port (rq_host (ex_req x)) of Some (n, _) \<Rightarrow> n | None \<Rightarrow> rq_host (ex_req x)))"

lemma error_status:
  "map_of (ep_custom ep) code = None \<Longrightarrow> rs_sent rs = None \<Longrightarrow>
     \<exists>hs cs. rs_sent (snd (render_error xt mp code (ep, rs))) = Some (code, hs, cs)"
  by (auto simp: render_error_def render_debug_http_def write_debug_def render_default_def http_error_def write_body_def write_header_def
      header_set_def header_del_def Let_def split: option.split prod.split)

lemma host_refused:
  assumes "''*'' \<notin> set hosts" "client_host x \<notin> to_lower ` set hosts"
  shows "allowed_hosts xt hosts False f x = (None, on_pages (render_error xt (method_path x) 400) x)"
  using assms by (simp add: allowed_hosts_def client_host_def allowed_hosts_lookup Let_def)

lemma chain_refuses:
  assumes "''*'' \<notin> set hosts" "client_host x \<notin> to_lower ` set hosts" "rs_sent (ex_rs x) = None" "map_of (ep_custom (sv_pages (ex_server x))) 400 = None"
  shows "fst (framework_chain xt hosts False g x) = None \<and> (\<exists>hs cs. rs_sent (ex_rs (snd (framework_chain xt hosts False g x))) = Some (400, hs, cs))"
proof -
  define x1 where "x1 = (if rq_has_body (ex_req x) then x\<lparr>ex_req := cap_body (32 * 2 ^ 20) (ex_req x)\<rparr> else x)"
  define x2 where "x2 = on_response (\<lambda>rs. header_set csp_header (sv_csp (ex_server x1)) (fold (\<lambda>(k, v). header_set k v) static_secure_headers rs)) x1"
  have sent: "rs_sent (fold (\<lambda>(k, v). header_set k v) hs rs) = rs_sent rs" for hs rs
    by (induction hs arbitrary: rs) (auto simp: header_set_def)
  have host: "rq_host (ex_req x2) = rq_host (ex_req x)" by (simp add: x2_def x1_def on_response_def cap_body_def)
  have same: "client_host x2 = client_host x" "rs_sent (ex_rs x2) = None" "map_of (ep_custom (sv_pages (ex_server x2))) 400 = None"
    using assms(3,4) by (simp_all only: client_host_def host) (simp_all add: x2_def x1_def on_response_def cap_body_def sent header_set_def)
  have e: "framework_chain xt hosts False g x = (None, on_pages (render_error xt (method_path x2) 400) x2)"
    unfolding framework_chain_eq recovery_def max_body_size_def secure_headers_def
    using host_refused[OF assms(1), of x2 xt "csrf_middleware xt g"] assms(2) same(1) by (simp add: x1_def x2_def split: if_splits)
  show ?thesis unfolding e using error_status[OF same(3,2), of xt "method_path x2"] by (auto simp: on_pages_def Let_def)
qed

text \<open>
  C9: The assembled application: every handler of the router is the chain of the global middlewares around
  something, whichever application, the admin or the framework itself registered it; bare are only the two
  directories of files, the prefixes an application mounts and, in development, the reload stream. So in
  production a request for a host that is not configured gets the error page 400 from every other route, the
  health check and the websocket included.
\<close>

theorem assembled_routes_guarded:
  assumes "(p, h) \<in> set (rt_mux (init_router xt se pt site))" "(p, h) \<notin> bare_routes se pt"
  shows "(\<exists>g. h = framework_chain xt (se_allowed_hosts se) (se_debug se) g) \<and>
    (\<not> se_debug se \<and> ''*'' \<notin> set (se_allowed_hosts se) \<and> client_host x \<notin> to_lower ` set (se_allowed_hosts se) \<and>
       rs_sent (ex_rs x) = None \<and> map_of (ep_custom (sv_pages (ex_server x))) 400 = None \<longrightarrow>
       fst (h x) = None \<and> (\<exists>hs cs. rs_sent (ex_rs (snd (h x))) = Some (400, hs, cs)))"
proof -
  have "h \<in> range (middleware_chain (global_middlewares xt (se_allowed_hosts se) (se_debug se)))"
    using init_behind[of xt se pt site] assms by (auto simp: behind_def)
  then obtain g where g: "h = framework_chain xt (se_allowed_hosts se) (se_debug se) g"
    by (auto simp: framework_chain_def[abs_def] fun_eq_iff)
  show ?thesis using g chain_refuses[of "se_allowed_hosts se" x xt g] by auto
qed

lemma handle_internal_keeps: "(q, g) \<in> set (rt_mux r) \<Longrightarrow> (q, g) \<in> set (rt_mux (handle_internal p h r))"
  by (auto simp: handle_internal_def handle_def register_mux_def Let_def)

lemma debug_keeps: "(q, g) \<in> set (rt_mux r) \<Longrightarrow> (q, g) \<in> set (rt_mux (debug_routes se pt r))"
  unfolding debug_routes_def by (split if_split) (intro conjI impI handle_internal_keeps, simp_all add: handle_prefix_def)

text \<open>
  The other side: files of users are served bare. Whatever the host, the answer of \<open>/medias/\<close> is the same, and a
  header that the file server does not set for a file it finds, such as \<open>X-Content-Type-Options\<close>, is not in it.
\<close>

theorem user_files_unguarded:
  assumes "k \<noteq> ''Cache-Control''" "map_of (rs_headers (ex_rs x)) k = None" "rq_path (ex_req x) = ''/medias/'' @ name"
    and "dir_listing_safe_open (pt_files pt) ''medias'' (path_clean (''/'' @ name)) = Content b"
    and "\<And>rs. map_of (rs_headers rs) k = None \<Longrightarrow> map_of (rs_headers (pt_answer pt (Content b) rs)) k = None"
  shows "(''GET /medias/'', media_files se pt) \<in> set (rt_mux (init_router xt se pt site)) \<and>
    map_of (rs_headers (ex_rs (snd (media_files se pt x)))) k = None \<and>
    ex_rs (snd (media_files se pt (x\<lparr>ex_req := (ex_req x)\<lparr>rq_host := host\<rparr>\<rparr>))) = ex_rs (snd (media_files se pt x))"
proof -
  have "(''GET /medias/'', media_files se pt) \<in> set (rt_mux (init_router xt se pt site))"
    unfolding init_router_def Let_def by (intro debug_keeps) (simp add: file_routes_def handle_prefix_def)
  moreover have "map_of (rs_headers (header_set ''Cache-Control'' v (ex_rs x))) k = None" for v
    using assms(1,2) by (simp add: header_set_def)
  ultimately show ?thesis
    using assms(3-5) by (simp add: media_files_def strip_prefix_def media_handler_def cached_files_def on_response_def)
qed

subsection \<open>The health check\<close>

lemma handle_registered: "set (rt_registered (handle p h r)) = set (rt_registered r) \<union> set (forms p)"
  by (auto simp: handle_def register_mux_def forms_def Let_def)

lemma internal_registered: "set (rt_registered (handle_internal p h r)) = set (rt_registered r) \<union> set (forms p)"
  by (simp add: handle_internal_def handle_registered)

lemma handle_internal_adds:
  "normalize (convert_pattern p) \<notin> set (rt_registered r) \<Longrightarrow>
     (normalize (convert_pattern p), middleware_chain (rt_middlewares r) h) \<in> set (rt_mux (handle_internal p h r))"
  by (auto simp: handle_internal_def handle_def register_mux_def Let_def)

definition sample_settings :: settings where
  "sample_settings = (load_settings (\<lambda>_. []) 4 no_environment)\<lparr>se_debug := False, se_admin_enabled := False, se_allowed_hosts := [''a.io'']\<rparr>"

definition sample_parts :: "'a parts" where
  "sample_parts =
     \<lparr>pt_registry = [], pt_installed = [], pt_sha256 = id, pt_logo = ''l'', pt_icon = ''i'', pt_welcome_css = ''c'', pt_welcome_page = ''p'',
      pt_live_script = ''j'', pt_socket = \<lambda>x. (None, x), pt_reload = \<lambda>x. (None, x), pt_dash = \<lambda>_. Inr ''d'',
      pt_files = \<lambda>p. if p = ''medias/a.html'' then Content ''<script>'' else Missing,
      pt_answer = \<lambda>f rs. case f of Content b \<Rightarrow> write_body b rs | _ \<Rightarrow> http_error ''404'' 404 rs\<rparr>"

lemma sample_health: "\<exists>h. (''GET /health'', h) \<in> set (rt_mux (init_router xt sample_settings sample_parts site))"
proof -
  let ?r = "register_welcome id ''c'' ''p'' (register_assets id ''l'' ''i'' (base_router xt sample_settings))"
  have f: "forms ''GET /kyrux/statics/welcome.css'' = [''GET /kyrux/statics/welcome.css'', ''GET /kyrux/statics/welcome.css/{$}'']"
    "forms ''GET /kyrux/statics/kyrux_icon.png'' = [''GET /kyrux/statics/kyrux_icon.png'', ''GET /kyrux/statics/kyrux_icon.png/{$}'']"
    "forms ''GET /kyrux/statics/kyrux_wt.png'' = [''GET /kyrux/statics/kyrux_wt.png'', ''GET /kyrux/statics/kyrux_wt.png/{$}'']"
    "forms ''GET /'' = [''GET /{$}'']" "normalize (convert_pattern ''GET /health'') = ''GET /health''"
    by code_simp+
  have "''GET /health'' \<notin> set (rt_registered ?r)"
    by (simp add: register_welcome_def register_assets_def Let_def handle_registered internal_registered f base_middlewares)
  note a = handle_internal_adds[of "''GET /health''" ?r, unfolded f, OF this]
  have "(''GET /health'', middleware_chain (rt_middlewares ?r) health) \<in> set (rt_mux (framework_routes sample_settings sample_parts ?r))"
    unfolding framework_routes_def by (rule handle_internal_keeps[OF handle_internal_keeps[OF a]])
  then have "(''GET /health'', middleware_chain (rt_middlewares ?r) health) \<in> set (rt_mux (init_router xt sample_settings sample_parts site))"
    unfolding init_router_def Let_def
    by (intro debug_keeps) (simp add: admin_routes_def sample_settings_def sample_parts_def run_apps_def file_routes_def handle_prefix_def)
  then show ?thesis by blast
qed

text \<open>A probe of the machine itself, as a container's health check sends it.\<close>

definition probe :: "(toy_db, nat) admin_world exchange" where
  "probe = toy_admin ((toy_request ''GET'' [] [])\<lparr>rq_path := ''/health'', rq_host := ''127.0.0.1:8000''\<rparr>) ana_store"

theorem assembled_routes_guarded_witness:
  "\<exists>h hs cs. (''GET /health'', h) \<in> set (rt_mux (init_router toy_externals sample_settings sample_parts toy_site)) \<and>
    rs_sent (ex_rs (snd (h probe))) = Some (400, hs, cs)"
proof -
  obtain h where h: "(''GET /health'', h) \<in> set (rt_mux (init_router toy_externals sample_settings sample_parts toy_site))"
    using sample_health by blast
  have b: "(''GET /health'', h) \<notin> bare_routes sample_settings sample_parts"
    by (simp add: bare_routes_def app_prefixes_def sample_settings_def sample_parts_def)
  have p: "client_host probe = ''127.0.0.1''" unfolding client_host_def by (simp add: probe_def toy_admin_def toy_request_def) code_simp
  have "\<not> se_debug sample_settings" "''*'' \<notin> set (se_allowed_hosts sample_settings)" "to_lower ` set (se_allowed_hosts sample_settings) = {''a.io''}"
    by (simp_all add: sample_settings_def to_lower_def to_lower_c_def is_upper_def)
  moreover have "rs_sent (ex_rs probe) = None" "map_of (ep_custom (sv_pages (ex_server probe))) 400 = None"
    by (simp_all add: probe_def toy_admin_def toy_server_def new_response_def new_error_pages_def)
  ultimately show ?thesis using assembled_routes_guarded[OF h b, of probe] h p by auto
qed

theorem user_files_unguarded_witness:
  "map_of (rs_headers (ex_rs (snd (media_files sample_settings sample_parts
      (toy_admin ((toy_request ''GET'' [] [])\<lparr>rq_path := ''/medias/a.html''\<rparr>) ana_store))))) ''X-Content-Type-Options'' = None"
proof -
  let ?x = "toy_admin ((toy_request ''GET'' [] [])\<lparr>rq_path := ''/medias/a.html''\<rparr>) ana_store"
  have "''X-Content-Type-Options'' \<noteq> ''Cache-Control''" "map_of (rs_headers (ex_rs ?x)) ''X-Content-Type-Options'' = None"
      "rq_path (ex_req ?x) = ''/medias/'' @ ''a.html''" by (simp_all add: toy_admin_def new_response_def)
  moreover have "dir_listing_safe_open (pt_files sample_parts) ''medias'' (path_clean (''/'' @ ''a.html'')) = Content ''<script>''"
  proof -
    have "path_join [''medias'', path_clean (''/'' @ path_clean (''/'' @ ''a.html''))] = ''medias/a.html''" by code_simp
    then show ?thesis by (simp add: dir_listing_safe_open_def http_dir_open_def no_dir_listing_def sample_parts_def)
  qed
  moreover have "map_of (rs_headers rs) ''X-Content-Type-Options'' = None \<Longrightarrow>
      map_of (rs_headers (pt_answer sample_parts (Content ''<script>'') rs)) ''X-Content-Type-Options'' = None" for rs
    by (simp add: sample_parts_def write_body_def write_header_def Let_def split: option.split)
  ultimately show ?thesis by (rule user_files_unguarded[THEN conjunct2, THEN conjunct1])
qed

end
