(* ===== verification/CaptchaImage.thy ===== *)
theory CaptchaImage
  imports Captcha
begin

text \<open>
  The image of the challenge (\<open>core/security/captcha/image.go\<close>, \<open>font.go\<close>): a canvas is a size and the colour of
  every pixel, writing outside of it does nothing. Random numbers are read from a source that is passed along, the
  interpolation in floating point and the PNG encoder are parameters.
\<close>

declare map_of_eq_Some_iff [simp del] AList.update_conv' [simp]

subsection \<open>The font\<close>

definition glyph_width :: nat where "glyph_width = 5"
definition glyph_height :: nat where "glyph_height = 7"

definition glyphs :: "(char \<times> string list) list" where
  "glyphs =
    [(CHR ''0'', [''01110'', ''10001'', ''10011'', ''10101'', ''11001'', ''10001'', ''01110'']),
     (CHR ''1'', [''00100'', ''01100'', ''00100'', ''00100'', ''00100'', ''00100'', ''01110'']),
     (CHR ''2'', [''01110'', ''10001'', ''00001'', ''00010'', ''00100'', ''01000'', ''11111'']),
     (CHR ''3'', [''11111'', ''00010'', ''00100'', ''00010'', ''00001'', ''10001'', ''01110'']),
     (CHR ''4'', [''00010'', ''00110'', ''01010'', ''10010'', ''11111'', ''00010'', ''00010'']),
     (CHR ''5'', [''11111'', ''10000'', ''11110'', ''00001'', ''00001'', ''10001'', ''01110'']),
     (CHR ''6'', [''00110'', ''01000'', ''10000'', ''11110'', ''10001'', ''10001'', ''01110'']),
     (CHR ''7'', [''11111'', ''00001'', ''00010'', ''00100'', ''01000'', ''01000'', ''01000'']),
     (CHR ''8'', [''01110'', ''10001'', ''10001'', ''01110'', ''10001'', ''10001'', ''01110'']),
     (CHR ''9'', [''01110'', ''10001'', ''10001'', ''01111'', ''00001'', ''00010'', ''01100''])]"

subsection \<open>Drawing\<close>

text \<open>Red, green, blue and alpha.\<close>

type_synonym rgba = "int \<times> int \<times> int \<times> int"

record canvas =
  cv_width :: int
  cv_height :: int
  cv_pixel :: "int \<times> int \<Rightarrow> rgba"

definition blank :: "int \<Rightarrow> int \<Rightarrow> canvas" where
  "blank w h = \<lparr>cv_width = w, cv_height = h, cv_pixel = \<lambda>_. (0, 0, 0, 0)\<rparr>"

definition img_set :: "int \<Rightarrow> int \<Rightarrow> rgba \<Rightarrow> canvas \<Rightarrow> canvas" where
  "img_set x y col img =
     (if 0 \<le> x \<and> x < cv_width img \<and> 0 \<le> y \<and> y < cv_height img then img\<lparr>cv_pixel := (cv_pixel img)((x, y) := col)\<rparr> else img)"

definition dot_scale :: int where "dot_scale = 6"
definition char_gap :: int where "char_gap = 4"
definition margin_x :: int where "margin_x = 12"
definition margin_y :: int where "margin_y = 14"

definition fill_background :: "canvas \<Rightarrow> canvas" where
  "fill_background img =
     fold (\<lambda>y. fold (\<lambda>x. img_set x y (245, 245, 248, 255)) [0..cv_width img - 1]) [0..cv_height img - 1] img"

text \<open>Go divides towards zero.\<close>

definition half :: "int \<Rightarrow> int" where
  "half n = (if n < 0 then - ((- n) div 2) else n div 2)"

definition draw_glyph :: "string list \<Rightarrow> int \<Rightarrow> int \<Rightarrow> int \<Rightarrow> rgba \<Rightarrow> canvas \<Rightarrow> canvas" where
  "draw_glyph rows x0 y0 shear col img =
     fold (\<lambda>row. let shifted = x0 + half (shear * int row) in
       fold (\<lambda>c. if rows ! row ! c \<noteq> CHR ''1'' then id
         else (let px = shifted + int c * dot_scale; py = y0 + int row * dot_scale in
               fold (\<lambda>dy. fold (\<lambda>dx. img_set (px + dx) (py + dy) col) [0..dot_scale - 2]) [0..dot_scale - 2]))
         [0..<glyph_width]) [0..<glyph_height] img"

text \<open>\<open>rnd n\<close> is \<open>rand.IntN(n)\<close>; \<open>lerp y0 y1 x width\<close> the height of a line at \<open>x\<close>.\<close>

definition draw_noise_line ::
  "(int \<Rightarrow> 'r \<Rightarrow> int \<times> 'r) \<Rightarrow> (int \<Rightarrow> int \<Rightarrow> int \<Rightarrow> int \<Rightarrow> int) \<Rightarrow> canvas \<times> 'r \<Rightarrow> canvas \<times> 'r"
where
  "draw_noise_line rnd lerp s =
     (case s of (img, r0) \<Rightarrow>
      (case rnd 60 r0 of (a, r1) \<Rightarrow>
      (case rnd 60 r1 of (b, r2) \<Rightarrow>
      (case rnd 60 r2 of (c, r3) \<Rightarrow>
      (case rnd (cv_height img) r3 of (y0, r4) \<Rightarrow>
      (case rnd (cv_height img) r4 of (y1, r5) \<Rightarrow>
        (let col = (150 + a, 150 + b, 150 + c, 255)
         in (fold (\<lambda>x i. let y = lerp y0 y1 x (cv_width img) in img_set x (y + 1) col (img_set x y col i)) [0..cv_width img - 1] img, r5))))))))"

definition draw_dot :: "(int \<Rightarrow> 'r \<Rightarrow> int \<times> 'r) \<Rightarrow> canvas \<times> 'r \<Rightarrow> canvas \<times> 'r" where
  "draw_dot rnd s =
     (case s of (img, r0) \<Rightarrow>
      (case rnd (cv_width img) r0 of (x, r1) \<Rightarrow>
      (case rnd (cv_height img) r1 of (y, r2) \<Rightarrow>
      (case rnd 70 r2 of (v, r3) \<Rightarrow> (img_set x y (170 + v, 170 + v, 170 + v, 255) img, r3)))))"

definition palette :: "rgba list" where
  "palette = [(40, 50, 90, 255), (80, 30, 60, 255), (20, 70, 50, 255), (60, 40, 20, 255)]"

definition char_width :: int where "char_width = int glyph_width * dot_scale"
definition char_height :: int where "char_height = int glyph_height * dot_scale"

fun draw_code :: "(int \<Rightarrow> 'r \<Rightarrow> int \<times> 'r) \<Rightarrow> int \<Rightarrow> string \<Rightarrow> canvas \<times> 'r \<Rightarrow> canvas \<times> 'r" where
  "draw_code rnd x [] s = s"
| "draw_code rnd x (ch # cs) (img, r0) =
     draw_code rnd (x + char_width + char_gap) cs
       (case map_of glyphs ch of
          None \<Rightarrow> (img, r0)
        | Some rows \<Rightarrow>
            (case rnd 9 r0 of (j, r1) \<Rightarrow>
            (case rnd 3 r1 of (sh, r2) \<Rightarrow>
            (case rnd (int (length palette)) r2 of (k, r3) \<Rightarrow>
              (draw_glyph rows x (margin_y + (j - 4)) (sh - 1) (palette ! nat k) img, r3)))))"

definition image_width :: "string \<Rightarrow> int" where
  "image_width code = margin_x * 2 + int (length code) * char_width + (int (length code) - 1) * char_gap"

definition image_height :: int where "image_height = margin_y * 2 + char_height"

definition draw_captcha :: "(int \<Rightarrow> 'r \<Rightarrow> int \<times> 'r) \<Rightarrow> (int \<Rightarrow> int \<Rightarrow> int \<Rightarrow> int \<Rightarrow> int) \<Rightarrow> string \<Rightarrow> 'r \<Rightarrow> canvas \<times> 'r" where
  "draw_captcha rnd lerp code r =
     (let s0 = (fill_background (blank (image_width code) image_height), r);
          s1 = (draw_noise_line rnd lerp ^^ 4) s0;
          s2 = (draw_dot rnd ^^ nat (image_width code * image_height div 18)) s1
      in draw_code rnd margin_x code s2)"

text \<open>\<open>PNG\<close>; \<open>None\<close> is an error.\<close>

definition captcha_png ::
  "(int \<Rightarrow> 'r \<Rightarrow> int \<times> 'r) \<Rightarrow> (int \<Rightarrow> int \<Rightarrow> int \<Rightarrow> int \<Rightarrow> int) \<Rightarrow> (canvas \<Rightarrow> string option) \<Rightarrow> string \<Rightarrow> 'r \<Rightarrow> string option \<times> 'r"
where
  "captcha_png rnd lerp encode code r =
     (if code = [] then (None, r) else (case draw_captcha rnd lerp code r of (img, r1) \<Rightarrow> (encode img, r1)))"

subsection \<open>The digits are whole and stand out\<close>

text \<open>Dark pixels: opaque and with little red. The pixels of a glyph.\<close>

definition dark :: "rgba \<Rightarrow> bool" where
  "dark col = (case col of (r, g, b, a) \<Rightarrow> r < 100 \<and> a = 255)"

definition dark_pixels :: "canvas \<Rightarrow> (int \<times> int) set" where
  "dark_pixels img = {p. dark (cv_pixel img p)}"

definition area :: "canvas \<Rightarrow> (int \<times> int) set" where
  "area img = {0..<cv_width img} \<times> {0..<cv_height img}"

definition glyph_shape :: "string list \<Rightarrow> int \<Rightarrow> int \<Rightarrow> int \<Rightarrow> (int \<times> int) set" where
  "glyph_shape rows x0 y0 shear =
     (\<Union>row\<in>{0..<7}. \<Union>c\<in>{0..<5}. if rows ! row ! c = CHR ''1''
        then {x0 + half (shear * int row) + int c * 6..x0 + half (shear * int row) + int c * 6 + 4} \<times> {y0 + int row * 6..y0 + int row * 6 + 4}
        else {})"

definition paints :: "(canvas \<Rightarrow> canvas) \<Rightarrow> (int \<times> int) set \<Rightarrow> bool" where
  "paints f S \<longleftrightarrow> (\<forall>img. cv_width (f img) = cv_width img \<and> cv_height (f img) = cv_height img \<and>
     dark_pixels (f img) = dark_pixels img \<union> (S \<inter> area img))"

definition faint :: "(canvas \<Rightarrow> canvas) \<Rightarrow> bool" where
  "faint f \<longleftrightarrow> (\<forall>img. cv_width (f img) = cv_width img \<and> cv_height (f img) = cv_height img \<and>
     (dark_pixels img = {} \<longrightarrow> dark_pixels (f img) = {}))"

lemma paints_set: "dark col \<Longrightarrow> paints (img_set x y col) {(x, y)}"
  by (auto simp: paints_def img_set_def dark_pixels_def area_def)

lemma paints_id: "paints id {}"
  by (simp add: paints_def)

lemma paints_fold: "(\<And>a. a \<in> set xs \<Longrightarrow> paints (f a) (S a)) \<Longrightarrow> paints (fold f xs) (\<Union>a\<in>set xs. S a)"
proof (induction xs)
  case (Cons a xs)
  from Cons.prems[of a] have "paints (f a) (S a)" by simp
  moreover from Cons have "paints (fold f xs) (\<Union>a\<in>set xs. S a)" by simp
  ultimately show ?case by (auto simp: paints_def area_def)
qed (simp add: paints_def)

lemma faint_set: "\<not> dark col \<Longrightarrow> faint (img_set x y col)"
  by (auto simp: faint_def img_set_def dark_pixels_def)

lemma faint_comp: "faint f \<Longrightarrow> faint g \<Longrightarrow> faint (\<lambda>i. g (f i))"
  by (simp add: faint_def)

lemma faint_fold: "(\<And>a. a \<in> set xs \<Longrightarrow> faint (f a)) \<Longrightarrow> faint (fold f xs)"
proof (induction xs)
  case (Cons a xs)
  then have "faint (f a)" "faint (fold f xs)" by simp_all
  then show ?case by (simp add: faint_def)
qed (simp add: faint_def)

lemma draw_glyph_paints: "dark col \<Longrightarrow> paints (draw_glyph rows x0 y0 shear col) (glyph_shape rows x0 y0 shear)"
proof -
  assume d: "dark col"
  have sq: "paints (fold (\<lambda>dy. fold (\<lambda>dx. img_set (px + dx) (py + dy) col) [0..dot_scale - 2]) [0..dot_scale - 2]) ({px..px + 4} \<times> {py..py + 4})" for px py
  proof -
    have "paints (fold (\<lambda>dy. fold (\<lambda>dx. img_set (px + dx) (py + dy) col) [0..4]) [0..4]) (\<Union>dy\<in>set [0..4]. \<Union>dx\<in>set [0..4]. {(px + dx, py + dy)})"
      by (intro paints_fold paints_set d)
    moreover have "(\<Union>dy\<in>set [0..4]. \<Union>dx\<in>set [0..4]. {(px + dx, py + dy)}) = {px..px + 4} \<times> {py..py + 4}" (is "?l = ?r")
    proof
      show "?r \<subseteq> ?l"
      proof
        fix p assume "p \<in> ?r"
        then have "p = (px + (fst p - px), py + (snd p - py))" "fst p - px \<in> set [0..4]" "snd p - py \<in> set [0..4]" by auto
        then show "p \<in> ?l" by blast
      qed
    qed auto
    ultimately show ?thesis by (simp add: dot_scale_def)
  qed
  let ?cell = "\<lambda>row c. if rows ! row ! c = CHR ''1''
        then {x0 + half (shear * int row) + int c * 6..x0 + half (shear * int row) + int c * 6 + 4} \<times> {y0 + int row * 6..y0 + int row * 6 + 4} else {}"
  let ?step = "\<lambda>row c. if rows ! row ! c \<noteq> CHR ''1'' then id
         else (let px = x0 + half (shear * int row) + int c * dot_scale; py = y0 + int row * dot_scale in
               fold (\<lambda>dy. fold (\<lambda>dx. img_set (px + dx) (py + dy) col) [0..dot_scale - 2]) [0..dot_scale - 2])"
  have "paints (?step row c) (?cell row c)" for row c
    using sq[of "x0 + half (shear * int row) + int c * 6" "y0 + int row * 6"] paints_id
    by (cases "rows ! row ! c = CHR ''1''") (simp_all add: Let_def dot_scale_def)
  then have "paints (fold (\<lambda>row. fold (?step row) [0..<glyph_width]) [0..<glyph_height]) (\<Union>row\<in>set [0..<glyph_height]. \<Union>c\<in>set [0..<glyph_width]. ?cell row c)"
    by (intro paints_fold)
  then show ?thesis by (simp add: draw_glyph_def[abs_def] glyph_shape_def Let_def glyph_width_def glyph_height_def)
qed

lemma half_bounds: "\<bar>s\<bar> \<le> 1 \<Longrightarrow> row < 7 \<Longrightarrow> \<bar>half (s * int row)\<bar> \<le> 3"
proof -
  assume "\<bar>s\<bar> \<le> 1" and r: "row < (7::nat)"
  then consider "s = 0" | "s = 1" | "s = -1" by linarith
  then show ?thesis using r by cases (auto simp: half_def)
qed

lemma shape_bounds:
  assumes "\<bar>s\<bar> \<le> 1" "p \<in> glyph_shape rows x y s"
  shows "x - 3 \<le> fst p \<and> fst p \<le> x + 31 \<and> y \<le> snd p \<and> snd p \<le> y + 40"
proof -
  from assms(2) obtain row c where c: "row < 7" "c < 5" "p \<in> {x + half (s * int row) + int c * 6..x + half (s * int row) + int c * 6 + 4} \<times> {y + int row * 6..y + int row * 6 + 4}"
    by (auto simp: glyph_shape_def split: if_splits)
  from half_bounds[OF assms(1) c(1)] have "- 3 \<le> half (s * int row)" "half (s * int row) \<le> 3" by simp_all
  with c show ?thesis by (auto simp: mem_Times_iff)
qed

text \<open>The source of random numbers keeps \<open>rand.IntN\<close>'s promise.\<close>

definition rand_ok :: "(int \<Rightarrow> 'r \<Rightarrow> int \<times> 'r) \<Rightarrow> bool" where
  "rand_ok rnd \<longleftrightarrow> (\<forall>n r. 0 < n \<longrightarrow> 0 \<le> fst (rnd n r) \<and> fst (rnd n r) < n)"

lemma rand_range: "rand_ok rnd \<Longrightarrow> rnd n r = (k, r') \<Longrightarrow> 0 < n \<Longrightarrow> 0 \<le> k \<and> k < n"
  by (metis rand_ok_def fst_conv)

definition same_size :: "canvas \<Rightarrow> canvas \<Rightarrow> bool" where
  "same_size a b \<longleftrightarrow> cv_width a = cv_width b \<and> cv_height a = cv_height b"

lemma noise_faint:
  assumes "rand_ok rnd" "dark_pixels (fst s) = {}"
  shows "dark_pixels (fst (draw_noise_line rnd lerp s)) = {} \<and> same_size (fst (draw_noise_line rnd lerp s)) (fst s)"
proof -
  obtain img r0 where s: "s = (img, r0)" by fastforce
  obtain a r1 where 1: "rnd 60 r0 = (a, r1)" by fastforce
  obtain b r2 where 2: "rnd 60 r1 = (b, r2)" by fastforce
  obtain c r3 where 3: "rnd 60 r2 = (c, r3)" by fastforce
  obtain y0 r4 where 4: "rnd (cv_height img) r3 = (y0, r4)" by fastforce
  obtain y1 r5 where 5: "rnd (cv_height img) r4 = (y1, r5)" by fastforce
  have n: "\<not> dark (150 + a, 150 + b, 150 + c, 255)" using rand_range[OF assms(1) 1] by (simp add: dark_def)
  let ?f = "\<lambda>x i. let y = lerp y0 y1 x (cv_width img) in img_set x (y + 1) (150 + a, 150 + b, 150 + c, 255) (img_set x y (150 + a, 150 + b, 150 + c, 255) i)"
  have f: "faint (?f x)" for x
    unfolding Let_def using faint_comp[OF faint_set[OF n, of x "lerp y0 y1 x (cv_width img)"] faint_set[OF n, of x "lerp y0 y1 x (cv_width img) + 1"]] .
  have "faint (fold ?f [0..cv_width img - 1])" by (rule faint_fold) (rule f)
  moreover have "fst (draw_noise_line rnd lerp s) = fold ?f [0..cv_width img - 1] img"
    by (simp only: s draw_noise_line_def prod.case 1 2 3 4 5 Let_def fst_conv)
  ultimately show ?thesis using assms(2) by (simp only: s faint_def same_size_def fst_conv simp_thms)
qed

lemma dot_faint:
  assumes "rand_ok rnd" "dark_pixels (fst s) = {}"
  shows "dark_pixels (fst (draw_dot rnd s)) = {} \<and> same_size (fst (draw_dot rnd s)) (fst s)"
proof -
  obtain img r0 where s: "s = (img, r0)" by fastforce
  obtain x r1 where 1: "rnd (cv_width img) r0 = (x, r1)" by fastforce
  obtain y r2 where 2: "rnd (cv_height img) r1 = (y, r2)" by fastforce
  obtain v r3 where 3: "rnd 70 r2 = (v, r3)" by fastforce
  have "\<not> dark (170 + v, 170 + v, 170 + v, 255)" using rand_range[OF assms(1) 3] by (simp add: dark_def)
  from faint_set[OF this, of x y] show ?thesis using assms(2) by (simp add: s draw_dot_def 1 2 3 faint_def same_size_def)
qed

lemma faint_iterate:
  fixes f :: "canvas \<times> 'r \<Rightarrow> canvas \<times> 'r"
  assumes "\<And>s. dark_pixels (fst s) = {} \<Longrightarrow> dark_pixels (fst (f s)) = {} \<and> same_size (fst (f s)) (fst s)" "dark_pixels (fst s) = {}"
  shows "dark_pixels (fst ((f ^^ n) s)) = {} \<and> same_size (fst ((f ^^ n) s)) (fst s)"
proof (induction n)
  case (Suc n)
  then show ?case using assms(1)[of "(f ^^ n) s"] by (simp add: same_size_def)
qed (simp add: assms(2) same_size_def)

lemma background_faint: "dark_pixels (fill_background (blank w h)) = {} \<and> same_size (fill_background (blank w h)) (blank w h)"
proof -
  have "\<not> dark (245, 245, 248, 255)" by (simp add: dark_def)
  then have "faint (fold (\<lambda>y. fold (\<lambda>x. img_set x y (245, 245, 248, 255)) xs) ys)" for xs ys
    by (intro faint_fold faint_set)
  then show ?thesis by (simp add: fill_background_def faint_def same_size_def dark_pixels_def blank_def dark_def)
qed

fun well_placed :: "int \<Rightarrow> (int \<times> int \<times> int) list \<Rightarrow> bool" where
  "well_placed x [] = True"
| "well_placed x ((px, py, s) # ps) = (px = x \<and> 10 \<le> py \<and> py \<le> 18 \<and> \<bar>s\<bar> \<le> 1 \<and> well_placed (x + 34) ps)"

fun shapes :: "string \<Rightarrow> (int \<times> int \<times> int) list \<Rightarrow> (int \<times> int) set" where
  "shapes (c # cs) ((x, y, s) # ps) = glyph_shape (the (map_of glyphs c)) x y s \<union> shapes cs ps"
| "shapes _ _ = {}"

lemma digit_glyph: "is_digit c \<Longrightarrow> \<exists>rows. map_of glyphs c = Some rows"
proof -
  assume "is_digit c"
  then obtain n :: nat where n: "of_char c = n" "48 \<le> n" "n \<le> 57" by (auto simp: is_digit_def)
  have "n \<in> {48, 49, 50, 51, 52, 53, 54, 55, 56, 57}" using n(2,3) by (simp only: insert_iff empty_iff) arith
  then have "of_char c \<in> (of_char ` set ''0123456789'' :: nat set)" unfolding n(1) by simp
  then have "c \<in> set ''0123456789''" unfolding inj_image_mem_iff[OF inj_of_char] .
  then show ?thesis by (auto simp: glyphs_def)
qed

lemma draw_code_paints:
  assumes "rand_ok rnd"
  shows "\<forall>c\<in>set code. is_digit c \<Longrightarrow> \<exists>ps. length ps = length code \<and> well_placed x ps \<and>
    same_size (fst (draw_code rnd x code (img, r))) img \<and>
    dark_pixels (fst (draw_code rnd x code (img, r))) = dark_pixels img \<union> (shapes code ps \<inter> area img)"
proof (induction code arbitrary: x img r)
  case Nil
  then show ?case by (simp add: same_size_def)
next
  case (Cons c cs)
  obtain rows where rows: "map_of glyphs c = Some rows" using digit_glyph Cons.prems by auto
  obtain j r1 where 1: "rnd 9 r = (j, r1)" by fastforce
  obtain sh r2 where 2: "rnd 3 r1 = (sh, r2)" by fastforce
  obtain k r3 where 3: "rnd (int (length palette)) r2 = (k, r3)" by fastforce
  have j: "0 \<le> j \<and> j < 9" and sh: "0 \<le> sh \<and> sh < 3" using rand_range[OF assms 1] rand_range[OF assms 2] by simp_all
  have sh': "\<bar>sh - 1\<bar> \<le> 1" using sh by linarith
  have k: "0 \<le> k \<and> k < 4" using rand_range[OF assms 3] by (simp add: palette_def)
  have "nat k \<in> {0, 1, 2, 3}" using k by auto
  then have "dark (palette ! nat k)" by (auto simp: palette_def dark_def)
  note p = draw_glyph_paints[OF this, of rows x "margin_y + (j - 4)" "sh - 1"]
  let ?img = "draw_glyph rows x (margin_y + (j - 4)) (sh - 1) (palette ! nat k) img"
  have img: "same_size ?img img" "dark_pixels ?img = dark_pixels img \<union> (glyph_shape rows x (margin_y + (j - 4)) (sh - 1) \<inter> area img)"
    using p by (simp_all add: paints_def same_size_def)
  have st: "x + char_width + char_gap = x + 34" by (simp add: char_width_def char_gap_def glyph_width_def dot_scale_def)
  from Cons.IH[of "x + 34" ?img r3] Cons.prems obtain ps where ps: "length ps = length cs" "well_placed (x + 34) ps"
      "same_size (fst (draw_code rnd (x + 34) cs (?img, r3))) ?img"
      "dark_pixels (fst (draw_code rnd (x + 34) cs (?img, r3))) = dark_pixels ?img \<union> (shapes cs ps \<inter> area ?img)" by auto
  have e: "draw_code rnd x (c # cs) (img, r) = draw_code rnd (x + 34) cs (?img, r3)"
    unfolding draw_code.simps st rows option.case 1 2 3 prod.case ..
  have ar: "area ?img = area img" using img(1) by (simp add: area_def same_size_def)
  have "well_placed x ((x, margin_y + (j - 4), sh - 1) # ps)" using j sh' ps(2) by (simp add: margin_y_def)
  moreover have "dark_pixels (fst (draw_code rnd x (c # cs) (img, r))) =
      dark_pixels img \<union> (shapes (c # cs) ((x, margin_y + (j - 4), sh - 1) # ps) \<inter> area img)"
    unfolding e ps(4) img(2) ar by (auto simp: rows)
  moreover have "same_size (fst (draw_code rnd x (c # cs) (img, r))) img" unfolding e using ps(3) img(1) by (simp add: same_size_def)
  ultimately show ?case using ps(1) by (intro exI[of _ "(x, margin_y + (j - 4), sh - 1) # ps"]) simp
qed

lemma shapes_bounds: "well_placed x ps \<Longrightarrow> length ps = length code \<Longrightarrow> p \<in> shapes code ps \<Longrightarrow>
  x - 3 \<le> fst p \<and> fst p \<le> x + 34 * int (length code) - 3 \<and> 10 \<le> snd p \<and> snd p \<le> 58"
proof (induction code ps arbitrary: x rule: shapes.induct)
  case (1 c cs px py s ps)
  from 1(4) consider "p \<in> glyph_shape (the (map_of glyphs c)) px py s" | "p \<in> shapes cs ps" by auto
  then show ?case
  proof cases
    case a: 1
    have b: "\<bar>s\<bar> \<le> 1" "px = x" "10 \<le> py" "py \<le> 18" using 1(2) by simp_all
    from shape_bounds[OF b(1) a] b(2-4) show ?thesis by simp
  next
    case a: 2
    have "well_placed (x + 34) ps" "length ps = length cs" using 1(2,3) by simp_all
    from 1(1)[OF this a] show ?thesis by simp
  qed
qed simp_all

lemma shape_corner:
  assumes "row < 7" "c < 5"
  shows "(x + half (s * int row) + int c * 6, y + int row * 6) \<in> glyph_shape rows x y s \<longleftrightarrow> rows ! row ! c = CHR ''1''"
proof
  assume "(x + half (s * int row) + int c * 6, y + int row * 6) \<in> glyph_shape rows x y s"
  then obtain row' c' where w: "row' < 7" "c' < 5" "rows ! row' ! c' = CHR ''1''"
    "x + half (s * int row) + int c * 6 \<in> {x + half (s * int row') + int c' * 6..x + half (s * int row') + int c' * 6 + 4}"
    "y + int row * 6 \<in> {y + int row' * 6..y + int row' * 6 + 4}" by (auto simp: glyph_shape_def split: if_splits)
  from w(5) have r: "row' = row" by auto
  with w(4) have "c' = c" by auto
  with w(3) r show "rows ! row ! c = CHR ''1''" by simp
next
  assume a: "rows ! row ! c = CHR ''1''"
  show "(x + half (s * int row) + int c * 6, y + int row * 6) \<in> glyph_shape rows x y s"
    unfolding glyph_shape_def by (rule UN_I[of row], use assms in simp, rule UN_I[of c], use assms in simp) (simp add: a)
qed

lemma shape_rows:
  assumes "glyph_shape rows x y s = glyph_shape rows' x y s" "length rows = 7" "length rows' = 7"
    and "\<forall>r\<in>set rows \<union> set rows'. length r = 5 \<and> set r \<subseteq> set ''01''"
  shows "rows = rows'"
proof (rule nth_equalityI)
  fix i assume i: "i < length rows"
  have m: "rows ! i \<in> set rows" "rows' ! i \<in> set rows'" using i assms(2,3) by simp_all
  have l: "length (rows ! i) = 5" "length (rows' ! i) = 5" "set (rows ! i) \<subseteq> set ''01''" "set (rows' ! i) \<subseteq> set ''01''" using m assms(4) by auto
  show "rows ! i = rows' ! i"
  proof (rule nth_equalityI)
    fix c assume c: "c < length (rows ! i)"
    have "rows ! i ! c = CHR ''1'' \<longleftrightarrow> rows' ! i ! c = CHR ''1''"
      using shape_corner[of i c x s y rows] shape_corner[of i c x s y rows'] i c l assms(1,2) by simp
    moreover have "rows ! i ! c \<in> set (rows ! i)" "rows' ! i ! c \<in> set (rows' ! i)" using c l(1,2) by (simp_all add: nth_mem)
    then have "rows ! i ! c \<in> set ''01''" "rows' ! i ! c \<in> set ''01''" using l(3,4) by (blast dest: subsetD)+
    ultimately show "rows ! i ! c = rows' ! i ! c" by auto
  qed (simp add: l)
qed (simp add: assms)

lemma font_ok: "list_all (\<lambda>(c, rows). length rows = 7 \<and> list_all (\<lambda>r. length r = 5 \<and> list_all (\<lambda>x. x \<in> set ''01'') r) rows) glyphs \<and>
    distinct (map snd glyphs) \<and> distinct (map fst glyphs)"
  by code_simp

lemma font_rows: "(c, rows) \<in> set glyphs \<Longrightarrow> length rows = 7 \<and> (\<forall>r\<in>set rows. length r = 5 \<and> set r \<subseteq> set ''01'')"
proof -
  assume g: "(c, rows) \<in> set glyphs"
  from bspec[OF font_ok[THEN conjunct1, unfolded list_all_iff] g, unfolded prod.case] show ?thesis by blast
qed

lemma glyph_of: "is_digit c \<Longrightarrow> (c, the (map_of glyphs c)) \<in> set glyphs"
  using digit_glyph[of c] by (auto dest: map_of_SomeD)

lemma shape_digit:
  assumes "is_digit c" "is_digit d" "glyph_shape (the (map_of glyphs c)) x y s = glyph_shape (the (map_of glyphs d)) x y s"
  shows "c = d"
proof -
  note g = glyph_of[OF assms(1)] glyph_of[OF assms(2)]
  have "the (map_of glyphs c) = the (map_of glyphs d)"
    using font_rows[OF g(1)] font_rows[OF g(2)] by (intro shape_rows[OF assms(3)]) blast+
  moreover have inj: "inj_on snd (set glyphs)" using font_ok by (simp add: distinct_map)
  ultimately show "c = d" using inj_onD[OF inj _ g] by simp
qed

lemma captcha_pixels:
  assumes "rand_ok rnd" "code \<noteq> []" "\<forall>c\<in>set code. is_digit c"
  shows "\<exists>ps. length ps = length code \<and> well_placed 12 ps \<and>
    shapes code ps \<subseteq> area (fst (draw_captcha rnd lerp code r)) \<and> dark_pixels (fst (draw_captcha rnd lerp code r)) = shapes code ps"
proof -
  define b where "b = blank (image_width code) image_height"
  define s1 where "s1 = (draw_noise_line rnd lerp ^^ 4) (fill_background b, r)"
  define s2 where "s2 = (draw_dot rnd ^^ nat (image_width code * image_height div 18)) s1"
  have bg: "dark_pixels (fst (fill_background b, r)) = {}" "same_size (fst (fill_background b, r)) b"
    using background_faint by (simp_all add: b_def)
  from faint_iterate[OF noise_faint[OF assms(1)] bg(1)] have 1: "dark_pixels (fst s1) = {}" "same_size (fst s1) b"
    using bg(2) unfolding s1_def by (auto simp: same_size_def)
  from faint_iterate[OF dot_faint[OF assms(1)] 1(1)] have 2: "dark_pixels (fst s2) = {}" "same_size (fst s2) b"
    using 1(2) unfolding s2_def by (auto simp: same_size_def)
  have d: "draw_captcha rnd lerp code r = draw_code rnd 12 code (fst s2, snd s2)"
    by (simp add: draw_captcha_def Let_def s2_def s1_def b_def margin_x_def)
  from draw_code_paints[OF assms(1,3), of 12 "fst s2" "snd s2"] obtain ps where ps: "length ps = length code" "well_placed 12 ps"
      "same_size (fst (draw_captcha rnd lerp code r)) (fst s2)"
      "dark_pixels (fst (draw_captcha rnd lerp code r)) = shapes code ps \<inter> area (fst s2)" unfolding d 2(1) by auto
  have w: "cv_width (fst s2) = 34 * int (length code) + 20" "cv_height (fst s2) = 70"
    using 2(2) by (simp_all add: same_size_def b_def blank_def image_width_def image_height_def margin_x_def margin_y_def char_width_def char_height_def
        char_gap_def glyph_width_def glyph_height_def dot_scale_def)
  have a: "shapes code ps \<subseteq> area (fst s2)"
  proof
    fix p assume "p \<in> shapes code ps"
    from shapes_bounds[OF ps(2,1) this] show "p \<in> area (fst s2)" using w by (simp add: area_def mem_Times_iff)
  qed
  have "area (fst (draw_captcha rnd lerp code r)) = area (fst s2)" using ps(3) by (simp add: area_def same_size_def)
  with ps a show ?thesis by (intro exI[of _ ps]) auto
qed

text \<open>
  C23: The image shows the code. Every digit is drawn whole inside the canvas, at its place and at most four pixels up
  or down and sheared by at most three; two digits never have the same pixels at the same place. And nothing else
  is dark: the lines and dots of noise are told from the digits by the red of a pixel alone, so that one threshold
  removes all the noise.
\<close>

theorem captcha_image_legible:
  assumes "rand_ok rnd" "code \<noteq> []" "\<forall>c\<in>set code. is_digit c"
  shows "(\<exists>ps. length ps = length code \<and> well_placed 12 ps \<and>
      shapes code ps \<subseteq> area (fst (draw_captcha rnd lerp code r)) \<and>
      {p. case cv_pixel (fst (draw_captcha rnd lerp code r)) p of (red, _, _, alpha) \<Rightarrow> red < 100 \<and> alpha = 255} = shapes code ps) \<and>
    (\<forall>c\<in>set code. \<forall>d. is_digit d \<and> glyph_shape (the (map_of glyphs c)) x y s = glyph_shape (the (map_of glyphs d)) x y s \<longrightarrow> c = d)"
  using captcha_pixels[OF assms, of lerp r] assms(3) shape_digit by (auto simp: dark_pixels_def dark_def[abs_def])

theorem captcha_image_legible_witness:
  "\<exists>y s. 10 \<le> y \<and> y \<le> 18 \<and> \<bar>s\<bar> \<le> 1 \<and>
    {p. case cv_pixel (fst (draw_captcha (\<lambda>n r. (r mod n, r + 1)) (\<lambda>y0 y1 x w. y0) ''7'' 3)) p of (red, _, _, alpha) \<Rightarrow> red < 100 \<and> alpha = 255} =
      glyph_shape (the (map_of glyphs (CHR ''7''))) 12 y s"
proof -
  have r: "rand_ok (\<lambda>n r. (r mod n, r + 1))" by (simp add: rand_ok_def)
  have d: "\<forall>c\<in>set ''7''. is_digit c" by (simp add: is_digit_def)
  from captcha_image_legible[OF r _ d, of "\<lambda>y0 y1 x w. y0" 3, THEN conjunct1] obtain ps where ps: "length ps = Suc 0" "well_placed 12 ps"
      "{p. case cv_pixel (fst (draw_captcha (\<lambda>n r. (r mod n, r + 1)) (\<lambda>y0 y1 x w. y0) ''7'' 3)) p of (red, _, _, alpha) \<Rightarrow> red < 100 \<and> alpha = 255} = shapes ''7'' ps"
    by auto
  then obtain q where q: "ps = [q]" by (auto simp: length_Suc_conv)
  obtain x y s where t: "q = (x, y, s)" by (metis prod_cases3)
  show ?thesis using ps(2) unfolding ps(3) q t by (intro exI[of _ y] exI[of _ s]) simp
qed

end
