(* ===== verification/HotReload.thy ===== *)
theory HotReload
  imports Router
begin

text \<open>
  Reloading in development (\<open>core/hotreload/hotreload.go\<close>): the watcher compares the modification times of the
  watched files with those of its last look and tells the open pages. A page has a channel for one signal; what it
  reads from it goes to its event stream. The file system is a list of entries per directory.
\<close>

declare map_of_eq_Some_iff [simp del] AList.update_conv' [simp]

subsection \<open>The watcher\<close>

text \<open>What \<open>WalkDir\<close> meets: the path, whether it is a directory or could not be read, and its modification time when \<open>Info\<close> gives one.\<close>

record walk_entry =
  we_path :: string
  we_failed :: bool
  we_dir :: bool
  we_time :: "int option"

text \<open>\<open>filepath.Ext\<close>: from the last dot of the last element on.\<close>

definition file_ext :: "string \<Rightarrow> string" where
  "file_ext p =
     (let name = rev (takeWhile (\<lambda>c. c \<noteq> CHR ''/'') (rev p)); ext = takeWhile (\<lambda>c. c \<noteq> CHR ''.'') (rev name)
      in if CHR ''.'' \<in> set name then CHR ''.'' # rev ext else [])"

definition watched :: "walk_entry \<Rightarrow> bool" where
  "watched e \<longleftrightarrow> \<not> we_failed e \<and> \<not> we_dir e \<and> file_ext (we_path e) \<in> {''.html'', ''.css'', ''.js''}"

definition note_file :: "walk_entry \<Rightarrow> (string \<times> int) list \<Rightarrow> (string \<times> int) list" where
  "note_file e m = (if watched e then (case we_time e of None \<Rightarrow> m | Some t \<Rightarrow> AList.update (we_path e) t m) else m)"

definition snapshot :: "(string \<Rightarrow> walk_entry list) \<Rightarrow> string list \<Rightarrow> (string \<times> int) list" where
  "snapshot walk dirs = fold (\<lambda>dir. fold note_file (walk dir)) dirs []"

definition changed :: "(string \<times> int) list \<Rightarrow> (string \<times> int) list \<Rightarrow> bool" where
  "changed prev cur \<longleftrightarrow>
     list_ex (\<lambda>(path, t). case map_of prev path of None \<Rightarrow> True | Some p \<Rightarrow> t \<noteq> p) cur \<or>
     list_ex (\<lambda>(path, _). map_of cur path = None) prev"

subsection \<open>The pages\<close>

text \<open>A page of the hub: its channel holds at most one signal, its stream what was written to it.\<close>

record reload_client =
  rc_signal :: bool
  rc_stream :: "string list"

type_synonym reload_hub = "(nat \<times> reload_client) list"

definition connected_event :: string where "connected_event = ''data: connected'' @ [CHR 0x0A, CHR 0x0A]"
definition reload_event :: string where "reload_event = ''data: reload'' @ [CHR 0x0A, CHR 0x0A]"

definition hub_add :: "nat \<Rightarrow> reload_hub \<Rightarrow> reload_hub" where
  "hub_add i h = AList.update i \<lparr>rc_signal = False, rc_stream = [connected_event]\<rparr> h"

definition hub_remove :: "nat \<Rightarrow> reload_hub \<Rightarrow> reload_hub" where
  "hub_remove i h = AList.delete i h"

text \<open>A send that does not wait: a signal that is already there stays the only one.\<close>

definition hub_broadcast :: "reload_hub \<Rightarrow> reload_hub" where
  "hub_broadcast h = map (\<lambda>(i, c). (i, c\<lparr>rc_signal := True\<rparr>)) h"

text \<open>One turn of the loop of \<open>ServeHTTP\<close> for a page with a signal; a failed write ends it.\<close>

definition client_turn :: "nat \<Rightarrow> bool \<Rightarrow> reload_hub \<Rightarrow> reload_hub" where
  "client_turn i written h =
     (case map_of h i of
        None \<Rightarrow> h
      | Some c \<Rightarrow>
          if \<not> rc_signal c then h
          else if written then AList.update i (c\<lparr>rc_signal := False, rc_stream := rc_stream c @ [reload_event]\<rparr>) h
          else hub_remove i h)"

definition watch_tick :: "(string \<times> int) list \<Rightarrow> (string \<times> int) list \<times> reload_hub \<Rightarrow> (string \<times> int) list \<times> reload_hub" where
  "watch_tick curent s = (case s of (mtimes, h) \<Rightarrow> (curent, if changed mtimes curent then hub_broadcast h else h))"

text \<open>
  What happens between the goroutines: the files change, the watcher ticks, pages come, are told and go. The state is
  what a snapshot of the files gives now, what the watcher took last, the hub, and the number of the next page.
\<close>

type_synonym reload_state = "(string \<times> int) list \<times> (string \<times> int) list \<times> reload_hub \<times> nat"

inductive reload_step :: "reload_state \<Rightarrow> reload_state \<Rightarrow> bool" where
  Edit: "files' = snapshot walk dirs \<Longrightarrow> reload_step (files, m, h, n) (files', m, h, n)"
| Tick: "watch_tick files (m, h) = (m', h') \<Longrightarrow> reload_step (files, m, h, n) (files, m', h', n)"
| Connect: "reload_step (files, m, h, n) (files, m, hub_add n h, Suc n)"
| Turn: "reload_step (files, m, h, n) (files, m, client_turn i written h, n)"
| Leave: "reload_step (files, m, h, n) (files, m, hub_remove i h, n)"

subsection \<open>Every change is told\<close>

lemma changed_iff: "changed prev cur \<longleftrightarrow> map_of prev \<noteq> map_of cur"
  if "distinct (map fst prev)" "distinct (map fst cur)"
proof
  assume "changed prev cur"
  then consider p t where "(p, t) \<in> set cur" "map_of prev p \<noteq> Some t" | p t where "(p, t) \<in> set prev" "map_of cur p = None"
    unfolding changed_def list_ex_iff by (fastforce split: option.splits)
  then show "map_of prev \<noteq> map_of cur" using map_of_is_SomeI[OF that(1)] map_of_is_SomeI[OF that(2)] by cases (metis option.distinct(1))+
next
  assume "map_of prev \<noteq> map_of cur"
  then obtain p where p: "map_of prev p \<noteq> map_of cur p" by (auto simp: fun_eq_iff)
  show "changed prev cur"
  proof (cases "map_of cur p")
    case None
    with p obtain t where "map_of prev p = Some t" by auto
    with None show ?thesis unfolding changed_def list_ex_iff by (fastforce dest: map_of_SomeD)
  next
    case (Some t)
    with p show ?thesis unfolding changed_def list_ex_iff by (fastforce dest: map_of_SomeD split: option.split)
  qed
qed

lemma note_file_distinct: "distinct (map fst m) \<Longrightarrow> distinct (map fst (note_file e m))"
  by (auto simp: note_file_def distinct_update split: option.split)

lemma notes_distinct: "distinct (map fst m) \<Longrightarrow> distinct (map fst (fold note_file es m))"
  by (induction es arbitrary: m) (simp_all add: note_file_distinct)

lemma snapshot_distinct: "distinct (map fst (snapshot walk dirs))"
proof -
  have "distinct (map fst m) \<Longrightarrow> distinct (map fst (fold (\<lambda>dir. fold note_file (walk dir)) dirs m))" for m
    by (induction dirs arbitrary: m) (simp_all add: notes_distinct)
  then show ?thesis by (simp add: snapshot_def)
qed

text \<open>Since page \<open>i\<close> was told with the stream \<open>old\<close>: it is gone, or still has the signal, or was sent reloads and nothing else.\<close>

definition told :: "nat \<Rightarrow> string list \<Rightarrow> reload_state \<Rightarrow> bool" where
  "told i old s = (case s of (_, _, h, n) \<Rightarrow> i < n \<and>
     (\<forall>c. map_of h i = Some c \<longrightarrow> (\<exists>k. rc_stream c = old @ replicate k reload_event \<and> (rc_signal c \<or> 0 < k))))"

lemma told_step:
  assumes "reload_step s s'" "told i old s"
  shows "told i old s'"
  using assms
proof (cases rule: reload_step.cases)
  case (Tick files m h m' h' n)
  then show ?thesis using assms(2) by (auto simp: told_def watch_tick_def hub_broadcast_def map_of_map split: if_splits)
next
  case (Turn files m h n j written)
  show ?thesis
  proof (cases "j = i \<and> (\<exists>c. map_of h i = Some c \<and> rc_signal c)")
    case True
    then obtain c where c: "map_of h i = Some c" "rc_signal c" by blast
    with assms(2) Turn obtain k where "rc_stream c = old @ replicate k reload_event" "i < n" by (auto simp: told_def)
    then show ?thesis using Turn True c
      by (auto simp: told_def client_turn_def hub_remove_def AList.delete_conv' replicate_append_same intro!: exI[of _ "Suc k"])
  next
    case False
    then have "map_of (client_turn j written h) i = map_of h i"
      by (auto simp: client_turn_def hub_remove_def AList.delete_conv' split: option.splits)
    then show ?thesis using Turn assms(2) by (simp add: told_def)
  qed
qed (auto simp: told_def hub_add_def hub_remove_def AList.delete_conv' split: if_splits)

text \<open>
  No change goes unnoticed. The watcher finds a change exactly when some watched file came, went or has another
  time than at its last look; and then, whatever happens afterwards in whatever order, every page connected at that
  moment is gone, or has its signal waiting, or was sent at least one reload event, and nothing else.
\<close>

theorem every_change_is_told:
  assumes "watch_tick (snapshot walk dirs) (snapshot walk0 dirs, h) = (m', h')" "map_of h i = Some c" "i < n"
    and "map_of (snapshot walk dirs) p \<noteq> map_of (snapshot walk0 dirs) p" "reload_step\<^sup>*\<^sup>* (snapshot walk dirs, m', h', n) (files2, m2, h2, n2)"
    and "map_of h2 i = Some c2"
  shows "changed (snapshot walk0 dirs) (snapshot walk dirs) \<and>
    (\<exists>k. rc_stream c2 = rc_stream c @ replicate k reload_event \<and> (rc_signal c2 \<or> 0 < k))"
proof
  show ch: "changed (snapshot walk0 dirs) (snapshot walk dirs)"
    using changed_iff[OF snapshot_distinct snapshot_distinct] assms(4) by metis
  have "told i (rc_stream c) (snapshot walk dirs, m', h', n)"
    using assms(1-3) ch by (auto simp: told_def watch_tick_def hub_broadcast_def map_of_map)
  with assms(5) have "told i (rc_stream c) (files2, m2, h2, n2)"
    by (induction rule: rtranclp_induct) (auto intro: told_step)
  then show "\<exists>k. rc_stream c2 = rc_stream c @ replicate k reload_event \<and> (rc_signal c2 \<or> 0 < k)" using assms(6) by (auto simp: told_def)
qed

theorem every_change_is_told_witness:
  "\<exists>k. [connected_event, reload_event] = [connected_event] @ replicate k reload_event \<and> (False \<or> 0 < k)"
proof -
  let ?file = "\<lambda>t. (\<lambda>_. [\<lparr>we_path = ''a.css'', we_failed = False, we_dir = False, we_time = Some t\<rparr>]) :: string \<Rightarrow> walk_entry list"
  let ?h = "hub_add 0 []" and ?h1 = "[(0, \<lparr>rc_signal = True, rc_stream = [connected_event]\<rparr>)] :: reload_hub"
  have x: "file_ext ''a.css'' = ''.css''" by code_simp
  have sn: "snapshot (?file t) [''apps''] = [(''a.css'', t)]" for t
    by (simp add: snapshot_def note_file_def watched_def x)
  have t: "watch_tick (snapshot (?file 2) [''apps'']) (snapshot (?file 1) [''apps''], ?h) = ([(''a.css'', 2)], ?h1)"
    by (simp add: sn watch_tick_def changed_def hub_broadcast_def hub_add_def)
  have "client_turn 0 True ?h1 = [(0, \<lparr>rc_signal = False, rc_stream = [connected_event, reload_event]\<rparr>)]"
    by (simp add: client_turn_def)
  then have s: "reload_step\<^sup>*\<^sup>* (snapshot (?file 2) [''apps''], [(''a.css'', 2)], ?h1, 1)
      (snapshot (?file 2) [''apps''], [(''a.css'', 2)], [(0, \<lparr>rc_signal = False, rc_stream = [connected_event, reload_event]\<rparr>)], 1)"
    using Turn[of _ _ ?h1 1 0 True] by (metis r_into_rtranclp)
  have d: "map_of (snapshot (?file 2) [''apps'']) ''a.css'' \<noteq> map_of (snapshot (?file 1) [''apps'']) ''a.css''" by (simp add: sn)
  from every_change_is_told[OF t _ _ d s, of 0 "\<lparr>rc_signal = False, rc_stream = [connected_event]\<rparr>"] show ?thesis
    by (simp add: hub_add_def)
qed

end
