(* ===== verification/Soap.thy ===== *)
theory Soap
  imports Mail ErrorPages
begin

text \<open>
  SOAP 1.1 over HTTP (\<open>core/soap/soap.go\<close>): the server that finds the operation by the root element of the body, the
  client, and the faults between them. \<open>encoding/xml\<close>'s reader is a parameter: \<open>unmarshal\<close> gives the content of the
  body and its fault, \<open>root_of\<close> the name of the first element; its escaping of text is written out.
\<close>

declare map_of_eq_Some_iff [simp del] AList.update_conv' [simp]

subsection \<open>Text\<close>

definition envelope_ns :: string where "envelope_ns = ''http://schemas.xmlsoap.org/soap/envelope/''"

definition entity :: "char \<Rightarrow> string option" where
  "entity c =
     (if c = CHR 0x22 then Some ''&#34;'' else if c = CHR 0x27 then Some ''&#39;'' else if c = CHR ''&'' then Some ''&amp;''
      else if c = CHR ''<'' then Some ''&lt;'' else if c = CHR ''>'' then Some ''&gt;'' else if c = CHR 0x09 then Some ''&#x9;''
      else if c = CHR 0x0A then Some ''&#xA;'' else if c = CHR 0x0D then Some ''&#xD;'' else None)"

text \<open>The replacement character stands for bytes that are not UTF-8 and for characters XML does not have.\<close>

definition replacement :: string where "replacement = [CHR 0xEF, CHR 0xBF, CHR 0xBD]"

definition xml_char :: "string \<Rightarrow> bool" where
  "xml_char r =
     (case r of
        [c] \<Rightarrow> 0x20 \<le> (of_char c :: nat) \<and> (of_char c :: nat) < 0x80
      | [a, b, c] \<Rightarrow> \<not> (a = CHR 0xEF \<and> b = CHR 0xBF \<and> c \<in> {CHR 0xBE, CHR 0xBF})
      | _ \<Rightarrow> r \<noteq> [])"

text \<open>\<open>xml.EscapeText\<close>, one character of UTF-8 after the other.\<close>

function xml_escape :: "string \<Rightarrow> string" where
  "xml_escape s =
     (if s = [] then []
      else (let n = rune_len s; r = take n s
            in (case entity (hd s) of Some e \<Rightarrow> e | None \<Rightarrow> if xml_char r then r else replacement) @ xml_escape (drop n s)))"
  by auto
termination by (relation "measure length") (auto simp: rune_len_def Let_def)

declare xml_escape.simps [simp del]

definition xml_header :: string where
  "xml_header = ''<?xml version='' @ quote @ ''1.0'' @ quote @ '' encoding='' @ quote @ ''UTF-8'' @ quote @ ''?>''"

definition soap_envelope :: "string \<Rightarrow> string" where
  "soap_envelope content =
     xml_header @ ''<soap:Envelope xmlns:soap='' @ quote @ envelope_ns @ quote @ ''><soap:Body>'' @ content @ ''</soap:Body></soap:Envelope>''"

definition fault_xml :: "string \<Rightarrow> string \<Rightarrow> string" where
  "fault_xml code message =
     ''<soap:Fault><faultcode>'' @ xml_escape code @ ''</faultcode><faultstring>'' @ xml_escape message @ ''</faultstring></soap:Fault>''"

subsection \<open>The server\<close>

type_synonym 'w soap_handler = "string \<Rightarrow> 'w \<Rightarrow> (string + string) \<times> 'w"
type_synonym 'w soap_server = "(string \<times> 'w soap_handler) list"

definition soap_handle :: "string \<Rightarrow> 'w soap_handler \<Rightarrow> 'w soap_server \<Rightarrow> 'w soap_server" where
  "soap_handle op h sv = AList.update op h sv"

definition write_fault :: "string \<Rightarrow> string \<Rightarrow> response \<Rightarrow> response" where
  "write_fault code message rs =
     write_body (soap_envelope (fault_xml code message)) (write_header 500 (header_set ''Content-Type'' ''text/xml; charset=utf-8'' rs))"

definition client_code :: string where "client_code = ''soap:Client''"
definition server_code :: string where "server_code = ''soap:Server''"

definition body_text :: string where
  "body_text = ''erro lendo o corpo da requisi'' @ [CHR 0xC3, CHR 0xA7, CHR 0xC3, CHR 0xA3] @ ''o''"
definition invalid_text :: "string \<Rightarrow> string" where
  "invalid_text e = ''envelope XML inv'' @ [CHR 0xC3, CHR 0xA1] @ ''lido: '' @ e"
definition empty_text :: string where
  "empty_text = ''corpo SOAP vazio ou inv'' @ [CHR 0xC3, CHR 0xA1] @ ''lido''"
definition unknown_text :: "string \<Rightarrow> string" where
  "unknown_text op = ''opera'' @ [CHR 0xC3, CHR 0xA7, CHR 0xC3, CHR 0xA3] @ ''o desconhecida: '' @ op"

text \<open>\<open>ServeHTTP\<close> over the body that was read, if it was.\<close>

definition soap_serve ::
  "(string \<Rightarrow> string + string \<times> (string \<times> string) option) \<Rightarrow> (string \<Rightarrow> string option) \<Rightarrow> 'w soap_server \<Rightarrow> string option \<Rightarrow>
   response \<Rightarrow> 'w \<Rightarrow> response \<times> 'w"
where
  "soap_serve unmarshal root_of sv data rs w =
     (case data of
        None \<Rightarrow> (write_fault client_code body_text rs, w)
      | Some d \<Rightarrow>
          (case unmarshal d of
             Inl e \<Rightarrow> (write_fault client_code (invalid_text e) rs, w)
           | Inr (content, _) \<Rightarrow>
               (case root_of content of
                  None \<Rightarrow> (write_fault client_code empty_text rs, w)
                | Some op \<Rightarrow>
                    (case map_of sv op of
                       None \<Rightarrow> (write_fault client_code (unknown_text op) rs, w)
                     | Some h \<Rightarrow>
                         (case h content w of
                            (Inl e, w1) \<Rightarrow> (write_fault server_code e rs, w1)
                          | (Inr answer, w1) \<Rightarrow>
                              (write_body (soap_envelope answer) (header_set ''Content-Type'' ''text/xml; charset=utf-8'' rs), w1))))))"

subsection \<open>The client\<close>

record soap_client =
  sc_endpoint :: string
  sc_timeout :: "duration option"

text \<open>\<open>NewClient\<close>; without an HTTP client of the caller's there is one with a timeout.\<close>

definition new_soap_client :: "string \<Rightarrow> duration option option \<Rightarrow> soap_client" where
  "new_soap_client endpoint http = \<lparr>sc_endpoint = endpoint, sc_timeout = (case http of None \<Rightarrow> Some 30000000000 | Some t \<Rightarrow> t)\<rparr>"

record soap_request =
  sq_url :: string
  sq_headers :: "(string \<times> string) list"
  sq_body :: string

datatype soap_error =
    MarshalFailed | RequestInvalid | CallFailed | ReadFailed | EnvelopeInvalid nat | FaultReceived string string | DecodeFailed

definition soap_request :: "soap_client \<Rightarrow> string \<Rightarrow> string \<Rightarrow> soap_request" where
  "soap_request cl action content =
     \<lparr>sq_url = sc_endpoint cl,
      sq_headers = (''Content-Type'', ''text/xml; charset=utf-8'') #
        (if action \<noteq> [] then [(''SOAPAction'', quote @ action @ quote)] else []),
      sq_body = soap_envelope content\<rparr>"

text \<open>
  \<open>Call\<close>: \<open>marshalled\<close> is the request's XML, \<open>url_ok\<close> whether the address makes a request, \<open>post\<close> sends it and gives the
  status and the body, if it could be read; \<open>decode\<close> is there when the caller wants the response.
\<close>

definition soap_call ::
  "(string \<Rightarrow> string + string \<times> (string \<times> string) option) \<Rightarrow> (string \<Rightarrow> bool) \<Rightarrow>
   (soap_request \<Rightarrow> 'w \<Rightarrow> (nat \<times> string option) option \<times> 'w) \<Rightarrow> soap_client \<Rightarrow> string \<Rightarrow> string option \<Rightarrow>
   (string \<Rightarrow> 'a option) option \<Rightarrow> 'w \<Rightarrow> (soap_error + 'a option) \<times> 'w"
where
  "soap_call unmarshal url_ok post cl action marshalled decode w =
     (case marshalled of
        None \<Rightarrow> (Inl MarshalFailed, w)
      | Some content \<Rightarrow>
          if \<not> url_ok (sc_endpoint cl) then (Inl RequestInvalid, w)
          else
            (case post (soap_request cl action content) w of
               (None, w1) \<Rightarrow> (Inl CallFailed, w1)
             | (Some (status, None), w1) \<Rightarrow> (Inl ReadFailed, w1)
             | (Some (status, Some data), w1) \<Rightarrow>
                 (case unmarshal data of
                    Inl _ \<Rightarrow> (Inl (EnvelopeInvalid status), w1)
                  | Inr (_, Some (code, text)) \<Rightarrow> (Inl (FaultReceived code text), w1)
                  | Inr (answer, None) \<Rightarrow>
                      (case decode of
                         None \<Rightarrow> (Inr None, w1)
                       | Some f \<Rightarrow> (case f answer of None \<Rightarrow> (Inl DecodeFailed, w1) | Some a \<Rightarrow> (Inr (Some a), w1))))))"

subsection \<open>Escaped text is text\<close>

lemma cont_byteD: "cont_byte lo hi (drop k s) \<Longrightarrow> 0x80 \<le> lo \<Longrightarrow> k < length s \<and> 0x80 \<le> (of_char (s ! k) :: nat)"
proof -
  assume c: "cont_byte lo hi (drop k s)" and lo: "0x80 \<le> lo"
  then obtain a t where d: "drop k s = a # t" "lo \<le> of_char a" by (auto simp: cont_byte_def split: list.splits)
  then have k: "k < length s" by (metis drop_eq_Nil2 list.distinct(1) not_le_imp_less)
  with d have "s ! k = a" using hd_drop_conv_nth[OF k] by simp
  with d(2) k lo show ?thesis by simp
qed

lemma rune_cont:
  assumes "k < rune_len s" "rune_len s \<noteq> 1"
  shows "k < length s \<and> 0x80 \<le> (of_char (s ! k) :: nat)"
proof -
  let ?b = "case s of [] \<Rightarrow> 0 :: nat | c # _ \<Rightarrow> of_char c"
  let ?lo = "if ?b = 0xE0 then 0xA0 else if ?b = 0xF0 then 0x90 else 0x80 :: nat"
  let ?hi = "if ?b = 0xED then 0x9F else if ?b = 0xF4 then 0x8F else 0xBF :: nat"
  have lo: "0x80 \<le> ?lo" by simp
  consider "rune_len s = 2" "0xC2 \<le> ?b" "cont_byte 0x80 0xBF (drop 1 s)"
    | "rune_len s = 3" "0xC2 \<le> ?b" "cont_byte ?lo ?hi (drop 1 s)" "cont_byte 0x80 0xBF (drop 2 s)"
    | "rune_len s = 4" "0xC2 \<le> ?b" "cont_byte ?lo ?hi (drop 1 s)" "cont_byte 0x80 0xBF (drop 2 s)" "cont_byte 0x80 0xBF (drop 3 s)"
    using assms(2) unfolding rune_len_def Let_def by (simp only: split: if_splits) auto
  then show ?thesis
  proof cases
    case 1
    have "k = 0 \<or> k = 1" using assms(1) 1(1) by auto
    then show ?thesis using 1(2) cont_byteD[OF 1(3)] by (cases s) auto
  next
    case 2
    have "k = 0 \<or> k = 1 \<or> k = 2" using assms(1) 2(1) by auto
    then show ?thesis using 2(2) cont_byteD[OF 2(3) lo] cont_byteD[OF 2(4)] by (cases s) auto
  next
    case 3
    have "k = 0 \<or> k = 1 \<or> k = 2 \<or> k = 3" using assms(1) 3(1) by auto
    then show ?thesis using 3(2) cont_byteD[OF 3(3) lo] cont_byteD[OF 3(4)] cont_byteD[OF 3(5)] by (cases s) auto
  qed
qed

definition markup :: "char set" where "markup = {CHR ''<'', CHR ''>'', CHR 0x22, CHR 0x27}"

lemma markup_ascii: "c \<in> markup \<Longrightarrow> (of_char c :: nat) < 0x80"
  by (auto simp: markup_def)

lemma xml_escape_no_markup: "set (xml_escape s) \<inter> markup = {}"
proof (induction s rule: xml_escape.induct)
  case (1 s)
  show ?case
  proof (cases "s = []")
    case True
    then show ?thesis by (simp add: xml_escape.simps)
  next
    case False
    let ?n = "rune_len s"
    have ih: "set (xml_escape (drop ?n s)) \<inter> markup = {}" by (rule 1[OF False refl refl])
    have e: "entity (hd s) = Some t \<Longrightarrow> set t \<inter> markup = {}" for t
      by (auto simp: entity_def markup_def split: if_splits)
    have r: "set (take ?n s) \<inter> markup = {}" if "entity (hd s) = None"
    proof (cases "?n = 1")
      case True
      have "hd s \<notin> markup" using that by (auto simp: entity_def markup_def split: if_splits)
      then show ?thesis using True False by (cases s) auto
    next
      case n: False
      show ?thesis
      proof (rule ccontr)
        assume "set (take ?n s) \<inter> markup \<noteq> {}"
        then obtain k where k: "k < ?n" "s ! k \<in> markup" by (auto simp: in_set_conv_nth)
        from rune_cont[OF k(1) n] markup_ascii[OF k(2)] show False by simp
      qed
    qed
    have p: "set replacement \<inter> markup = {}" by (simp add: replacement_def markup_def)
    show ?thesis using ih e r p by (subst xml_escape.simps) (auto simp: False Let_def split: option.split)
  qed
qed

subsection \<open>What the client gets\<close>

lemma fault_written: "rs_sent rs = None \<Longrightarrow> rs_body rs = [] \<Longrightarrow>
  rs_body (write_fault code msg rs) = soap_envelope (fault_xml code msg) \<and>
  (\<exists>hs cs. rs_sent (write_fault code msg rs) = Some (500, hs, cs) \<and> map_of hs ''Content-Type'' = Some ''text/xml; charset=utf-8'')"
  by (simp add: write_fault_def write_body_def write_header_def header_set_def Let_def)

text \<open>The network between a client and a server: the body goes over, the body of the answer comes back.\<close>

definition soap_network ::
  "(string \<Rightarrow> string + string \<times> (string \<times> string) option) \<Rightarrow> (string \<Rightarrow> string option) \<Rightarrow> 'w soap_server \<Rightarrow> response \<Rightarrow>
   soap_request \<Rightarrow> 'w \<Rightarrow> (nat \<times> string option) option \<times> 'w"
where
  "soap_network unmarshal root_of sv rs rq w =
     (case soap_serve unmarshal root_of sv (Some (sq_body rq)) rs w of
        (rs1, w1) \<Rightarrow> (Some (case rs_sent rs1 of None \<Rightarrow> 200 | Some (code, _, _) \<Rightarrow> code, Some (rs_body rs1)), w1))"

text \<open>
  A call over SOAP is a call of the handler. The operation is found by the root element of the request; the
  handler sees exactly the XML the client sent and runs once; its answer comes back as the response, its error as a
  fault of the server with the same text, and an operation nobody handles as a fault of the client that names it,
  with the world unchanged. No text in a fault can be taken for markup.
\<close>

theorem soap_call_runs_handler:
  assumes "rs_sent rs = None" "rs_body rs = []" "url_ok (sc_endpoint cl)"
    and "unmarshal (soap_envelope content) = Inr (content, None)" "root_of content = Some op"
    and "\<And>c m. (c, m) \<in> {(server_code, e), (client_code, unknown_text op)} \<Longrightarrow>
      unmarshal (soap_envelope (fault_xml c m)) = Inr (fault_xml c m, Some (c, m))"
    and "unmarshal (soap_envelope answer) = Inr (answer, None)" "f answer = Some a"
  shows "(map_of sv op = None \<longrightarrow> soap_call unmarshal url_ok (soap_network unmarshal root_of sv rs) cl action (Some content) (Some f) w = (Inl (FaultReceived client_code (unknown_text op)), w)) \<and>
    (\<forall>h. map_of sv op = Some h \<longrightarrow> h content w = (Inr answer, w1) \<longrightarrow> soap_call unmarshal url_ok (soap_network unmarshal root_of sv rs) cl action (Some content) (Some f) w = (Inr (Some a), w1)) \<and>
    (\<forall>h. map_of sv op = Some h \<longrightarrow> h content w = (Inl e, w1) \<longrightarrow> soap_call unmarshal url_ok (soap_network unmarshal root_of sv rs) cl action (Some content) (Some f) w = (Inl (FaultReceived server_code e), w1)) \<and>
    set (xml_escape e) \<inter> {CHR ''<'', CHR ''>'', CHR 0x22, CHR 0x27} = {}"
proof (intro conjI allI impI)
  have fault: "\<exists>hs cs. rs_sent (write_fault c m rs) = Some (500, hs, cs) \<and> rs_body (write_fault c m rs) = soap_envelope (fault_xml c m)" for c m
    using fault_written[OF assms(1,2)] by blast
  note defs = soap_call_def soap_network_def soap_request_def soap_serve_def assms(3-5)
  show "soap_call unmarshal url_ok (soap_network unmarshal root_of sv rs) cl action (Some content) (Some f) w = (Inl (FaultReceived client_code (unknown_text op)), w)" if "map_of sv op = None"
  proof -
    have "unmarshal (soap_envelope (fault_xml client_code (unknown_text op))) = Inr (fault_xml client_code (unknown_text op), Some (client_code, unknown_text op))"
      using assms(6) by simp
    with fault[of client_code "unknown_text op"] that show ?thesis by (auto simp: defs)
  qed
  fix h
  assume h: "map_of sv op = Some h"
  show "soap_call unmarshal url_ok (soap_network unmarshal root_of sv rs) cl action (Some content) (Some f) w = (Inr (Some a), w1)" if r: "h content w = (Inr answer, w1)"
  proof -
    have b: "rs_body (write_body (soap_envelope answer) (header_set ''Content-Type'' ''text/xml; charset=utf-8'' rs)) = soap_envelope answer"
      using assms(1,2) by (simp add: write_body_def write_header_def header_set_def Let_def)
    show ?thesis by (simp add: r h defs assms(7,8) b split: option.split)
  qed
  show "soap_call unmarshal url_ok (soap_network unmarshal root_of sv rs) cl action (Some content) (Some f) w = (Inl (FaultReceived server_code e), w1)" if r: "h content w = (Inl e, w1)"
  proof -
    have "unmarshal (soap_envelope (fault_xml server_code e)) = Inr (fault_xml server_code e, Some (server_code, e))" using assms(6) by simp
    with fault[of server_code e] show ?thesis by (auto simp: r h defs)
  qed
next
  show "set (xml_escape e) \<inter> {CHR ''<'', CHR ''>'', CHR 0x22, CHR 0x27} = {}" using xml_escape_no_markup[of e] by (simp only: markup_def)
qed

text \<open>A reader that knows the texts of one exchange.\<close>

definition sample_reader :: "string \<Rightarrow> string + string \<times> (string \<times> string) option" where
  "sample_reader d =
     (if d = soap_envelope ''<Add/>'' then Inr (''<Add/>'', None)
      else if d = soap_envelope ''<Sum/>'' then Inr (''<Sum/>'', None)
      else if d = soap_envelope (fault_xml server_code ''no'') then Inr (fault_xml server_code ''no'', Some (server_code, ''no''))
      else if d = soap_envelope (fault_xml client_code (unknown_text ''Add'')) then
        Inr (fault_xml client_code (unknown_text ''Add''), Some (client_code, unknown_text ''Add''))
      else Inl ''EOF'')"

lemma envelope_eq: "soap_envelope a = soap_envelope b \<longleftrightarrow> a = b"
  by (simp add: soap_envelope_def)

theorem soap_call_runs_handler_witness:
  "soap_call sample_reader (\<lambda>_. True) (soap_network sample_reader (\<lambda>_. Some ''Add'')
       [(''Add'', \<lambda>x n. if n = 0 then (Inr ''<Sum/>'', Suc n) else (Inl ''no'', n))] new_response)
     (new_soap_client ''u'' None) ''a'' (Some ''<Add/>'') (Some Some) 0 = (Inr (Some ''<Sum/>''), Suc 0)"
proof -
  have r: "rs_sent new_response = None" "rs_body new_response = []" by (simp_all add: new_response_def)
  have d: "fault_xml server_code ''no'' \<noteq> ''<Add/>''" "fault_xml server_code ''no'' \<noteq> ''<Sum/>''"
    "fault_xml client_code (unknown_text ''Add'') \<noteq> ''<Add/>''" "fault_xml client_code (unknown_text ''Add'') \<noteq> ''<Sum/>''"
    "fault_xml client_code (unknown_text ''Add'') \<noteq> fault_xml server_code ''no''"
    by code_simp+
  have u: "sample_reader (soap_envelope ''<Add/>'') = Inr (''<Add/>'', None)" "sample_reader (soap_envelope ''<Sum/>'') = Inr (''<Sum/>'', None)"
    by (simp_all add: sample_reader_def envelope_eq)
  have f: "(c, m) \<in> {(server_code, ''no''), (client_code, unknown_text ''Add'')} \<Longrightarrow> sample_reader (soap_envelope (fault_xml c m)) = Inr (fault_xml c m, Some (c, m))" for c m
    using d by (auto simp: sample_reader_def envelope_eq)
  from soap_call_runs_handler[of new_response "\<lambda>_. True" "new_soap_client ''u'' None" sample_reader "''<Add/>''" "\<lambda>_. Some ''Add''" "''Add''" "''no''",
      OF r _ u(1) _ f u(2), of Some "''<Sum/>''" "[(''Add'', \<lambda>x n. if n = 0 then (Inr ''<Sum/>'', Suc n) else (Inl ''no'', n))]" "''a''" 0 "Suc 0"]
  show ?thesis by simp
qed

end
