(* ===== verification/Stores.thy ===== *)
theory Stores
  imports Prelude
begin

text \<open>
  The clients of storage services: DynamoDB, Elasticsearch, Cassandra, MongoDB and Redis (\<open>core/nosql\<close>) and S3
  (\<open>core/adapters/s3\<close>). A service is a function from the request the code builds to its reply; encoders and
  decoders are parameters. What matters here is which requests are sent and what is made of every reply.
\<close>

declare map_of_eq_Some_iff [simp del] AList.update_conv' [simp]

subsection \<open>DynamoDB\<close>

text \<open>Items are attribute maps of type \<open>'i\<close>; a page of a query or a scan has the key to go on from, if there is more.\<close>

datatype 'i dyn_request =
    PutItem string 'i | GetItem string 'i | DeleteItem string 'i | QueryItems string string 'i "'i option" | ScanItems string "'i option"

datatype 'i dyn_reply = DynError | DynDone | DynItem "'i option" | DynPage "'i list" "'i option"

datatype dyn_failure = DynMarshal string | DynService string | DynUnmarshal string

definition dyn_put :: "('i dyn_request \<Rightarrow> 'w \<Rightarrow> 'i dyn_reply \<times> 'w) \<Rightarrow> ('a \<Rightarrow> 'i option) \<Rightarrow> string \<Rightarrow> 'a \<Rightarrow> 'w \<Rightarrow> dyn_failure option \<times> 'w" where
  "dyn_put api marshal table item w =
     (case marshal item of
        None \<Rightarrow> (Some (DynMarshal ''put''), w)
      | Some av \<Rightarrow> (case api (PutItem table av) w of (r, w1) \<Rightarrow> (if r = DynError then Some (DynService ''put'') else None, w1)))"

definition dyn_get ::
  "('i dyn_request \<Rightarrow> 'w \<Rightarrow> 'i dyn_reply \<times> 'w) \<Rightarrow> ('k \<Rightarrow> 'i option) \<Rightarrow> ('i \<Rightarrow> 'a option) \<Rightarrow> string \<Rightarrow> 'k \<Rightarrow> 'w \<Rightarrow>
   (dyn_failure + 'a option) \<times> 'w"
where
  "dyn_get api marshal unmarshal table key w =
     (case marshal key of
        None \<Rightarrow> (Inl (DynMarshal ''get''), w)
      | Some av \<Rightarrow>
          (case api (GetItem table av) w of
             (DynItem (Some i), w1) \<Rightarrow> (case unmarshal i of None \<Rightarrow> (Inl (DynUnmarshal ''get''), w1) | Some a \<Rightarrow> (Inr (Some a), w1))
           | (DynError, w1) \<Rightarrow> (Inl (DynService ''get''), w1)
           | (_, w1) \<Rightarrow> (Inr None, w1)))"

definition dyn_delete :: "('i dyn_request \<Rightarrow> 'w \<Rightarrow> 'i dyn_reply \<times> 'w) \<Rightarrow> ('k \<Rightarrow> 'i option) \<Rightarrow> string \<Rightarrow> 'k \<Rightarrow> 'w \<Rightarrow> dyn_failure option \<times> 'w" where
  "dyn_delete api marshal table key w =
     (case marshal key of
        None \<Rightarrow> (Some (DynMarshal ''delete''), w)
      | Some av \<Rightarrow> (case api (DeleteItem table av) w of (r, w1) \<Rightarrow> (if r = DynError then Some (DynService ''delete'') else None, w1)))"

fun decode_all :: "('i \<Rightarrow> 'a option) \<Rightarrow> 'i list \<Rightarrow> 'a list option" where
  "decode_all f [] = Some []"
| "decode_all f (i # is) = (case f i of None \<Rightarrow> None | Some a \<Rightarrow> map_option (\<lambda>as. a # as) (decode_all f is))"

definition dyn_rows :: "string \<Rightarrow> ('i \<Rightarrow> 'a option) \<Rightarrow> 'i dyn_reply \<times> 'w \<Rightarrow> (dyn_failure + 'a list) \<times> 'w" where
  "dyn_rows op unmarshal r =
     (case r of
        (DynPage is _, w1) \<Rightarrow> (case decode_all unmarshal is of None \<Rightarrow> (Inl (DynUnmarshal op), w1) | Some as \<Rightarrow> (Inr as, w1))
      | (DynError, w1) \<Rightarrow> (Inl (DynService op), w1)
      | (_, w1) \<Rightarrow> (Inr [], w1))"

definition dyn_query ::
  "('i dyn_request \<Rightarrow> 'w \<Rightarrow> 'i dyn_reply \<times> 'w) \<Rightarrow> ('k \<Rightarrow> 'i option) \<Rightarrow> ('i \<Rightarrow> 'a option) \<Rightarrow> string \<Rightarrow> string \<Rightarrow> 'k \<Rightarrow> 'w \<Rightarrow>
   (dyn_failure + 'a list) \<times> 'w"
where
  "dyn_query api marshal unmarshal table condition args w =
     (case marshal args of
        None \<Rightarrow> (Inl (DynMarshal ''query''), w)
      | Some av \<Rightarrow> dyn_rows ''query'' unmarshal (api (QueryItems table condition av None) w))"

definition dyn_scan ::
  "('i dyn_request \<Rightarrow> 'w \<Rightarrow> 'i dyn_reply \<times> 'w) \<Rightarrow> ('i \<Rightarrow> 'a option) \<Rightarrow> string \<Rightarrow> 'w \<Rightarrow> (dyn_failure + 'a list) \<times> 'w"
where
  "dyn_scan api unmarshal table w = dyn_rows ''scan'' unmarshal (api (ScanItems table None) w)"

subsection \<open>Objects in S3\<close>

datatype s3_request =
    PutObject string string string string | GetObject string string | DeleteObject string string | HeadObject string string
  | ListObjects string string "string option"

datatype s3_reply = S3Done | S3Body string | S3Keys "string list" "string option" | S3Refused string | S3Failed

definition s3_error :: "s3_reply \<Rightarrow> bool" where
  "s3_error r = (case r of S3Refused _ \<Rightarrow> True | S3Failed \<Rightarrow> True | _ \<Rightarrow> False)"

definition bucket_put :: "(s3_request \<Rightarrow> 'w \<Rightarrow> s3_reply \<times> 'w) \<Rightarrow> string \<Rightarrow> string \<Rightarrow> string \<Rightarrow> string \<Rightarrow> 'w \<Rightarrow> bool \<times> 'w" where
  "bucket_put api b key body ctype w = (case api (PutObject b key body ctype) w of (r, w1) \<Rightarrow> (\<not> s3_error r, w1))"

definition bucket_get :: "(s3_request \<Rightarrow> 'w \<Rightarrow> s3_reply \<times> 'w) \<Rightarrow> string \<Rightarrow> string \<Rightarrow> 'w \<Rightarrow> string option \<times> 'w" where
  "bucket_get api b key w = (case api (GetObject b key) w of (S3Body body, w1) \<Rightarrow> (Some body, w1) | (_, w1) \<Rightarrow> (None, w1))"

definition bucket_delete :: "(s3_request \<Rightarrow> 'w \<Rightarrow> s3_reply \<times> 'w) \<Rightarrow> string \<Rightarrow> string \<Rightarrow> 'w \<Rightarrow> bool \<times> 'w" where
  "bucket_delete api b key w = (case api (DeleteObject b key) w of (r, w1) \<Rightarrow> (\<not> s3_error r, w1))"

text \<open>\<open>Exists\<close>: \<open>None\<close> is an error.\<close>

definition bucket_exists :: "(s3_request \<Rightarrow> 'w \<Rightarrow> s3_reply \<times> 'w) \<Rightarrow> string \<Rightarrow> string \<Rightarrow> 'w \<Rightarrow> bool option \<times> 'w" where
  "bucket_exists api b key w =
     (case api (HeadObject b key) w of
        (S3Refused code, w1) \<Rightarrow> (if code = ''NotFound'' then Some False else None, w1)
      | (S3Failed, w1) \<Rightarrow> (None, w1)
      | (_, w1) \<Rightarrow> (Some True, w1))"

text \<open>\<open>List\<close>: the paginator goes on while it has a token. \<open>None\<close> is no answer within the fuel, \<open>Some None\<close> an error.\<close>

fun bucket_pages ::
  "nat \<Rightarrow> (s3_request \<Rightarrow> 'w \<Rightarrow> s3_reply \<times> 'w) \<Rightarrow> string \<Rightarrow> string \<Rightarrow> string option \<Rightarrow> string list \<Rightarrow> 'w \<Rightarrow> (string list option \<times> 'w) option"
where
  "bucket_pages 0 api b pre token keys w = None"
| "bucket_pages (Suc fuel) api b pre token keys w =
     (case api (ListObjects b pre token) w of
        (S3Keys ks nxt, w1) \<Rightarrow>
          (if nxt = None \<or> nxt = Some [] then Some (Some (keys @ ks), w1)
           else bucket_pages fuel api b pre nxt (keys @ ks) w1)
      | (_, w1) \<Rightarrow> Some (None, w1))"

definition bucket_list :: "nat \<Rightarrow> (s3_request \<Rightarrow> 'w \<Rightarrow> s3_reply \<times> 'w) \<Rightarrow> string \<Rightarrow> string \<Rightarrow> 'w \<Rightarrow> (string list option \<times> 'w) option" where
  "bucket_list fuel api b pre w = bucket_pages fuel api b pre None [] w"

subsection \<open>Cassandra\<close>

text \<open>\<open>MapScan\<close> gives a row or stops; \<open>close\<close> tells whether it stopped at the end or at an error.\<close>

fun cql_rows :: "nat \<Rightarrow> ('w \<Rightarrow> 'row option \<times> 'w) \<Rightarrow> 'row list \<Rightarrow> 'w \<Rightarrow> ('row list \<times> 'w) option" where
  "cql_rows 0 scan rows w = None"
| "cql_rows (Suc fuel) scan rows w =
     (case scan w of (None, w1) \<Rightarrow> Some (rows, w1) | (Some row, w1) \<Rightarrow> cql_rows fuel scan (rows @ [row]) w1)"

definition select_map ::
  "nat \<Rightarrow> (string \<Rightarrow> 'arg list \<Rightarrow> 'w \<Rightarrow> 'w) \<Rightarrow> ('w \<Rightarrow> 'row option \<times> 'w) \<Rightarrow> ('w \<Rightarrow> bool \<times> 'w) \<Rightarrow> string \<Rightarrow> 'arg list \<Rightarrow> 'w \<Rightarrow>
   ('row list option \<times> 'w) option"
where
  "select_map fuel query scan close cql args w =
     (case cql_rows fuel scan [] (query cql args w) of
        None \<Rightarrow> None
      | Some (rows, w1) \<Rightarrow> (case close w1 of (ok, w2) \<Rightarrow> Some (if ok then Some rows else None, w2)))"

text \<open>\<open>Select\<close>; \<open>decode\<close> is JSON there and back.\<close>

definition cql_select ::
  "nat \<Rightarrow> (string \<Rightarrow> 'arg list \<Rightarrow> 'w \<Rightarrow> 'w) \<Rightarrow> ('w \<Rightarrow> 'row option \<times> 'w) \<Rightarrow> ('w \<Rightarrow> bool \<times> 'w) \<Rightarrow> ('row \<Rightarrow> 'a option) \<Rightarrow> string \<Rightarrow> 'arg list \<Rightarrow>
   'w \<Rightarrow> ('a list option \<times> 'w) option"
where
  "cql_select fuel query scan close decode cql args w =
     map_option (\<lambda>(rows, w1). (Option.bind rows (decode_all decode), w1)) (select_map fuel query scan close cql args w)"

subsection \<open>Elasticsearch\<close>

datatype es_request =
    EsIndex string string string | EsGet string string | EsDelete string string | EsSearch string string | EsCount string "string option"
  | EsRefresh string

text \<open>A reply is a status and a body, if it could be read. \<open>IsError\<close> is a status above 299.\<close>

type_synonym es_reply = "(nat \<times> string option) option"

datatype es_failure = EsEncode | EsTransport | EsUnread | EsStatus nat string | EsDecode

definition es_body :: "es_reply \<Rightarrow> es_failure + string" where
  "es_body r =
     (case r of
        None \<Rightarrow> Inl EsTransport
      | Some (_, None) \<Rightarrow> Inl EsUnread
      | Some (status, Some body) \<Rightarrow> if status > 299 then Inl (EsStatus status body) else Inr body)"

definition es_read :: "(string \<Rightarrow> 'a option) \<Rightarrow> es_failure + string \<Rightarrow> es_failure + 'a" where
  "es_read parse r = (case r of Inl e \<Rightarrow> Inl e | Inr body \<Rightarrow> (case parse body of None \<Rightarrow> Inl EsDecode | Some a \<Rightarrow> Inr a))"

definition es_put ::
  "(es_request \<Rightarrow> 'w \<Rightarrow> es_reply \<times> 'w) \<Rightarrow> ('a \<Rightarrow> string option) \<Rightarrow> (string \<Rightarrow> string option) \<Rightarrow> string \<Rightarrow> string \<Rightarrow> 'a \<Rightarrow> 'w \<Rightarrow>
   (es_failure + string) \<times> 'w"
where
  "es_put api encode parse_id idx i doc w =
     (case encode doc of
        None \<Rightarrow> (Inl EsEncode, w)
      | Some body \<Rightarrow> (case api (EsIndex idx i body) w of (r, w1) \<Rightarrow> (es_read parse_id (es_body r), w1)))"

text \<open>\<open>parse\<close> gives \<open>found\<close> and the source.\<close>

definition es_get ::
  "(es_request \<Rightarrow> 'w \<Rightarrow> es_reply \<times> 'w) \<Rightarrow> (string \<Rightarrow> (bool \<times> 'a) option) \<Rightarrow> string \<Rightarrow> string \<Rightarrow> 'w \<Rightarrow> (es_failure + 'a option) \<times> 'w"
where
  "es_get api parse idx i w =
     (case api (EsGet idx i) w of
        (r, w1) \<Rightarrow>
          if map_option fst r = Some 404 then (Inr None, w1)
          else
            (case es_read parse (es_body r) of
               Inl e \<Rightarrow> (Inl e, w1)
             | Inr (found, a) \<Rightarrow> (Inr (if found then Some a else None), w1)))"

definition es_delete :: "(es_request \<Rightarrow> 'w \<Rightarrow> es_reply \<times> 'w) \<Rightarrow> string \<Rightarrow> string \<Rightarrow> 'w \<Rightarrow> es_failure option \<times> 'w" where
  "es_delete api idx i w = (case api (EsDelete idx i) w of (r, w1) \<Rightarrow> (case es_body r of Inl e \<Rightarrow> (Some e, w1) | Inr _ \<Rightarrow> (None, w1)))"

definition es_search ::
  "(es_request \<Rightarrow> 'w \<Rightarrow> es_reply \<times> 'w) \<Rightarrow> ('q \<Rightarrow> string option) \<Rightarrow> (string \<Rightarrow> 'a list option) \<Rightarrow> string \<Rightarrow> 'q \<Rightarrow> 'w \<Rightarrow> (es_failure + 'a list) \<times> 'w"
where
  "es_search api encode parse_hits idx q w =
     (case encode q of
        None \<Rightarrow> (Inl EsEncode, w)
      | Some body \<Rightarrow> (case api (EsSearch idx body) w of (r, w1) \<Rightarrow> (es_read parse_hits (es_body r), w1)))"

text \<open>\<open>Count\<close>: \<open>wrap\<close> is the JSON of the map with the query under \<open>query\<close>; a query that is \<open>nil\<close> sends no body.\<close>

definition es_count ::
  "(es_request \<Rightarrow> 'w \<Rightarrow> es_reply \<times> 'w) \<Rightarrow> ('q \<Rightarrow> string option) \<Rightarrow> (string \<Rightarrow> int option) \<Rightarrow> string \<Rightarrow> 'q option \<Rightarrow> 'w \<Rightarrow> (es_failure + int) \<times> 'w"
where
  "es_count api wrap parse_count idx q w =
     (case q of
        None \<Rightarrow> (case api (EsCount idx None) w of (r, w1) \<Rightarrow> (es_read parse_count (es_body r), w1))
      | Some x \<Rightarrow>
          (case wrap x of
             None \<Rightarrow> (Inl EsEncode, w)
           | Some body \<Rightarrow> (case api (EsCount idx (Some body)) w of (r, w1) \<Rightarrow> (es_read parse_count (es_body r), w1))))"

definition es_refresh :: "(es_request \<Rightarrow> 'w \<Rightarrow> es_reply \<times> 'w) \<Rightarrow> string \<Rightarrow> 'w \<Rightarrow> es_failure option \<times> 'w" where
  "es_refresh api idx w = (case api (EsRefresh idx) w of (r, w1) \<Rightarrow> (case es_body r of Inl e \<Rightarrow> (Some e, w1) | Inr _ \<Rightarrow> (None, w1)))"

definition es_new :: "es_reply option \<Rightarrow> es_failure option" where
  "es_new info =
     (case info of
        None \<Rightarrow> Some EsEncode
      | Some None \<Rightarrow> Some EsTransport
      | Some (Some (status, _)) \<Rightarrow> if status > 299 then Some (EsStatus status []) else None)"

subsection \<open>Whole listings\<close>

text \<open>A service that lists in pages: each gives the token of the next, the last one none.\<close>

fun pages_of :: "(s3_request \<Rightarrow> 'w \<Rightarrow> s3_reply \<times> 'w) \<Rightarrow> string \<Rightarrow> string \<Rightarrow> string option \<Rightarrow> string list list \<Rightarrow> 'w \<Rightarrow> 'w \<Rightarrow> bool" where
  "pages_of api b pre token [] w w' = False"
| "pages_of api b pre token [ks] w w' = (api (ListObjects b pre token) w = (S3Keys ks None, w'))"
| "pages_of api b pre token (ks # kss) w w' =
     (\<exists>t w1. t \<noteq> [] \<and> api (ListObjects b pre token) w = (S3Keys ks (Some t), w1) \<and> pages_of api b pre (Some t) kss w1 w')"

lemma bucket_pages_all:
  "pages_of api b pre token kss w w' \<Longrightarrow> length kss \<le> fuel \<Longrightarrow> bucket_pages fuel api b pre token keys w = Some (Some (keys @ concat kss), w')"
proof (induction api b pre token kss w w' arbitrary: fuel keys rule: pages_of.induct)
  case (2 api b pre token ks w w')
  then show ?case by (cases fuel) auto
next
  case (3 api b pre token ks k2 kss w w')
  then obtain t w1 where t: "t \<noteq> []" "api (ListObjects b pre token) w = (S3Keys ks (Some t), w1)" "pages_of api b pre (Some t) (k2 # kss) w1 w'" by auto
  obtain n where n: "fuel = Suc n" "length (k2 # kss) \<le> n" using "3.prems"(2) by (cases fuel) auto
  show ?case using "3.IH"[OF t(3) n(2)] t n(1) by simp
qed simp


subsection \<open>Redis\<close>

text \<open>The commands the client sends; \<open>'v\<close> is whatever the driver makes of an argument or of a reply.\<close>

datatype 'v redis_command =
    RSet string string duration | RGet string | RDel "string list" | RExists "string list" | RExpire string duration | RTTL string
  | RHSet string "(string \<times> 'v) list" | RHGet string string | RHGetAll string | RHDel string "string list"
  | RLPush string "'v list" | RRPush string "'v list" | RLRange string int int | RLPop string | RRPop string | RLLen string
  | RSAdd string "'v list" | RSMembers string | RSIsMember string 'v | RSRem string "'v list" | RSCard string
  | RZAdd string "('v \<times> 'v) list" | RZRange string int int | RZScore string string | RZRem string "'v list"
  | RPublish string 'v

text \<open>What the driver reports: \<open>ErrNil\<close> is its own value for a missing key.\<close>

datatype redis_error = ErrNil | DriverError string
datatype redis_failure = Plain redis_error | Told string redis_error

type_synonym ('v, 'w) redis_api = "'v redis_command \<Rightarrow> 'w \<Rightarrow> (redis_error + 'v) \<times> 'w"

definition as_told :: "string \<Rightarrow> (redis_error + 'v) \<times> 'w \<Rightarrow> (redis_failure + 'v) \<times> 'w" where
  "as_told op r = (case r of (Inl e, w) \<Rightarrow> (Inl (Told op e), w) | (Inr v, w) \<Rightarrow> (Inr v, w))"

definition as_is :: "(redis_error + 'v) \<times> 'w \<Rightarrow> (redis_failure + 'v) \<times> 'w" where
  "as_is r = (case r of (Inl e, w) \<Rightarrow> (Inl (Plain e), w) | (Inr v, w) \<Rightarrow> (Inr v, w))"

definition redis_set :: "('v, 'w) redis_api \<Rightarrow> string \<Rightarrow> string \<Rightarrow> duration \<Rightarrow> 'w \<Rightarrow> (redis_failure + 'v) \<times> 'w" where
  "redis_set api key v ttl w = as_told ''set'' (api (RSet key v ttl) w)"
definition redis_get :: "('v, 'w) redis_api \<Rightarrow> string \<Rightarrow> 'w \<Rightarrow> (redis_failure + 'v) \<times> 'w" where
  "redis_get api key w = as_is (api (RGet key) w)"

definition redis_set_json :: "('v, 'w) redis_api \<Rightarrow> ('a \<Rightarrow> string option) \<Rightarrow> string \<Rightarrow> 'a \<Rightarrow> duration \<Rightarrow> 'w \<Rightarrow> (redis_failure + 'v) \<times> 'w" where
  "redis_set_json api encode key v ttl w =
     (case encode v of None \<Rightarrow> (Inl (Told ''setjson'' (DriverError ''marshal'')), w) | Some d \<Rightarrow> redis_set api key d ttl w)"

definition redis_get_json :: "('v, 'w) redis_api \<Rightarrow> ('v \<Rightarrow> 'a option) \<Rightarrow> string \<Rightarrow> 'w \<Rightarrow> (redis_failure + 'a) \<times> 'w" where
  "redis_get_json api decode key w =
     (case redis_get api key w of
        (Inl e, w1) \<Rightarrow> (Inl e, w1)
      | (Inr v, w1) \<Rightarrow> (case decode v of None \<Rightarrow> (Inl (Told ''getjson'' (DriverError ''unmarshal'')), w1) | Some a \<Rightarrow> (Inr a, w1)))"

definition redis_del :: "('v, 'w) redis_api \<Rightarrow> string list \<Rightarrow> 'w \<Rightarrow> (redis_failure + 'v) \<times> 'w" where
  "redis_del api keys w = as_told ''del'' (api (RDel keys) w)"
definition redis_exists :: "('v, 'w) redis_api \<Rightarrow> string list \<Rightarrow> 'w \<Rightarrow> (redis_failure + 'v) \<times> 'w" where
  "redis_exists api keys w = as_told ''exists'' (api (RExists keys) w)"
definition redis_expire :: "('v, 'w) redis_api \<Rightarrow> string \<Rightarrow> duration \<Rightarrow> 'w \<Rightarrow> (redis_failure + 'v) \<times> 'w" where
  "redis_expire api key ttl w = as_told ''expire'' (api (RExpire key ttl) w)"
definition redis_ttl :: "('v, 'w) redis_api \<Rightarrow> string \<Rightarrow> 'w \<Rightarrow> (redis_failure + 'v) \<times> 'w" where
  "redis_ttl api key w = as_told ''ttl'' (api (RTTL key) w)"
definition redis_hset :: "('v, 'w) redis_api \<Rightarrow> string \<Rightarrow> (string \<times> 'v) list \<Rightarrow> 'w \<Rightarrow> (redis_failure + 'v) \<times> 'w" where
  "redis_hset api key vs w = as_told ''hset'' (api (RHSet key vs) w)"
definition redis_hget :: "('v, 'w) redis_api \<Rightarrow> string \<Rightarrow> string \<Rightarrow> 'w \<Rightarrow> (redis_failure + 'v) \<times> 'w" where
  "redis_hget api key field w = as_is (api (RHGet key field) w)"
definition redis_hget_all :: "('v, 'w) redis_api \<Rightarrow> string \<Rightarrow> 'w \<Rightarrow> (redis_failure + 'v) \<times> 'w" where
  "redis_hget_all api key w = as_told ''hgetall'' (api (RHGetAll key) w)"
definition redis_hdel :: "('v, 'w) redis_api \<Rightarrow> string \<Rightarrow> string list \<Rightarrow> 'w \<Rightarrow> (redis_failure + 'v) \<times> 'w" where
  "redis_hdel api key fs w = as_told ''hdel'' (api (RHDel key fs) w)"
definition redis_lpush :: "('v, 'w) redis_api \<Rightarrow> string \<Rightarrow> 'v list \<Rightarrow> 'w \<Rightarrow> (redis_failure + 'v) \<times> 'w" where
  "redis_lpush api key vs w = as_told ''lpush'' (api (RLPush key vs) w)"
definition redis_rpush :: "('v, 'w) redis_api \<Rightarrow> string \<Rightarrow> 'v list \<Rightarrow> 'w \<Rightarrow> (redis_failure + 'v) \<times> 'w" where
  "redis_rpush api key vs w = as_told ''rpush'' (api (RRPush key vs) w)"
definition redis_lrange :: "('v, 'w) redis_api \<Rightarrow> string \<Rightarrow> int \<Rightarrow> int \<Rightarrow> 'w \<Rightarrow> (redis_failure + 'v) \<times> 'w" where
  "redis_lrange api key i j w = as_told ''lrange'' (api (RLRange key i j) w)"
definition redis_lpop :: "('v, 'w) redis_api \<Rightarrow> string \<Rightarrow> 'w \<Rightarrow> (redis_failure + 'v) \<times> 'w" where
  "redis_lpop api key w = as_is (api (RLPop key) w)"
definition redis_rpop :: "('v, 'w) redis_api \<Rightarrow> string \<Rightarrow> 'w \<Rightarrow> (redis_failure + 'v) \<times> 'w" where
  "redis_rpop api key w = as_is (api (RRPop key) w)"
definition redis_llen :: "('v, 'w) redis_api \<Rightarrow> string \<Rightarrow> 'w \<Rightarrow> (redis_failure + 'v) \<times> 'w" where
  "redis_llen api key w = as_told ''llen'' (api (RLLen key) w)"
definition redis_sadd :: "('v, 'w) redis_api \<Rightarrow> string \<Rightarrow> 'v list \<Rightarrow> 'w \<Rightarrow> (redis_failure + 'v) \<times> 'w" where
  "redis_sadd api key vs w = as_told ''sadd'' (api (RSAdd key vs) w)"
definition redis_smembers :: "('v, 'w) redis_api \<Rightarrow> string \<Rightarrow> 'w \<Rightarrow> (redis_failure + 'v) \<times> 'w" where
  "redis_smembers api key w = as_told ''smembers'' (api (RSMembers key) w)"
definition redis_sismember :: "('v, 'w) redis_api \<Rightarrow> string \<Rightarrow> 'v \<Rightarrow> 'w \<Rightarrow> (redis_failure + 'v) \<times> 'w" where
  "redis_sismember api key v w = as_told ''sismember'' (api (RSIsMember key v) w)"
definition redis_srem :: "('v, 'w) redis_api \<Rightarrow> string \<Rightarrow> 'v list \<Rightarrow> 'w \<Rightarrow> (redis_failure + 'v) \<times> 'w" where
  "redis_srem api key vs w = as_told ''srem'' (api (RSRem key vs) w)"
definition redis_scard :: "('v, 'w) redis_api \<Rightarrow> string \<Rightarrow> 'w \<Rightarrow> (redis_failure + 'v) \<times> 'w" where
  "redis_scard api key w = as_told ''scard'' (api (RSCard key) w)"
definition redis_zadd :: "('v, 'w) redis_api \<Rightarrow> string \<Rightarrow> ('v \<times> 'v) list \<Rightarrow> 'w \<Rightarrow> (redis_failure + 'v) \<times> 'w" where
  "redis_zadd api key ms w = as_told ''zadd'' (api (RZAdd key ms) w)"
definition redis_zrange :: "('v, 'w) redis_api \<Rightarrow> string \<Rightarrow> int \<Rightarrow> int \<Rightarrow> 'w \<Rightarrow> (redis_failure + 'v) \<times> 'w" where
  "redis_zrange api key i j w = as_told ''zrange'' (api (RZRange key i j) w)"
definition redis_zscore :: "('v, 'w) redis_api \<Rightarrow> string \<Rightarrow> string \<Rightarrow> 'w \<Rightarrow> (redis_failure + 'v) \<times> 'w" where
  "redis_zscore api key m w = as_is (api (RZScore key m) w)"
definition redis_zrem :: "('v, 'w) redis_api \<Rightarrow> string \<Rightarrow> 'v list \<Rightarrow> 'w \<Rightarrow> (redis_failure + 'v) \<times> 'w" where
  "redis_zrem api key ms w = as_told ''zrem'' (api (RZRem key ms) w)"
definition redis_publish :: "('v, 'w) redis_api \<Rightarrow> string \<Rightarrow> 'v \<Rightarrow> 'w \<Rightarrow> (redis_failure + 'v) \<times> 'w" where
  "redis_publish api ch m w = as_told ''publish'' (api (RPublish ch m) w)"

subsection \<open>MongoDB\<close>

text \<open>\<open>'f\<close> are filters and updates, \<open>'d\<close> encoded documents. \<open>MongoModified\<close> and \<open>MongoNumber\<close> are the counts the server reports.\<close>

datatype ('f, 'd) mongo_request =
    InsertOne 'd | InsertMany "'d list" | FindAll 'f | FindFirst 'f | UpdateFirst 'f 'f | UpdateAll 'f 'f | DeleteFirst 'f | DeleteAll 'f | CountAll 'f

datatype 'd mongo_reply = MongoFails | MongoDone | MongoNoDocuments | MongoDocs "'d list" | MongoNumber int

datatype mongo_failure = ErrNoDocuments | FirstFailed | MongoTold string

definition mongo_insert_one :: "(('f, 'd) mongo_request \<Rightarrow> 'w \<Rightarrow> 'd mongo_reply \<times> 'w) \<Rightarrow> 'd \<Rightarrow> 'w \<Rightarrow> mongo_failure option \<times> 'w" where
  "mongo_insert_one api d w = (case api (InsertOne d) w of (r, w1) \<Rightarrow> (if r = MongoFails then Some (MongoTold ''insertone'') else None, w1))"

definition mongo_insert_many :: "(('f, 'd) mongo_request \<Rightarrow> 'w \<Rightarrow> 'd mongo_reply \<times> 'w) \<Rightarrow> 'd list \<Rightarrow> 'w \<Rightarrow> mongo_failure option \<times> 'w" where
  "mongo_insert_many api ds w = (case api (InsertMany ds) w of (r, w1) \<Rightarrow> (if r = MongoFails then Some (MongoTold ''insertmany'') else None, w1))"

definition mongo_find ::
  "(('f, 'd) mongo_request \<Rightarrow> 'w \<Rightarrow> 'd mongo_reply \<times> 'w) \<Rightarrow> ('d \<Rightarrow> 'a option) \<Rightarrow> 'f \<Rightarrow> 'w \<Rightarrow> (mongo_failure + 'a list) \<times> 'w"
where
  "mongo_find api decode f w =
     (case api (FindAll f) w of
        (MongoDocs ds, w1) \<Rightarrow> (case decode_all decode ds of None \<Rightarrow> (Inl (MongoTold ''find: decode''), w1) | Some as \<Rightarrow> (Inr as, w1))
      | (MongoFails, w1) \<Rightarrow> (Inl (MongoTold ''find''), w1)
      | (_, w1) \<Rightarrow> (Inr [], w1))"

definition mongo_find_one ::
  "(('f, 'd) mongo_request \<Rightarrow> 'w \<Rightarrow> 'd mongo_reply \<times> 'w) \<Rightarrow> ('d \<Rightarrow> 'a option) \<Rightarrow> 'f \<Rightarrow> 'w \<Rightarrow> (mongo_failure + 'a) \<times> 'w"
where
  "mongo_find_one api decode f w =
     (case api (FindFirst f) w of
        (MongoDocs (d # _), w1) \<Rightarrow> (case decode d of None \<Rightarrow> (Inl FirstFailed, w1) | Some a \<Rightarrow> (Inr a, w1))
      | (MongoFails, w1) \<Rightarrow> (Inl FirstFailed, w1)
      | (_, w1) \<Rightarrow> (Inl ErrNoDocuments, w1))"

text \<open>The operations that answer with a number.\<close>

definition mongo_number ::
  "string \<Rightarrow> 'd mongo_reply \<times> 'w \<Rightarrow> (mongo_failure + int) \<times> 'w"
where
  "mongo_number op r =
     (case r of (MongoFails, w) \<Rightarrow> (Inl (MongoTold op), w) | (MongoNumber n, w) \<Rightarrow> (Inr n, w) | (_, w) \<Rightarrow> (Inr 0, w))"

definition mongo_update_one :: "(('f, 'd) mongo_request \<Rightarrow> 'w \<Rightarrow> 'd mongo_reply \<times> 'w) \<Rightarrow> 'f \<Rightarrow> 'f \<Rightarrow> 'w \<Rightarrow> (mongo_failure + int) \<times> 'w" where
  "mongo_update_one api f u w = mongo_number ''updateone'' (api (UpdateFirst f u) w)"
definition mongo_update_many :: "(('f, 'd) mongo_request \<Rightarrow> 'w \<Rightarrow> 'd mongo_reply \<times> 'w) \<Rightarrow> 'f \<Rightarrow> 'f \<Rightarrow> 'w \<Rightarrow> (mongo_failure + int) \<times> 'w" where
  "mongo_update_many api f u w = mongo_number ''updatemany'' (api (UpdateAll f u) w)"
definition mongo_delete_one :: "(('f, 'd) mongo_request \<Rightarrow> 'w \<Rightarrow> 'd mongo_reply \<times> 'w) \<Rightarrow> 'f \<Rightarrow> 'w \<Rightarrow> (mongo_failure + int) \<times> 'w" where
  "mongo_delete_one api f w = mongo_number ''deleteone'' (api (DeleteFirst f) w)"
definition mongo_delete_many :: "(('f, 'd) mongo_request \<Rightarrow> 'w \<Rightarrow> 'd mongo_reply \<times> 'w) \<Rightarrow> 'f \<Rightarrow> 'w \<Rightarrow> (mongo_failure + int) \<times> 'w" where
  "mongo_delete_many api f w = mongo_number ''deletemany'' (api (DeleteAll f) w)"
definition mongo_count :: "(('f, 'd) mongo_request \<Rightarrow> 'w \<Rightarrow> 'd mongo_reply \<times> 'w) \<Rightarrow> 'f \<Rightarrow> 'w \<Rightarrow> (mongo_failure + int) \<times> 'w" where
  "mongo_count api f w = mongo_number ''count'' (api (CountAll f) w)"

subsection \<open>What a caller may conclude\<close>

text \<open>A listing in S3 that fails on a later page gives no keys at all.\<close>

fun pages_then_failure :: "(s3_request \<Rightarrow> 'w \<Rightarrow> s3_reply \<times> 'w) \<Rightarrow> string \<Rightarrow> string \<Rightarrow> string option \<Rightarrow> string list list \<Rightarrow> 'w \<Rightarrow> 'w \<Rightarrow> bool" where
  "pages_then_failure api b pre token [] w w' = (api (ListObjects b pre token) w = (S3Failed, w'))"
| "pages_then_failure api b pre token (ks # kss) w w' =
     (\<exists>t w1. t \<noteq> [] \<and> api (ListObjects b pre token) w = (S3Keys ks (Some t), w1) \<and> pages_then_failure api b pre (Some t) kss w1 w')"

lemma bucket_pages_failure:
  "pages_then_failure api b pre token kss w w' \<Longrightarrow> length kss < fuel \<Longrightarrow> bucket_pages fuel api b pre token keys w = Some (None, w')"
proof (induction kss arbitrary: token w fuel keys)
  case Nil
  then show ?case by (cases fuel) auto
next
  case (Cons ks kss)
  then obtain t w1 where t: "t \<noteq> []" "api (ListObjects b pre token) w = (S3Keys ks (Some t), w1)" "pages_then_failure api b pre (Some t) kss w1 w'" by auto
  obtain n where n: "fuel = Suc n" "length kss < n" using Cons.prems(2) by (cases fuel) auto
  show ?case using Cons.IH[OF t(3) n(2)] t n(1) by simp
qed

text \<open>
  \<open>List\<close> returns every key of the bucket under the prefix, page after page in the order of the service, whatever the
  number of pages; when a later page fails the caller gets the error and none of the keys read so far.
\<close>

theorem s3_list_complete:
  assumes "pages_of api b pre None kss w w'" "length kss \<le> fuel"
    and "pages_then_failure api b pre None kss2 w2 w3" "length kss2 < fuel"
  shows "bucket_list fuel api b pre w = Some (Some (concat kss), w') \<and> bucket_list fuel api b pre w2 = Some (None, w3)"
  using bucket_pages_all[OF assms(1,2), of "[]"] bucket_pages_failure[OF assms(3,4), of "[]"] by (simp add: bucket_list_def)

definition two_pages :: "s3_request \<Rightarrow> bool \<Rightarrow> s3_reply \<times> bool" where
  "two_pages rq up =
     (case rq of
        ListObjects _ _ None \<Rightarrow> (S3Keys [''a'', ''b''] (Some ''t''), up)
      | ListObjects _ _ (Some _) \<Rightarrow> (if up then S3Keys [''c''] None else S3Failed, up)
      | _ \<Rightarrow> (S3Done, up))"

theorem s3_list_complete_witness:
  "bucket_list 2 two_pages ''b'' [] True = Some (Some [''a'', ''b'', ''c''], True) \<and> bucket_list 2 two_pages ''b'' [] False = Some (None, False)"
proof -
  have "pages_of two_pages ''b'' [] None [[''a'', ''b''], [''c'']] True True"
    "pages_then_failure two_pages ''b'' [] None [[''a'', ''b'']] False False"
    by (auto simp: two_pages_def)
  from s3_list_complete[OF this(1) _ this(2), of 2] show ?thesis by simp
qed

text \<open>
  Of a query or a scan of DynamoDB the caller gets the first page and no sign that there are others: the reply that
  says where to go on and the reply that says there is no more give the same rows and no error.
\<close>

theorem dynamodb_first_page_only:
  assumes "marshal args = Some av"
    and "api (QueryItems t cond av None) w = (DynPage is (Some k), w1)" "api (ScanItems t None) w = (DynPage is (Some k), w1)"
    and "decode_all f is = Some as"
  shows "dyn_query api marshal f t cond args w = (Inr as, w1) \<and> dyn_scan api f t w = (Inr as, w1) \<and>
    dyn_rows ''scan'' f (DynPage is None, w1) = (Inr as, w1)"
  by (simp add: dyn_query_def dyn_scan_def dyn_rows_def assms)

text \<open>A table of three items behind pages of two.\<close>

definition paged_table :: "nat dyn_request \<Rightarrow> nat list \<Rightarrow> nat dyn_reply \<times> nat list" where
  "paged_table rq items =
     (case rq of
        ScanItems _ None \<Rightarrow> (DynPage (take 2 items) (if length items \<le> 2 then None else Some (items ! 1)), items)
      | QueryItems _ _ _ None \<Rightarrow> (DynPage (take 2 items) (if length items \<le> 2 then None else Some (items ! 1)), items)
      | _ \<Rightarrow> (DynDone, items))"

theorem dynamodb_first_page_only_witness:
  "dyn_scan paged_table Some ''t'' [1, 2, 3] = (Inr [1, 2], [1, 2, 3])"
  using dynamodb_first_page_only[of Some 0 0 paged_table "''t''" "[]" "[1, 2, 3]" "[1, 2]" 2 "[1, 2, 3]" Some "[1, 2]"]
  by (simp add: paged_table_def)

lemma es_body_Inr: "es_body r = Inr body \<Longrightarrow> \<exists>st. r = Some (st, Some body) \<and> st \<le> 299"
  by (auto simp: es_body_def split: option.splits if_splits)

lemma es_read_Inr: "es_read parse (es_body r) = Inr a \<Longrightarrow> \<exists>st body. r = Some (st, Some body) \<and> st \<le> 299 \<and> parse body = Some a"
  by (auto simp: es_read_def dest!: es_body_Inr split: sum.splits option.splits)

lemma es_get_cases:
  "(\<exists>e. fst (es_get api parse_doc idx d w) = Inl e) \<or>
   (\<exists>b. fst (api (EsGet idx d) w) = Some (404, b) \<and> fst (es_get api parse_doc idx d w) = Inr None) \<or>
   (\<exists>st body found a. fst (api (EsGet idx d) w) = Some (st, Some body) \<and> st \<le> 299 \<and> parse_doc body = Some (found, a) \<and>
      fst (es_get api parse_doc idx d w) = Inr (if found then Some a else None))"
proof -
  obtain r w1 where r: "api (EsGet idx d) w = (r, w1)" by fastforce
  show ?thesis
  proof (cases "\<exists>b. r = Some (404, b)")
    case True
    then show ?thesis by (auto simp: es_get_def r)
  next
    case False
    then have g: "es_get api parse_doc idx d w =
        (case es_read parse_doc (es_body r) of Inl e \<Rightarrow> (Inl e, w1) | Inr (found, a) \<Rightarrow> (Inr (if found then Some a else None), w1))"
      by (cases r) (auto simp: es_get_def r)
    show ?thesis
    proof (cases "es_read parse_doc (es_body r)")
      case (Inl e)
      then show ?thesis by (simp add: g)
    next
      case (Inr fa)
      then obtain found a where fa: "fa = (found, a)" by (cases fa)
      from es_read_Inr[OF Inr] show ?thesis unfolding g Inr fa by (auto simp: r)
    qed
  qed
qed

text \<open>
  A caller of the Elasticsearch client that sees success has a reply with a status of at most 299 behind it; \<open>Get\<close>
  says that a document is absent only for the status 404 or when the reply itself says so.
\<close>

theorem elastic_success_is_success:
  "(\<forall>i. fst (es_put api encode parse idx d doc w) = Inr i \<longrightarrow> (\<exists>b st body. encode doc = Some b \<and> fst (api (EsIndex idx d b) w) = Some (st, Some body) \<and> st \<le> 299 \<and> parse body = Some i)) \<and>
   (\<forall>a. fst (es_get api parse_doc idx d w) = Inr (Some a) \<longrightarrow> (\<exists>st body. fst (api (EsGet idx d) w) = Some (st, Some body) \<and> st \<le> 299 \<and> parse_doc body = Some (True, a))) \<and>
   (fst (es_get api parse_doc idx d w) = Inr None \<longrightarrow> (\<exists>b. fst (api (EsGet idx d) w) = Some (404, b)) \<or>
      (\<exists>st body a. fst (api (EsGet idx d) w) = Some (st, Some body) \<and> st \<le> 299 \<and> parse_doc body = Some (False, a))) \<and>
   (fst (es_delete api idx d w) = None \<longrightarrow> (\<exists>st body. fst (api (EsDelete idx d) w) = Some (st, Some body) \<and> st \<le> 299))"
proof (intro conjI allI impI)
  fix i assume "fst (es_put api encode parse idx d doc w) = Inr i"
  then show "\<exists>b st body. encode doc = Some b \<and> fst (api (EsIndex idx d b) w) = Some (st, Some body) \<and> st \<le> 299 \<and> parse body = Some i"
    by (auto simp: es_put_def dest!: es_read_Inr split: option.splits prod.splits)
next
  fix a assume "fst (es_get api parse_doc idx d w) = Inr (Some a)"
  then show "\<exists>st body. fst (api (EsGet idx d) w) = Some (st, Some body) \<and> st \<le> 299 \<and> parse_doc body = Some (True, a)"
    using es_get_cases[of api parse_doc idx d w] by (auto split: if_splits)
next
  assume "fst (es_get api parse_doc idx d w) = Inr None"
  then show "(\<exists>b. fst (api (EsGet idx d) w) = Some (404, b)) \<or>
      (\<exists>st body a. fst (api (EsGet idx d) w) = Some (st, Some body) \<and> st \<le> 299 \<and> parse_doc body = Some (False, a))"
    using es_get_cases[of api parse_doc idx d w] by (auto split: if_splits)
next
  assume "fst (es_delete api idx d w) = None"
  then show "\<exists>st body. fst (api (EsDelete idx d) w) = Some (st, Some body) \<and> st \<le> 299"
    by (auto simp: es_delete_def dest!: es_body_Inr split: sum.splits prod.splits)
qed

theorem elastic_success_is_success_witness:
  "fst (es_get (\<lambda>_ u. (Some (404, Some ''{}''), u)) (\<lambda>_. None :: (bool \<times> nat) option) ''i'' ''x'' ()) = Inr None \<and>
   (\<exists>b. fst ((\<lambda>_ u. (Some (404, Some ''{}''), u)) (EsGet ''i'' ''x'') ()) = Some (404, b :: string option))"
proof -
  have g: "fst (es_get (\<lambda>_ u. (Some (404, Some ''{}''), u)) (\<lambda>_. None :: (bool \<times> nat) option) ''i'' ''x'' ()) = Inr None" by (simp add: es_get_def)
  from elastic_success_is_success[of "\<lambda>_ u. (Some (404, Some ''{}''), u)" "\<lambda>_. None :: string option" "\<lambda>_. None :: string option" "''i''" "''x''" "0 :: nat" "()"
      "\<lambda>_. None :: (bool \<times> nat) option"] g
  show ?thesis by simp
qed

text \<open>
  A missing key is told by \<open>ErrNil\<close> itself by every reader of one value of the Redis client, decoded or not, and no
  operation turns an error of the driver into a value.
\<close>

theorem redis_missing_is_err_nil:
  assumes "api (RGet key) w = (Inl ErrNil, w)" "api (RHGet key field) w = (Inl ErrNil, w)" "api (RLPop key) w = (Inl ErrNil, w)"
    and "api (RRPop key) w = (Inl ErrNil, w)" "api (RZScore key m) w = (Inl ErrNil, w)"
  shows "redis_get api key w = (Inl (Plain ErrNil), w) \<and> redis_get_json api decode key w = (Inl (Plain ErrNil), w) \<and>
    redis_hget api key field w = (Inl (Plain ErrNil), w) \<and> redis_lpop api key w = (Inl (Plain ErrNil), w) \<and>
    redis_rpop api key w = (Inl (Plain ErrNil), w) \<and> redis_zscore api key m w = (Inl (Plain ErrNil), w)"
  by (simp add: redis_get_def redis_get_json_def redis_hget_def redis_lpop_def redis_rpop_def redis_zscore_def as_is_def assms)

theorem redis_missing_is_err_nil_witness:
  "redis_get_json (\<lambda>_ u. (Inl ErrNil, u)) (Some :: nat \<Rightarrow> nat option) ''k'' () = (Inl (Plain ErrNil), ())"
  using redis_missing_is_err_nil[of "\<lambda>_ u. (Inl ErrNil, u)" "''k''" "()" "''f''" "''m''" "Some :: nat \<Rightarrow> nat option"] by simp

end
