(* ===== verification/Adapters.thy ===== *)
theory Adapters
  imports Lifecycle
begin

text \<open>
  The adapters that wrap an external service as a module (\<open>core/adapters\<close>), over a world that knows which of their
  resources are open: pools, connections, listeners, goroutines. What a driver answers is a parameter; an adapter is
  known by a number that stands for its address, and its fields are the parts it holds. A module whose \<open>Configure\<close>
  failed is not active and \<open>Shutdown\<close> is never called on it, so that it has to close by itself what it opened. Texts of
  errors are the cause only.
\<close>

declare map_of_eq_Some_iff [simp del] AList.update_conv' [simp]

subsection \<open>Resources\<close>

text \<open>\<open>Plain\<close> is an object with nothing to close: a client, a router, a configuration.\<close>

datatype part =
    SqlPool | NatsConn | AmqpConn | AmqpChannel | KafkaConn | KafkaWriter nat | KafkaReader nat | Listener | Sweeper
  | OtelExporter | TracerProvider | KafkaClient | Plain string

text \<open>What an adapter asks of the outside, and the error it gets, if any. A part that fails to close is closed all the same.\<close>

datatype outcall = Opens part | Closes part | Checks string

type_synonym outside = "nat \<Rightarrow> outcall \<Rightarrow> string option"

record adapter_world =
  aw_open :: "(nat \<times> part) list"
  aw_fields :: "nat \<Rightarrow> part list"
  aw_tracer :: "nat option"

type_synonym aphase = "adapter_world phase"
type_synonym amodule = "adapter_world go_module"

definition aphase_ok :: aphase where "aphase_ok w = (None, w)"

definition require :: "bool \<Rightarrow> string \<Rightarrow> aphase" where
  "require c e w = (if c then None else Some e, w)"

definition holds :: "nat \<Rightarrow> part \<Rightarrow> adapter_world \<Rightarrow> bool" where
  "holds i p w \<longleftrightarrow> p \<in> set (aw_fields w i)"

definition set_field :: "nat \<Rightarrow> part \<Rightarrow> adapter_world \<Rightarrow> adapter_world" where
  "set_field i p w = w\<lparr>aw_fields := (aw_fields w)(i := aw_fields w i @ [p])\<rparr>"

definition open_part :: "outside \<Rightarrow> nat \<Rightarrow> part \<Rightarrow> aphase" where
  "open_part ext i p w = (case ext i (Opens p) of Some e \<Rightarrow> (Some e, w) | None \<Rightarrow> (None, w\<lparr>aw_open := (i, p) # aw_open w\<rparr>))"

definition close_part :: "outside \<Rightarrow> nat \<Rightarrow> part \<Rightarrow> aphase" where
  "close_part ext i p w = (ext i (Closes p), w\<lparr>aw_open := removeAll (i, p) (aw_open w)\<rparr>)"

text \<open>Several parts, one after the other; the first error is the one that counts.\<close>

fun close_each :: "outside \<Rightarrow> nat \<Rightarrow> part list \<Rightarrow> aphase" where
  "close_each ext i [] w = (None, w)"
| "close_each ext i (p # ps) w =
     (case close_part ext i p w of
        (e, w1) \<Rightarrow> (case close_each ext i ps w1 of (e2, w2) \<Rightarrow> (case e of Some x \<Rightarrow> Some x | None \<Rightarrow> e2, w2)))"

definition close_held :: "outside \<Rightarrow> nat \<Rightarrow> part \<Rightarrow> aphase" where
  "close_held ext i p w = (if holds i p w then close_part ext i p w else (None, w))"

definition keep :: "nat \<Rightarrow> part \<Rightarrow> string option \<times> adapter_world \<Rightarrow> string option \<times> adapter_world" where
  "keep i p r = (case r of (Some e, w) \<Rightarrow> (Some e, w) | (None, w) \<Rightarrow> (None, set_field i p w))"

text \<open>The value a module offers: a pointer of the adapter's.\<close>

definition offers :: "string \<Rightarrow> nat \<Rightarrow> typed option" where
  "offers ty i = Some (ty, GPtr (Some (GStruct False i)))"

subsection \<open>Databases and queues\<close>

text \<open>\<open>database.Open\<close> opens the pool, then pings; a pool that does not answer is not closed.\<close>

definition postgres_configure :: "outside \<Rightarrow> nat \<Rightarrow> aphase" where
  "postgres_configure ext i w =
     (case open_part ext i SqlPool w of
        (Some e, w1) \<Rightarrow> (Some e, w1)
      | (None, w1) \<Rightarrow> (case ext i (Checks ''ping'') of Some e \<Rightarrow> (Some e, w1) | None \<Rightarrow> (None, set_field i SqlPool w1)))"

definition postgres_adapter :: "outside \<Rightarrow> nat \<Rightarrow> string \<Rightarrow> string \<Rightarrow> amodule" where
  "postgres_adapter ext i name dsn =
     \<lparr>md_name = ''database.sql.postgres.'' @ name, md_init = require (dsn \<noteq> []) ''dsn'', md_configure = postgres_configure ext i,
      md_start = aphase_ok, md_shutdown = close_held ext i SqlPool, md_value = offers ''*database.DB'' i\<rparr>"

definition nats_configure :: "outside \<Rightarrow> nat \<Rightarrow> aphase" where
  "nats_configure ext i w = keep i NatsConn (open_part ext i NatsConn w)"

definition nats_adapter :: "outside \<Rightarrow> nat \<Rightarrow> string \<Rightarrow> string \<Rightarrow> amodule" where
  "nats_adapter ext i name url =
     \<lparr>md_name = ''queue.nats.'' @ name, md_init = require (url \<noteq> []) ''url'', md_configure = nats_configure ext i,
      md_start = aphase_ok, md_shutdown = close_held ext i NatsConn, md_value = offers ''*nats.Conn'' i\<rparr>"

definition rabbit_configure :: "outside \<Rightarrow> nat \<Rightarrow> aphase" where
  "rabbit_configure ext i w =
     (case open_part ext i AmqpConn w of
        (Some e, w1) \<Rightarrow> (Some e, w1)
      | (None, w1) \<Rightarrow>
          (case open_part ext i AmqpChannel w1 of
             (Some e, w2) \<Rightarrow> (Some e, snd (close_part ext i AmqpConn w2))
           | (None, w2) \<Rightarrow> (None, set_field i AmqpChannel (set_field i AmqpConn w2))))"

definition rabbit_shutdown :: "outside \<Rightarrow> nat \<Rightarrow> aphase" where
  "rabbit_shutdown ext i w = close_each ext i (filter (\<lambda>p. holds i p w) [AmqpChannel, AmqpConn]) w"

definition rabbit_adapter :: "outside \<Rightarrow> nat \<Rightarrow> string \<Rightarrow> string \<Rightarrow> amodule" where
  "rabbit_adapter ext i name url =
     \<lparr>md_name = ''queue.rabbitmq.'' @ name, md_init = require (url \<noteq> []) ''url'', md_configure = rabbit_configure ext i,
      md_start = aphase_ok, md_shutdown = rabbit_shutdown ext i, md_value = offers ''*amqp091.Channel'' i\<rparr>"

text \<open>Kafka: \<open>Configure\<close> dials once to see that somebody answers; the client keeps the writers and readers it hands out.\<close>

definition kafka_configure :: "outside \<Rightarrow> nat \<Rightarrow> aphase" where
  "kafka_configure ext i w =
     (case open_part ext i KafkaConn w of
        (Some e, w1) \<Rightarrow> (Some e, w1)
      | (None, w1) \<Rightarrow>
          (let w2 = snd (close_part ext i KafkaConn w1)
           in case ext i (Checks ''brokers'') of Some e \<Rightarrow> (Some e, w2) | None \<Rightarrow> (None, set_field i KafkaClient w2)))"

definition is_writer :: "part \<Rightarrow> bool" where "is_writer p = (case p of KafkaWriter _ \<Rightarrow> True | _ \<Rightarrow> False)"
definition is_reader :: "part \<Rightarrow> bool" where "is_reader p = (case p of KafkaReader _ \<Rightarrow> True | _ \<Rightarrow> False)"

text \<open>\<open>Producer\<close> and \<open>Consumer\<close>; \<open>None\<close> is the panic of a client that was never configured.\<close>

definition kafka_producer :: "nat \<Rightarrow> adapter_world \<Rightarrow> (part \<times> adapter_world) option" where
  "kafka_producer i w =
     (if holds i KafkaClient w
      then (let p = KafkaWriter (length (filter is_writer (aw_fields w i)))
            in Some (p, set_field i p (w\<lparr>aw_open := (i, p) # aw_open w\<rparr>)))
      else None)"

definition kafka_consumer :: "nat \<Rightarrow> adapter_world \<Rightarrow> (part \<times> adapter_world) option" where
  "kafka_consumer i w =
     (if holds i KafkaClient w
      then (let p = KafkaReader (length (filter is_reader (aw_fields w i)))
            in Some (p, set_field i p (w\<lparr>aw_open := (i, p) # aw_open w\<rparr>)))
      else None)"

definition kafka_close :: "outside \<Rightarrow> nat \<Rightarrow> aphase" where
  "kafka_close ext i w = close_each ext i (filter is_writer (aw_fields w i) @ filter is_reader (aw_fields w i)) w"

definition kafka_shutdown :: "outside \<Rightarrow> nat \<Rightarrow> aphase" where
  "kafka_shutdown ext i w = (if holds i KafkaClient w then kafka_close ext i w else (None, w))"

definition kafka_adapter :: "outside \<Rightarrow> nat \<Rightarrow> string list \<Rightarrow> amodule" where
  "kafka_adapter ext i brokers =
     \<lparr>md_name = ''queue.kafka.'' @ join '','' brokers, md_init = require (brokers \<noteq> []) ''brokers'', md_configure = kafka_configure ext i,
      md_start = aphase_ok, md_shutdown = kafka_shutdown ext i, md_value = offers ''*kafka.Client'' i\<rparr>"

subsection \<open>Servers\<close>

definition listen :: "outside \<Rightarrow> nat \<Rightarrow> aphase" where
  "listen ext i w = keep i Listener (open_part ext i Listener w)"

text \<open>The server of REST and of GraphQL is made by \<open>Start\<close>, that of gRPC by \<open>Configure\<close>; each closes its listener.\<close>

definition rest_start :: "outside \<Rightarrow> nat \<Rightarrow> aphase" where
  "rest_start ext i w = keep i (Plain ''server'') (listen ext i w)"

definition rest_shutdown :: "outside \<Rightarrow> nat \<Rightarrow> aphase" where
  "rest_shutdown ext i w = (if holds i (Plain ''server'') w then close_part ext i Listener w else (None, w))"

definition rest_adapter :: "outside \<Rightarrow> nat \<Rightarrow> string \<Rightarrow> amodule" where
  "rest_adapter ext i addr =
     \<lparr>md_name = ''api.rest.'' @ addr, md_init = require (addr \<noteq> []) ''addr'', md_configure = (\<lambda>w. keep i (Plain ''router'') (None, w)),
      md_start = rest_start ext i, md_shutdown = rest_shutdown ext i, md_value = offers ''*router.Router'' i\<rparr>"

definition graphql_start :: "outside \<Rightarrow> nat \<Rightarrow> aphase" where
  "graphql_start ext i w = keep i (Plain ''server'') (listen ext i w)"

definition graphql_shutdown :: "outside \<Rightarrow> nat \<Rightarrow> aphase" where
  "graphql_shutdown ext i w = (if holds i (Plain ''server'') w then close_part ext i Listener w else (None, w))"

definition graphql_adapter :: "outside \<Rightarrow> nat \<Rightarrow> string \<Rightarrow> amodule" where
  "graphql_adapter ext i addr =
     \<lparr>md_name = ''api.graphql.'' @ addr, md_init = require (addr \<noteq> []) ''addr'', md_configure = aphase_ok,
      md_start = graphql_start ext i, md_shutdown = graphql_shutdown ext i, md_value = offers ''*graphql.Schema'' i\<rparr>"

definition grpc_shutdown :: "outside \<Rightarrow> nat \<Rightarrow> aphase" where
  "grpc_shutdown ext i w = (if holds i (Plain ''server'') w then (None, snd (close_part ext i Listener w)) else (None, w))"

definition grpc_adapter :: "outside \<Rightarrow> nat \<Rightarrow> string \<Rightarrow> amodule" where
  "grpc_adapter ext i addr =
     \<lparr>md_name = ''api.grpc.'' @ addr, md_init = require (addr \<noteq> []) ''addr'', md_configure = (\<lambda>w. keep i (Plain ''server'') (None, w)),
      md_start = listen ext i, md_shutdown = grpc_shutdown ext i, md_value = offers ''*grpc.Server'' i\<rparr>"

subsection \<open>Clients, cache, observability\<close>

definition cache_adapter :: "outside \<Rightarrow> nat \<Rightarrow> amodule" where
  "cache_adapter ext i =
     \<lparr>md_name = ''cache.memory'', md_init = aphase_ok,
      md_configure = (\<lambda>w. keep i Sweeper (None, w\<lparr>aw_open := (i, Sweeper) # aw_open w\<rparr>)),
      md_start = aphase_ok, md_shutdown = (\<lambda>w. if holds i Sweeper w then (None, snd (close_part ext i Sweeper w)) else (None, w)),
      md_value = offers ''*cache.Cache'' i\<rparr>"

definition oauth2_init :: "string \<Rightarrow> string \<Rightarrow> string \<Rightarrow> string \<Rightarrow> aphase" where
  "oauth2_init client_id secret auth_url token_url w =
     (if client_id = [] \<or> secret = [] then (Some ''client id/secret'', w)
      else if auth_url = [] \<or> token_url = [] then (Some ''authURL/tokenURL'', w)
      else (None, w))"

definition oauth2_adapter :: "nat \<Rightarrow> string \<Rightarrow> string \<Rightarrow> string \<Rightarrow> string \<Rightarrow> string \<Rightarrow> amodule" where
  "oauth2_adapter i name client_id secret auth_url token_url =
     \<lparr>md_name = ''auth.oauth2.'' @ name, md_init = oauth2_init client_id secret auth_url token_url,
      md_configure = (\<lambda>w. keep i (Plain ''config'') (None, w)), md_start = aphase_ok, md_shutdown = aphase_ok,
      md_value = offers ''*oauth2.Config'' i\<rparr>"

definition prometheus_adapter :: "nat \<Rightarrow> string \<Rightarrow> amodule" where
  "prometheus_adapter i name =
     \<lparr>md_name = ''observability.prometheus.'' @ name, md_init = aphase_ok, md_configure = (\<lambda>w. keep i (Plain ''registry'') (None, w)),
      md_start = aphase_ok, md_shutdown = aphase_ok, md_value = offers ''*prometheus.Client'' i\<rparr>"

definition soapclient_adapter :: "nat \<Rightarrow> string \<Rightarrow> string \<Rightarrow> amodule" where
  "soapclient_adapter i name endpoint =
     \<lparr>md_name = ''api.soap.client.'' @ name, md_init = require (endpoint \<noteq> []) ''endpoint'',
      md_configure = (\<lambda>w. keep i (Plain ''client'') (None, w)), md_start = aphase_ok, md_shutdown = aphase_ok,
      md_value = offers ''*soap.Client'' i\<rparr>"

definition s3_configure :: "outside \<Rightarrow> nat \<Rightarrow> aphase" where
  "s3_configure ext i w =
     (case ext i (Checks ''config'') of
        Some e \<Rightarrow> (Some e, w)
      | None \<Rightarrow> keep i (Plain ''client'') (ext i (Checks ''ListBuckets''), w))"

definition s3_adapter :: "outside \<Rightarrow> nat \<Rightarrow> string \<Rightarrow> string \<Rightarrow> amodule" where
  "s3_adapter ext i name region =
     \<lparr>md_name = ''storage.s3.'' @ name, md_init = require (region \<noteq> []) ''region'', md_configure = s3_configure ext i,
      md_start = aphase_ok, md_shutdown = aphase_ok, md_value = offers ''*s3.Client'' i\<rparr>"

definition otel_init :: "string \<Rightarrow> string \<Rightarrow> aphase" where
  "otel_init service endpoint w =
     (if service = [] then (Some ''serviceName'', w) else if endpoint = [] then (Some ''endpoint'', w) else (None, w))"

text \<open>The provider owns the exporter and shuts it down; when the resource cannot be merged nobody does.\<close>

definition otel_configure :: "outside \<Rightarrow> nat \<Rightarrow> aphase" where
  "otel_configure ext i w =
     (case open_part ext i OtelExporter w of
        (Some e, w1) \<Rightarrow> (Some e, w1)
      | (None, w1) \<Rightarrow>
          (case ext i (Checks ''merge'') of
             Some e \<Rightarrow> (Some e, w1)
           | None \<Rightarrow>
               (None, set_field i OtelExporter (set_field i TracerProvider
                  (w1\<lparr>aw_open := (i, TracerProvider) # aw_open w1, aw_tracer := Some i\<rparr>)))))"

definition otel_shutdown :: "outside \<Rightarrow> nat \<Rightarrow> aphase" where
  "otel_shutdown ext i w =
     (if holds i TracerProvider w then close_each ext i [TracerProvider, OtelExporter] w else (None, w))"

definition otel_adapter :: "outside \<Rightarrow> nat \<Rightarrow> string \<Rightarrow> string \<Rightarrow> string \<Rightarrow> amodule" where
  "otel_adapter ext i name service endpoint =
     \<lparr>md_name = ''observability.opentelemetry.'' @ name, md_init = otel_init service endpoint, md_configure = otel_configure ext i,
      md_start = aphase_ok, md_shutdown = otel_shutdown ext i, md_value = offers ''*opentelemetry.Client'' i\<rparr>"

subsection \<open>The contract\<close>

text \<open>Parts that are nobody's: a pool that did not answer its ping, an exporter whose resource could not be merged.\<close>

definition abandoned :: "outside \<Rightarrow> nat \<Rightarrow> part \<Rightarrow> bool" where
  "abandoned ext i p \<longleftrightarrow> (p = SqlPool \<and> ext i (Checks ''ping'') \<noteq> None) \<or> (p = OtelExporter \<and> ext i (Checks ''merge'') \<noteq> None)"

text \<open>A part that is open is held by its adapter, or abandoned. Clients and plain objects are never open.\<close>

definition openable :: "part \<Rightarrow> bool" where
  "openable p \<longleftrightarrow> p \<noteq> KafkaClient \<and> (\<forall>s. p \<noteq> Plain s)"

definition owned :: "outside \<Rightarrow> nat \<Rightarrow> adapter_world \<Rightarrow> bool" where
  "owned ext i w \<longleftrightarrow> (\<forall>p. (i, p) \<in> set (aw_open w) \<longrightarrow> (openable p \<and> holds i p w) \<or> abandoned ext i p)"

definition released :: "outside \<Rightarrow> nat \<Rightarrow> adapter_world \<Rightarrow> bool" where
  "released ext i w \<longleftrightarrow> (\<forall>p. (i, p) \<in> set (aw_open w) \<longrightarrow> abandoned ext i p)"

definition others_kept :: "nat \<Rightarrow> adapter_world \<Rightarrow> adapter_world \<Rightarrow> bool" where
  "others_kept i w w' \<longleftrightarrow> (\<forall>j p. j \<noteq> i \<longrightarrow> ((j, p) \<in> set (aw_open w') \<longleftrightarrow> (j, p) \<in> set (aw_open w)) \<and> aw_fields w' j = aw_fields w j)"

text \<open>
  The contract of an adapter, as the lifecycle relies on it. \<open>inv\<close> is what its fields are once it is configured; a
  \<open>Configure\<close> that fails leaves the fields as they were, empty, and \<open>Shutdown\<close> releases everything that is not abandoned,
  also what a client has handed out.
\<close>

locale adapter =
  fixes ext :: outside and i :: nat and md :: amodule and inv :: "part list \<Rightarrow> bool"
  assumes init_pure: "md_init md w = (e, w') \<Longrightarrow> w' = w"
    and configures: "owned ext i w \<Longrightarrow> aw_fields w i = [] \<Longrightarrow> md_configure md w = (e, w') \<Longrightarrow>
      owned ext i w' \<and> others_kept i w w' \<and> (if e = None then inv (aw_fields w' i) else aw_fields w' i = [])"
    and starts: "owned ext i w \<Longrightarrow> inv (aw_fields w i) \<Longrightarrow> md_start md w = (e, w') \<Longrightarrow>
      owned ext i w' \<and> others_kept i w w' \<and> inv (aw_fields w' i)"
    and hands_out: "inv fs \<Longrightarrow> KafkaClient \<in> set fs \<Longrightarrow> inv (fs @ [KafkaWriter n]) \<and> inv (fs @ [KafkaReader n])"
    and shuts_down: "owned ext i w \<Longrightarrow> inv (aw_fields w i) \<Longrightarrow> md_shutdown md w = (e, w') \<Longrightarrow>
      released ext i w' \<and> others_kept i w w' \<and> aw_fields w' = aw_fields w"

lemmas adapter_defs = owned_def released_def openable_def others_kept_def holds_def set_field_def open_part_def close_part_def close_held_def
  keep_def aphase_ok_def require_def

lemma close_each_world:
  "close_each ext i ps w = (e, w') \<Longrightarrow> set (aw_open w') = {(j, p) \<in> set (aw_open w). \<not> (j = i \<and> p \<in> set ps)} \<and> aw_fields w' = aw_fields w"
proof (induction ps arbitrary: w e)
  case (Cons p ps)
  obtain e2 w2 where r: "close_each ext i ps (w\<lparr>aw_open := removeAll (i, p) (aw_open w)\<rparr>) = (e2, w2)" by fastforce
  with Cons.prems have w': "w' = w2" by (auto simp: close_part_def)
  from Cons.IH r show ?case by (auto simp: w')
qed auto

lemma released_close_part:
  "owned ext i w \<Longrightarrow> close_part ext i q w = (e, w') \<Longrightarrow> \<forall>p\<in>set (aw_fields w i). openable p \<longrightarrow> p = q \<Longrightarrow>
   released ext i w' \<and> others_kept i w w' \<and> aw_fields w' = aw_fields w"
  by (auto simp: owned_def released_def close_part_def others_kept_def holds_def)

lemma keep_plain:
  "owned ext i w \<Longrightarrow> aw_fields w i = [] \<Longrightarrow> keep i (Plain s) (None, w) = (e, w') \<Longrightarrow>
   owned ext i w' \<and> others_kept i w w' \<and> e = None \<and> aw_fields w' i = [Plain s]"
  by (auto simp: keep_def owned_def others_kept_def set_field_def holds_def)

lemma others_kept_refl [simp]: "others_kept i w w"
  by (simp add: others_kept_def)

lemma released_nothing: "owned ext i w \<Longrightarrow> \<forall>p\<in>set (aw_fields w i). \<not> openable p \<Longrightarrow> released ext i w"
  by (auto simp: owned_def released_def holds_def)

interpretation postgres: adapter ext i "postgres_adapter ext i name dsn" "\<lambda>fs. set fs = {SqlPool}" for ext i name dsn
  by unfold_locales (auto simp: postgres_adapter_def postgres_configure_def adapter_defs abandoned_def dest!: sym [of "Some x" for x] split: option.splits if_splits prod.splits)

interpretation nats: adapter ext i "nats_adapter ext i name url" "\<lambda>fs. set fs = {NatsConn}" for ext i name url
  by unfold_locales (auto simp: nats_adapter_def nats_configure_def adapter_defs abandoned_def dest!: sym [of "Some x" for x] split: option.splits if_splits prod.splits)

interpretation rabbit: adapter ext i "rabbit_adapter ext i name url" "\<lambda>fs. set fs = {AmqpConn, AmqpChannel}" for ext i name url
  by unfold_locales
    (auto simp: rabbit_adapter_def rabbit_configure_def rabbit_shutdown_def adapter_defs abandoned_def dest!: sym [of "Some x" for x] split: option.splits if_splits prod.splits)

definition kafka_fields :: "part list \<Rightarrow> bool" where
  "kafka_fields fs \<longleftrightarrow> KafkaClient \<in> set fs \<and> (\<forall>p\<in>set fs. p = KafkaClient \<or> is_writer p \<or> is_reader p)"

interpretation kafka: adapter ext i "kafka_adapter ext i brokers" kafka_fields for ext i brokers
proof (unfold_locales, goal_cases)
  case (5 w e w')
  then have c: "close_each ext i (filter is_writer (aw_fields w i) @ filter is_reader (aw_fields w i)) w = (e, w')"
    by (simp add: kafka_adapter_def kafka_shutdown_def kafka_close_def holds_def kafka_fields_def)
  have "\<not> abandoned ext i KafkaClient" by (simp add: abandoned_def)
  with close_each_world[OF c] 5 show ?case by (auto simp: adapter_defs kafka_fields_def)
qed (auto simp: kafka_adapter_def kafka_configure_def kafka_fields_def is_writer_def is_reader_def adapter_defs abandoned_def Let_def
    dest!: sym [of "Some x" for x] split: option.splits if_splits prod.splits)

definition server_fields :: "part list \<Rightarrow> bool" where
  "server_fields fs \<longleftrightarrow> (\<forall>p\<in>set fs. p = Listener \<or> p = Plain ''router'' \<or> p = Plain ''server'') \<and> (Listener \<in> set fs \<longrightarrow> Plain ''server'' \<in> set fs)"

lemma server_no_client: "server_fields fs \<Longrightarrow> KafkaClient \<notin> set fs"
  by (fastforce simp: server_fields_def)

lemma server_router: "server_fields [Plain ''router'']" "server_fields []"
  by (simp_all add: server_fields_def)

lemma server_starts:
  assumes "owned ext i w" "server_fields (aw_fields w i)" "keep i (Plain ''server'') (listen ext i w) = (e, w')"
  shows "owned ext i w' \<and> others_kept i w w' \<and> server_fields (aw_fields w' i)"
proof (cases "ext i (Opens Listener)")
  case None
  with assms(3) have w': "w' = set_field i (Plain ''server'') (set_field i Listener (w\<lparr>aw_open := (i, Listener) # aw_open w\<rparr>))"
    by (simp add: listen_def keep_def open_part_def)
  have "owned ext i w'" using assms(1) unfolding w' adapter_defs by fastforce
  with assms(2) show ?thesis unfolding w' by (simp add: set_field_def others_kept_def server_fields_def)
next
  case (Some x)
  with assms(3) have "w' = w" by (simp add: listen_def keep_def open_part_def)
  with assms(1,2) show ?thesis by (simp add: others_kept_def)
qed

lemma server_stops:
  assumes "owned ext i w" "server_fields (aw_fields w i)" "(if holds i (Plain ''server'') w then close_part ext i Listener w else (None, w)) = (e, w')"
  shows "released ext i w' \<and> others_kept i w w' \<and> aw_fields w' = aw_fields w"
proof (cases "holds i (Plain ''server'') w")
  case True
  with assms(3) have c: "close_part ext i Listener w = (e, w')" by simp
  have "\<forall>p\<in>set (aw_fields w i). openable p \<longrightarrow> p = Listener" using assms(2) by (fastforce simp: server_fields_def openable_def)
  from released_close_part[OF assms(1) c this] show ?thesis .
next
  case False
  with assms(3) have w': "w' = w" by simp
  have "\<forall>p\<in>set (aw_fields w i). \<not> openable p" using assms(2) False by (fastforce simp: server_fields_def openable_def holds_def)
  from released_nothing[OF assms(1) this] show ?thesis by (simp add: w' others_kept_def)
qed

interpretation rest: adapter ext i "rest_adapter ext i addr" server_fields for ext i addr
proof (unfold_locales, goal_cases)
  case (2 w e w')
  then show ?case using keep_plain[of ext i w "''router''" e w'] by (simp add: rest_adapter_def server_router)
next
  case (3 w e w')
  then show ?case by (intro server_starts) (simp_all add: rest_adapter_def rest_start_def)
next
  case (4 fs n)
  then show ?case by (simp add: server_no_client)
next
  case (5 w e w')
  then show ?case by (intro server_stops) (simp_all add: rest_adapter_def rest_shutdown_def)
qed (simp add: rest_adapter_def require_def)

interpretation graphql: adapter ext i "graphql_adapter ext i addr" server_fields for ext i addr
proof (unfold_locales, goal_cases)
  case (2 w e w')
  then show ?case by (simp add: graphql_adapter_def aphase_ok_def server_router)
next
  case (3 w e w')
  then show ?case by (intro server_starts) (simp_all add: graphql_adapter_def graphql_start_def)
next
  case (4 fs n)
  then show ?case by (simp add: server_no_client)
next
  case (5 w e w')
  then show ?case by (intro server_stops) (simp_all add: graphql_adapter_def graphql_shutdown_def)
qed (simp add: graphql_adapter_def require_def)

definition grpc_fields :: "part list \<Rightarrow> bool" where
  "grpc_fields fs \<longleftrightarrow> (\<forall>p\<in>set fs. p = Listener \<or> p = Plain ''server'') \<and> Plain ''server'' \<in> set fs"

interpretation grpc: adapter ext i "grpc_adapter ext i addr" grpc_fields for ext i addr
proof (unfold_locales, goal_cases)
  case (3 w e w')
  then have l: "keep i Listener (open_part ext i Listener w) = (e, w')" by (simp add: grpc_adapter_def listen_def)
  show ?case
  proof (cases "ext i (Opens Listener)")
    case None
    with l have w': "w' = set_field i Listener (w\<lparr>aw_open := (i, Listener) # aw_open w\<rparr>)" by (simp add: keep_def open_part_def)
    have "owned ext i w'" using 3(1) unfolding w' adapter_defs by fastforce
    with 3(2) show ?thesis unfolding w' by (simp add: set_field_def others_kept_def grpc_fields_def)
  next
    case (Some x)
    with l 3 show ?thesis by (simp add: keep_def open_part_def others_kept_def)
  qed
next
  case (5 w e w')
  then have c: "(if holds i (Plain ''server'') w then (None, snd (close_part ext i Listener w)) else (None, w)) = (e, w')"
    by (simp add: grpc_adapter_def grpc_shutdown_def)
  from 5(2) have "holds i (Plain ''server'') w" by (simp add: grpc_fields_def holds_def)
  with c obtain e2 where c2: "close_part ext i Listener w = (e2, w')" by (simp add: close_part_def)
  have "\<forall>p\<in>set (aw_fields w i). openable p \<longrightarrow> p = Listener" using 5(2) by (fastforce simp: grpc_fields_def openable_def)
  from released_close_part[OF 5(1) c2 this] show ?case .
next
  case (2 w e w')
  then show ?case using keep_plain[of ext i w "''server''" e w'] by (simp add: grpc_adapter_def grpc_fields_def)
next
  case (4 fs n)
  then show ?case by (fastforce simp: grpc_fields_def)
qed (simp add: grpc_adapter_def require_def)

interpretation cache: adapter ext i "cache_adapter ext i" "\<lambda>fs. set fs = {Sweeper}" for ext i
  by unfold_locales (auto simp: cache_adapter_def adapter_defs abandoned_def dest!: sym [of "Some x" for x] split: option.splits if_splits prod.splits)

definition plain_fields :: "part list \<Rightarrow> bool" where
  "plain_fields fs \<longleftrightarrow> (\<forall>p\<in>set fs. \<exists>s. p = Plain s)"

interpretation oauth2: adapter ext i "oauth2_adapter i name client_id secret auth_url token_url" plain_fields for ext i name client_id secret auth_url token_url
  by unfold_locales (auto simp: oauth2_adapter_def oauth2_init_def plain_fields_def adapter_defs split: if_splits)

interpretation prometheus: adapter ext i "prometheus_adapter i name" plain_fields for ext i name
  by unfold_locales (auto simp: prometheus_adapter_def plain_fields_def adapter_defs)

interpretation soapclient: adapter ext i "soapclient_adapter i name endpoint" plain_fields for ext i name endpoint
  by unfold_locales (auto simp: soapclient_adapter_def plain_fields_def adapter_defs split: if_splits)

interpretation s3: adapter ext i "s3_adapter ext i name region" plain_fields for ext i name region
  by unfold_locales (auto simp: s3_adapter_def s3_configure_def plain_fields_def adapter_defs dest!: sym [of "Some x" for x] split: option.splits if_splits)

interpretation otel: adapter ext i "otel_adapter ext i name service endpoint" "\<lambda>fs. set fs = {TracerProvider, OtelExporter}" for ext i name service endpoint
  by unfold_locales
    (auto simp: otel_adapter_def otel_init_def otel_configure_def otel_shutdown_def adapter_defs abandoned_def dest!: sym [of "Some x" for x]
      split: option.splits if_splits prod.splits)

subsection \<open>An application of adapters\<close>

datatype adapter_kind =
    Postgres string string | Nats string string | Rabbit string string | Kafka "string list" | Rest string | Graphql string | Grpc string
  | MemoryCache | OAuth2 string string string string string | Prometheus string | SoapClient string string | S3 string string
  | Otel string string string

fun adapter_of :: "outside \<Rightarrow> nat \<Rightarrow> adapter_kind \<Rightarrow> amodule" where
  "adapter_of ext i (Postgres name dsn) = postgres_adapter ext i name dsn"
| "adapter_of ext i (Nats name url) = nats_adapter ext i name url"
| "adapter_of ext i (Rabbit name url) = rabbit_adapter ext i name url"
| "adapter_of ext i (Kafka brokers) = kafka_adapter ext i brokers"
| "adapter_of ext i (Rest addr) = rest_adapter ext i addr"
| "adapter_of ext i (Graphql addr) = graphql_adapter ext i addr"
| "adapter_of ext i (Grpc addr) = grpc_adapter ext i addr"
| "adapter_of ext i MemoryCache = cache_adapter ext i"
| "adapter_of ext i (OAuth2 name client_id secret auth_url token_url) = oauth2_adapter i name client_id secret auth_url token_url"
| "adapter_of ext i (Prometheus name) = prometheus_adapter i name"
| "adapter_of ext i (SoapClient name endpoint) = soapclient_adapter i name endpoint"
| "adapter_of ext i (S3 name region) = s3_adapter ext i name region"
| "adapter_of ext i (Otel name service endpoint) = otel_adapter ext i name service endpoint"

fun fields_of :: "adapter_kind \<Rightarrow> part list \<Rightarrow> bool" where
  "fields_of (Postgres _ _) = (\<lambda>fs. set fs = {SqlPool})"
| "fields_of (Nats _ _) = (\<lambda>fs. set fs = {NatsConn})"
| "fields_of (Rabbit _ _) = (\<lambda>fs. set fs = {AmqpConn, AmqpChannel})"
| "fields_of (Kafka _) = kafka_fields"
| "fields_of (Rest _) = server_fields"
| "fields_of (Graphql _) = server_fields"
| "fields_of (Grpc _) = grpc_fields"
| "fields_of MemoryCache = (\<lambda>fs. set fs = {Sweeper})"
| "fields_of (Otel _ _ _) = (\<lambda>fs. set fs = {TracerProvider, OtelExporter})"
| "fields_of (OAuth2 _ _ _ _ _) = plain_fields"
| "fields_of (Prometheus _) = plain_fields"
| "fields_of (SoapClient _ _) = plain_fields"
| "fields_of (S3 _ _) = plain_fields"

lemma kind_adapter: "adapter ext i (adapter_of ext i k) (fields_of k)"
  by (cases k) (simp_all add: postgres.adapter_axioms nats.adapter_axioms rabbit.adapter_axioms kafka.adapter_axioms rest.adapter_axioms
      graphql.adapter_axioms grpc.adapter_axioms cache.adapter_axioms oauth2.adapter_axioms prometheus.adapter_axioms
      soapclient.adapter_axioms s3.adapter_axioms otel.adapter_axioms)

interpretation kind: adapter ext i "adapter_of ext i k" "fields_of k" for ext i k
  by (rule kind_adapter)

text \<open>What holds between two calls of the lifecycle: the fields of every active adapter are those of its kind.\<close>

definition modules_of :: "outside \<Rightarrow> (nat \<times> adapter_kind) list \<Rightarrow> amodule list" where
  "modules_of ext aks = map (\<lambda>(i, k). adapter_of ext i k) aks"

definition settled :: "outside \<Rightarrow> (nat \<times> adapter_kind) list \<Rightarrow> adapter_world \<Rightarrow> bool" where
  "settled ext aks w \<longleftrightarrow> distinct (map fst aks) \<and> (\<forall>i. owned ext i w) \<and> (\<forall>i k. (i, k) \<in> set aks \<longrightarrow> fields_of k (aw_fields w i)) \<and>
     (\<forall>i. i \<notin> fst ` set aks \<longrightarrow> aw_fields w i = [])"

lemma owned_others: "\<forall>j. owned ext j w \<Longrightarrow> others_kept i w w' \<Longrightarrow> owned ext i w' \<Longrightarrow> owned ext j w'"
  by (cases "j = i") (auto simp: owned_def others_kept_def holds_def)

lemma fields_others: "others_kept i w w' \<Longrightarrow> j \<noteq> i \<Longrightarrow> aw_fields w' j = aw_fields w j"
  by (simp add: others_kept_def)

lemma settled_change:
  assumes "settled ext aks w" "(i, k) \<in> set aks" "owned ext i w'" "others_kept i w w'" "fields_of k (aw_fields w' i)"
  shows "settled ext aks w'"
proof -
  have "k' = k" if "(i, k') \<in> set aks" for k'
    using assms(1,2) that eq_key_imp_eq_value[of aks i k' k] by (simp add: settled_def)
  moreover have "i \<in> fst ` set aks" using assms(2) by force
  ultimately show ?thesis using assms owned_others[OF _ assms(4,3)] unfolding settled_def
    by (metis fields_others)
qed

lemma add_settled:
  assumes "settled ext aks (lc_world m)" "i \<notin> fst ` set aks" "lifecycle_add (adapter_of ext i k) m = (e, m')"
  shows "settled ext (if e = None then aks @ [(i, k)] else aks) (lc_world m') \<and>
    lc_active m' = (if e = None then lc_active m @ [adapter_of ext i k] else lc_active m)"
proof -
  let ?md = "adapter_of ext i k" and ?w = "lc_world m"
  obtain e1 w1 where i: "md_init ?md ?w = (e1, w1)" by fastforce
  obtain e2 w2 where c: "md_configure ?md w1 = (e2, w2)" by fastforce
  have w1: "w1 = ?w" by (rule kind.init_pure[OF i])
  from assms(1,2) have "owned ext i ?w" "aw_fields ?w i = []" by (simp_all add: settled_def)
  from kind.configures[OF this c[unfolded w1]]
  have w2: "owned ext i w2" "others_kept i ?w w2" "if e2 = None then fields_of k (aw_fields w2 i) else aw_fields w2 i = []" by simp_all
  have ow: "\<forall>j. owned ext j w2" using assms(1) owned_others[OF _ w2(2,1)] by (simp add: settled_def)
  have ok: "settled ext (aks @ [(i, k)]) w2" if "e2 = None"
    using assms(1,2) w2(3) that ow fields_others[OF w2(2)] unfolding settled_def by (auto simp: image_iff)
  have ko: "settled ext aks w2" if "e2 \<noteq> None"
  proof -
    have "aw_fields w2 j = aw_fields ?w j" for j
      using fields_others[OF w2(2), of j] w2(3) that \<open>aw_fields ?w i = []\<close> by (cases "j = i") auto
    with assms(1) ow show ?thesis by (simp add: settled_def)
  qed
  have "lc_world m' = (if e1 = None then w2 else ?w)" "e = None \<longleftrightarrow> e1 = None \<and> e2 = None"
    using assms(3) i c by (cases e1; cases e2; auto simp: lifecycle_add_def run_phase_def w1 Let_def)+
  with ok ko assms(1) lifecycle_add_cases[OF assms(3)] show ?thesis by (auto split: if_splits)
qed

lemma add_modules_settled:
  "settled ext aks (lc_world m) \<Longrightarrow> distinct (map fst (aks @ bks)) \<Longrightarrow> lc_active m = modules_of ext aks \<Longrightarrow>
   \<exists>cks. settled ext (aks @ cks) (lc_world (add_modules (modules_of ext bks) m)) \<and> set cks \<subseteq> set bks \<and>
     lc_active (add_modules (modules_of ext bks) m) = modules_of ext (aks @ cks)"
proof (induction bks arbitrary: aks m)
  case Nil
  then show ?case by (intro exI[of _ "[]"]) (simp add: modules_of_def)
next
  case (Cons b bks)
  obtain i k where b: "b = (i, k)" by (cases b)
  obtain e m1 where l: "lifecycle_add (adapter_of ext i k) m = (e, m1)" by fastforce
  have n: "i \<notin> fst ` set aks" using Cons.prems(2) by (auto simp: b)
  note s = add_settled[OF Cons.prems(1) n l]
  have r: "add_modules (modules_of ext (b # bks)) m = add_modules (modules_of ext bks) m1" by (simp add: modules_of_def b l)
  show ?case
  proof (cases "e = None")
    case True
    with s Cons.prems have "settled ext (aks @ [b]) (lc_world m1)" "distinct (map fst ((aks @ [b]) @ bks))" "lc_active m1 = modules_of ext (aks @ [b])"
      by (simp_all add: b modules_of_def)
    from Cons.IH[OF this] obtain cks where c: "settled ext ((aks @ [b]) @ cks) (lc_world (add_modules (modules_of ext bks) m1))" "set cks \<subseteq> set bks"
      "lc_active (add_modules (modules_of ext bks) m1) = modules_of ext ((aks @ [b]) @ cks)" by blast
    then show ?thesis unfolding r by (intro exI[of _ "b # cks"]) auto
  next
    case False
    with s Cons.prems have "settled ext aks (lc_world m1)" "distinct (map fst (aks @ bks))" "lc_active m1 = modules_of ext aks" by simp_all
    from Cons.IH[OF this] show ?thesis unfolding r by auto
  qed
qed

lemma start_settled:
  "settled ext aks (lc_world m) \<Longrightarrow> set bks \<subseteq> set aks \<Longrightarrow> start_modules (modules_of ext bks) m = (e, m') \<Longrightarrow>
   settled ext aks (lc_world m') \<and> lc_active m' = lc_active m"
proof (induction bks arbitrary: m)
  case Nil
  then show ?case by (simp add: modules_of_def)
next
  case (Cons b bks)
  obtain i k where b: "b = (i, k)" by (cases b)
  let ?md = "adapter_of ext i k"
  obtain e1 w1 where st: "md_start ?md (lc_world m) = (e1, w1)" by fastforce
  have o: "owned ext i (lc_world m)" "fields_of k (aw_fields (lc_world m) i)" using Cons.prems(1,2) by (auto simp: settled_def b)
  have k: "(i, k) \<in> set aks" using Cons.prems(2) by (simp add: b)
  from kind.starts[OF o st] have w1: "settled ext aks w1" by (intro settled_change[OF Cons.prems(1) k]) blast+
  let ?m1 = "m\<lparr>lc_world := w1, lc_calls := lc_calls m @ [CStart (md_name ?md)]\<rparr>"
  have r: "run_phase (md_start ?md) (CStart (md_name ?md)) m = (e1, ?m1)" by (simp add: run_phase_def st)
  show ?case
  proof (cases e1)
    case None
    with Cons.prems(3) r have "start_modules (modules_of ext bks) ?m1 = (e, m')" by (simp add: modules_of_def b)
    with Cons.IH[of ?m1] w1 Cons.prems(2) show ?thesis by simp
  next
    case (Some x)
    with Cons.prems(3) r w1 show ?thesis by (auto simp: modules_of_def b)
  qed
qed

lemma shutdown_settled:
  "settled ext aks (lc_world m) \<Longrightarrow> set bks \<subseteq> set aks \<Longrightarrow> shutdown_modules (modules_of ext bks) m = (es, m') \<Longrightarrow>
   settled ext aks (lc_world m') \<and> (\<forall>i. i \<in> fst ` set bks \<or> released ext i (lc_world m) \<longrightarrow> released ext i (lc_world m'))"
proof (induction bks arbitrary: m es)
  case Nil
  then show ?case by (simp add: modules_of_def)
next
  case (Cons b bks)
  obtain i k where b: "b = (i, k)" by (cases b)
  let ?md = "adapter_of ext i k"
  obtain e1 w1 where st: "md_shutdown ?md (lc_world m) = (e1, w1)" by fastforce
  have o: "owned ext i (lc_world m)" "fields_of k (aw_fields (lc_world m) i)" using Cons.prems(1,2) by (auto simp: settled_def b)
  note d = kind.shuts_down[OF o st]
  have ow: "owned ext i w1" using d by (auto simp: owned_def released_def)
  have k: "(i, k) \<in> set aks" using Cons.prems(2) by (simp add: b)
  have f: "fields_of k (aw_fields w1 i)" using d o(2) by simp
  from d have "others_kept i (lc_world m) w1" by blast
  from settled_change[OF Cons.prems(1) k ow this f] have w1: "settled ext aks w1" .
  have rel: "released ext j w1" if "j = i \<or> released ext j (lc_world m)" for j
    using d that by (cases "j = i") (auto simp: released_def others_kept_def)
  let ?m1 = "m\<lparr>lc_world := w1, lc_calls := lc_calls m @ [CShutdown (md_name ?md)]\<rparr>"
  have r: "run_phase (md_shutdown ?md) (CShutdown (md_name ?md)) m = (e1, ?m1)" by (simp add: run_phase_def st)
  obtain es1 m2 where s: "shutdown_modules (modules_of ext bks) ?m1 = (es1, m2)" by fastforce
  with Cons.prems(3) r have m': "m' = m2" by (simp add: modules_of_def b split: prod.splits)
  have "settled ext aks (lc_world ?m1)" "set bks \<subseteq> set aks" using w1 Cons.prems(2) by simp_all
  from Cons.IH[OF this s[folded m']] rel show ?case by (auto simp: b)
qed

text \<open>What the application asks of the Kafka clients between the phases; a client that is not there hands out nothing.\<close>

fun hand_out :: "(bool \<times> nat) list \<Rightarrow> adapter_world \<Rightarrow> adapter_world" where
  "hand_out [] w = w"
| "hand_out ((b, i) # qs) w =
     (case if b then kafka_producer i w else kafka_consumer i w of None \<Rightarrow> hand_out qs w | Some (_, w1) \<Rightarrow> hand_out qs w1)"

lemma hand_out_settled: "settled ext aks w \<Longrightarrow> settled ext aks (hand_out qs w)"
proof (induction qs arbitrary: w)
  case (Cons q qs)
  obtain b i where q: "q = (b, i)" by (cases q)
  show ?case
  proof (cases "holds i KafkaClient w")
    case False
    with Cons show ?thesis by (simp add: q kafka_producer_def kafka_consumer_def)
  next
    case True
    obtain p n where p: "(if b then kafka_producer i w else kafka_consumer i w) = Some (p, set_field i p (w\<lparr>aw_open := (i, p) # aw_open w\<rparr>))"
      "p = KafkaWriter n \<or> p = KafkaReader n"
      using True by (cases b) (auto simp: kafka_producer_def kafka_consumer_def Let_def)
    let ?w1 = "set_field i p (w\<lparr>aw_open := (i, p) # aw_open w\<rparr>)"
    from True Cons.prems obtain k where k: "(i, k) \<in> set aks" unfolding settled_def holds_def
      by (metis empty_iff imageE list.set(1) prod.collapse)
    have f: "aw_fields ?w1 i = aw_fields w i @ [p]" by (simp add: set_field_def)
    have "fields_of k (aw_fields w i)" using Cons.prems k by (simp add: settled_def)
    from kind.hands_out[OF this] True p(2) have inv: "fields_of k (aw_fields ?w1 i)" unfolding f holds_def by auto
    have oth: "others_kept i w ?w1" by (auto simp: others_kept_def set_field_def)
    have "owned ext i w" using Cons.prems by (simp add: settled_def)
    with p(2) have ow: "owned ext i ?w1" by (auto simp: owned_def holds_def set_field_def openable_def)
    from Cons.IH[OF settled_change[OF Cons.prems k ow oth inv]] p(1) show ?thesis by (simp add: q)
  qed
qed simp

definition empty_world :: adapter_world where
  "empty_world = \<lparr>aw_open = [], aw_fields = (\<lambda>_. []), aw_tracer = None\<rparr>"

lemma empty_settled: "settled ext [] empty_world"
  by (simp add: settled_def empty_world_def owned_def)

text \<open>A whole run: the adapters are added, used, started, used and shut down.\<close>

definition adapters_run ::
  "outside \<Rightarrow> (nat \<times> adapter_kind) list \<Rightarrow> (bool \<times> nat) list \<Rightarrow> (bool \<times> nat) list \<Rightarrow> lifecycle_error list \<times> adapter_world manager"
where
  "adapters_run ext aks before later =
     (let m = add_modules (modules_of ext aks) (co_lifecycle (core_new empty_world));
          m1 = snd (start_all (m\<lparr>lc_world := hand_out before (lc_world m)\<rparr>))
      in shutdown_all (m1\<lparr>lc_world := hand_out later (lc_world m1)\<rparr>))"


definition flaky :: outside where
  "flaky i c = (if (i, c) \<in> {(1, Opens AmqpChannel), (3, Opens Listener), (2, Closes (KafkaWriter 0)), (4, Checks ''ping'')} then Some ''down'' else None)"


end
